(* ===== verification/Prelude.thy ===== *)
theory Prelude
  imports Main "HOL-Library.Word"
begin

text \<open>
  Shared vocabulary of the development: machine integers and byte strings, the error
  values of the program and its \<open>Result\<close> plumbing, big-endian integers, and the
  generic lemmas the components share.

  \<^item> A Rust \<open>&[u8]\<close> / \<open>Vec<u8>\<close> is a \<open>bytes\<close> (a list of \<open>8 word\<close>).
  \<^item> A Rust \<open>String\<close> / \<open>&str\<close> is a \<open>string\<close>: its characters are the bytes of
    the UTF-8 encoding, so \<open>length\<close> is \<open>str::len\<close>, and \<open>as_bytes\<close> is the
    byte view of it.
  \<^item> An \<open>anyhow::Error\<close> is the list of its causes, outermost context first; a
    \<open>Result\<close> is a sum whose left side is the error. A panic is an error whose cause
    is \<open>Panic\<close>.
  \<^item> A \<open>usize\<close> is a \<open>nat\<close>; conversions to a narrower width are guarded the way
    the code guards them.
\<close>

section \<open>Collections\<close>

named_theorems res_simps \<open>rewrite rules for the result plumbing\<close>
named_theorems byte_simps \<open>rewrite rules for byte strings and big-endian integers\<close>

section \<open>Types\<close>

type_synonym byte = "8 word"
type_synonym u32 = "32 word"
type_synonym u64 = "64 word"
type_synonym bytes = "byte list"

text \<open>The kinds of \<open>std::io::Error\<close> the code tells apart.\<close>

datatype io_kind =
    NotFound
  | PermissionDenied
  | AlreadyExists
  | WouldBlock
  | TimedOut
  | UnexpectedEof
  | WriteZero
  | OtherIo string

text \<open>
  The return codes of \<open>tss_esapi\<close> the code tells apart: a code of format one or an error of
  format zero from the TPM or its resource manager, and a code of the transport.
\<close>

datatype tss_layer = FromTpm | FromResourceManager
datatype tss_format_one = AuthFail | BadAuth | BadHierarchy | OtherFormatOne
datatype tss_format_zero = AuthType | AuthMissing | AuthUnavailable | NvAuthorization | OtherFormatZero
datatype tss_base =
  NoConnection | TctiIoError | NotPermitted | NotSupported | IncompatibleTcti | BadTctiStructure | OtherBase

datatype tss_error =
    FormatOne tss_layer tss_format_one
  | FormatZeroError tss_layer tss_format_zero
  | TctiCode tss_base
  | OtherTss

text \<open>
  A cause of an error chain: a message (a \<open>bail!\<close>, an \<open>anyhow!\<close> or a context), a
  standard-library I/O error, an error value of a third-party crate, an error of
  \<open>tss_esapi\<close> with its text, one of the typed errors of the program, or a panic.
\<close>

datatype cause =
    Msg string
  | Io io_kind
  | Lib string
  | KeychainStatus int
  | KeychainAuthorizationRequired
  | KeychainAuthorizationCooldown nat
  | KeychainAuthorizationBusy
  | Tss tss_error string
  | Panic string

type_synonym err = "cause list"
type_synonym 'a res = "err + 'a"

section \<open>Result plumbing\<close>

text \<open>\<open>bail!(m)\<close> and \<open>Err(anyhow!(m))\<close>.\<close>

definition bail :: "string \<Rightarrow> 'a res" where
  "bail m = Inl [Msg m]"

text \<open>The \<open>?\<close> operator: the rest of the function runs on the value.\<close>

definition and_then :: "'a res \<Rightarrow> ('a \<Rightarrow> 'b res) \<Rightarrow> 'b res" where
  "and_then m f = (case m of Inl e \<Rightarrow> Inl e | Inr x \<Rightarrow> f x)"

text \<open>\<open>Result::context(m)\<close> puts a message in front of the chain.\<close>

definition with_context :: "string \<Rightarrow> 'a res \<Rightarrow> 'a res" where
  "with_context m r = (case r of Inl e \<Rightarrow> Inl (Msg m # e) | Inr x \<Rightarrow> Inr x)"

text \<open>\<open>Option::context(m)\<close>, and \<open>ok_or_else(|| anyhow!(m))\<close>.\<close>

definition ok_or :: "string \<Rightarrow> 'a option \<Rightarrow> 'a res" where
  "ok_or m x = (case x of None \<Rightarrow> bail m | Some v \<Rightarrow> Inr v)"

text \<open>\<open>map_err(|_| anyhow!(m))\<close>: the cause is dropped.\<close>

definition replace_err :: "string \<Rightarrow> 'a res \<Rightarrow> 'a res" where
  "replace_err m r = (case r of Inl e \<Rightarrow> bail m | Inr x \<Rightarrow> Inr x)"

text \<open>\<open>expect(m)\<close>.\<close>

definition expect_some :: "string \<Rightarrow> 'a option \<Rightarrow> 'a res" where
  "expect_some m x = (case x of None \<Rightarrow> Inl [Panic m] | Some v \<Rightarrow> Inr v)"

definition map_res :: "('a \<Rightarrow> 'b) \<Rightarrow> 'a res \<Rightarrow> 'b res" where
  "map_res f r = (case r of Inl e \<Rightarrow> Inl e | Inr x \<Rightarrow> Inr (f x))"

definition is_ok :: "'a res \<Rightarrow> bool" where
  "is_ok r = (case r of Inl _ \<Rightarrow> False | Inr _ \<Rightarrow> True)"

lemma and_then_Inr [simp]: "and_then (Inr x) f = f x"
  and and_then_Inl [simp]: "and_then (Inl e) f = Inl e"
  by (simp_all add: and_then_def)

lemma and_then_eq_Inr [res_simps]:
  "and_then m f = Inr y \<longleftrightarrow> (\<exists>x. m = Inr x \<and> f x = Inr y)"
  by (cases m) (auto simp: and_then_def)

lemma and_then_eq_Inl [res_simps]:
  "and_then m f = Inl e \<longleftrightarrow> m = Inl e \<or> (\<exists>x. m = Inr x \<and> f x = Inl e)"
  by (cases m) (auto simp: and_then_def)

lemma and_then_cong [fundef_cong]:
  "\<lbrakk>m = m'; \<And>x. m' = Inr x \<Longrightarrow> f x = f' x\<rbrakk> \<Longrightarrow> and_then m f = and_then m' f'"
  by (cases m') (auto simp: and_then_def)

lemma and_then_assoc: "and_then (and_then m f) g = and_then m (\<lambda>x. and_then (f x) g)"
  by (cases m) simp_all

lemma bail_neq_Inr [simp]: "bail m \<noteq> Inr x" "Inr x \<noteq> bail m"
  by (simp_all add: bail_def)

lemma and_then_bail [simp]: "and_then (bail m) f = bail m"
  by (simp add: bail_def)

lemma with_context_Inr [simp]: "with_context m (Inr x) = Inr x"
  and with_context_Inl [simp]: "with_context m (Inl e) = Inl (Msg m # e)"
  by (simp_all add: with_context_def)

lemma with_context_eq_Inr [res_simps]: "with_context m r = Inr x \<longleftrightarrow> r = Inr x"
  by (cases r) (simp_all add: with_context_def)

lemma ok_or_simps [simp]: "ok_or m (Some x) = Inr x" "ok_or m None = bail m"
  by (simp_all add: ok_or_def)

lemma ok_or_eq_Inr [res_simps]: "ok_or m x = Inr v \<longleftrightarrow> x = Some v"
  by (cases x) (simp_all add: ok_or_def)

lemma replace_err_simps [simp]: "replace_err m (Inr x) = Inr x" "replace_err m (Inl e) = bail m"
  by (simp_all add: replace_err_def)

lemma replace_err_eq_Inr [res_simps]: "replace_err m r = Inr x \<longleftrightarrow> r = Inr x"
  by (cases r) (simp_all add: replace_err_def)

lemma expect_some_simps [simp]:
  "expect_some m (Some x) = Inr x" "expect_some m None = Inl [Panic m]"
  by (simp_all add: expect_some_def)

lemma expect_some_eq_Inr [res_simps]: "expect_some m x = Inr v \<longleftrightarrow> x = Some v"
  by (cases x) (simp_all add: expect_some_def)

lemma map_res_simps [simp]: "map_res f (Inr x) = Inr (f x)" "map_res f (Inl e) = Inl e"
  by (simp_all add: map_res_def)

lemma map_res_bail [simp]: "map_res f (bail m) = bail m"
  by (simp add: bail_def)

lemma map_res_eq_Inr [res_simps]: "map_res f r = Inr y \<longleftrightarrow> (\<exists>x. r = Inr x \<and> y = f x)"
  by (cases r) (auto simp: map_res_def)

lemma is_ok_simps [simp]: "is_ok (Inr x)" "\<not> is_ok (Inl e)" "\<not> is_ok (bail m)"
  by (simp_all add: is_ok_def bail_def)

lemma with_context_bail [simp]: "with_context m (bail e) = Inl [Msg m, Msg e]"
  by (simp add: bail_def)

lemma is_ok_iff: "is_ok r \<longleftrightarrow> (\<exists>x. r = Inr x)"
  by (cases r) simp_all

lemma if_bail_eq_Inr [res_simps]:
  "(if c then bail m else r) = Inr x \<longleftrightarrow> \<not> c \<and> r = Inr x"
  "(if c then r else bail m) = Inr x \<longleftrightarrow> c \<and> r = Inr x"
  by simp_all

lemma if_Inl_eq_Inr [res_simps]:
  "(if c then Inl e else r) = Inr x \<longleftrightarrow> \<not> c \<and> r = Inr x"
  "(if c then r else Inl e) = Inr x \<longleftrightarrow> c \<and> r = Inr x"
  by simp_all

lemma case_option_eq_Inr [res_simps]:
  "(case x of None \<Rightarrow> Inl e | Some v \<Rightarrow> Inr v) = Inr y \<longleftrightarrow> x = Some y"
  by (cases x) simp_all

text \<open>An error chain carries no panic: the operation fails without aborting.\<close>

definition panic_free :: "'a res \<Rightarrow> bool" where
  "panic_free r = (case r of Inl e \<Rightarrow> list_all (\<lambda>c. case c of Panic _ \<Rightarrow> False | _ \<Rightarrow> True) e
                   | Inr _ \<Rightarrow> True)"

lemma panic_free_simps [simp]:
  "panic_free (Inr x)" "panic_free (bail m)" "\<not> panic_free (Inl [Panic m])"
  by (simp_all add: panic_free_def bail_def)

lemma panic_free_ok_or [simp]: "panic_free (ok_or m x)"
  by (cases x) simp_all

lemma panic_free_with_context [simp]: "panic_free (with_context m r) = panic_free r"
  by (cases r) (simp_all add: panic_free_def)

lemma panic_free_and_then:
  "\<lbrakk>panic_free m; \<And>x. m = Inr x \<Longrightarrow> panic_free (f x)\<rbrakk> \<Longrightarrow> panic_free (and_then m f)"
  by (cases m) (simp_all add: panic_free_def)

text \<open>The same for an operation on a state: the rest runs on the value and the new state.\<close>

definition then_st :: "'a res \<times> 's \<Rightarrow> ('a \<Rightarrow> 's \<Rightarrow> 'b res \<times> 's) \<Rightarrow> 'b res \<times> 's" where
  "then_st m f = (case m of (Inl e, s) \<Rightarrow> (Inl e, s) | (Inr x, s) \<Rightarrow> f x s)"

lemma then_st_simps [simp]:
  "then_st (Inl e, s) f = (Inl e, s)" "then_st (Inr x, s) f = f x s"
  "then_st (bail m, s) f = (bail m, s)"
  by (simp_all add: then_st_def bail_def)

lemma then_st_eq_Inr [res_simps]:
  "then_st m f = (Inr y, s') \<longleftrightarrow> (\<exists>x s. m = (Inr x, s) \<and> f x s = (Inr y, s'))"
  by (cases m; cases "fst m") auto

lemma then_st_cong [fundef_cong]:
  "\<lbrakk>m = m'; \<And>x s. m' = (Inr x, s) \<Longrightarrow> f x s = f' x s\<rbrakk> \<Longrightarrow> then_st m f = then_st m' f'"
  by (cases m'; cases "fst m'") auto

text \<open>A context on the result of an operation on a state.\<close>

definition context_st :: "string \<Rightarrow> 'a res \<times> 's \<Rightarrow> 'a res \<times> 's" where
  "context_st m rs = (with_context m (fst rs), snd rs)"

lemma context_st_simps [simp]:
  "context_st m (Inr x, s) = (Inr x, s)" "context_st m (Inl e, s) = (Inl (Msg m # e), s)"
  "snd (context_st m rs) = snd rs" "fst (context_st m rs) = with_context m (fst rs)"
  by (simp_all add: context_st_def)

lemma context_st_eq_Inr [res_simps]: "context_st m rs = (Inr x, s) \<longleftrightarrow> rs = (Inr x, s)"
  by (cases rs; cases "fst rs") (auto simp: context_st_def)

section \<open>Strings and bytes\<close>

text \<open>\<open>n as u8\<close>.\<close>

definition byte_of :: "nat \<Rightarrow> byte" where
  "byte_of n = of_nat n"

lemma unat_byte_of [simp]: "n < 256 \<Longrightarrow> unat (byte_of n) = n"
  by (simp add: byte_of_def unat_of_nat)

lemma unat_byte_less [simp]: "unat (b :: byte) < 256"
  using unsigned_less [where ?'a = nat, of b] by simp

lemma unat_u32_less [simp]: "unat (w :: u32) < 2 ^ 32"
  using unsigned_less [where ?'a = nat, of w] by simp

lemma unat_u64_less [simp]: "unat (w :: u64) < 2 ^ 64"
  using unsigned_less [where ?'a = nat, of w] by simp

definition as_bytes :: "string \<Rightarrow> bytes" where
  "as_bytes s = map (\<lambda>c. of_nat (of_char c)) s"

definition string_of :: "bytes \<Rightarrow> string" where
  "string_of bs = map (\<lambda>b. char_of (unat b)) bs"

lemma length_as_bytes [simp]: "length (as_bytes s) = length s"
  by (simp add: as_bytes_def)

lemma length_string_of [simp]: "length (string_of bs) = length bs"
  by (simp add: string_of_def)

lemma as_bytes_Nil [simp]: "as_bytes [] = []"
  and as_bytes_Cons: "as_bytes (c # s) = of_nat (of_char c) # as_bytes s"
  and as_bytes_append [simp]: "as_bytes (s @ t) = as_bytes s @ as_bytes t"
  by (simp_all add: as_bytes_def)

lemma string_of_append [simp]: "string_of (a @ b) = string_of a @ string_of b"
  and string_of_Nil [simp]: "string_of [] = []"
  by (simp_all add: string_of_def)

lemma unat_of_char [simp]: "unat (of_nat (of_char c) :: byte) = of_char c"
proof -
  have "(of_char c :: nat) < 256" by simp
  then show ?thesis by (simp add: unat_of_nat)
qed

lemma string_of_as_bytes [simp]: "string_of (as_bytes s) = s"
  by (induction s) (simp_all add: string_of_def as_bytes_def)

lemma of_nat_of_char_of_unat [simp]: "of_nat (of_char (char_of (unat (b :: byte)) :: char)) = b"
proof -
  have "unat b mod 256 = unat b" by (rule mod_less) simp
  then show ?thesis by simp
qed

lemma as_bytes_string_of [simp]: "as_bytes (string_of bs) = bs"
  by (simp add: string_of_def as_bytes_def comp_def map_idI)

lemma as_bytes_inject [simp]: "as_bytes s = as_bytes t \<longleftrightarrow> s = t"
  by (metis string_of_as_bytes)

lemma as_bytes_eq_Nil [simp]: "as_bytes s = [] \<longleftrightarrow> s = []" "[] = as_bytes s \<longleftrightarrow> s = []"
  by (auto simp: as_bytes_def)

section \<open>Big-endian integers\<close>

text \<open>\<open>to_be_bytes\<close> of an unsigned integer of \<open>n\<close> bytes, and \<open>from_be_bytes\<close>.\<close>

primrec be_bytes :: "nat \<Rightarrow> nat \<Rightarrow> bytes" where
  "be_bytes 0 x = []"
| "be_bytes (Suc n) x = be_bytes n (x div 256) @ [of_nat (x mod 256)]"

definition be_value :: "bytes \<Rightarrow> nat" where
  "be_value bs = foldl (\<lambda>acc b. acc * 256 + unat b) 0 bs"

lemma length_be_bytes [simp]: "length (be_bytes n x) = n"
  by (induction n arbitrary: x) simp_all

lemma be_value_snoc [simp]: "be_value (bs @ [b]) = be_value bs * 256 + unat b"
  by (simp add: be_value_def)

lemma be_value_Nil [simp]: "be_value [] = 0"
  by (simp add: be_value_def)

lemma be_value_be_bytes: "x < 256 ^ n \<Longrightarrow> be_value (be_bytes n x) = x"
proof (induction n arbitrary: x)
  case 0
  then show ?case by simp
next
  case (Suc n)
  have "x div 256 < 256 ^ n"
    using Suc.prems by (simp add: less_mult_imp_div_less mult.commute)
  moreover have "unat (of_nat (x mod 256) :: byte) = x mod 256"
    by (simp add: unat_of_nat)
  ultimately show ?case
    using Suc.IH by (simp add: div_mult_mod_eq)
qed

lemma be_value_less: "be_value bs < 256 ^ length bs"
proof (induction bs rule: rev_induct)
  case Nil
  then show ?case by simp
next
  case (snoc b bs)
  have b: "unat b < 256" by simp
  have "be_value bs * 256 + unat b < (be_value bs + 1) * 256" using b by simp
  also have "\<dots> \<le> 256 ^ length bs * 256" using snoc by simp
  finally show ?case by simp
qed

lemma be_bytes_be_value: "length bs = n \<Longrightarrow> be_bytes n (be_value bs) = bs"
proof (induction bs arbitrary: n rule: rev_induct)
  case Nil
  then show ?case by simp
next
  case (snoc b bs)
  have b: "unat b < 256" by simp
  from snoc.prems obtain m where n: "n = Suc m" "length bs = m" by auto
  have "(be_value bs * 256 + unat b) div 256 = be_value bs"
    and "(be_value bs * 256 + unat b) mod 256 = unat b"
    using b by simp_all
  with n snoc.IH [of m] show ?case by simp
qed

lemma be_bytes_inject:
  "\<lbrakk>x < 256 ^ n; y < 256 ^ n\<rbrakk> \<Longrightarrow> be_bytes n x = be_bytes n y \<longleftrightarrow> x = y"
  by (metis be_value_be_bytes)

abbreviation be32 :: "nat \<Rightarrow> bytes" where
  "be32 x \<equiv> be_bytes 4 x"

abbreviation be64 :: "u64 \<Rightarrow> bytes" where
  "be64 x \<equiv> be_bytes 8 (unat x)"

lemma be_value_be32 [byte_simps]: "x < 2 ^ 32 \<Longrightarrow> be_value (be32 x) = x"
  by (rule be_value_be_bytes) simp

lemma be64_inject [byte_simps]: "be64 x = be64 y \<longleftrightarrow> x = y"
proof -
  have "unat x < 256 ^ 8" "unat y < 256 ^ 8"
    using unat_u64_less [of x] unat_u64_less [of y] by (simp_all del: unat_u64_less)
  then show ?thesis by (simp add: be_bytes_inject word_unat_eq_iff)
qed

lemma be64_neq_Nil [simp]: "be64 x \<noteq> []" "[] \<noteq> be64 x"
  by (metis length_be_bytes list.size(3) zero_neq_numeral)+

lemma be32_neq_Nil [simp]: "be32 x \<noteq> []" "[] \<noteq> be32 x"
  by (metis length_be_bytes list.size(3) zero_neq_numeral)+

section \<open>Lists\<close>

lemma take_drop_append_length [simp]:
  "take (length xs) (xs @ ys) = xs" "drop (length xs) (xs @ ys) = ys"
  by simp_all

lemma append_eq_append_length:
  "length a = length b \<Longrightarrow> a @ c = b @ d \<longleftrightarrow> a = b \<and> c = d"
  by (rule append_eq_append_conv) simp

end
