(* ===== verification/Text.thy ===== *)
theory Text
  imports Prelude
begin

text \<open>
  The parts of the Rust standard library's text handling that the program uses: the ASCII
  classes and case mappings of \<open>char\<close> and \<open>u8\<close>, substring search, decimal printing,
  and UTF-8 (\<open>std::str::from_utf8\<close>, \<open>char::encode_utf8\<close>, \<open>char::from_u32\<close>).
  Strings are the bytes of their UTF-8 encoding; every byte of a multi-byte character is
  at least \<open>0x80\<close>, so a test of \<open>char\<close>s against ASCII classes is the same test of bytes.
\<close>

section \<open>ASCII\<close>

definition code :: "char \<Rightarrow> nat" where
  "code c = of_char c"

definition is_ascii_uppercase :: "char \<Rightarrow> bool" where
  "is_ascii_uppercase c \<longleftrightarrow> 65 \<le> code c \<and> code c \<le> 90"

definition is_ascii_lowercase :: "char \<Rightarrow> bool" where
  "is_ascii_lowercase c \<longleftrightarrow> 97 \<le> code c \<and> code c \<le> 122"

definition is_ascii_digit :: "char \<Rightarrow> bool" where
  "is_ascii_digit c \<longleftrightarrow> 48 \<le> code c \<and> code c \<le> 57"

definition is_ascii_alphabetic :: "char \<Rightarrow> bool" where
  "is_ascii_alphabetic c \<longleftrightarrow> is_ascii_uppercase c \<or> is_ascii_lowercase c"

definition ascii_lower :: "char \<Rightarrow> char" where
  "ascii_lower c = (if is_ascii_uppercase c then char_of (code c + 32) else c)"

definition ascii_upper :: "char \<Rightarrow> char" where
  "ascii_upper c = (if is_ascii_lowercase c then char_of (code c - 32) else c)"

definition to_ascii_lowercase :: "string \<Rightarrow> string" where
  "to_ascii_lowercase s = map ascii_lower s"

definition to_ascii_uppercase :: "string \<Rightarrow> string" where
  "to_ascii_uppercase s = map ascii_upper s"

definition eq_ignore_ascii_case :: "string \<Rightarrow> string \<Rightarrow> bool" where
  "eq_ignore_ascii_case s t \<longleftrightarrow> to_ascii_lowercase s = to_ascii_lowercase t"

lemmas ascii_defs = code_def is_ascii_uppercase_def is_ascii_lowercase_def is_ascii_digit_def
  is_ascii_alphabetic_def ascii_lower_def ascii_upper_def

lemma code_less [simp]: "code c < 256"
  by (simp add: code_def)

lemma code_char_of [simp]: "n < 256 \<Longrightarrow> code (char_of n) = n"
  by (simp add: code_def)

lemma code_inject: "code c = code d \<longleftrightarrow> c = d"
  by (simp add: code_def)

lemma ascii_lower_idem [simp]: "ascii_lower (ascii_lower c) = ascii_lower c"
proof (cases "is_ascii_uppercase c")
  case True
  then have "code c + 32 < 256" and "code c + 32 > 90" by (auto simp: is_ascii_uppercase_def)
  then show ?thesis by (simp add: ascii_lower_def is_ascii_uppercase_def)
next
  case False
  then show ?thesis by (simp add: ascii_lower_def)
qed

lemma eq_ignore_ascii_case_refl [simp]: "eq_ignore_ascii_case s s"
  by (simp add: eq_ignore_ascii_case_def)

lemma eq_ignore_ascii_case_sym: "eq_ignore_ascii_case s t \<longleftrightarrow> eq_ignore_ascii_case t s"
  by (auto simp: eq_ignore_ascii_case_def)

lemma eq_ignore_ascii_case_trans:
  "\<lbrakk>eq_ignore_ascii_case s t; eq_ignore_ascii_case t u\<rbrakk> \<Longrightarrow> eq_ignore_ascii_case s u"
  by (simp add: eq_ignore_ascii_case_def)

section \<open>Searching\<close>

text \<open>\<open>str::contains(char)\<close> for an ASCII character.\<close>

definition contains_char :: "string \<Rightarrow> char \<Rightarrow> bool" where
  "contains_char s c \<longleftrightarrow> c \<in> set s"

text \<open>Whether a list occurs in another as a contiguous block.\<close>

definition occurs :: "'a list \<Rightarrow> 'a list \<Rightarrow> bool" where
  "occurs needle hay \<longleftrightarrow> (\<exists>i \<le> length hay. take (length needle) (drop i hay) = needle)"

lemma occursI: "hay = a @ needle @ b \<Longrightarrow> occurs needle hay"
  unfolding occurs_def by (rule exI [of _ "length a"]) simp

lemma occursE:
  assumes "occurs needle hay"
  obtains a b where "hay = a @ needle @ b"
proof -
  from assms obtain i where "take (length needle) (drop i hay) = needle"
    by (auto simp: occurs_def)
  then have "hay = take i hay @ needle @ drop (length needle) (drop i hay)"
    by (metis append_take_drop_id)
  then show ?thesis by (rule that)
qed

section \<open>Decimal numbers\<close>

text \<open>\<open>Display\<close> of an unsigned integer.\<close>

fun decimal :: "nat \<Rightarrow> string" where
  "decimal n = (if n < 10 then [char_of (48 + n)]
                else decimal (n div 10) @ [char_of (48 + n mod 10)])"

declare decimal.simps [simp del]

definition digit_value :: "char \<Rightarrow> nat" where
  "digit_value c = code c - 48"

definition decimal_value :: "string \<Rightarrow> nat" where
  "decimal_value s = foldl (\<lambda>acc c. acc * 10 + digit_value c) 0 s"

lemma decimal_value_snoc [simp]: "decimal_value (s @ [c]) = decimal_value s * 10 + digit_value c"
  by (simp add: decimal_value_def)

lemma digit_value_char_of [simp]: "d < 10 \<Longrightarrow> digit_value (char_of (48 + d)) = d"
  by (simp add: digit_value_def)

lemma decimal_value_decimal [simp]: "decimal_value (decimal n) = n"
proof (induction n rule: decimal.induct)
  case (1 n)
  show ?case
  proof (cases "n < 10")
    case True
    then show ?thesis
      by (subst decimal.simps) (simp add: decimal_value_def)
  next
    case False
    with 1 show ?thesis
      by (subst decimal.simps) (simp add: div_mult_mod_eq)
  qed
qed

lemma decimal_inject [simp]: "decimal m = decimal n \<longleftrightarrow> m = n"
  by (metis decimal_value_decimal)

lemma decimal_digits: "list_all is_ascii_digit (decimal n)"
proof (induction n rule: decimal.induct)
  case (1 n)
  show ?case
  proof (cases "n < 10")
    case True
    then show ?thesis
      by (subst decimal.simps) (simp add: is_ascii_digit_def)
  next
    case False
    have "is_ascii_digit (char_of (48 + n mod 10))"
      unfolding is_ascii_digit_def by simp
    with 1 False show ?thesis
      by (subst decimal.simps) simp
  qed
qed

lemma decimal_neq_Nil [simp]: "decimal n \<noteq> []"
  by (subst decimal.simps) simp

section \<open>UTF-8\<close>

definition utf8_continuation :: "byte \<Rightarrow> bool" where
  "utf8_continuation b \<longleftrightarrow> 128 \<le> unat b \<and> unat b \<le> 191"

text \<open>The well-formed sequences of the Unicode standard, as \<open>from_utf8\<close> accepts them.\<close>

fun utf8_valid :: "bytes \<Rightarrow> bool" where
  "utf8_valid [] = True"
| "utf8_valid (b # bs) =
     (if unat b < 128 then utf8_valid bs
      else if 194 \<le> unat b \<and> unat b \<le> 223 then
        (case bs of c # r \<Rightarrow> utf8_continuation c \<and> utf8_valid r | _ \<Rightarrow> False)
      else if 224 \<le> unat b \<and> unat b \<le> 239 then
        (case bs of c # d # r \<Rightarrow> utf8_continuation c \<and> utf8_continuation d
            \<and> (unat b = 224 \<longrightarrow> 160 \<le> unat c) \<and> (unat b = 237 \<longrightarrow> unat c \<le> 159)
            \<and> utf8_valid r
          | _ \<Rightarrow> False)
      else if 240 \<le> unat b \<and> unat b \<le> 244 then
        (case bs of c # d # e # r \<Rightarrow> utf8_continuation c \<and> utf8_continuation d
            \<and> utf8_continuation e
            \<and> (unat b = 240 \<longrightarrow> 144 \<le> unat c) \<and> (unat b = 244 \<longrightarrow> unat c \<le> 143)
            \<and> utf8_valid r
          | _ \<Rightarrow> False)
      else False)"

definition from_utf8 :: "bytes \<Rightarrow> string option" where
  "from_utf8 bs = (if utf8_valid bs then Some (string_of bs) else None)"

text \<open>\<open>char::from_u32\<close> accepts the Unicode scalar values.\<close>

definition is_scalar :: "nat \<Rightarrow> bool" where
  "is_scalar n \<longleftrightarrow> n < 0xD800 \<or> (0xDFFF < n \<and> n < 0x110000)"

definition encode_utf8 :: "nat \<Rightarrow> bytes" where
  "encode_utf8 n =
     (if n < 0x80 then [byte_of n]
      else if n < 0x800 then [byte_of (0xC0 + n div 64), byte_of (0x80 + n mod 64)]
      else if n < 0x10000 then
        [byte_of (0xE0 + n div 4096), byte_of (0x80 + n div 64 mod 64), byte_of (0x80 + n mod 64)]
      else
        [byte_of (0xF0 + n div 262144), byte_of (0x80 + n div 4096 mod 64),
         byte_of (0x80 + n div 64 mod 64), byte_of (0x80 + n mod 64)])"

lemma utf8_continuation_of_nat [simp]: "m < 64 \<Longrightarrow> utf8_continuation (byte_of (128 + m))"
  by (simp add: utf8_continuation_def)

lemma from_utf8_eq_Some: "from_utf8 bs = Some s \<longleftrightarrow> utf8_valid bs \<and> bs = as_bytes s"
  by (auto simp: from_utf8_def)

lemma from_utf8_as_bytes: "utf8_valid (as_bytes s) \<Longrightarrow> from_utf8 (as_bytes s) = Some s"
  by (simp add: from_utf8_def)

lemma utf8_valid_ascii: "list_all (\<lambda>b. unat b < 128) bs \<Longrightarrow> utf8_valid bs"
  by (induction bs) simp_all

lemma utf8_valid_ascii_append:
  "list_all (\<lambda>b. unat b < 128) bs \<Longrightarrow> utf8_valid (bs @ cs) = utf8_valid cs"
  by (induction bs) simp_all

lemma utf8_valid_append: "\<lbrakk>utf8_valid a; utf8_valid b\<rbrakk> \<Longrightarrow> utf8_valid (a @ b)"
proof (induction a rule: utf8_valid.induct)
  case 1
  then show ?case by simp
next
  case (2 x xs)
  then show ?case by (auto split: if_splits list.splits)
qed

lemma utf8_valid_two:
  "\<lbrakk>2 \<le> q; q < 32; z < 64\<rbrakk> \<Longrightarrow> utf8_valid [byte_of (0xC0 + q), byte_of (0x80 + z)]"
  by simp

lemma utf8_valid_three:
  assumes "q < 16" "y < 64" "z < 64" "q = 0 \<Longrightarrow> 32 \<le> y" "q = 13 \<Longrightarrow> y < 32"
  shows "utf8_valid [byte_of (0xE0 + q), byte_of (0x80 + y), byte_of (0x80 + z)]"
  using assms by (cases "q = 0"; cases "q = 13") simp_all

lemma utf8_valid_four:
  assumes "q < 5" "x < 64" "y < 64" "z < 64" "q = 0 \<Longrightarrow> 16 \<le> x" "q = 4 \<Longrightarrow> x < 16"
  shows "utf8_valid [byte_of (0xF0 + q), byte_of (0x80 + x), byte_of (0x80 + y), byte_of (0x80 + z)]"
  using assms by (cases "q = 0"; cases "q = 4") simp_all

lemma four_lead_low: "16 \<le> n div 4096 mod 64" if "n div 262144 = 0" "65536 \<le> n" for n::nat
proof -
  have "n < 262144" using that(1) by simp
  then have "n div 4096 < 64" by (simp add: less_mult_imp_div_less)
  then have "n div 4096 mod 64 = n div 4096" by simp
  moreover have "16 \<le> n div 4096" using that(2) by (simp add: less_eq_div_iff_mult_less_eq)
  ultimately show ?thesis by simp
qed

lemma four_lead_high: "n div 4096 mod 64 < 16" if "n div 262144 = 4" "n < 1114112" for n::nat
proof -
  have "n div 4096 < 272" using that(2) by (simp add: less_mult_imp_div_less)
  moreover have "n div 4096 div 64 = 4" using that(1) by (simp add: div_mult2_eq [symmetric])
  moreover have "n div 4096 div 64 * 64 + n div 4096 mod 64 = n div 4096" by (rule div_mult_mod_eq)
  ultimately show ?thesis by linarith
qed

lemma three_lead_low: "32 \<le> n div 64 mod 64" if "n div 4096 = 0" "2048 \<le> n" for n::nat
proof -
  have "n < 4096" using that(1) by simp
  then have "n div 64 < 64" by (simp add: less_mult_imp_div_less)
  then have "n div 64 mod 64 = n div 64" by simp
  moreover have "32 \<le> n div 64" using that(2) by (simp add: less_eq_div_iff_mult_less_eq)
  ultimately show ?thesis by simp
qed

lemma three_lead_high: "n div 64 mod 64 < 32" if "n div 4096 = 13" "n < 55296" for n::nat
proof -
  have "n div 64 < 864" using that(2) by (simp add: less_mult_imp_div_less)
  moreover have "n div 64 div 64 = 13" using that(1) by (simp add: div_mult2_eq [symmetric])
  moreover have "n div 64 div 64 * 64 + n div 64 mod 64 = n div 64" by (rule div_mult_mod_eq)
  ultimately show ?thesis by linarith
qed

lemma encode_utf8_valid:
  assumes "is_scalar n"
  shows "utf8_valid (encode_utf8 n)"
proof -
  consider "n < 0x80" | "0x80 \<le> n" "n < 0x800" | "0x800 \<le> n" "n < 0x10000"
    | "0x10000 \<le> n" "n < 0x110000"
    using assms by (fastforce simp: is_scalar_def)
  then show ?thesis
  proof cases
    case 1
    then show ?thesis by (simp add: encode_utf8_def)
  next
    case 2
    then have "encode_utf8 n = [byte_of (0xC0 + n div 64), byte_of (0x80 + n mod 64)]"
      by (simp add: encode_utf8_def)
    moreover have "2 \<le> n div 64" "n div 64 < 32" "n mod 64 < 64"
      using 2 by (simp_all add: less_eq_div_iff_mult_less_eq less_mult_imp_div_less)
    ultimately show ?thesis using utf8_valid_two by simp
  next
    case 3
    then have "encode_utf8 n =
        [byte_of (0xE0 + n div 4096), byte_of (0x80 + n div 64 mod 64), byte_of (0x80 + n mod 64)]"
      by (simp add: encode_utf8_def)
    moreover have "n div 4096 < 16"
      using 3 by (simp add: less_mult_imp_div_less)
    moreover have "32 \<le> n div 64 mod 64" if "n div 4096 = 0"
      using 3 that by (rule_tac three_lead_low) simp_all
    moreover have "n div 64 mod 64 < 32" if q: "n div 4096 = 13"
    proof (rule three_lead_high [OF q])
      have "n < 57344" using q by linarith
      with assms show "n < 55296" by (auto simp: is_scalar_def)
    qed
    ultimately show ?thesis
      using utf8_valid_three [of "n div 4096" "n div 64 mod 64" "n mod 64"] by simp
  next
    case 4
    then have "encode_utf8 n =
        [byte_of (0xF0 + n div 262144), byte_of (0x80 + n div 4096 mod 64),
         byte_of (0x80 + n div 64 mod 64), byte_of (0x80 + n mod 64)]"
      by (simp add: encode_utf8_def)
    moreover have "n div 262144 < 5"
      using 4 by (simp add: less_mult_imp_div_less)
    moreover have "16 \<le> n div 4096 mod 64" if "n div 262144 = 0"
      using 4 that by (rule_tac four_lead_low) simp_all
    moreover have "n div 4096 mod 64 < 16" if "n div 262144 = 4"
      using 4 that by (rule_tac four_lead_high) simp_all
    ultimately show ?thesis
      using utf8_valid_four [of "n div 262144" "n div 4096 mod 64" "n div 64 mod 64" "n mod 64"]
      by simp
  qed
qed

lemma length_encode_utf8: "length (encode_utf8 n) \<le> 4" "0 < length (encode_utf8 n)"
  by (simp_all add: encode_utf8_def)

section \<open>Numbers and blanks\<close>

text \<open>\<open>str::parse::<u64>\<close>: an optional plus sign, then digits whose value fits.\<close>

definition parse_u64 :: "string \<Rightarrow> u64 option" where
  "parse_u64 s =
     (let digits = (case s of c # r \<Rightarrow> if c = CHR ''+'' then r else s | [] \<Rightarrow> [])
      in if digits \<noteq> [] \<and> list_all is_ascii_digit digits \<and> decimal_value digits < 2 ^ 64
         then Some (of_nat (decimal_value digits)) else None)"

text \<open>
  \<open>str::trim\<close>: white space is the Unicode property, here over the UTF-8 bytes. \<open>blank\<close> is the
  length of the white-space character a list starts with, if any; \<open>blank_rev\<close> works on the
  reversed list.
\<close>

definition blank :: "bytes \<Rightarrow> nat" where
  "blank bs = (case map unat bs of
       b # r \<Rightarrow>
         if 9 \<le> b \<and> b \<le> 13 \<or> b = 32 then 1
         else (case r of
             c # r \<Rightarrow>
               if b = 194 \<and> (c = 133 \<or> c = 160) then 2
               else (case r of
                   d # _ \<Rightarrow>
                     if b = 225 \<and> c = 154 \<and> d = 128
                        \<or> b = 226 \<and> c = 128 \<and> (128 \<le> d \<and> d \<le> 138 \<or> d = 168 \<or> d = 169 \<or> d = 175)
                        \<or> b = 226 \<and> c = 129 \<and> d = 159
                        \<or> b = 227 \<and> c = 128 \<and> d = 128
                     then 3 else 0
                 | [] \<Rightarrow> 0)
           | [] \<Rightarrow> 0)
     | [] \<Rightarrow> 0)"

definition blank_rev :: "bytes \<Rightarrow> nat" where
  "blank_rev bs = (if blank (take 1 bs) = 1 then 1
     else if blank (rev (take 2 bs)) = 2 then 2
     else if blank (rev (take 3 bs)) = 3 then 3 else 0)"

fun trim_start :: "bytes \<Rightarrow> bytes" where
  "trim_start bs = (if bs = [] \<or> blank bs = 0 then bs else trim_start (drop (blank bs) bs))"

fun trim_rev_end :: "bytes \<Rightarrow> bytes" where
  "trim_rev_end bs = (if bs = [] \<or> blank_rev bs = 0 then bs else trim_rev_end (drop (blank_rev bs) bs))"

declare trim_start.simps [simp del] trim_rev_end.simps [simp del]

definition str_trim :: "string \<Rightarrow> string" where
  "str_trim s = string_of (rev (trim_rev_end (rev (trim_start (as_bytes s)))))"

lemma blank_Cons_graph: "32 < unat b \<Longrightarrow> unat b < 127 \<Longrightarrow> blank (b # bs) = 0"
  by (cases bs; cases "tl bs") (auto simp: blank_def)

lemma blank_rev_Cons_graph:
  assumes "32 < unat b" "unat b < 127"
  shows "blank_rev (b # bs) = 0"
proof -
  have "blank [b] = 0" using blank_Cons_graph [OF assms] .
  moreover have "blank (rev (take 2 (b # bs))) \<noteq> 2" "blank (rev (take 3 (b # bs))) \<noteq> 3"
    using assms by (cases bs; cases "tl bs"; auto simp: blank_def numeral_eq_Suc)+
  ultimately show ?thesis by (simp add: blank_rev_def)
qed

text \<open>A string that starts and ends with visible ASCII characters is its own trim.\<close>

lemma str_trim_graph:
  assumes "s \<noteq> []" "\<And>c. c \<in> {hd s, last s} \<Longrightarrow> 32 < code c \<and> code c < 127"
  shows "str_trim s = s"
proof -
  define bs where "bs = as_bytes s"
  obtain c t where s: "s = c # t" using assms(1) by (cases s) auto
  have bs: "bs = of_nat (of_char c) # as_bytes t" by (simp add: bs_def s as_bytes_Cons)
  have "blank bs = 0" using assms(2) [of c] unfolding bs by (intro blank_Cons_graph) (auto simp: s code_def)
  then have start: "trim_start bs = bs" by (simp add: trim_start.simps)
  obtain u d where u: "s = u @ [d]" using assms(1) by (cases s rule: rev_cases) auto
  have rev: "rev bs = of_nat (of_char d) # rev (as_bytes u)" by (simp add: bs_def u as_bytes_Cons)
  have "blank_rev (rev bs) = 0"
    using assms(2) [of d] unfolding rev by (intro blank_rev_Cons_graph) (auto simp: u code_def)
  then have "trim_rev_end (rev bs) = rev bs" by (simp add: trim_rev_end.simps)
  with start show ?thesis by (simp add: str_trim_def bs_def)
qed

end
