(* ===== verification/Envelope.thy ===== *)
theory Envelope
  imports Text
begin

text \<open>
  The standard-tier and protected-tier envelopes of \<open>crates/avault-core/src/lib.rs\<close>:
  sealing and opening a value, the additional authenticated data, and the
  passphrase-wrapped export of the master key.

  AES-256-GCM, scrypt, base64 and serde are other packages: they are the fields of a
  record of functions, an argument of every definition that uses them. The draws from
  \<open>OsRng\<close> are arguments, in the order the code makes them. What the properties rely on
  is stated as predicates over that record (\<open>aead_correct\<close> and so on).
\<close>

section \<open>Data\<close>

(* SRC core WRAP_SCHEME *)
definition WRAP_SCHEME :: string where
  "WRAP_SCHEME = ''machine-aesgcm-v1''"

(* SRC core WRAP_META_VERSION *)
definition WRAP_META_VERSION :: byte where
  "WRAP_META_VERSION = 1"

(* SRC core KEY_BYTES *)
definition KEY_BYTES :: nat where
  "KEY_BYTES = 32"

(* SRC core NONCE_BYTES *)
definition NONCE_BYTES :: nat where
  "NONCE_BYTES = 12"

(* SRC core EXPORT_SCHEME *)
definition EXPORT_SCHEME :: string where
  "EXPORT_SCHEME = ''machine-key-export-v1''"

(* SRC core SCRYPT_N *)
definition SCRYPT_N :: u32 where
  "SCRYPT_N = push_bit 15 1"

(* SRC core SCRYPT_R *)
definition SCRYPT_R :: u32 where
  "SCRYPT_R = 8"

(* SRC core SCRYPT_P *)
definition SCRYPT_P :: u32 where
  "SCRYPT_P = 1"

(* SRC core Sealed *)
record sealed =
  sl_ciphertext :: string
  sl_nonce :: string
  sl_wrap_meta :: string

(* SRC core ProtectedRecordMeta *)
datatype protected_record_meta = Static | Keypair (public_key: string)

(* SRC core WrapMeta *)
record wrap_meta =
  wm_v :: byte
  wm_scheme :: string
  wm_wrapped_dek :: string
  wm_dek_nonce :: string
  wm_record_meta :: "protected_record_meta option"

(* SRC core ExportBlob *)
record export_blob =
  eb_scheme :: string
  eb_kdf :: string
  eb_n :: u32
  eb_r :: u32
  eb_p :: u32
  eb_salt :: string
  eb_nonce :: string
  eb_ciphertext :: string

text \<open>
  The packages: \<open>aes_gcm\<close> (key, nonce, message, associated data), \<open>scrypt\<close>
  (\<open>Params::new\<close>'s check of \<open>log_n\<close>, \<open>r\<close>, \<open>p\<close> and the output length;
  the derivation), \<open>base64\<close>'s standard engine, and \<open>serde_json\<close> with the derived
  (de)serializers of \<open>WrapMeta\<close>.
\<close>

record core_env =
  aes_encrypt :: "bytes \<Rightarrow> bytes \<Rightarrow> bytes \<Rightarrow> bytes \<Rightarrow> bytes option"
  aes_decrypt :: "bytes \<Rightarrow> bytes \<Rightarrow> bytes \<Rightarrow> bytes \<Rightarrow> bytes option"
  scrypt_params_new :: "nat \<Rightarrow> u32 \<Rightarrow> u32 \<Rightarrow> nat \<Rightarrow> bool"
  scrypt_kdf :: "nat \<Rightarrow> u32 \<Rightarrow> u32 \<Rightarrow> bytes \<Rightarrow> bytes \<Rightarrow> bytes option"
  base64_encode :: "bytes \<Rightarrow> string"
  base64_decode :: "string \<Rightarrow> bytes option"
  serde_string :: "string \<Rightarrow> string"
  wrap_meta_to_json :: "wrap_meta \<Rightarrow> string option"
  wrap_meta_from_json :: "string \<Rightarrow> wrap_meta option"

text \<open>An error value of one of these packages.\<close>

definition lib_res :: "string \<Rightarrow> 'a option \<Rightarrow> 'a res" where
  "lib_res package x = (case x of None \<Rightarrow> Inl [Lib package] | Some v \<Rightarrow> Inr v)"

lemma lib_res_simps [simp]: "lib_res p (Some x) = Inr x" "lib_res p None = Inl [Lib p]"
  by (simp_all add: lib_res_def)

lemma lib_res_eq_Inr [res_simps]: "lib_res p x = Inr v \<longleftrightarrow> x = Some v"
  by (cases x) (simp_all add: lib_res_def)

lemma panic_free_lib_res [simp]: "panic_free (lib_res p x)"
  by (cases x) (simp_all add: lib_res_def panic_free_def)

section \<open>Primitives\<close>

(* SRC core encrypt_with_key *)
definition encrypt_with_key ::
    "'e core_env_scheme \<Rightarrow> bytes \<Rightarrow> bytes \<Rightarrow> bytes \<Rightarrow> bytes \<Rightarrow> bytes res" where
  "encrypt_with_key E key nonce plaintext aad =
     ok_or ''encryption failed'' (aes_encrypt E key nonce plaintext aad)"

(* SRC core decrypt_with_key *)
definition decrypt_with_key ::
    "'e core_env_scheme \<Rightarrow> bytes \<Rightarrow> bytes \<Rightarrow> bytes \<Rightarrow> bytes \<Rightarrow> bytes res" where
  "decrypt_with_key E key nonce ciphertext aad =
     ok_or ''authentication failed'' (aes_decrypt E key nonce ciphertext aad)"

(* SRC core b64 *)
definition b64 :: "'e core_env_scheme \<Rightarrow> bytes \<Rightarrow> string" where
  "b64 E raw = base64_encode E raw"

(* SRC core unb64 *)
definition unb64 :: "'e core_env_scheme \<Rightarrow> string \<Rightarrow> string \<Rightarrow> bytes res" where
  "unb64 E text field =
     with_context (field @ '' is not valid base64'') (lib_res ''base64'' (base64_decode E text))"

(* SRC core decode_nonce *)
definition decode_nonce :: "'e core_env_scheme \<Rightarrow> string \<Rightarrow> string \<Rightarrow> bytes res" where
  "decode_nonce E text field =
     and_then (unb64 E text field) (\<lambda>raw.
       if length raw \<noteq> NONCE_BYTES then bail (field @ '' has invalid length'')
       else Inr raw)"

(* SRC core slice_to_key *)
definition slice_to_key :: "bytes \<Rightarrow> bytes res" where
  "slice_to_key key = (if length key = KEY_BYTES then Inr key else bail ''invalid key length'')"

(* SRC core aad *)
definition aad :: "string \<Rightarrow> bytes" where
  "aad name = as_bytes name @ as_bytes WRAP_SCHEME @ [WRAP_META_VERSION]"

(* SRC core json_string *)
definition json_string :: "'e core_env_scheme \<Rightarrow> string \<Rightarrow> string" where
  "json_string E value = serde_string E value"

(* SRC core protected_record_aad *)
definition protected_record_aad :: "'e core_env_scheme \<Rightarrow> string \<Rightarrow> wrap_meta \<Rightarrow> bytes" where
  "protected_record_aad E name meta =
     (let record = (case wm_record_meta meta of
          Some Static \<Rightarrow> ''{\"kind\":\"static\"}''
        | Some (Keypair pk) \<Rightarrow>
            ''{\"kind\":\"keypair\",\"public_key\":'' @ json_string E (to_ascii_lowercase pk) @ ''}''
        | None \<Rightarrow> ''null'')
      in as_bytes (''{\"domain\":\"avault:protected-record:aad:v2\",\"name\":'' @ json_string E name
           @ '',\"record\":'' @ record
           @ '',\"scheme\":'' @ json_string E (wm_scheme meta)
           @ '',\"version\":'' @ decimal (unat (wm_v meta)) @ ''}''))"

section \<open>Sealing and opening\<close>

(* SRC core seal *)
definition seal ::
    "'e core_env_scheme \<Rightarrow> bytes \<Rightarrow> bytes \<Rightarrow> bytes \<Rightarrow> bytes \<Rightarrow> string \<Rightarrow> bytes \<Rightarrow> sealed res" where
  \<comment> \<open>\<open>dek\<close>, \<open>value_nonce\<close> and \<open>dek_nonce\<close> are the three draws from \<open>OsRng\<close>.\<close>
  "seal E dek value_nonce dek_nonce master_key name value =
     and_then (encrypt_with_key E dek value_nonce value (aad name)) (\<lambda>ciphertext.
     and_then (encrypt_with_key E master_key dek_nonce dek []) (\<lambda>wrapped_dek.
     let meta = \<lparr>wm_v = WRAP_META_VERSION, wm_scheme = WRAP_SCHEME,
                 wm_wrapped_dek = b64 E wrapped_dek, wm_dek_nonce = b64 E dek_nonce,
                 wm_record_meta = None\<rparr>
     in and_then (with_context ''failed to encode wrap_meta''
                   (lib_res ''serde_json'' (wrap_meta_to_json E meta))) (\<lambda>json.
        Inr \<lparr>sl_ciphertext = b64 E ciphertext, sl_nonce = b64 E value_nonce,
             sl_wrap_meta = json\<rparr>)))"

(* SRC core open_value_with_dek *)
definition open_value_with_dek ::
    "'e core_env_scheme \<Rightarrow> bytes \<Rightarrow> string \<Rightarrow> sealed \<Rightarrow> bytes res" where
  "open_value_with_dek E dek name s =
     and_then (decode_nonce E (sl_nonce s) ''nonce'') (\<lambda>value_nonce.
     and_then (unb64 E (sl_ciphertext s) ''ciphertext'') (\<lambda>ciphertext.
     case decrypt_with_key E dek value_nonce ciphertext (aad name) of
       Inr plaintext \<Rightarrow> Inr plaintext
     | Inl p1_err \<Rightarrow>
         with_context ''value decrypt failed''
           (case decrypt_with_key E dek value_nonce ciphertext [] of
              Inr plaintext \<Rightarrow> Inr plaintext
            | Inl _ \<Rightarrow> Inl p1_err)))"

(* SRC core open_protected_value_with_dek *)
definition open_protected_value_with_dek ::
    "'e core_env_scheme \<Rightarrow> bytes \<Rightarrow> string \<Rightarrow> sealed \<Rightarrow> wrap_meta \<Rightarrow> bytes res" where
  "open_protected_value_with_dek E dek name s meta =
     and_then (decode_nonce E (sl_nonce s) ''nonce'') (\<lambda>value_nonce.
     and_then (unb64 E (sl_ciphertext s) ''ciphertext'') (\<lambda>ciphertext.
     let protected_aad = protected_record_aad E name meta
     in case decrypt_with_key E dek value_nonce ciphertext protected_aad of
       Inr plaintext \<Rightarrow> Inr plaintext
     | Inl v2_err \<Rightarrow>
         with_context ''value decrypt failed''
           (case decrypt_with_key E dek value_nonce ciphertext (aad name) of
              Inr plaintext \<Rightarrow> Inr plaintext
            | Inl _ \<Rightarrow> Inl v2_err)))"

text \<open>The checks of \<open>wrap_meta\<close> that \<open>open\<close> and \<open>open_with_dek\<close> both start with.\<close>

definition parse_wrap_meta :: "'e core_env_scheme \<Rightarrow> sealed \<Rightarrow> wrap_meta res" where
  "parse_wrap_meta E s =
     and_then (with_context ''wrap_meta is not valid JSON''
                (lib_res ''serde_json'' (wrap_meta_from_json E (sl_wrap_meta s)))) (\<lambda>meta.
     if wm_scheme meta \<noteq> WRAP_SCHEME then bail ''unsupported wrap scheme''
     else if wm_v meta \<noteq> WRAP_META_VERSION then bail ''unsupported wrap_meta version''
     else Inr meta)"

(* SRC core open *)
definition open_envelope :: "'e core_env_scheme \<Rightarrow> bytes \<Rightarrow> string \<Rightarrow> sealed \<Rightarrow> bytes res" where
  "open_envelope E master_key name s =
     and_then (parse_wrap_meta E s) (\<lambda>meta.
     and_then (decode_nonce E (wm_dek_nonce meta) ''dek_nonce'') (\<lambda>dek_nonce.
     and_then (unb64 E (wm_wrapped_dek meta) ''wrapped_dek'') (\<lambda>wrapped_dek.
     and_then (with_context ''DEK unwrap failed''
                (decrypt_with_key E master_key dek_nonce wrapped_dek [])) (\<lambda>dek.
     if length dek \<noteq> KEY_BYTES then bail ''DEK unwrap produced invalid length''
     else and_then (slice_to_key dek) (\<lambda>dek. open_value_with_dek E dek name s)))))"

(* SRC core open_with_dek *)
definition open_with_dek :: "'e core_env_scheme \<Rightarrow> bytes \<Rightarrow> string \<Rightarrow> sealed \<Rightarrow> bytes res" where
  "open_with_dek E dek name s =
     and_then (parse_wrap_meta E s) (\<lambda>meta. open_protected_value_with_dek E dek name s meta)"

section \<open>Passphrase-wrapped export of the master key\<close>

text \<open>\<open>u32::is_power_of_two\<close> and \<open>u32::checked_ilog2\<close> of the standard library.\<close>

definition is_power_of_two :: "u32 \<Rightarrow> bool" where
  "is_power_of_two n \<longleftrightarrow> list_ex (\<lambda>k. n = push_bit k 1) [0..<32]"

fun floor_log2 :: "nat \<Rightarrow> nat" where
  "floor_log2 n = (if n < 2 then 0 else Suc (floor_log2 (n div 2)))"

declare floor_log2.simps [simp del]

definition checked_ilog2 :: "u32 \<Rightarrow> nat option" where
  "checked_ilog2 n = (if n = 0 then None else Some (floor_log2 (unat n)))"

(* SRC core validate_scrypt_params *)
definition validate_scrypt_params :: "u32 \<Rightarrow> u32 \<Rightarrow> u32 \<Rightarrow> unit res" where
  "validate_scrypt_params n r p =
     (if n < 2 \<or> \<not> is_power_of_two n \<or> n > push_bit 17 1 then bail ''scrypt N out of bounds''
      else if \<not> (1 \<le> r \<and> r \<le> 16) then bail ''scrypt r out of bounds''
      else if \<not> (1 \<le> p \<and> p \<le> 16) then bail ''scrypt p out of bounds''
      else Inr ())"

(* SRC core derive_kek_scrypt *)
definition derive_kek_scrypt ::
    "'e core_env_scheme \<Rightarrow> bytes \<Rightarrow> bytes \<Rightarrow> u32 \<Rightarrow> u32 \<Rightarrow> u32 \<Rightarrow> bytes res" where
  "derive_kek_scrypt E passphrase salt n r p =
     and_then (validate_scrypt_params n r p) (\<lambda>_.
     and_then (ok_or ''invalid scrypt N'' (checked_ilog2 n)) (\<lambda>log_n.
     if \<not> scrypt_params_new E (log_n mod 256) r p KEY_BYTES
     then Inl [Msg ''invalid scrypt parameters'', Lib ''scrypt'']
     else with_context ''scrypt derivation failed''
            (lib_res ''scrypt'' (scrypt_kdf E (log_n mod 256) r p passphrase salt))))"

(* SRC core export_master_key *)
definition export_master_key ::
    "'e core_env_scheme \<Rightarrow> bytes \<Rightarrow> bytes \<Rightarrow> bytes \<Rightarrow> bytes \<Rightarrow> export_blob res" where
  \<comment> \<open>\<open>salt\<close> (16 bytes) and \<open>nonce\<close> are the draws from \<open>OsRng\<close>.\<close>
  "export_master_key E salt nonce master_key passphrase =
     (if passphrase = [] then bail ''a non-empty passphrase is required''
      else and_then (derive_kek_scrypt E passphrase salt SCRYPT_N SCRYPT_R SCRYPT_P) (\<lambda>kek.
           and_then (encrypt_with_key E kek nonce master_key []) (\<lambda>ciphertext.
           Inr \<lparr>eb_scheme = EXPORT_SCHEME, eb_kdf = ''scrypt'',
                eb_n = SCRYPT_N, eb_r = SCRYPT_R, eb_p = SCRYPT_P,
                eb_salt = b64 E salt, eb_nonce = b64 E nonce,
                eb_ciphertext = b64 E ciphertext\<rparr>)))"

(* SRC core import_master_key *)
definition import_master_key ::
    "'e core_env_scheme \<Rightarrow> export_blob \<Rightarrow> bytes \<Rightarrow> bytes res" where
  "import_master_key E blob passphrase =
     (if passphrase = [] then bail ''a non-empty passphrase is required''
      else if eb_scheme blob \<noteq> EXPORT_SCHEME \<or> eb_kdf blob \<noteq> ''scrypt''
      then bail ''unrecognized machine-key export blob''
      else and_then (validate_scrypt_params (eb_n blob) (eb_r blob) (eb_p blob)) (\<lambda>_.
           and_then (unb64 E (eb_salt blob) ''salt'') (\<lambda>salt.
           and_then (decode_nonce E (eb_nonce blob) ''nonce'') (\<lambda>nonce.
           and_then (unb64 E (eb_ciphertext blob) ''ciphertext'') (\<lambda>ciphertext.
           and_then (derive_kek_scrypt E passphrase salt (eb_n blob) (eb_r blob) (eb_p blob)) (\<lambda>kek.
           and_then (with_context ''import failed (wrong passphrase or corrupt export)''
                      (decrypt_with_key E kek nonce ciphertext [])) (\<lambda>key.
           if length key \<noteq> KEY_BYTES then bail ''imported key has invalid length''
           else Inr key)))))))"

section \<open>What the packages promise\<close>

text \<open>Decryption undoes encryption under the same key, nonce and associated data.\<close>

definition aead_correct :: "'e core_env_scheme \<Rightarrow> bool" where
  "aead_correct E \<longleftrightarrow>
     (\<forall>k n m a c. aes_encrypt E k n m a = Some c \<longrightarrow> aes_decrypt E k n c a = Some m)"

text \<open>
  GCM verifies the tag of the ciphertext it is given against the one the sender would have
  computed: what decrypts is what encryption of the result yields.
\<close>

definition aead_authentic :: "'e core_env_scheme \<Rightarrow> bool" where
  "aead_authentic E \<longleftrightarrow>
     (\<forall>k n m a c. aes_decrypt E k n c a = Some m \<longrightarrow> aes_encrypt E k n m a = Some c)"

definition base64_correct :: "'e core_env_scheme \<Rightarrow> bool" where
  "base64_correct E \<longleftrightarrow> (\<forall>raw. base64_decode E (base64_encode E raw) = Some raw)"

definition wrap_meta_json_correct :: "'e core_env_scheme \<Rightarrow> bool" where
  "wrap_meta_json_correct E \<longleftrightarrow>
     (\<forall>m t. wrap_meta_to_json E m = Some t \<longrightarrow> wrap_meta_from_json E t = Some m)"

text \<open>
  A JSON string literal ends at its first unescaped quote, so no literal is a proper prefix
  of another, and distinct strings have distinct literals.
\<close>

definition serde_string_prefix_free :: "'e core_env_scheme \<Rightarrow> bool" where
  "serde_string_prefix_free E \<longleftrightarrow>
     (\<forall>s t x y. serde_string E s @ x = serde_string E t @ y \<longrightarrow> s = t \<and> x = y)"

section \<open>Lemmas\<close>

lemmas open_defs = open_envelope_def open_with_dek_def parse_wrap_meta_def
  open_value_with_dek_def open_protected_value_with_dek_def decode_nonce_def unb64_def
  decrypt_with_key_def slice_to_key_def

lemmas package_laws = aead_correct_def aead_authentic_def base64_correct_def
  wrap_meta_json_correct_def

lemma parse_wrap_meta_eq_Inr:
  "parse_wrap_meta E s = Inr m \<longleftrightarrow>
     wrap_meta_from_json E (sl_wrap_meta s) = Some m \<and> wm_scheme m = WRAP_SCHEME
     \<and> wm_v m = WRAP_META_VERSION"
  by (auto simp: parse_wrap_meta_def res_simps)

lemma unb64_eq_Inr: "unb64 E t f = Inr raw \<longleftrightarrow> base64_decode E t = Some raw"
  by (simp add: unb64_def res_simps)

lemma decode_nonce_eq_Inr:
  "decode_nonce E t f = Inr n \<longleftrightarrow> base64_decode E t = Some n \<and> length n = NONCE_BYTES"
  by (auto simp: decode_nonce_def res_simps unb64_eq_Inr)

lemma decrypt_with_key_eq_Inr:
  "decrypt_with_key E k n c a = Inr m \<longleftrightarrow> aes_decrypt E k n c a = Some m"
  by (simp add: decrypt_with_key_def res_simps)

lemma encrypt_with_key_eq_Inr:
  "encrypt_with_key E k n m a = Inr c \<longleftrightarrow> aes_encrypt E k n m a = Some c"
  by (simp add: encrypt_with_key_def res_simps)

lemma decrypt_cases:
  "decrypt_with_key E k n c a =
     (case aes_decrypt E k n c a of None \<Rightarrow> bail ''authentication failed'' | Some m \<Rightarrow> Inr m)"
  by (simp add: decrypt_with_key_def split: option.split)

lemma slice_to_key_eq_Inr: "slice_to_key k = Inr k' \<longleftrightarrow> k = k' \<and> length k = KEY_BYTES"
  by (simp add: slice_to_key_def)

lemmas open_eq_Inr = slice_to_key_eq_Inr parse_wrap_meta_eq_Inr unb64_eq_Inr decode_nonce_eq_Inr
  decrypt_with_key_eq_Inr encrypt_with_key_eq_Inr res_simps

text \<open>Two attempts at a decryption: the first associated data, then the second.\<close>

lemma two_attempts_eq_Inr:
  "(case decrypt_with_key E k n c a of
      Inr p \<Rightarrow> Inr p
    | Inl e \<Rightarrow> with_context m (case decrypt_with_key E k n c b of Inr p \<Rightarrow> Inr p | Inl _ \<Rightarrow> Inl e))
   = Inr v \<longleftrightarrow>
   aes_decrypt E k n c a = Some v
   \<or> (aes_decrypt E k n c a = None \<and> aes_decrypt E k n c b = Some v)"
  by (auto simp: decrypt_cases bail_def split: option.splits)

lemma open_value_with_dek_eq_Inr:
  "open_value_with_dek E dek name s = Inr v \<longleftrightarrow>
     (\<exists>n c. base64_decode E (sl_nonce s) = Some n \<and> length n = NONCE_BYTES
        \<and> base64_decode E (sl_ciphertext s) = Some c
        \<and> (aes_decrypt E dek n c (aad name) = Some v
           \<or> (aes_decrypt E dek n c (aad name) = None \<and> aes_decrypt E dek n c [] = Some v)))"
  by (simp add: open_value_with_dek_def open_eq_Inr two_attempts_eq_Inr)

lemma open_protected_value_eq_Inr:
  "open_protected_value_with_dek E dek name s m = Inr v \<longleftrightarrow>
     (\<exists>n c. base64_decode E (sl_nonce s) = Some n \<and> length n = NONCE_BYTES
        \<and> base64_decode E (sl_ciphertext s) = Some c
        \<and> (aes_decrypt E dek n c (protected_record_aad E name m) = Some v
           \<or> (aes_decrypt E dek n c (protected_record_aad E name m) = None
              \<and> aes_decrypt E dek n c (aad name) = Some v)))"
  by (simp add: open_protected_value_with_dek_def open_eq_Inr two_attempts_eq_Inr Let_def)

lemma aad_neq_Nil [simp]: "aad name \<noteq> []"
  by (simp add: aad_def)

lemma aad_inject [simp]: "aad a = aad b \<longleftrightarrow> a = b"
  by (simp add: aad_def)

text \<open>The record part of the protected associated data.\<close>

definition canonical_record :: "protected_record_meta option \<Rightarrow> protected_record_meta option" where
  "canonical_record r = (case r of Some (Keypair pk) \<Rightarrow> Some (Keypair (to_ascii_lowercase pk)) | _ \<Rightarrow> r)"

lemma prefix_freeD:
  "\<lbrakk>serde_string_prefix_free E; serde_string E s @ x = serde_string E t @ y\<rbrakk> \<Longrightarrow> s = t \<and> x = y"
  unfolding serde_string_prefix_free_def by blast

text \<open>The two variable parts of the associated data, as functions of the metadata.\<close>

definition record_json :: "'e core_env_scheme \<Rightarrow> protected_record_meta option \<Rightarrow> string" where
  "record_json E r = (case r of
       Some Static \<Rightarrow> ''{\"kind\":\"static\"}''
     | Some (Keypair pk) \<Rightarrow>
         ''{\"kind\":\"keypair\",\"public_key\":'' @ json_string E (to_ascii_lowercase pk) @ ''}''
     | None \<Rightarrow> ''null'')"

definition scheme_version_json :: "'e core_env_scheme \<Rightarrow> wrap_meta \<Rightarrow> string" where
  "scheme_version_json E m = '',\"scheme\":'' @ json_string E (wm_scheme m)
     @ '',\"version\":'' @ decimal (unat (wm_v m)) @ ''}''"

lemma protected_record_aad_parts:
  "protected_record_aad E name m =
     as_bytes (''{\"domain\":\"avault:protected-record:aad:v2\",\"name\":'' @ json_string E name
       @ '',\"record\":'' @ record_json E (wm_record_meta m) @ scheme_version_json E m)"
  unfolding protected_record_aad_def record_json_def scheme_version_json_def Let_def ..

lemma protected_record_aad_ends: "\<exists>bs. protected_record_aad E name m = bs @ [125]"
proof -
  have "\<exists>z. scheme_version_json E m = z @ ''}''"
    unfolding scheme_version_json_def append_assoc [symmetric] by blast
  then obtain z where z: "scheme_version_json E m = z @ ''}''" by blast
  have close: "as_bytes ''}'' = [125]" by (simp add: as_bytes_def)
  show ?thesis
    unfolding protected_record_aad_parts z append_assoc [symmetric]
    unfolding as_bytes_append close by blast
qed

lemma aad_ends: "aad name = (as_bytes name @ as_bytes WRAP_SCHEME) @ [1]"
  by (simp add: aad_def WRAP_META_VERSION_def)

lemma protected_record_aad_neq_Nil [simp]: "protected_record_aad E name m \<noteq> []"
  using protected_record_aad_ends [of E name m] by auto

lemma aad_domains_disjoint [simp]:
  "aad a \<noteq> protected_record_aad E b m" "protected_record_aad E b m \<noteq> aad a"
proof -
  obtain bs where "protected_record_aad E b m = bs @ [125]"
    using protected_record_aad_ends by blast
  then show "aad a \<noteq> protected_record_aad E b m" by (simp add: aad_ends)
  then show "protected_record_aad E b m \<noteq> aad a" by metis
qed

lemma record_json_simps:
  "record_json E None = ''null''"
  "record_json E (Some Static) = ''{\"kind\":\"static\"}''"
  "record_json E (Some (Keypair pk)) =
     ''{\"kind\":\"keypair\",\"public_key\":'' @ json_string E (to_ascii_lowercase pk) @ ''}''"
  by (simp_all add: record_json_def)

lemma canonical_record_simps [simp]:
  "canonical_record None = None"
  "canonical_record (Some Static) = Some Static"
  "canonical_record (Some (Keypair pk)) = Some (Keypair (to_ascii_lowercase pk))"
  by (simp_all add: canonical_record_def)

lemma record_cases:
  obtains "r = None" | "r = Some Static" | pk where "r = Some (Keypair pk)"
  by (metis option.exhaust protected_record_meta.exhaust)

lemma record_json_prefix_free:
  assumes pf: "serde_string_prefix_free E"
    and eq: "record_json E r @ x = record_json E r' @ y"
  shows "canonical_record r = canonical_record r' \<and> x = y"
proof (cases r rule: record_cases)
  case 1
  with eq show ?thesis by (cases r' rule: record_cases) (simp_all add: record_json_simps)
next
  case 2
  with eq show ?thesis by (cases r' rule: record_cases) (simp_all add: record_json_simps)
next
  case (3 pk)
  show ?thesis
  proof (cases r' rule: record_cases)
    fix pk'
    assume r': "r' = Some (Keypair pk')"
    from eq 3 r' have "serde_string E (to_ascii_lowercase pk) @ (CHR ''}'' # x)
        = serde_string E (to_ascii_lowercase pk') @ (CHR ''}'' # y)"
      by (simp add: record_json_simps json_string_def)
    from prefix_freeD [OF pf this] show ?thesis using 3 r' by simp
  qed (use eq 3 in \<open>simp_all add: record_json_simps\<close>)
qed

lemma scheme_version_json_inject:
  assumes pf: "serde_string_prefix_free E"
    and eq: "scheme_version_json E m = scheme_version_json E m'"
  shows "wm_scheme m = wm_scheme m' \<and> wm_v m = wm_v m'"
proof -
  from eq have "serde_string E (wm_scheme m) @ '',\"version\":'' @ decimal (unat (wm_v m)) @ ''}''
      = serde_string E (wm_scheme m') @ '',\"version\":'' @ decimal (unat (wm_v m')) @ ''}''"
    by (simp add: scheme_version_json_def json_string_def)
  from prefix_freeD [OF pf this] show ?thesis by (simp add: word_unat_eq_iff)
qed

lemma protected_record_aad_injectD:
  assumes pf: "serde_string_prefix_free E"
    and eq: "protected_record_aad E a m = protected_record_aad E b m'"
  shows "a = b \<and> canonical_record (wm_record_meta m) = canonical_record (wm_record_meta m')
    \<and> wm_scheme m = wm_scheme m' \<and> wm_v m = wm_v m'"
proof -
  from eq have "serde_string E a @ ('',\"record\":'' @ record_json E (wm_record_meta m) @ scheme_version_json E m)
      = serde_string E b @ ('',\"record\":'' @ record_json E (wm_record_meta m') @ scheme_version_json E m')"
    unfolding protected_record_aad_parts json_string_def as_bytes_inject by simp
  from prefix_freeD [OF pf this] have ab: "a = b"
    and "record_json E (wm_record_meta m) @ scheme_version_json E m
      = record_json E (wm_record_meta m') @ scheme_version_json E m'"
    by simp_all
  from record_json_prefix_free [OF pf this(2)] scheme_version_json_inject [OF pf] ab
  show ?thesis by blast
qed

subsection \<open>The scrypt parameters\<close>

lemma is_power_of_two_iff: "is_power_of_two n \<longleftrightarrow> (\<exists>k<32. n = 2 ^ k)"
  by (auto simp: is_power_of_two_def list_ex_iff)

lemma unat_power_two: "k < 32 \<Longrightarrow> unat ((2 :: u32) ^ k) = 2 ^ k"
proof -
  assume k: "k < 32"
  have "(2 :: u32) ^ k = of_nat (2 ^ k)" by simp
  then have "unat ((2 :: u32) ^ k) = 2 ^ k mod 2 ^ 32" by (simp only: unat_of_nat) simp
  moreover have "(2 :: nat) ^ k < 2 ^ 32" using k by (rule power_strict_increasing) simp
  ultimately show ?thesis by simp
qed

lemma floor_log2_power [simp]: "floor_log2 (2 ^ k) = k"
proof (induction k)
  case 0
  then show ?case by (subst floor_log2.simps) simp
next
  case (Suc k)
  have "\<not> (2 :: nat) ^ Suc k < 2" by (simp add: not_less)
  then show ?case using Suc by (subst floor_log2.simps) simp
qed

lemma unat_numeral_u32: "unat (n :: u32) < 2 \<longleftrightarrow> n < 2"
  by (simp add: word_less_nat_alt)

lemma scrypt_n_accepted:
  "\<not> (n < 2 \<or> \<not> is_power_of_two n \<or> n > 2 ^ 17)
     \<longleftrightarrow> (\<exists>k. 1 \<le> k \<and> k \<le> 17 \<and> n = 2 ^ k)"
proof -
  have le: "(2 :: u32) ^ 17 < 2 ^ k \<longleftrightarrow> 17 < k" if "k < 32" for k
  proof -
    have "(2 :: u32) ^ 17 < 2 ^ k \<longleftrightarrow> (2 :: nat) ^ 17 < 2 ^ k"
      unfolding word_less_nat_alt using that by (simp only: unat_power_two)
    also have "\<dots> \<longleftrightarrow> 17 < k" by (rule power_strict_increasing_iff) simp
    finally show ?thesis .
  qed
  have lt: "(2 :: u32) ^ k < 2 \<longleftrightarrow> k = 0" if "k < 32" for k
  proof -
    have "(2 :: u32) ^ k < 2 \<longleftrightarrow> (2 :: nat) ^ k < 2"
      using that by (simp add: word_less_nat_alt unat_power_two)
    also have "\<dots> \<longleftrightarrow> k = 0" by (cases k) simp_all
    finally show ?thesis .
  qed
  show ?thesis unfolding is_power_of_two_iff
  proof
    assume "\<not> (n < 2 \<or> \<not> (\<exists>k<32. n = 2 ^ k) \<or> n > 2 ^ 17)"
    then obtain k where "k < 32" "n = 2 ^ k" "\<not> n < 2" "\<not> n > 2 ^ 17" by blast
    with le [of k] lt [of k] show "\<exists>k. 1 \<le> k \<and> k \<le> 17 \<and> n = 2 ^ k" by (intro exI [of _ k]) auto
  next
    assume "\<exists>k. 1 \<le> k \<and> k \<le> 17 \<and> n = 2 ^ k"
    then obtain k where k: "1 \<le> k" "k \<le> 17" "n = 2 ^ k" by blast
    then have k32: "k < 32" by simp
    with k(3) have "\<exists>k<32. n = 2 ^ k" by blast
    with k le [OF k32] lt [OF k32] show
      "\<not> (n < 2 \<or> \<not> (\<exists>k<32. n = 2 ^ k) \<or> n > 2 ^ 17)" by auto
  qed
qed

lemma validate_scrypt_params_iff:
  "validate_scrypt_params n r p = Inr () \<longleftrightarrow>
     (\<exists>k. 1 \<le> k \<and> k \<le> 17 \<and> n = 2 ^ k) \<and> 1 \<le> r \<and> r \<le> 16 \<and> 1 \<le> p \<and> p \<le> 16"
  unfolding validate_scrypt_params_def scrypt_n_accepted [symmetric] by auto

lemma checked_ilog2_power: "k < 32 \<Longrightarrow> checked_ilog2 (2 ^ k) = Some k"
proof -
  assume k: "k < 32"
  have "unat ((2 :: u32) ^ k) \<noteq> 0" using k by (simp add: unat_power_two)
  then have "(2 :: u32) ^ k \<noteq> 0" by (metis unat_0)
  with k show ?thesis by (simp add: checked_ilog2_def unat_power_two)
qed

lemma derive_kek_scrypt_accepted:
  assumes "1 \<le> k" "k \<le> 17" "n = 2 ^ k" "1 \<le> r" "r \<le> 16" "1 \<le> p" "p \<le> 16"
  shows "derive_kek_scrypt E pass salt n r p =
    (if \<not> scrypt_params_new E k r p KEY_BYTES
     then Inl [Msg ''invalid scrypt parameters'', Lib ''scrypt'']
     else with_context ''scrypt derivation failed'' (lib_res ''scrypt'' (scrypt_kdf E k r p pass salt)))"
proof -
  have "validate_scrypt_params n r p = Inr ()"
    using assms validate_scrypt_params_iff by blast
  moreover have "checked_ilog2 n = Some k" using assms by (simp add: checked_ilog2_power)
  ultimately show ?thesis using assms by (simp add: derive_kek_scrypt_def)
qed

section \<open>Sample packages\<close>

text \<open>
  Concrete functions in place of the packages, on which the witnesses evaluate: encryption
  that writes its key, nonce and associated data in front of the message, the identity as
  base64, and strings printed behind their length in unary.
\<close>

definition sample_str :: "string \<Rightarrow> string" where
  "sample_str s = replicate (length s) CHR ''|'' @ CHR '':'' # s"

definition sample_unstr :: "string \<Rightarrow> (string \<times> string) option" where
  "sample_unstr t =
     (let n = length (takeWhile (\<lambda>c. c = CHR ''|'') t); r = drop (Suc n) t
      in if n \<le> length r then Some (take n r, drop n r) else None)"

definition sample_meta_to_json :: "wrap_meta \<Rightarrow> string option" where
  "sample_meta_to_json m = Some (sample_str (decimal (unat (wm_v m))) @ sample_str (wm_scheme m)
     @ sample_str (wm_wrapped_dek m) @ sample_str (wm_dek_nonce m)
     @ (case wm_record_meta m of None \<Rightarrow> [] | Some Static \<Rightarrow> ''s'' | Some (Keypair pk) \<Rightarrow> CHR ''k'' # pk))"

definition sample_meta_from_json :: "string \<Rightarrow> wrap_meta option" where
  "sample_meta_from_json t =
     (case sample_unstr t of None \<Rightarrow> None | Some (v, t) \<Rightarrow>
     (case sample_unstr t of None \<Rightarrow> None | Some (scheme, t) \<Rightarrow>
     (case sample_unstr t of None \<Rightarrow> None | Some (wrapped, t) \<Rightarrow>
     (case sample_unstr t of None \<Rightarrow> None | Some (nonce, t) \<Rightarrow>
       Some \<lparr>wm_v = of_nat (decimal_value v), wm_scheme = scheme, wm_wrapped_dek = wrapped,
             wm_dek_nonce = nonce,
             wm_record_meta = (case t of [] \<Rightarrow> None
               | c # pk \<Rightarrow> if c = CHR ''s'' then Some Static else Some (Keypair pk))\<rparr>))))"

definition sample_header :: "bytes \<Rightarrow> bytes \<Rightarrow> bytes \<Rightarrow> bytes" where
  "sample_header k n a = k @ n @ be32 (length a) @ a"

definition sample_core :: core_env where
  "sample_core = \<lparr>
     aes_encrypt = (\<lambda>k n m a. Some (sample_header k n a @ m)),
     aes_decrypt = (\<lambda>k n c a. let h = sample_header k n a
        in if take (length h) c = h then Some (drop (length h) c) else None),
     scrypt_params_new = (\<lambda>log_n r p len. 0 < r \<and> 0 < p),
     scrypt_kdf = (\<lambda>log_n r p pass salt. Some (take 32 (pass @ salt @ replicate 32 0))),
     base64_encode = string_of,
     base64_decode = (\<lambda>t. Some (as_bytes t)),
     serde_string = sample_str,
     wrap_meta_to_json = sample_meta_to_json,
     wrap_meta_from_json = sample_meta_from_json\<rparr>"

lemma takeWhile_replicate_append: "takeWhile (\<lambda>c. c = x) (replicate n x @ y # r) = replicate n x"
  if "y \<noteq> x"
  using that by (induction n) simp_all

lemma sample_unstr_str [simp]: "sample_unstr (sample_str s @ x) = Some (s, x)"
proof -
  have tw: "takeWhile (\<lambda>c. c = CHR ''|'') (sample_str s @ x) = replicate (length s) CHR ''|''"
    using takeWhile_replicate_append [of "CHR '':''" "CHR ''|''" "length s" "s @ x"]
    by (simp add: sample_str_def)
  have "drop (Suc (length s)) (sample_str s @ x) = s @ x"
    by (simp add: sample_str_def)
  with tw show ?thesis by (simp add: sample_unstr_def Let_def del: drop_append length_drop)
qed

lemma sample_str_prefix_free: "serde_string_prefix_free sample_core"
  unfolding serde_string_prefix_free_def
proof (intro allI impI)
  fix s t x y
  assume "serde_string sample_core s @ x = serde_string sample_core t @ y"
  then have "sample_unstr (sample_str s @ x) = sample_unstr (sample_str t @ y)"
    by (simp add: sample_core_def)
  then show "s = t \<and> x = y" by simp
qed

lemma sample_meta_roundtrip: "wrap_meta_json_correct sample_core"
  by (auto simp: wrap_meta_json_correct_def sample_core_def sample_meta_to_json_def
      sample_meta_from_json_def split: option.splits protected_record_meta.splits)

lemma sample_aead: "aead_correct sample_core" "aead_authentic sample_core"
  by (auto simp: aead_correct_def aead_authentic_def sample_core_def Let_def split: if_splits)
     (metis append_take_drop_id)

lemma sample_base64: "base64_correct sample_core"
  by (simp add: base64_correct_def sample_core_def)

section \<open>Sealing and opening\<close>

lemma seal_opens:
  assumes "aead_correct E" "base64_correct E" "wrap_meta_json_correct E"
    and "length dek = KEY_BYTES" "length value_nonce = NONCE_BYTES" "length dek_nonce = NONCE_BYTES"
    and sealed: "seal E dek value_nonce dek_nonce master_key name value = Inr s"
  shows "open_envelope E master_key name s = Inr value"
proof -
  have "base64_decode E (base64_encode E x) = Some x" for x
    using assms(2) by (simp add: base64_correct_def)
  moreover from sealed obtain c w where "aes_encrypt E dek value_nonce value (aad name) = Some c"
    "aes_encrypt E master_key dek_nonce dek [] = Some w"
    and "wrap_meta_to_json E \<lparr>wm_v = WRAP_META_VERSION, wm_scheme = WRAP_SCHEME,
      wm_wrapped_dek = b64 E w, wm_dek_nonce = b64 E dek_nonce, wm_record_meta = None\<rparr>
      = Some (sl_wrap_meta s)"
    and "sl_ciphertext s = b64 E c" "sl_nonce s = b64 E value_nonce"
    by (auto simp: seal_def open_eq_Inr Let_def)
  ultimately show ?thesis
    using assms(1,3-6)
    by (simp add: aead_correct_def wrap_meta_json_correct_def open_envelope_def parse_wrap_meta_def
        decode_nonce_def unb64_def decrypt_with_key_def slice_to_key_def open_value_with_dek_def b64_def)
qed

section \<open>Properties\<close>

text \<open>
  C2. What \<open>seal\<close> stores opens again: under the same master key and record name,
  \<open>open\<close> returns exactly the sealed plaintext, whatever was drawn for the data key and
  the two nonces, and it never falls through to the legacy empty associated data.
\<close>

theorem seal_then_open:
  assumes "aead_correct E" "base64_correct E" "wrap_meta_json_correct E"
    and "length dek = KEY_BYTES" "length value_nonce = NONCE_BYTES" "length dek_nonce = NONCE_BYTES"
    and sealed: "seal E dek value_nonce dek_nonce master_key name value = Inr s"
  shows "open_envelope E master_key name s = Inr value"
  by (rule seal_opens) (fact assms)+

theorem seal_then_open_witness:
  "\<exists>s. seal sample_core (replicate 32 7) (replicate 12 1) (replicate 12 2) (replicate 32 9)
         ''db-url'' [1, 2, 3] = Inr s
     \<and> open_envelope sample_core (replicate 32 9) ''db-url'' s = Inr [1, 2, 3]"
proof -
  obtain s where s: "seal sample_core (replicate 32 7) (replicate 12 1) (replicate 12 2)
      (replicate 32 9) ''db-url'' [1, 2, 3] = Inr s"
    by (simp add: seal_def sample_core_def encrypt_with_key_def Let_def sample_meta_to_json_def)
  have "open_envelope sample_core (replicate 32 9) ''db-url'' s = Inr [1, 2, 3]"
    by (rule seal_then_open [OF sample_aead(1) sample_base64 sample_meta_roundtrip _ _ _ s])
      (simp_all add: KEY_BYTES_def NONCE_BYTES_def)
  with s show ?thesis by blast
qed

text \<open>
  C1. Exactly when \<open>open\<close> succeeds, and with what: the metadata parses with the one scheme
  and version, the wrapped key decrypts to 32 bytes under the master key with no associated
  data, and the value decrypts under the name-bound associated data or, only when that fails,
  under the empty associated data of the legacy records.
\<close>

theorem open_envelope_exact:
  "open_envelope E master_key name s = Inr v \<longleftrightarrow>
     (\<exists>meta dek_nonce wrapped dek n c.
        wrap_meta_from_json E (sl_wrap_meta s) = Some meta
      \<and> wm_scheme meta = WRAP_SCHEME \<and> wm_v meta = WRAP_META_VERSION
      \<and> base64_decode E (wm_dek_nonce meta) = Some dek_nonce \<and> length dek_nonce = NONCE_BYTES
      \<and> base64_decode E (wm_wrapped_dek meta) = Some wrapped
      \<and> aes_decrypt E master_key dek_nonce wrapped [] = Some dek \<and> length dek = KEY_BYTES
      \<and> base64_decode E (sl_nonce s) = Some n \<and> length n = NONCE_BYTES
      \<and> base64_decode E (sl_ciphertext s) = Some c
      \<and> (aes_decrypt E dek n c (aad name) = Some v
         \<or> (aes_decrypt E dek n c (aad name) = None \<and> aes_decrypt E dek n c [] = Some v)))"
  unfolding open_envelope_def open_eq_Inr open_value_with_dek_eq_Inr by blast

text \<open>
  The associated data of a protected record binds everything it names: two records have
  the same one exactly when they agree on name, record metadata (a public key up to ASCII
  case), wrap scheme and version; and it never equals the name-only one nor the empty one.
\<close>

theorem protected_record_aad_binds:
  assumes "serde_string_prefix_free E"
  shows "(protected_record_aad E a m = protected_record_aad E b m' \<longleftrightarrow>
      a = b \<and> canonical_record (wm_record_meta m) = canonical_record (wm_record_meta m')
      \<and> wm_scheme m = wm_scheme m' \<and> wm_v m = wm_v m')
    \<and> protected_record_aad E a m \<noteq> aad b \<and> protected_record_aad E a m \<noteq> []"
proof -
  have rec: "record_json E r = record_json E r'" if "canonical_record r = canonical_record r'" for r r'
    using that by (cases r rule: record_cases; cases r' rule: record_cases)
      (simp_all add: record_json_simps)
  have "protected_record_aad E a m = protected_record_aad E b m'"
    if "a = b" "canonical_record (wm_record_meta m) = canonical_record (wm_record_meta m')"
      "wm_scheme m = wm_scheme m'" "wm_v m = wm_v m'"
    unfolding protected_record_aad_parts scheme_version_json_def that(1,3,4) rec [OF that(2)] ..
  then show ?thesis
    using protected_record_aad_injectD [OF assms, of a m b m'] by auto
qed

text \<open>
  C14. A protected record opens with a delivered data key only under associated data that
  names it: what \<open>open_with_dek\<close> returns is a plaintext whose encryption under that data key
  and the record's own nonce, bound to the record (name, metadata, scheme, version) or for an
  older record to its name, is the stored ciphertext. The empty associated data that \<open>open\<close>
  still accepts is never accepted here.
\<close>

theorem open_with_dek_authentic:
  assumes "aead_authentic E"
    and "open_with_dek E dek name s = Inr v"
  shows "\<exists>meta n c. wrap_meta_from_json E (sl_wrap_meta s) = Some meta
      \<and> wm_scheme meta = WRAP_SCHEME \<and> wm_v meta = WRAP_META_VERSION
      \<and> base64_decode E (sl_nonce s) = Some n \<and> length n = NONCE_BYTES
      \<and> base64_decode E (sl_ciphertext s) = Some c
      \<and> (aes_encrypt E dek n v (protected_record_aad E name meta) = Some c
         \<or> aes_encrypt E dek n v (aad name) = Some c)"
  using assms unfolding open_with_dek_def open_eq_Inr open_protected_value_eq_Inr aead_authentic_def
  by blast

definition sample_protected :: sealed where
  "sample_protected =
     (let meta = \<lparr>wm_v = WRAP_META_VERSION, wm_scheme = WRAP_SCHEME, wm_wrapped_dek = [],
                  wm_dek_nonce = [], wm_record_meta = Some (Keypair ''02AB'')\<rparr>;
          n = replicate 12 5
      in \<lparr>sl_ciphertext = string_of (sample_header (replicate 32 7) n
              (protected_record_aad sample_core ''key'' meta) @ [4, 5]),
          sl_nonce = string_of n, sl_wrap_meta = the (sample_meta_to_json meta)\<rparr>)"

lemma sample_core_simps:
  "aes_encrypt sample_core k n m a = Some (sample_header k n a @ m)"
  "aes_decrypt sample_core k n (sample_header k n a @ m) a = Some m"
  "base64_decode sample_core t = Some (as_bytes t)"
  "base64_encode sample_core raw = string_of raw"
  "wrap_meta_to_json sample_core meta = sample_meta_to_json meta"
  by (simp_all add: sample_core_def Let_def)

lemma sample_meta_the:
  "wrap_meta_from_json sample_core (the (sample_meta_to_json m)) = Some m"
  using sample_meta_roundtrip
  by (simp add: wrap_meta_json_correct_def sample_core_simps sample_meta_to_json_def)

lemma open_with_dek_sample:
  "open_with_dek sample_core (replicate 32 7) ''key'' sample_protected = Inr [4, 5]"
  unfolding open_with_dek_def open_eq_Inr open_protected_value_eq_Inr
  by (simp add: sample_protected_def Let_def sample_core_simps sample_meta_the NONCE_BYTES_def)

theorem open_with_dek_authentic_witness:
  "\<exists>meta n c. wrap_meta_from_json sample_core (sl_wrap_meta sample_protected) = Some meta
      \<and> wm_scheme meta = WRAP_SCHEME \<and> wm_v meta = WRAP_META_VERSION
      \<and> base64_decode sample_core (sl_nonce sample_protected) = Some n \<and> length n = NONCE_BYTES
      \<and> base64_decode sample_core (sl_ciphertext sample_protected) = Some c
      \<and> (aes_encrypt sample_core (replicate 32 7) n [4, 5]
             (protected_record_aad sample_core ''key'' meta) = Some c
         \<or> aes_encrypt sample_core (replicate 32 7) n [4, 5] (aad ''key'') = Some c)"
  by (rule open_with_dek_authentic [OF sample_aead(2) open_with_dek_sample])

definition sample_meta :: wrap_meta where
  "sample_meta = \<lparr>wm_v = WRAP_META_VERSION, wm_scheme = WRAP_SCHEME, wm_wrapped_dek = [],
     wm_dek_nonce = [], wm_record_meta = Some (Keypair ''02AB'')\<rparr>"

theorem protected_record_aad_binds_witness:
  "protected_record_aad sample_core ''a'' sample_meta \<noteq> protected_record_aad sample_core ''b'' sample_meta"
  using protected_record_aad_binds [OF sample_str_prefix_free, of "''a''" sample_meta "''b''" sample_meta]
  by simp

text \<open>
  The work factors of a master-key export are accepted exactly in the documented window:
  N a power of two from \<open>2 ^ 1\<close> to \<open>2 ^ 17\<close>, r and p from 1 to 16. On accepted factors
  the logarithm handed to scrypt is the exponent itself (the narrowing to \<open>u8\<close> loses nothing and
  the \<open>invalid scrypt N\<close> error is unreachable); on any other the derivation is not started.
\<close>

theorem scrypt_parameter_window:
  "(validate_scrypt_params n r p = Inr () \<longleftrightarrow>
      (\<exists>k. 1 \<le> k \<and> k \<le> 17 \<and> n = 2 ^ k \<and> floor_log2 (unat n) = k)
      \<and> 1 \<le> r \<and> r \<le> 16 \<and> 1 \<le> p \<and> p \<le> 16)
   \<and> (derive_kek_scrypt E passphrase salt n r p =
        (case validate_scrypt_params n r p of
           Inl e \<Rightarrow> Inl e
         | Inr _ \<Rightarrow>
             if scrypt_params_new E (floor_log2 (unat n)) r p KEY_BYTES
             then with_context ''scrypt derivation failed''
                    (lib_res ''scrypt'' (scrypt_kdf E (floor_log2 (unat n)) r p passphrase salt))
             else Inl [Msg ''invalid scrypt parameters'', Lib ''scrypt'']))"
proof -
  have log: "checked_ilog2 n = Some (floor_log2 (unat n))" and ex: "floor_log2 (unat n) < 256"
    if "validate_scrypt_params n r p = Inr ()"
  proof -
    from that obtain k where "1 \<le> k" "k \<le> 17" "n = 2 ^ k" using validate_scrypt_params_iff by blast
    then show "checked_ilog2 n = Some (floor_log2 (unat n))" "floor_log2 (unat n) < 256"
      by (simp_all add: checked_ilog2_power unat_power_two)
  qed
  have "(\<exists>k. 1 \<le> k \<and> k \<le> 17 \<and> n = 2 ^ k) \<longleftrightarrow>
      (\<exists>k. 1 \<le> k \<and> k \<le> 17 \<and> n = 2 ^ k \<and> floor_log2 (unat n) = k)"
    by (auto simp: unat_power_two)
  with validate_scrypt_params_iff [of n r p] have "validate_scrypt_params n r p = Inr () \<longleftrightarrow>
      (\<exists>k. 1 \<le> k \<and> k \<le> 17 \<and> n = 2 ^ k \<and> floor_log2 (unat n) = k)
      \<and> 1 \<le> r \<and> r \<le> 16 \<and> 1 \<le> p \<and> p \<le> 16" by simp
  moreover have "derive_kek_scrypt E passphrase salt n r p =
      (case validate_scrypt_params n r p of Inl e \<Rightarrow> Inl e
       | Inr _ \<Rightarrow>
           if scrypt_params_new E (floor_log2 (unat n)) r p KEY_BYTES
           then with_context ''scrypt derivation failed''
                  (lib_res ''scrypt'' (scrypt_kdf E (floor_log2 (unat n)) r p passphrase salt))
           else Inl [Msg ''invalid scrypt parameters'', Lib ''scrypt''])"
  proof (cases "validate_scrypt_params n r p")
    case (Inr u)
    then show ?thesis using log ex by (simp add: derive_kek_scrypt_def)
  qed (simp add: derive_kek_scrypt_def)
  ultimately show ?thesis by blast
qed

text \<open>
  A passphrase export of the master key imports back: with the passphrase that made it,
  \<open>import_master_key\<close> returns the exported 32 bytes, so a host can be restored from its own
  export; and importing with the empty passphrase always fails.
\<close>

theorem export_then_import:
  assumes "aead_correct E" "base64_correct E"
    and "length nonce = NONCE_BYTES" "length master_key = KEY_BYTES"
    and exported: "export_master_key E salt nonce master_key passphrase = Inr blob"
  shows "import_master_key E blob passphrase = Inr master_key
    \<and> import_master_key E blob [] = bail ''a non-empty passphrase is required''"
proof -
  have b64: "base64_decode E (base64_encode E x) = Some x" for x
    using assms(2) by (simp add: base64_correct_def)
  from exported obtain kek c where
    ne: "passphrase \<noteq> []" and kek: "derive_kek_scrypt E passphrase salt SCRYPT_N SCRYPT_R SCRYPT_P = Inr kek"
    and c: "aes_encrypt E kek nonce master_key [] = Some c"
    and blob: "blob = \<lparr>eb_scheme = EXPORT_SCHEME, eb_kdf = ''scrypt'', eb_n = SCRYPT_N,
      eb_r = SCRYPT_R, eb_p = SCRYPT_P, eb_salt = b64 E salt, eb_nonce = b64 E nonce,
      eb_ciphertext = b64 E c\<rparr>"
    by (auto simp: export_master_key_def open_eq_Inr split: if_splits)
  from kek have "validate_scrypt_params SCRYPT_N SCRYPT_R SCRYPT_P = Inr ()"
    by (auto simp: derive_kek_scrypt_def res_simps)
  moreover from c assms(1) have "aes_decrypt E kek nonce c [] = Some master_key"
    by (simp add: aead_correct_def)
  ultimately show ?thesis
    using ne kek assms(3,4)
    by (simp add: import_master_key_def blob b64 b64_def unb64_def decode_nonce_def decrypt_with_key_def)
qed

theorem export_then_import_witness:
  "\<exists>blob. export_master_key sample_core (replicate 16 3) (replicate 12 4) (replicate 32 9) [65]
       = Inr blob
     \<and> import_master_key sample_core blob [65] = Inr (replicate 32 9)"
proof -
  have "derive_kek_scrypt sample_core [65] (replicate 16 3) SCRYPT_N SCRYPT_R SCRYPT_P
      = Inr (take 32 ([65] @ replicate 16 3 @ replicate 32 0))"
    by (simp add: derive_kek_scrypt_accepted [where k = 15] SCRYPT_N_def SCRYPT_R_def SCRYPT_P_def
        sample_core_def)
  then obtain blob where blob:
    "export_master_key sample_core (replicate 16 3) (replicate 12 4) (replicate 32 9) [65] = Inr blob"
    by (simp add: export_master_key_def encrypt_with_key_def sample_core_simps)
  have "import_master_key sample_core blob [65] = Inr (replicate 32 9)"
    using export_then_import [OF sample_aead(1) sample_base64 _ _ blob]
    by (simp add: KEY_BYTES_def NONCE_BYTES_def)
  with blob show ?thesis by blast
qed

end
