(* ===== verification/BlindBox.thy ===== *)
theory BlindBox
  imports Envelope
begin

text \<open>
  Browser-to-avault blind boxes, \<open>crates/avault-core/src/blind_box.rs\<close>: the operation
  context a box is bound to, its associated data, the commitment to the operation's details,
  the receiver keys and the opening of a box.

  HPKE, HKDF, SHA-256 and hex are other packages: further fields of the parameter record.
  A length that does not fit \<open>u32\<close> panics (\<open>expect\<close>), so the encoders return a \<open>res\<close>.
\<close>

section \<open>Data\<close>

(* SRC blind BLIND_BOX_SCHEME *)
definition BLIND_BOX_SCHEME :: string where
  "BLIND_BOX_SCHEME = ''hpke-x25519-hkdfsha256-aes256gcm-v1''"

(* SRC blind BLIND_BOX_HPKE_INFO *)
definition BLIND_BOX_HPKE_INFO :: bytes where
  "BLIND_BOX_HPKE_INFO = as_bytes ''avault:blind-box:v1''"

(* SRC blind BLIND_BOX_AAD_DOMAIN *)
definition BLIND_BOX_AAD_DOMAIN :: bytes where
  "BLIND_BOX_AAD_DOMAIN = as_bytes ''avault:blind-box:aad:v1''"

(* SRC blind CLI_DERIVED_RECEIVER_SALT *)
definition CLI_DERIVED_RECEIVER_SALT :: bytes where
  "CLI_DERIVED_RECEIVER_SALT = as_bytes ''avault:blind-box:receiver-salt:v1''"

(* SRC blind CLI_DERIVED_RECEIVER_INFO *)
definition CLI_DERIVED_RECEIVER_INFO :: bytes where
  "CLI_DERIVED_RECEIVER_INFO = as_bytes ''avault:blind-box:receiver-x25519:v1''"

(* SRC blind BLIND_BOX_PURPOSE_SEAL *)
definition BLIND_BOX_PURPOSE_SEAL :: string where
  "BLIND_BOX_PURPOSE_SEAL = ''seal''"

(* SRC blind BLIND_BOX_PURPOSE_AGENT_DELIVER *)
definition BLIND_BOX_PURPOSE_AGENT_DELIVER :: string where
  "BLIND_BOX_PURPOSE_AGENT_DELIVER = ''agent-deliver''"

(* SRC blind BLIND_BOX_PURPOSE_AGENT_SIGN *)
definition BLIND_BOX_PURPOSE_AGENT_SIGN :: string where
  "BLIND_BOX_PURPOSE_AGENT_SIGN = ''agent-sign''"

(* SRC blind BlindBox *)
record blind_box =
  bb_scheme :: string
  bb_enc :: string
  bb_ct :: string

(* SRC blind BlindBoxContext *)
record blind_box_context =
  bc_purpose :: string
  bc_name :: string
  bc_grant_id :: "string option"
  bc_sign_scheme :: "string option"
  bc_digest :: "bytes option"
  bc_approval_nonce :: "bytes option"
  bc_approval_expires_at_unix :: "u64 option"
  bc_operation_hash :: "bytes option"

(* SRC blind BlindBoxKeypair *)
record blind_box_keypair =
  kp_private_key :: bytes
  kp_public_key :: bytes

record blind_env = core_env +
  sha256 :: "bytes \<Rightarrow> bytes"
  hex_encode :: "bytes \<Rightarrow> string"
  hkdf_expand :: "bytes \<Rightarrow> bytes \<Rightarrow> bytes \<Rightarrow> nat \<Rightarrow> bytes option"
  hpke_derive_keypair :: "bytes \<Rightarrow> bytes \<times> bytes"
  hpke_encapped_key :: "bytes \<Rightarrow> bytes option"
  hpke_open :: "bytes \<Rightarrow> bytes \<Rightarrow> bytes \<Rightarrow> bytes \<Rightarrow> bytes \<Rightarrow> bytes option"

section \<open>The operation context\<close>

(* SRC blind BlindBoxContext::new *)
definition context_new :: "string \<Rightarrow> string \<Rightarrow> blind_box_context" where
  "context_new purpose name =
     \<lparr>bc_purpose = purpose, bc_name = name, bc_grant_id = None, bc_sign_scheme = None,
      bc_digest = None, bc_approval_nonce = None, bc_approval_expires_at_unix = None,
      bc_operation_hash = None\<rparr>"

(* SRC blind BlindBoxContext::with_grant_id *)
definition with_grant_id :: "string \<Rightarrow> blind_box_context \<Rightarrow> blind_box_context" where
  "with_grant_id grant_id c = c\<lparr>bc_grant_id := Some grant_id\<rparr>"

(* SRC blind BlindBoxContext::with_signing *)
definition with_signing :: "string \<Rightarrow> bytes \<Rightarrow> blind_box_context \<Rightarrow> blind_box_context" where
  "with_signing sign_scheme digest c =
     c\<lparr>bc_sign_scheme := Some sign_scheme, bc_digest := Some digest\<rparr>"

(* SRC blind BlindBoxContext::with_approval *)
definition with_approval :: "bytes \<Rightarrow> u64 \<Rightarrow> blind_box_context \<Rightarrow> blind_box_context" where
  "with_approval nonce expires_at_unix c =
     c\<lparr>bc_approval_nonce := Some nonce, bc_approval_expires_at_unix := Some expires_at_unix\<rparr>"

(* SRC blind BlindBoxContext::with_operation_hash *)
definition with_operation_hash :: "bytes \<Rightarrow> blind_box_context \<Rightarrow> blind_box_context" where
  "with_operation_hash operation_hash c = c\<lparr>bc_operation_hash := Some operation_hash\<rparr>"

(* SRC blind BlindBoxContext::seal *)
definition context_seal :: "string \<Rightarrow> blind_box_context" where
  "context_seal name = context_new BLIND_BOX_PURPOSE_SEAL name"

(* SRC blind BlindBoxContext::agent_deliver *)
definition agent_deliver :: "string \<Rightarrow> string \<Rightarrow> blind_box_context" where
  "agent_deliver grant_id name =
     with_grant_id grant_id (context_new BLIND_BOX_PURPOSE_AGENT_DELIVER name)"

(* SRC blind BlindBoxContext::agent_sign *)
definition agent_sign :: "string \<Rightarrow> string \<Rightarrow> string \<Rightarrow> bytes \<Rightarrow> blind_box_context" where
  "agent_sign grant_id name sign_scheme digest =
     with_signing sign_scheme digest
       (with_grant_id grant_id (context_new BLIND_BOX_PURPOSE_AGENT_SIGN name))"

(* SRC blind push_aad_field *)
definition push_aad_field :: "bytes \<Rightarrow> bytes \<Rightarrow> bytes res" where
  "push_aad_field out value =
     (if length value < 2 ^ 32 then Inr (out @ be32 (length value) @ value)
      else Inl [Panic ''blind-box AAD field length fits u32''])"

definition push_aad_fields :: "bytes list \<Rightarrow> bytes \<Rightarrow> bytes res" where
  "push_aad_fields fs out = fold (\<lambda>f r. and_then r (\<lambda>out. push_aad_field out f)) fs (Inr out)"

text \<open>\<open>unwrap_or("")\<close> and \<open>unwrap_or(&[])\<close>.\<close>

definition or_empty :: "'a list option \<Rightarrow> 'a list" where
  "or_empty x = (case x of None \<Rightarrow> [] | Some v \<Rightarrow> v)"

(* SRC blind aad_bytes *)
definition aad_bytes :: "blind_box_context \<Rightarrow> bytes res" where
  "aad_bytes c = push_aad_fields
     [as_bytes (bc_purpose c),
      as_bytes (bc_name c),
      as_bytes WRAP_SCHEME,
      [WRAP_META_VERSION],
      as_bytes (or_empty (bc_grant_id c)),
      [],
      as_bytes (or_empty (bc_sign_scheme c)),
      or_empty (bc_digest c),
      or_empty (bc_approval_nonce c),
      or_empty (map_option (\<lambda>v. be64 v) (bc_approval_expires_at_unix c)),
      or_empty (bc_operation_hash c)]
     BLIND_BOX_AAD_DOMAIN"

(* SRC blind BlindBoxContext::operation_hash *)
definition operation_hash :: "'e blind_env_scheme \<Rightarrow> bytes list \<Rightarrow> bytes res" where
  "operation_hash E fs =
     map_res (sha256 E)
       (fold (\<lambda>field r. and_then r (\<lambda>hashed.
          if length field < 2 ^ 32 then Inr (hashed @ be32 (length field) @ field)
          else Inl [Panic ''operation hash field length fits u32''])) fs (Inr []))"

section \<open>Receiver keys and opening\<close>

(* SRC blind derive_blind_box_keypair *)
definition derive_blind_box_keypair :: "'e blind_env_scheme \<Rightarrow> bytes \<Rightarrow> blind_box_keypair" where
  "derive_blind_box_keypair E ikm =
     (let (private_key, public_key) = hpke_derive_keypair E ikm
      in \<lparr>kp_private_key = private_key, kp_public_key = public_key\<rparr>)"

(* SRC blind generate_blind_box_keypair *)
definition generate_blind_box_keypair :: "'e blind_env_scheme \<Rightarrow> bytes \<Rightarrow> blind_box_keypair" where
  \<comment> \<open>\<open>ikm\<close> is the draw from \<open>OsRng\<close>.\<close>
  "generate_blind_box_keypair E ikm = derive_blind_box_keypair E ikm"

(* SRC blind derive_blind_box_keypair_from_master *)
definition derive_blind_box_keypair_from_master ::
    "'e blind_env_scheme \<Rightarrow> bytes \<Rightarrow> blind_box_keypair res" where
  "derive_blind_box_keypair_from_master E master_key =
     map_res (derive_blind_box_keypair E)
       (expect_some ''HKDF output length is fixed''
         (hkdf_expand E CLI_DERIVED_RECEIVER_SALT master_key CLI_DERIVED_RECEIVER_INFO KEY_BYTES))"

(* SRC blind BlindBoxKeypair::public_key_b64 *)
definition public_key_b64 :: "'e blind_env_scheme \<Rightarrow> blind_box_keypair \<Rightarrow> string" where
  "public_key_b64 E kp = b64 E (kp_public_key kp)"

(* SRC blind BlindBoxKeypair::fingerprint_hex *)
definition fingerprint_hex :: "'e blind_env_scheme \<Rightarrow> blind_box_keypair \<Rightarrow> string" where
  "fingerprint_hex E kp = hex_encode E (sha256 E (kp_public_key kp))"

(* SRC blind open_blind_box_with_private_key *)
definition open_blind_box_with_private_key ::
    "'e blind_env_scheme \<Rightarrow> bytes \<Rightarrow> blind_box \<Rightarrow> blind_box_context \<Rightarrow> bytes res" where
  "open_blind_box_with_private_key E private_key bb c =
     (if bb_scheme bb \<noteq> BLIND_BOX_SCHEME then bail ''unsupported blind-box scheme''
      else and_then (unb64 E (bb_enc bb) ''enc'') (\<lambda>enc.
           and_then (unb64 E (bb_ct bb) ''ct'') (\<lambda>ct.
           and_then (ok_or ''enc has invalid length'' (hpke_encapped_key E enc)) (\<lambda>encapped_key.
           and_then (aad_bytes c) (\<lambda>aad.
           ok_or ''blind-box open failed''
             (hpke_open E private_key encapped_key BLIND_BOX_HPKE_INFO ct aad))))))"

(* SRC blind BlindBoxKeypair::open *)
definition open_blind_box ::
    "'e blind_env_scheme \<Rightarrow> blind_box_keypair \<Rightarrow> blind_box \<Rightarrow> blind_box_context \<Rightarrow> bytes res" where
  "open_blind_box E kp bb c = open_blind_box_with_private_key E (kp_private_key kp) bb c"

section \<open>The encoding of fields\<close>

definition short_field :: "bytes \<Rightarrow> bool" where
  "short_field f \<longleftrightarrow> length f < 2 ^ 32"

definition encode_fields :: "bytes list \<Rightarrow> bytes" where
  "encode_fields fs = concat (map (\<lambda>f. be32 (length f) @ f) fs)"

lemma encode_fields_simps [simp]:
  "encode_fields [] = []"
  "encode_fields (f # fs) = be32 (length f) @ f @ encode_fields fs"
  by (simp_all add: encode_fields_def)

lemma encode_fields_inject:
  assumes "list_all short_field fs" "list_all short_field gs"
    and "encode_fields fs = encode_fields gs"
  shows "fs = gs"
  using assms
proof (induction fs arbitrary: gs)
  case Nil
  then show ?case by (cases gs) simp_all
next
  case (Cons f fs)
  from Cons.prems(3) obtain g gs' where gs: "gs = g # gs'"
    by (cases gs) simp_all
  with Cons.prems(3) have "be32 (length f) = be32 (length g)"
    and rest: "f @ encode_fields fs = g @ encode_fields gs'"
    by (simp_all add: append_eq_append_length)
  moreover have "length f < 2 ^ 32" "length g < 2 ^ 32"
    using Cons.prems(1,2) gs by (simp_all add: short_field_def)
  ultimately have "length f = length g" by (metis be_value_be32)
  with rest have "f = g" "encode_fields fs = encode_fields gs'"
    by (simp_all add: append_eq_append_length)
  with Cons gs show ?case by simp
qed

lemma fold_push_Inl: "fold (\<lambda>f r. and_then r (g f)) fs (Inl e) = Inl e"
  by (induction fs) simp_all

lemma push_aad_fields_eq:
  "push_aad_fields fs out =
     (if list_all short_field fs then Inr (out @ encode_fields fs)
      else Inl [Panic ''blind-box AAD field length fits u32''])"
  unfolding push_aad_fields_def
  by (induction fs arbitrary: out)
    (auto simp: push_aad_field_def short_field_def fold_push_Inl)

lemma operation_hash_eq:
  "operation_hash E fs =
     (if list_all short_field fs then Inr (sha256 E (encode_fields fs))
      else Inl [Panic ''operation hash field length fits u32''])"
proof -
  have "fold (\<lambda>field r. and_then r (\<lambda>hashed.
          if length field < 2 ^ 32 then Inr (hashed @ be32 (length field) @ field)
          else Inl [Panic ''operation hash field length fits u32''])) fs (Inr out) =
     (if list_all short_field fs then Inr (out @ encode_fields fs)
      else Inl [Panic ''operation hash field length fits u32''])" for out
    by (induction fs arbitrary: out) (auto simp: short_field_def fold_push_Inl)
  then show ?thesis by (simp add: operation_hash_def)
qed

lemma push_aad_fields_eq_Inr:
  "push_aad_fields fs out = Inr b \<longleftrightarrow> list_all short_field fs \<and> b = out @ encode_fields fs"
  by (auto simp: push_aad_fields_eq)

lemma operation_hash_eq_Inr:
  "operation_hash E fs = Inr h \<longleftrightarrow> list_all short_field fs \<and> h = sha256 E (encode_fields fs)"
  by (auto simp: operation_hash_eq)

text \<open>
  What the associated data shows of a context: an absent field and an empty one are encoded
  alike.
\<close>

definition drop_empty :: "'a list option \<Rightarrow> 'a list option" where
  "drop_empty x = (if x = Some [] then None else x)"

definition canonical_context :: "blind_box_context \<Rightarrow> blind_box_context" where
  "canonical_context c = c\<lparr>bc_grant_id := drop_empty (bc_grant_id c),
     bc_sign_scheme := drop_empty (bc_sign_scheme c), bc_digest := drop_empty (bc_digest c),
     bc_approval_nonce := drop_empty (bc_approval_nonce c),
     bc_operation_hash := drop_empty (bc_operation_hash c)\<rparr>"

lemma or_empty_eq: "or_empty x = or_empty y \<longleftrightarrow> drop_empty x = drop_empty y"
  by (auto simp: or_empty_def drop_empty_def split: option.splits)

lemma drop_empty_be64: "drop_empty (map_option (\<lambda>v. be64 v) x) = drop_empty (map_option (\<lambda>v. be64 v) y)
    \<longleftrightarrow> x = y"
  by (cases x; cases y) (simp_all add: drop_empty_def be64_inject)

lemma canonical_context_eq:
  "canonical_context c = canonical_context c' \<longleftrightarrow>
     bc_purpose c = bc_purpose c' \<and> bc_name c = bc_name c'
     \<and> drop_empty (bc_grant_id c) = drop_empty (bc_grant_id c')
     \<and> drop_empty (bc_sign_scheme c) = drop_empty (bc_sign_scheme c')
     \<and> drop_empty (bc_digest c) = drop_empty (bc_digest c')
     \<and> drop_empty (bc_approval_nonce c) = drop_empty (bc_approval_nonce c')
     \<and> bc_approval_expires_at_unix c = bc_approval_expires_at_unix c'
     \<and> drop_empty (bc_operation_hash c) = drop_empty (bc_operation_hash c')"
  by (cases c; cases c') (auto simp: canonical_context_def)

lemma aad_bytes_injectD:
  assumes "aad_bytes c = Inr a" "aad_bytes c' = Inr a"
  shows "canonical_context c = canonical_context c'"
proof -
  from assms have "[as_bytes (bc_purpose c), as_bytes (bc_name c), as_bytes WRAP_SCHEME,
      [WRAP_META_VERSION], as_bytes (or_empty (bc_grant_id c)), [],
      as_bytes (or_empty (bc_sign_scheme c)), or_empty (bc_digest c),
      or_empty (bc_approval_nonce c),
      or_empty (map_option (\<lambda>v. be64 v) (bc_approval_expires_at_unix c)),
      or_empty (bc_operation_hash c)]
    = [as_bytes (bc_purpose c'), as_bytes (bc_name c'), as_bytes WRAP_SCHEME,
      [WRAP_META_VERSION], as_bytes (or_empty (bc_grant_id c')), [],
      as_bytes (or_empty (bc_sign_scheme c')), or_empty (bc_digest c'),
      or_empty (bc_approval_nonce c'),
      or_empty (map_option (\<lambda>v. be64 v) (bc_approval_expires_at_unix c')),
      or_empty (bc_operation_hash c')]" (is "?f = ?g")
    unfolding aad_bytes_def push_aad_fields_eq_Inr
    by (intro encode_fields_inject) (elim conjE, assumption | simp)+
  then show ?thesis
    by (simp only: canonical_context_eq list.inject as_bytes_inject or_empty_eq drop_empty_be64)
qed

text \<open>Exactly when a box opens, and to what.\<close>

lemma open_blind_box_Inr:
  "open_blind_box E kp bb c = Inr v \<longleftrightarrow>
     bb_scheme bb = BLIND_BOX_SCHEME
     \<and> (\<exists>enc ct k a. base64_decode E (bb_enc bb) = Some enc \<and> base64_decode E (bb_ct bb) = Some ct
          \<and> hpke_encapped_key E enc = Some k \<and> aad_bytes c = Inr a
          \<and> hpke_open E (kp_private_key kp) k BLIND_BOX_HPKE_INFO ct a = Some v)"
  unfolding open_blind_box_def open_blind_box_with_private_key_def open_eq_Inr by blast

text \<open>One box that opens in two contexts: they encode alike, or HPKE takes its ciphertext under both encodings.\<close>

definition box_accepts :: "'e blind_env_scheme \<Rightarrow> blind_box_keypair \<Rightarrow> blind_box \<Rightarrow> bytes \<Rightarrow> bool" where
  "box_accepts E kp bb a \<longleftrightarrow>
     (case (base64_decode E (bb_ct bb), Option.bind (base64_decode E (bb_enc bb)) (hpke_encapped_key E)) of
        (Some ct, Some k) \<Rightarrow> hpke_open E (kp_private_key kp) k BLIND_BOX_HPKE_INFO ct a \<noteq> None
      | _ \<Rightarrow> False)"

lemma open_blind_box_accepts:
  "open_blind_box E kp bb c = Inr v \<Longrightarrow> \<exists>a. aad_bytes c = Inr a \<and> box_accepts E kp bb a"
  by (auto simp: open_blind_box_Inr box_accepts_def)

lemma open_blind_box_cong:
  "aad_bytes c' = aad_bytes c \<Longrightarrow> open_blind_box E kp bb c' = open_blind_box E kp bb c"
  by (simp add: open_blind_box_def open_blind_box_with_private_key_def)

lemma drop_empty_Some: "drop_empty (Some x) = drop_empty (Some y) \<longleftrightarrow> x = y"
  by (auto simp: drop_empty_def)

section \<open>Properties\<close>

text \<open>
  C16. The associated data of a blind box determines the operation it was sealed for: two
  contexts encode to the same bytes only when they agree on purpose, name, grant, signing
  scheme, digest, approval nonce, approval expiry and operation commitment (an absent field
  counting as an empty one). In particular a box for \<open>seal\<close>, for a delivery grant and
  for a signing grant never share one, whatever their other fields.
\<close>

theorem aad_bytes_binds_context:
  assumes "aad_bytes c = Inr a" "aad_bytes c' = Inr a"
  shows "canonical_context c = canonical_context c'
    \<and> bc_purpose c = bc_purpose c' \<and> bc_name c = bc_name c'"
  using aad_bytes_injectD [OF assms] by (simp add: canonical_context_eq)

theorem aad_bytes_binds_context_witness:
  "\<exists>a. aad_bytes (agent_deliver ''g'' ''n'') = Inr a
     \<and> (\<exists>c. aad_bytes c = Inr a \<and> c \<noteq> agent_deliver ''g'' ''n'' \<and> bc_name c = ''n'')"
proof -
  let ?c = "(agent_deliver ''g'' ''n'')\<lparr>bc_digest := Some []\<rparr>"
  obtain a where a: "aad_bytes (agent_deliver ''g'' ''n'') = Inr a"
    by (simp add: aad_bytes_def push_aad_fields_eq agent_deliver_def with_grant_id_def context_new_def
        or_empty_def short_field_def WRAP_SCHEME_def BLIND_BOX_PURPOSE_AGENT_DELIVER_def)
  moreover have c: "aad_bytes ?c = aad_bytes (agent_deliver ''g'' ''n'')"
    by (simp add: aad_bytes_def agent_deliver_def with_grant_id_def context_new_def or_empty_def)
  moreover have "?c \<noteq> agent_deliver ''g'' ''n''"
    by (simp add: agent_deliver_def with_grant_id_def context_new_def)
  moreover have "bc_name ?c = bc_name (agent_deliver ''g'' ''n'')"
    using aad_bytes_binds_context [of ?c a "agent_deliver ''g'' ''n''"] a c by simp
  ultimately show ?thesis
    by (metis agent_deliver_def with_grant_id_def context_new_def blind_box_context.simps(2)
        blind_box_context.update_convs(3))
qed

text \<open>
  The commitment to an operation's details is as strong as SHA-256: the field lists are
  hashed behind their lengths, so two different lists with one commitment are two different
  byte strings with one SHA-256 digest. A list with a field of \<open>2 ^ 32\<close> bytes or more
  has no commitment (the process stops).
\<close>

theorem operation_hash_collision:
  assumes "operation_hash E fs = Inr h" "operation_hash E gs = Inr h" "fs \<noteq> gs"
  shows "\<exists>x y. x \<noteq> y \<and> sha256 E x = h \<and> sha256 E y = h"
proof -
  from assms have "encode_fields fs \<noteq> encode_fields gs"
    using encode_fields_inject by (auto simp: operation_hash_eq_Inr)
  moreover from assms have "sha256 E (encode_fields fs) = h" "sha256 E (encode_fields gs) = h"
    by (auto simp: operation_hash_eq_Inr)
  ultimately show ?thesis by blast
qed

definition sample_blind :: blind_env where
  "sample_blind = core_env.extend sample_core \<lparr>
     sha256 = (\<lambda>x. take 32 (x @ replicate 32 0)),
     hex_encode = string_of,
     hkdf_expand = (\<lambda>salt ikm info n. Some (take n (ikm @ replicate n 0))),
     hpke_derive_keypair = (\<lambda>ikm. (ikm, rev ikm)),
     hpke_encapped_key = (\<lambda>enc. if length enc = 32 then Some enc else None),
     hpke_open = (\<lambda>sk enc info ct a. let h = enc @ info @ a
        in if take (length h) ct = h then Some (drop (length h) ct) else None)\<rparr>"

theorem operation_hash_collision_witness:
  "\<exists>x y. x \<noteq> y
     \<and> sha256 sample_blind x = sha256 sample_blind (encode_fields [replicate 32 0, [1]])
     \<and> sha256 sample_blind y = sha256 sample_blind (encode_fields [replicate 32 0, [1]])"
proof (rule operation_hash_collision [where fs = "[replicate 32 0, [1]]" and gs = "[replicate 32 0, [2]]"])
  show "operation_hash sample_blind [replicate 32 0, [1]] =
      Inr (sha256 sample_blind (encode_fields [replicate 32 0, [1]]))"
    by (simp add: operation_hash_eq short_field_def)
  show "operation_hash sample_blind [replicate 32 0, [2]] =
      Inr (sha256 sample_blind (encode_fields [replicate 32 0, [1]]))"
    by (simp add: operation_hash_eq short_field_def sample_blind_def core_env.extend_def)
qed simp

end
