(* ===== verification/Signing.thy ===== *)
theory Signing
  imports BlindBox
begin

text \<open>
  Digest signing, \<open>crates/avault-core/src/signing.rs\<close>: the signature schemes and their
  names, the dispatch of \<open>LocalSignerProvider\<close>, ECDSA and Schnorr signing, and the BIP341
  key-path tweak for an empty script tree.

  The curve arithmetic and the two signature algorithms are the package \<open>k256\<close>: a record of
  functions over a type of scalars and a type of points. What the properties use of the
  group is \<open>curve_laws\<close>.
\<close>

section \<open>Schemes\<close>

(* SRC signing SIGN_SCHEME_ECDSA_SECP256K1_RECOVERABLE *)
definition SIGN_SCHEME_ECDSA_SECP256K1_RECOVERABLE :: string where
  "SIGN_SCHEME_ECDSA_SECP256K1_RECOVERABLE = ''ecdsa-secp256k1-recoverable''"

(* SRC signing SIGN_SCHEME_ECDSA_SECP256K1_DER *)
definition SIGN_SCHEME_ECDSA_SECP256K1_DER :: string where
  "SIGN_SCHEME_ECDSA_SECP256K1_DER = ''ecdsa-secp256k1-der''"

(* SRC signing SIGN_SCHEME_SCHNORR_SECP256K1_BIP340 *)
definition SIGN_SCHEME_SCHNORR_SECP256K1_BIP340 :: string where
  "SIGN_SCHEME_SCHNORR_SECP256K1_BIP340 = ''schnorr-secp256k1-bip340''"

(* SRC signing SIGN_SCHEME_SCHNORR_SECP256K1_BIP341_KEYPATH *)
definition SIGN_SCHEME_SCHNORR_SECP256K1_BIP341_KEYPATH :: string where
  "SIGN_SCHEME_SCHNORR_SECP256K1_BIP341_KEYPATH = ''schnorr-secp256k1-bip341-keypath''"

lemmas scheme_names = SIGN_SCHEME_ECDSA_SECP256K1_RECOVERABLE_def
  SIGN_SCHEME_ECDSA_SECP256K1_DER_def SIGN_SCHEME_SCHNORR_SECP256K1_BIP340_def
  SIGN_SCHEME_SCHNORR_SECP256K1_BIP341_KEYPATH_def

(* SRC signing SignatureScheme *)
datatype signature_scheme =
    EcdsaSecp256k1Recoverable
  | EcdsaSecp256k1Der
  | SchnorrSecp256k1Bip340
  | SchnorrSecp256k1Bip341Keypath

(* SRC signing SignatureScheme::as_str *)
definition scheme_as_str :: "signature_scheme \<Rightarrow> string" where
  "scheme_as_str s = (case s of
       EcdsaSecp256k1Recoverable \<Rightarrow> SIGN_SCHEME_ECDSA_SECP256K1_RECOVERABLE
     | EcdsaSecp256k1Der \<Rightarrow> SIGN_SCHEME_ECDSA_SECP256K1_DER
     | SchnorrSecp256k1Bip340 \<Rightarrow> SIGN_SCHEME_SCHNORR_SECP256K1_BIP340
     | SchnorrSecp256k1Bip341Keypath \<Rightarrow> SIGN_SCHEME_SCHNORR_SECP256K1_BIP341_KEYPATH)"

(* SRC signing SignatureScheme::from_str *)
definition scheme_from_str :: "string \<Rightarrow> signature_scheme res" where
  "scheme_from_str value =
     (if value = SIGN_SCHEME_ECDSA_SECP256K1_RECOVERABLE then Inr EcdsaSecp256k1Recoverable
      else if value = SIGN_SCHEME_ECDSA_SECP256K1_DER then Inr EcdsaSecp256k1Der
      else if value = SIGN_SCHEME_SCHNORR_SECP256K1_BIP340 then Inr SchnorrSecp256k1Bip340
      else if value = SIGN_SCHEME_SCHNORR_SECP256K1_BIP341_KEYPATH
        then Inr SchnorrSecp256k1Bip341Keypath
      else bail ''unsupported signing scheme'')"

(* SRC signing SignatureResult *)
record signature_result =
  sr_signature :: bytes
  sr_recovery_id :: "byte option"

section \<open>The curve package\<close>

record ('sc, 'pt) curve_env =
  sc_from_repr :: "bytes \<Rightarrow> 'sc option"
  sc_to_bytes :: "'sc \<Rightarrow> bytes"
  sc_is_zero :: "'sc \<Rightarrow> bool"
  sc_neg :: "'sc \<Rightarrow> 'sc"
  sc_add :: "'sc \<Rightarrow> 'sc \<Rightarrow> 'sc"
  base_mul :: "'sc \<Rightarrow> 'pt"
  pt_add :: "'pt \<Rightarrow> 'pt \<Rightarrow> 'pt"
  pt_x :: "'pt \<Rightarrow> bytes"
  pt_y_is_odd :: "'pt \<Rightarrow> bool"
  pt_is_identity :: "'pt \<Rightarrow> bool"
  digest256 :: "bytes \<Rightarrow> bytes"
  ecdsa_key_valid :: "bytes \<Rightarrow> bool"
  ecdsa_sign_recoverable :: "bytes \<Rightarrow> bytes \<Rightarrow> (bytes \<times> byte) option"
  ecdsa_sign_der :: "bytes \<Rightarrow> bytes \<Rightarrow> bytes option"
  schnorr_key_valid :: "bytes \<Rightarrow> bool"
  schnorr_sign :: "bytes \<Rightarrow> bytes \<Rightarrow> bytes \<Rightarrow> bytes option"
  schnorr_vk_valid :: "bytes \<Rightarrow> bool"
  schnorr_sig_valid :: "bytes \<Rightarrow> bool"
  schnorr_verify :: "bytes \<Rightarrow> bytes \<Rightarrow> bytes \<Rightarrow> bool"

section \<open>ECDSA and Schnorr\<close>

(* SRC signing sign_ecdsa_recoverable *)
definition sign_ecdsa_recoverable ::
    "('sc, 'pt) curve_env \<Rightarrow> bytes \<Rightarrow> bytes \<Rightarrow> signature_result res" where
  "sign_ecdsa_recoverable C private_key digest =
     (if \<not> ecdsa_key_valid C private_key then bail ''invalid key''
      else and_then (ok_or ''signing failed'' (ecdsa_sign_recoverable C private_key digest))
        (\<lambda>(signature, recovery_id).
           Inr \<lparr>sr_signature = signature, sr_recovery_id = Some recovery_id\<rparr>))"

(* SRC signing sign_ecdsa_der *)
definition sign_ecdsa_der ::
    "('sc, 'pt) curve_env \<Rightarrow> bytes \<Rightarrow> bytes \<Rightarrow> signature_result res" where
  "sign_ecdsa_der C private_key digest =
     (if \<not> ecdsa_key_valid C private_key then bail ''invalid key''
      else and_then (ok_or ''signing failed'' (ecdsa_sign_der C private_key digest)) (\<lambda>signature.
           Inr \<lparr>sr_signature = signature, sr_recovery_id = None\<rparr>))"

(* SRC signing sign_schnorr_with_aux *)
definition sign_schnorr_with_aux ::
    "('sc, 'pt) curve_env \<Rightarrow> bytes \<Rightarrow> bytes \<Rightarrow> bytes \<Rightarrow> signature_result res" where
  "sign_schnorr_with_aux C private_key digest aux_rand =
     (if \<not> schnorr_key_valid C private_key then bail ''invalid key''
      else and_then (ok_or ''signing failed'' (schnorr_sign C private_key digest aux_rand)) (\<lambda>signature.
           Inr \<lparr>sr_signature = signature, sr_recovery_id = None\<rparr>))"

(* SRC signing sign_schnorr_random_aux *)
definition sign_schnorr_random_aux ::
    "('sc, 'pt) curve_env \<Rightarrow> bytes \<Rightarrow> bytes \<Rightarrow> bytes \<Rightarrow> signature_result res" where
  \<comment> \<open>\<open>aux_rand\<close> is the draw from \<open>OsRng\<close>.\<close>
  "sign_schnorr_random_aux C aux_rand private_key digest =
     sign_schnorr_with_aux C private_key digest aux_rand"

section \<open>The key-path tweak\<close>

(* SRC signing TaprootKeyMaterial *)
record taproot_key_material =
  tk_tweaked_secret :: bytes
  tk_output_x :: bytes

(* SRC signing TAP_TWEAK_TAG *)
definition TAP_TWEAK_TAG :: bytes where
  "TAP_TWEAK_TAG = as_bytes ''TapTweak''"

(* SRC signing tagged_hash *)
definition tagged_hash :: "('sc, 'pt) curve_env \<Rightarrow> bytes \<Rightarrow> bytes \<Rightarrow> bytes" where
  "tagged_hash C tag message =
     (let tag_hash = digest256 C tag in digest256 C (tag_hash @ tag_hash @ message))"

(* SRC signing parse_private_scalar *)
definition parse_private_scalar :: "('sc, 'pt) curve_env \<Rightarrow> bytes \<Rightarrow> 'sc res" where
  "parse_private_scalar C private_key =
     and_then (ok_or ''invalid key'' (sc_from_repr C private_key)) (\<lambda>scalar.
     if sc_is_zero C scalar then bail ''invalid key'' else Inr scalar)"

(* SRC signing taproot_keypath_material_with_tweak *)
definition taproot_keypath_material_with_tweak ::
    "('sc, 'pt) curve_env \<Rightarrow> 'sc \<Rightarrow> 'pt \<Rightarrow> bytes \<Rightarrow> taproot_key_material res" where
  "taproot_keypath_material_with_tweak C normalized_secret internal_point tweak_bytes =
     and_then (ok_or ''taproot tweak is out of range'' (sc_from_repr C tweak_bytes)) (\<lambda>tweak.
     let tweaked_secret = sc_add C normalized_secret tweak
     in if sc_is_zero C tweaked_secret then bail ''taproot tweaked secret is zero''
        else let output_point = pt_add C internal_point (base_mul C tweak)
             in if pt_is_identity C output_point
                then bail ''taproot output key is the point at infinity''
                else Inr \<lparr>tk_tweaked_secret = sc_to_bytes C tweaked_secret,
                          tk_output_x = pt_x C output_point\<rparr>)"

(* SRC signing taproot_keypath_material *)
definition taproot_keypath_material ::
    "('sc, 'pt) curve_env \<Rightarrow> bytes \<Rightarrow> taproot_key_material res" where
  "taproot_keypath_material C private_key =
     and_then (parse_private_scalar C private_key) (\<lambda>private_scalar.
     let internal_point = base_mul C private_scalar;
         normalized_secret = (if pt_y_is_odd C internal_point then sc_neg C private_scalar
                              else private_scalar);
         normalized_point = base_mul C normalized_secret;
         internal_x = pt_x C normalized_point;
         tweak_hash = tagged_hash C TAP_TWEAK_TAG internal_x
     in taproot_keypath_material_with_tweak C normalized_secret normalized_point tweak_hash)"

(* SRC signing sign_schnorr_bip341_keypath_with_aux *)
definition sign_schnorr_bip341_keypath_with_aux ::
    "('sc, 'pt) curve_env \<Rightarrow> bytes \<Rightarrow> bytes \<Rightarrow> bytes \<Rightarrow> signature_result res" where
  "sign_schnorr_bip341_keypath_with_aux C private_key digest aux_rand =
     and_then (taproot_keypath_material C private_key) (\<lambda>material.
     and_then (sign_schnorr_with_aux C (tk_tweaked_secret material) digest aux_rand) (\<lambda>result.
     if \<not> schnorr_vk_valid C (tk_output_x material) then bail ''invalid taproot output key''
     else if \<not> schnorr_sig_valid C (sr_signature result)
     then bail ''signing produced an invalid signature''
     else if \<not> schnorr_verify C (tk_output_x material) digest (sr_signature result)
     then bail ''taproot signature verification failed''
     else Inr result))"

(* SRC signing sign_schnorr_bip341_keypath_random_aux *)
definition sign_schnorr_bip341_keypath_random_aux ::
    "('sc, 'pt) curve_env \<Rightarrow> bytes \<Rightarrow> bytes \<Rightarrow> bytes \<Rightarrow> signature_result res" where
  "sign_schnorr_bip341_keypath_random_aux C aux_rand private_key digest =
     sign_schnorr_bip341_keypath_with_aux C private_key digest aux_rand"

(* SRC signing LocalSignerProvider::sign_digest *)
definition sign_digest ::
    "('sc, 'pt) curve_env \<Rightarrow> bytes \<Rightarrow> signature_scheme \<Rightarrow> bytes \<Rightarrow> bytes \<Rightarrow> signature_result res" where
  "sign_digest C aux_rand scheme private_key digest = (case scheme of
       EcdsaSecp256k1Recoverable \<Rightarrow> sign_ecdsa_recoverable C private_key digest
     | EcdsaSecp256k1Der \<Rightarrow> sign_ecdsa_der C private_key digest
     | SchnorrSecp256k1Bip340 \<Rightarrow> sign_schnorr_random_aux C aux_rand private_key digest
     | SchnorrSecp256k1Bip341Keypath \<Rightarrow>
         sign_schnorr_bip341_keypath_random_aux C aux_rand private_key digest)"

section \<open>What the curve package promises\<close>

text \<open>
  Multiples of the generator form a group in which only the zero multiple is the identity;
  a point and its negative share their x coordinate, and away from the identity exactly one of
  them has an odd y; a scalar survives its own encoding.
\<close>

definition curve_laws :: "('sc, 'pt) curve_env \<Rightarrow> bool" where
  "curve_laws C \<longleftrightarrow>
     (\<forall>a b. base_mul C (sc_add C a b) = pt_add C (base_mul C a) (base_mul C b))
     \<and> (\<forall>a. pt_is_identity C (base_mul C a) = sc_is_zero C a)
     \<and> (\<forall>a. pt_x C (base_mul C (sc_neg C a)) = pt_x C (base_mul C a))
     \<and> (\<forall>a. \<not> sc_is_zero C a \<longrightarrow>
          pt_y_is_odd C (base_mul C (sc_neg C a)) = (\<not> pt_y_is_odd C (base_mul C a)))
     \<and> (\<forall>a. sc_from_repr C (sc_to_bytes C a) = Some a)"

lemmas signing_simps = parse_private_scalar_def taproot_keypath_material_with_tweak_def
  taproot_keypath_material_def sign_schnorr_with_aux_def
  sign_schnorr_bip341_keypath_with_aux_def Let_def res_simps

text \<open>A group small enough to evaluate on: the integers modulo 3.\<close>

datatype z3 = Z0 | Z1 | Z2

definition z3_of :: "nat \<Rightarrow> z3" where
  "z3_of n = (if n mod 3 = 0 then Z0 else if n mod 3 = 1 then Z1 else Z2)"

definition z3_value :: "z3 \<Rightarrow> nat" where
  "z3_value a = (case a of Z0 \<Rightarrow> 0 | Z1 \<Rightarrow> 1 | Z2 \<Rightarrow> 2)"

definition sample_curve :: "(z3, z3) curve_env" where
  "sample_curve = \<lparr>
     sc_from_repr = (\<lambda>b. Some (z3_of (be_value b))),
     sc_to_bytes = (\<lambda>a. be_bytes 32 (z3_value a)),
     sc_is_zero = (\<lambda>a. a = Z0),
     sc_neg = (\<lambda>a. case a of Z0 \<Rightarrow> Z0 | Z1 \<Rightarrow> Z2 | Z2 \<Rightarrow> Z1),
     sc_add = (\<lambda>a b. z3_of (z3_value a + z3_value b)),
     base_mul = id,
     pt_add = (\<lambda>p q. z3_of (z3_value p + z3_value q)),
     pt_x = (\<lambda>p. be_bytes 32 (if p = Z0 then 0 else 1)),
     pt_y_is_odd = (\<lambda>p. p = Z2),
     pt_is_identity = (\<lambda>p. p = Z0),
     digest256 = (\<lambda>x. be_bytes 32 (length x)),
     ecdsa_key_valid = (\<lambda>k. length k = 32),
     ecdsa_sign_recoverable = (\<lambda>k d. Some (k @ d, 0)),
     ecdsa_sign_der = (\<lambda>k d. Some (k @ d)),
     schnorr_key_valid = (\<lambda>k. length k = 32),
     schnorr_sign = (\<lambda>k d a. Some (d @ k)),
     schnorr_vk_valid = (\<lambda>k. length k = 32),
     schnorr_sig_valid = (\<lambda>s. length s = 64),
     schnorr_verify = (\<lambda>vk d s. take 32 s = d)\<rparr>"

lemma be_value_be_bytes_small: "x < 256 \<Longrightarrow> be_value (be_bytes 32 x) = x"
  by (rule be_value_be_bytes) simp

lemma sample_curve_laws: "curve_laws sample_curve"
  unfolding curve_laws_def
  by (auto simp: sample_curve_def z3_value_def be_value_be_bytes_small z3_of_def split: z3.splits)

lemma sample_material:
  "taproot_keypath_material sample_curve (be_bytes 32 2) =
     Inr \<lparr>tk_tweaked_secret = be_bytes 32 1, tk_output_x = be_bytes 32 1\<rparr>"
  unfolding taproot_keypath_material_def parse_private_scalar_def
    taproot_keypath_material_with_tweak_def tagged_hash_def
  by (simp add: sample_curve_def be_value_be_bytes_small z3_of_def z3_value_def Let_def TAP_TWEAK_TAG_def)

section \<open>Properties\<close>

text \<open>
  The names of the signing schemes: every scheme parses back from its own name, and
  nothing else parses (\<open>from_str\<close> accepts exactly the four names).
\<close>

theorem scheme_names_roundtrip:
  "scheme_from_str value = Inr s \<longleftrightarrow> value = scheme_as_str s"
  by (cases s) (auto simp: scheme_from_str_def scheme_as_str_def scheme_names split: if_splits)

text \<open>
  The key-path secret and the output key belong together: when the tweak succeeds, the
  output x coordinate is that of the tweaked secret's own public point, which is not the
  identity, although the code computes one from scalars and the other from points; and the
  internal key it tweaked is the private scalar or its negative, with an even y.
\<close>

theorem taproot_output_key:
  assumes "curve_laws C"
    and "taproot_keypath_material C private_key = Inr m"
  shows "\<exists>d t. sc_from_repr C (tk_tweaked_secret m) = Some (sc_add C d t)
      \<and> tk_output_x m = pt_x C (base_mul C (sc_add C d t))
      \<and> \<not> pt_is_identity C (base_mul C (sc_add C d t))
      \<and> \<not> pt_y_is_odd C (base_mul C d)
      \<and> (\<exists>k. sc_from_repr C private_key = Some k \<and> \<not> sc_is_zero C k \<and> (d = k \<or> d = sc_neg C k))
      \<and> sc_from_repr C (tagged_hash C TAP_TWEAK_TAG (pt_x C (base_mul C d))) = Some t"
proof -
  from assms(2) obtain k where k: "sc_from_repr C private_key = Some k" "\<not> sc_is_zero C k"
    by (auto simp: signing_simps)
  define d where "d = (if pt_y_is_odd C (base_mul C k) then sc_neg C k else k)"
  from assms(2) k obtain t where
    t: "sc_from_repr C (tagged_hash C TAP_TWEAK_TAG (pt_x C (base_mul C d))) = Some t"
    and nz: "\<not> sc_is_zero C (sc_add C d t)"
    and m: "m = \<lparr>tk_tweaked_secret = sc_to_bytes C (sc_add C d t),
        tk_output_x = pt_x C (pt_add C (base_mul C d) (base_mul C t))\<rparr>"
    unfolding d_def [symmetric] taproot_keypath_material_def parse_private_scalar_def
      taproot_keypath_material_with_tweak_def Let_def res_simps
    by (auto simp: d_def)
  have even: "\<not> pt_y_is_odd C (base_mul C d)"
    using assms(1) k(2) by (auto simp: d_def curve_laws_def)
  have "sc_from_repr C (tk_tweaked_secret m) = Some (sc_add C d t)"
    and "tk_output_x m = pt_x C (base_mul C (sc_add C d t))"
    using assms(1) by (simp_all add: m curve_laws_def)
  moreover have "\<not> pt_is_identity C (base_mul C (sc_add C d t))"
    using assms(1) nz unfolding curve_laws_def by blast
  moreover have "d = k \<or> d = sc_neg C k" by (simp add: d_def)
  ultimately show ?thesis using even k t by blast
qed

theorem taproot_output_key_witness:
  "\<exists>d t. sc_from_repr sample_curve (be_bytes 32 1) = Some (sc_add sample_curve d t)
      \<and> be_bytes 32 1 = pt_x sample_curve (base_mul sample_curve (sc_add sample_curve d t))
      \<and> \<not> pt_y_is_odd sample_curve (base_mul sample_curve d)"
  using taproot_output_key [OF sample_curve_laws sample_material] by auto

text \<open>
  C17. A key-path signature leaves the signer only verified: whenever signing under
  \<open>schnorr-secp256k1-bip341-keypath\<close> returns a signature, the tweak of the private key succeeded,
  the signature is the Schnorr signature of the digest under the tweaked secret, and it
  verifies for that digest under the tweaked output key. A recovery id accompanies the
  signature exactly for the recoverable ECDSA scheme.
\<close>

theorem sign_digest_checked:
  assumes "sign_digest C aux scheme private_key digest = Inr r"
  shows "(sr_recovery_id r \<noteq> None) = (scheme = EcdsaSecp256k1Recoverable)
    \<and> (scheme = SchnorrSecp256k1Bip341Keypath \<longrightarrow>
        (\<exists>m. taproot_keypath_material C private_key = Inr m
          \<and> schnorr_sign C (tk_tweaked_secret m) digest aux = Some (sr_signature r)
          \<and> schnorr_verify C (tk_output_x m) digest (sr_signature r)))"
  using assms
  by (cases scheme; auto simp: sign_digest_def sign_ecdsa_recoverable_def sign_ecdsa_der_def
      sign_schnorr_random_aux_def sign_schnorr_bip341_keypath_random_aux_def
      sign_schnorr_with_aux_def sign_schnorr_bip341_keypath_with_aux_def res_simps)

theorem sign_digest_checked_witness:
  "schnorr_verify sample_curve (be_bytes 32 1) (replicate 32 4) (replicate 32 4 @ be_bytes 32 1)"
proof -
  have "sign_digest sample_curve [] SchnorrSecp256k1Bip341Keypath (be_bytes 32 2) (replicate 32 4)
      = Inr \<lparr>sr_signature = replicate 32 4 @ be_bytes 32 1, sr_recovery_id = None\<rparr>"
    by (simp add: sign_digest_def sign_schnorr_bip341_keypath_random_aux_def
        sign_schnorr_bip341_keypath_with_aux_def sample_material sign_schnorr_with_aux_def)
      (simp add: sample_curve_def)
  from sign_digest_checked [OF this] show ?thesis by (simp add: sample_material)
qed

end
