(* ===== verification/StoreTypes.thy ===== *)
theory StoreTypes
  imports Text
begin

text \<open>
  What every backend of \<open>crates/avault-store/src/lib.rs\<close> shares: the backend names, the sizes
  and scheme names, the error a Keychain call fails with until the user authorizes it, the
  default paths of the key files and the peer check of the agent.

  An \<open>OsString\<close> and a path are byte strings; the process environment is a map.
\<close>

section \<open>Names and sizes\<close>

(* SRC store MASTER_KEY_BYTES *)
definition MASTER_KEY_BYTES :: nat where
  "MASTER_KEY_BYTES = 32"

(* SRC store PASSPHRASE_STORE_SCHEME *)
definition PASSPHRASE_STORE_SCHEME :: string where
  "PASSPHRASE_STORE_SCHEME = ''machine-key-passphrase-v1''"

(* SRC store TPM_STORE_SCHEME *)
definition TPM_STORE_SCHEME :: string where
  "TPM_STORE_SCHEME = ''machine-key-tpm2-sealed-v1''"

(* SRC store Backend *)
datatype backend = Auto | Tpm | Keychain | File | FilePassphrase

text \<open>The key of an opened store: its 32 bytes (the locked page they live in is not modelled).\<close>

type_synonym master_key = bytes

section \<open>Errors\<close>

text \<open>\<open>downcast_ref\<close> finds a typed error under any amount of context.\<close>

(* SRC store is_keychain_authorization_required *)
definition is_keychain_authorization_required :: "err \<Rightarrow> bool" where
  "is_keychain_authorization_required e \<longleftrightarrow> KeychainAuthorizationRequired \<in> set e"

lemma keychain_authorization_required_context [simp]:
  "is_keychain_authorization_required (Msg m # e) = is_keychain_authorization_required e"
  by (simp add: is_keychain_authorization_required_def)

section \<open>The text of an error\<close>

text \<open>
  The text of a cause: of an I/O error the text of the operating system, of a Keychain status the
  text of a code without a message. \<open>chain_text\<close> is the format \<open>{:#}\<close>: the whole chain.
\<close>

definition io_text :: "io_kind \<Rightarrow> string" where
  "io_text k = (case k of
       NotFound \<Rightarrow> ''No such file or directory (os error 2)''
     | PermissionDenied \<Rightarrow> ''Permission denied (os error 13)''
     | AlreadyExists \<Rightarrow> ''File exists (os error 17)''
     | WouldBlock \<Rightarrow> ''Resource temporarily unavailable (os error 11)''
     | TimedOut \<Rightarrow> ''Connection timed out (os error 110)''
     | UnexpectedEof \<Rightarrow> ''failed to fill whole buffer''
     | WriteZero \<Rightarrow> ''failed to write whole buffer''
     | OtherIo t \<Rightarrow> t)"

(* SRC store 1621-1630 KeychainAuthorizationCooldown *)
definition cooldown_text :: "nat \<Rightarrow> string" where
  "cooldown_text remaining_secs =
     ''macOS Keychain authorization was recently denied or cancelled; retry `avault key authorize` in ''
     @ decimal remaining_secs @ ''s''"

definition cause_text :: "cause \<Rightarrow> string" where
  "cause_text c = (case c of
       Msg m \<Rightarrow> m
     | Io k \<Rightarrow> io_text k
     | Lib t \<Rightarrow> t
     | Tss _ t \<Rightarrow> t
     | Panic m \<Rightarrow> m
     | KeychainStatus n \<Rightarrow> ''error code '' @ (if n < 0 then ''-'' else []) @ decimal (nat \<bar>n\<bar>)
     | KeychainAuthorizationRequired \<Rightarrow>
         ''macOS Keychain needs a one-time authorization for avault; run `avault key authorize` in a logged-in session''
     | KeychainAuthorizationCooldown n \<Rightarrow> cooldown_text n
     | KeychainAuthorizationBusy \<Rightarrow>
         ''another `avault key authorize` is still waiting for the user; answer that Keychain prompt first'')"

primrec chain_text :: "err \<Rightarrow> string" where
  "chain_text [] = []"
| "chain_text (c # e) = (if e = [] then cause_text c else cause_text c @ '': '' @ chain_text e)"

section \<open>Paths\<close>

type_synonym path = bytes
type_synonym environment = "string \<Rightarrow> bytes option"

text \<open>\<open>Path::join\<close>: an absolute right side replaces the left.\<close>

definition path_join :: "path \<Rightarrow> path \<Rightarrow> path" where
  "path_join a b =
     (if b \<noteq> [] \<and> hd b = 47 then b
      else if a = [] \<or> last a = 47 then a @ b
      else a @ 47 # b)"

(* SRC store user_home_dir@463 *)
definition user_home_dir :: "environment \<Rightarrow> path res" where
  "user_home_dir env = ok_or ''HOME is not set'' (env ''HOME'')"

definition vault_file :: "environment \<Rightarrow> string \<Rightarrow> path res" where
  "vault_file env file = (case env ''AVAULT_HOME'' of
       Some home \<Rightarrow> Inr (path_join home (as_bytes file))
     | None \<Rightarrow> map_res (\<lambda>home. fold (\<lambda>c p. path_join p (as_bytes c))
                  [''.avibe'', ''state'', ''vault'', file] home) (user_home_dir env))"

(* SRC store default_master_key_path *)
definition default_master_key_path :: "environment \<Rightarrow> path res" where
  "default_master_key_path env = vault_file env ''machine.key''"

(* SRC store default_passphrase_master_key_path *)
definition default_passphrase_master_key_path :: "environment \<Rightarrow> path res" where
  "default_passphrase_master_key_path env = vault_file env ''machine.passphrase.json''"

(* SRC store default_tpm_master_key_path *)
definition default_tpm_master_key_path :: "environment \<Rightarrow> path res" where
  "default_tpm_master_key_path env = vault_file env ''machine.tpm.json''"

section \<open>Peers\<close>

text \<open>
  What \<open>getsockopt\<close> returns for the credentials of a peer: its code, and the version (of macOS
  only) and the uid that it wrote.
\<close>

datatype unix_target = PeerLinux | PeerMacOS | PeerOther

record peer_credentials =
  pc_code :: int
  pc_version :: u32
  pc_uid :: u32

definition XUCRED_VERSION :: u32 where
  "XUCRED_VERSION = 0"

(* SRC store 358-414 peer_uid *)
definition peer_uid :: "unix_target \<Rightarrow> peer_credentials \<Rightarrow> u32 res" where
  "peer_uid target c = (case target of
       PeerLinux \<Rightarrow> if pc_code c \<noteq> 0 then bail ''failed to read peer credentials'' else Inr (pc_uid c)
     | PeerMacOS \<Rightarrow>
         if pc_code c \<noteq> 0 then bail ''failed to read peer credentials''
         else if pc_version c \<noteq> XUCRED_VERSION then bail ''peer credentials have unsupported version''
         else Inr (pc_uid c)
     | PeerOther \<Rightarrow> bail ''agent peer credentials are unsupported on this Unix platform'')"

(* SRC store authorize_same_uid_peer *)
definition authorize_same_uid_peer :: "u32 res \<Rightarrow> u32 \<Rightarrow> unit res" where
  \<comment> \<open>The peer's uid as the kernel reports it for the socket, and \<open>geteuid\<close>.\<close>
  "authorize_same_uid_peer peer current_euid =
     and_then peer (\<lambda>uid.
     if uid \<noteq> current_euid then bail ''agent peer uid is not authorized'' else Inr ())"

lemma authorize_same_uid_peer_iff:
  "authorize_same_uid_peer peer uid = Inr () \<longleftrightarrow> peer = Inr uid"
  by (auto simp: authorize_same_uid_peer_def res_simps)

text \<open>
  A peer is authorized only if the call for its credentials succeeded, so the zeroed buffer, which
  reads as the uid of root, never stands for a peer; and where there is no such call nobody is.
\<close>

lemma peer_authorized_iff:
  "authorize_same_uid_peer (peer_uid target c) euid = Inr () \<longleftrightarrow>
     pc_code c = 0 \<and> pc_uid c = euid \<and>
     (target = PeerLinux \<or> target = PeerMacOS \<and> pc_version c = XUCRED_VERSION)"
  by (cases target) (auto simp: authorize_same_uid_peer_iff peer_uid_def)

end
