(* ===== verification/KeyImportJson.thy ===== *)
theory KeyImportJson
  imports Envelope
begin

text \<open>
  The hand-written JSON scanner of \<open>key import\<close> in \<open>crates/avault-cli/src/main.rs\<close>
  (\<open>import_blob_from_json\<close> to \<open>skip_json_ws\<close>), which finds two fields of an object
  without building a value tree, so that the passphrase is never copied into one.

  Indices are those of the code; an index or a slice bound past the end is the panic it is in
  Rust. Loops over an index recurse on it, with the distance to the end as their measure.
\<close>

section \<open>Slices\<close>

text \<open>\<open>input.get(i)\<close>, \<open>input[i]\<close>, \<open>&input[i..]\<close>, \<open>&input[i..j]\<close> and \<open>input.get(i..j)\<close>.\<close>

definition get :: "bytes \<Rightarrow> nat \<Rightarrow> byte option" where
  "get input i = (if i < length input then Some (input ! i) else None)"

definition index_byte :: "bytes \<Rightarrow> nat \<Rightarrow> byte res" where
  "index_byte input i = expect_some ''index out of bounds'' (get input i)"

definition slice_from :: "bytes \<Rightarrow> nat \<Rightarrow> bytes res" where
  "slice_from input i =
     (if i \<le> length input then Inr (drop i input) else Inl [Panic ''slice index out of bounds''])"

definition get_range :: "bytes \<Rightarrow> nat \<Rightarrow> nat \<Rightarrow> bytes option" where
  "get_range input i j = (if i \<le> j \<and> j \<le> length input then Some (take (j - i) (drop i input)) else None)"

definition slice_range :: "bytes \<Rightarrow> nat \<Rightarrow> nat \<Rightarrow> bytes res" where
  "slice_range input i j = expect_some ''slice index out of bounds'' (get_range input i j)"

abbreviation ascii :: "char \<Rightarrow> byte" where
  "ascii c \<equiv> of_nat (of_char c)"

abbreviation quote :: byte where "quote \<equiv> 0x22"
abbreviation backslash :: byte where "backslash \<equiv> 0x5C"

lemma get_eq_Some: "get input i = Some b \<longleftrightarrow> i < length input \<and> input ! i = b"
  by (auto simp: get_def)

lemma get_0: "get input 0 = (case input of [] \<Rightarrow> None | b # _ \<Rightarrow> Some b)"
  by (simp add: get_def split: list.split)

section \<open>The scanner\<close>

(* SRC cli MAX_STDIN_SECRET_BYTES *)
definition MAX_STDIN_SECRET_BYTES :: nat where
  "MAX_STDIN_SECRET_BYTES = 1024 * 1024"

(* SRC cli skip_json_ws *)
function skip_json_ws :: "bytes \<Rightarrow> nat \<Rightarrow> nat" where
  "skip_json_ws input index =
     (case get input index of
        Some b \<Rightarrow> if b \<in> {ascii CHR '' '', 0x0A, 0x0D, 0x09} then skip_json_ws input (index + 1)
                  else index
      | None \<Rightarrow> index)"
  by pat_completeness auto
termination
  by (relation "measure (\<lambda>(input, index). length input - index)") (auto simp: get_eq_Some)

definition is_scalar_byte :: "byte \<Rightarrow> bool" where
  "is_scalar_byte b \<longleftrightarrow> b = ascii CHR ''-'' \<or> b = ascii CHR ''+'' \<or> b = ascii CHR ''.''
     \<or> (ascii CHR ''0'' \<le> b \<and> b \<le> ascii CHR ''9'') \<or> (ascii CHR ''a'' \<le> b \<and> b \<le> ascii CHR ''z'')
     \<or> (ascii CHR ''A'' \<le> b \<and> b \<le> ascii CHR ''Z'')"

(* SRC cli json_scalar_end *)
function json_scalar_end :: "bytes \<Rightarrow> nat \<Rightarrow> nat" where
  "json_scalar_end input index =
     (case get input index of
        Some b \<Rightarrow> if is_scalar_byte b then json_scalar_end input (index + 1) else index
      | None \<Rightarrow> index)"
  by pat_completeness auto
termination
  by (relation "measure (\<lambda>(input, index). length input - index)") (auto simp: get_eq_Some)

(* SRC cli 1925-1940 json_string_end *)
function json_string_end_from :: "bytes \<Rightarrow> nat \<Rightarrow> nat res" where
  "json_string_end_from input index =
     (if index < length input then
        let b = input ! index
        in if b = quote then Inr (index + 1)
           else if b = backslash then
             (if get input (index + 1) = None then bail ''unterminated JSON escape''
              else json_string_end_from input (index + 2))
           else if b < 0x20 then bail ''invalid control byte in JSON string''
           else json_string_end_from input (index + 1)
      else bail ''unterminated JSON string'')"
  by pat_completeness auto
termination
  by (relation "measure (\<lambda>(input, index). length input - index)") auto

(* SRC cli json_string_end *)
definition json_string_end :: "bytes \<Rightarrow> nat res" where
  "json_string_end input =
     (if get input 0 \<noteq> Some quote then bail ''JSON string expected''
      else json_string_end_from input 1)"

declare skip_json_ws.simps [simp del] json_scalar_end.simps [simp del]
  json_string_end_from.simps [simp del]

lemma json_string_end_from_bounds:
  "json_string_end_from input i = Inr e \<Longrightarrow> i < e \<and> e \<le> length input"
proof (induction input i rule: json_string_end_from.induct)
  case (1 input index)
  note step = "1.prems" [unfolded json_string_end_from.simps [of input index] Let_def]
  from step have i: "index < length input" by (simp split: if_splits)
  consider "input ! index = quote"
    | "input ! index \<noteq> quote" "input ! index = backslash" "get input (index + 1) \<noteq> None"
    | "input ! index \<noteq> quote" "input ! index \<noteq> backslash" "\<not> input ! index < 0x20"
    using step i by (auto split: if_splits)
  then show ?case
  proof cases
    case 1
    with step i show ?thesis by simp
  next
    case 2
    with step i have "json_string_end_from input (index + 2) = Inr e" by auto
    from "1.IH"(1) [OF i refl 2 this] show ?thesis by simp
  next
    case 3
    with step i have "json_string_end_from input (index + 1) = Inr e" by auto
    from "1.IH"(2) [OF i refl 3 this] show ?thesis by simp
  qed
qed

lemma json_string_end_bounds: "json_string_end input = Inr e \<Longrightarrow> 2 \<le> e \<and> e \<le> length input"
  by (auto simp: json_string_end_def dest!: json_string_end_from_bounds split: if_splits)

(* SRC cli 1957-1986 json_compound_end *)
function json_compound_from :: "bytes \<Rightarrow> byte list \<Rightarrow> nat \<Rightarrow> nat res" where
  \<comment> \<open>The stack's top is the head of the list.\<close>
  "json_compound_from input stack index =
     (if index < length input then
        let b = input ! index
        in if b = quote then
             and_then (slice_from input index) (\<lambda>rest.
             and_then (json_string_end rest) (\<lambda>n.
               json_compound_from input stack (index + n)))
           else if b = ascii CHR ''{'' \<or> b = ascii CHR ''['' then
             json_compound_from input (b # stack) (index + 1)
           else if b = ascii CHR ''}'' then
             (case stack of
                opener # stack \<Rightarrow>
                  if opener \<noteq> ascii CHR ''{'' then bail ''invalid JSON object''
                  else if stack = [] then Inr (index + 1)
                  else json_compound_from input stack (index + 1)
              | [] \<Rightarrow> bail ''invalid JSON object'')
           else if b = ascii CHR '']'' then
             (case stack of
                opener # stack \<Rightarrow>
                  if opener \<noteq> ascii CHR ''['' then bail ''invalid JSON array''
                  else if stack = [] then Inr (index + 1)
                  else json_compound_from input stack (index + 1)
              | [] \<Rightarrow> bail ''invalid JSON array'')
           else json_compound_from input stack (index + 1)
      else bail ''unterminated JSON value'')"
  by pat_completeness auto
termination
  by (relation "measure (\<lambda>(input, stack, index). length input - index)")
    (auto simp: slice_from_def dest!: json_string_end_bounds split: if_splits)

declare json_compound_from.simps [simp del]

(* SRC cli json_compound_end *)
definition json_compound_end :: "bytes \<Rightarrow> nat \<Rightarrow> nat res" where
  "json_compound_end input start =
     and_then (index_byte input start) (\<lambda>b. json_compound_from input [b] (start + 1))"

(* SRC cli json_value_end *)
definition json_value_end :: "bytes \<Rightarrow> nat \<Rightarrow> nat res" where
  "json_value_end input start =
     and_then (ok_or ''missing JSON value'' (get input start)) (\<lambda>b.
     if b = quote then
       and_then (slice_from input start) (\<lambda>rest. map_res (\<lambda>n. start + n) (json_string_end rest))
     else if b = ascii CHR ''{'' \<or> b = ascii CHR ''['' then json_compound_end input start
     else if b = ascii CHR ''-'' \<or> (ascii CHR ''0'' \<le> b \<and> b \<le> ascii CHR ''9'')
     then Inr (json_scalar_end input start)
     else if b = ascii CHR ''t'' \<and> get_range input start (start + 4) = Some (as_bytes ''true'')
     then Inr (start + 4)
     else if b = ascii CHR ''f'' \<and> get_range input start (start + 5) = Some (as_bytes ''false'')
     then Inr (start + 5)
     else if b = ascii CHR ''n'' \<and> get_range input start (start + 4) = Some (as_bytes ''null'')
     then Inr (start + 4)
     else bail ''invalid JSON value'')"

section \<open>Decoding a string\<close>

(* SRC cli hex_value *)
definition hex_value :: "byte \<Rightarrow> nat res" where
  "hex_value b =
     (if ascii CHR ''0'' \<le> b \<and> b \<le> ascii CHR ''9'' then Inr (unat (b - ascii CHR ''0''))
      else if ascii CHR ''a'' \<le> b \<and> b \<le> ascii CHR ''f'' then Inr (unat (b - ascii CHR ''a'' + 10))
      else if ascii CHR ''A'' \<le> b \<and> b \<le> ascii CHR ''F'' then Inr (unat (b - ascii CHR ''A'' + 10))
      else bail ''invalid JSON unicode escape'')"

text \<open>One digit: the accumulator is a \<open>u16\<close>, and the shift drops the bits above it.\<close>

definition hex_step :: "byte \<Rightarrow> nat res \<Rightarrow> nat res" where
  "hex_step b r = and_then r (\<lambda>value. map_res (\<lambda>h. or (value * 16 mod 2 ^ 16) h) (hex_value b))"

(* SRC cli decode_hex_quad *)
definition decode_hex_quad :: "bytes \<Rightarrow> nat \<Rightarrow> nat res" where
  "decode_hex_quad input start =
     and_then (ok_or ''short JSON unicode escape'' (get_range input start (start + 4))) (\<lambda>bs.
     fold hex_step bs (Inr 0))"

(* SRC cli decode_json_unicode_escape *)
definition decode_json_unicode_escape :: "bytes \<Rightarrow> nat \<Rightarrow> (nat \<times> nat) res" where
  "decode_json_unicode_escape input start =
     and_then (decode_hex_quad input start) (\<lambda>first.
     if 0xD800 \<le> first \<and> first \<le> 0xDBFF then
       (if get input (start + 4) \<noteq> Some backslash \<or> get input (start + 5) \<noteq> Some (ascii CHR ''u'')
        then bail ''invalid JSON surrogate pair''
        else and_then (decode_hex_quad input (start + 6)) (\<lambda>second.
          if \<not> (0xDC00 \<le> second \<and> second \<le> 0xDFFF) then bail ''invalid JSON surrogate pair''
          else let codepoint = 0x10000 + (first - 0xD800) * 2 ^ 10 + (second - 0xDC00)
               in if is_scalar codepoint then Inr (codepoint, 10)
                  else bail ''invalid JSON unicode escape''))
     else if 0xDC00 \<le> first \<and> first \<le> 0xDFFF then bail ''invalid JSON surrogate pair''
     else if is_scalar first then Inr (first, 4)
     else bail ''invalid JSON unicode escape'')"

definition simple_escape :: "byte \<Rightarrow> byte option" where
  "simple_escape b =
     (if b = quote then Some quote
      else if b = backslash then Some backslash
      else if b = ascii CHR ''/'' then Some (ascii CHR ''/'')
      else if b = ascii CHR ''b'' then Some 0x08
      else if b = ascii CHR ''f'' then Some 0x0C
      else if b = ascii CHR ''n'' then Some 0x0A
      else if b = ascii CHR ''r'' then Some 0x0D
      else if b = ascii CHR ''t'' then Some 0x09
      else None)"

text \<open>
  One turn of the loop up to its size check: \<open>None\<close> at the closing quote, otherwise the output
  so far and the index before its final increment.
\<close>

(* SRC cli 1842-1867 decode_json_string_bytes *)
definition decode_json_string_step :: "bytes \<Rightarrow> bytes \<Rightarrow> nat \<Rightarrow> (bytes \<times> nat) option res" where
  "decode_json_string_step input out index =
     (let b = input ! index
      in if b = quote then Inr None
         else if b = backslash then
           (case get input (index + 1) of
              None \<Rightarrow> bail ''unterminated JSON escape''
            | Some escaped \<Rightarrow>
                (case simple_escape escaped of
                   Some c \<Rightarrow> Inr (Some (out @ [c], index + 1))
                 | None \<Rightarrow>
                     if escaped = ascii CHR ''u'' then
                       map_res (\<lambda>(scalar, consumed). Some (out @ encode_utf8 scalar, index + 1 + consumed))
                         (decode_json_unicode_escape input (index + 1 + 1))
                     else bail ''invalid JSON escape''))
         else if b < 0x20 then bail ''invalid control byte in JSON string''
         else Inr (Some (out @ [b], index)))"

lemma decode_json_string_step_index:
  "decode_json_string_step input out index = Inr (Some (out', index')) \<Longrightarrow> index \<le> index'"
  by (auto simp: decode_json_string_step_def Let_def res_simps split: if_splits option.splits)

(* SRC cli 1841-1872 decode_json_string_bytes *)
function decode_json_string_from :: "bytes \<Rightarrow> bytes \<Rightarrow> nat \<Rightarrow> bytes res" where
  "decode_json_string_from input out index =
     (if index < length input then
        (case decode_json_string_step input out index of
           Inl e \<Rightarrow> Inl e
         | Inr None \<Rightarrow> Inr out
         | Inr (Some (out, index)) \<Rightarrow>
             if length out > MAX_STDIN_SECRET_BYTES
             then bail ''stdin secret input exceeds the supported size limit''
             else decode_json_string_from input out (index + 1))
      else bail ''unterminated JSON string'')"
  by pat_completeness auto
termination
  by (relation "measure (\<lambda>(input, out, index). length input - index)")
    (auto dest!: decode_json_string_step_index)

declare decode_json_string_from.simps [simp del]

(* SRC cli decode_json_string_bytes *)
definition decode_json_string_bytes :: "bytes \<Rightarrow> bytes res" where
  "decode_json_string_bytes input =
     (if get input 0 \<noteq> Some quote then bail ''JSON string expected''
      else decode_json_string_from input [] 1)"

section \<open>Finding a field\<close>

lemma skip_json_ws_ge: "index \<le> skip_json_ws input index"
proof (induction input index rule: skip_json_ws.induct)
  case (1 input index)
  then show ?case by (subst skip_json_ws.simps) (auto split: option.split)
qed

lemma skip_json_ws_le: "index \<le> length input \<Longrightarrow> skip_json_ws input index \<le> length input"
proof (induction input index rule: skip_json_ws.induct)
  case (1 input index)
  then show ?case by (subst skip_json_ws.simps) (auto simp: get_eq_Some split: option.split)
qed

lemma json_scalar_end_ge: "index \<le> json_scalar_end input index"
proof (induction input index rule: json_scalar_end.induct)
  case (1 input index)
  then show ?case by (subst json_scalar_end.simps) (auto split: option.split)
qed

lemma json_scalar_end_le: "index \<le> length input \<Longrightarrow> json_scalar_end input index \<le> length input"
proof (induction input index rule: json_scalar_end.induct)
  case (1 input index)
  then show ?case by (subst json_scalar_end.simps) (auto simp: get_eq_Some split: option.split)
qed

lemma json_compound_from_bounds:
  "json_compound_from input stack index = Inr e \<Longrightarrow> index < e \<and> e \<le> length input"
proof (induction "length input - index" arbitrary: stack index rule: less_induct)
  case less
  note step = less.prems [unfolded json_compound_from.simps [of input stack index] Let_def]
  from step have i: "index < length input" by (simp split: if_splits)
  consider stack' where "json_compound_from input stack' (index + 1) = Inr e" | "e = index + 1"
    | n where "json_string_end (drop index input) = Inr n"
        "json_compound_from input stack (index + n) = Inr e"
    using step i by (auto simp: res_simps slice_from_def split: if_splits list.splits)
  then show ?case
  proof cases
    case 1
    with less.hyps [of "index + 1"] i show ?thesis by force
  next
    case 2
    with i show ?thesis by simp
  next
    case 3
    then have "2 \<le> n" using json_string_end_bounds by blast
    with 3 less.hyps [of "index + n"] i show ?thesis by force
  qed
qed

lemma json_value_end_bounds:
  "json_value_end input start = Inr e \<Longrightarrow> start \<le> e \<and> e \<le> length input \<and> start < length input"
proof -
  assume e: "json_value_end input start = Inr e"
  then have i: "start < length input" by (auto simp: json_value_end_def res_simps get_eq_Some)
  consider n where "json_string_end (drop start input) = Inr n" "e = start + n"
    | b where "json_compound_from input [b] (start + 1) = Inr e"
    | "e = json_scalar_end input start"
    | k where "get_range input start (start + k) \<noteq> None" "e = start + k"
    using e by (auto simp: json_value_end_def json_compound_end_def res_simps slice_from_def
        split: if_splits)
  then show ?thesis
  proof cases
    case 1
    with json_string_end_bounds i show ?thesis by fastforce
  next
    case 2
    with json_compound_from_bounds i show ?thesis by fastforce
  next
    case 3
    with json_scalar_end_ge json_scalar_end_le i show ?thesis by simp
  next
    case 4
    with i show ?thesis by (auto simp: get_range_def split: if_splits)
  qed
qed

lemma find_next_index:
  assumes "json_value_end input (skip_json_ws input (Suc (skip_json_ws input (n + skip_json_ws input index))))
    = Inr e"
  shows "index \<le> skip_json_ws input e"
proof -
  let ?colon = "skip_json_ws input (n + skip_json_ws input index)"
  have "index \<le> skip_json_ws input index" by (rule skip_json_ws_ge)
  also have "\<dots> \<le> ?colon" using skip_json_ws_ge [of "n + skip_json_ws input index" input] by simp
  also have "\<dots> \<le> skip_json_ws input (Suc ?colon)" using skip_json_ws_ge [of "Suc ?colon" input] by simp
  also have "\<dots> \<le> e" using assms json_value_end_bounds by blast
  also have "\<dots> \<le> skip_json_ws input e" by (rule skip_json_ws_ge)
  finally show ?thesis .
qed

(* SRC cli 1802-1831 find_json_field_value *)
function find_json_field_from :: "bytes \<Rightarrow> bytes \<Rightarrow> nat \<Rightarrow> nat res" where
  "find_json_field_from input field index =
     (let key_start = skip_json_ws input index
      in if get input key_start = Some (ascii CHR ''}'')
         then bail ''key import JSON missing required field''
         else if get input key_start \<noteq> Some quote then bail ''key import JSON object key expected''
         else and_then (slice_from input key_start) (\<lambda>rest.
              and_then (decode_json_string_bytes rest) (\<lambda>key.
              and_then (json_string_end rest) (\<lambda>n.
              let colon = skip_json_ws input (n + key_start)
              in if get input colon \<noteq> Some (ascii CHR '':'') then bail ''key import JSON is invalid''
                 else let value = skip_json_ws input (colon + 1)
                      in if key = field then Inr value
                         else and_then (json_value_end input value) (\<lambda>value_end.
                              let next = skip_json_ws input value_end
                              in if get input next = Some (ascii CHR '','')
                                 then find_json_field_from input field (next + 1)
                                 else if get input next = Some (ascii CHR ''}'')
                                 then bail ''key import JSON missing required field''
                                 else bail ''key import JSON is invalid'')))))"
  by pat_completeness auto
termination
  by (relation "measure (\<lambda>(input, field, index). length input - index)")
    (auto simp: get_eq_Some dest!: find_next_index)

declare find_json_field_from.simps [simp del]

(* SRC cli find_json_field_value *)
definition find_json_field_value :: "bytes \<Rightarrow> bytes \<Rightarrow> nat res" where
  "find_json_field_value input field =
     (let index = skip_json_ws input 0
      in if get input index \<noteq> Some (ascii CHR ''{'') then bail ''key import JSON must be an object''
         else find_json_field_from input field (index + 1))"

section \<open>The two fields\<close>

(* SRC cli import_blob_from_json *)
definition import_blob_from_json ::
    "(bytes \<Rightarrow> export_blob option) \<Rightarrow> bytes \<Rightarrow> export_blob res" where
  \<comment> \<open>\<open>from_slice\<close> is \<open>serde_json::from_slice\<close> at the type \<open>ExportBlob\<close>.\<close>
  "import_blob_from_json from_slice input =
     and_then (find_json_field_value input (as_bytes ''blob'')) (\<lambda>value_start.
     and_then (json_value_end input value_start) (\<lambda>value_end.
     and_then (slice_range input value_start value_end) (\<lambda>slice.
     with_context ''key import blob is invalid'' (lib_res ''serde_json'' (from_slice slice)))))"

(* SRC cli import_passphrase_from_json *)
definition import_passphrase_from_json :: "bytes \<Rightarrow> bytes res" where
  "import_passphrase_from_json input =
     and_then (find_json_field_value input (as_bytes ''passphrase'')) (\<lambda>passphrase_start.
     if get input passphrase_start \<noteq> Some quote then bail ''key import passphrase must be a string''
     else and_then (slice_from input passphrase_start) decode_json_string_bytes)"

section \<open>The grammar of a string\<close>

text \<open>
  A JSON string literal as a list of items: a plain byte, a one-letter escape, and a
  \<open>\u\<close> escape of one or, for a surrogate pair, two groups of four hexadecimal digits.
\<close>

datatype json_item = Plain byte | Letter byte | Unit bytes | Pair bytes bytes

definition hex_digit :: "byte \<Rightarrow> nat option" where
  "hex_digit b = (case hex_value b of Inl _ \<Rightarrow> None | Inr h \<Rightarrow> Some h)"

definition hex_digits :: "bytes \<Rightarrow> bool" where
  "hex_digits hs \<longleftrightarrow> length hs = 4 \<and> list_all (\<lambda>h. hex_digit h \<noteq> None) hs"

definition quad_value :: "bytes \<Rightarrow> nat" where
  "quad_value hs = foldl (\<lambda>v h. v * 16 + the (hex_digit h)) 0 hs"

definition pair_value :: "bytes \<Rightarrow> bytes \<Rightarrow> nat" where
  "pair_value hs ls = 0x10000 + (quad_value hs - 0xD800) * 2 ^ 10 + (quad_value ls - 0xDC00)"

fun item_ok :: "json_item \<Rightarrow> bool" where
  "item_ok (Plain b) \<longleftrightarrow> b \<noteq> quote \<and> b \<noteq> backslash \<and> \<not> b < 0x20"
| "item_ok (Letter c) \<longleftrightarrow> simple_escape c \<noteq> None"
| "item_ok (Unit hs) \<longleftrightarrow> hex_digits hs \<and> \<not> (0xD800 \<le> quad_value hs \<and> quad_value hs \<le> 0xDFFF)"
| "item_ok (Pair hs ls) \<longleftrightarrow> hex_digits hs \<and> hex_digits ls
     \<and> 0xD800 \<le> quad_value hs \<and> quad_value hs \<le> 0xDBFF
     \<and> 0xDC00 \<le> quad_value ls \<and> quad_value ls \<le> 0xDFFF"

fun item_text :: "json_item \<Rightarrow> bytes" where
  "item_text (Plain b) = [b]"
| "item_text (Letter c) = [backslash, c]"
| "item_text (Unit hs) = backslash # ascii CHR ''u'' # hs"
| "item_text (Pair hs ls) = backslash # ascii CHR ''u'' # hs @ backslash # ascii CHR ''u'' # ls"

fun item_value :: "json_item \<Rightarrow> bytes" where
  "item_value (Plain b) = [b]"
| "item_value (Letter c) = [the (simple_escape c)]"
| "item_value (Unit hs) = encode_utf8 (quad_value hs)"
| "item_value (Pair hs ls) = encode_utf8 (pair_value hs ls)"

lemma nat_or_16: "or (v * 16) h = v * 16 + h" if "h < 16" for v h :: nat
proof -
  have "and (v * 16) h = 0"
  proof (rule bit_eqI)
    fix n
    show "bit (and (v * 16) h) n \<longleftrightarrow> bit (0 :: nat) n"
    proof (cases "n < 4")
      case True
      then have "\<not> bit (push_bit 4 v) n" by (simp add: bit_push_bit_iff_nat)
      then show ?thesis by (simp add: bit_and_iff push_bit_eq_mult)
    next
      case False
      have "take_bit 4 h = h" using that by (simp add: take_bit_nat_eq_self_iff)
      then have "\<not> bit h n" using False by (metis bit_take_bit_iff)
      then show ?thesis by (simp add: bit_and_iff)
    qed
  qed
  then show ?thesis using disjunctive_add_eq_or [of "v * 16" h] by simp
qed

lemma hex_value_less: "hex_value b = Inr h \<Longrightarrow> h < 16"
  by (auto simp: hex_value_def word_le_nat_alt unat_sub_if' unat_word_ariths split: if_splits)

lemma hex_digit_less: "hex_digit b = Some h \<Longrightarrow> h < 16"
  by (auto simp: hex_digit_def hex_value_less split: sum.splits)

lemma hex_value_eq: "hex_value b = (case hex_digit b of None \<Rightarrow> bail ''invalid JSON unicode escape''
    | Some h \<Rightarrow> Inr h)"
  by (auto simp: hex_digit_def hex_value_def bail_def split: sum.splits)

lemma length_4_cases: "length xs = 4 \<longleftrightarrow> (\<exists>a b c d. xs = [a, b, c, d])"
  by (auto simp: numeral_eq_Suc length_Suc_conv)

lemma hex_step_digit:
  "\<lbrakk>hex_digit b = Some h; v < 4096\<rbrakk> \<Longrightarrow> hex_step b (Inr v) = Inr (v * 16 + h)"
  using hex_digit_less [of b h] by (simp add: hex_step_def hex_value_eq nat_or_16)

lemma quad_fold:
  assumes "hex_digits hs"
  shows "fold hex_step hs (Inr 0) = Inr (quad_value hs)
    \<and> quad_value hs < 2 ^ 16"
proof -
  from assms obtain a b c d where hs: "hs = [a, b, c, d]" by (auto simp: hex_digits_def length_4_cases)
  with assms obtain p q r s where v: "hex_digit a = Some p" "hex_digit b = Some q"
    "hex_digit c = Some r" "hex_digit d = Some s" by (auto simp: hex_digits_def)
  then have small: "p < 16" "q < 16" "r < 16" "s < 16" using hex_digit_less by blast+
  from small have "p * 16 + q < 256" by simp
  moreover from this small have "(p * 16 + q) * 16 + r < 4096" by simp
  moreover from this small have "((p * 16 + q) * 16 + r) * 16 + s < 65536" by simp
  ultimately show ?thesis
    using small by (simp add: hs v quad_value_def hex_step_digit)
qed

lemma quad_fold_Inr:
  assumes "fold hex_step hs r0 = Inr v"
  shows "list_all (\<lambda>h. hex_digit h \<noteq> None) hs \<and> is_ok r0"
  using assms
proof (induction hs arbitrary: r0)
  case Nil
  then show ?case by simp
next
  case (Cons b hs)
  from Cons.prems have "fold hex_step hs (hex_step b r0) = Inr v" by simp
  from Cons.IH [OF this] show ?case
    by (cases r0) (auto simp: hex_step_def hex_value_eq split: option.splits)
qed

lemma decode_hex_quad_eq_Inr:
  "decode_hex_quad input start = Inr v \<longleftrightarrow>
     (\<exists>hs. get_range input start (start + 4) = Some hs \<and> hex_digits hs \<and> v = quad_value hs)"
proof
  assume "decode_hex_quad input start = Inr v"
  then obtain hs where hs: "get_range input start (start + 4) = Some hs"
    and f: "fold hex_step hs (Inr 0) = Inr v"
    by (auto simp: decode_hex_quad_def res_simps)
  from hs have "length hs = 4" by (auto simp: get_range_def split: if_splits)
  with quad_fold_Inr [OF f] have "hex_digits hs" by (simp add: hex_digits_def)
  with quad_fold f hs show "\<exists>hs. get_range input start (start + 4) = Some hs \<and> hex_digits hs \<and> v = quad_value hs"
    by auto
next
  assume "\<exists>hs. get_range input start (start + 4) = Some hs \<and> hex_digits hs \<and> v = quad_value hs"
  then obtain hs where hs: "get_range input start (start + 4) = Some hs" "hex_digits hs" "v = quad_value hs"
    by blast
  then show "decode_hex_quad input start = Inr v"
    by (simp add: decode_hex_quad_def quad_fold)
qed

lemma quad_value_less: "hex_digits hs \<Longrightarrow> quad_value hs < 65536"
  using quad_fold by fastforce

lemma get_range_drop:
  "get_range input i (i + n) = Some xs \<longleftrightarrow> (\<exists>r. i \<le> length input \<and> drop i input = xs @ r \<and> length xs = n)"
proof
  assume "get_range input i (i + n) = Some xs"
  then have xs: "i + n \<le> length input" "xs = take n (drop i input)"
    by (auto simp: get_range_def split: if_splits)
  then have "drop i input = xs @ drop n (drop i input)" by (metis append_take_drop_id)
  with xs show "\<exists>r. i \<le> length input \<and> drop i input = xs @ r \<and> length xs = n" by auto
next
  assume "\<exists>r. i \<le> length input \<and> drop i input = xs @ r \<and> length xs = n"
  then obtain r where r: "i \<le> length input" "drop i input = xs @ r" "length xs = n" by blast
  then have "length (drop i input) = n + length r" by simp
  moreover have "length (drop i input) = length input - i" by simp
  ultimately show "get_range input i (i + n) = Some xs" using r by (simp add: get_range_def)
qed

lemma get_drop: "get input i = Some b \<longleftrightarrow> (\<exists>r. drop i input = b # r)"
proof
  assume "get input i = Some b"
  then have "i < length input" "input ! i = b" by (auto simp: get_eq_Some)
  then have "drop i input = b # drop (Suc i) input" by (metis Cons_nth_drop_Suc)
  then show "\<exists>r. drop i input = b # r" by blast
next
  assume "\<exists>r. drop i input = b # r"
  then obtain r where r: "drop i input = b # r" by blast
  then have "i < length input" by (metis drop_all list.distinct(1) not_le)
  moreover from this r have "input ! i = b" by (metis hd_drop_conv_nth list.sel(1))
  ultimately show "get input i = Some b" by (simp add: get_eq_Some)
qed

lemma drop_ConsD: "drop i input = b # r \<Longrightarrow> i < length input \<and> (input :: bytes) ! i = b \<and> drop (Suc i) input = r"
proof -
  assume d: "drop i input = b # r"
  then have "get input i = Some b" by (auto simp: get_drop)
  moreover have "drop (Suc i) input = tl (drop i input)" by (simp add: drop_Suc tl_drop)
  ultimately show ?thesis using d by (simp add: get_eq_Some)
qed

lemma get_range_4: "get_range input i (i + 4) = Some hs \<longleftrightarrow> (\<exists>r. drop i input = hs @ r \<and> length hs = 4)"
proof -
  have "i \<le> length input" if "drop i input = hs @ r" "length hs = 4" for r
    using that by (cases "i \<le> length input") auto
  then show ?thesis unfolding get_range_drop by blast
qed

lemma drop_append_add: "drop i input = xs @ r \<Longrightarrow> drop (i + length xs) input = r"
  by (metis append_eq_conv_conj drop_drop add.commute)

lemma hex_quad_drop:
  "decode_hex_quad input start = Inr v \<longleftrightarrow>
     (\<exists>hs r. drop start input = hs @ r \<and> hex_digits hs \<and> v = quad_value hs)"
  unfolding decode_hex_quad_eq_Inr get_range_4 hex_digits_def by blast

lemma hex_digits_length: "hex_digits hs \<Longrightarrow> length hs = 4"
  by (simp add: hex_digits_def)

lemma pair_value_scalar:
  assumes "0xD800 \<le> quad_value hs" "quad_value hs \<le> 0xDBFF"
    "0xDC00 \<le> quad_value ls" "quad_value ls \<le> 0xDFFF"
  shows "is_scalar (pair_value hs ls)"
  using assms by (simp add: pair_value_def is_scalar_def)

lemma unicode_escape_unit:
  assumes "drop start input = hs @ r" "item_ok (Unit hs)"
  shows "decode_json_unicode_escape input start = Inr (quad_value hs, 4)"
proof -
  from assms have "decode_hex_quad input start = Inr (quad_value hs)"
    unfolding hex_quad_drop by auto
  with assms quad_value_less [of hs] show ?thesis
    by (auto simp: decode_json_unicode_escape_def is_scalar_def)
qed

lemma unicode_escape_pair:
  assumes "drop start input = hs @ backslash # ascii CHR ''u'' # ls @ r" "item_ok (Pair hs ls)"
  shows "decode_json_unicode_escape input start = Inr (pair_value hs ls, 10)"
proof -
  from assms(2) have len: "length hs = 4" by (simp add: hex_digits_def)
  have q: "decode_hex_quad input start = Inr (quad_value hs)"
    unfolding hex_quad_drop using assms by auto
  have d4: "drop (start + 4) input = backslash # ascii CHR ''u'' # ls @ r"
    using drop_append_add [OF assms(1)] len by simp
  then have g4: "get input (start + 4) = Some backslash" by (auto simp: get_drop)
  from drop_ConsD [OF d4] have d5: "drop (start + 5) input = ascii CHR ''u'' # ls @ r"
    by (simp add: eval_nat_numeral)
  then have g5: "get input (start + 5) = Some (ascii CHR ''u'')" by (auto simp: get_drop)
  from drop_ConsD [OF d5] have "drop (start + 6) input = ls @ r" by (simp add: eval_nat_numeral)
  then have "decode_hex_quad input (start + 6) = Inr (quad_value ls)"
    unfolding hex_quad_drop using assms(2) by auto
  with q g4 g5 assms(2) pair_value_scalar show ?thesis
    by (simp add: decode_json_unicode_escape_def pair_value_def Let_def)
qed

lemma unicode_escape_Inr:
  assumes "decode_json_unicode_escape input start = Inr (s, n)"
  shows "(\<exists>hs r. drop start input = hs @ r \<and> item_ok (Unit hs) \<and> s = quad_value hs \<and> n = 4)
    \<or> (\<exists>hs ls r. drop start input = hs @ backslash # ascii CHR ''u'' # ls @ r
        \<and> item_ok (Pair hs ls) \<and> s = pair_value hs ls \<and> n = 10)"
proof -
  from assms obtain first where f: "decode_hex_quad input start = Inr first"
    by (auto simp: decode_json_unicode_escape_def res_simps)
  then obtain hs r where hs: "drop start input = hs @ r" "hex_digits hs" "first = quad_value hs"
    unfolding hex_quad_drop by blast
  then have r: "drop (start + 4) input = r"
    using drop_append_add hex_digits_length by fastforce
  show ?thesis
  proof (cases "0xD800 \<le> first \<and> first \<le> 0xDBFF")
    case True
    with assms f obtain second where
      g: "get input (start + 4) = Some backslash" "get input (start + 5) = Some (ascii CHR ''u'')"
      and second: "decode_hex_quad input (start + 6) = Inr second" "0xDC00 \<le> second" "second \<le> 0xDFFF"
      and sn: "s = 0x10000 + (first - 0xD800) * 2 ^ 10 + (second - 0xDC00)" "n = 10"
      by (auto simp: decode_json_unicode_escape_def res_simps Let_def split: if_splits)
    from g(1) r obtain r1 where r1: "r = backslash # r1" by (auto simp: get_drop)
    have d5: "drop (start + 5) input = r1"
      using drop_ConsD [OF r [unfolded r1]] by (simp add: eval_nat_numeral)
    with g(2) obtain r2 where r2: "r1 = ascii CHR ''u'' # r2" by (auto simp: get_drop)
    have d6: "drop (start + 6) input = r2"
      using drop_ConsD [OF d5 [unfolded r2]] by (simp add: eval_nat_numeral)
    with second obtain ls r3 where "r2 = ls @ r3" "hex_digits ls" "second = quad_value ls"
      unfolding hex_quad_drop by auto
    with True hs r1 r2 second sn have "drop start input = hs @ backslash # ascii CHR ''u'' # ls @ r3
        \<and> item_ok (Pair hs ls) \<and> s = pair_value hs ls \<and> n = 10"
      by (simp add: pair_value_def)
    then show ?thesis by blast
  next
    case False
    with assms f hs have "item_ok (Unit hs) \<and> s = quad_value hs \<and> n = 4"
      by (auto simp: decode_json_unicode_escape_def res_simps split: if_splits)
    with hs show ?thesis by blast
  qed
qed

lemma simple_escape_u: "simple_escape 117 = None"
  by (simp add: simple_escape_def)

lemma decode_step_item:
  assumes "drop index input = item_text it @ r" "item_ok it"
  shows "decode_json_string_step input out index
    = Inr (Some (out @ item_value it, index + length (item_text it) - 1))"
proof -
  obtain b t where bt: "item_text it = b # t" by (cases it) auto
  with assms(1) have d: "input ! index = b" "drop (Suc index) input = t @ r"
    using drop_ConsD [of index input b "t @ r"] by simp_all
  show ?thesis
  proof (cases it)
    case (Plain x)
    with assms d bt show ?thesis by (simp add: decode_json_string_step_def Let_def)
  next
    case (Letter c)
    with bt d have "get input (index + 1) = Some c" by (auto simp: get_drop)
    with Letter assms(2) bt d show ?thesis by (auto simp: decode_json_string_step_def Let_def)
  next
    case (Unit hs)
    with bt d have g: "get input (index + 1) = Some (ascii CHR ''u'')" by (auto simp: get_drop)
    have "drop (Suc index) input = ascii CHR ''u'' # hs @ r" using d bt Unit by simp
    then have "drop (index + 1 + 1) input = hs @ r" using drop_ConsD by fastforce
    from unicode_escape_unit [OF this] Unit assms(2) bt d g show ?thesis
      by (auto simp: decode_json_string_step_def Let_def simple_escape_u hex_digits_length)
  next
    case (Pair hs ls)
    with bt d have g: "get input (index + 1) = Some (ascii CHR ''u'')" by (auto simp: get_drop)
    have "drop (Suc index) input = ascii CHR ''u'' # hs @ backslash # ascii CHR ''u'' # ls @ r"
      using d bt Pair by simp
    then have "drop (index + 1 + 1) input = hs @ backslash # ascii CHR ''u'' # ls @ r"
      using drop_ConsD by fastforce
    from unicode_escape_pair [OF this] Pair assms(2) bt d g show ?thesis
      by (auto simp: decode_json_string_step_def Let_def simple_escape_u hex_digits_length)
  qed
qed

lemma decode_step_Inr:
  assumes "index < length input" "decode_json_string_step input out index = Inr (Some (out', index'))"
  shows "\<exists>it r. item_ok it \<and> drop index input = item_text it @ r \<and> out' = out @ item_value it
    \<and> Suc index' = index + length (item_text it)"
proof -
  let ?b = "input ! index"
  have d: "drop index input = ?b # drop (Suc index) input"
    using assms(1) by (simp add: Cons_nth_drop_Suc)
  have nq: "?b \<noteq> quote" using assms(2) by (auto simp: decode_json_string_step_def)
  show ?thesis
  proof (cases "?b = backslash")
    case False
    with assms(2) nq have "item_ok (Plain ?b)" "out' = out @ [?b]" "index' = index"
      by (auto simp: decode_json_string_step_def Let_def split: if_splits)
    with d show ?thesis by (intro exI [of _ "Plain ?b"]) auto
  next
    case b: True
    with assms(2) obtain c where c: "get input (index + 1) = Some c"
      by (auto simp: decode_json_string_step_def Let_def split: option.splits)
    then obtain r where r: "drop (Suc index) input = c # r" by (auto simp: get_drop)
    show ?thesis
    proof (cases "simple_escape c")
      case (Some e)
      with assms(2) b c have "out' = out @ item_value (Letter c)" "index' = index + 1" "item_ok (Letter c)"
        by (auto simp: decode_json_string_step_def Let_def)
      with d b r show ?thesis by (intro exI [of _ "Letter c"]) auto
    next
      case None
      with assms(2) b c obtain s n where u: "c = ascii CHR ''u''"
        and sn: "decode_json_unicode_escape input (index + 1 + 1) = Inr (s, n)"
        and o: "out' = out @ encode_utf8 s" "index' = index + 1 + n"
        by (auto simp: decode_json_string_step_def Let_def res_simps split: if_splits)
      have "drop (index + 1 + 1) input = r" using drop_ConsD [OF r] by simp
      with unicode_escape_Inr [OF sn] consider
          hs r' where "r = hs @ r'" "item_ok (Unit hs)" "s = quad_value hs" "n = 4"
        | hs ls r' where "r = hs @ backslash # ascii CHR ''u'' # ls @ r'" "item_ok (Pair hs ls)"
            "s = pair_value hs ls" "n = 10"
        by auto
      then show ?thesis
      proof cases
        case (1 hs r')
        with d b r u o show ?thesis
          by (intro exI [of _ "Unit hs"] exI [of _ r']) (auto simp: hex_digits_length)
      next
        case (2 hs ls r')
        with d b r u o show ?thesis
          by (intro exI [of _ "Pair hs ls"] exI [of _ r']) (auto simp: hex_digits_length)
      qed
    qed
  qed
qed

definition items_text :: "json_item list \<Rightarrow> bytes" where
  "items_text its = concat (map item_text its)"

definition items_value :: "json_item list \<Rightarrow> bytes" where
  "items_value its = concat (map item_value its)"

lemma items_simps [simp]:
  "items_text [] = []" "items_text (it # its) = item_text it @ items_text its"
  "items_value [] = []" "items_value (it # its) = item_value it @ items_value its"
  by (simp_all add: items_text_def items_value_def)

lemma item_text_pos: "0 < length (item_text it)"
  by (cases it) simp_all

lemma decode_from_items:
  assumes "drop index input = items_text its @ quote # r" "list_all item_ok its"
    and "length out + length (items_value its) \<le> MAX_STDIN_SECRET_BYTES"
  shows "decode_json_string_from input out index = Inr (out @ items_value its)"
  using assms
proof (induction its arbitrary: index out)
  case Nil
  then have "drop index input = quote # r" by simp
  from drop_ConsD [OF this] show ?case
    by (subst decode_json_string_from.simps) (simp add: decode_json_string_step_def)
next
  case (Cons it its)
  from Cons.prems have d: "drop index input = item_text it @ (items_text its @ quote # r)"
    and ok: "item_ok it" "list_all item_ok its" by simp_all
  have i: "index < length input"
    using d item_text_pos [of it] by (cases "index < length input") auto
  have next_index: "index + length (item_text it) - 1 + 1 = index + length (item_text it)"
    using item_text_pos [of it] by simp
  have "decode_json_string_from input (out @ item_value it) (index + length (item_text it))
      = Inr ((out @ item_value it) @ items_value its)"
    using Cons.prems(3) drop_append_add [OF d] ok by (intro Cons.IH) simp_all
  with i next_index Cons.prems(3) show ?case
    by (subst decode_json_string_from.simps) (simp add: decode_step_item [OF d ok(1)] del: One_nat_def)
qed

lemma decode_from_Inr:
  assumes "decode_json_string_from input out index = Inr v"
  shows "\<exists>its r. list_all item_ok its \<and> drop index input = items_text its @ quote # r
    \<and> v = out @ items_value its \<and> (its \<noteq> [] \<longrightarrow> length v \<le> MAX_STDIN_SECRET_BYTES)"
  using assms
proof (induction input out index rule: decode_json_string_from.induct)
  case (1 input out index)
  note step = "1.prems" [unfolded decode_json_string_from.simps [of input out index]]
  from step have i: "index < length input" by (simp split: if_splits)
  from step i consider "decode_json_string_step input out index = Inr None" "v = out"
    | out' index' where "decode_json_string_step input out index = Inr (Some (out', index'))"
        "\<not> MAX_STDIN_SECRET_BYTES < length out'"
        "decode_json_string_from input out' (index' + 1) = Inr v"
    by (auto split: sum.splits option.splits if_splits)
  then show ?case
  proof cases
    case 1
    then have "input ! index = quote"
      by (auto simp: decode_json_string_step_def Let_def res_simps split: if_splits option.splits)
    then have "drop index input = quote # drop (Suc index) input"
      using i Cons_nth_drop_Suc by metis
    with 1 show ?thesis by (intro exI [of _ "[]"] exI [of _ "drop (Suc index) input"]) simp
  next
    case (2 out' index')
    from "1.IH" [OF i 2(1) refl refl 2(2,3)] obtain its r where
      its: "list_all item_ok its" "drop (index' + 1) input = items_text its @ quote # r"
      "v = out' @ items_value its" "its \<noteq> [] \<longrightarrow> length v \<le> MAX_STDIN_SECRET_BYTES" by blast
    from decode_step_Inr [OF i 2(1)] obtain it r' where
      it: "item_ok it" "drop index input = item_text it @ r'" "out' = out @ item_value it"
      "Suc index' = index + length (item_text it)" by blast
    from drop_append_add [OF it(2)] it(4) its(2) have "r' = items_text its @ quote # r" by simp
    with its it 2(2) show ?thesis
      by (intro exI [of _ "it # its"] exI [of _ r]) (cases its, auto)
  qed
qed

lemma decode_json_string_bytes_iff:
  "decode_json_string_bytes input = Inr v \<longleftrightarrow>
     (\<exists>its r. list_all item_ok its \<and> input = quote # items_text its @ quote # r
        \<and> v = items_value its \<and> length v \<le> MAX_STDIN_SECRET_BYTES)"
  (is "?l \<longleftrightarrow> ?r")
proof
  assume l: ?l
  then have q: "get input 0 = Some quote"
    and f: "decode_json_string_from input [] 1 = Inr v"
    by (auto simp: decode_json_string_bytes_def split: if_splits)
  from q obtain t where t: "input = quote # t" by (auto simp: get_drop)
  from decode_from_Inr [OF f] t show ?r
    by (metis One_nat_def append_Nil drop0 drop_Suc_Cons items_simps(3) le0 list.size(3))
next
  assume ?r
  then obtain its r where r: "list_all item_ok its" "input = quote # items_text its @ quote # r"
    "v = items_value its" "length v \<le> MAX_STDIN_SECRET_BYTES" by blast
  then have "decode_json_string_from input [] 1 = Inr ([] @ items_value its)"
    by (intro decode_from_items) simp_all
  with r show ?l by (simp add: decode_json_string_bytes_def get_def)
qed

text \<open>The end of a string, as the skipping scanner finds it.\<close>

lemma json_string_end_plain:
  assumes "drop i input = b # r" "b \<noteq> quote" "b \<noteq> backslash" "\<not> b < 0x20"
  shows "json_string_end_from input i = json_string_end_from input (i + 1)"
  using assms drop_ConsD [OF assms(1)] by (subst json_string_end_from.simps) simp

lemma json_string_end_escape:
  assumes "drop i input = backslash # c # r"
  shows "json_string_end_from input i = json_string_end_from input (i + 2)"
proof -
  from drop_ConsD [OF assms] have "i < length input" "input ! i = backslash"
    and "drop (i + 1) input = c # r" by simp_all
  then have "get input (i + 1) = Some c" by (auto simp: get_drop)
  with \<open>i < length input\<close> \<open>input ! i = backslash\<close> show ?thesis
    by (subst json_string_end_from.simps) simp
qed

lemma hex_digit_plain: "hex_digit b \<noteq> None \<Longrightarrow> b \<noteq> quote \<and> b \<noteq> backslash \<and> \<not> b < 0x20"
  by (auto simp: hex_digit_def hex_value_def word_le_nat_alt word_less_nat_alt
      split: if_splits sum.splits)

lemma json_string_end_hex:
  assumes "drop i input = hs @ r" "list_all (\<lambda>h. hex_digit h \<noteq> None) hs"
  shows "json_string_end_from input i = json_string_end_from input (i + length hs)"
  using assms
proof (induction hs arbitrary: i)
  case Nil
  then show ?case by simp
next
  case (Cons h hs)
  then have d: "drop i input = h # hs @ r" by simp
  have "json_string_end_from input i = json_string_end_from input (i + 1)"
    using Cons.prems(2) hex_digit_plain by (intro json_string_end_plain [OF d]) simp_all
  also have "\<dots> = json_string_end_from input (i + 1 + length hs)"
    using drop_ConsD [OF d] Cons.prems(2) by (intro Cons.IH) simp_all
  finally show ?case by (simp add: add.assoc)
qed

lemma json_string_end_item:
  assumes "drop i input = item_text it @ r" "item_ok it"
  shows "json_string_end_from input i = json_string_end_from input (i + length (item_text it))"
proof -
  have u: "json_string_end_from input j = json_string_end_from input (j + 6)"
    if "drop j input = backslash # c # hs @ r'" "hex_digits hs" for j c hs r'
  proof -
    have "drop (j + 2) input = hs @ r'" using drop_append_add [of j input "[backslash, c]"] that(1) by simp
    from json_string_end_hex [OF this] that(2)
    have "json_string_end_from input (j + 2) = json_string_end_from input (j + 2 + length hs)"
      by (simp add: hex_digits_def)
    moreover have "j + 2 + length hs = j + 6" using that(2) by (simp add: hex_digits_length)
    ultimately have "json_string_end_from input (j + 2) = json_string_end_from input (j + 6)"
      by (simp only:)
    with json_string_end_escape [OF that(1)] show ?thesis by simp
  qed
  show ?thesis
  proof (cases it)
    case (Plain b)
    with assms json_string_end_plain [of i input b r] show ?thesis by simp
  next
    case (Letter c)
    with assms json_string_end_escape [of i input c r] show ?thesis by simp
  next
    case (Unit hs)
    with assms have "drop i input = backslash # ascii CHR ''u'' # hs @ r" "hex_digits hs" by simp_all
    from u [OF this] Unit this(2) show ?thesis by (simp add: hex_digits_length)
  next
    case (Pair hs ls)
    from Pair assms have d: "drop i input = backslash # ascii CHR ''u'' # hs @ (backslash # ascii CHR ''u'' # ls @ r)"
      and len: "length hs = 4" "length ls = 4" by (simp_all add: hex_digits_length)
    then have "drop (i + length (backslash # ascii CHR ''u'' # hs)) input = backslash # ascii CHR ''u'' # ls @ r"
      by (intro drop_append_add) simp
    with len have "drop (i + 6) input = backslash # ascii CHR ''u'' # ls @ r" by simp
    from u [OF this] u [OF d] Pair assms(2)
    have "json_string_end_from input i = json_string_end_from input (i + 12)"
      by (simp add: add.commute)
    with Pair len show ?thesis by simp
  qed
qed

lemma json_string_end_items:
  assumes "drop i input = items_text its @ quote # r" "list_all item_ok its"
  shows "json_string_end_from input i = Inr (i + length (items_text its) + 1)"
  using assms
proof (induction its arbitrary: i)
  case Nil
  then have "drop i input = quote # r" by simp
  from drop_ConsD [OF this] show ?case by (subst json_string_end_from.simps) simp
next
  case (Cons it its)
  then have d: "drop i input = item_text it @ (items_text its @ quote # r)" by simp
  from json_string_end_item [OF d] Cons.IH [OF drop_append_add [OF d]] Cons.prems(2)
  show ?case by (simp add: add.assoc)
qed

section \<open>The scanner never panics\<close>

lemma panic_free_index_byte [simp]: "i < length input \<Longrightarrow> panic_free (index_byte input i)"
  by (simp add: index_byte_def get_def)

lemma panic_free_slice_from [simp]: "i \<le> length input \<Longrightarrow> panic_free (slice_from input i)"
  by (simp add: slice_from_def)

lemma panic_free_string_end_from: "panic_free (json_string_end_from input i)"
proof (induction input i rule: json_string_end_from.induct)
  case (1 input index)
  then show ?case by (subst json_string_end_from.simps) (auto simp: Let_def)
qed

lemma panic_free_string_end [simp]: "panic_free (json_string_end input)"
  by (simp add: json_string_end_def panic_free_string_end_from)

lemma panic_free_map_res [simp]: "panic_free (map_res f r) = panic_free r"
  by (cases r) (simp_all add: panic_free_def)

lemma panic_free_compound_from: "panic_free (json_compound_from input stack index)"
proof (induction "length input - index" arbitrary: stack index rule: less_induct)
  case less
  show ?case
  proof (cases "index < length input")
    case i: True
    have rec1: "panic_free (json_compound_from input stack' (Suc index))" for stack'
      using i by (intro less.hyps) simp
    have rec2: "panic_free (json_compound_from input stack (index + n))"
      if "json_string_end r = Inr n" for n r
      using i json_string_end_bounds [OF that] by (intro less.hyps) linarith
    have "panic_free (and_then (slice_from input index) (\<lambda>rest. and_then (json_string_end rest)
        (\<lambda>n. json_compound_from input stack (index + n))))"
      using i by (intro panic_free_and_then rec2) simp_all
    then show ?thesis
      using i by (subst json_compound_from.simps) (simp add: Let_def rec1 split: list.split)
  next
    case False
    then show ?thesis by (subst json_compound_from.simps) simp
  qed
qed

lemma panic_free_value_end [simp]: "panic_free (json_value_end input i)"
  by (auto simp: json_value_end_def json_compound_end_def get_eq_Some res_simps
      panic_free_compound_from intro!: panic_free_and_then)

lemma panic_free_hex_value [simp]: "panic_free (hex_value b)"
  by (simp add: hex_value_eq split: option.split)

lemma panic_free_hex_quad [simp]: "panic_free (decode_hex_quad input i)"
proof -
  have "panic_free r \<Longrightarrow> panic_free (fold hex_step bs r)" for bs r
    by (induction bs arbitrary: r) (simp_all add: hex_step_def panic_free_and_then)
  then show ?thesis by (simp add: decode_hex_quad_def panic_free_and_then)
qed

lemma panic_free_unicode_escape [simp]: "panic_free (decode_json_unicode_escape input i)"
  by (auto simp: decode_json_unicode_escape_def Let_def intro!: panic_free_and_then)

lemma panic_free_decode_step [simp]: "panic_free (decode_json_string_step input out i)"
  by (auto simp: decode_json_string_step_def Let_def split: option.split)

lemma panic_free_decode_from: "panic_free (decode_json_string_from input out index)"
proof (induction input out index rule: decode_json_string_from.induct)
  case (1 input out index)
  have "panic_free (Inl e :: bytes res)" if "decode_json_string_step input out index = Inl e" for e
    using panic_free_decode_step [of input out index] that by (simp add: panic_free_def)
  with 1 show ?case
    by (subst decode_json_string_from.simps) (auto split: sum.split option.split)
qed

lemma panic_free_decode [simp]: "panic_free (decode_json_string_bytes input)"
  by (simp add: decode_json_string_bytes_def panic_free_decode_from)

lemma panic_free_find_from: "panic_free (find_json_field_from input field index)"
proof (induction "length input - index" arbitrary: index rule: less_induct)
  case less
  have rec: "panic_free (find_json_field_from input field (Suc (skip_json_ws input e)))"
    if "json_value_end input (skip_json_ws input (Suc (skip_json_ws input (n + skip_json_ws input index))))
      = Inr e" "skip_json_ws input e < length input" for e n
    using find_next_index [OF that(1)] that(2) by (intro less.hyps) linarith
  show ?case
    by (subst find_json_field_from.simps)
      (auto simp: Let_def get_eq_Some res_simps intro!: panic_free_and_then, erule (1) rec)
qed

lemma panic_free_find [simp]: "panic_free (find_json_field_value input field)"
  by (simp add: find_json_field_value_def panic_free_find_from Let_def)

section \<open>Properties\<close>

text \<open>
  The string decoder accepts exactly the JSON grammar: it succeeds on a literal of plain
  bytes, letter escapes, \<open>\u\<close> escapes outside the surrogates and surrogate pairs, closed by
  a quote, whose decoded bytes fit the limit, and yields those bytes (each code point in UTF-8,
  never an invalid one). On every such literal the skipping scanner, which does not look into
  escapes, stops at the same quote, so the key compared and the text skipped are one string.
\<close>

theorem decode_json_string_exact:
  "decode_json_string_bytes input = Inr v \<longleftrightarrow>
     (\<exists>its r. list_all item_ok its \<and> input = quote # items_text its @ quote # r
        \<and> v = items_value its \<and> length v \<le> MAX_STDIN_SECRET_BYTES
        \<and> json_string_end input = Inr (length (items_text its) + 2))"
proof -
  have "json_string_end input = Inr (length (items_text its) + 2)"
    if "list_all item_ok its" "input = quote # items_text its @ quote # r" for its r
  proof -
    have "drop 1 input = items_text its @ quote # r" using that by simp
    from json_string_end_items [OF this that(1)] that(2) show ?thesis
      by (simp add: json_string_end_def get_def)
  qed
  then show ?thesis unfolding decode_json_string_bytes_iff by blast
qed

text \<open>
  The scanner is safe on any input: looking for the blob and the passphrase never panics
  (every index and slice bound it computes is within the input), whatever the bytes are and
  whatever \<open>serde_json\<close> answers for the blob; and a value ends after its start and within
  the input.
\<close>

theorem key_import_scanner_total:
  "panic_free (import_passphrase_from_json input)
   \<and> panic_free (import_blob_from_json from_slice input)
   \<and> (case json_value_end input start of Inl _ \<Rightarrow> True | Inr e \<Rightarrow> start \<le> e \<and> e \<le> length input)"
proof (intro conjI)
  show "panic_free (import_passphrase_from_json input)"
    by (auto simp: import_passphrase_from_json_def get_eq_Some intro!: panic_free_and_then)
  have "panic_free (slice_range input s e)" if "json_value_end input s = Inr e" for s e
    using json_value_end_bounds [OF that] by (simp add: slice_range_def get_range_def)
  then show "panic_free (import_blob_from_json from_slice input)"
    by (auto simp: import_blob_from_json_def intro!: panic_free_and_then)
  show "case json_value_end input start of Inl _ \<Rightarrow> True | Inr e \<Rightarrow> start \<le> e \<and> e \<le> length input"
    using json_value_end_bounds by (auto split: sum.split)
qed

end
