(* ===== verification/StdinIO.thy ===== *)
theory StdinIO
  imports KeyImportJson
begin

text \<open>
  Bounded reading of standard input, the end of \<open>crates/avault-cli/src/main.rs\<close>
  (\<open>read_stdin_zeroizing_from\<close> to \<open>trim_trailing_newlines\<close>).

  The readers of the program take any \<open>impl Read\<close>; here they take the read function and its
  state. What a reader promises is the locale \<open>reader\<close>; the model of a stream is a list of
  events, each a chunk or a failure, so that how the bytes arrive is arbitrary.
\<close>

section \<open>The Read interface\<close>

type_synonym 's read_fn = "'s \<Rightarrow> nat \<Rightarrow> (io_kind + bytes) \<times> 's"

text \<open>
  \<open>pending s\<close> are the bytes that come before the next end or failure, \<open>clean s\<close> tells that
  they come before an end.
\<close>

locale reader =
  fixes rd :: "'s read_fn"
    and pending :: "'s \<Rightarrow> bytes"
    and clean :: "'s \<Rightarrow> bool"
  assumes rd_length: "rd s n = (Inr bs, s') \<Longrightarrow> length bs \<le> n"
    and rd_data: "\<lbrakk>rd s n = (Inr bs, s'); bs \<noteq> []\<rbrakk> \<Longrightarrow> pending s = bs @ pending s' \<and> clean s' = clean s"
    and rd_end: "\<lbrakk>rd s n = (Inr [], s'); 0 < n\<rbrakk> \<Longrightarrow> pending s = [] \<and> clean s"
    and rd_fault: "rd s n = (Inl k, s') \<Longrightarrow> pending s = [] \<and> \<not> clean s"

datatype io_event = Data bytes | Fault io_kind

type_synonym stream = "io_event list"

fun stream_read :: "stream read_fn" where
  "stream_read [] n = (Inr [], [])"
| "stream_read (Fault k # s) n = (Inl k, s)"
| "stream_read (Data bs # s) n =
     (if length bs \<le> n then (Inr bs, s) else (Inr (take n bs), Data (drop n bs) # s))"

fun stream_pending :: "stream \<Rightarrow> bytes" where
  "stream_pending [] = []"
| "stream_pending (Fault k # s) = []"
| "stream_pending (Data bs # s) = (if bs = [] then [] else bs @ stream_pending s)"

fun stream_clean :: "stream \<Rightarrow> bool" where
  "stream_clean [] = True"
| "stream_clean (Fault k # s) = False"
| "stream_clean (Data bs # s) = (bs = [] \<or> stream_clean s)"

interpretation stream: reader stream_read stream_pending stream_clean
proof
  fix s :: stream and n bs s'
  assume r: "stream_read s n = (Inr bs, s')"
  then show "length bs \<le> n"
    by (cases "(s, n)" rule: stream_read.cases) (auto split: if_splits)
  assume "bs \<noteq> []"
  with r show "stream_pending s = bs @ stream_pending s' \<and> stream_clean s' = stream_clean s"
    by (cases "(s, n)" rule: stream_read.cases) (auto split: if_splits)
next
  fix s :: stream and n s'
  assume "stream_read s n = (Inr [], s')" "0 < n"
  then show "stream_pending s = [] \<and> stream_clean s"
    by (cases "(s, n)" rule: stream_read.cases) (auto split: if_splits)
next
  fix s :: stream and n k s'
  assume "stream_read s n = (Inl k, s')"
  then show "stream_pending s = [] \<and> \<not> stream_clean s"
    by (cases "(s, n)" rule: stream_read.cases) (auto split: if_splits)
qed

section \<open>The readers\<close>

(* SRC cli MAX_STDIN_ENVELOPE_BYTES *)
definition MAX_STDIN_ENVELOPE_BYTES :: nat where
  "MAX_STDIN_ENVELOPE_BYTES = 2 * 1024 * 1024"

(* SRC cli MAX_STDIN_PASSPHRASE_BYTES *)
definition MAX_STDIN_PASSPHRASE_BYTES :: nat where
  "MAX_STDIN_PASSPHRASE_BYTES = 64 * 1024"

(* SRC cli STDIN_READ_CHUNK_BYTES *)
definition STDIN_READ_CHUNK_BYTES :: nat where
  "STDIN_READ_CHUNK_BYTES = 8192"

(* SRC cli read_zeroizing_to_cap *)
function read_to_cap :: "'s read_fn \<Rightarrow> nat \<Rightarrow> bytes \<Rightarrow> 's \<Rightarrow> bytes res \<times> 's" where
  "read_to_cap rd max_len out s =
     (if length out < max_len then
        let remaining = max_len - length out;
            read_len = min remaining STDIN_READ_CHUNK_BYTES
        in case rd s read_len of
             (Inl k, s) \<Rightarrow> (Inl [Io k], s)
           | (Inr bs, s) \<Rightarrow>
               if bs = [] then (Inr out, s)
               else if length bs > read_len then (Inl [Panic ''slice index out of bounds''], s)
               else read_to_cap rd max_len (out @ bs) s
      else case rd s 1 of
             (Inl k, s) \<Rightarrow> (Inl [Io k], s)
           | (Inr bs, s) \<Rightarrow>
               if bs = [] then (Inr out, s)
               else (bail ''stdin secret input exceeds the supported size limit'', s))"
  by pat_completeness auto
termination
  by (relation "measure (\<lambda>(rd, max_len, out, s). max_len - length out)") (auto simp: neq_Nil_conv)

declare read_to_cap.simps [simp del]

definition read_zeroizing_to_cap :: "'s read_fn \<Rightarrow> nat \<Rightarrow> 's \<Rightarrow> bytes res \<times> 's" where
  "read_zeroizing_to_cap rd max_len s = read_to_cap rd max_len [] s"

(* SRC cli read_stdin_zeroizing_from *)
definition read_stdin_zeroizing_from :: "'s read_fn \<Rightarrow> 's \<Rightarrow> bytes res \<times> 's" where
  "read_stdin_zeroizing_from rd s = read_zeroizing_to_cap rd MAX_STDIN_SECRET_BYTES s"

(* SRC cli read_json_input *)
definition read_json_input :: "'s read_fn \<Rightarrow> string \<Rightarrow> 's \<Rightarrow> bytes res \<times> 's" where
  "read_json_input rd context s =
     (let (r, s) = read_zeroizing_to_cap rd MAX_STDIN_ENVELOPE_BYTES s
      in (with_context context r, s))"

(* SRC cli 3416-3431 read_passphrase_line *)
function read_line_bytes :: "'s read_fn \<Rightarrow> bytes \<Rightarrow> 's \<Rightarrow> bytes res \<times> 's" where
  "read_line_bytes rd out s =
     (if length out \<ge> MAX_STDIN_PASSPHRASE_BYTES
      then (bail ''store passphrase exceeds the supported size limit'', s)
      else case rd s 1 of
             (Inl k, s) \<Rightarrow> (Inl [Io k], s)
           | (Inr [], s) \<Rightarrow> (Inr out, s)
           | (Inr (b # _), s) \<Rightarrow>
               if b = 0x0A then (Inr out, s) else read_line_bytes rd (out @ [b]) s)"
  by pat_completeness auto
termination
  by (relation "measure (\<lambda>(rd, out, s). MAX_STDIN_PASSPHRASE_BYTES - length out)") auto

declare read_line_bytes.simps [simp del]

(* SRC cli read_passphrase_line *)
definition read_passphrase_line :: "'s read_fn \<Rightarrow> 's \<Rightarrow> bytes res \<times> 's" where
  "read_passphrase_line rd s =
     (let (r, s) = read_line_bytes rd [] s
      in (and_then r (\<lambda>out.
          let out = (if out \<noteq> [] \<and> last out = 0x0D then butlast out else out)
          in if out = [] then bail ''a non-empty store passphrase is required'' else Inr out), s))"

(* SRC cli read_envelope *)
definition read_envelope ::
    "(string \<Rightarrow> io_kind + bytes) \<Rightarrow> 's read_fn \<Rightarrow> string option \<Rightarrow> 's \<Rightarrow> bytes res \<times> 's" where
  "read_envelope fs_read rd path s = (case path of
       Some path \<Rightarrow>
         (case fs_read path of
            Inl k \<Rightarrow> (Inl [Msg ''failed to read envelope file'', Io k], s)
          | Inr bs \<Rightarrow> (Inr bs, s))
     | None \<Rightarrow>
         (let (r, s) = read_zeroizing_to_cap rd MAX_STDIN_ENVELOPE_BYTES s
          in (with_context ''failed to read envelope JSON from stdin'' r, s)))"

(* SRC cli trim_trailing_newlines *)
function trim_trailing_newlines :: "bytes \<Rightarrow> bytes" where
  "trim_trailing_newlines buf =
     (if buf \<noteq> [] \<and> last buf \<in> {0x0A, 0x0D} then trim_trailing_newlines (butlast buf) else buf)"
  by pat_completeness auto
termination
  by (relation "measure length") auto

declare trim_trailing_newlines.simps [simp del]

section \<open>What they read, over any reader\<close>

context reader
begin

lemma read_to_cap_clean:
  assumes "clean s" "length out \<le> max_len"
  shows "\<exists>s'. read_to_cap rd max_len out s =
    (if length out + length (pending s) \<le> max_len then Inr (out @ pending s)
     else bail ''stdin secret input exceeds the supported size limit'', s')"
  using assms
proof (induction "max_len - length out" arbitrary: out s rule: less_induct)
  case less
  show ?case
  proof (cases "length out < max_len")
    case True
    define n where "n = min (max_len - length out) STDIN_READ_CHUNK_BYTES"
    have pos: "0 < n" using True by (simp add: n_def STDIN_READ_CHUNK_BYTES_def)
    obtain r s1 where r: "rd s n = (r, s1)" by (cases "rd s n")
    show ?thesis
    proof (cases r)
      case (Inl k)
      with r rd_fault less.prems show ?thesis by blast
    next
      case (Inr bs)
      show ?thesis
      proof (cases "bs = []")
        case True
        with r Inr rd_end pos have "pending s = []" by blast
        with True r Inr \<open>length out < max_len\<close> show ?thesis
          by (subst read_to_cap.simps) (simp flip: n_def)
      next
        case False
        with r Inr have p: "pending s = bs @ pending s1" "clean s1" and len: "length bs \<le> n"
          using rd_data rd_length less.prems(1) by blast+
        have "max_len - length (out @ bs) < max_len - length out"
          using False \<open>length out < max_len\<close> by (simp add: neq_Nil_conv) (auto simp: neq_Nil_conv)
        moreover have "length (out @ bs) \<le> max_len" using len less.prems(2) by (simp add: n_def, linarith)
        ultimately obtain s2 where "read_to_cap rd max_len (out @ bs) s1 =
            (if length (out @ bs) + length (pending s1) \<le> max_len then Inr ((out @ bs) @ pending s1)
             else bail ''stdin secret input exceeds the supported size limit'', s2)"
          using less.hyps [of "out @ bs" s1] p(2) by blast
        with \<open>length out < max_len\<close> r Inr False len p show ?thesis
          by (subst read_to_cap.simps) (simp add: add.assoc flip: n_def)
      qed
    qed
  next
    case False
    obtain r s1 where r: "rd s 1 = (r, s1)" by (cases "rd s 1")
    show ?thesis
    proof (cases r)
      case (Inl k)
      with r rd_fault less.prems show ?thesis by blast
    next
      case (Inr bs)
      have "bs = [] \<Longrightarrow> pending s = []" and "bs \<noteq> [] \<Longrightarrow> pending s \<noteq> []"
        using r Inr rd_end rd_data by auto
      with False r Inr less.prems show ?thesis
        by (subst read_to_cap.simps) auto
    qed
  qed
qed

lemma read_zeroizing_to_cap_clean:
  assumes "clean s"
  shows "fst (read_zeroizing_to_cap rd max_len s) =
    (if length (pending s) \<le> max_len then Inr (pending s)
     else bail ''stdin secret input exceeds the supported size limit'')"
  using read_to_cap_clean [OF assms, of "[]" max_len] by (auto simp: read_zeroizing_to_cap_def)

lemma read_to_cap_bounded:
  "read_to_cap rd max_len out s = (Inr v, s') \<Longrightarrow> length out \<le> max_len \<Longrightarrow> length v \<le> max_len"
proof (induction "max_len - length out" arbitrary: out s rule: less_induct)
  case less
  note step = less.prems(1) [unfolded read_to_cap.simps [of rd max_len out s]]
  show ?case
  proof (cases "length out < max_len")
    case True
    let ?n = "min (max_len - length out) STDIN_READ_CHUNK_BYTES"
    obtain r s1 where r: "rd s ?n = (r, s1)" by (cases "rd s ?n")
    with step True obtain bs where bs: "r = Inr bs" by (cases r) auto
    show ?thesis
    proof (cases "bs = []")
      case True
      with step r bs \<open>length out < max_len\<close> show ?thesis by simp
    next
      case False
      with step r bs True rd_length have len: "length bs \<le> ?n"
        and rec: "read_to_cap rd max_len (out @ bs) s1 = (Inr v, s')" by fastforce+
      have "max_len - length (out @ bs) < max_len - length out"
        using False True by (simp add: neq_Nil_conv) (auto simp: neq_Nil_conv)
      moreover have "length (out @ bs) \<le> max_len" using len True by (simp, linarith)
      ultimately show ?thesis using less.hyps rec by blast
    qed
  next
    case False
    with step less.prems(2) show ?thesis
      by (auto simp: bail_def split: prod.splits sum.splits if_splits)
  qed
qed

text \<open>The line of a passphrase and what is left of the input behind it.\<close>

lemma read_line_bytes_clean:
  assumes "clean s" "length out \<le> MAX_STDIN_PASSPHRASE_BYTES"
  shows "let line = takeWhile (\<lambda>b. b \<noteq> 0x0A) (pending s); r = read_line_bytes rd out s in
     if length out + length line < MAX_STDIN_PASSPHRASE_BYTES
     then fst r = Inr (out @ line)
       \<and> (0x0A \<in> set (pending s) \<longrightarrow> pending s = line @ 0x0A # pending (snd r) \<and> clean (snd r))
     else fst r = bail ''store passphrase exceeds the supported size limit''"
  using assms
proof (induction "MAX_STDIN_PASSPHRASE_BYTES - length out" arbitrary: out s rule: less_induct)
  case less
  show ?case
  proof (cases "length out < MAX_STDIN_PASSPHRASE_BYTES")
    case True
    obtain r s1 where r: "rd s 1 = (r, s1)" by (cases "rd s 1")
    show ?thesis
    proof (cases r)
      case (Inl k)
      with r rd_fault less.prems show ?thesis by blast
    next
      case (Inr bs)
      show ?thesis
      proof (cases bs)
        case Nil
        with r Inr have "pending s = []" using rd_end by simp
        with True r Inr Nil show ?thesis by (subst read_line_bytes.simps) simp
      next
        case (Cons b rest)
        with r Inr rd_length have "rest = []" by fastforce
        with Cons r Inr rd_data less.prems have p: "pending s = b # pending s1" "clean s1" by auto
        show ?thesis
        proof (cases "b = 0x0A")
          case True
          with p r Inr Cons \<open>length out < _\<close> show ?thesis
            by (subst read_line_bytes.simps) simp
        next
          case False
          with p r Inr Cons True have e: "read_line_bytes rd out s = read_line_bytes rd (out @ [b]) s1"
            by (subst read_line_bytes.simps) simp
          have "MAX_STDIN_PASSPHRASE_BYTES - length (out @ [b]) < MAX_STDIN_PASSPHRASE_BYTES - length out"
            "length (out @ [b]) \<le> MAX_STDIN_PASSPHRASE_BYTES"
            using True by simp_all
          from less.hyps [OF this(1) p(2) this(2)] False show ?thesis
            unfolding e p(1) by (simp add: Let_def)
        qed
      qed
    qed
  next
    case False
    with less.prems(2) show ?thesis by (subst read_line_bytes.simps) simp
  qed
qed

end

lemma trim_trailing_newlines_append:
  "trim_trailing_newlines (buf @ [b]) = (if b \<in> {0x0A, 0x0D} then trim_trailing_newlines buf else buf @ [b])"
  by (subst trim_trailing_newlines.simps) simp

lemma trim_trailing_newlines_Nil: "trim_trailing_newlines [] = []"
  by (subst trim_trailing_newlines.simps) simp

lemma trim_trailing_newlines_split:
  "\<exists>nl. buf = trim_trailing_newlines buf @ nl \<and> set nl \<subseteq> {0x0A, 0x0D}
    \<and> (trim_trailing_newlines buf \<noteq> [] \<longrightarrow> last (trim_trailing_newlines buf) \<notin> {0x0A, 0x0D})"
proof (induction buf rule: rev_induct)
  case Nil
  then show ?case by (simp add: trim_trailing_newlines_Nil)
next
  case (snoc b buf)
  show ?case
  proof (cases "b \<in> {0x0A, 0x0D}")
    case True
    from snoc obtain nl where "buf = trim_trailing_newlines buf @ nl" "set nl \<subseteq> {0x0A, 0x0D}"
      "trim_trailing_newlines buf \<noteq> [] \<longrightarrow> last (trim_trailing_newlines buf) \<notin> {0x0A, 0x0D}" by blast
    moreover from \<open>buf = _\<close> have "buf @ [b] = trim_trailing_newlines buf @ nl @ [b]"
      by (metis append_assoc)
    moreover have "set (nl @ [b]) \<subseteq> {0x0A, 0x0D}" using True \<open>set nl \<subseteq> _\<close> by simp
    ultimately show ?thesis
      unfolding trim_trailing_newlines_append if_P [OF True] by blast
  next
    case False
    then show ?thesis unfolding trim_trailing_newlines_append by (intro exI [of _ "[]"]) auto
  qed
qed

section \<open>Properties\<close>

text \<open>
  A bounded read does not depend on how the bytes arrive: on a stream of chunks of any
  sizes that ends without a failure it returns all of them when they fit the limit, and is
  refused when they do not; and whatever the stream does, what it returns is never longer than
  the limit.
\<close>

theorem bounded_read_exact:
  "(if stream_clean s
    then fst (read_zeroizing_to_cap stream_read max_len s) =
      (if length (stream_pending s) \<le> max_len then Inr (stream_pending s)
       else bail ''stdin secret input exceeds the supported size limit'')
    else True)
   \<and> (case fst (read_zeroizing_to_cap stream_read max_len s) of
        Inl _ \<Rightarrow> True | Inr v \<Rightarrow> length v \<le> max_len)"
proof -
  have "length v \<le> max_len" if "fst (read_zeroizing_to_cap stream_read max_len s) = Inr v" for v
    using that stream.read_to_cap_bounded [of max_len "[]" s v]
    by (auto simp: read_zeroizing_to_cap_def prod_eq_iff)
  then have "case fst (read_zeroizing_to_cap stream_read max_len s) of
      Inl _ \<Rightarrow> True | Inr v \<Rightarrow> length v \<le> max_len"
    by (simp split: sum.split)
  moreover note stream.read_zeroizing_to_cap_clean [of s max_len]
  ultimately show ?thesis by (cases "stream_clean s") simp_all
qed

text \<open>
  The passphrase line: from a stream that ends without a failure, \<open>read_passphrase_line\<close>
  takes the bytes before the first newline (less one carriage return), refuses a line of
  \<open>64 KiB\<close> or more and an empty one, and leaves exactly the bytes behind that newline to
  the next reader, so the JSON that follows on the same input is not touched.
\<close>

theorem passphrase_line_exact:
  assumes "stream_clean s"
  defines "line \<equiv> takeWhile (\<lambda>b. b \<noteq> 0x0A) (stream_pending s)"
  defines "word \<equiv> (if line \<noteq> [] \<and> last line = 0x0D then butlast line else line)"
  shows "fst (read_passphrase_line stream_read s) =
      (if MAX_STDIN_PASSPHRASE_BYTES \<le> length line
       then bail ''store passphrase exceeds the supported size limit''
       else if word = [] then bail ''a non-empty store passphrase is required'' else Inr word)
    \<and> (length line < MAX_STDIN_PASSPHRASE_BYTES \<and> 0x0A \<in> set (stream_pending s) \<longrightarrow>
        stream_pending s = line @ 0x0A # stream_pending (snd (read_passphrase_line stream_read s)))"
  using stream.read_line_bytes_clean [OF assms(1), of "[]"]
  by (auto simp: read_passphrase_line_def line_def word_def Let_def split: prod.splits if_splits)

theorem passphrase_line_exact_witness:
  "stream_clean [Data [65, 66], Data [0x0D, 0x0A, 123], Data [125]]
   \<and> stream_pending (snd (read_passphrase_line stream_read [Data [65, 66], Data [0x0D, 0x0A, 123], Data [125]]))
       = [123, 125]"
  using passphrase_line_exact [of "[Data [65, 66], Data [0x0D, 0x0A, 123], Data [125]]"]
  by (simp add: MAX_STDIN_PASSPHRASE_BYTES_def)

end
