(* ===== verification/CliArgs.thy ===== *)
theory CliArgs
  imports StoreTypes StdinIO
begin

text \<open>
  The command line of \<open>crates/avault-cli/src/main.rs\<close>: global options, the options of
  \<open>seal\<close>, \<open>deliver run\<close>, \<open>key import\<close> and \<open>agent\<close>, and the exit statuses of a failure.

  An argument is an \<open>OsString\<close>, its bytes; \<open>to_str\<close> is UTF-8 validation. The option loops
  recurse on the arguments that are left, which is what the index into them counts.
\<close>

section \<open>Exit statuses\<close>

(* SRC cli KEYCHAIN_AUTHORIZATION_REQUIRED *)
definition KEYCHAIN_AUTHORIZATION_REQUIRED :: string where
  "KEYCHAIN_AUTHORIZATION_REQUIRED = ''keychain_authorization_required''"

(* SRC cli EXIT_KEYCHAIN_AUTHORIZATION_REQUIRED *)
definition EXIT_KEYCHAIN_AUTHORIZATION_REQUIRED :: byte where
  "EXIT_KEYCHAIN_AUTHORIZATION_REQUIRED = 77"

(* SRC cli EXIT_FAILURE *)
definition EXIT_FAILURE :: byte where
  "EXIT_FAILURE = 70"

(* SRC cli error_code *)
definition error_code :: "err \<Rightarrow> string option" where
  "error_code e =
     (if is_keychain_authorization_required e then Some KEYCHAIN_AUTHORIZATION_REQUIRED else None)"

(* SRC cli error_exit_status *)
definition error_exit_status :: "err \<Rightarrow> byte" where
  "error_exit_status e =
     (if error_code e = Some KEYCHAIN_AUTHORIZATION_REQUIRED
      then EXIT_KEYCHAIN_AUTHORIZATION_REQUIRED else EXIT_FAILURE)"

(* SRC cli main *)
definition main_exit :: "byte res \<Rightarrow> byte" where
  "main_exit r = (case r of Inr status \<Rightarrow> status | Inl e \<Rightarrow> error_exit_status e)"

section \<open>Stores\<close>

(* SRC cli StoreSelection *)
datatype store_selection = SelAuto | SelKeychain | SelTpm | SelFile | SelFilePassphrase

(* SRC cli StoreSelection::parse *)
definition store_selection_parse :: "string \<Rightarrow> store_selection res" where
  "store_selection_parse value =
     (if value = ''auto'' then Inr SelAuto
      else if value = ''keychain'' then Inr SelKeychain
      else if value = ''tpm'' \<or> value = ''tpm2'' then Inr SelTpm
      else if value = ''file'' then Inr SelFile
      else if value = ''file-passphrase'' \<or> value = ''file+passphrase'' \<or> value = ''passphrase''
      then Inr SelFilePassphrase
      else bail ''unknown store backend'')"

(* SRC cli CliConfig *)
record cli_config =
  cfg_store :: store_selection

(* SRC cli StoreUnlock *)
datatype store_unlock = UnlockStandard backend | UnlockFilePassphrase bytes

(* SRC cli read_store_unlock *)
definition read_store_unlock ::
    "cli_config \<Rightarrow> 's read_fn \<Rightarrow> 's \<Rightarrow> store_unlock res \<times> 's" where
  "read_store_unlock config rd s = (case cfg_store config of
       SelAuto \<Rightarrow> (Inr (UnlockStandard Auto), s)
     | SelKeychain \<Rightarrow> (Inr (UnlockStandard Keychain), s)
     | SelTpm \<Rightarrow> (Inr (UnlockStandard Tpm), s)
     | SelFile \<Rightarrow> (Inr (UnlockStandard File), s)
     | SelFilePassphrase \<Rightarrow>
         (let (r, s) = read_passphrase_line rd s
          in (map_res UnlockFilePassphrase
                (with_context ''failed to read store passphrase from stdin'' r), s)))"

section \<open>Options\<close>

type_synonym os_args = "bytes list"

text \<open>\<open>args.get(index + 1).and_then(|s| s.to_str())\<close>.\<close>

definition next_value :: "os_args \<Rightarrow> string option" where
  "next_value rest = (case rest of [] \<Rightarrow> None | v # _ \<Rightarrow> from_utf8 v)"

fun parse_store_flags :: "store_selection \<Rightarrow> os_args \<Rightarrow> (cli_config \<times> os_args) res" where
  "parse_store_flags store [] = Inr (\<lparr>cfg_store = store\<rparr>, [])"
| "parse_store_flags store (arg # rest) =
     (if from_utf8 arg = Some ''--store'' then
        (case rest of
           [] \<Rightarrow> bail ''--store requires a value''
         | v # rest \<Rightarrow>
             and_then (ok_or ''--store requires a value'' (from_utf8 v)) (\<lambda>v.
             and_then (store_selection_parse v) (\<lambda>store. parse_store_flags store rest)))
      else Inr (\<lparr>cfg_store = store\<rparr>, arg # rest))"

(* SRC cli parse_global_options *)
definition parse_global_options :: "environment \<Rightarrow> os_args \<Rightarrow> (cli_config \<times> os_args) res" where
  "parse_global_options env args =
     and_then (case env ''AVAULT_STORE'' of
         None \<Rightarrow> Inr SelAuto
       | Some raw \<Rightarrow> (case from_utf8 raw of
             Some value \<Rightarrow> store_selection_parse value
           | None \<Rightarrow> bail ''AVAULT_STORE must be valid UTF-8''))
       (\<lambda>store. parse_store_flags store args)"

(* SRC cli SealOptions *)
record seal_options =
  so_name :: string
  so_blind_box :: bool

fun parse_seal_from :: "string option \<Rightarrow> bool \<Rightarrow> os_args \<Rightarrow> seal_options res" where
  "parse_seal_from name blind_box [] =
     map_res (\<lambda>n. \<lparr>so_name = n, so_blind_box = blind_box\<rparr>) (ok_or ''--name is required'' name)"
| "parse_seal_from name blind_box (arg # rest) =
     (case from_utf8 arg of
        None \<Rightarrow> bail ''seal options must be valid UTF-8''
      | Some flag \<Rightarrow>
          if flag = ''--name'' then
            (if name \<noteq> None then bail ''--name was provided more than once''
             else case rest of
                 [] \<Rightarrow> bail ''--name requires a value''
               | v # rest \<Rightarrow>
                   and_then (ok_or ''--name requires a value'' (from_utf8 v)) (\<lambda>v.
                   parse_seal_from (Some v) blind_box rest))
          else if flag = ''--blind-box'' then
            (if blind_box then bail ''--blind-box was provided more than once''
             else parse_seal_from name True rest)
          else bail (''unknown seal option: '' @ flag))"

(* SRC cli parse_seal_options *)
definition parse_seal_options :: "os_args \<Rightarrow> seal_options res" where
  "parse_seal_options args = parse_seal_from None False args"

(* SRC cli DeliverRunOptions *)
record deliver_run_options =
  dro_name :: string
  dro_env_name :: string
  dro_envelope_file :: "string option"

fun parse_deliver_run_from ::
    "string option \<Rightarrow> string option \<Rightarrow> string option \<Rightarrow> os_args \<Rightarrow> deliver_run_options res" where
  "parse_deliver_run_from name env_name file [] =
     and_then (ok_or ''--name is required'' name) (\<lambda>n.
     and_then (ok_or ''--env is required'' env_name) (\<lambda>e.
     Inr \<lparr>dro_name = n, dro_env_name = e, dro_envelope_file = file\<rparr>))"
| "parse_deliver_run_from name env_name file (arg # rest) =
     (case from_utf8 arg of
        None \<Rightarrow> bail ''deliver run options must be valid UTF-8''
      | Some flag \<Rightarrow>
          if flag \<noteq> ''--name'' \<and> flag \<noteq> ''--env'' \<and> flag \<noteq> ''--envelope-file''
          then bail (''unknown deliver run option: '' @ flag)
          else if (if flag = ''--name'' then name else if flag = ''--env'' then env_name else file) \<noteq> None
          then bail (flag @ '' was provided more than once'')
          else case rest of
              [] \<Rightarrow> bail (flag @ '' requires a value'')
            | v # rest \<Rightarrow>
                and_then (ok_or (flag @ '' requires a value'') (from_utf8 v)) (\<lambda>v.
                if flag = ''--name'' then parse_deliver_run_from (Some v) env_name file rest
                else if flag = ''--env'' then parse_deliver_run_from name (Some v) file rest
                else parse_deliver_run_from name env_name (Some v) rest))"

(* SRC cli parse_deliver_run_options *)
definition parse_deliver_run_options :: "os_args \<Rightarrow> deliver_run_options res" where
  "parse_deliver_run_options args = parse_deliver_run_from None None None args"

(* SRC cli parse_flag *)
definition parse_flag :: "os_args \<Rightarrow> string \<Rightarrow> bool res" where
  "parse_flag args flag =
     fold (\<lambda>arg r. and_then r (\<lambda>seen.
        if arg = as_bytes flag then Inr True else bail ''unknown option for key import''))
       args (Inr False)"

section \<open>The options of the agent\<close>

(* SRC cli DEFAULT_AGENT_IDLE_TIMEOUT_SECS *)
definition DEFAULT_AGENT_IDLE_TIMEOUT_SECS :: u64 where
  "DEFAULT_AGENT_IDLE_TIMEOUT_SECS = 300"

(* SRC cli AgentOptions *)
record agent_options =
  ao_socket_path :: path
  ao_idle_timeout :: u64
  ao_store :: store_selection
  ao_unlock :: bool

(* SRC cli user_home_dir *)
definition cli_user_home_dir :: "environment \<Rightarrow> path res" where
  "cli_user_home_dir env = ok_or ''HOME is not set'' (env ''HOME'')"

(* SRC cli default_agent_socket_path *)
definition default_agent_socket_path :: "environment \<Rightarrow> path res" where
  "default_agent_socket_path env =
     map_res (\<lambda>home. path_join (path_join (path_join home (as_bytes ''.avibe'')) (as_bytes ''run''))
                (as_bytes ''avault.sock'')) (cli_user_home_dir env)"

fun parse_agent_from ::
    "environment \<Rightarrow> path option \<Rightarrow> u64 \<Rightarrow> store_selection \<Rightarrow> bool \<Rightarrow> os_args \<Rightarrow> agent_options res" where
  "parse_agent_from env socket idle store unlock [] =
     (if unlock \<and> store \<noteq> SelFilePassphrase then bail ''--unlock requires --store file-passphrase''
      else and_then (default_agent_socket_path env) (\<lambda>default.
           Inr \<lparr>ao_socket_path = (case socket of Some p \<Rightarrow> p | None \<Rightarrow> default),
                ao_idle_timeout = idle, ao_store = store, ao_unlock = unlock\<rparr>))"
| "parse_agent_from env socket idle store unlock (arg # rest) =
     (case from_utf8 arg of
        None \<Rightarrow> bail ''agent options must be valid UTF-8''
      | Some flag \<Rightarrow>
          if flag = ''--socket'' then
            (if socket \<noteq> None then bail ''--socket was provided more than once''
             else case rest of
                 [] \<Rightarrow> bail ''--socket requires a value''
               | v # rest \<Rightarrow>
                   and_then (ok_or ''--socket requires a value'' (from_utf8 v)) (\<lambda>v.
                   parse_agent_from env (Some (as_bytes v)) idle store unlock rest))
          else if flag = ''--idle-timeout-secs'' then
            (case rest of
                 [] \<Rightarrow> bail ''--idle-timeout-secs requires a value''
               | v # rest \<Rightarrow>
                   and_then (ok_or ''--idle-timeout-secs requires a value'' (from_utf8 v)) (\<lambda>v.
                   and_then (case parse_u64 v of
                       Some n \<Rightarrow> Inr n
                     | None \<Rightarrow> Inl [Msg ''--idle-timeout-secs must be an integer'', Lib ''ParseIntError''])
                     (\<lambda>secs.
                   if secs = 0 then bail ''--idle-timeout-secs must be positive''
                   else parse_agent_from env socket secs store unlock rest)))
          else if flag = ''--store'' then
            (case rest of
                 [] \<Rightarrow> bail ''--store requires a value''
               | v # rest \<Rightarrow>
                   and_then (ok_or ''--store requires a value'' (from_utf8 v)) (\<lambda>v.
                   and_then (store_selection_parse v) (\<lambda>store.
                   parse_agent_from env socket idle store unlock rest)))
          else if flag = ''--unlock'' then
            (if unlock then bail ''--unlock was provided more than once''
             else parse_agent_from env socket idle store True rest)
          else bail (''unknown agent option: '' @ flag))"

(* SRC cli parse_agent_options *)
definition parse_agent_options ::
    "environment \<Rightarrow> os_args \<Rightarrow> cli_config \<Rightarrow> agent_options res" where
  "parse_agent_options env args config =
     parse_agent_from env None DEFAULT_AGENT_IDLE_TIMEOUT_SECS (cfg_store config) False args"

section \<open>Lemmas\<close>

definition arg :: "string \<Rightarrow> bytes" where
  "arg s = as_bytes s"

lemma from_utf8_flag:
  "from_utf8 a = Some s \<Longrightarrow> a = arg s"
  by (simp add: from_utf8_eq_Some arg_def)

lemma from_utf8_arg_ascii:
  "list_all (\<lambda>c. code c < 128) s \<Longrightarrow> from_utf8 (arg s) = Some s"
proof -
  assume "list_all (\<lambda>c. code c < 128) s"
  then have "list_all (\<lambda>b. unat b < 128) (as_bytes s)"
    by (induction s) (simp_all add: as_bytes_Cons code_def)
  then show ?thesis by (simp add: arg_def from_utf8_as_bytes utf8_valid_ascii)
qed

lemma parse_agent_from_ok:
  assumes "parse_agent_from env socket idle store unlock args = Inr opts" "idle \<noteq> 0"
  shows "ao_idle_timeout opts \<noteq> 0 \<and> (ao_unlock opts \<longrightarrow> ao_store opts = SelFilePassphrase)
    \<and> env ''HOME'' \<noteq> None"
  using assms
proof (induction env socket idle store unlock args rule: parse_agent_from.induct)
  case (1 env socket idle store unlock)
  then show ?case
    by (auto simp: res_simps default_agent_socket_path_def cli_user_home_dir_def split: if_splits)
next
  case (2 env socket idle store unlock a rest)
  then show ?case
    by (auto simp: res_simps split: option.splits if_splits list.splits)
qed

lemma from_utf8_eq_flag:
  "from_utf8 a = Some ''--name'' \<longleftrightarrow> a = arg ''--name''"
  "from_utf8 a = Some ''--blind-box'' \<longleftrightarrow> a = arg ''--blind-box''"
  using from_utf8_arg_ascii [of "''--name''"] from_utf8_arg_ascii [of "''--blind-box''"]
    from_utf8_flag [of a] by (auto simp: code_def)

lemma parse_seal_named_blind:
  "parse_seal_from (Some n) True args = Inr opts \<longleftrightarrow> args = [] \<and> opts = \<lparr>so_name = n, so_blind_box = True\<rparr>"
  by (cases args) (auto split: option.splits)

lemma parse_seal_named:
  "parse_seal_from (Some n) False args = Inr opts \<longleftrightarrow>
     (args = [] \<and> opts = \<lparr>so_name = n, so_blind_box = False\<rparr>)
     \<or> (args = [arg ''--blind-box''] \<and> opts = \<lparr>so_name = n, so_blind_box = True\<rparr>)"
  by (cases args)
    (auto simp: parse_seal_named_blind from_utf8_eq_flag [symmetric] split: option.splits if_splits)

lemma parse_seal_blind:
  "parse_seal_from None True args = Inr opts \<longleftrightarrow>
     (\<exists>v n. from_utf8 v = Some n \<and> args = [arg ''--name'', v]
        \<and> opts = \<lparr>so_name = n, so_blind_box = True\<rparr>)"
proof (cases args)
  case (Cons a rest)
  show ?thesis
  proof (cases rest)
    case (Cons v rest')
    show ?thesis unfolding \<open>args = _\<close> Cons
      by (auto simp: parse_seal_named_blind res_simps from_utf8_eq_flag [symmetric]
          split: option.splits if_splits)
  qed (use Cons in \<open>auto split: option.splits if_splits\<close>)
qed simp

lemma parse_seal_start:
  "parse_seal_from None False args = Inr opts \<longleftrightarrow>
     (\<exists>v rest n. from_utf8 v = Some n \<and> args = arg ''--name'' # v # rest
        \<and> parse_seal_from (Some n) False rest = Inr opts)
     \<or> (\<exists>rest. args = arg ''--blind-box'' # rest \<and> parse_seal_from None True rest = Inr opts)"
proof (cases args)
  case (Cons a rest)
  show ?thesis unfolding Cons
    by (cases rest) (auto simp: res_simps from_utf8_eq_flag [symmetric] split: option.splits if_splits)
qed simp

section \<open>Properties\<close>

text \<open>
  The command lines \<open>seal\<close> accepts are exactly three: a name alone, and a name with
  \<open>--blind-box\<close> before or after it, the name being any UTF-8 argument (one that looks like a
  flag included). Every other argument list is an error.
\<close>

theorem seal_options_exact:
  "parse_seal_options args = Inr opts \<longleftrightarrow>
     (\<exists>v. from_utf8 v = Some (so_name opts)
        \<and> (if so_blind_box opts
           then args = [arg ''--name'', v, arg ''--blind-box'']
                \<or> args = [arg ''--blind-box'', arg ''--name'', v]
           else args = [arg ''--name'', v]))"
  unfolding parse_seal_options_def parse_seal_start parse_seal_named parse_seal_blind
  by (cases opts) auto

text \<open>
  Whatever arguments the agent is started with, if they are accepted the idle timeout is
  positive, \<open>--unlock\<close> comes with the passphrase store, and \<open>HOME\<close> is set: the default
  socket path is computed first even when \<open>--socket\<close> gives one, so an agent started with an
  explicit socket in an environment without \<open>HOME\<close> does not start.
\<close>

theorem agent_options_checked:
  "(case parse_agent_options env args config of
      Inl _ \<Rightarrow> True
    | Inr opts \<Rightarrow> 0 < ao_idle_timeout opts
        \<and> (if ao_unlock opts then ao_store opts = SelFilePassphrase else True) \<and> env ''HOME'' \<noteq> None)
   \<and> parse_agent_options Map.empty [arg ''--socket'', arg ''/run/a.sock''] config
      = bail ''HOME is not set''"
proof -
  have "parse_agent_options Map.empty [arg ''--socket'', arg ''/run/a.sock''] config
      = bail ''HOME is not set''"
    by (simp add: parse_agent_options_def from_utf8_arg_ascii code_def default_agent_socket_path_def
        cli_user_home_dir_def)
  moreover have "0 < ao_idle_timeout opts \<and> (ao_unlock opts \<longrightarrow> ao_store opts = SelFilePassphrase)
      \<and> env ''HOME'' \<noteq> None" if "parse_agent_options env args config = Inr opts" for opts
    using parse_agent_from_ok [OF that [unfolded parse_agent_options_def]]
    by (simp add: DEFAULT_AGENT_IDLE_TIMEOUT_SECS_def word_greater_zero_iff)
  ultimately show ?thesis by (auto split: sum.split)
qed

end
