(* ===== verification/Rendering.thy ===== *)
theory Rendering
  imports KeyImportJson
begin

text \<open>
  How \<open>crates/avault-cli/src/main.rs\<close> writes an opened secret somewhere: the checks of
  names and values, the dotenv and JSON files of \<open>deliver inject\<close>, and the header credential
  and the query parameter of \<open>deliver fetch\<close>. The reading side (a POSIX shell word, a decoded
  query component) is specified here, to state that what is written reads back.
\<close>

section \<open>Names and values\<close>

(* SRC cli OpenedSecret *)
record opened_secret =
  os_name :: string
  os_plaintext :: bytes

definition shell_first :: "char \<Rightarrow> bool" where
  "shell_first c \<longleftrightarrow> c = CHR ''_'' \<or> is_ascii_uppercase c \<or> is_ascii_lowercase c"

definition shell_rest :: "char \<Rightarrow> bool" where
  "shell_rest c \<longleftrightarrow> c = CHR ''_'' \<or> is_ascii_uppercase c \<or> is_ascii_lowercase c \<or> is_ascii_digit c"

(* SRC cli validate_shell_name *)
definition validate_shell_name :: "string \<Rightarrow> string \<Rightarrow> unit res" where
  "validate_shell_name name label =
     (case name of
        [] \<Rightarrow> bail (''invalid '' @ label)
      | c # rest \<Rightarrow>
          if \<not> shell_first c then bail (''invalid '' @ label)
          else if \<not> list_all shell_rest rest then bail (''invalid '' @ label)
          else Inr ())"

(* SRC cli validate_env_value *)
definition validate_env_value :: "bytes \<Rightarrow> unit res" where
  "validate_env_value value =
     (if from_utf8 value = None
      then Inl [Msg ''secret value is not valid UTF-8 for env delivery'', Lib ''Utf8Error'']
      else if 0 \<in> set value
      then bail ''secret value contains a NUL byte and cannot be delivered as an env var''
      else Inr ())"

(* SRC cli secret_utf8 *)
definition secret_utf8 :: "bytes \<Rightarrow> string \<Rightarrow> string res" where
  "secret_utf8 bs label =
     (if 0 \<in> set bs then bail (label @ '' contains NUL byte'')
      else case from_utf8 bs of
          None \<Rightarrow> Inl [Msg (label @ '' is not valid UTF-8''), Lib ''Utf8Error'']
        | Some s \<Rightarrow> Inr s)"

section \<open>The dotenv file\<close>

text \<open>The single quote and the backslash, and what a quote inside a value becomes.\<close>

definition squote :: char where "squote = CHR 0x27"
definition bslash :: char where "bslash = CHR 0x5C"
definition newline :: char where "newline = CHR 0x0A"

definition shell_quote_char :: "char \<Rightarrow> string" where
  "shell_quote_char c = (if c = squote then [squote, bslash, squote, squote] else [c])"

(* SRC cli write_shell_quoted *)
definition write_shell_quoted :: "bytes \<Rightarrow> string \<Rightarrow> bytes" where
  "write_shell_quoted out value =
     (let out = out @ as_bytes [squote];
          out = fold (\<lambda>c out. out @ as_bytes (shell_quote_char c)) value out
      in out @ as_bytes [squote])"

definition render_dotenv_entry :: "opened_secret \<Rightarrow> bytes res \<Rightarrow> bytes res" where
  "render_dotenv_entry secret r = and_then r (\<lambda>out.
     and_then (secret_utf8 (os_plaintext secret) ''dotenv value'') (\<lambda>value.
     Inr (write_shell_quoted (out @ as_bytes (os_name secret @ ''='')) value @ as_bytes [newline])))"

(* SRC cli render_dotenv *)
definition render_dotenv :: "opened_secret list \<Rightarrow> bytes res" where
  "render_dotenv secrets = fold render_dotenv_entry secrets (Inr [])"

section \<open>The JSON file\<close>

(* SRC cli write_json_string *)
definition write_json_string :: "(string \<Rightarrow> string) \<Rightarrow> bytes \<Rightarrow> string \<Rightarrow> bytes" where
  \<comment> \<open>\<open>serde_json::to_writer\<close> of a string into a vector does not fail.\<close>
  "write_json_string to_json out value = out @ as_bytes (to_json value)"

fun render_json_entries :: "(string \<Rightarrow> string) \<Rightarrow> opened_secret list \<Rightarrow> bytes \<Rightarrow> bytes res" where
  "render_json_entries to_json [] out = Inr out"
| "render_json_entries to_json (secret # rest) out =
     and_then (secret_utf8 (os_plaintext secret) ''json value'') (\<lambda>value.
     let out = out @ as_bytes ''  '' @ as_bytes (to_json (os_name secret)) @ as_bytes '': '';
         out = write_json_string to_json out value;
         out = (if rest \<noteq> [] then out @ as_bytes '','' else out)
     in render_json_entries to_json rest (out @ as_bytes [newline]))"

(* SRC cli render_json *)
definition render_json :: "(string \<Rightarrow> string) \<Rightarrow> opened_secret list \<Rightarrow> bytes res" where
  "render_json to_json secrets =
     and_then (render_json_entries to_json secrets (as_bytes [CHR ''{'', newline])) (\<lambda>out.
     Inr (out @ as_bytes [CHR ''}'', newline]))"

(* SRC cli render_inject_file *)
definition render_inject_file ::
    "(string \<Rightarrow> string) \<Rightarrow> opened_secret list \<Rightarrow> string \<Rightarrow> bytes res" where
  "render_inject_file to_json secrets format =
     (if format = ''dotenv'' then render_dotenv secrets
      else if format = ''json'' then render_json to_json secrets
      else bail ''deliver inject format is not implemented in P1.1'')"

section \<open>Credentials of a request\<close>

(* SRC cli is_http_control_byte *)
definition is_http_control_byte :: "byte \<Rightarrow> bool" where
  "is_http_control_byte b \<longleftrightarrow> b < 0x20 \<or> b = 0x7F"

(* SRC cli fetch_header_credential_bytes *)
definition fetch_header_credential_bytes :: "bytes \<Rightarrow> string \<Rightarrow> bytes res" where
  "fetch_header_credential_bytes bs label =
     (let trimmed = (if bs \<noteq> [] \<and> (last bs = 0x0D \<or> last bs = 0x0A) then butlast bs else bs)
      in if \<not> list_all (\<lambda>b. b < 0x80) trimmed then bail (label @ '' contains non-ASCII byte'')
         else if list_ex is_http_control_byte trimmed
         then bail (label @ '' contains invalid HTTP header byte'')
         else Inr trimmed)"

definition hex_upper :: "nat \<Rightarrow> char" where
  "hex_upper n = ''0123456789ABCDEF'' ! n"

definition query_unreserved :: "byte \<Rightarrow> bool" where
  "query_unreserved b \<longleftrightarrow>
     (ascii CHR ''A'' \<le> b \<and> b \<le> ascii CHR ''Z'') \<or> (ascii CHR ''a'' \<le> b \<and> b \<le> ascii CHR ''z'')
     \<or> (ascii CHR ''0'' \<le> b \<and> b \<le> ascii CHR ''9'')
     \<or> b = ascii CHR ''-'' \<or> b = ascii CHR ''.'' \<or> b = ascii CHR ''_'' \<or> b = ascii CHR ''~''"

definition query_encode_byte :: "byte \<Rightarrow> string" where
  "query_encode_byte b =
     (if query_unreserved b then [char_of (unat b)]
      else if b = ascii CHR '' '' then ''+''
      else [CHR ''%'', hex_upper (unat (drop_bit 4 b)), hex_upper (unat (and b 0x0F))])"

(* SRC cli push_query_encoded *)
definition push_query_encoded :: "string \<Rightarrow> string \<Rightarrow> string" where
  "push_query_encoded out value = fold (\<lambda>b out. out @ query_encode_byte b) (as_bytes value) out"

(* SRC cli encoded_query_len *)
definition encoded_query_len :: "string \<Rightarrow> nat" where
  "encoded_query_len value =
     sum_list (map (\<lambda>b. if query_unreserved b \<or> b = ascii CHR '' '' then 1 else 3) (as_bytes value))"

(* SRC cli build_secret_query_url *)
definition build_secret_query_url ::
    "(string \<Rightarrow> bool) \<Rightarrow> string \<Rightarrow> string \<Rightarrow> string \<Rightarrow> string res" where
  \<comment> \<open>\<open>url_valid\<close> is whether \<open>Url::parse\<close> accepts the text.\<close>
  "build_secret_query_url url_valid url name value =
     (if \<not> url_valid url then Inl [Msg ''fetch url is invalid'', Lib ''url'']
      else let base = takeWhile (\<lambda>c. c \<noteq> CHR ''#'') url;
               fragment = dropWhile (\<lambda>c. c \<noteq> CHR ''#'') url;
               separator = (if contains_char base CHR ''?'' then CHR ''&'' else CHR ''?'');
               out = base @ [separator];
               out = push_query_encoded out name @ ''='';
               out = push_query_encoded out value
           in Inr (out @ fragment))"

section \<open>A POSIX shell reading assignments\<close>

text \<open>
  The part of the shell's grammar that matters, kept strict: outside quotes a word holds
  only backslash escapes, and ends at a newline; between single quotes every character stands
  for itself.
\<close>

fun sh_word :: "bool \<Rightarrow> string \<Rightarrow> string \<Rightarrow> (string \<times> string) option" where
  "sh_word quoted acc [] = None"
| "sh_word quoted acc (c # r) =
     (if quoted then if c = squote then sh_word False acc r else sh_word True (acc @ [c]) r
      else if c = newline then Some (acc, r)
      else if c = squote then sh_word True acc r
      else if c = bslash then (case r of [] \<Rightarrow> None | d # r \<Rightarrow> sh_word False (acc @ [d]) r)
      else None)"

definition sh_assignment :: "string \<Rightarrow> ((string \<times> string) \<times> string) option" where
  "sh_assignment s =
     (let name = takeWhile shell_rest s
      in case dropWhile shell_rest s of
           [] \<Rightarrow> None
         | c # r \<Rightarrow>
             if c = CHR ''='' \<and> name \<noteq> [] \<and> shell_first (hd name)
             then map_option (\<lambda>(v, r). ((name, v), r)) (sh_word False [] r) else None)"

text \<open>A script of \<open>n\<close> assignments and nothing else.\<close>

fun sh_script :: "nat \<Rightarrow> string \<Rightarrow> (string \<times> string) list option" where
  "sh_script 0 s = (if s = [] then Some [] else None)"
| "sh_script (Suc n) s =
     (case sh_assignment s of
        None \<Rightarrow> None
      | Some (nv, r) \<Rightarrow> map_option (\<lambda>nvs. nv # nvs) (sh_script n r))"

definition shell_quoted :: "string \<Rightarrow> string" where
  "shell_quoted v = squote # concat (map shell_quote_char v) @ [squote]"

lemma fold_append: "fold (\<lambda>x out. out @ f x) xs out = out @ concat (map f xs)"
  by (induction xs arbitrary: out) simp_all

lemma as_bytes_concat: "as_bytes (concat xs) = concat (map as_bytes xs)"
  by (induction xs) simp_all

lemma write_shell_quoted_eq: "write_shell_quoted out v = out @ as_bytes (shell_quoted v)"
proof -
  have "concat (map (\<lambda>c. as_bytes (shell_quote_char c)) v) = as_bytes (concat (map shell_quote_char v))"
    by (simp add: as_bytes_concat comp_def)
  then show ?thesis
    by (simp add: write_shell_quoted_def Let_def fold_append shell_quoted_def as_bytes_Cons)
qed

lemma sh_word_quoted:
  "sh_word True acc (concat (map shell_quote_char v) @ squote # newline # r) = Some (acc @ v, r)"
proof (induction v arbitrary: acc)
  case Nil
  then show ?case by (simp add: newline_def squote_def)
next
  case (Cons c v)
  then show ?case
    by (simp add: shell_quote_char_def newline_def squote_def bslash_def)
qed

lemma sh_word_shell_quoted: "sh_word False [] (shell_quoted v @ newline # r) = Some (v, r)"
  using sh_word_quoted [of "[]" v r]
  by (simp add: shell_quoted_def newline_def squote_def)

lemma validate_shell_name_iff:
  "validate_shell_name name label = Inr () \<longleftrightarrow>
     name \<noteq> [] \<and> shell_first (hd name) \<and> list_all shell_rest name"
proof (cases name)
  case (Cons c rest)
  have "shell_first c \<Longrightarrow> shell_rest c" by (auto simp: shell_first_def shell_rest_def)
  with Cons show ?thesis by (auto simp: validate_shell_name_def)
qed (simp add: validate_shell_name_def)

lemma not_shell_rest_equals: "\<not> shell_rest CHR ''=''"
  by (simp add: shell_rest_def is_ascii_uppercase_def is_ascii_lowercase_def is_ascii_digit_def code_def)

lemma sh_assignment_line:
  assumes "validate_shell_name name label = Inr ()"
  shows "sh_assignment (name @ ''='' @ shell_quoted v @ newline # r) = Some ((name, v), r)"
proof -
  have all: "list_all shell_rest name" "name \<noteq> []" "shell_first (hd name)"
    using assms validate_shell_name_iff by auto
  then have "takeWhile shell_rest (name @ ''='' @ shell_quoted v @ newline # r) = name"
    and "dropWhile shell_rest (name @ ''='' @ shell_quoted v @ newline # r)
      = ''='' @ shell_quoted v @ newline # r"
    by (simp_all add: takeWhile_append2 list_all_iff dropWhile_append2 not_shell_rest_equals)
  with all show ?thesis by (simp add: sh_assignment_def Let_def sh_word_shell_quoted)
qed

section \<open>The dotenv file as text\<close>

definition dotenv_line :: "string \<Rightarrow> string \<Rightarrow> string" where
  "dotenv_line name v = name @ ''='' @ shell_quoted v @ [newline]"

definition plain_value :: "opened_secret \<Rightarrow> string option" where
  "plain_value s = (if 0 \<in> set (os_plaintext s) then None else from_utf8 (os_plaintext s))"

lemma secret_utf8_eq_Inr: "secret_utf8 bs label = Inr v \<longleftrightarrow> 0 \<notin> set bs \<and> from_utf8 bs = Some v"
  by (auto simp: secret_utf8_def res_simps)

lemma fold_and_then_Inl: "fold (\<lambda>x r. and_then r (f x)) xs (Inl e) = Inl e"
  by (induction xs) simp_all

lemma plain_value_eq_Some:
  "plain_value s = Some v \<longleftrightarrow> secret_utf8 (os_plaintext s) label = Inr v"
  by (simp add: plain_value_def secret_utf8_eq_Inr)

lemma render_dotenv_entry_Inr:
  "render_dotenv_entry s (Inr out) = Inr out' \<longleftrightarrow>
     (\<exists>v. plain_value s = Some v \<and> out' = out @ as_bytes (dotenv_line (os_name s) v))"
  by (auto simp: render_dotenv_entry_def plain_value_eq_Some [where label = "''dotenv value''"]
      res_simps write_shell_quoted_eq dotenv_line_def as_bytes_Cons)

lemma render_dotenv_entry_Inl: "fold render_dotenv_entry secrets (Inl e) = Inl e"
  by (induction secrets) (simp_all add: render_dotenv_entry_def)

lemma render_dotenv_from:
  "fold render_dotenv_entry secrets (Inr out) = Inr v \<longleftrightarrow>
   (\<exists>vs. list_all2 (\<lambda>s v. plain_value s = Some v) secrets vs
     \<and> v = out @ as_bytes (concat (map2 dotenv_line (map os_name secrets) vs)))"
proof (induction secrets arbitrary: out)
  case Nil
  then show ?case by auto
next
  case (Cons s secrets)
  show ?case
  proof (cases "render_dotenv_entry s (Inr out)")
    case (Inl e)
    then have "plain_value s = None"
      using render_dotenv_entry_Inr [of s out "out @ as_bytes (dotenv_line (os_name s) (the (plain_value s)))"]
      by (cases "plain_value s") auto
    with Inl show ?thesis by (auto simp: render_dotenv_entry_Inl list_all2_Cons1)
  next
    case (Inr out')
    then obtain x where "plain_value s = Some x" "out' = out @ as_bytes (dotenv_line (os_name s) x)"
      using render_dotenv_entry_Inr by auto
    with Inr show ?thesis by (auto simp: Cons.IH list_all2_Cons1)
  qed
qed

lemma sh_script_lines:
  assumes "list_all (\<lambda>s. validate_shell_name (os_name s) label = Inr ()) secrets"
    and "length vs = length secrets"
  shows "sh_script (length secrets) (concat (map2 dotenv_line (map os_name secrets) vs))
    = Some (zip (map os_name secrets) vs)"
  using assms
proof (induction secrets arbitrary: vs)
  case Nil
  then show ?case by simp
next
  case (Cons s secrets)
  then obtain v vs' where vs: "vs = v # vs'" by (cases vs) auto
  have "sh_assignment (dotenv_line (os_name s) v @ r) = Some ((os_name s, v), r)" for r
    using sh_assignment_line [of "os_name s" label v r] Cons.prems(1) by (simp add: dotenv_line_def)
  with Cons vs show ?case by simp
qed

section \<open>Queries\<close>

text \<open>The decoder of \<open>application/x-www-form-urlencoded\<close>.\<close>

definition hex_upper_value :: "char \<Rightarrow> nat" where
  "hex_upper_value c = (if is_ascii_digit c then code c - 48 else code c - 55)"

fun query_decode :: "string \<Rightarrow> bytes option" where
  "query_decode [] = Some []"
| "query_decode (c # r) =
     (if c = CHR ''+'' then map_option (\<lambda>bs. ascii CHR '' '' # bs) (query_decode r)
      else if c = CHR ''%'' then
        (case r of
           h # l # r \<Rightarrow> map_option (\<lambda>bs. byte_of (hex_upper_value h * 16 + hex_upper_value l) # bs) (query_decode r)
         | _ \<Rightarrow> None)
      else map_option (\<lambda>bs. of_nat (of_char c) # bs) (query_decode r))"

definition query_encode :: "string \<Rightarrow> string" where
  "query_encode v = concat (map query_encode_byte (as_bytes v))"

lemma push_query_encoded_eq: "push_query_encoded out v = out @ query_encode v"
  by (simp add: push_query_encoded_def query_encode_def fold_append)

lemma hex_upper_value [simp]: "n < 16 \<Longrightarrow> hex_upper_value (hex_upper n) = n"
proof -
  assume "n < 16"
  then have "n \<in> {0..<16}" by simp
  then have "n \<in> set [0..<16]" by simp
  then show ?thesis
    by (auto simp: upt_rec hex_upper_def hex_upper_value_def is_ascii_digit_def code_def)
qed

lemma high_nibble: "unat (drop_bit 4 (b :: byte)) = unat b div 16"
  by (simp add: drop_bit_eq_div unat_div_distrib)

lemma low_nibble: "unat (and (b :: byte) 0x0F) = unat b mod 16"
proof -
  have "and b 0x0F = take_bit 4 b" by (simp add: take_bit_eq_mask numeral_eq_Suc mask_Suc_exp)
  then show ?thesis by (simp add: take_bit_eq_mod unat_mod_distrib)
qed

lemma query_unreserved_code:
  "query_unreserved b \<longleftrightarrow> (65 \<le> unat b \<and> unat b \<le> 90) \<or> (97 \<le> unat b \<and> unat b \<le> 122)
     \<or> (48 \<le> unat b \<and> unat b \<le> 57) \<or> unat b \<in> {45, 46, 95, 126}"
  by (simp add: query_unreserved_def word_le_nat_alt word_unat_eq_iff)

lemma query_decode_byte:
  "query_decode (query_encode_byte b @ r) = map_option (\<lambda>bs. b # bs) (query_decode r)"
proof -
  have b: "unat b < 256" by simp
  consider "query_unreserved b" | "\<not> query_unreserved b" "b = 32" | "\<not> query_unreserved b" "b \<noteq> 32"
    by blast
  then show ?thesis
  proof cases
    case 1
    then have "char_of (unat b) \<noteq> CHR ''+''" "char_of (unat b) \<noteq> CHR ''%''"
      using b by (auto simp: query_unreserved_code dest!: arg_cong [of _ _ code])
        (simp_all add: code_def)
    with 1 show ?thesis by (simp add: query_encode_byte_def)
  next
    case 2
    then show ?thesis by (simp add: query_encode_byte_def)
  next
    case 3
    have "unat b div 16 < 16" "unat b mod 16 < 16" using b by (simp_all add: less_mult_imp_div_less)
    moreover have "byte_of (unat b div 16 * 16 + unat b mod 16) = b"
      by (simp add: byte_of_def div_mult_mod_eq)
    ultimately show ?thesis using 3 by (simp add: query_encode_byte_def high_nibble low_nibble)
  qed
qed

lemma query_roundtrip: "query_decode (query_encode v) = Some (as_bytes v)"
proof -
  have "query_decode (concat (map query_encode_byte bs)) = Some bs" for bs
    by (induction bs) (simp_all add: query_decode_byte)
  then show ?thesis by (simp add: query_encode_def)
qed

text \<open>The characters a query component can hold without changing its meaning.\<close>

definition query_safe :: "char \<Rightarrow> bool" where
  "query_safe c \<longleftrightarrow> query_unreserved (of_nat (of_char c)) \<or> c = CHR ''+'' \<or> c = CHR ''%''"

lemma hex_upper_safe: "n < 16 \<Longrightarrow> query_safe (hex_upper n)"
proof -
  assume "n < 16"
  then have "n \<in> set [0..<16]" by simp
  then show ?thesis by (auto simp: upt_rec hex_upper_def query_safe_def query_unreserved_code)
qed

lemma query_encode_safe: "list_all query_safe (query_encode v)"
proof -
  have "list_all query_safe (query_encode_byte b)" for b
  proof -
    have "unat b < 256" by simp
    then have "unat b div 16 < 16" "unat b mod 16 < 16" by (simp_all add: less_mult_imp_div_less)
    moreover have "query_unreserved b \<Longrightarrow> query_safe (char_of (unat b))"
      by (simp add: query_safe_def)
    ultimately show ?thesis
      by (simp add: query_encode_byte_def high_nibble low_nibble hex_upper_safe)
        (simp add: query_safe_def)
  qed
  then show ?thesis by (simp add: query_encode_def list_all_iff)
qed

lemma length_query_encode: "length (query_encode v) = encoded_query_len v"
proof -
  have "length (query_encode_byte b) = (if query_unreserved b \<or> b = ascii CHR '' '' then 1 else 3)" for b
    by (simp add: query_encode_byte_def)
  then show ?thesis
    by (simp only: query_encode_def encoded_query_len_def length_concat map_map comp_def)
qed

section \<open>Properties\<close>

text \<open>
  C40. The dotenv file gives every value back and nothing else: with the target names the code admitted
  it is rendered exactly when every value is UTF-8 without a zero byte, and a shell that reads the file
  then makes precisely those assignments, in order, each to the unchanged value; no byte of a value is
  interpreted.
\<close>

theorem dotenv_reads_back:
  assumes "list_all (\<lambda>s. validate_shell_name (os_name s) label = Inr ()) secrets"
  shows "case render_dotenv secrets of
      Inl _ \<Rightarrow> \<not> list_all (\<lambda>s. from_utf8 (os_plaintext s) \<noteq> None \<and> 0 \<notin> set (os_plaintext s)) secrets
    | Inr out \<Rightarrow>
        list_all (\<lambda>s. from_utf8 (os_plaintext s) \<noteq> None \<and> 0 \<notin> set (os_plaintext s)) secrets \<and>
        (\<exists>vs. list_all2 (\<lambda>s v. os_plaintext s = as_bytes v) secrets vs \<and>
           sh_script (length secrets) (string_of out) = Some (zip (map os_name secrets) vs))"
proof -
  have plain: "from_utf8 (os_plaintext s) \<noteq> None \<and> 0 \<notin> set (os_plaintext s) \<longleftrightarrow> (\<exists>v. plain_value s = Some v)" for s
    by (auto simp: plain_value_def)
  show ?thesis
  proof (cases "render_dotenv secrets")
    case (Inl e)
    have "\<not> list_all (\<lambda>s. \<exists>v. plain_value s = Some v) secrets"
    proof
      assume "list_all (\<lambda>s. \<exists>v. plain_value s = Some v) secrets"
      then have "list_all2 (\<lambda>s v. plain_value s = Some v) secrets (map (\<lambda>s. the (plain_value s)) secrets)"
        by (induction secrets) auto
      then have "\<exists>out. render_dotenv secrets = Inr out" unfolding render_dotenv_def render_dotenv_from by blast
      then show False using Inl by simp
    qed
    then show ?thesis unfolding plain using Inl by simp
  next
    case (Inr out)
    then obtain vs where vs: "list_all2 (\<lambda>s v. plain_value s = Some v) secrets vs"
      and out: "out = as_bytes (concat (map2 dotenv_line (map os_name secrets) vs))"
      unfolding render_dotenv_def render_dotenv_from by auto
    have "list_all (\<lambda>s. \<exists>v. plain_value s = Some v) secrets" using vs by (induction rule: list_all2_induct) auto
    moreover from vs have "list_all2 (\<lambda>s v. os_plaintext s = as_bytes v) secrets vs"
      by (rule list_all2_mono) (auto simp: plain_value_def from_utf8_eq_Some split: if_splits)
    moreover have "length vs = length secrets" using vs by (simp add: list_all2_lengthD)
    ultimately show ?thesis unfolding plain using sh_script_lines [OF assms] Inr out by auto
  qed
qed

definition sample_secret :: opened_secret where
  "sample_secret = \<lparr>os_name = ''A'', os_plaintext = as_bytes [squote, CHR ''$'', newline]\<rparr>"

theorem dotenv_reads_back_witness:
  "\<exists>vs. list_all2 (\<lambda>s v. os_plaintext s = as_bytes v) [sample_secret] vs
    \<and> sh_script (length [sample_secret])
        (string_of (as_bytes (dotenv_line ''A'' [squote, CHR ''$'', newline])))
      = Some (zip (map os_name [sample_secret]) vs)"
proof -
  have "from_utf8 (as_bytes [squote, CHR ''$'', newline]) = Some [squote, CHR ''$'', newline]"
    by (rule from_utf8_as_bytes) (simp add: as_bytes_Cons squote_def newline_def)
  then have run: "render_dotenv [sample_secret]
      = Inr (as_bytes (dotenv_line ''A'' [squote, CHR ''$'', newline]))"
    by (simp add: render_dotenv_def render_dotenv_entry_def secret_utf8_def sample_secret_def
        write_shell_quoted_eq dotenv_line_def)
      (simp add: as_bytes_Cons squote_def newline_def)
  have "list_all (\<lambda>s. validate_shell_name (os_name s) ''x'' = Inr ()) [sample_secret]"
    by (simp add: sample_secret_def validate_shell_name_def shell_first_def is_ascii_uppercase_def code_def)
  from dotenv_reads_back [OF this] show ?thesis unfolding run sum.case by blast
qed

text \<open>
  A query credential is attached without touching the rest of the URL: the result is the
  URL up to its fragment, a separator that fits (\<open>&\<close> behind an existing query, \<open>?\<close>
  otherwise), the encoded name, \<open>=\<close>, the encoded value and the fragment; the encoded parts hold
  only unreserved characters, \<open>+\<close> and \<open>%\<close>, so no separator can come from a secret, decode
  back to the given bytes, and have the length computed for the buffer.
\<close>

theorem query_credential_exact:
  "(build_secret_query_url url_valid url name v =
      (if url_valid url
       then let base = takeWhile (\<lambda>c. c \<noteq> CHR ''#'') url
            in Inr (base @ (if contains_char base CHR ''?'' then ''&'' else ''?'')
                 @ query_encode name @ ''='' @ query_encode v @ dropWhile (\<lambda>c. c \<noteq> CHR ''#'') url)
       else Inl [Msg ''fetch url is invalid'', Lib ''url'']))
   \<and> list_all query_safe (query_encode v) \<and> query_decode (query_encode v) = Some (as_bytes v)
   \<and> length (push_query_encoded [] v) = encoded_query_len v"
  by (simp add: build_secret_query_url_def Let_def push_query_encoded_eq query_encode_safe
      query_roundtrip length_query_encode)

text \<open>
  A header credential cannot split a header: it is accepted exactly when, less at most one
  final carriage return or newline, every byte is visible ASCII or a space, and what is sent is
  that text. In particular a secret that ends with a carriage return and a newline is refused.
\<close>

theorem header_credential_exact:
  "(fetch_header_credential_bytes bs label = Inr c \<longleftrightarrow>
      c = (if bs \<noteq> [] \<and> last bs \<in> {0x0D, 0x0A} then butlast bs else bs)
      \<and> list_all (\<lambda>b. 0x20 \<le> b \<and> b < 0x7F) c)
   \<and> \<not> is_ok (fetch_header_credential_bytes (bs @ [0x0D, 0x0A]) label)"
proof -
  have ok: "(\<not> \<not> list_all (\<lambda>b. b < 0x80) t \<and> \<not> list_ex is_http_control_byte t)
      \<longleftrightarrow> list_all (\<lambda>b. 0x20 \<le> b \<and> b < 0x7F) t" for t :: bytes
    by (induction t) (auto simp: is_http_control_byte_def word_le_nat_alt word_less_nat_alt
        word_unat_eq_iff)
  have "fetch_header_credential_bytes bs label = Inr c \<longleftrightarrow>
      c = (if bs \<noteq> [] \<and> last bs \<in> {0x0D, 0x0A} then butlast bs else bs)
      \<and> list_all (\<lambda>b. 0x20 \<le> b \<and> b < 0x7F) c"
    unfolding ok [symmetric]
    by (auto simp: fetch_header_credential_bytes_def Let_def split: if_splits)
  moreover have "\<not> is_ok (fetch_header_credential_bytes (bs @ [0x0D, 0x0A]) label)"
    by (simp add: fetch_header_credential_bytes_def Let_def is_http_control_byte_def butlast_append)
  ultimately show ?thesis by blast
qed

end
