(* ===== verification/Fetch.thy ===== *)
theory Fetch
  imports Rendering BlindBox
begin

text \<open>
  \<open>deliver fetch\<close> of \<open>crates/avault-cli/src/main.rs\<close>: the request and its policy, the
  attachment of the credential, the call, and the redaction of the response.

  The packages \<open>url\<close> and \<open>ureq\<close> are parameters: parsing a URL and sending a request. So are
  parsing and printing an IPv6 address. The maps of headers are association lists in their
  iteration order (\<open>BTreeMap\<close> iterates by key).
\<close>

section \<open>Data\<close>

(* SRC cli SecretTier *)
datatype secret_tier = Standard | Protected

(* SRC cli FetchInject *)
datatype fetch_inject = Bearer | Header string | Query string

(* SRC cli FetchRequest *)
record fetch_request =
  fr_method :: string
  fr_url :: string
  fr_allowed_hosts :: "string list"
  fr_headers :: "(string \<times> string) list"
  fr_body :: "string option"
  fr_inject :: fetch_inject

(* SRC cli FetchInput *)
record fetch_input =
  fi_name :: string
  fi_tier :: secret_tier
  fi_envelope :: sealed
  fi_dek_blindbox :: "blind_box option"
  fi_approval :: "string option"
  fi_request :: fetch_request

(* SRC cli FetchOutput *)
record fetch_output =
  fo_status :: nat
  fo_headers :: "string \<Rightarrow> string option"
  fo_body :: string

(* SRC cli default_secret_tier *)
definition default_secret_tier :: secret_tier where
  "default_secret_tier = Standard"

(* SRC cli default_fetch_inject *)
definition default_fetch_inject :: fetch_inject where
  "default_fetch_inject = Bearer"

(* SRC cli MAX_FETCH_BODY_BYTES *)
definition MAX_FETCH_BODY_BYTES :: nat where
  "MAX_FETCH_BODY_BYTES = 8 * 1024 * 1024"

(* SRC cli FETCH_CONNECT_TIMEOUT_SECS *)
definition FETCH_CONNECT_TIMEOUT_SECS :: nat where
  "FETCH_CONNECT_TIMEOUT_SECS = 10"

(* SRC cli FETCH_TOTAL_TIMEOUT_SECS *)
definition FETCH_TOTAL_TIMEOUT_SECS :: nat where
  "FETCH_TOTAL_TIMEOUT_SECS = 30"

(* SRC cli FETCH_REDACTION *)
definition FETCH_REDACTION :: bytes where
  "FETCH_REDACTION = as_bytes ''[avault-redacted]''"

text \<open>What the packages hand over: a parsed URL, and the request and response of a call.\<close>

datatype url_host = Domain string | Ipv4 byte byte byte byte | Ipv6 "128 word"

record url =
  url_scheme :: string
  url_host :: "url_host option"
  url_query_names :: "string list"

record http_request =
  hr_method :: string
  hr_url :: string
  hr_headers :: "(string \<times> string) list"
  hr_body :: "string option"
  hr_redirects :: nat
  hr_connect_timeout :: nat
  hr_total_timeout :: nat
  hr_proxy_from_env :: bool

record http_response =
  hp_status :: nat
  hp_headers :: "(string \<times> string option) list"
  hp_body :: "io_kind + bytes"

record fetch_env =
  url_parse :: "string \<Rightarrow> url option"
  ipv6_parses :: "string \<Rightarrow> bool"
  ipv6_display :: "128 word \<Rightarrow> string"
  http_send :: "http_request \<Rightarrow> string + http_response"

section \<open>Policy\<close>

text \<open>\<open>str::trim\<close>: the characters of Unicode's \<open>White_Space\<close> in UTF-8.\<close>

definition white_space :: "string list" where
  "white_space = map (\<lambda>n. string_of (encode_utf8 n))
     ([0x09, 0x0A, 0x0B, 0x0C, 0x0D, 0x20, 0x85, 0xA0, 0x1680] @ [0x2000..<0x200B]
      @ [0x2028, 0x2029, 0x202F, 0x205F, 0x3000])"

definition starts_with :: "string \<Rightarrow> string \<Rightarrow> bool" where
  "starts_with w s \<longleftrightarrow> take (length w) s = w"

definition ends_with :: "string \<Rightarrow> string \<Rightarrow> bool" where
  "ends_with w s \<longleftrightarrow> starts_with (rev w) (rev s)"

function trim_start :: "string \<Rightarrow> string" where
  "trim_start s = (case find (\<lambda>w. w \<noteq> [] \<and> starts_with w s) white_space of
      None \<Rightarrow> s | Some w \<Rightarrow> trim_start (drop (length w) s))"
  by pat_completeness auto
termination
proof (relation "measure length", simp)
  fix s w
  assume "find (\<lambda>w. w \<noteq> [] \<and> starts_with w s) white_space = Some w"
  then have "w \<noteq> []" "take (length w) s = w" by (auto simp: find_Some_iff starts_with_def)
  then show "(drop (length w) s, s) \<in> measure length" by (cases s) auto
qed

function trim_end :: "string \<Rightarrow> string" where
  "trim_end s = (case find (\<lambda>w. w \<noteq> [] \<and> ends_with w s) white_space of
      None \<Rightarrow> s | Some w \<Rightarrow> trim_end (take (length s - length w) s))"
  by pat_completeness auto
termination
proof (relation "measure length", simp)
  fix s w
  assume "find (\<lambda>w. w \<noteq> [] \<and> ends_with w s) white_space = Some w"
  then have "w \<noteq> []" "take (length w) (rev s) = rev w"
    by (auto simp: find_Some_iff starts_with_def ends_with_def)
  then have "s \<noteq> []" by auto
  then show "(take (length s - length w) s, s) \<in> measure length" using \<open>w \<noteq> []\<close> by (cases w) auto
qed

declare trim_start.simps [simp del] trim_end.simps [simp del]

definition trim :: "string \<Rightarrow> string" where
  "trim s = trim_end (trim_start s)"

(* SRC cli fetch_url_host *)
definition fetch_url_host :: "fetch_env \<Rightarrow> url \<Rightarrow> string option" where
  "fetch_url_host F u = map_option (\<lambda>h. case h of
       Domain host \<Rightarrow> host
     | Ipv4 a b c d \<Rightarrow> decimal (unat a) @ ''.'' @ decimal (unat b) @ ''.'' @ decimal (unat c) @ ''.''
         @ decimal (unat d)
     | Ipv6 addr \<Rightarrow> ipv6_display F addr) (url_host u)"

(* SRC cli is_loopback_url *)
definition is_loopback_url :: "url \<Rightarrow> bool" where
  "is_loopback_url u = (case url_host u of
       Some (Domain host) \<Rightarrow> eq_ignore_ascii_case host ''localhost''
     | Some (Ipv4 a b c d) \<Rightarrow> a = 127
     | Some (Ipv6 addr) \<Rightarrow> addr = 1
     | None \<Rightarrow> False)"

(* SRC cli validate_fetch_url *)
definition validate_fetch_url :: "url \<Rightarrow> unit res" where
  "validate_fetch_url u =
     (if url_scheme u = ''https'' then Inr ()
      else if url_scheme u = ''http'' \<and> is_loopback_url u then Inr ()
      else if url_scheme u = ''http''
      then bail ''refusing to attach a credential over plaintext HTTP''
      else bail ''fetch URL scheme must be https, or http for loopback'')"

(* SRC cli validate_allowed_host *)
definition validate_allowed_host :: "fetch_env \<Rightarrow> string \<Rightarrow> unit res" where
  "validate_allowed_host F host =
     (if trim host = [] \<or> trim host \<noteq> host
         \<or> list_ex (contains_char host)
             [CHR ''/'', CHR 0x5C, CHR ''@'', CHR ''['', CHR '']'', CHR 0x0D, CHR 0x0A, CHR ''?'', CHR ''#'']
      then bail ''invalid fetch allowed host''
      else if contains_char host CHR '':'' \<and> \<not> ipv6_parses F host
      then bail ''invalid fetch allowed host''
      else Inr ())"

fun for_each :: "('a \<Rightarrow> unit res) \<Rightarrow> 'a list \<Rightarrow> unit res" where
  "for_each f [] = Inr ()"
| "for_each f (x # xs) = and_then (f x) (\<lambda>_. for_each f xs)"

(* SRC cli validate_allowed_fetch_host *)
definition validate_allowed_fetch_host :: "fetch_env \<Rightarrow> url \<Rightarrow> string list \<Rightarrow> unit res" where
  "validate_allowed_fetch_host F u allowed_hosts =
     (if allowed_hosts = [] then bail ''fetch allowed_hosts is required''
      else and_then (for_each (validate_allowed_host F) allowed_hosts) (\<lambda>_.
           case fetch_url_host F u of
             None \<Rightarrow> bail ''fetch url host is required''
           | Some host \<Rightarrow>
               if \<not> list_ex (eq_ignore_ascii_case host) allowed_hosts
               then bail ''fetch host is not allowed'' else Inr ()))"

(* SRC cli validate_fetch_method *)
definition validate_fetch_method :: "string \<Rightarrow> unit res" where
  "validate_fetch_method m =
     (let m = to_ascii_uppercase m
      in if m = [] \<or> list_ex (\<lambda>c. \<not> is_ascii_alphabetic c) m then bail ''invalid fetch method''
         else if m = ''TRACE'' \<or> m = ''TRACK'' \<or> m = ''CONNECT''
         then bail ''fetch method is not allowed''
         else Inr ())"

(* SRC cli is_header_token_byte *)
definition is_header_token_byte :: "char \<Rightarrow> bool" where
  "is_header_token_byte c \<longleftrightarrow>
     c \<in> set ''!#$%&*+-.^_`|~'' \<or> c = CHR 0x27
     \<or> is_ascii_digit c \<or> is_ascii_uppercase c \<or> is_ascii_lowercase c"

(* SRC cli validate_header_name *)
definition validate_header_name :: "string \<Rightarrow> unit res" where
  "validate_header_name name =
     (if name = [] \<or> eq_ignore_ascii_case name ''host''
         \<or> list_ex (\<lambda>c. \<not> is_header_token_byte c) name
      then bail ''invalid fetch header name'' else Inr ())"

(* SRC cli validate_header *)
definition validate_header :: "string \<times> string \<Rightarrow> unit res" where
  "validate_header = (\<lambda>(name, value).
     and_then (validate_header_name name) (\<lambda>_.
     if list_ex (\<lambda>c. code c < 0x20 \<or> code c = 0x7F) value then bail ''invalid fetch header value''
     else Inr ()))"

(* SRC cli reject_header_conflict *)
definition reject_header_conflict :: "(string \<times> string) list \<Rightarrow> string \<Rightarrow> unit res" where
  "reject_header_conflict headers injected_name =
     (if list_ex (\<lambda>(name, _). eq_ignore_ascii_case name injected_name) headers
      then bail ''fetch request already contains injected header'' else Inr ())"

(* SRC cli validate_query_name *)
definition validate_query_name :: "string \<Rightarrow> unit res" where
  "validate_query_name name =
     (if name = [] \<or> contains_char name CHR 0x0D \<or> contains_char name CHR 0x0A
      then bail ''invalid fetch query parameter name'' else Inr ())"

(* SRC cli reject_query_conflict *)
definition reject_query_conflict :: "url \<Rightarrow> string \<Rightarrow> unit res" where
  "reject_query_conflict u injected_name =
     (if injected_name \<in> set (url_query_names u)
      then bail ''fetch request already contains injected query parameter'' else Inr ())"

(* SRC cli validate_fetch_input *)
definition validate_fetch_input :: "fetch_env \<Rightarrow> fetch_input \<Rightarrow> (url \<times> bool) res" where
  "validate_fetch_input F fetch =
     (let request = fi_request fetch
      in and_then (with_context ''fetch url is invalid'' (lib_res ''url'' (url_parse F (fr_url request)))) (\<lambda>url.
         let is_loopback = is_loopback_url url
         in and_then (validate_fetch_url url) (\<lambda>_.
            and_then (validate_allowed_fetch_host F url (fr_allowed_hosts request)) (\<lambda>_.
            and_then (validate_fetch_method (fr_method request)) (\<lambda>_.
            and_then (for_each validate_header (fr_headers request)) (\<lambda>_.
            and_then (case fr_inject request of
                Bearer \<Rightarrow> reject_header_conflict (fr_headers request) ''Authorization''
              | Header name \<Rightarrow>
                  and_then (validate_header_name name) (\<lambda>_.
                  reject_header_conflict (fr_headers request) name)
              | Query name \<Rightarrow>
                  and_then (validate_query_name name) (\<lambda>_. reject_query_conflict url name)) (\<lambda>_.
            Inr (url, is_loopback))))))))"

section \<open>Redaction\<close>

text \<open>The first position at which a window of the length of the needle is the needle.\<close>

fun first_window :: "bytes \<Rightarrow> bytes \<Rightarrow> nat option" where
  "first_window [] needle = (if needle = [] then Some 0 else None)"
| "first_window (b # bs) needle =
     (if length needle \<le> length (b # bs) \<and> take (length needle) (b # bs) = needle then Some 0
      else map_option Suc (first_window bs needle))"

text \<open>\<open>slice::windows\<close> panics for a length of zero.\<close>

(* SRC cli find_subslice *)
definition find_subslice :: "bytes \<Rightarrow> bytes \<Rightarrow> nat option res" where
  "find_subslice hay needle =
     (if needle = [] then Inl [Panic ''window size must be non-zero''] else Inr (first_window hay needle))"

text \<open>\<open>usize\<close> arithmetic, 64 bits wide.\<close>

definition checked_usize :: "nat \<Rightarrow> nat option" where
  "checked_usize n = (if n < 2 ^ 64 then Some n else None)"

(* SRC cli redacted_body_len *)
definition redacted_body_len :: "nat \<Rightarrow> nat \<Rightarrow> nat \<Rightarrow> nat \<Rightarrow> nat res" where
  "redacted_body_len body_len matches needle_len redaction_len =
     (if redaction_len \<ge> needle_len then
        and_then (ok_or ''fetch response body exceeds size limit''
                   (checked_usize (matches * (redaction_len - needle_len)))) (\<lambda>growth.
        ok_or ''fetch response body exceeds size limit'' (checked_usize (body_len + growth)))
      else if matches * (needle_len - redaction_len) \<le> body_len
      then Inr (body_len - matches * (needle_len - redaction_len))
      else Inl [Panic ''attempt to subtract with overflow''])"

text \<open>
  The two loops of \<open>redact_verbatim_bytes\<close>, over what is left of the body from \<open>index\<close> on:
  counting the matches, and copying with each match replaced.
\<close>

(* SRC cli 1235-1240 redact_verbatim_bytes *)
function count_matches :: "bytes \<Rightarrow> bytes \<Rightarrow> nat res" where
  "count_matches rest needle =
     (case find_subslice rest needle of
        Inr (Some relative) \<Rightarrow>
          and_then (count_matches (drop (relative + length needle) rest) needle) (\<lambda>matches. Inr (Suc matches))
      | Inr None \<Rightarrow> Inr 0
      | Inl e \<Rightarrow> Inl e)"
  by pat_completeness auto

lemma first_window_Some:
  "first_window hay needle = Some i \<Longrightarrow>
     \<exists>rest. hay = take i hay @ needle @ rest \<and> length (take i hay) = i
       \<and> rest = drop (i + length needle) hay"
proof (induction hay arbitrary: i)
  case Nil
  then show ?case by (simp split: if_splits)
next
  case (Cons b bs)
  show ?case
  proof (cases "length needle \<le> length (b # bs) \<and> take (length needle) (b # bs) = needle")
    case True
    with Cons.prems have "i = 0" by simp
    with True show ?thesis by (metis add_0 append_Nil append_take_drop_id list.size(3) take0)
  next
    case False
    with Cons.prems obtain j where "first_window bs needle = Some j" "i = Suc j"
      by (auto split: if_splits)
    with Cons.IH [of j] show ?thesis by simp
  qed
qed

lemma first_window_shorter:
  "\<lbrakk>first_window hay needle = Some i; needle \<noteq> []\<rbrakk> \<Longrightarrow> length hay - (i + length needle) < length hay"
proof -
  assume f: "first_window hay needle = Some i" and n: "needle \<noteq> []"
  from first_window_Some [OF f] obtain rest where "hay = take i hay @ needle @ rest" by blast
  then have "length hay \<ge> length needle" by (metis length_append le_add1 trans_le_add2)
  with n show ?thesis by (cases needle) auto
qed

termination count_matches
  by (relation "measure (\<lambda>(rest, needle). length rest)") (auto simp: find_subslice_def first_window_shorter split: if_splits)

(* SRC cli 1249-1257 redact_verbatim_bytes *)
function redact_from :: "bytes \<Rightarrow> bytes \<Rightarrow> bytes res" where
  "redact_from rest needle =
     (case find_subslice rest needle of
        Inr (Some relative) \<Rightarrow>
          and_then (redact_from (drop (relative + length needle) rest) needle) (\<lambda>redacted.
          Inr (take relative rest @ FETCH_REDACTION @ redacted))
      | Inr None \<Rightarrow> Inr rest
      | Inl e \<Rightarrow> Inl e)"
  by pat_completeness auto
termination
  by (relation "measure (\<lambda>(rest, needle). length rest)") (auto simp: find_subslice_def first_window_shorter split: if_splits)

declare count_matches.simps [simp del] redact_from.simps [simp del]

(* SRC cli redact_verbatim_bytes *)
definition redact_verbatim_bytes :: "bytes \<Rightarrow> bytes \<Rightarrow> bytes res" where
  "redact_verbatim_bytes body needle =
     (if needle = [] then Inr body
      else and_then (count_matches body needle) (\<lambda>matches.
           if matches = 0 then Inr body
           else and_then (redacted_body_len (length body) matches (length needle)
                            (length FETCH_REDACTION)) (\<lambda>output_len.
                if output_len > MAX_FETCH_BODY_BYTES
                then bail ''fetch response body exceeds size limit''
                else redact_from body needle)))"

(* SRC cli redact_fetch_body *)
definition redact_fetch_body :: "bytes \<Rightarrow> bytes list \<Rightarrow> bytes res" where
  "redact_fetch_body body needles =
     fold (\<lambda>needle r. and_then r (\<lambda>body. redact_verbatim_bytes body needle)) needles (Inr body)"

definition has_window :: "bytes \<Rightarrow> bytes \<Rightarrow> bool" where
  "has_window hay needle \<longleftrightarrow> first_window hay needle \<noteq> None"

(* SRC cli redact_fetch_header_text *)
definition redact_fetch_header_text :: "string \<Rightarrow> bytes list \<Rightarrow> string res" where
  "redact_fetch_header_text value needles =
     (if list_all (\<lambda>needle. needle = [] \<or> \<not> has_window (as_bytes value) needle) needles
      then Inr value
      else and_then (redact_fetch_body (as_bytes value) needles) (\<lambda>bs.
           ok_or ''fetch response header is not valid UTF-8 after redaction'' (from_utf8 bs)))"

(* SRC cli read_capped_fetch_body *)
definition read_capped_fetch_body :: "io_kind + bytes \<Rightarrow> bytes list \<Rightarrow> string res" where
  "read_capped_fetch_body response needles =
     (case response of
        Inl _ \<Rightarrow> bail ''failed to read fetch response body''
      | Inr full \<Rightarrow>
          let body = take (MAX_FETCH_BODY_BYTES + 1) full
          in if length body > MAX_FETCH_BODY_BYTES
             then bail ''fetch response body exceeds size limit''
             else and_then (redact_fetch_body body needles) (\<lambda>body.
                  ok_or ''fetch response body is not valid UTF-8'' (from_utf8 body)))"

section \<open>The call\<close>

(* SRC cli fetch_output_exit_code *)
definition fetch_output_exit_code :: "fetch_output \<Rightarrow> byte" where
  "fetch_output_exit_code out = (if 200 \<le> fo_status out \<and> fo_status out \<le> 299 then 0 else 1)"

text \<open>The request as \<open>ureq\<close> gets it.\<close>

(* SRC cli 1140-1163 perform_fetch *)
definition fetch_http_request ::
    "string \<Rightarrow> string \<Rightarrow> (string \<times> string) list \<Rightarrow> (string \<times> string) option \<Rightarrow> string option
       \<Rightarrow> bool \<Rightarrow> http_request" where
  "fetch_http_request m url headers secret_header body is_loopback =
     \<lparr>hr_method = to_ascii_uppercase m, hr_url = url,
      hr_headers = headers @ (case secret_header of None \<Rightarrow> [] | Some h \<Rightarrow> [h]),
      hr_body = body, hr_redirects = 0,
      hr_connect_timeout = FETCH_CONNECT_TIMEOUT_SECS, hr_total_timeout = FETCH_TOTAL_TIMEOUT_SECS,
      hr_proxy_from_env = (\<not> is_loopback)\<rparr>"

fun redact_headers ::
    "(string \<times> string option) list \<Rightarrow> bytes list \<Rightarrow> (string \<Rightarrow> string option)
       \<Rightarrow> (string \<Rightarrow> string option) res" where
  "redact_headers [] needles acc = Inr acc"
| "redact_headers ((name, value) # rest) needles acc =
     (case value of
        None \<Rightarrow> redact_headers rest needles acc
      | Some value \<Rightarrow>
          and_then (redact_fetch_header_text name needles) (\<lambda>name.
          and_then (redact_fetch_header_text value needles) (\<lambda>value.
          redact_headers rest needles (acc(name \<mapsto> value)))))"

(* SRC cli perform_fetch *)
definition perform_fetch ::
    "fetch_env \<Rightarrow> string \<Rightarrow> string \<Rightarrow> (string \<times> string) list \<Rightarrow> (string \<times> string) option
       \<Rightarrow> string option \<Rightarrow> bool \<Rightarrow> bytes list \<Rightarrow> fetch_output res" where
  "perform_fetch F m url headers secret_header body is_loopback needles =
     (case http_send F (fetch_http_request m url headers secret_header body is_loopback) of
        Inl kind \<Rightarrow> bail (''HTTP transport failed: '' @ kind)
      | Inr response \<Rightarrow>
          and_then (redact_headers (hp_headers response) needles Map.empty) (\<lambda>headers.
          and_then (read_capped_fetch_body (hp_body response) needles) (\<lambda>body.
          Inr \<lparr>fo_status = hp_status response, fo_headers = headers, fo_body = body\<rparr>)))"

text \<open>
  What the credential turns into: the secret header if any, the URL, and the needles.
\<close>

(* SRC cli 1067-1106 execute_fetch_request *)
definition attach_credential ::
    "fetch_env \<Rightarrow> fetch_request \<Rightarrow> bytes \<Rightarrow> ((string \<times> string) option \<times> string \<times> bytes list) res" where
  "attach_credential F request secret = (case fr_inject request of
       Bearer \<Rightarrow>
         and_then (fetch_header_credential_bytes secret ''fetch bearer credential'') (\<lambda>credential.
         let needles = (if credential \<noteq> [] then [credential] else [])
         in case from_utf8 credential of
              None \<Rightarrow> Inl [Msg ''fetch bearer credential is not valid UTF-8'', Lib ''Utf8Error'']
            | Some text \<Rightarrow>
                Inr (Some (''Authorization'', ''Bearer '' @ text), fr_url request, needles))
     | Header name \<Rightarrow>
         and_then (fetch_header_credential_bytes secret ''fetch header credential'') (\<lambda>credential.
         let needles = (if credential \<noteq> [] then [credential] else [])
         in case from_utf8 credential of
              None \<Rightarrow> Inl [Msg ''fetch header credential is not valid UTF-8'', Lib ''Utf8Error'']
            | Some text \<Rightarrow> Inr (Some (name, text), fr_url request, needles))
     | Query name \<Rightarrow>
         and_then (secret_utf8 secret ''fetch query credential'') (\<lambda>text.
         let needles = (if secret \<noteq> [] then [secret, as_bytes (push_query_encoded [] text)] else [])
         in and_then (build_secret_query_url (\<lambda>u. url_parse F u \<noteq> None) (fr_url request) name text)
              (\<lambda>target. Inr (None, target, needles))))"

(* SRC cli execute_fetch_request *)
definition execute_fetch_request ::
    "fetch_env \<Rightarrow> fetch_request \<Rightarrow> bytes \<Rightarrow> bool \<Rightarrow> fetch_output res" where
  "execute_fetch_request F request secret is_loopback =
     and_then (attach_credential F request secret) (\<lambda>(secret_header, target_url, needles).
     with_context ''fetch request failed''
       (perform_fetch F (fr_method request) target_url (fr_headers request) secret_header
          (fr_body request) is_loopback needles))"

section \<open>Lemmas on redaction\<close>

fun join :: "bytes \<Rightarrow> bytes list \<Rightarrow> bytes" where
  "join sep [] = []"
| "join sep [x] = x"
| "join sep (x # y # xs) = x @ sep @ join sep (y # xs)"

lemma join_Cons: "xs \<noteq> [] \<Longrightarrow> join sep (x # xs) = x @ sep @ join sep xs"
  by (cases xs) simp_all

lemma length_join:
  "xs \<noteq> [] \<Longrightarrow> length (join sep xs) = sum_list (map length xs) + (length xs - 1) * length sep"
proof (induction xs)
  case (Cons x xs)
  then show ?case by (cases xs) simp_all
qed simp

lemma first_window_None: "first_window hay needle = None \<longleftrightarrow> \<not> occurs needle hay"
proof
  assume "first_window hay needle = None"
  then show "\<not> occurs needle hay"
  proof (induction hay)
    case Nil
    then show ?case by (auto simp: occurs_def split: if_splits)
  next
    case (Cons b bs)
    then have n: "\<not> (length needle \<le> length (b # bs) \<and> take (length needle) (b # bs) = needle)"
      and IH: "\<not> occurs needle bs" by (auto split: if_splits)
    show ?case
    proof
      assume "occurs needle (b # bs)"
      then obtain x y where xy: "b # bs = x @ needle @ y" by (rule occursE)
      show False
      proof (cases x)
        case Nil
        with xy n show False by (metis append_Nil append_eq_conv_conj length_append le_add1)
      next
        case (Cons c x')
        with xy have "bs = x' @ needle @ y" by simp
        with IH occursI show False by blast
      qed
    qed
  qed
next
  assume n: "\<not> occurs needle hay"
  show "first_window hay needle = None"
  proof (cases "first_window hay needle")
    case (Some i)
    with first_window_Some n occursI show ?thesis by metis
  qed
qed

lemma occurs_append1: "occurs n a \<Longrightarrow> occurs n (a @ b)"
  by (elim occursE) (auto intro: occursI)

lemma first_window_least: "hay = x @ needle @ r \<Longrightarrow> \<exists>j\<le>length x. first_window hay needle = Some j"
proof (induction x arbitrary: hay)
  case Nil
  show ?case
  proof (cases hay)
    case Nil
    then show ?thesis using Nil.prems by simp
  next
    case (Cons b bs)
    then have "take (length needle) (b # bs) = needle" "length needle \<le> length (b # bs)"
      using Nil.prems by (metis append_Nil append_eq_conv_conj, metis append_Nil length_append le_add1)
    then show ?thesis using Cons by simp
  qed
next
  case (Cons c x)
  then obtain j where "j \<le> length x" "first_window (x @ needle @ r) needle = Some j" by blast
  then show ?case using Cons.prems by auto
qed

text \<open>Not even with all but one byte of the match does what precedes it hold the needle.\<close>

lemma first_window_first:
  assumes "first_window hay needle = Some i" "needle \<noteq> []"
  shows "\<not> occurs needle (take i hay @ butlast needle)"
proof
  assume "occurs needle (take i hay @ butlast needle)"
  then obtain x y where xy: "take i hay @ butlast needle = x @ needle @ y" by (rule occursE)
  obtain rest where hay: "hay = take i hay @ needle @ rest" and i: "length (take i hay) = i"
    using first_window_Some [OF assms(1)] by blast
  have "hay = take i hay @ butlast needle @ last needle # rest"
    using hay append_butlast_last_id [OF assms(2)] by (metis append_Cons append_Nil append_assoc)
  then have "hay = x @ needle @ y @ last needle # rest" using xy by (metis append_assoc)
  then obtain j where "j \<le> length x" "first_window hay needle = Some j" using first_window_least by blast
  moreover have "length x < i"
  proof -
    have "length (butlast needle) < length needle" using assms(2) by (cases needle) auto
    then show ?thesis using arg_cong [OF xy, of length] i by simp
  qed
  ultimately show False using assms(1) by simp
qed

text \<open>
  The cut at the leftmost occurrences that do not overlap: behind a piece stands the first occurrence
  of the needle in what was left. A body has one such cut only.
\<close>

definition leftmost_cut :: "bytes \<Rightarrow> bytes list \<Rightarrow> bool" where
  "leftmost_cut needle segs \<longleftrightarrow> segs \<noteq> [] \<and>
     list_all (\<lambda>s. \<not> occurs needle (s @ butlast needle)) (butlast segs) \<and> \<not> occurs needle (last segs)"

lemma leftmost_cut_simps:
  "leftmost_cut needle [s] \<longleftrightarrow> \<not> occurs needle s"
  "segs \<noteq> [] \<Longrightarrow> leftmost_cut needle (s # segs) \<longleftrightarrow>
     \<not> occurs needle (s @ butlast needle) \<and> leftmost_cut needle segs"
  by (auto simp: leftmost_cut_def)

lemma leftmost_cut_pieces: "leftmost_cut needle segs \<Longrightarrow> s \<in> set segs \<Longrightarrow> \<not> occurs needle s"
proof (induction segs)
  case (Cons x segs)
  then show ?case by (cases "segs = []") (auto simp: leftmost_cut_simps dest: occurs_append1)
qed simp

text \<open>A shorter piece would leave an occurrence of the needle in the longer one.\<close>

lemma cut_not_shorter:
  assumes "s @ needle @ r = s' @ needle @ r'" "\<not> occurs needle (s' @ butlast needle)" "needle \<noteq> []"
  shows "length s' \<le> length s"
proof (rule ccontr)
  assume "\<not> length s' \<le> length s"
  then have longer: "length s < length s'" by simp
  then have "take (length s) s' = s" using arg_cong [OF assms(1), of "take (length s)"] by simp
  then obtain cs where cs: "s' = s @ cs" by (metis append_take_drop_id)
  then obtain c us where c: "cs = c # us" using longer by (cases cs) auto
  have s': "s' = s @ c # us" by (simp add: cs c)
  have split: "needle @ r = c # us @ needle @ r'" using assms(1) by (simp add: s')
  have "c # us @ needle @ r' = (c # us @ butlast needle) @ last needle # r'"
    using append_butlast_last_id [OF assms(3)] by (metis append_Cons append_Nil append_assoc)
  moreover have "length needle \<le> length (c # us @ butlast needle)" using assms(3) by (cases needle) auto
  ultimately have "take (length needle) (c # us @ butlast needle) = take (length needle) (c # us @ needle @ r')"
    by (metis append_Nil2 diff_is_0_eq take0 take_append)
  then have "take (length needle) (c # us @ butlast needle) = needle" using split by (metis append_eq_conv_conj)
  then have "c # us @ butlast needle = needle @ drop (length needle) (c # us @ butlast needle)"
    by (metis append_take_drop_id)
  then have "s' @ butlast needle = s @ needle @ drop (length needle) (c # us @ butlast needle)" by (simp add: s')
  then show False using assms(2) occursI by metis
qed

lemma leftmost_cut_unique:
  assumes "leftmost_cut needle segs" "leftmost_cut needle segs'" "join needle segs = join needle segs'" "needle \<noteq> []"
  shows "segs = segs'"
  using assms(1-3)
proof (induction segs arbitrary: segs')
  case Nil
  then show ?case by (simp add: leftmost_cut_def)
next
  case (Cons s segs)
  obtain s' rest where segs': "segs' = s' # rest" using Cons.prems(2) by (cases segs') (auto simp: leftmost_cut_def)
  have held: "occurs needle (join needle (x # xs))" if "xs \<noteq> []" for x xs
    using that by (simp add: join_Cons occursI)
  consider "segs = []" "rest = []" | "segs = []" "rest \<noteq> []" | "segs \<noteq> []" "rest = []" | "segs \<noteq> []" "rest \<noteq> []"
    by blast
  then show ?case
  proof cases
    case 1
    then show ?thesis using Cons.prems(3) by (simp add: segs')
  next
    case 2
    then have "occurs needle s" "\<not> occurs needle s"
      using Cons.prems held [of rest s'] by (simp_all add: segs' leftmost_cut_simps)
    then show ?thesis by blast
  next
    case 3
    then have "occurs needle s'" "\<not> occurs needle s'"
      using Cons.prems held [of segs s] by (simp_all add: segs' leftmost_cut_simps)
    then show ?thesis by blast
  next
    case False: 4
    then have eq: "s @ needle @ join needle segs = s' @ needle @ join needle rest"
      using Cons.prems(3) by (simp add: segs' join_Cons)
    have "\<not> occurs needle (s @ butlast needle)" "\<not> occurs needle (s' @ butlast needle)"
      using Cons.prems(1,2) False by (simp_all add: segs' leftmost_cut_simps)
    then have "length s = length s'"
      using cut_not_shorter [OF eq _ assms(4)] cut_not_shorter [OF eq [symmetric] _ assms(4)] by (metis le_antisym)
    then have "s = s'" "join needle segs = join needle rest"
      using eq append_eq_append_conv [of s s' "needle @ join needle segs" "needle @ join needle rest"] by simp_all
    moreover have "leftmost_cut needle segs" "leftmost_cut needle rest"
      using Cons.prems(1,2) False by (simp_all add: segs' leftmost_cut_simps)
    ultimately have "segs = rest" by (intro Cons.IH)
    then show ?thesis by (simp add: segs' \<open>s = s'\<close>)
  qed
qed

lemma redact_segments:
  assumes "needle \<noteq> []"
  shows "\<exists>segs. leftmost_cut needle segs \<and> rest = join needle segs \<and>
    redact_from rest needle = Inr (join FETCH_REDACTION segs) \<and> count_matches rest needle = Inr (length segs - 1)"
  using assms
proof (induction "length rest" arbitrary: rest rule: less_induct)
  case less
  have find: "find_subslice rest needle = Inr (first_window rest needle)" using less.prems by (simp add: find_subslice_def)
  show ?case
  proof (cases "first_window rest needle")
    case None
    then have "leftmost_cut needle [rest]" by (simp add: leftmost_cut_simps first_window_None)
    moreover have "redact_from rest needle = Inr rest" "count_matches rest needle = Inr 0"
      using None find by (simp_all add: count_matches.simps [of rest] redact_from.simps [of rest])
    ultimately show ?thesis by (intro exI [of _ "[rest]"]) simp
  next
    case (Some i)
    let ?r = "drop (i + length needle) rest"
    have "length ?r < length rest" using first_window_shorter [OF Some less.prems] by simp
    from less.hyps [OF this less.prems] obtain segs where
      segs: "leftmost_cut needle segs" "?r = join needle segs" "redact_from ?r needle = Inr (join FETCH_REDACTION segs)"
      "count_matches ?r needle = Inr (length segs - 1)" by blast
    have ne: "segs \<noteq> []" using segs(1) by (simp add: leftmost_cut_def)
    have "rest = take i rest @ needle @ ?r" using first_window_Some [OF Some] by metis
    then have "rest = join needle (take i rest # segs)" using segs(2) ne by (metis join_Cons)
    moreover have "redact_from rest needle = Inr (join FETCH_REDACTION (take i rest # segs))"
      using segs(3) ne Some find by (simp add: redact_from.simps [of rest] join_Cons)
    moreover have "count_matches rest needle = Inr (length (take i rest # segs) - 1)"
      using segs(4) ne Some find by (simp add: count_matches.simps [of rest])
    moreover have "leftmost_cut needle (take i rest # segs)"
      using segs(1) ne first_window_first [OF Some less.prems] by (simp add: leftmost_cut_simps)
    ultimately show ?thesis by blast
  qed
qed

lemma redacted_body_len_grow:
  "needle_len \<le> redaction_len \<Longrightarrow> redacted_body_len body_len matches needle_len redaction_len =
     (if body_len + matches * (redaction_len - needle_len) < 2 ^ 64
      then Inr (body_len + matches * (redaction_len - needle_len))
      else bail ''fetch response body exceeds size limit'')"
  by (simp add: redacted_body_len_def checked_usize_def)

lemma redact_verbatim_exact:
  assumes "needle \<noteq> []"
  shows "\<exists>segs. leftmost_cut needle segs \<and> body = join needle segs
    \<and> redact_verbatim_bytes body needle =
        (if 1 < length segs \<and> MAX_FETCH_BODY_BYTES < length (join FETCH_REDACTION segs)
         then bail ''fetch response body exceeds size limit''
         else Inr (join FETCH_REDACTION segs))"
proof -
  from redact_segments [OF assms, of body] obtain segs where
    segs: "leftmost_cut needle segs" "body = join needle segs"
      "redact_from body needle = Inr (join FETCH_REDACTION segs)" "count_matches body needle = Inr (length segs - 1)"
    by blast
  have ne: "segs \<noteq> []" using segs(1) by (simp add: leftmost_cut_def)
  let ?m = "length segs - 1"
  let ?t = "sum_list (map length segs)"
  have lb: "length body = ?t + ?m * length needle"
    and lr: "length (join FETCH_REDACTION segs) = ?t + ?m * length FETCH_REDACTION"
    using length_join [OF ne] segs(2) by simp_all
  show ?thesis
  proof (cases "?m = 0")
    case True
    with ne obtain s where "segs = [s]" by (cases segs) auto
    with segs have "redact_verbatim_bytes body needle = Inr body" "join FETCH_REDACTION segs = body"
      by (simp_all add: redact_verbatim_bytes_def)
    with segs True show ?thesis by (intro exI [of _ segs]) simp
  next
    case False
    have big: "2 ^ 64 > MAX_FETCH_BODY_BYTES" by (simp add: MAX_FETCH_BODY_BYTES_def)
    have "redact_verbatim_bytes body needle =
        (if MAX_FETCH_BODY_BYTES < length (join FETCH_REDACTION segs)
         then bail ''fetch response body exceeds size limit''
         else Inr (join FETCH_REDACTION segs))"
    proof (cases "length needle \<le> length FETCH_REDACTION")
      case True
      then have e: "length body + ?m * (length FETCH_REDACTION - length needle)
          = length (join FETCH_REDACTION segs)"
        unfolding lb lr by (simp add: diff_mult_distrib2)
      from False segs(3,4) assms big show ?thesis
        by (simp add: redact_verbatim_bytes_def redacted_body_len_grow [OF True] e del: One_nat_def)
    next
      case False
      then have e: "length body - ?m * (length needle - length FETCH_REDACTION)
          = length (join FETCH_REDACTION segs)"
        and "?m * (length needle - length FETCH_REDACTION) \<le> length body"
        unfolding lb lr by (simp_all add: diff_mult_distrib2)
      with False \<open>?m \<noteq> 0\<close> segs(3,4) assms show ?thesis
        by (simp add: redact_verbatim_bytes_def redacted_body_len_def del: One_nat_def)
    qed
    with segs False show ?thesis by (intro exI [of _ segs]) simp
  qed
qed

lemma occurs_separated:
  assumes "occurs n (a @ r @ b)" "set n \<inter> set r = {}" "n \<noteq> []" "r \<noteq> []"
  shows "occurs n a \<or> occurs n b"
proof -
  from assms(1) obtain x y where xy: "a @ r @ b = x @ n @ y" by (rule occursE)
  from append_eq_append_conv2 [THEN iffD1, OF this] consider
      us where "a = x @ us" "us @ r @ b = n @ y" | us where "a @ us = x" "r @ b = us @ n @ y"
    by blast
  then show ?thesis
  proof cases
    case (1 us)
    from append_eq_append_conv2 [THEN iffD1, OF 1(2)] consider
        vs where "us = n @ vs" | vs where "us @ vs = n" "r @ b = vs @ y"
      by blast
    then show ?thesis
    proof cases
      case 1
      with \<open>a = x @ us\<close> show ?thesis by (auto intro: occursI)
    next
      case (2 vs)
      show ?thesis
      proof (cases vs)
        case Nil
        with 2 \<open>a = x @ us\<close> occursI [of a x n "[]"] show ?thesis by simp
      next
        case (Cons c vs')
        with 2(2) assms(4) have "c \<in> set r" by (cases r) auto
        moreover have "c \<in> set n" using 2(1) Cons by auto
        ultimately show ?thesis using assms(2) by blast
      qed
    qed
  next
    case (2 us)
    from append_eq_append_conv2 [THEN iffD1, OF 2(2)] consider
        vs where "us = r @ vs" "b = vs @ n @ y" | vs where "r = us @ vs" "vs @ b = n @ y"
      by blast
    then show ?thesis
    proof cases
      case 1
      then show ?thesis by (auto intro: occursI)
    next
      case (2 vs)
      show ?thesis
      proof (cases vs)
        case Nil
        with 2 occursI [of b "[]" n y] show ?thesis by simp
      next
        case (Cons c vs')
        with 2(2) assms(3) have "c \<in> set n" by (cases n) auto
        moreover have "c \<in> set r" using 2(1) Cons by simp
        ultimately show ?thesis using assms(2) by blast
      qed
    qed
  qed
qed

lemma occurs_join:
  assumes "set n \<inter> set r = {}" "n \<noteq> []" "r \<noteq> []" "occurs n (join r segs)" "segs \<noteq> []"
  shows "\<exists>s\<in>set segs. occurs n s"
  using assms(4,5)
proof (induction segs)
  case (Cons x xs)
  show ?case
  proof (cases "xs = []")
    case False
    with Cons.prems have "occurs n (x @ r @ join r xs)" by (simp add: join_Cons)
    from occurs_separated [OF this assms(1-3)] Cons.IH False show ?thesis by auto
  qed (use Cons.prems in simp)
qed simp

section \<open>Properties\<close>

text \<open>
  C39. Redaction of a response: the body is cut at the leftmost occurrences of the secret that do not
  overlap (before each match, and reaching into it, the secret does not occur), the pieces are joined with
  the redaction mark, and the result is refused when it exceeds the limit (no arithmetic of its size
  panics or wraps into an acceptance). There is one such cut only. If the secret shares no byte with the
  mark, it does not occur in what is returned.
\<close>

theorem redaction_exact:
  assumes "needle \<noteq> []"
  shows "(\<exists>!segs. leftmost_cut needle segs \<and> body = join needle segs)
    \<and> (\<exists>segs. leftmost_cut needle segs \<and> body = join needle segs
      \<and> redact_verbatim_bytes body needle =
          (if 1 < length segs \<and> MAX_FETCH_BODY_BYTES < length (join FETCH_REDACTION segs)
           then bail ''fetch response body exceeds size limit''
           else Inr (join FETCH_REDACTION segs)))
    \<and> (\<forall>out. redact_verbatim_bytes body needle = Inr out \<and> set needle \<inter> set FETCH_REDACTION = {}
         \<longrightarrow> \<not> occurs needle out)"
proof (intro conjI)
  obtain segs where segs: "leftmost_cut needle segs" "body = join needle segs"
      and result: "redact_verbatim_bytes body needle =
          (if 1 < length segs \<and> MAX_FETCH_BODY_BYTES < length (join FETCH_REDACTION segs)
           then bail ''fetch response body exceeds size limit''
           else Inr (join FETCH_REDACTION segs))"
    using redact_verbatim_exact [OF assms, of body] by blast
  then show "\<exists>segs. leftmost_cut needle segs \<and> body = join needle segs
      \<and> redact_verbatim_bytes body needle =
          (if 1 < length segs \<and> MAX_FETCH_BODY_BYTES < length (join FETCH_REDACTION segs)
           then bail ''fetch response body exceeds size limit''
           else Inr (join FETCH_REDACTION segs))" by blast
  show "\<exists>!segs. leftmost_cut needle segs \<and> body = join needle segs"
    using segs leftmost_cut_unique [OF _ _ _ assms] by metis
  have "FETCH_REDACTION \<noteq> []" "segs \<noteq> []" using segs(1) by (simp_all add: FETCH_REDACTION_def leftmost_cut_def)
  then show "\<forall>out. redact_verbatim_bytes body needle = Inr out \<and> set needle \<inter> set FETCH_REDACTION = {}
         \<longrightarrow> \<not> occurs needle out"
    using result occurs_join [of needle FETCH_REDACTION segs] leftmost_cut_pieces [OF segs(1)] assms
    by (auto split: if_splits)
qed

theorem redaction_exact_witness:
  "\<not> occurs [2] ([1] @ FETCH_REDACTION @ [3])"
proof -
  have "redact_verbatim_bytes [1, 2, 3] [2] = Inr ([1] @ FETCH_REDACTION @ [3])"
    by (simp add: redact_verbatim_bytes_def count_matches.simps redact_from.simps find_subslice_def
        redacted_body_len_def checked_usize_def FETCH_REDACTION_def MAX_FETCH_BODY_BYTES_def)
  moreover have "set [2] \<inter> set FETCH_REDACTION = {}"
    by (simp add: FETCH_REDACTION_def as_bytes_Cons)
  ultimately show ?thesis using redaction_exact [of "[2]" "[1, 2, 3]"] by blast
qed

text \<open>
  The limit of that guarantee: replacing is a single pass, so a secret that begins with the
  end of the redaction mark can be completed by the byte behind a match. A response that holds
  the secret \<open>]y\<close> followed by \<open>y\<close> still holds the secret after redaction.
\<close>

theorem redaction_single_pass:
  "redact_verbatim_bytes (as_bytes '']yy'') (as_bytes '']y'') = Inr (as_bytes ''[avault-redacted]y'')
   \<and> occurs (as_bytes '']y'') (as_bytes ''[avault-redacted]y'')"
proof
  show "redact_verbatim_bytes (as_bytes '']yy'') (as_bytes '']y'') = Inr (as_bytes ''[avault-redacted]y'')"
    by (simp add: redact_verbatim_bytes_def count_matches.simps redact_from.simps find_subslice_def as_bytes_Cons
        redacted_body_len_def checked_usize_def FETCH_REDACTION_def MAX_FETCH_BODY_BYTES_def)
  have "as_bytes ''[avault-redacted]y'' = as_bytes ''[avault-redacted'' @ as_bytes '']y'' @ []"
    by (simp add: as_bytes_Cons)
  then show "occurs (as_bytes '']y'') (as_bytes ''[avault-redacted]y'')" by (rule occursI)
qed

section \<open>The request that is sent\<close>

lemma for_each_eq_Inr: "for_each f xs = Inr u \<longleftrightarrow> list_all (\<lambda>x. f x = Inr ()) xs"
  by (induction xs) (auto simp: res_simps)

definition header_ok :: "string \<times> string \<Rightarrow> bool" where
  "header_ok = (\<lambda>(name, value). name \<noteq> [] \<and> \<not> eq_ignore_ascii_case name ''host''
     \<and> list_all is_header_token_byte name
     \<and> list_all (\<lambda>c. \<not> (code c < 0x20 \<or> code c = 0x7F)) value)"

lemma list_ex_not: "\<not> list_ex (\<lambda>x. \<not> P x) xs \<longleftrightarrow> list_all P xs"
  by (induction xs) simp_all

lemma validate_header_name_iff:
  "validate_header_name name = Inr u \<longleftrightarrow>
     name \<noteq> [] \<and> \<not> eq_ignore_ascii_case name ''host'' \<and> list_all is_header_token_byte name"
  by (auto simp: validate_header_name_def list_ex_not [symmetric])

lemma list_ex_iff_not_all: "\<not> list_ex P xs \<longleftrightarrow> list_all (\<lambda>x. \<not> P x) xs"
  by (induction xs) simp_all

lemma validate_header_iff: "validate_header h = Inr u \<longleftrightarrow> header_ok h"
  by (cases h) (auto simp: validate_header_def header_ok_def res_simps validate_header_name_iff
      list_ex_iff_not_all)

text \<open>What \<open>validate_fetch_input\<close> checks, as one predicate of the parsed URL.\<close>

definition fetch_policy :: "fetch_env \<Rightarrow> fetch_request \<Rightarrow> url \<Rightarrow> bool" where
  "fetch_policy F r u \<longleftrightarrow>
     (url_scheme u = ''https'' \<or> (url_scheme u = ''http'' \<and> is_loopback_url u))
     \<and> list_all (\<lambda>h. validate_allowed_host F h = Inr ()) (fr_allowed_hosts r)
     \<and> (\<exists>host. fetch_url_host F u = Some host
          \<and> list_ex (eq_ignore_ascii_case host) (fr_allowed_hosts r))
     \<and> validate_fetch_method (fr_method r) = Inr ()
     \<and> list_all header_ok (fr_headers r)
     \<and> (case fr_inject r of
          Bearer \<Rightarrow> list_all (\<lambda>(n, _). \<not> eq_ignore_ascii_case n ''Authorization'') (fr_headers r)
        | Header name \<Rightarrow> validate_header_name name = Inr ()
            \<and> list_all (\<lambda>(n, _). \<not> eq_ignore_ascii_case n name) (fr_headers r)
        | Query name \<Rightarrow> name \<noteq> [] \<and> name \<notin> set (url_query_names u)
            \<and> \<not> contains_char name CHR 0x0D \<and> \<not> contains_char name CHR 0x0A)"

lemma reject_header_conflict_iff:
  "reject_header_conflict hs n = Inr u \<longleftrightarrow> list_all (\<lambda>(m, _). \<not> eq_ignore_ascii_case m n) hs"
proof -
  have "list_ex (\<lambda>(m, _). eq_ignore_ascii_case m n) hs \<longleftrightarrow> \<not> list_all (\<lambda>(m, _). \<not> eq_ignore_ascii_case m n) hs"
    by (induction hs) auto
  then show ?thesis by (auto simp: reject_header_conflict_def)
qed

lemma validate_allowed_fetch_host_iff:
  "validate_allowed_fetch_host F u hosts = Inr x \<longleftrightarrow>
     list_all (\<lambda>h. validate_allowed_host F h = Inr ()) hosts
     \<and> (\<exists>host. fetch_url_host F u = Some host \<and> list_ex (eq_ignore_ascii_case host) hosts)"
  by (auto simp: validate_allowed_fetch_host_def res_simps for_each_eq_Inr split: option.splits)

lemma validate_fetch_input_iff:
  "validate_fetch_input F fetch = Inr (u, lo) \<longleftrightarrow>
     url_parse F (fr_url (fi_request fetch)) = Some u \<and> lo = is_loopback_url u
     \<and> fetch_policy F (fi_request fetch) u"
proof -
  have url: "validate_fetch_url u = Inr x \<longleftrightarrow>
      url_scheme u = ''https'' \<or> (url_scheme u = ''http'' \<and> is_loopback_url u)" for u x
    by (auto simp: validate_fetch_url_def)
  have q: "validate_query_name n = Inr x \<longleftrightarrow> n \<noteq> [] \<and> \<not> contains_char n CHR 0x0D \<and> \<not> contains_char n CHR 0x0A"
    for n x by (auto simp: validate_query_name_def)
  have c: "reject_query_conflict u n = Inr x \<longleftrightarrow> n \<notin> set (url_query_names u)" for u n x
    by (auto simp: reject_query_conflict_def)
  show ?thesis
    unfolding validate_fetch_input_def fetch_policy_def Let_def
    by (cases "fr_inject (fi_request fetch)")
      (auto simp: res_simps url q c for_each_eq_Inr validate_header_iff reject_header_conflict_iff
        validate_allowed_fetch_host_iff)
qed

lemma visible_text:
  assumes "fetch_header_credential_bytes secret label = Inr c" "from_utf8 c = Some t"
  shows "list_all (\<lambda>c. \<not> (code c < 0x20 \<or> code c = 0x7F)) t"
proof -
  from assms(1) have "list_all (\<lambda>b. \<not> is_http_control_byte b) c"
    by (auto simp: fetch_header_credential_bytes_def Let_def list_ex_iff_not_all split: if_splits)
  moreover from assms(2) have "c = as_bytes t" by (simp add: from_utf8_eq_Some)
  moreover have "is_http_control_byte (of_nat (of_char x)) \<longleftrightarrow> code x < 0x20 \<or> code x = 0x7F" for x
    by (simp add: is_http_control_byte_def word_less_nat_alt word_unat_eq_iff code_def)
  ultimately show ?thesis by (simp add: as_bytes_def list_all_iff)
qed

lemma authorization_ok: "validate_header_name ''Authorization'' = Inr ()"
  by (simp add: validate_header_name_iff eq_ignore_ascii_case_def to_ascii_lowercase_def
      is_header_token_byte_def ascii_defs)

definition injected_header :: "fetch_inject \<Rightarrow> string option" where
  "injected_header i = (case i of Bearer \<Rightarrow> Some ''Authorization'' | Header name \<Rightarrow> Some name | Query _ \<Rightarrow> None)"

lemma attach_credential_header:
  assumes "attach_credential F r secret = Inr (h, target, needles)"
    and "case fr_inject r of Header name \<Rightarrow> validate_header_name name = Inr () | _ \<Rightarrow> True"
  shows "map_option fst h = injected_header (fr_inject r)
    \<and> (case h of None \<Rightarrow> True | Some hv \<Rightarrow> header_ok hv \<and> target = fr_url r)"
proof (cases "fr_inject r")
  case Bearer
  with assms(1) obtain c t where c: "fetch_header_credential_bytes secret ''fetch bearer credential'' = Inr c"
    "from_utf8 c = Some t" "h = Some (''Authorization'', ''Bearer '' @ t)" "target = fr_url r"
    by (auto simp: attach_credential_def res_simps Let_def split: option.splits)
  have "list_all (\<lambda>c. \<not> (code c < 0x20 \<or> code c = 0x7F)) ''Bearer ''" by (simp add: code_def)
  with c visible_text [OF c(1,2)] authorization_ok Bearer show ?thesis
    by (simp add: header_ok_def validate_header_name_iff injected_header_def)
next
  case (Header name)
  with assms(1) obtain c t where c: "fetch_header_credential_bytes secret ''fetch header credential'' = Inr c"
    "from_utf8 c = Some t" "h = Some (name, t)" "target = fr_url r"
    by (auto simp: attach_credential_def res_simps Let_def split: option.splits)
  with visible_text [OF c(1,2)] assms(2) Header show ?thesis
    by (simp add: header_ok_def validate_header_name_iff injected_header_def)
next
  case (Query name)
  with assms(1) show ?thesis
    by (auto simp: attach_credential_def res_simps Let_def injected_header_def)
qed

text \<open>The URL with one more parameter in its query, as text.\<close>

definition with_parameter :: "string \<Rightarrow> string \<Rightarrow> string" where
  "with_parameter url parameter =
     (let base = takeWhile (\<lambda>c. c \<noteq> CHR ''#'') url
      in base @ (if contains_char base CHR ''?'' then ''&'' else ''?'') @ parameter @ dropWhile (\<lambda>c. c \<noteq> CHR ''#'') url)"

text \<open>
  What is relied on of the package \<open>url\<close>: a parameter of safe characters in the query does not change
  which scheme and host a URL has, if it still is one.
\<close>

definition url_query_law :: "fetch_env \<Rightarrow> bool" where
  "url_query_law F \<longleftrightarrow> (\<forall>t u parameter. url_parse F t = Some u \<longrightarrow>
     list_all (\<lambda>c. query_safe c \<or> c = CHR ''='') parameter \<longrightarrow>
     (case url_parse F (with_parameter t parameter) of
        None \<Rightarrow> True | Some u' \<Rightarrow> url_scheme u' = url_scheme u \<and> url_host u' = url_host u))"

lemma attach_query:
  assumes "attach_credential F r secret = Inr (h, target, needles)" "fr_inject r = Query name"
  shows "h = None \<and> (\<exists>t. from_utf8 secret = Some t
    \<and> target = with_parameter (fr_url r) (query_encode name @ ''='' @ query_encode t))"
  using assms
  by (auto simp: attach_credential_def res_simps Let_def query_credential_exact secret_utf8_def lib_res_def
      with_parameter_def split: if_splits option.splits)

lemma target_in_policy:
  assumes law: "url_query_law F" and policy: "fetch_policy F r u" "url_parse F (fr_url r) = Some u"
    and attached: "attach_credential F r secret = Inr (h, target, needles)"
  shows "case url_parse F target of None \<Rightarrow> True
    | Some u' \<Rightarrow> url_scheme u' = url_scheme u \<and> url_host u' = url_host u"
proof (cases "fr_inject r")
  case (Query name)
  obtain t where "target = with_parameter (fr_url r) (query_encode name @ ''='' @ query_encode t)"
    using attach_query [OF attached Query] by blast
  moreover have "list_all (\<lambda>c. query_safe c \<or> c = CHR ''='') (query_encode name @ ''='' @ query_encode t)"
    using query_encode_safe [of name] query_encode_safe [of t] by (auto simp: list_all_iff)
  ultimately show ?thesis using law policy(2) unfolding url_query_law_def by blast
next
  case Bearer
  then have "target = fr_url r" using attached by (auto simp: attach_credential_def res_simps Let_def split: option.splits)
  then show ?thesis using policy(2) by simp
next
  case (Header name)
  then have "target = fr_url r" using attached by (auto simp: attach_credential_def res_simps Let_def split: option.splits)
  then show ?thesis using policy(2) by simp
qed

text \<open>
  C18. A credential leaves only as the policy allows: when the request validates and the credential
  attaches, the request that is sent goes to the URL of the request, with one encoded parameter added
  to its query if the credential is to go there. If that is a URL at all, its host is on the allow-list
  over https, or over http to a loopback host. The request follows no redirect, uses no proxy for a
  loopback host, carries only well-formed headers (token names, none called \<open>Host\<close>, no control
  character in a value), and the credential's header exactly once, whatever its case.
\<close>

theorem fetch_sends_within_policy:
  assumes law: "url_query_law F" and valid: "validate_fetch_input F fetch = Inr (u, lo)"
    and attached: "attach_credential F (fi_request fetch) secret = Inr (h, target, needles)"
  defines "r \<equiv> fi_request fetch"
  defines "sent \<equiv> fetch_http_request (fr_method r) target (fr_headers r) h (fr_body r) lo"
  shows "(case url_parse F (hr_url sent) of None \<Rightarrow> True
      | Some u' \<Rightarrow> (url_scheme u' = ''https'' \<or> (url_scheme u' = ''http'' \<and> is_loopback_url u'))
          \<and> is_loopback_url u' = lo
          \<and> (\<exists>host allowed. fetch_url_host F u' = Some host \<and> allowed \<in> set (fr_allowed_hosts r)
               \<and> eq_ignore_ascii_case host allowed))
    \<and> hr_redirects sent = 0 \<and> hr_proxy_from_env sent = (\<not> lo)
    \<and> list_all header_ok (hr_headers sent)
    \<and> (case fr_inject r of
         Query name \<Rightarrow> hr_headers sent = fr_headers r
           \<and> (\<exists>t. secret = as_bytes t \<and> hr_url sent = with_parameter (fr_url r) (query_encode name @ ''='' @ query_encode t))
       | _ \<Rightarrow> hr_url sent = fr_url r
           \<and> length (filter (\<lambda>(n, _). eq_ignore_ascii_case n (the (injected_header (fr_inject r)))) (hr_headers sent)) = 1)"
proof (intro conjI)
  from valid have u: "url_parse F (fr_url r) = Some u" "lo = is_loopback_url u"
    and policy: "fetch_policy F r u"
    by (simp_all add: validate_fetch_input_iff r_def)
  note attached = attached [folded r_def]
  from policy have "case fr_inject r of Header name \<Rightarrow> validate_header_name name = Inr () | _ \<Rightarrow> True"
    by (auto simp: fetch_policy_def split: fetch_inject.splits)
  from attach_credential_header [OF attached this]
  have h: "map_option fst h = injected_header (fr_inject r)"
    "case h of None \<Rightarrow> True | Some hv \<Rightarrow> header_ok hv \<and> target = fr_url r" by simp_all
  have hs: "hr_headers sent = fr_headers r @ (case h of None \<Rightarrow> [] | Some h \<Rightarrow> [h])" and url: "hr_url sent = target"
    by (simp_all add: sent_def fetch_http_request_def)
  show "hr_redirects sent = 0" "hr_proxy_from_env sent = (\<not> lo)"
    by (simp_all add: sent_def fetch_http_request_def)
  show "list_all header_ok (hr_headers sent)"
    using policy h(2) by (auto simp: hs fetch_policy_def split: option.splits)
  show "case url_parse F (hr_url sent) of None \<Rightarrow> True
      | Some u' \<Rightarrow> (url_scheme u' = ''https'' \<or> (url_scheme u' = ''http'' \<and> is_loopback_url u'))
          \<and> is_loopback_url u' = lo
          \<and> (\<exists>host allowed. fetch_url_host F u' = Some host \<and> allowed \<in> set (fr_allowed_hosts r)
               \<and> eq_ignore_ascii_case host allowed)"
    using target_in_policy [OF law policy u(1) attached] policy u(2)
    by (auto simp: url fetch_policy_def fetch_url_host_def is_loopback_url_def list_ex_iff split: option.split)
  have none: "filter (\<lambda>(n, _). eq_ignore_ascii_case n name) (fr_headers r) = []"
    if "injected_header (fr_inject r) = Some name" for name
    using policy that
    by (auto simp: fetch_policy_def injected_header_def list_all_iff filter_empty_conv
        split: fetch_inject.splits)
  have once: "hr_url sent = fr_url r
      \<and> length (filter (\<lambda>(n, _). eq_ignore_ascii_case n (the (injected_header (fr_inject r)))) (hr_headers sent)) = 1"
    if "injected_header (fr_inject r) = Some name" for name
    using h none [OF that] that by (cases h) (auto simp: hs url)
  show "case fr_inject r of
         Query name \<Rightarrow> hr_headers sent = fr_headers r
           \<and> (\<exists>t. secret = as_bytes t \<and> hr_url sent = with_parameter (fr_url r) (query_encode name @ ''='' @ query_encode t))
       | _ \<Rightarrow> hr_url sent = fr_url r
           \<and> length (filter (\<lambda>(n, _). eq_ignore_ascii_case n (the (injected_header (fr_inject r)))) (hr_headers sent)) = 1"
  proof (cases "fr_inject r")
    case (Query name)
    then show ?thesis using attach_query [OF attached Query] by (auto simp: hs url from_utf8_eq_Some)
  qed (use once in \<open>auto simp: injected_header_def\<close>)
qed

text \<open>A host name that begins and ends with visible ASCII is not changed by trimming.\<close>

definition visible :: "char \<Rightarrow> bool" where
  "visible c \<longleftrightarrow> 33 \<le> code c \<and> code c \<le> 126"

lemma white_space_not_visible:
  assumes "w \<in> set white_space"
  shows "\<not> visible (hd w) \<and> \<not> visible (last w)"
proof -
  have byte: "code (char_of (unat (byte_of m))) = m" if "m < 256" for m using that by simp
  from assms obtain n where w: "w = string_of (encode_utf8 n)"
    and n: "(9 \<le> n \<and> n \<le> 13 \<or> n = 32) \<or> (128 \<le> n \<and> n < 65536)"
    unfolding white_space_def by auto
  from n consider "n < 128" "n \<le> 32" | "128 \<le> n" "n < 2048" | "2048 \<le> n" "n < 65536" by linarith
  then show ?thesis
  proof cases
    case 1
    then show ?thesis by (simp add: w encode_utf8_def string_of_def visible_def)
  next
    case 2
    then have "n div 64 < 32" by (simp add: less_mult_imp_div_less)
    with 2 show ?thesis by (simp add: w encode_utf8_def string_of_def visible_def)
  next
    case 3
    then have "n div 4096 < 16" by (simp add: less_mult_imp_div_less)
    with 3 show ?thesis by (simp add: w encode_utf8_def string_of_def visible_def)
  qed
qed

lemma trim_visible:
  assumes "s \<noteq> []" "visible (hd s)" "visible (last s)"
  shows "trim s = s"
proof -
  have "find (\<lambda>w. w \<noteq> [] \<and> starts_with w s) white_space = None"
  proof -
    have "hd w = hd s" if "w \<noteq> []" "starts_with w s" for w
      using that assms(1) by (metis starts_with_def hd_take length_greater_0_conv)
    then show ?thesis using assms(2) white_space_not_visible unfolding find_None_iff by metis
  qed
  then have "trim_start s = s" by (subst trim_start.simps) simp
  moreover have "find (\<lambda>w. w \<noteq> [] \<and> ends_with w s) white_space = None"
  proof -
    have "last w = last s" if "w \<noteq> []" "ends_with w s" for w
      using that assms(1)
      by (metis ends_with_def starts_with_def hd_take hd_rev length_greater_0_conv rev_is_Nil_conv)
    then show ?thesis using assms(3) white_space_not_visible unfolding find_None_iff by metis
  qed
  then have "trim_end s = s" by (subst trim_end.simps) simp
  ultimately show ?thesis by (simp add: trim_def)
qed

definition sample_fetch_env :: fetch_env where
  "sample_fetch_env = \<lparr>
     url_parse = (\<lambda>t. Some \<lparr>url_scheme = ''https'', url_host = Some (Domain ''api.test''),
                           url_query_names = []\<rparr>),
     ipv6_parses = (\<lambda>t. False), ipv6_display = (\<lambda>a. ''::''),
     http_send = (\<lambda>r. Inr \<lparr>hp_status = 200, hp_headers = [], hp_body = Inr []\<rparr>)\<rparr>"

definition sample_fetch :: fetch_input where
  "sample_fetch = \<lparr>fi_name = ''n'', fi_tier = Standard, fi_envelope = sample_protected,
     fi_dek_blindbox = None, fi_approval = None,
     fi_request = \<lparr>fr_method = ''get'', fr_url = ''https://api.test/#f'', fr_allowed_hosts = [''api.test''],
       fr_headers = [], fr_body = None, fr_inject = Query ''k''\<rparr>\<rparr>"

theorem fetch_sends_within_policy_witness:
  "\<exists>target needles t. attach_credential sample_fetch_env (fi_request sample_fetch) (as_bytes ''tok'') = Inr (None, target, needles) \<and>
     as_bytes ''tok'' = as_bytes t \<and> target = ''https://api.test/?'' @ query_encode ''k'' @ ''='' @ query_encode t @ ''#f''"
proof -
  have t: "trim ''api.test'' = ''api.test''" by (rule trim_visible) (simp_all add: visible_def code_def)
  have v: "validate_fetch_input sample_fetch_env sample_fetch =
      Inr (\<lparr>url_scheme = ''https'', url_host = Some (Domain ''api.test''), url_query_names = []\<rparr>, False)"
    unfolding validate_fetch_input_iff
    by (simp add: sample_fetch_env_def sample_fetch_def fetch_policy_def is_loopback_url_def
        validate_allowed_host_def t contains_char_def fetch_url_host_def validate_fetch_method_def
        eq_ignore_ascii_case_def to_ascii_lowercase_def to_ascii_uppercase_def ascii_defs Let_def)
  have law: "url_query_law sample_fetch_env" by (simp add: url_query_law_def sample_fetch_env_def)
  have f: "from_utf8 (as_bytes ''tok'') = Some ''tok''"
    by (rule from_utf8_as_bytes) (simp add: as_bytes_Cons)
  have z: "0 \<notin> set (as_bytes ''tok'')" by (simp add: as_bytes_Cons)
  have "\<exists>target needles. attach_credential sample_fetch_env (fi_request sample_fetch) (as_bytes ''tok'') = Inr (None, target, needles)"
    by (simp add: attach_credential_def sample_fetch_def Let_def secret_utf8_def f z build_secret_query_url_def sample_fetch_env_def)
  then obtain target needles where a: "attach_credential sample_fetch_env (fi_request sample_fetch) (as_bytes ''tok'')
      = Inr (None, target, needles)" by blast
  from fetch_sends_within_policy [OF law v a] obtain t where
      "as_bytes ''tok'' = as_bytes t" "target = with_parameter ''https://api.test/#f'' (query_encode ''k'' @ ''='' @ query_encode t)"
    by (auto simp: sample_fetch_def fetch_http_request_def)
  with a show ?thesis by (auto simp: with_parameter_def contains_char_def)
qed

end
