(* ===== verification/Frames.thy ===== *)
theory Frames
  imports StdinIO Rendering
begin

text \<open>
  The two framed protocols of \<open>crates/avault-cli/src/main.rs\<close>: the frame that carries opened
  secrets to the run helper over its standard input, and the length-prefixed frames of the
  agent's socket with their deadlines.

  The standard library's \<open>read_exact\<close> is modelled over any reader; it retries a read that a
  signal interrupted, so such a read is not an event here. A writer is the function \<open>write_all\<close>
  of the state it writes to.
\<close>

section \<open>Exact reads\<close>

function read_exact :: "'s read_fn \<Rightarrow> nat \<Rightarrow> bytes \<Rightarrow> 's \<Rightarrow> (io_kind + bytes) \<times> 's" where
  "read_exact rd need acc s =
     (if need = 0 then (Inr acc, s)
      else case rd s need of
          (Inl k, s) \<Rightarrow> (Inl k, s)
        | (Inr bs, s) \<Rightarrow>
            if bs = [] then (Inl UnexpectedEof, s)
            else if need < length bs then (Inl (OtherIo ''reader overran its buffer''), s)
            else read_exact rd (need - length bs) (acc @ bs) s)"
  by pat_completeness auto
termination
  by (relation "measure (\<lambda>(rd, need, acc, s). need)") (auto simp: neq_Nil_conv)

declare read_exact.simps [simp del]

context reader
begin

lemma read_exact_clean:
  assumes "clean s" "need \<le> length (pending s)"
  shows "\<exists>s'. read_exact rd need acc s = (Inr (acc @ take need (pending s)), s')
    \<and> pending s' = drop need (pending s) \<and> clean s'"
  using assms
proof (induction need arbitrary: acc s rule: less_induct)
  case (less need)
  show ?case
  proof (cases "need = 0")
    case True
    with less.prems show ?thesis by (subst read_exact.simps) simp
  next
    case False
    obtain r s1 where r: "rd s need = (r, s1)" by (cases "rd s need")
    show ?thesis
    proof (cases r)
      case (Inl k)
      with r rd_fault less.prems show ?thesis by blast
    next
      case (Inr bs)
      have ne: "bs \<noteq> []"
        using r Inr rd_end less.prems(2) False by fastforce
      with r Inr have p: "pending s = bs @ pending s1" "clean s1" and len: "length bs \<le> need"
        using rd_data rd_length less.prems(1) by blast+
      have "need - length bs < need" using ne False by (cases bs) simp_all
      moreover have "need - length bs \<le> length (pending s1)" using less.prems(2) p len by simp
      ultimately obtain s' where
        "read_exact rd (need - length bs) (acc @ bs) s1 = (Inr ((acc @ bs) @ take (need - length bs) (pending s1)), s')"
        "pending s' = drop (need - length bs) (pending s1)" "clean s'"
        using less.IH p(2) by blast
      with r Inr ne len False p show ?thesis
        by (subst read_exact.simps) simp
    qed
  qed
qed

end

section \<open>The run helper's frame\<close>

(* SRC cli MAX_AGENT_RUN_SECRETS *)
definition MAX_AGENT_RUN_SECRETS :: nat where
  "MAX_AGENT_RUN_SECRETS = 1024"

(* SRC cli MAX_AGENT_RUN_ENV_NAME_BYTES *)
definition MAX_AGENT_RUN_ENV_NAME_BYTES :: nat where
  "MAX_AGENT_RUN_ENV_NAME_BYTES = 4096"

(* SRC cli AGENT_RUN_HELPER_MAGIC *)
definition AGENT_RUN_HELPER_MAGIC :: bytes where
  "AGENT_RUN_HELPER_MAGIC = as_bytes ''avault-agent-run-env-v1'' @ [0]"

type_synonym 'w write_fn = "'w \<Rightarrow> bytes \<Rightarrow> (io_kind + unit) \<times> 'w"

text \<open>An I/O result as the program's, under a context.\<close>

definition io_res :: "string \<Rightarrow> (io_kind + 'a) \<times> 's \<Rightarrow> 'a res \<times> 's" where
  "io_res m r = (case r of (Inl k, s) \<Rightarrow> (Inl [Msg m, Io k], s) | (Inr x, s) \<Rightarrow> (Inr x, s))"

definition lift_res :: "'a res \<Rightarrow> 's \<Rightarrow> 'a res \<times> 's" where
  "lift_res r s = (r, s)"

(* SRC cli write_agent_run_helper_bytes *)
definition write_agent_run_helper_bytes :: "'w write_fn \<Rightarrow> bytes \<Rightarrow> 'w \<Rightarrow> unit res \<times> 'w" where
  "write_agent_run_helper_bytes wr bs w =
     (if \<not> length bs < 2 ^ 32
      then (Inl [Msg ''agent run helper field is too large'', Lib ''TryFromIntError''], w)
      else then_st (io_res ''failed to write agent run helper frame'' (wr w (be32 (length bs)))) (\<lambda>_ w.
           io_res ''failed to write agent run helper frame'' (wr w bs)))"

fun write_agent_run_secrets :: "'w write_fn \<Rightarrow> opened_secret list \<Rightarrow> 'w \<Rightarrow> unit res \<times> 'w" where
  "write_agent_run_secrets wr [] w = (Inr (), w)"
| "write_agent_run_secrets wr (secret # rest) w =
     then_st (lift_res (validate_shell_name (os_name secret) ''env var name'') w) (\<lambda>_ w.
     then_st (lift_res (validate_env_value (os_plaintext secret)) w) (\<lambda>_ w.
     then_st (write_agent_run_helper_bytes wr (as_bytes (os_name secret)) w) (\<lambda>_ w.
     then_st (write_agent_run_helper_bytes wr (os_plaintext secret) w) (\<lambda>_ w.
     write_agent_run_secrets wr rest w))))"

(* SRC cli write_agent_run_helper_frame *)
definition write_agent_run_helper_frame :: "'w write_fn \<Rightarrow> opened_secret list \<Rightarrow> 'w \<Rightarrow> unit res \<times> 'w" where
  "write_agent_run_helper_frame wr opened w =
     (if opened = [] then (bail ''agent run helper requires at least one secret'', w)
      else if \<not> length opened < 2 ^ 32
      then (Inl [Msg ''too many secrets for agent run helper'', Lib ''TryFromIntError''], w)
      else then_st (io_res ''failed to write agent run helper frame'' (wr w AGENT_RUN_HELPER_MAGIC)) (\<lambda>_ w.
           then_st (io_res ''failed to write agent run helper frame'' (wr w (be32 (length opened)))) (\<lambda>_ w.
           write_agent_run_secrets wr opened w)))"

definition read_helper_exact :: "'s read_fn \<Rightarrow> nat \<Rightarrow> 's \<Rightarrow> bytes res \<times> 's" where
  "read_helper_exact rd n s =
     io_res ''failed to read agent run helper frame'' (read_exact rd n [] s)"

(* SRC cli read_agent_run_helper_u32 *)
definition read_agent_run_helper_u32 :: "'s read_fn \<Rightarrow> 's \<Rightarrow> nat res \<times> 's" where
  "read_agent_run_helper_u32 rd s =
     then_st (read_helper_exact rd 4 s) (\<lambda>buf s. (Inr (be_value buf), s))"

(* SRC cli 885-905 read_agent_run_helper_frame *)
definition read_agent_run_secret :: "'s read_fn \<Rightarrow> 's \<Rightarrow> opened_secret res \<times> 's" where
  "read_agent_run_secret rd s =
     then_st (read_agent_run_helper_u32 rd s) (\<lambda>name_len s.
     if name_len = 0 \<or> name_len > MAX_AGENT_RUN_ENV_NAME_BYTES
     then (bail ''agent run helper env name is invalid'', s)
     else then_st (read_helper_exact rd name_len s) (\<lambda>name s.
          then_st (case from_utf8 name of
              None \<Rightarrow> (Inl [Msg ''agent run helper env name is invalid'', Lib ''Utf8Error''], s)
            | Some name \<Rightarrow> (Inr name, s)) (\<lambda>name s.
          then_st (lift_res (validate_shell_name name ''env var name'') s) (\<lambda>_ s.
          then_st (read_agent_run_helper_u32 rd s) (\<lambda>value_len s.
          if value_len > MAX_STDIN_SECRET_BYTES
          then (bail ''agent run helper secret value is too large'', s)
          else then_st (read_helper_exact rd value_len s) (\<lambda>plaintext s.
               then_st (lift_res (validate_env_value plaintext) s) (\<lambda>_ s.
               (Inr \<lparr>os_name = name, os_plaintext = plaintext\<rparr>, s))))))))"

fun read_agent_run_secrets ::
    "'s read_fn \<Rightarrow> nat \<Rightarrow> opened_secret list \<Rightarrow> 's \<Rightarrow> opened_secret list res \<times> 's" where
  "read_agent_run_secrets rd 0 opened s = (Inr opened, s)"
| "read_agent_run_secrets rd (Suc n) opened s =
     then_st (read_agent_run_secret rd s) (\<lambda>secret s.
     read_agent_run_secrets rd n (opened @ [secret]) s)"

(* SRC cli read_agent_run_helper_frame *)
definition read_agent_run_helper_frame :: "'s read_fn \<Rightarrow> 's \<Rightarrow> opened_secret list res \<times> 's" where
  "read_agent_run_helper_frame rd s =
     then_st (read_helper_exact rd (length AGENT_RUN_HELPER_MAGIC) s) (\<lambda>magic s.
     if magic \<noteq> AGENT_RUN_HELPER_MAGIC then (bail ''agent run helper frame is invalid'', s)
     else then_st (read_agent_run_helper_u32 rd s) (\<lambda>count s.
          if count = 0 \<or> count > MAX_AGENT_RUN_SECRETS
          then (bail ''agent run helper secret count is invalid'', s)
          else read_agent_run_secrets rd count [] s))"

section \<open>Lemmas on the run helper's frame\<close>

definition append_writer :: "bytes write_fn" where
  "append_writer w bs = (Inr (), w @ bs)"

definition field_frame :: "bytes \<Rightarrow> bytes" where
  "field_frame bs = be32 (length bs) @ bs"

definition secret_frame :: "opened_secret \<Rightarrow> bytes" where
  "secret_frame s = field_frame (as_bytes (os_name s)) @ field_frame (os_plaintext s)"

text \<open>What both ends require of a secret, and what the reading end limits on top.\<close>

definition secret_deliverable :: "opened_secret \<Rightarrow> bool" where
  "secret_deliverable s \<longleftrightarrow> validate_shell_name (os_name s) ''env var name'' = Inr ()
     \<and> validate_env_value (os_plaintext s) = Inr ()"

definition secret_bounded :: "opened_secret \<Rightarrow> bool" where
  "secret_bounded s \<longleftrightarrow> length (os_name s) \<le> MAX_AGENT_RUN_ENV_NAME_BYTES
     \<and> length (os_plaintext s) \<le> MAX_STDIN_SECRET_BYTES"

lemma io_res_simps [simp]:
  "io_res m (Inr x, s) = (Inr x, s)" "io_res m (Inl k, s) = (Inl [Msg m, Io k], s)"
  by (simp_all add: io_res_def)

lemma io_res_eq_Inr [res_simps]: "io_res m r = (Inr x, s) \<longleftrightarrow> r = (Inr x, s)"
  by (auto simp: io_res_def split: prod.splits sum.splits)

lemma lift_res_eq_Inr [res_simps]: "lift_res r s = (Inr x, s') \<longleftrightarrow> r = Inr x \<and> s' = s"
  by (auto simp: lift_res_def)

lemma then_st_lift_Inr [simp]: "then_st (lift_res (Inr x) s) f = f x s"
  by (simp add: lift_res_def)

lemma write_helper_bytes_append:
  "write_agent_run_helper_bytes append_writer bs w = (Inr (), w') \<longleftrightarrow>
     length bs < 2 ^ 32 \<and> w' = w @ field_frame bs"
  by (auto simp: write_agent_run_helper_bytes_def append_writer_def field_frame_def)

lemma write_run_secrets_append:
  "write_agent_run_secrets append_writer opened w = (Inr (), w') \<longleftrightarrow>
     list_all secret_deliverable opened
     \<and> list_all (\<lambda>s. length (os_name s) < 2 ^ 32 \<and> length (os_plaintext s) < 2 ^ 32) opened
     \<and> w' = w @ concat (map secret_frame opened)"
proof (induction opened arbitrary: w)
  case Nil
  then show ?case by auto
next
  case (Cons s opened)
  show ?case
    by (auto simp: res_simps write_helper_bytes_append Cons.IH secret_deliverable_def secret_frame_def)
qed

lemma write_frame_append:
  "write_agent_run_helper_frame append_writer opened w = (Inr (), w') \<longleftrightarrow>
     opened \<noteq> [] \<and> length opened < 2 ^ 32 \<and> list_all secret_deliverable opened
     \<and> list_all (\<lambda>s. length (os_name s) < 2 ^ 32 \<and> length (os_plaintext s) < 2 ^ 32) opened
     \<and> w' = w @ AGENT_RUN_HELPER_MAGIC @ be32 (length opened) @ concat (map secret_frame opened)"
  by (auto simp: write_agent_run_helper_frame_def res_simps append_writer_def
      write_run_secrets_append)

lemma shell_name_utf8:
  assumes "validate_shell_name name label = Inr ()"
  shows "from_utf8 (as_bytes name) = Some name \<and> name \<noteq> []"
proof -
  from assms have all: "list_all shell_rest name" "name \<noteq> []" by (auto simp: validate_shell_name_iff)
  have "shell_rest c \<Longrightarrow> code c < 128" for c
    by (auto simp: shell_rest_def is_ascii_uppercase_def is_ascii_lowercase_def is_ascii_digit_def code_def)
  with all(1) have "list_all (\<lambda>b. unat b < 128) (as_bytes name)"
    by (auto simp: list_all_iff as_bytes_def code_def)
  with all show ?thesis by (simp add: from_utf8_as_bytes utf8_valid_ascii)
qed

context reader
begin

lemma read_helper_exact_clean:
  assumes "clean s" "pending s = a @ r" "length a = n"
  shows "\<exists>s'. read_helper_exact rd n s = (Inr a, s') \<and> pending s' = r \<and> clean s'"
proof -
  have "n \<le> length (pending s)" using assms by simp
  from read_exact_clean [OF assms(1) this, of "[]"] assms(2,3) show ?thesis
    by (auto simp: read_helper_exact_def)
qed

lemma read_helper_u32_clean:
  assumes "clean s" "pending s = be32 n @ r" "n < 2 ^ 32"
  shows "\<exists>s'. read_agent_run_helper_u32 rd s = (Inr n, s') \<and> pending s' = r \<and> clean s'"
proof -
  have "length (be32 n) = 4" by simp
  from read_helper_exact_clean [OF assms(1,2) this] assms(3) show ?thesis
    by (auto simp: read_agent_run_helper_u32_def be_value_be32)
qed

lemma read_run_secret_clean:
  assumes "clean s" "pending s = secret_frame x @ r" "secret_deliverable x" "secret_bounded x"
  shows "\<exists>s'. read_agent_run_secret rd s = (Inr x, s') \<and> pending s' = r \<and> clean s'"
proof -
  have small: "length (os_name x) < 2 ^ 32" "length (os_plaintext x) < 2 ^ 32"
    using assms(4) by (auto simp: secret_bounded_def MAX_AGENT_RUN_ENV_NAME_BYTES_def
        MAX_STDIN_SECRET_BYTES_def)
  have name: "validate_shell_name (os_name x) ''env var name'' = Inr ()"
    "validate_env_value (os_plaintext x) = Inr ()" using assms(3) by (auto simp: secret_deliverable_def)
  note utf8 = shell_name_utf8 [OF name(1)]
  have "pending s = be32 (length (os_name x)) @ as_bytes (os_name x) @ be32 (length (os_plaintext x))
      @ os_plaintext x @ r"
    using assms(2) by (simp add: secret_frame_def field_frame_def)
  from read_helper_u32_clean [OF assms(1) this small(1)] obtain s1 where
    s1: "read_agent_run_helper_u32 rd s = (Inr (length (os_name x)), s1)"
    "pending s1 = as_bytes (os_name x) @ be32 (length (os_plaintext x)) @ os_plaintext x @ r" "clean s1"
    by blast
  from read_helper_exact_clean [OF s1(3,2), of "length (os_name x)"] obtain s2 where
    s2: "read_helper_exact rd (length (os_name x)) s1 = (Inr (as_bytes (os_name x)), s2)"
    "pending s2 = be32 (length (os_plaintext x)) @ os_plaintext x @ r" "clean s2" by auto
  from read_helper_u32_clean [OF s2(3,2) small(2)] obtain s3 where
    s3: "read_agent_run_helper_u32 rd s2 = (Inr (length (os_plaintext x)), s3)"
    "pending s3 = os_plaintext x @ r" "clean s3" by blast
  from read_helper_exact_clean [OF s3(3,2) refl] obtain s4 where
    s4: "read_helper_exact rd (length (os_plaintext x)) s3 = (Inr (os_plaintext x), s4)"
    "pending s4 = r" "clean s4" by blast
  have "length (os_name x) \<noteq> 0" using utf8 by simp
  with s1 s2 s3 s4 utf8 name assms(4) show ?thesis
    by (auto simp: read_agent_run_secret_def secret_bounded_def)
qed

lemma read_run_secrets_clean:
  assumes "clean s" "pending s = concat (map secret_frame xs) @ r"
    "list_all secret_deliverable xs" "list_all secret_bounded xs"
  shows "\<exists>s'. read_agent_run_secrets rd (length xs) acc s = (Inr (acc @ xs), s') \<and> pending s' = r \<and> clean s'"
  using assms
proof (induction xs arbitrary: acc s)
  case Nil
  then show ?case by simp
next
  case (Cons x xs)
  then have "pending s = secret_frame x @ (concat (map secret_frame xs) @ r)"
    "secret_deliverable x" "secret_bounded x" by simp_all
  from read_run_secret_clean [OF Cons.prems(1) this] obtain s1 where
    s1: "read_agent_run_secret rd s = (Inr x, s1)" "pending s1 = concat (map secret_frame xs) @ r" "clean s1"
    by blast
  with Cons.IH [of s1 "acc @ [x]"] Cons.prems show ?case by simp
qed

lemma read_run_frame_clean:
  assumes "clean s"
    "pending s = AGENT_RUN_HELPER_MAGIC @ be32 (length xs) @ concat (map secret_frame xs) @ r"
    "xs \<noteq> []" "length xs \<le> MAX_AGENT_RUN_SECRETS" "list_all secret_deliverable xs" "list_all secret_bounded xs"
  shows "\<exists>s'. read_agent_run_helper_frame rd s = (Inr xs, s') \<and> pending s' = r \<and> clean s'"
proof -
  from read_helper_exact_clean [OF assms(1,2) refl] obtain s1 where
    s1: "read_helper_exact rd (length AGENT_RUN_HELPER_MAGIC) s = (Inr AGENT_RUN_HELPER_MAGIC, s1)"
    "pending s1 = be32 (length xs) @ concat (map secret_frame xs) @ r" "clean s1" by blast
  have "length xs < 2 ^ 32" using assms(4) by (simp add: MAX_AGENT_RUN_SECRETS_def)
  from read_helper_u32_clean [OF s1(3,2) this] obtain s2 where
    s2: "read_agent_run_helper_u32 rd s1 = (Inr (length xs), s2)"
    "pending s2 = concat (map secret_frame xs) @ r" "clean s2" by blast
  from read_run_secrets_clean [OF s2(3,2) assms(5,6), of "[]"] s1 s2 assms(3,4) show ?thesis
    by (auto simp: read_agent_run_helper_frame_def)
qed

end


section \<open>The agent's frames\<close>

text \<open>
  A socket is the schedule of what its reads and writes come back with, each at the reading of
  the monotonic clock (milliseconds) when it does. \<open>WouldBlock\<close> and \<open>TimedOut\<close> are polls, an
  exhausted schedule is a closed peer.
\<close>

(* SRC cli MAX_AGENT_FRAME_BYTES *)
definition MAX_AGENT_FRAME_BYTES :: nat where
  "MAX_AGENT_FRAME_BYTES = 2 * 1024 * 1024"

(* SRC cli AGENT_POLL_INTERVAL *)
definition AGENT_POLL_INTERVAL :: nat where
  "AGENT_POLL_INTERVAL = 200"

(* SRC cli MAX_AGENT_READ_TIMEOUTS *)
definition MAX_AGENT_READ_TIMEOUTS :: byte where
  "MAX_AGENT_READ_TIMEOUTS = 30"

definition frame_deadline :: "nat \<Rightarrow> nat" where
  "frame_deadline now = now + AGENT_POLL_INTERVAL * unat MAX_AGENT_READ_TIMEOUTS"

definition is_poll :: "io_kind \<Rightarrow> bool" where
  "is_poll k \<longleftrightarrow> k = WouldBlock \<or> k = TimedOut"

type_synonym timed_reads = "(nat \<times> io_event) list"

fun read_exact_until ::
    "nat \<Rightarrow> nat \<Rightarrow> bytes \<Rightarrow> timed_reads \<Rightarrow> (io_kind + bytes) \<times> timed_reads" where
  "read_exact_until deadline need acc [] = (if need = 0 then Inr acc else Inl UnexpectedEof, [])"
| "read_exact_until deadline need acc ((t, ev) # evs) =
     (if need = 0 then (Inr acc, (t, ev) # evs)
      else case ev of
          Data bs \<Rightarrow>
            if bs = [] then (Inl UnexpectedEof, evs)
            else if length bs \<le> need
            then read_exact_until deadline (need - length bs) (acc @ bs) evs
            else (Inr (acc @ take need bs), (t, Data (drop need bs)) # evs)
        | Fault k \<Rightarrow>
            if is_poll k
            then if deadline \<le> t then (Inl TimedOut, evs)
                 else read_exact_until deadline need acc evs
            else (Inl k, evs))"

(* SRC cli read_exact_agent *)
definition read_exact_agent :: "nat \<Rightarrow> nat \<Rightarrow> timed_reads \<Rightarrow> (io_kind + bytes) \<times> timed_reads" where
  "read_exact_agent now need evs = read_exact_until (frame_deadline now) need [] evs"

(* SRC cli read_agent_frame *)
definition read_agent_frame :: "nat \<Rightarrow> (timed_reads \<Rightarrow> nat) \<Rightarrow> timed_reads \<Rightarrow> bytes option res \<times> timed_reads" where
  \<comment> \<open>\<open>now\<close> is the clock at the start, \<open>clock\<close> the clock when the payload is begun.\<close>
  "read_agent_frame now clock evs = (case read_exact_agent now 4 evs of
       (Inl UnexpectedEof, evs) \<Rightarrow> (Inr None, evs)
     | (Inl k, evs) \<Rightarrow> (Inl [Msg ''failed to read agent frame length'', Io k], evs)
     | (Inr len_buf, evs) \<Rightarrow>
         let len = be_value len_buf
         in if len = 0 \<or> len > MAX_AGENT_FRAME_BYTES then (bail ''agent frame size is invalid'', evs)
            else then_st (io_res ''failed to read agent frame'' (read_exact_agent (clock evs) len evs))
              (\<lambda>frame evs. (Inr (Some frame), evs)))"

datatype write_event = Accept nat | WFault io_kind

type_synonym timed_writes = "(nat \<times> write_event) list"

text \<open>The bytes accepted so far travel with the schedule.\<close>

fun write_all_until ::
    "nat \<Rightarrow> bytes \<Rightarrow> bytes \<times> timed_writes \<Rightarrow> (io_kind + unit) \<times> bytes \<times> timed_writes" where
  "write_all_until deadline bs (out, []) =
     (if bs = [] then Inr () else Inl (OtherIo ''BrokenPipe''), out, [])"
| "write_all_until deadline bs (out, (t, ev) # evs) =
     (if bs = [] then (Inr (), out, (t, ev) # evs)
      else case ev of
          Accept n \<Rightarrow>
            if n = 0 then (Inl WriteZero, out, evs)
            else write_all_until deadline (drop n bs) (out @ take n bs, evs)
        | WFault k \<Rightarrow>
            if is_poll k
            then if deadline \<le> t then (Inl TimedOut, out, evs)
                 else write_all_until deadline bs (out, evs)
            else (Inl k, out, evs))"

(* SRC cli write_all_agent *)
definition write_all_agent ::
    "nat \<Rightarrow> bytes \<Rightarrow> bytes \<times> timed_writes \<Rightarrow> (io_kind + unit) \<times> bytes \<times> timed_writes" where
  "write_all_agent now bs w = write_all_until (frame_deadline now) bs w"

(* SRC cli write_agent_frame *)
definition write_agent_frame ::
    "nat \<Rightarrow> (bytes \<times> timed_writes \<Rightarrow> nat) \<Rightarrow> bytes \<Rightarrow> bytes \<times> timed_writes
       \<Rightarrow> unit res \<times> bytes \<times> timed_writes" where
  "write_agent_frame now clock bs w =
     (if \<not> length bs < 2 ^ 32
      then (Inl [Msg ''agent frame exceeds supported size'', Lib ''TryFromIntError''], w)
      else then_st (io_res ''failed to write agent frame length'' (write_all_agent now (be32 (length bs)) w)) (\<lambda>_ w.
           io_res ''failed to write agent frame'' (write_all_agent (clock w) bs w)))"

section \<open>Lemmas on the agent's frames\<close>

definition arriving :: "timed_reads \<Rightarrow> bytes" where
  "arriving evs = concat (map (\<lambda>(_, ev). case ev of Data bs \<Rightarrow> bs | Fault _ \<Rightarrow> []) evs)"

text \<open>
  A schedule that neither ends nor fails before the deadline: chunks at any time, and polls
  only while the deadline is ahead.
\<close>

definition timely :: "nat \<Rightarrow> timed_reads \<Rightarrow> bool" where
  "timely deadline evs \<longleftrightarrow>
     list_all (\<lambda>(t, ev). case ev of Data bs \<Rightarrow> bs \<noteq> [] | Fault k \<Rightarrow> is_poll k \<and> t < deadline) evs"

lemma arriving_simps [simp]:
  "arriving [] = []" "arriving ((t, Data bs) # evs) = bs @ arriving evs"
  "arriving ((t, Fault k) # evs) = arriving evs"
  by (simp_all add: arriving_def)

lemma timely_simps [simp]:
  "timely d []" "timely d ((t, Data bs) # evs) = (bs \<noteq> [] \<and> timely d evs)"
  "timely d ((t, Fault k) # evs) = (is_poll k \<and> t < d \<and> timely d evs)"
  by (simp_all add: timely_def)

lemma timely_mono: "\<lbrakk>timely d evs; d \<le> d'\<rbrakk> \<Longrightarrow> timely d' evs"
  by (auto simp: timely_def list_all_iff split: io_event.splits)

lemma read_exact_until_timely:
  "\<lbrakk>timely d evs; need \<le> length (arriving evs)\<rbrakk> \<Longrightarrow>
     \<exists>evs'. read_exact_until d need acc evs = (Inr (acc @ take need (arriving evs)), evs')
       \<and> arriving evs' = drop need (arriving evs) \<and> timely d evs'"
proof (induction d need acc evs rule: read_exact_until.induct)
  case (1 d need acc)
  then show ?case by simp
next
  case (2 d need acc t ev evs)
  show ?case
  proof (cases "need = 0")
    case False
    show ?thesis
    proof (cases ev)
      case (Data bs)
      show ?thesis
      proof (cases "length bs \<le> need")
        case True
        with 2 Data False show ?thesis by auto
      next
        case False
        with 2 Data \<open>need \<noteq> 0\<close> show ?thesis by auto
      qed
    next
      case (Fault k)
      with 2 False show ?thesis by (auto simp: not_le)
    qed
  qed (use 2 in simp)
qed

lemma read_exact_until_keeps:
  "timely d evs \<Longrightarrow> read_exact_until d' need acc evs = (r, evs') \<Longrightarrow> timely d evs'"
proof (induction d' need acc evs rule: read_exact_until.induct)
  case (2 d' need acc t ev evs)
  then show ?case by (cases ev) (auto split: if_splits)
qed (auto split: if_splits)

lemma read_exact_until_length:
  "read_exact_until d need acc evs = (Inr bs, evs') \<Longrightarrow> length bs = length acc + need"
proof (induction d need acc evs rule: read_exact_until.induct)
  case (2 d need acc t ev evs)
  from 2 show ?case by (auto split: if_splits io_event.splits)
qed (auto split: if_splits)

lemma read_agent_frame_Some:
  assumes "read_agent_frame now clock evs = (Inr (Some frame), evs')"
  shows "0 < length frame \<and> length frame \<le> MAX_AGENT_FRAME_BYTES"
proof -
  obtain r evs1 where r: "read_exact_agent now 4 evs = (r, evs1)" by (cases "read_exact_agent now 4 evs")
  with assms obtain buf where buf: "r = Inr buf"
    by (cases r) (auto simp: read_agent_frame_def split: io_kind.splits)
  let ?len = "be_value buf"
  from assms r buf have len: "?len \<noteq> 0" "?len \<le> MAX_AGENT_FRAME_BYTES"
    and "read_exact_agent (clock evs1) ?len evs1 = (Inr frame, evs')"
    by (auto simp: read_agent_frame_def Let_def res_simps split: if_splits)
  from read_exact_until_length [OF this(3) [unfolded read_exact_agent_def]] len show ?thesis by simp
qed

lemma write_all_until_out:
  "write_all_until d bs (out, evs) = (Inr (), out', evs') \<Longrightarrow> out' = out @ bs"
proof (induction evs arbitrary: bs out)
  case Nil
  then show ?case by (auto split: if_splits)
next
  case (Cons x evs)
  obtain t ev where x: "x = (t, ev)" by (cases x)
  show ?case
  proof (cases ev)
    case (Accept n)
    with Cons.prems x have "bs = [] \<and> out' = out
        \<or> write_all_until d (drop n bs) (out @ take n bs, evs) = (Inr (), out', evs')"
      by (auto split: if_splits)
    with Cons.IH show ?thesis by fastforce
  next
    case (WFault k)
    with Cons.prems x Cons.IH show ?thesis by (auto split: if_splits)
  qed
qed

lemma write_agent_frame_out:
  "write_agent_frame now clock bs (out, evs) = (Inr (), out', evs') \<Longrightarrow>
     out' = out @ be32 (length bs) @ bs \<and> length bs < 2 ^ 32"
  by (auto simp: write_agent_frame_def write_all_agent_def res_simps split: if_splits
      dest!: write_all_until_out)

lemma read_frame_timely:
  assumes "timely d evs" and a: "arriving evs = be32 (length payload) @ payload @ rest"
    and "0 < length payload" "length payload \<le> MAX_AGENT_FRAME_BYTES"
    and now: "d \<le> frame_deadline now" and later: "\<And>e. d \<le> frame_deadline (clock e)"
  shows "\<exists>evs'. read_agent_frame now clock evs = (Inr (Some payload), evs') \<and> arriving evs' = rest \<and> timely d evs'"
proof -
  have small: "length payload < 2 ^ 32" using assms(4) by (simp add: MAX_AGENT_FRAME_BYTES_def)
  obtain evs1 where r1: "read_exact_agent now 4 evs = (Inr (be32 (length payload)), evs1)"
    and a1: "arriving evs1 = payload @ rest" and t1: "timely d evs1"
    using read_exact_until_timely [OF timely_mono [OF assms(1) now], of 4 "[]"] a
      read_exact_until_keeps [OF assms(1)] by (auto simp: read_exact_agent_def)
  obtain evs2 where "read_exact_agent (clock evs1) (length payload) evs1 = (Inr payload, evs2)"
      "arriving evs2 = rest" "timely d evs2"
    using read_exact_until_timely [OF timely_mono [OF t1 later [of evs1]], of "length payload" "[]"] a1
      read_exact_until_keeps [OF t1] by (auto simp: read_exact_agent_def)
  with r1 small assms(3,4) show ?thesis
    by (auto simp: read_agent_frame_def be_value_be32 Let_def)
qed

lemma read_frame_end:
  assumes "timely d evs" "arriving evs = []" "d \<le> frame_deadline now"
  shows "\<exists>evs'. read_agent_frame now clock evs = (Inr None, evs')"
proof -
  have "\<exists>evs'. read_exact_until (frame_deadline now) 4 [] evs = (Inl UnexpectedEof, evs')"
    using assms
  proof (induction evs)
    case (Cons x evs)
    then show ?case by (cases x; cases "snd x") auto
  qed simp
  then show ?thesis by (auto simp: read_agent_frame_def read_exact_agent_def)
qed

section \<open>Properties\<close>

text \<open>
  The run helper receives exactly what the agent sent: when the frame writer accepts a
  list of opened secrets and they are within the reader's limits (1024 secrets, names of at
  most 4096 bytes, values of at most 1 MiB), the frame reader returns that list, in order, from
  any chunking of the written bytes, and leaves what follows the frame unread.
\<close>

theorem run_helper_frame_roundtrip:
  assumes "write_agent_run_helper_frame append_writer opened [] = (Inr (), wire)"
    and "length opened \<le> MAX_AGENT_RUN_SECRETS" "list_all secret_bounded opened"
    and "stream_clean s" "stream_pending s = wire @ rest"
  shows "\<exists>s'. read_agent_run_helper_frame stream_read s = (Inr opened, s') \<and> stream_pending s' = rest"
proof -
  from assms(1) have "opened \<noteq> []" "list_all secret_deliverable opened"
    "wire = AGENT_RUN_HELPER_MAGIC @ be32 (length opened) @ concat (map secret_frame opened)"
    by (simp_all add: write_frame_append)
  with stream.read_run_frame_clean [OF assms(4), of opened rest] assms show ?thesis by auto
qed

theorem run_helper_frame_roundtrip_witness:
  "\<exists>s'. read_agent_run_helper_frame stream_read
      [Data (AGENT_RUN_HELPER_MAGIC @ be32 1), Data (secret_frame sample_secret @ [9])] = (Inr [sample_secret], s')
     \<and> stream_pending s' = [9]"
proof (rule run_helper_frame_roundtrip)
  have "from_utf8 (os_plaintext sample_secret) \<noteq> None"
    by (simp add: sample_secret_def from_utf8_def as_bytes_Cons squote_def newline_def)
  moreover have "validate_shell_name (os_name sample_secret) l = Inr ()" for l
    by (simp add: sample_secret_def validate_shell_name_def shell_first_def is_ascii_uppercase_def code_def)
  ultimately have "secret_deliverable sample_secret"
    by (simp add: secret_deliverable_def validate_env_value_def)
      (simp add: sample_secret_def as_bytes_Cons squote_def newline_def)
  then show "write_agent_run_helper_frame append_writer [sample_secret] []
      = (Inr (), AGENT_RUN_HELPER_MAGIC @ be32 1 @ secret_frame sample_secret)"
    by (simp add: write_frame_append) (simp add: sample_secret_def)
qed (simp_all add: MAX_AGENT_RUN_SECRETS_def secret_bounded_def sample_secret_def
    MAX_AGENT_RUN_ENV_NAME_BYTES_def MAX_STDIN_SECRET_BYTES_def secret_frame_def field_frame_def
    AGENT_RUN_HELPER_MAGIC_def)

text \<open>
  A frame written to the agent's socket is the frame read from it: if the writer succeeds,
  under any schedule of partial writes and polls, a reader whose schedule carries the written
  bytes, cut anyhow and polling only before its deadline, returns exactly the payload and
  leaves the bytes behind the frame for the next one.
\<close>

theorem agent_frame_roundtrip:
  assumes "write_agent_frame wnow wclock payload ([], writes) = (Inr (), wire, writes')"
    and "0 < length payload" "length payload \<le> MAX_AGENT_FRAME_BYTES"
    and "timely (frame_deadline now) evs" "arriving evs = wire @ rest" "\<And>e. now \<le> clock e"
  shows "\<exists>evs'. read_agent_frame now clock evs = (Inr (Some payload), evs') \<and> arriving evs' = rest"
proof -
  from write_agent_frame_out [OF assms(1)] assms(5)
  have "arriving evs = be32 (length payload) @ payload @ rest" by simp
  from read_frame_timely [OF assms(4) this assms(2,3)] assms(6) show ?thesis
    by (auto simp: frame_deadline_def)
qed

lemma be32_2: "be32 2 = [0, 0, 0, 2]" "be32 (Suc (Suc 0)) = [0, 0, 0, 2]"
proof -
  have four: "(4 :: nat) = Suc (Suc (Suc (Suc 0)))" by simp
  show "be32 2 = [0, 0, 0, 2]" unfolding four be_bytes.simps by simp
  then show "be32 (Suc (Suc 0)) = [0, 0, 0, 2]" by (simp add: numeral_2_eq_2)
qed

theorem agent_frame_roundtrip_witness:
  "\<exists>evs'. read_agent_frame 0 (\<lambda>_. 5)
      [(1, Data [0, 0]), (3, Fault WouldBlock), (9000, Data [0, 2, 7, 8]), (9001, Data [1])] = (Inr (Some [7, 8]), evs')
     \<and> arriving evs' = [1]"
proof (rule agent_frame_roundtrip)
  show "write_agent_frame 0 (\<lambda>_. 0) [7, 8] ([], [(0, Accept 3), (1, WFault WouldBlock), (2, Accept 9), (3, Accept 9)])
      = (Inr (), be32 2 @ [7, 8], [])"
    by (simp add: write_agent_frame_def write_all_agent_def is_poll_def frame_deadline_def
        AGENT_POLL_INTERVAL_def MAX_AGENT_READ_TIMEOUTS_def be32_2)
qed (simp_all add: MAX_AGENT_FRAME_BYTES_def is_poll_def frame_deadline_def
    AGENT_POLL_INTERVAL_def MAX_AGENT_READ_TIMEOUTS_def be32_2)

text \<open>
  What a frame reader accepts is bounded, and a silent peer does not hold it: a frame it
  returns has between 1 byte and 2 MiB, and a peer that is silent until the six-second
  deadline makes the read of a length fail at the first poll on or after it, whatever it would
  send later. (Only polls are checked against the deadline: a peer that keeps sending
  is read on, as the schedules of the round trip show.)
\<close>

theorem agent_frame_bounded:
  "(case read_agent_frame now clock evs of
      (Inr (Some frame), _) \<Rightarrow> 0 < length frame \<and> length frame \<le> MAX_AGENT_FRAME_BYTES
    | _ \<Rightarrow> True)
   \<and> read_agent_frame now clock
        (map (\<lambda>t. (t, Fault WouldBlock)) (filter (\<lambda>t. t < now + 6000) polls) @ (now + 6000, Fault WouldBlock) # later)
      = (Inl [Msg ''failed to read agent frame length'', Io TimedOut], later)"
proof
  show "case read_agent_frame now clock evs of
      (Inr (Some frame), _) \<Rightarrow> 0 < length frame \<and> length frame \<le> MAX_AGENT_FRAME_BYTES | _ \<Rightarrow> True"
  proof (cases "\<exists>frame e. read_agent_frame now clock evs = (Inr (Some frame), e)")
    case True
    then obtain frame e where "read_agent_frame now clock evs = (Inr (Some frame), e)" by blast
    with read_agent_frame_Some [OF this] show ?thesis by simp
  next
    case False
    then show ?thesis by (simp split: prod.split sum.split option.split)
  qed
  have d: "frame_deadline now = now + 6000"
    by (simp add: frame_deadline_def AGENT_POLL_INTERVAL_def MAX_AGENT_READ_TIMEOUTS_def)
  have "read_exact_until (now + 6000) 4 [] (map (\<lambda>t. (t, Fault WouldBlock)) ps @ (now + 6000, Fault WouldBlock) # later)
      = (Inl TimedOut, later)" if "list_all (\<lambda>t. t < now + 6000) ps" for ps
    using that by (induction ps) (auto simp: is_poll_def)
  then show "read_agent_frame now clock
        (map (\<lambda>t. (t, Fault WouldBlock)) (filter (\<lambda>t. t < now + 6000) polls) @ (now + 6000, Fault WouldBlock) # later)
      = (Inl [Msg ''failed to read agent frame length'', Io TimedOut], later)"
    by (simp add: read_agent_frame_def read_exact_agent_def d list_all_iff)
qed

end
