(* ===== verification/AgentState.thy ===== *)
theory AgentState
  imports StoreTypes
begin

text \<open>
  The grant table of the resident agent (\<open>AgentState\<close> in \<open>crates/avault-cli/src/main.rs\<close>).

  Every operation runs under the lock of the table, so it is one step; the readings of the
  monotonic clock it takes are its first arguments, in the order in which it takes them. An
  instant is a number of nanoseconds, and \<open>duration_since\<close> is 0 for a later instant, as \<open>-\<close> on
  \<open>nat\<close> is. The run relation \<open>agent_run\<close> lets any number of workers take their steps in any order
  and keeps a history of the steps that succeeded, from which the abstract meaning of a grant
  (\<open>live\<close>) is defined.
\<close>

section \<open>The table\<close>

type_synonym instant = nat

(* SRC cli AgentDekPurpose *)
datatype dek_purpose = DeliverDek | SignDek

(* SRC cli AgentDekPurpose::parse *)
definition parse_dek_purpose :: "string option \<Rightarrow> dek_purpose res" where
  "parse_dek_purpose v =
     (let s = (case v of None \<Rightarrow> ''deliver'' | Some s \<Rightarrow> s)
      in if s = ''deliver'' then Inr DeliverDek
         else if s = ''sign'' then Inr SignDek
         else bail ''unsupported grant DEK purpose'')"

(* SRC cli AgentDekKey *)
record dek_key =
  dk_purpose :: dek_purpose
  dk_name :: string
  dk_scheme :: "string option"
  dk_digest_hex :: "string option"

(* SRC cli GrantEntry *)
record grant_entry =
  gr_expires_at :: instant
  gr_deks :: "dek_key \<rightharpoonup> master_key"

(* SRC cli GrantKey *)
type_synonym grant_key = string

(* SRC cli AgentState *)
record agent_state =
  as_grants :: "grant_key \<rightharpoonup> grant_entry"
  as_used_nonces :: "bytes \<rightharpoonup> instant"
  as_last_activity :: instant
  as_idle_timeout :: nat

(* SRC cli AgentState::new *)
definition agent_state_new :: "instant \<Rightarrow> nat \<Rightarrow> agent_state" where
  "agent_state_new now idle = \<lparr>as_grants = Map.empty, as_used_nonces = Map.empty,
     as_last_activity = now, as_idle_timeout = idle\<rparr>"

text \<open>\<open>HashMap::retain\<close> with a test on the values.\<close>

definition retain :: "('v \<Rightarrow> bool) \<Rightarrow> ('k \<rightharpoonup> 'v) \<Rightarrow> ('k \<rightharpoonup> 'v)" where
  "retain P m = (\<lambda>k. case m k of None \<Rightarrow> None | Some v \<Rightarrow> if P v then Some v else None)"

(* SRC cli AgentState::purge *)
definition purge :: "instant \<Rightarrow> agent_state \<Rightarrow> agent_state" where
  "purge now st =
     (let st = (if as_idle_timeout st \<le> now - as_last_activity st then st\<lparr>as_grants := Map.empty\<rparr> else st)
      in st\<lparr>as_grants := retain (\<lambda>g. now < gr_expires_at g) (as_grants st),
            as_used_nonces := retain (\<lambda>e. now < e) (as_used_nonces st)\<rparr>)"

(* SRC cli AgentState::record_activity *)
definition record_activity :: "instant \<Rightarrow> instant \<Rightarrow> agent_state \<Rightarrow> agent_state" where
  "record_activity now later st = (purge now st)\<lparr>as_last_activity := later\<rparr>"

(* SRC cli AgentState::get_live_grant *)
definition get_live_grant :: "instant \<Rightarrow> grant_key \<Rightarrow> agent_state \<Rightarrow> grant_entry res" where
  "get_live_grant now scope st =
     (if as_idle_timeout st \<le> now - as_last_activity st then bail ''grant is missing or expired''
      else and_then (ok_or ''grant is missing or expired'' (as_grants st scope)) (\<lambda>grant.
        if gr_expires_at grant \<le> now then bail ''grant is missing or expired'' else Inr grant))"

text \<open>\<open>HashMap::extend\<close>: of two entries with one key the later stays.\<close>

definition extend_map :: "('k \<times> 'v) list \<Rightarrow> ('k \<rightharpoonup> 'v) \<Rightarrow> ('k \<rightharpoonup> 'v)" where
  "extend_map kvs m = fold (\<lambda>(k, v) m. m(k \<mapsto> v)) kvs m"

(* SRC cli AgentState::publish_grant *)
definition publish_grant ::
    "instant \<Rightarrow> instant \<Rightarrow> grant_key \<Rightarrow> grant_entry \<Rightarrow> (bytes \<times> instant) list \<Rightarrow> agent_state
     \<Rightarrow> unit res \<times> agent_state" where
  "publish_grant now later scope grant nonces st =
     (let st = purge now st
      in if gr_expires_at grant \<le> later then (bail ''grant expired before it was published'', st)
         else if list_ex (\<lambda>(nonce, _). as_used_nonces st nonce \<noteq> None) nonces
         then (bail ''grant approval was already used'', st)
         else (Inr (), st\<lparr>as_used_nonces := extend_map nonces (as_used_nonces st),
                         as_last_activity := later,
                         as_grants := (as_grants st)(scope \<mapsto> grant)\<rparr>))"

text \<open>Releasing or revoking a grant, the section of the handler that holds the lock.\<close>

(* SRC cli 2970-2976 handle_agent_frame_inner *)
definition release_grant ::
    "instant \<Rightarrow> instant \<Rightarrow> instant \<Rightarrow> grant_key \<Rightarrow> agent_state \<Rightarrow> bool \<times> agent_state" where
  "release_grant t1 t2 t3 scope st =
     (let st = purge t1 st;
          released = (as_grants st scope \<noteq> None);
          st = st\<lparr>as_grants := (as_grants st)(scope := None)\<rparr>
      in (released, if released then record_activity t2 t3 st else st))"

section \<open>Runs and their histories\<close>

text \<open>
  A history lists the successful steps, the latest first, with the instant at which the step took
  the state it found to be (\<open>ev_start\<close>) and the instant it recorded as the last activity
  (\<open>ev_end\<close>).
\<close>

datatype agent_event =
    Published instant instant grant_key grant_entry "(bytes \<times> instant) list"
  | Released instant instant grant_key
  | Used instant instant

fun ev_start :: "agent_event \<Rightarrow> instant" where
  "ev_start (Published t _ _ _ _) = t"
| "ev_start (Released t _ _) = t"
| "ev_start (Used t _) = t"

fun ev_end :: "agent_event \<Rightarrow> instant" where
  "ev_end (Published _ t _ _ _) = t"
| "ev_end (Released _ t _) = t"
| "ev_end (Used _ t) = t"

inductive agent_run :: "nat \<Rightarrow> agent_event list \<Rightarrow> instant \<Rightarrow> agent_state \<Rightarrow> bool" for idle where
  start: "agent_run idle [] t (agent_state_new t idle)"
| maintenance: "\<lbrakk>agent_run idle h t st; t \<le> t1\<rbrakk> \<Longrightarrow> agent_run idle h t1 (purge t1 st)"
| activity: "\<lbrakk>agent_run idle h t st; t \<le> t1; t1 \<le> t2\<rbrakk>
    \<Longrightarrow> agent_run idle (Used t1 t2 # h) t2 (record_activity t1 t2 st)"
| publish: "\<lbrakk>agent_run idle h t st; t \<le> t1; t1 \<le> t2; distinct (map fst ns);
      publish_grant t1 t2 scope g ns st = (Inr (), st')\<rbrakk>
    \<Longrightarrow> agent_run idle (Published t1 t2 scope g ns # h) t2 st'"
| refused: "\<lbrakk>agent_run idle h t st; t \<le> t1; t1 \<le> t2;
      publish_grant t1 t2 scope g ns st = (Inl e, st')\<rbrakk> \<Longrightarrow> agent_run idle h t2 st'"
| release: "\<lbrakk>agent_run idle h t st; t \<le> t1; t1 \<le> t2; t2 \<le> t3;
      release_grant t1 t2 t3 scope st = (True, st')\<rbrakk>
    \<Longrightarrow> agent_run idle (Released t2 t3 scope # h) t3 st'"
| nothing_released: "\<lbrakk>agent_run idle h t st; t \<le> t1;
      release_grant t1 t2 t3 scope st = (False, st')\<rbrakk> \<Longrightarrow> agent_run idle h t1 st'"

text \<open>
  What a grant means, with no table and no purging: \<open>g\<close> is in force for \<open>scope\<close> at \<open>now\<close> when it
  has not expired, less than the idle timeout has passed since the last event, and that event
  either made the grant, or left the scope alone when the grant was in force.
\<close>

fun live :: "nat \<Rightarrow> agent_event list \<Rightarrow> grant_key \<Rightarrow> instant \<Rightarrow> grant_entry \<Rightarrow> bool" where
  "live idle [] scope now g = False"
| "live idle (e # h) scope now g =
     (now - ev_end e < idle \<and> now < gr_expires_at g \<and>
      (case e of
         Published t _ s g' _ \<Rightarrow> if s = scope then g = g' else live idle h scope t g
       | Released t _ s \<Rightarrow> s \<noteq> scope \<and> live idle h scope t g
       | Used t _ \<Rightarrow> live idle h scope t g))"

section \<open>Lemmas on the steps\<close>

lemma retain_eq_Some: "retain P m k = Some v \<longleftrightarrow> m k = Some v \<and> P v"
  by (auto simp: retain_def split: option.splits)

lemma retain_eq_None: "retain P m k = None \<longleftrightarrow> (\<forall>v. m k = Some v \<longrightarrow> \<not> P v)"
  by (auto simp: retain_def split: option.splits)

lemma purge_fields [simp]:
  "as_last_activity (purge t st) = as_last_activity st" "as_idle_timeout (purge t st) = as_idle_timeout st"
  "as_used_nonces (purge t st) = retain (\<lambda>e. t < e) (as_used_nonces st)"
  by (simp_all add: purge_def Let_def)

lemma purge_grants:
  "as_grants (purge t st) scope = Some g \<longleftrightarrow>
     t - as_last_activity st < as_idle_timeout st \<and> as_grants st scope = Some g \<and> t < gr_expires_at g"
  by (auto simp: purge_def Let_def retain_eq_Some not_le)

text \<open>A grant is got exactly where it is held, unexpired, and the table is not idle.\<close>

lemma get_live_grant_Inr:
  "get_live_grant now scope st = Inr g \<longleftrightarrow>
     now - as_last_activity st < as_idle_timeout st \<and> as_grants st scope = Some g \<and> now < gr_expires_at g"
  by (auto simp: get_live_grant_def res_simps not_le)

lemma get_live_grant_Inl:
  "get_live_grant now scope st = Inl e \<Longrightarrow> e = [Msg ''grant is missing or expired'']"
  by (auto simp: get_live_grant_def bail_def ok_or_def and_then_def split: if_splits option.splits)

lemma extend_map_distinct:
  "distinct (map fst kvs) \<Longrightarrow> extend_map kvs m k = (case map_of kvs k of None \<Rightarrow> m k | Some v \<Rightarrow> Some v)"
proof (induction kvs arbitrary: m)
  case Nil
  then show ?case by (simp add: extend_map_def)
next
  case (Cons kv kvs)
  obtain a b where kv: "kv = (a, b)" by (cases kv)
  have "extend_map kvs (m(a \<mapsto> b)) k = (case map_of kvs k of None \<Rightarrow> (m(a \<mapsto> b)) k | Some v \<Rightarrow> Some v)"
    using Cons by simp
  moreover have "a = k \<Longrightarrow> map_of kvs k = None" using Cons.prems kv by (auto simp: map_of_eq_None_iff)
  ultimately show ?case by (auto simp: extend_map_def kv split: option.splits)
qed

lemma publish_grant_Inr:
  "publish_grant t1 t2 scope g ns st = (Inr (), st') \<longleftrightarrow>
     t2 < gr_expires_at g \<and> (\<forall>n \<in> fst ` set ns. as_used_nonces (purge t1 st) n = None) \<and>
     st' = (purge t1 st)\<lparr>as_used_nonces := extend_map ns (as_used_nonces (purge t1 st)),
                        as_last_activity := t2, as_grants := (as_grants (purge t1 st))(scope \<mapsto> g)\<rparr>"
  by (auto simp: publish_grant_def Let_def list_ex_iff not_le case_prod_unfold)

lemma publish_grant_Inl: "publish_grant t1 t2 scope g ns st = (Inl e, st') \<Longrightarrow> st' = purge t1 st"
  by (auto simp: publish_grant_def Let_def split: if_splits)

lemma release_grant_True:
  "release_grant t1 t2 t3 scope st = (True, st') \<Longrightarrow>
     st' = record_activity t2 t3 ((purge t1 st)\<lparr>as_grants := (as_grants (purge t1 st))(scope := None)\<rparr>)"
  by (auto simp: release_grant_def Let_def)

lemma release_grant_False:
  "release_grant t1 t2 t3 scope st = (False, st') \<Longrightarrow> st' = purge t1 st"
  by (auto simp: release_grant_def Let_def fun_upd_idem)

section \<open>The table implements the meaning\<close>

text \<open>What a run knows of the table: the grants it would give out are those in force.\<close>

definition implements :: "nat \<Rightarrow> agent_event list \<Rightarrow> instant \<Rightarrow> agent_state \<Rightarrow> bool" where
  "implements idle h t st \<longleftrightarrow> as_idle_timeout st = idle \<and> as_last_activity st \<le> t \<and>
     (case h of [] \<Rightarrow> True | e # _ \<Rightarrow> as_last_activity st = ev_end e) \<and>
     (\<forall>now scope g. t \<le> now \<longrightarrow>
        (get_live_grant now scope st = Inr g \<longleftrightarrow> live idle h scope now g))"

lemma live_expires: "live idle h scope now g \<Longrightarrow> now < gr_expires_at g"
  by (cases h) auto

lemma get_live_after_purge:
  "t \<le> now \<Longrightarrow> get_live_grant now scope (purge t st) = Inr g \<longleftrightarrow> get_live_grant now scope st = Inr g"
  by (auto simp: get_live_grant_Inr purge_grants)

lemma implements_purge:
  "\<lbrakk>implements idle h t st; t \<le> t1\<rbrakk> \<Longrightarrow> implements idle h t1 (purge t1 st)"
  unfolding implements_def by (auto simp: get_live_after_purge split: list.splits)

lemma implements_later: "\<lbrakk>implements idle h t st; t \<le> t1\<rbrakk> \<Longrightarrow> implements idle h t1 st"
  unfolding implements_def by auto

lemma implements_activity:
  assumes "implements idle h t st" "t \<le> t1" "t1 \<le> t2"
  shows "implements idle (Used t1 t2 # h) t2 (record_activity t1 t2 st)"
proof -
  have "get_live_grant now scope (record_activity t1 t2 st) = Inr g \<longleftrightarrow>
      now - t2 < idle \<and> now < gr_expires_at g \<and> live idle h scope t1 g" if "t2 \<le> now" for now scope g
    using assms that
    by (auto simp: implements_def record_activity_def get_live_grant_Inr purge_grants)
  then show ?thesis using assms by (simp add: implements_def record_activity_def)
qed

lemma implements_publish:
  assumes "implements idle h t st" "t \<le> t1" "t1 \<le> t2" "publish_grant t1 t2 scope g ns st = (Inr (), st')"
  shows "implements idle (Published t1 t2 scope g ns # h) t2 st'"
proof -
  have "get_live_grant now s st' = Inr g' \<longleftrightarrow>
      now - t2 < idle \<and> now < gr_expires_at g' \<and> (if scope = s then g' = g else live idle h s t1 g')"
    if "t2 \<le> now" for now s g'
    using assms that
    by (auto simp: implements_def publish_grant_Inr get_live_grant_Inr purge_grants)
  then show ?thesis using assms by (simp add: implements_def publish_grant_Inr)
qed

lemma implements_release:
  assumes "implements idle h t st" "t \<le> t1" "t1 \<le> t2" "t2 \<le> t3"
    and "release_grant t1 t2 t3 scope st = (True, st')"
  shows "implements idle (Released t2 t3 scope # h) t3 st'"
proof -
  have "get_live_grant now s st' = Inr g' \<longleftrightarrow>
      now - t3 < idle \<and> now < gr_expires_at g' \<and> scope \<noteq> s \<and> live idle h s t2 g'"
    if "t3 \<le> now" for now s g'
  proof -
    have "live idle h s t2 g' \<longleftrightarrow> get_live_grant t2 s st = Inr g'"
      using assms(1-3) by (auto simp: implements_def)
    then show ?thesis
      using assms(1-4) release_grant_True [OF assms(5)] that
      by (auto simp: implements_def record_activity_def get_live_grant_Inr purge_grants)
  qed
  then show ?thesis using assms(1-4) release_grant_True [OF assms(5)]
    by (simp add: implements_def record_activity_def)
qed

lemma run_implements: "agent_run idle h t st \<Longrightarrow> implements idle h t st"
proof (induction rule: agent_run.induct)
  case (start t)
  then show ?case by (simp add: implements_def agent_state_new_def get_live_grant_Inr)
next
  case (refused h t st t1 t2 scope g ns e st')
  then show ?case
    using implements_later [OF implements_purge] publish_grant_Inl by metis
next
  case (nothing_released h t st t1 t2 t3 scope st')
  then show ?case using implements_purge release_grant_False by metis
qed (blast intro: implements_purge implements_activity implements_publish implements_release)+

section \<open>Nonces\<close>

text \<open>A nonce stays in the table until the approval it belongs to has expired.\<close>

definition remembers :: "agent_event list \<Rightarrow> instant \<Rightarrow> agent_state \<Rightarrow> bool" where
  "remembers h t st \<longleftrightarrow> (\<forall>t1 t2 scope g ns n e.
     Published t1 t2 scope g ns \<in> set h \<longrightarrow> (n, e) \<in> set ns \<longrightarrow> t < e \<longrightarrow>
     (\<exists>e'. as_used_nonces st n = Some e' \<and> e \<le> e'))"

lemma remembers_purge: "\<lbrakk>remembers h t st; t \<le> t1\<rbrakk> \<Longrightarrow> remembers h t1 (purge t1 st)"
  unfolding remembers_def by (fastforce simp: retain_eq_Some)

lemma remembers_later: "\<lbrakk>remembers h t st; t \<le> t1\<rbrakk> \<Longrightarrow> remembers h t1 st"
  unfolding remembers_def by (meson order_le_less_trans)

lemma remembers_cong:
  "\<lbrakk>remembers h t st; as_used_nonces st' = as_used_nonces st\<rbrakk> \<Longrightarrow> remembers h t st'"
  by (simp add: remembers_def)

lemma remembers_used: "remembers (Used a b # h) t st = remembers h t st"
  and remembers_released: "remembers (Released a b s # h) t st = remembers h t st"
  by (auto simp: remembers_def)

lemma remembers_publish:
  assumes "remembers h t st" "t \<le> t1" "t1 \<le> t2" "distinct (map fst ns)"
    and publish: "publish_grant t1 t2 scope g ns st = (Inr (), st')"
  shows "remembers (Published t1 t2 scope g ns # h) t2 st'"
proof -
  have old: "remembers h t2 (purge t1 st)"
    by (rule remembers_later [OF remembers_purge [OF assms(1,2)] assms(3)])
  have nonces: "as_used_nonces st' n = (case map_of ns n of None \<Rightarrow> as_used_nonces (purge t1 st) n | Some v \<Rightarrow> Some v)"
    for n using publish extend_map_distinct [OF assms(4)] by (cases "map_of ns n") (simp_all add: publish_grant_Inr)
  have fresh: "as_used_nonces (purge t1 st) n = None" if "map_of ns n = Some v" for n v
  proof -
    have "n \<in> fst ` set ns" using map_of_SomeD [OF that] by force
    moreover have "\<forall>n \<in> fst ` set ns. as_used_nonces (purge t1 st) n = None"
      using publish [unfolded publish_grant_Inr] by (elim conjE)
    ultimately show ?thesis by (rule bspec [rotated])
  qed
  show ?thesis
    unfolding remembers_def
  proof (intro allI impI)
    fix a b s g' ns' n e
    assume ev: "Published a b s g' ns' \<in> set (Published t1 t2 scope g ns # h)"
      and n: "(n, e) \<in> set ns'" and e: "t2 < e"
    show "\<exists>e'. as_used_nonces st' n = Some e' \<and> e \<le> e'"
    proof (cases "Published a b s g' ns' \<in> set h")
      case True
      then obtain e' where "as_used_nonces (purge t1 st) n = Some e'" "e \<le> e'"
        using old n e unfolding remembers_def by blast
      then show ?thesis using nonces [of n] fresh [of n] by (cases "map_of ns n") auto
    next
      case False
      then have "map_of ns n = Some e" using ev n map_of_is_SomeI [OF assms(4)] by auto
      then show ?thesis using nonces [of n] by auto
    qed
  qed
qed

lemma run_remembers: "agent_run idle h t st \<Longrightarrow> remembers h t st"
proof (induction rule: agent_run.induct)
  case (start t)
  then show ?case by (simp add: remembers_def)
next
  case (maintenance h t st t1)
  then show ?case by (blast intro: remembers_purge)
next
  case (activity h t st t1 t2)
  have "remembers h t2 (purge t1 st)"
    by (rule remembers_later [OF remembers_purge]) (use activity in auto)
  then show ?case by (auto simp: remembers_used record_activity_def intro: remembers_cong)
next
  case (publish h t st t1 t2 ns scope g st')
  then show ?case by (blast intro: remembers_publish)
next
  case (refused h t st t1 t2 scope g ns e st')
  then show ?case using remembers_later [OF remembers_purge] publish_grant_Inl by metis
next
  case (release h t st t1 t2 t3 scope st')
  have "remembers h t2 (purge t1 st)"
    by (rule remembers_later [OF remembers_purge]) (use release in auto)
  then have "remembers h t2 ((purge t1 st)\<lparr>as_grants := m\<rparr>)" for m by (rule remembers_cong) simp
  then have "remembers h t3 (purge t2 ((purge t1 st)\<lparr>as_grants := m\<rparr>))" for m
    by (rule remembers_later [OF remembers_purge [OF _ order_refl] release.hyps(4)])
  then show ?case
    using release_grant_True [OF release.hyps(5)]
    by (simp add: remembers_released record_activity_def) (rule remembers_cong, assumption, simp)
next
  case (nothing_released h t st t1 t2 t3 scope st')
  then show ?case using remembers_purge release_grant_False by metis
qed

section \<open>A sample run\<close>

definition sample_grant :: grant_entry where
  "sample_grant = \<lparr>gr_expires_at = 100, gr_deks = Map.empty\<rparr>"

text \<open>A grant with the nonce \<open>[7]\<close>, whose approval ends at 80, published at 10 and used at 20.\<close>

definition sample_history :: "agent_event list" where
  "sample_history = [Used 20 21, Published 10 11 ''g'' sample_grant [([7], 80)]]"

definition sample_state :: agent_state where
  "sample_state = record_activity 20 21
     (snd (publish_grant 10 11 ''g'' sample_grant [([7], 80)] (agent_state_new 0 50)))"

lemma sample_run: "agent_run 50 sample_history 21 sample_state"
proof -
  have "publish_grant 10 11 ''g'' sample_grant [([7], 80)] (agent_state_new 0 50)
      = (Inr (), snd (publish_grant 10 11 ''g'' sample_grant [([7], 80)] (agent_state_new 0 50)))"
    by (simp add: publish_grant_def Let_def sample_grant_def agent_state_new_def retain_def purge_def)
  from agent_run.publish [OF agent_run.start _ _ _ this]
  have "agent_run 50 [Published 10 11 ''g'' sample_grant [([7], 80)]] 11
      (snd (publish_grant 10 11 ''g'' sample_grant [([7], 80)] (agent_state_new 0 50)))" by simp
  from agent_run.activity [OF this] show ?thesis by (simp add: sample_history_def sample_state_def)
qed

section \<open>Properties\<close>

text \<open>
  C10. The grant table implements the abstract meaning of a grant: in any run of any workers, a
  grant is given out at a later instant exactly if it is in force by the history: published for
  that scope and not replaced or released since, not expired, and with less than the idle timeout
  between any two successive events and up to now. So purging is unobservable, activity never
  revives a grant that went idle, and no step resurrects an expired or released one.
\<close>

theorem grant_table_refines:
  assumes "agent_run idle h t st" and "t \<le> now"
  shows "get_live_grant now scope st = Inr g \<longleftrightarrow> live idle h scope now g"
  using run_implements [OF assms(1)] assms(2) by (auto simp: implements_def)

theorem grant_table_refines_witness:
  "get_live_grant 70 ''g'' sample_state = Inr sample_grant \<and> get_live_grant 71 ''g'' sample_state \<noteq> Inr sample_grant"
  using grant_table_refines [OF sample_run, of 70 "''g''" sample_grant]
    grant_table_refines [OF sample_run, of 71 "''g''" sample_grant]
  by (simp add: sample_history_def sample_grant_def)

text \<open>
  C11. An approval is used once: in any run, a grant is published with a nonce that an earlier
  grant used only after the approval of that earlier use has expired.
\<close>

theorem approval_used_once:
  assumes "agent_run idle h t st" and "t \<le> t1"
    and "publish_grant t1 t2 scope g ns st = (Inr (), st')"
    and "Published a b s g' ns' \<in> set h" and "(n, e) \<in> set ns'" and "n \<in> fst ` set ns"
  shows "e \<le> t1"
proof (rule ccontr)
  assume "\<not> e \<le> t1"
  then have "\<exists>e'. as_used_nonces (purge t1 st) n = Some e' \<and> e \<le> e'"
    using remembers_purge [OF run_remembers [OF assms(1)] assms(2)] assms(4,5)
    unfolding remembers_def by (meson not_le)
  moreover have "as_used_nonces (purge t1 st) n = None"
    using assms(3) [unfolded publish_grant_Inr] by (elim conjE) (rule bspec [OF _ assms(6)])
  ultimately show False by simp
qed

theorem approval_used_once_witness:
  "(80 :: instant) \<le> 90 \<and> is_ok (fst (publish_grant 90 90 ''other'' sample_grant [([7], 95)] sample_state))"
proof -
  let ?p = "publish_grant 90 90 ''other'' sample_grant [([7], 95)] sample_state"
  have "fst ?p = Inr ()"
    by (simp add: publish_grant_def Let_def sample_state_def record_activity_def sample_grant_def
        agent_state_new_def retain_def purge_def extend_map_def)
  then have ok: "?p = (Inr (), snd ?p)" by (metis prod.collapse)
  have "(80 :: instant) \<le> 90"
    by (rule approval_used_once [OF sample_run _ ok, of 10 11 "''g''" sample_grant "[([7], 80)]" "[7]"])
       (simp_all add: sample_history_def)
  with ok show ?thesis by (metis is_ok_simps(1) fst_conv)
qed

end
