(* ===== verification/MasterCache.thy ===== *)
theory MasterCache
  imports AgentState
begin

text \<open>
  The cached standard master of the resident agent (\<open>AgentMasterCache\<close> in
  \<open>crates/avault-cli/src/main.rs\<close>). The sections that hold the lock of the cache are functions of
  the clock reading they take. \<open>get\<close> is split at its locks into the phases a request goes through,
  and \<open>cache_run\<close> interleaves the phases of any number of requests with the maintenance; the log
  keeps the instants at which loads of the machine store finished well; it follows requests that find the
  lock of the cache sound. The sequential \<open>master_get\<close> and \<open>purge_cell\<close> also have the lock that a panicking
  thread left poisoned, which \<open>lock_cached\<close> refuses.
\<close>

section \<open>The sections under the lock\<close>

(* SRC cli CachedMaster *)
record cached_master =
  cm_key :: master_key
  cm_last_used :: instant

(* SRC cli AgentMasterCache::expire *)
definition expire :: "nat \<Rightarrow> instant \<Rightarrow> cached_master option \<Rightarrow> cached_master option" where
  "expire idle now cached =
     (if (case cached of None \<Rightarrow> False | Some c \<Rightarrow> idle \<le> now - cm_last_used c) then None else cached)"

(* SRC cli AgentMasterCache::use_cached *)
definition use_cached ::
    "nat \<Rightarrow> instant \<Rightarrow> cached_master option \<Rightarrow> master_key option \<times> cached_master option" where
  "use_cached idle now cached =
     (case expire idle now cached of
        None \<Rightarrow> (None, None)
      | Some c \<Rightarrow> (Some (cm_key c), Some (c\<lparr>cm_last_used := now\<rparr>)))"

definition purge_master :: "nat \<Rightarrow> instant \<Rightarrow> cached_master option \<Rightarrow> cached_master option" where
  "purge_master idle now cached = expire idle now cached"

section \<open>Requests\<close>

(* SRC cli AgentMasterSource *)
datatype master_source = Unlocked master_key | FromStore "nat \<Rightarrow> master_key res"

text \<open>
  A request that has seen no key waits for the loading lock (\<open>Missed\<close>), looks again while it holds
  it (\<open>Holding\<close>), and then loads (\<open>Loading\<close>).
\<close>

datatype phase = Outside | Missed | Holding | Loading | Got master_key | Failed err

(* SRC cli AgentMasterCache *)
record 'i master_cache =
  mc_cached :: "cached_master option"
  mc_loading :: "'i option"
  mc_phase :: "'i \<Rightarrow> phase"
  mc_loads :: nat

text \<open>The sections of \<open>get\<close>: the look into the cache, and the load.\<close>

(* SRC cli 2336-2342 AgentMasterCache::get *)
definition look :: "nat \<Rightarrow> instant \<Rightarrow> 'i \<Rightarrow> phase \<Rightarrow> bool \<Rightarrow> 'i master_cache \<Rightarrow> 'i master_cache" where
  "look idle now i missed locked s =
     (let (key, cached) = use_cached idle now (mc_cached s)
      in case key of
           Some key \<Rightarrow> s\<lparr>mc_cached := cached, mc_phase := (mc_phase s)(i := Got key),
                         mc_loading := (if locked then None else mc_loading s)\<rparr>
         | None \<Rightarrow> s\<lparr>mc_cached := cached, mc_phase := (mc_phase s)(i := missed)\<rparr>)"

(* SRC cli 2343-2349 AgentMasterCache::get *)
definition finish_load :: "(nat \<Rightarrow> master_key res) \<Rightarrow> instant \<Rightarrow> 'i \<Rightarrow> 'i master_cache \<Rightarrow> 'i master_cache" where
  "finish_load loader now i s =
     (case with_context ''failed to load standard master key'' (loader (mc_loads s)) of
        Inl e \<Rightarrow> s\<lparr>mc_phase := (mc_phase s)(i := Failed e), mc_loading := None, mc_loads := Suc (mc_loads s)\<rparr>
      | Inr key \<Rightarrow> s\<lparr>mc_cached := Some \<lparr>cm_key = key, cm_last_used = now\<rparr>,
                    mc_phase := (mc_phase s)(i := Got key),
                    mc_loading := None, mc_loads := Suc (mc_loads s)\<rparr>)"

(* SRC cli AgentMasterCache::new *)
definition master_cache_new :: "'i master_cache" where
  "master_cache_new = \<lparr>mc_cached = None, mc_loading = None, mc_phase = (\<lambda>_. Outside), mc_loads = 0\<rparr>"

section \<open>Runs\<close>

text \<open>
  A configuration has the times of the loads that succeeded, the clock and the cache. The clock never
  runs backwards; it is read inside the section that holds the cache.
\<close>

type_synonym 'i cache_config = "instant list \<times> instant \<times> 'i master_cache"

inductive cache_step ::
    "nat \<Rightarrow> (nat \<Rightarrow> master_key res) \<Rightarrow> 'i cache_config \<Rightarrow> 'i cache_config \<Rightarrow> bool"
  for idle loader where
  arrive: "\<lbrakk>t \<le> t1; mc_phase s i = Outside\<rbrakk>
    \<Longrightarrow> cache_step idle loader (log, t, s) (log, t1, look idle t1 i Missed False s)"
| lock: "\<lbrakk>mc_phase s i = Missed; mc_loading s = None\<rbrakk>
    \<Longrightarrow> cache_step idle loader (log, t, s)
          (log, t, s\<lparr>mc_phase := (mc_phase s)(i := Holding), mc_loading := Some i\<rparr>)"
| recheck: "\<lbrakk>t \<le> t1; mc_phase s i = Holding\<rbrakk>
    \<Longrightarrow> cache_step idle loader (log, t, s) (log, t1, look idle t1 i Loading True s)"
| load: "\<lbrakk>t \<le> t1; mc_phase s i = Loading\<rbrakk>
    \<Longrightarrow> cache_step idle loader (log, t, s)
          (if is_ok (loader (mc_loads s)) then t1 # log else log, t1, finish_load loader t1 i s)"
| leave: "mc_phase s i = Got k \<or> mc_phase s i = Failed e
    \<Longrightarrow> cache_step idle loader (log, t, s) (log, t, s\<lparr>mc_phase := (mc_phase s)(i := Outside)\<rparr>)"
| maintenance: "t \<le> t1
    \<Longrightarrow> cache_step idle loader (log, t, s) (log, t1, s\<lparr>mc_cached := purge_master idle t1 (mc_cached s)\<rparr>)"

inductive cache_run :: "nat \<Rightarrow> (nat \<Rightarrow> master_key res) \<Rightarrow> instant list \<Rightarrow> instant \<Rightarrow> 'i master_cache \<Rightarrow> bool"
  for idle loader where
  start: "cache_run idle loader [] t master_cache_new"
| step: "\<lbrakk>cache_run idle loader log t s; cache_step idle loader (log, t, s) (log', t', s')\<rbrakk>
    \<Longrightarrow> cache_run idle loader log' t' s'"

section \<open>Invariants\<close>

text \<open>The cache is younger than every load, or empty since an idle timeout.\<close>

definition fresh :: "nat \<Rightarrow> instant list \<Rightarrow> instant \<Rightarrow> cached_master option \<Rightarrow> bool" where
  "fresh idle log t cached \<longleftrightarrow> (case cached of
       None \<Rightarrow> \<forall>a \<in> set log. a + idle \<le> t
     | Some c \<Rightarrow> cm_last_used c \<le> t \<and> (\<forall>a \<in> set log. a \<le> cm_last_used c))"

lemma fresh_later: "\<lbrakk>fresh idle log t c; t \<le> t1\<rbrakk> \<Longrightarrow> fresh idle log t1 c"
  by (auto simp: fresh_def split: option.splits)

lemma fresh_expire: "\<lbrakk>fresh idle log t c; t \<le> t1\<rbrakk> \<Longrightarrow> fresh idle log t1 (expire idle t1 c)"
  by (fastforce simp: fresh_def expire_def split: option.splits)

lemma use_cached_eq:
  "use_cached idle now c = (map_option cm_key (expire idle now c),
     map_option (\<lambda>c. c\<lparr>cm_last_used := now\<rparr>) (expire idle now c))"
  by (simp add: use_cached_def split: option.split)

lemma fresh_use: "\<lbrakk>fresh idle log t c; t \<le> t1\<rbrakk> \<Longrightarrow> fresh idle log t1 (snd (use_cached idle t1 c))"
  using fresh_expire [of idle log t c t1]
  by (cases "expire idle t1 c") (fastforce simp: use_cached_eq fresh_def)+

lemma expire_cases: "expire idle now c = c \<or> expire idle now c = None"
  by (simp add: expire_def)

text \<open>Keys come from the loader.\<close>

definition loaded :: "(nat \<Rightarrow> master_key res) \<Rightarrow> nat \<Rightarrow> master_key \<Rightarrow> bool" where
  "loaded loader n k \<longleftrightarrow> (\<exists>m<n. loader m = Inr k)"

lemma loaded_Suc: "loaded loader n k \<Longrightarrow> loaded loader (Suc n) k"
  unfolding loaded_def using less_SucI by blast

definition cache_ok ::
    "nat \<Rightarrow> (nat \<Rightarrow> master_key res) \<Rightarrow> instant list \<Rightarrow> instant \<Rightarrow> 'i master_cache \<Rightarrow> bool" where
  "cache_ok idle loader log t s \<longleftrightarrow>
     fresh idle log t (mc_cached s) \<and>
     (\<forall>i. (mc_phase s i = Holding \<or> mc_phase s i = Loading) \<longleftrightarrow> mc_loading s = Some i) \<and>
     (\<forall>i. mc_phase s i = Loading \<longrightarrow> mc_cached s = None) \<and>
     (\<forall>c. mc_cached s = Some c \<longrightarrow> loaded loader (mc_loads s) (cm_key c)) \<and>
     (\<forall>i k. mc_phase s i = Got k \<longrightarrow> loaded loader (mc_loads s) k)"

lemma holder:
  "cache_ok idle loader log t s \<Longrightarrow>
     mc_loading s = Some i \<longleftrightarrow> mc_phase s i = Holding \<or> mc_phase s i = Loading"
  by (simp add: cache_ok_def)

lemma look_ok:
  assumes ok: "cache_ok idle loader log t s" and t: "t \<le> t1"
    and enter: "mc_phase s i = Outside \<and> missed = Missed \<and> \<not> locked \<or>
                mc_phase s i = Holding \<and> missed = Loading \<and> locked"
  shows "cache_ok idle loader log t1 (look idle t1 i missed locked s)"
proof (cases "expire idle t1 (mc_cached s)")
  case None
  have "fresh idle log t1 None" using fresh_expire [OF _ t, of idle log "mc_cached s"] ok None by (simp add: cache_ok_def)
  moreover have "mc_loading s \<noteq> Some i \<or> locked" using holder [OF ok, of i] enter by auto
  ultimately show ?thesis
    using ok enter None by (auto simp: cache_ok_def look_def use_cached_eq Let_def)
next
  case (Some c)
  have c: "mc_cached s = Some c" using expire_cases [of idle t1 "mc_cached s"] Some by simp
  have "fresh idle log t1 (Some (c\<lparr>cm_last_used := t1\<rparr>))"
    using fresh_use [OF _ t, of idle log "mc_cached s"] ok Some by (simp add: cache_ok_def use_cached_eq)
  moreover have "mc_phase s j \<noteq> Loading" for j using ok c by (auto simp: cache_ok_def)
  moreover have "mc_loading s \<noteq> Some i \<or> locked" using holder [OF ok, of i] enter by auto
  ultimately show ?thesis
    using ok enter Some c by (auto simp: cache_ok_def look_def use_cached_eq Let_def)
qed

lemma load_ok:
  assumes ok: "cache_ok idle loader log t s" and t: "t \<le> t1" and i: "mc_phase s i = Loading"
  shows "cache_ok idle loader (if is_ok (loader (mc_loads s)) then t1 # log else log) t1
           (finish_load loader t1 i s)"
proof -
  have none: "mc_cached s = None" and own: "mc_loading s = Some i" using ok i by (auto simp: cache_ok_def)
  have old: "\<forall>a \<in> set log. a + idle \<le> t" using ok none by (simp add: cache_ok_def fresh_def)
  have others: "mc_phase s j \<noteq> Holding \<and> mc_phase s j \<noteq> Loading" if "j \<noteq> i" for j
    using ok own that by (auto simp: cache_ok_def)
  show ?thesis
  proof (cases "loader (mc_loads s)")
    case (Inl e)
    then show ?thesis
      using ok t none old others i
      by (auto simp: cache_ok_def finish_load_def fresh_def loaded_Suc)
  next
    case (Inr key)
    have "loaded loader (Suc (mc_loads s)) key" using Inr by (auto simp: loaded_def)
    moreover have "fresh idle (t1 # log) t1 (Some \<lparr>cm_key = key, cm_last_used = t1\<rparr>)"
      using old t by (fastforce simp: fresh_def)
    ultimately show ?thesis
      using ok others Inr i by (auto simp: cache_ok_def finish_load_def loaded_Suc)
  qed
qed

lemma step_ok:
  assumes "cache_step idle loader (log, t, s) (log', t', s')" "cache_ok idle loader log t s"
  shows "cache_ok idle loader log' t' s'"
  using assms(1)
proof (cases rule: cache_step.cases)
  case (arrive i)
  then show ?thesis using assms(2) by (auto intro: look_ok)
next
  case (lock i)
  then show ?thesis using assms(2) by (auto simp: cache_ok_def)
next
  case (recheck i)
  then show ?thesis using assms(2) by (auto intro: look_ok)
next
  case (load i)
  then show ?thesis using load_ok [OF assms(2)] by simp
next
  case (leave i k e)
  then have "mc_loading s \<noteq> Some i" using holder [OF assms(2), of i] by auto
  then show ?thesis using assms(2) leave by (auto simp: cache_ok_def)
next
  case maintenance
  then show ?thesis
    using assms(2) fresh_expire [OF _ maintenance(3), of idle log "mc_cached s"]
      expire_cases [of idle t' "mc_cached s"]
    by (auto simp: cache_ok_def purge_master_def)
qed

lemma run_ok: "cache_run idle loader log t s \<Longrightarrow> cache_ok idle loader log t s"
proof (induction rule: cache_run.induct)
  case (start t)
  then show ?case by (simp add: cache_ok_def master_cache_new_def fresh_def)
next
  case (step log t s log' t' s')
  then show ?case by (blast intro: step_ok)
qed

section \<open>A sample\<close>

text \<open>
  Request \<open>False\<close> loads the key at 2; request \<open>True\<close> arrives at 20, more than the idle timeout of
  10 later, and is about to load again.
\<close>

definition sample_loader :: "nat \<Rightarrow> master_key res" where
  "sample_loader n = Inr [of_nat n]"

definition first_load :: "bool master_cache" where
  "first_load = finish_load sample_loader 2 False (look 10 0 False Loading True
     ((look 10 0 False Missed False master_cache_new)
        \<lparr>mc_phase := (mc_phase (look 10 0 False Missed False master_cache_new))(False := Holding), mc_loading := Some False\<rparr>))"

lemma first_load_eq:
  "first_load = \<lparr>mc_cached = Some \<lparr>cm_key = [0], cm_last_used = 2\<rparr>, mc_loading = None,
     mc_phase = (\<lambda>_. Outside)(False := Got [0]), mc_loads = Suc 0\<rparr>"
  by (auto simp: first_load_def finish_load_def look_def use_cached_def expire_def master_cache_new_def
      sample_loader_def)

lemma first_load_run: "cache_run 10 sample_loader [2] 2 first_load"
proof -
  have 1: "cache_run 10 sample_loader [] 0 (look 10 0 False Missed False master_cache_new)"
    by (rule cache_run.step [OF cache_run.start [of _ _ 0] cache_step.arrive]) (simp_all add: master_cache_new_def)
  note look = look_def use_cached_def expire_def master_cache_new_def
  note 2 = cache_run.step [OF 1 cache_step.lock, of False, unfolded look, simplified]
  note 3 = cache_run.step [OF 2 cache_step.recheck, of 0 False, unfolded look, simplified]
  note 4 = cache_run.step [OF 3 cache_step.load, of 2 False, simplified]
  show ?thesis
    using 4 by (simp add: first_load_def look sample_loader_def)
qed

definition second_request :: "bool master_cache" where
  "second_request = \<lparr>mc_cached = None, mc_loading = Some True,
     mc_phase = (\<lambda>_. Outside)(False := Got [0], True := Loading), mc_loads = Suc 0\<rparr>"

lemma second_request_run: "cache_run 10 sample_loader [2] 20 second_request"
proof -
  note look = look_def use_cached_def expire_def
  have "look 10 20 True Missed False first_load = \<lparr>mc_cached = None, mc_loading = None,
      mc_phase = (\<lambda>_. Outside)(False := Got [0], True := Missed), mc_loads = Suc 0\<rparr>"
    by (auto simp: first_load_eq look)
  then have "cache_run 10 sample_loader [2] 20 \<lparr>mc_cached = None, mc_loading = None,
      mc_phase = (\<lambda>_. Outside)(False := Got [0], True := Missed), mc_loads = Suc 0\<rparr>"
    using cache_run.step [OF first_load_run cache_step.arrive, of 20 True] by (simp add: first_load_eq)
  from cache_run.step [OF this cache_step.lock, of True]
  have "cache_run 10 sample_loader [2] 20 \<lparr>mc_cached = None, mc_loading = Some True,
      mc_phase = (\<lambda>_. Outside)(False := Got [0], True := Holding), mc_loads = Suc 0\<rparr>"
    by simp
  from cache_run.step [OF this cache_step.recheck, of 20 True] show ?thesis
    by (simp add: look second_request_def)
qed

section \<open>Properties\<close>

text \<open>
  Concurrent cold loads share one store access: in any run of any number of requests, at most
  one request is loading at a time, while it loads nobody finds a cached key, a load starts only
  when the idle timeout has passed since every earlier load that succeeded, and every key a
  request gets is one the store returned.
\<close>

theorem cold_loads_shared:
  assumes "cache_run idle loader log t s" and "mc_phase s i = Loading"
  shows "(\<forall>j. mc_phase s j = Loading \<longleftrightarrow> j = i) \<and> mc_cached s = None \<and>
    list_all (\<lambda>a. a + idle \<le> t) log \<and>
    (\<forall>j. case mc_phase s j of Got k \<Rightarrow> \<exists>m<mc_loads s. loader m = Inr k | _ \<Rightarrow> True)"
proof -
  note ok = run_ok [OF assms(1)]
  have none: "mc_cached s = None" and "mc_loading s = Some i" using ok assms(2) by (auto simp: cache_ok_def)
  then have "mc_phase s j = Loading \<longleftrightarrow> j = i" for j using holder [OF ok, of j] assms(2) by auto
  moreover have "list_all (\<lambda>a. a + idle \<le> t) log"
    using ok none by (simp add: cache_ok_def fresh_def list_all_iff)
  moreover have "case mc_phase s j of Got k \<Rightarrow> \<exists>m<mc_loads s. loader m = Inr k | _ \<Rightarrow> True" for j
    using ok by (cases "mc_phase s j") (auto simp: cache_ok_def loaded_def)
  ultimately show ?thesis using none by blast
qed

theorem cold_loads_shared_witness:
  "(\<forall>j. mc_phase second_request j = Loading \<longleftrightarrow> j = True) \<and> mc_phase second_request False = Got [0]"
  using cold_loads_shared [OF second_request_run, of True] by (simp add: second_request_def)

section \<open>A request from its start to its answer\<close>

text \<open>
  \<open>get\<close> as the code has it, for a request that no other interrupts: the cached key with the clock that
  is read under its lock, and the loader, whose calls are numbered. A lock that a panicking thread left
  is poisoned: the cache refuses, the loading lock is taken all the same.
\<close>

record cache_cell =
  ce_poisoned :: bool
  ce_cached :: "cached_master option"
  ce_reads :: nat
  ce_loads :: nat

(* SRC cli AgentMasterCache::lock_cached *)
definition lock_cached :: "(nat \<Rightarrow> instant) \<Rightarrow> cache_cell \<Rightarrow> instant res \<times> cache_cell" where
  "lock_cached clock s =
     (if ce_poisoned s then (bail ''agent master cache lock is poisoned'', s)
      else (Inr (clock (ce_reads s)), s\<lparr>ce_reads := Suc (ce_reads s)\<rparr>))"

(* SRC cli AgentMasterCache::use_cached *)
definition use_cell ::
    "nat \<Rightarrow> (nat \<Rightarrow> instant) \<Rightarrow> cache_cell \<Rightarrow> master_key option res \<times> cache_cell" where
  "use_cell idle clock s =
     then_st (lock_cached clock s) (\<lambda>now s.
       let (key, cached) = use_cached idle now (ce_cached s) in (Inr key, s\<lparr>ce_cached := cached\<rparr>))"

(* SRC cli AgentMasterCache::get *)
definition master_get ::
    "nat \<Rightarrow> (nat \<Rightarrow> instant) \<Rightarrow> master_source \<Rightarrow> cache_cell \<Rightarrow> master_key res \<times> cache_cell" where
  "master_get idle clock source s =
     (case source of
        Unlocked master \<Rightarrow> (Inr master, s)
      | FromStore loader \<Rightarrow>
          then_st (use_cell idle clock s) (\<lambda>found s.
          case found of
            Some master \<Rightarrow> (Inr master, s)
          | None \<Rightarrow>
              then_st (use_cell idle clock s) (\<lambda>found s.
              case found of
                Some master \<Rightarrow> (Inr master, s)
              | None \<Rightarrow>
                  then_st (with_context ''failed to load standard master key'' (loader (ce_loads s)),
                           s\<lparr>ce_loads := Suc (ce_loads s)\<rparr>) (\<lambda>master s.
                  then_st (lock_cached clock s) (\<lambda>now s.
                    (Inr master, s\<lparr>ce_cached := Some \<lparr>cm_key = master, cm_last_used = now\<rparr>\<rparr>))))))"

(* SRC cli AgentMasterCache::purge *)
definition purge_cell :: "nat \<Rightarrow> (nat \<Rightarrow> instant) \<Rightarrow> cache_cell \<Rightarrow> unit res \<times> cache_cell" where
  "purge_cell idle clock s =
     then_st (lock_cached clock s) (\<lambda>now s. (Inr (), s\<lparr>ce_cached := purge_master idle now (ce_cached s)\<rparr>))"

text \<open>The steps of the concurrent model are the sections of \<open>get\<close>.\<close>

definition answer_phase :: "master_key res \<Rightarrow> phase" where
  "answer_phase r = (case r of Inl e \<Rightarrow> Failed e | Inr k \<Rightarrow> Got k)"

definition same_cell :: "cache_cell \<Rightarrow> 'i master_cache \<Rightarrow> bool" where
  "same_cell c s \<longleftrightarrow> \<not> ce_poisoned c \<and> ce_cached c = mc_cached s \<and> ce_loads c = mc_loads s"

lemma get_cases:
  fixes clock :: "nat \<Rightarrow> instant"
  assumes "\<not> ce_poisoned c"
  defines "t0 \<equiv> clock (ce_reads c)" and "t2 \<equiv> clock (Suc (Suc (ce_reads c)))"
  shows "master_get idle clock (FromStore loader) c =
    (case use_cached idle t0 (ce_cached c) of
       (Some k, cached) \<Rightarrow> (Inr k, c\<lparr>ce_cached := cached, ce_reads := Suc (ce_reads c)\<rparr>)
     | (None, _) \<Rightarrow>
         (case with_context ''failed to load standard master key'' (loader (ce_loads c)) of
            Inl e \<Rightarrow> (Inl e, c\<lparr>ce_cached := None, ce_reads := Suc (Suc (ce_reads c)), ce_loads := Suc (ce_loads c)\<rparr>)
          | Inr k \<Rightarrow> (Inr k, c\<lparr>ce_cached := Some \<lparr>cm_key = k, cm_last_used = t2\<rparr>,
                            ce_reads := Suc (Suc (Suc (ce_reads c))), ce_loads := Suc (ce_loads c)\<rparr>)))"
  using assms(1)
  by (auto simp: master_get_def use_cell_def lock_cached_def use_cached_eq expire_def t0_def t2_def
      split: option.split sum.split if_splits)

definition waiting :: "phase \<Rightarrow> bool" where
  "waiting p \<longleftrightarrow> p = Missed \<or> p = Holding \<or> p = Loading"

definition answered :: "phase \<Rightarrow> bool" where
  "answered p \<longleftrightarrow> (case p of Got _ \<Rightarrow> True | Failed _ \<Rightarrow> True | _ \<Rightarrow> False)"

lemma look_phase: "mc_phase (look idle now i missed locked s) j =
    (if j = i then (case use_cached idle now (mc_cached s) of (Some k, _) \<Rightarrow> Got k | (None, _) \<Rightarrow> missed) else mc_phase s j)"
  by (auto simp: look_def case_prod_unfold Let_def split: option.split)

lemma look_loading: "mc_loading (look idle now i missed locked s) =
    (if locked \<and> fst (use_cached idle now (mc_cached s)) \<noteq> None then None else mc_loading s)"
  by (auto simp: look_def case_prod_unfold Let_def split: option.split)

lemma look_cached: "mc_cached (look idle now i missed locked s) = snd (use_cached idle now (mc_cached s))"
  "mc_loads (look idle now i missed locked s) = mc_loads s"
  by (auto simp: look_def case_prod_unfold Let_def split: option.split)

lemma finish_phase: "mc_phase (finish_load loader now i s) j =
    (if j = i then answer_phase (with_context ''failed to load standard master key'' (loader (mc_loads s))) else mc_phase s j)"
  "mc_loading (finish_load loader now i s) = None"
  by (auto simp: finish_load_def answer_phase_def split: sum.split)

lemma answered_answer [simp]: "answered (answer_phase r)"
  by (cases r) (simp_all add: answered_def answer_phase_def)

text \<open>A request that holds the loading lock comes to its answer in two steps at most, and gives the lock back.\<close>

lemma two_steps: "r x y \<Longrightarrow> r y z \<Longrightarrow> r\<^sup>*\<^sup>* x z"
  by (blast intro: rtranclp.rtrancl_into_rtrancl)

lemma holder_finishes:
  assumes "mc_phase s j = Holding \<or> mc_phase s j = Loading" "mc_loading s = Some j"
  shows "\<exists>log' s'. (cache_step idle loader)\<^sup>*\<^sup>* (log, t, s) (log', t, s') \<and> mc_loading s' = None \<and>
    answered (mc_phase s' j) \<and> (\<forall>k. k \<noteq> j \<longrightarrow> mc_phase s' k = mc_phase s k)"
proof -
  have load: "\<exists>log' s'. cache_step idle loader (log, t, x) (log', t, s') \<and> mc_loading s' = None \<and>
      answered (mc_phase s' j) \<and> (\<forall>k. k \<noteq> j \<longrightarrow> mc_phase s' k = mc_phase x k)" if "mc_phase x j = Loading" for x
    using cache_step.load [of t t x j idle loader log] that by (fastforce simp: finish_phase)
  show ?thesis
  proof (cases "mc_phase s j = Holding")
    case False
    then show ?thesis using load [of s] assms(1) by blast
  next
    case True
    let ?s = "look idle t j Loading True s"
    have re: "cache_step idle loader (log, t, s) (log, t, ?s)" using True by (blast intro: cache_step.recheck)
    have same: "k \<noteq> j \<longrightarrow> mc_phase ?s k = mc_phase s k" for k by (simp add: look_phase)
    show ?thesis
    proof (cases "fst (use_cached idle t (mc_cached s))")
      case None
      then have "mc_phase ?s j = Loading" by (simp add: look_phase case_prod_unfold)
      then obtain log' s' where s': "cache_step idle loader (log, t, ?s) (log', t, s')" "mc_loading s' = None"
          "answered (mc_phase s' j)" "\<forall>k. k \<noteq> j \<longrightarrow> mc_phase s' k = mc_phase ?s k"
        using load [of ?s] by blast
      have "(cache_step idle loader)\<^sup>*\<^sup>* (log, t, s) (log', t, s')"
        using re s'(1) by (rule two_steps)
      moreover have "\<forall>k. k \<noteq> j \<longrightarrow> mc_phase s' k = mc_phase s k" using s'(4) same by simp
      ultimately show ?thesis using s'(2,3) by blast
    next
      case (Some key)
      then have "mc_loading ?s = None" "answered (mc_phase ?s j)"
        by (simp_all add: look_phase look_loading case_prod_unfold answered_def)
      then show ?thesis using re same by blast
    qed
  qed
qed

text \<open>From an empty cache and a free lock, the request takes the lock, looks again and loads.\<close>

lemma missed_loads:
  fixes loader :: "nat \<Rightarrow> master_key res"
  assumes at: "mc_phase s i = Missed" "mc_loading s = None" "mc_cached s = None" and t: "t \<le> t1"
  defines "key \<equiv> with_context ''failed to load standard master key'' (loader (mc_loads s))"
  shows "\<exists>log' s'. (cache_step idle loader)\<^sup>*\<^sup>* (log, t, s) (log', t1, s') \<and>
    mc_phase s' i = answer_phase key \<and> mc_loading s' = None \<and> mc_loads s' = Suc (mc_loads s) \<and>
    mc_cached s' = (case key of Inl _ \<Rightarrow> None | Inr k \<Rightarrow> Some \<lparr>cm_key = k, cm_last_used = t1\<rparr>)"
proof -
  let ?s1 = "s\<lparr>mc_phase := (mc_phase s)(i := Holding), mc_loading := Some i\<rparr>"
  let ?s2 = "look idle t i Loading True ?s1"
  let ?s3 = "finish_load loader t1 i ?s2"
  have empty: "use_cached idle t None = (None, None)" by (simp add: use_cached_def expire_def)
  have s2: "mc_phase ?s2 i = Loading" "mc_loads ?s2 = mc_loads s" "mc_cached ?s2 = None"
    by (simp_all add: look_phase look_cached at(3) empty)
  have "cache_step idle loader (log, t, s) (log, t, ?s1)" using at by (intro cache_step.lock) simp_all
  moreover have "cache_step idle loader (log, t, ?s1) (log, t, ?s2)" by (intro cache_step.recheck) simp_all
  moreover have "cache_step idle loader (log, t, ?s2) (if is_ok (loader (mc_loads ?s2)) then t1 # log else log, t1, ?s3)"
    using t s2(1) by (intro cache_step.load) simp_all
  ultimately have "(cache_step idle loader)\<^sup>*\<^sup>* (log, t, s) (if is_ok (loader (mc_loads ?s2)) then t1 # log else log, t1, ?s3)"
    by (meson r_into_rtranclp rtranclp.rtrancl_into_rtrancl)
  moreover have "mc_phase ?s3 i = answer_phase key" by (simp add: finish_phase(1) s2(2) key_def)
  moreover have "mc_loads ?s3 = Suc (mc_loads s)"
      "mc_cached ?s3 = (case key of Inl _ \<Rightarrow> None | Inr k \<Rightarrow> Some \<lparr>cm_key = k, cm_last_used = t1\<rparr>)"
    using s2(2,3) by (simp_all add: finish_load_def key_def split: sum.split)
  ultimately show ?thesis using finish_phase(2) by (intro exI conjI) assumption+
qed

text \<open>A run of \<open>get\<close> that nobody interrupts is a run of the concurrent model, with the same answer and cache.\<close>

lemma get_runs:
  assumes cell: "same_cell c s" and clock: "mono clock" "t \<le> clock (ce_reads c)"
    and free: "mc_phase s i = Outside" "mc_loading s = None"
    and get: "master_get idle clock (FromStore loader) c = (r, c')"
  shows "\<exists>log' t' s'. (cache_step idle loader)\<^sup>*\<^sup>* (log, t, s) (log', t', s') \<and> same_cell c' s' \<and>
    mc_phase s' i = answer_phase r \<and> mc_loading s' = None"
proof -
  let ?t0 = "clock (ce_reads c)" and ?t2 = "clock (Suc (Suc (ce_reads c)))"
  let ?s0 = "look idle ?t0 i Missed False s"
  let ?key = "with_context ''failed to load standard master key'' (loader (mc_loads s))"
  have first: "cache_step idle loader (log, t, s) (log, ?t0, ?s0)"
    using clock(2) free(1) by (blast intro: cache_step.arrive)
  note get = get [unfolded get_cases [OF conjunct1 [OF cell [unfolded same_cell_def]]]]
  have same: "ce_cached c = mc_cached s" "ce_loads c = mc_loads s" "\<not> ce_poisoned c"
    using cell by (simp_all add: same_cell_def)
  show ?thesis
  proof (cases "expire idle ?t0 (mc_cached s)")
    case (Some k)
    then have "same_cell c' ?s0 \<and> mc_phase ?s0 i = answer_phase r \<and> mc_loading ?s0 = None"
      using get same free by (auto simp: use_cached_eq same_cell_def look_cached look_phase look_loading answer_phase_def)
    then show ?thesis using first by (blast intro: r_into_rtranclp)
  next
    case None
    have gone: "use_cached idle ?t0 (mc_cached s) = (None, None)" using None by (simp add: use_cached_eq)
    have "mc_phase ?s0 i = Missed" "mc_loading ?s0 = None" "mc_cached ?s0 = None" "?t0 \<le> ?t2" "mc_loads ?s0 = mc_loads s"
      using clock(1) by (simp_all add: look_phase look_loading look_cached gone free(2) monoD)
    then obtain log' s' where rest: "(cache_step idle loader)\<^sup>*\<^sup>* (log, ?t0, ?s0) (log', ?t2, s')"
        "mc_phase s' i = answer_phase ?key" "mc_loading s' = None" "mc_loads s' = Suc (mc_loads s)"
        "mc_cached s' = (case ?key of Inl _ \<Rightarrow> None | Inr k \<Rightarrow> Some \<lparr>cm_key = k, cm_last_used = ?t2\<rparr>)"
      using missed_loads [of ?s0 i ?t0 ?t2 idle loader log] by auto
    have "r = ?key \<and> same_cell c' s'"
      using get rest(4,5) by (auto simp: same gone same_cell_def split: sum.splits)
    then show ?thesis
      using rest(2,3) converse_rtranclp_into_rtranclp [of "cache_step idle loader", OF first rest(1)] by auto
  qed
qed

text \<open>
  C26. A request for the standard master is never stuck: in any state that any interleaving of requests and
  maintenance reaches, a request that waits for the loading lock, or holds it, can be brought to its
  answer - a key or the error of its own load - by steps of requests alone, in no time; a load that
  failed does not keep the lock.
\<close>

theorem master_request_answered:
  assumes "cache_run idle loader log t s" and "waiting (mc_phase s i)"
  shows "\<exists>log' s'. (cache_step idle loader)\<^sup>*\<^sup>* (log, t, s) (log', t, s') \<and> answered (mc_phase s' i)"
proof -
  note ok = run_ok [OF assms(1)]
  have own: "mc_loading s = Some j \<longleftrightarrow> mc_phase s j = Holding \<or> mc_phase s j = Loading" for j by (rule holder [OF ok])
  show ?thesis
  proof (cases "mc_phase s i = Missed")
    case False
    then show ?thesis using holder_finishes [of s i idle loader log t] own assms(2) by (auto simp: waiting_def)
  next
    case True
    obtain log1 s1 where free: "(cache_step idle loader)\<^sup>*\<^sup>* (log, t, s) (log1, t, s1)" "mc_loading s1 = None"
        "mc_phase s1 i = Missed"
    proof (cases "mc_loading s")
      case None
      then show ?thesis using that True by blast
    next
      case (Some j)
      then have "mc_phase s j = Holding \<or> mc_phase s j = Loading" "j \<noteq> i" using own True by auto
      then show ?thesis using holder_finishes [of s j idle loader log t] Some True that by metis
    qed
    let ?s = "s1\<lparr>mc_phase := (mc_phase s1)(i := Holding), mc_loading := Some i\<rparr>"
    have lock: "cache_step idle loader (log1, t, s1) (log1, t, ?s)" using free by (blast intro: cache_step.lock)
    obtain log' s' where s': "(cache_step idle loader)\<^sup>*\<^sup>* (log1, t, ?s) (log', t, s')" "answered (mc_phase s' i)"
      using holder_finishes [of ?s i idle loader log1 t] by auto
    have "(cache_step idle loader)\<^sup>*\<^sup>* (log, t, s) (log', t, s')"
      by (rule rtranclp_trans [OF free(1) converse_rtranclp_into_rtranclp [OF lock s'(1)]])
    then show ?thesis using s'(2) by blast
  qed
qed

theorem master_request_answered_witness:
  "\<exists>log' s'. (cache_step 10 sample_loader)\<^sup>*\<^sup>* ([2], 20, second_request) (log', 20, s') \<and> answered (mc_phase s' True)"
  using master_request_answered [OF second_request_run, of True] by (simp add: second_request_def waiting_def)

end
