(* ===== verification/FileSys.thy ===== *)
theory FileSys
  imports StoreTypes
begin

unbundle bit_operations_syntax

text \<open>
  The file system as the stores of \<open>crates/avault-store/src/lib.rs\<close> use it: the Unix calls, the
  permission checks, the directory that holds a secret, and the temporary file every secret is
  written to before it is installed under its name.

  \<^item> The state \<open>fs\<close> maps a path, as the process spells it, to a directory, a regular file or a
    socket with its permission bits, and counts the calls made. Links, owners and the enforcement of
    permissions by the kernel are not modelled; any call may fail instead.
  \<^item> \<open>os\<close> is everything outside the program: which call fails and how, how much of a failing
    write reached the file, the allocator, the random generator, the umask, the memory a
    \<open>Vec\<close> may take, and the operations of the \<open>tempfile\<close> package, of which \<open>tempfile_laws\<close>
    states what the code relies on.
\<close>

section \<open>The state\<close>

datatype node = Dir u32 | Reg u32 bytes | Sock u32

primrec node_mode :: "node \<Rightarrow> u32" where
  "node_mode (Dir m) = m"
| "node_mode (Reg m _) = m"
| "node_mode (Sock m) = m"

primrec set_mode :: "u32 \<Rightarrow> node \<Rightarrow> node" where
  "set_mode m (Dir _) = Dir m"
| "set_mode m (Reg _ bs) = Reg m bs"
| "set_mode m (Sock _) = Sock m"

record fs =
  nodes :: "path \<Rightarrow> node option"
  calls :: nat

record os =
  fault :: "nat \<Rightarrow> io_kind option"
  short_write :: "nat \<Rightarrow> nat"
  alloc_fails :: "nat \<Rightarrow> bool"
  rng :: "nat \<Rightarrow> nat \<Rightarrow> byte"
  umask :: u32
  vec_limit :: nat
  tempfile_in :: "path \<Rightarrow> string \<Rightarrow> string \<Rightarrow> fs \<Rightarrow> path res \<times> fs"
  persist :: "path \<Rightarrow> path \<Rightarrow> fs \<Rightarrow> unit res \<times> fs"
  persist_noclobber :: "path \<Rightarrow> path \<Rightarrow> fs \<Rightarrow> unit res \<times> fs"
  remove_temp :: "path \<Rightarrow> fs \<Rightarrow> fs"

section \<open>Paths\<close>

text \<open>
  \<open>Path::parent\<close>: the last component goes, after trailing separators and \<open>.\<close> components; 47 is
  the separator and 46 the dot. \<open>trim_rev\<close> works on the reversed path.
\<close>

fun trim_rev :: "bytes \<Rightarrow> bytes" where
  "trim_rev (b # r) =
     (if b = 47 then (if r = [] then [47] else trim_rev r)
      else if b = 46 \<and> r \<noteq> [] \<and> hd r = 47 then trim_rev r
      else b # r)"
| "trim_rev [] = []"

definition path_parent :: "path \<Rightarrow> path option" where
  "path_parent p = (let r = trim_rev (rev p)
     in if r = [] \<or> r = [47] then None
        else let d = dropWhile (\<lambda>b. b \<noteq> 47) r
             in if d = [] then Some [] else Some (rev (trim_rev d)))"

(* SRC store writable_parent *)
definition writable_parent :: "path \<Rightarrow> path" where
  "writable_parent p = (case path_parent p of
       Some parent \<Rightarrow> if parent \<noteq> [] then parent else [46]
     | None \<Rightarrow> [46])"

section \<open>System calls\<close>

text \<open>Every call may fail before it does anything.\<close>

definition syscall :: "'o os_scheme \<Rightarrow> (fs \<Rightarrow> 'a res \<times> fs) \<Rightarrow> fs \<Rightarrow> 'a res \<times> fs" where
  "syscall os act s = (let s' = s\<lparr>calls := Suc (calls s)\<rparr>
     in case fault os (calls s) of Some k \<Rightarrow> (Inl [Io k], s') | None \<Rightarrow> act s')"

definition path_exists :: "'o os_scheme \<Rightarrow> path \<Rightarrow> fs \<Rightarrow> bool \<times> fs" where
  \<comment> \<open>\<open>Path::exists\<close>: a failing call counts as missing.\<close>
  "path_exists os p s = (fault os (calls s) = None \<and> nodes s p \<noteq> None, s\<lparr>calls := Suc (calls s)\<rparr>)"

definition metadata_mode :: "'o os_scheme \<Rightarrow> path \<Rightarrow> fs \<Rightarrow> u32 res \<times> fs" where
  "metadata_mode os p = syscall os (\<lambda>s. (case nodes s p of
       None \<Rightarrow> Inl [Io NotFound] | Some n \<Rightarrow> Inr (node_mode n), s))"

definition set_permissions :: "'o os_scheme \<Rightarrow> path \<Rightarrow> u32 \<Rightarrow> fs \<Rightarrow> unit res \<times> fs" where
  "set_permissions os p m = syscall os (\<lambda>s. case nodes s p of
       None \<Rightarrow> (Inl [Io NotFound], s)
     | Some n \<Rightarrow> (Inr (), s\<lparr>nodes := (nodes s)(p \<mapsto> set_mode m n)\<rparr>))"

definition create_dir :: "'o os_scheme \<Rightarrow> path \<Rightarrow> fs \<Rightarrow> unit res \<times> fs" where
  "create_dir os p = syscall os (\<lambda>s. case nodes s p of
       Some _ \<Rightarrow> (Inl [Io AlreadyExists], s)
     | None \<Rightarrow> (case nodes s (writable_parent p) of
         Some (Dir _) \<Rightarrow> (Inr (), s\<lparr>nodes := (nodes s)(p \<mapsto> Dir (511 AND NOT (umask os)))\<rparr>)
       | Some _ \<Rightarrow> (Inl [Io (OtherIo ''Not a directory (os error 20)'')], s)
       | None \<Rightarrow> (Inl [Io NotFound], s)))"

definition file_open :: "'o os_scheme \<Rightarrow> path \<Rightarrow> fs \<Rightarrow> node res \<times> fs" where
  \<comment> \<open>\<open>File::open\<close> also opens a directory, and only reading it fails; a socket cannot be opened.\<close>
  "file_open os p = syscall os (\<lambda>s. (case nodes s p of
       None \<Rightarrow> Inl [Io NotFound]
     | Some (Sock _) \<Rightarrow> Inl [Io (OtherIo ''No such device or address (os error 6)'')]
     | Some n \<Rightarrow> Inr n, s))"

definition read_at :: "'o os_scheme \<Rightarrow> node \<Rightarrow> nat \<Rightarrow> nat \<Rightarrow> fs \<Rightarrow> bytes res \<times> fs" where
  \<comment> \<open>Up to \<open>n\<close> bytes of the open file from an offset on.\<close>
  "read_at os f offset n = syscall os (\<lambda>s. (case f of
       Reg _ bs \<Rightarrow> Inr (take n (drop offset bs))
     | _ \<Rightarrow> Inl [Io (OtherIo ''Is a directory (os error 21)'')], s))"

definition read_exact :: "'o os_scheme \<Rightarrow> node \<Rightarrow> nat \<Rightarrow> fs \<Rightarrow> bytes res \<times> fs" where
  "read_exact os f n s = then_st (read_at os f 0 n s) (\<lambda>bs s.
     if length bs < n then (Inl [Io UnexpectedEof], s) else (Inr bs, s))"

definition fs_read :: "'o os_scheme \<Rightarrow> path \<Rightarrow> fs \<Rightarrow> bytes res \<times> fs" where
  \<comment> \<open>\<open>fs::read\<close>: the whole file.\<close>
  "fs_read os p s = then_st (file_open os p s) (\<lambda>f s. case f of
       Reg _ bs \<Rightarrow> read_at os f 0 (length bs) s
     | _ \<Rightarrow> read_at os f 0 0 s)"

definition write_all :: "'o os_scheme \<Rightarrow> path \<Rightarrow> bytes \<Rightarrow> fs \<Rightarrow> unit res \<times> fs" where
  \<comment> \<open>To the end of a file just created under \<open>p\<close>. A failing write may have written a prefix.\<close>
  "write_all os p bs s =
     (let t = calls s; s = s\<lparr>calls := Suc t\<rparr>;
          put = (\<lambda>out. case nodes s p of
             Some (Reg m old) \<Rightarrow> s\<lparr>nodes := (nodes s)(p \<mapsto> Reg m (old @ out))\<rparr>
           | _ \<Rightarrow> s)
      in case fault os t of
           Some k \<Rightarrow> (Inl [Io k], put (take (short_write os t) bs))
         | None \<Rightarrow> (Inr (), put bs))"

definition sync_all :: "'o os_scheme \<Rightarrow> fs \<Rightarrow> unit res \<times> fs" where
  "sync_all os = syscall os (\<lambda>s. (Inr (), s))"

section \<open>Permission checks\<close>

(* SRC store validate_file_mode@2363 *)
definition validate_file_mode :: "'o os_scheme \<Rightarrow> path \<Rightarrow> fs \<Rightarrow> unit res \<times> fs" where
  "validate_file_mode os p s =
     then_st (context_st ''failed to stat master key'' (metadata_mode os p s)) (\<lambda>m s.
     let mode = m AND 511
     in if mode AND 63 \<noteq> 0 then (bail ''master key mode is too open'', s) else (Inr (), s))"

(* SRC store validate_directory_mode@2378 *)
definition validate_directory_mode :: "'o os_scheme \<Rightarrow> path \<Rightarrow> fs \<Rightarrow> unit res \<times> fs" where
  "validate_directory_mode os p s =
     then_st (context_st ''failed to stat master key directory'' (metadata_mode os p s)) (\<lambda>m s.
     let mode = m AND 511
     in if mode AND 63 \<noteq> 0 then (bail ''master key directory mode is too open'', s)
        else (Inr (), s))"

(* SRC store validate_parent_directory_mode *)
definition validate_parent_directory_mode :: "'o os_scheme \<Rightarrow> path \<Rightarrow> fs \<Rightarrow> unit res \<times> fs" where
  "validate_parent_directory_mode os p = validate_directory_mode os (writable_parent p)"

(* SRC store secure_created_directory@2297 *)
definition secure_created_directory :: "'o os_scheme \<Rightarrow> path \<Rightarrow> fs \<Rightarrow> unit res \<times> fs" where
  "secure_created_directory os p s =
     context_st ''failed to secure secret directory'' (set_permissions os p 448 s)"

(* SRC store CreatedFileOwner *)
datatype created_file_owner = SetCurrentUser | Keep

(* SRC store secure_created_file@2303 *)
definition secure_created_file ::
    "'o os_scheme \<Rightarrow> path \<Rightarrow> created_file_owner \<Rightarrow> fs \<Rightarrow> unit res \<times> fs" where
  "secure_created_file os p owner s =
     context_st ''failed to secure secret file'' (set_permissions os p 384 s)"

(* SRC store sync_directory@2326 *)
definition sync_directory :: "'o os_scheme \<Rightarrow> path \<Rightarrow> fs \<Rightarrow> unit res \<times> fs" where
  "sync_directory os parent s =
     then_st (context_st ''failed to open master key directory'' (file_open os parent s)) (\<lambda>_ s.
     context_st ''failed to sync master key directory'' (sync_all os s))"

(* SRC store sync_parent_dir *)
definition sync_parent_dir :: "'o os_scheme \<Rightarrow> path \<Rightarrow> fs \<Rightarrow> unit res \<times> fs" where
  "sync_parent_dir os p = sync_directory os (writable_parent p)"

section \<open>Directories that hold secrets\<close>

lemma length_trim_rev: "length (trim_rev r) \<le> length r"
  by (induction r rule: trim_rev.induct) auto

lemma trim_rev_Cons_dvd: "trim_rev r = b # t \<Longrightarrow> b \<noteq> 47 \<or> t = []"
  by (induction r rule: trim_rev.induct) (auto split: if_splits)

lemma path_parent_shorter: "path_parent p = Some q \<Longrightarrow> length q < length p"
proof -
  assume p: "path_parent p = Some q"
  define r where "r = trim_rev (rev p)"
  have r: "r \<noteq> []" "r \<noteq> [47]" and rp: "length r \<le> length p"
    using p length_trim_rev [of "rev p"] by (auto simp: path_parent_def r_def Let_def split: if_splits)
  from r(1) obtain b t where bt: "r = b # t" by (cases r) auto
  with r(2) have b: "b \<noteq> 47" using trim_rev_Cons_dvd [of "rev p" b t] by (auto simp: r_def)
  have d: "length (dropWhile (\<lambda>b. b \<noteq> 47) r) < length r"
    using bt b by (simp add: length_dropWhile_le le_imp_less_Suc)
  have "length q \<le> length (dropWhile (\<lambda>b. b \<noteq> 47) r)"
    using p r length_trim_rev [of "dropWhile (\<lambda>b. b \<noteq> 47) r"]
    by (auto simp: path_parent_def r_def [symmetric] Let_def split: if_splits)
  with d rp show ?thesis by linarith
qed

text \<open>\<open>Path::is_dir\<close>, and \<open>fs::create_dir_all\<close> of the standard library.\<close>

definition is_dir :: "'o os_scheme \<Rightarrow> path \<Rightarrow> fs \<Rightarrow> bool \<times> fs" where
  "is_dir os p s = (fault os (calls s) = None \<and> (case nodes s p of Some (Dir _) \<Rightarrow> True | _ \<Rightarrow> False),
                    s\<lparr>calls := Suc (calls s)\<rparr>)"

definition or_is_dir :: "'o os_scheme \<Rightarrow> path \<Rightarrow> err \<Rightarrow> fs \<Rightarrow> unit res \<times> fs" where
  "or_is_dir os p e s = (let (d, s) = is_dir os p s in (if d then Inr () else Inl e, s))"

function create_dir_all :: "'o os_scheme \<Rightarrow> path \<Rightarrow> fs \<Rightarrow> unit res \<times> fs" where
  "create_dir_all os p s =
     (if p = [] then (Inr (), s)
      else case create_dir os p s of
        (Inr _, s) \<Rightarrow> (Inr (), s)
      | (Inl e, s) \<Rightarrow>
          if e \<noteq> [Io NotFound] then or_is_dir os p e s
          else (case path_parent p of
             None \<Rightarrow> (Inl [Io (OtherIo ''failed to create whole tree'')], s)
           | Some parent \<Rightarrow> then_st (create_dir_all os parent s) (\<lambda>_ s.
               case create_dir os p s of
                 (Inr _, s) \<Rightarrow> (Inr (), s)
               | (Inl e, s) \<Rightarrow> or_is_dir os p e s)))"
  by pat_completeness auto
termination
  by (relation "measure (\<lambda>(_, p, _). length p)") (auto dest: path_parent_shorter)

declare create_dir_all.simps [simp del]

(* SRC store ensure_output_parent_directory *)
definition ensure_output_parent_directory :: "'o os_scheme \<Rightarrow> path \<Rightarrow> fs \<Rightarrow> unit res \<times> fs" where
  "ensure_output_parent_directory os parent s =
     (case path_exists os parent s of
        (True, s) \<Rightarrow> (Inr (), s)
      | (False, s) \<Rightarrow> context_st ''failed to create secret output directory''
                        (create_dir_all os parent s))"

text \<open>
  The loop that collects the missing ancestors pushes one path per round: when no ancestor exists
  it ends only where the memory does, so the fuel is what a \<open>Vec\<close> may take and its end is the
  abort of the allocator.
\<close>

(* SRC store 2273-2281 ensure_secret_parent_directory *)
primrec collect_missing ::
    "nat \<Rightarrow> 'o os_scheme \<Rightarrow> path \<Rightarrow> path list \<Rightarrow> fs \<Rightarrow> path list res \<times> fs" where
  "collect_missing 0 os current missing s = (Inl [Panic ''memory allocation failed''], s)"
| "collect_missing (Suc n) os current missing s =
     (case path_exists os current s of
        (True, s) \<Rightarrow> (Inr missing, s)
      | (False, s) \<Rightarrow> collect_missing n os (writable_parent current) (missing @ [current]) s)"

(* SRC store 2284-2290 ensure_secret_parent_directory *)
definition create_missing_dir :: "'o os_scheme \<Rightarrow> path \<Rightarrow> fs \<Rightarrow> unit res \<times> fs" where
  "create_missing_dir os dir s =
     (case create_dir os dir s of
          (Inr _, s) \<Rightarrow> context_st ''failed to secure secret directory'' (secure_created_directory os dir s)
        | (Inl e, s) \<Rightarrow>
            if e = [Io AlreadyExists] then validate_directory_mode os dir s
            else (Inl (Msg ''failed to create secret directory'' # e), s))"

(* SRC store 2283-2291 ensure_secret_parent_directory *)
primrec create_missing :: "'o os_scheme \<Rightarrow> path list \<Rightarrow> fs \<Rightarrow> unit res \<times> fs" where
  "create_missing os [] s = (Inr (), s)"
| "create_missing os (dir # dirs) s =
     then_st (create_missing_dir os dir s) (\<lambda>_ s. create_missing os dirs s)"

(* SRC store ensure_secret_parent_directory *)
definition ensure_secret_parent_directory :: "'o os_scheme \<Rightarrow> path \<Rightarrow> fs \<Rightarrow> unit res \<times> fs" where
  "ensure_secret_parent_directory os parent s =
     (case path_exists os parent s of
        (True, s) \<Rightarrow> validate_directory_mode os parent s
      | (False, s) \<Rightarrow>
          then_st (collect_missing (vec_limit os) os parent [] s) (\<lambda>missing s.
          then_st (create_missing os (rev missing) s) (\<lambda>_ s.
          validate_directory_mode os parent s)))"

section \<open>Temporary files\<close>

text \<open>A \<open>NamedTempFile\<close> that goes out of scope is removed.\<close>

definition dropping :: "'o os_scheme \<Rightarrow> path \<Rightarrow> 'a res \<times> fs \<Rightarrow> 'a res \<times> fs" where
  "dropping os tmp rs = (case rs of (Inl e, s) \<Rightarrow> (Inl e, remove_temp os tmp s) | (Inr x, s) \<Rightarrow> (Inr x, s))"

(* SRC store write_synced_temp_secret_file *)
definition write_synced_temp_secret_file ::
    "'o os_scheme \<Rightarrow> path \<Rightarrow> string \<Rightarrow> string \<Rightarrow> bytes \<Rightarrow> created_file_owner \<Rightarrow> fs \<Rightarrow> path res \<times> fs" where
  "write_synced_temp_secret_file os parent prefix suffix bs owner s =
     then_st (context_st ''failed to create temporary secret file''
               (tempfile_in os parent prefix suffix s)) (\<lambda>tmp s.
     dropping os tmp
       (then_st (context_st ''failed to secure temporary secret file''
                  (secure_created_file os tmp owner s)) (\<lambda>_ s.
        then_st (context_st ''failed to write temporary secret file'' (write_all os tmp bs s)) (\<lambda>_ s.
        then_st (context_st ''failed to sync temporary secret file'' (sync_all os s)) (\<lambda>_ s.
        (Inr tmp, s))))))"

text \<open>
  The two ways a secret's temporary file is put under its name; the handle inside the error of a
  failed \<open>persist\<close> goes out of scope with \<open>map_err(|err| err.error)\<close>.
\<close>

definition install :: "'o os_scheme \<Rightarrow> bool \<Rightarrow> path \<Rightarrow> path \<Rightarrow> fs \<Rightarrow> unit res \<times> fs" where
  "install os force tmp p s =
     dropping os tmp (if force then persist os tmp p s else persist_noclobber os tmp p s)"

(* SRC store atomic_write_secret_file *)
definition atomic_write_secret_file :: "'o os_scheme \<Rightarrow> path \<Rightarrow> bytes \<Rightarrow> fs \<Rightarrow> unit res \<times> fs" where
  "atomic_write_secret_file os p bs s =
     (let parent = writable_parent p
      in then_st (ensure_output_parent_directory os parent s) (\<lambda>_ s.
         then_st (write_synced_temp_secret_file os parent ''.avault.'' ''.tmp'' bs Keep s) (\<lambda>tmp s.
         then_st (context_st ''failed to install secret file'' (install os True tmp p s)) (\<lambda>_ s.
         then_st (validate_file_mode os p s) (\<lambda>_ s.
         sync_parent_dir os p s)))))"

section \<open>What the code relies on of \<open>tempfile\<close>\<close>

text \<open>
  \<open>tempfile_in\<close> creates an empty file under a name that did not exist, between the prefix and the
  suffix, in the directory; \<open>persist\<close> puts it under the target, replacing what was there;
  \<open>persist_noclobber\<close> fails with \<open>AlreadyExists\<close> when the target exists; a failure moves
  nothing, and removing a temporary file touches that file only.
\<close>

definition tempfile_laws :: "'o os_scheme \<Rightarrow> bool" where
  "tempfile_laws os \<longleftrightarrow>
     (\<forall>d a z s t s'. tempfile_in os d a z s = (Inr t, s') \<longrightarrow>
        nodes s t = None \<and> nodes s' = (nodes s)(t \<mapsto> Reg 384 []) \<and>
        (\<exists>r. t = path_join d (as_bytes a @ r @ as_bytes z))) \<and>
     (\<forall>d a z s e s'. tempfile_in os d a z s = (Inl e, s') \<longrightarrow> nodes s' = nodes s) \<and>
     (\<forall>t p s s'. persist os t p s = (Inr (), s') \<longrightarrow>
        nodes s' p = nodes s t \<and> (\<forall>q. q \<noteq> t \<and> q \<noteq> p \<longrightarrow> nodes s' q = nodes s q)) \<and>
     (\<forall>t p s e s'. persist os t p s = (Inl e, s') \<longrightarrow> nodes s' = nodes s) \<and>
     (\<forall>t p s s'. persist_noclobber os t p s = (Inr (), s') \<longrightarrow>
        nodes s p = None \<and> nodes s' p = nodes s t \<and>
        (\<forall>q. q \<noteq> t \<and> q \<noteq> p \<longrightarrow> nodes s' q = nodes s q)) \<and>
     (\<forall>t p s e s'. persist_noclobber os t p s = (Inl e, s') \<longrightarrow> nodes s' = nodes s) \<and>
     (\<forall>t p s. nodes s p \<noteq> None \<longrightarrow> fst (persist_noclobber os t p s) = Inl [Io AlreadyExists]) \<and>
     (\<forall>t s q. q \<noteq> t \<longrightarrow> nodes (remove_temp os t s) q = nodes s q)"

text \<open>A target that is never the name of a temporary file: all of them end in \<open>.tmp\<close>.\<close>

definition not_temp :: "path \<Rightarrow> bool" where
  "not_temp p \<longleftrightarrow> drop (length p - 4) p \<noteq> as_bytes ''.tmp''"

lemma path_join_not_temp:
  assumes "not_temp p" shows "path_join d (as_bytes a @ r @ as_bytes ''.tmp'') \<noteq> p"
proof
  assume "path_join d (as_bytes a @ r @ as_bytes ''.tmp'') = p"
  then obtain x where "p = x @ as_bytes ''.tmp''" by (auto simp: path_join_def split: if_splits)
  then show False using assms by (simp add: not_temp_def)
qed

locale lawful_os =
  fixes os :: "'o os_scheme"
  assumes laws: "tempfile_laws os"
begin

lemma tempfile_in_Inr:
  "tempfile_in os d a z s = (Inr t, s') \<Longrightarrow>
     nodes s t = None \<and> nodes s' = (nodes s)(t \<mapsto> Reg 384 []) \<and>
     (\<exists>r. t = path_join d (as_bytes a @ r @ as_bytes z))"
  using laws unfolding tempfile_laws_def by (elim conjE) metis

lemma tempfile_in_Inl: "tempfile_in os d a z s = (Inl e, s') \<Longrightarrow> nodes s' = nodes s"
  using laws unfolding tempfile_laws_def by (elim conjE) metis

lemma persist_Inr:
  "persist os t p s = (Inr (), s') \<Longrightarrow>
     nodes s' p = nodes s t \<and> (\<forall>q. q \<noteq> t \<and> q \<noteq> p \<longrightarrow> nodes s' q = nodes s q)"
  using laws unfolding tempfile_laws_def by (elim conjE) metis

lemma persist_Inl: "persist os t p s = (Inl e, s') \<Longrightarrow> nodes s' = nodes s"
  using laws unfolding tempfile_laws_def by (elim conjE) metis

lemma persist_noclobber_Inr:
  "persist_noclobber os t p s = (Inr (), s') \<Longrightarrow>
     nodes s p = None \<and> nodes s' p = nodes s t \<and> (\<forall>q. q \<noteq> t \<and> q \<noteq> p \<longrightarrow> nodes s' q = nodes s q)"
  using laws unfolding tempfile_laws_def by (elim conjE) metis

lemma persist_noclobber_Inl: "persist_noclobber os t p s = (Inl e, s') \<Longrightarrow> nodes s' = nodes s"
  using laws unfolding tempfile_laws_def by (elim conjE) metis

lemma persist_noclobber_exists:
  "nodes s p \<noteq> None \<Longrightarrow> fst (persist_noclobber os t p s) = Inl [Io AlreadyExists]"
  using laws unfolding tempfile_laws_def by (elim conjE) metis

lemma remove_temp_other: "q \<noteq> t \<Longrightarrow> nodes (remove_temp os t s) q = nodes s q"
  using laws unfolding tempfile_laws_def by (elim conjE) metis

end

section \<open>Calls and the nodes they touch\<close>

named_theorems frame_simps \<open>calls that leave the nodes alone\<close>

lemma nodes_calls [simp]: "nodes (s\<lparr>calls := n\<rparr>) = nodes s"
  by simp

lemma syscall_Inr:
  "syscall os act s = (Inr x, s') \<Longrightarrow> act (s\<lparr>calls := Suc (calls s)\<rparr>) = (Inr x, s')"
  by (auto simp: syscall_def Let_def split: option.splits)

lemma snd_syscall_same:
  "(\<And>s. nodes (snd (act s)) = nodes s) \<Longrightarrow> nodes (snd (syscall os act s)) = nodes s"
  by (auto simp: syscall_def Let_def split: option.splits)

lemma nodes_metadata_mode [frame_simps]: "nodes (snd (metadata_mode os p s)) = nodes s"
  by (simp add: metadata_mode_def snd_syscall_same)

lemma nodes_file_open [frame_simps]: "nodes (snd (file_open os p s)) = nodes s"
  by (simp add: file_open_def snd_syscall_same)

lemma nodes_read_at [frame_simps]: "nodes (snd (read_at os f i n s)) = nodes s"
  by (simp add: read_at_def snd_syscall_same)

lemma nodes_sync_all [frame_simps]: "nodes (snd (sync_all os s)) = nodes s"
  by (simp add: sync_all_def snd_syscall_same)

lemma nodes_then_st:
  "\<lbrakk>nodes (snd m) = N; \<And>x s. \<lbrakk>m = (Inr x, s); nodes s = N\<rbrakk> \<Longrightarrow> nodes (snd (f x s)) = N\<rbrakk>
   \<Longrightarrow> nodes (snd (then_st m f)) = N"
  by (cases m; cases "fst m") auto

lemma nodes_read_exact [frame_simps]: "nodes (snd (read_exact os f n s)) = nodes s"
  unfolding read_exact_def by (rule nodes_then_st) (auto simp: frame_simps)

lemma nodes_fs_read [frame_simps]: "nodes (snd (fs_read os p s)) = nodes s"
  unfolding fs_read_def by (rule nodes_then_st) (auto simp: frame_simps split: node.splits)

lemma nodes_validate_file_mode [frame_simps]: "nodes (snd (validate_file_mode os p s)) = nodes s"
  unfolding validate_file_mode_def by (rule nodes_then_st) (auto simp: frame_simps Let_def)

lemma nodes_validate_directory_mode [frame_simps]:
  "nodes (snd (validate_directory_mode os p s)) = nodes s"
  unfolding validate_directory_mode_def by (rule nodes_then_st) (auto simp: frame_simps Let_def)

lemma nodes_validate_parent [frame_simps]:
  "nodes (snd (validate_parent_directory_mode os p s)) = nodes s"
  by (simp add: validate_parent_directory_mode_def frame_simps)

lemma nodes_sync_parent_dir [frame_simps]: "nodes (snd (sync_parent_dir os p s)) = nodes s"
  unfolding sync_parent_dir_def sync_directory_def
  by (rule nodes_then_st) (auto simp: frame_simps)

lemma nodes_path_exists [frame_simps]: "nodes (snd (path_exists os p s)) = nodes s"
  by (simp add: path_exists_def)

section \<open>Creating the directory of a secret\<close>

lemma create_dir_cases:
  assumes "create_dir os p s = (r, s')"
  shows "(r = Inr () \<and> nodes s p = None \<and> nodes s' = (nodes s)(p \<mapsto> Dir (511 AND NOT (umask os)))) \<or>
         (\<exists>e. r = Inl e \<and> nodes s' = nodes s)"
  using assms
  by (auto simp: create_dir_def syscall_def Let_def split: option.splits node.splits)

lemma set_permissions_cases:
  assumes "set_permissions os p m s = (r, s')"
  shows "(\<exists>n. r = Inr () \<and> nodes s p = Some n \<and> nodes s' = (nodes s)(p \<mapsto> set_mode m n)) \<or>
         (\<exists>e. r = Inl e \<and> nodes s' = nodes s)"
  using assms by (auto simp: set_permissions_def syscall_def Let_def split: option.splits)

lemma secure_created_directory_cases:
  assumes "secure_created_directory os p s = (r, s')"
  shows "(\<exists>n. r = Inr () \<and> nodes s p = Some n \<and> nodes s' = (nodes s)(p \<mapsto> set_mode 448 n)) \<or>
         (\<exists>e. r = Inl e \<and> nodes s' = nodes s)"
proof -
  obtain r1 s1 where 1: "set_permissions os p 448 s = (r1, s1)" by (cases "set_permissions os p 448 s")
  show ?thesis
    using set_permissions_cases [OF 1] assms
    by (auto simp: secure_created_directory_def 1 context_st_def)
qed

text \<open>What creating the missing directories may change, whether it succeeds or not.\<close>

definition private_growth :: "path set \<Rightarrow> fs \<Rightarrow> fs \<Rightarrow> bool \<Rightarrow> bool" where
  "private_growth ds s s' ok \<longleftrightarrow>
     (\<forall>q n. nodes s q = Some n \<longrightarrow> nodes s' q = Some n) \<and>
     (\<forall>q. q \<notin> ds \<longrightarrow> nodes s' q = nodes s q) \<and>
     (ok \<longrightarrow> (\<forall>q. nodes s q = None \<longrightarrow> nodes s' q = None \<or> nodes s' q = Some (Dir 448)))"

lemma private_growth_same: "nodes s' = nodes s \<Longrightarrow> private_growth ds s s' ok"
  by (simp add: private_growth_def)

lemma private_growth_keeps:
  "\<lbrakk>private_growth ds s s' ok; nodes s q = Some n\<rbrakk> \<Longrightarrow> nodes s' q = Some n"
  and private_growth_outside: "\<lbrakk>private_growth ds s s' ok; q \<notin> ds\<rbrakk> \<Longrightarrow> nodes s' q = nodes s q"
  and private_growth_new:
  "\<lbrakk>private_growth ds s s' True; nodes s q = None\<rbrakk> \<Longrightarrow> nodes s' q = None \<or> nodes s' q = Some (Dir 448)"
  by (simp_all add: private_growth_def)

lemma private_growth_trans:
  assumes 1: "private_growth ds s s1 True" and 2: "private_growth ds s1 s2 ok"
  shows "private_growth ds s s2 ok"
  unfolding private_growth_def
proof (intro conjI allI impI)
  fix q n assume "nodes s q = Some n"
  then show "nodes s2 q = Some n"
    by (rule private_growth_keeps [OF 2 private_growth_keeps [OF 1]])
next
  fix q assume "q \<notin> ds"
  then show "nodes s2 q = nodes s q"
    by (simp add: private_growth_outside [OF 1] private_growth_outside [OF 2])
next
  fix q assume ok and q: "nodes s q = None"
  with 2 have 2: "private_growth ds s1 s2 True" by simp
  from private_growth_new [OF 1 q] show "nodes s2 q = None \<or> nodes s2 q = Some (Dir 448)"
    using private_growth_new [OF 2, of q] private_growth_keeps [OF 2, of q] by auto
qed

lemma private_growth_weaken: "private_growth ds s s' True \<Longrightarrow> private_growth ds s s' ok"
  by (simp add: private_growth_def)

lemma create_one_growth:
  assumes "create_missing_dir os dir s = (r, s')"
    and dir: "dir \<in> ds"
  shows "private_growth ds s s' (is_ok r)"
proof -
  obtain r1 s1 where 1: "create_dir os dir s = (r1, s1)" by (cases "create_dir os dir s")
  consider (made) "r1 = Inr ()" "nodes s dir = None"
      "nodes s1 = (nodes s)(dir \<mapsto> Dir (511 AND NOT (umask os)))"
    | (failed) e where "r1 = Inl e" "nodes s1 = nodes s"
    using create_dir_cases [OF 1] by auto
  then show ?thesis
  proof cases
    case made
    obtain r2 s2 where 2: "secure_created_directory os dir s1 = (r2, s2)"
      by (cases "secure_created_directory os dir s1")
    have r: "r = with_context ''failed to secure secret directory'' r2" "s' = s2"
      using assms(1) by (simp_all add: create_missing_dir_def 1 made(1) 2 context_st_def)
    have "(r2 = Inr () \<and> nodes s2 = (nodes s)(dir \<mapsto> Dir 448)) \<or>
          (\<exists>e. r2 = Inl e \<and> nodes s2 = nodes s1)"
      using secure_created_directory_cases [OF 2] made(3) by auto
    then show ?thesis
      using made dir r by (auto simp: private_growth_def)
  next
    case failed
    have "nodes s' = nodes s1"
      using assms(1) nodes_validate_directory_mode [of os dir s1]
      by (auto simp: create_missing_dir_def 1 failed(1) split: if_splits)
    then show ?thesis using failed by (simp add: private_growth_same)
  qed
qed

lemma create_missing_growth:
  "\<lbrakk>create_missing os dirs s = (r, s'); set dirs \<subseteq> ds\<rbrakk> \<Longrightarrow> private_growth ds s s' (is_ok r)"
proof (induction dirs arbitrary: s r s')
  case Nil
  then show ?case by (simp add: private_growth_same)
next
  case (Cons dir dirs)
  obtain r1 s1 where 1: "create_missing_dir os dir s = (r1, s1)"
    by (cases "create_missing_dir os dir s")
  have g: "private_growth ds s s1 (is_ok r1)"
    by (rule create_one_growth [OF 1]) (use Cons.prems in simp)
  show ?case
  proof (cases r1)
    case (Inl e)
    then show ?thesis using Cons.prems g by (simp add: 1)
  next
    case (Inr u)
    then have "create_missing os dirs s1 = (r, s')" using Cons.prems by (simp add: 1)
    then have "private_growth ds s1 s' (is_ok r)" using Cons by simp
    with g Inr show ?thesis by (auto intro: private_growth_trans)
  qed
qed

lemma writable_parent_shorter: "writable_parent p = [46] \<or> length (writable_parent p) < length p"
  by (auto simp: writable_parent_def split: option.split dest: path_parent_shorter)

lemma writable_parent_dot: "writable_parent [46] = [46]"
  by (simp add: writable_parent_def path_parent_def)

lemma collect_missing_ancestors:
  "\<lbrakk>collect_missing n os current missing s = (Inr ms, s')\<rbrakk>
   \<Longrightarrow> nodes s' = nodes s \<and> (\<forall>d\<in>set ms. d \<in> set missing \<or> d = [46] \<or> current \<noteq> [46] \<and> length d \<le> length current)"
proof (induction n arbitrary: current missing s)
  case 0
  then show ?case by simp
next
  case (Suc n)
  show ?case
  proof (cases "path_exists os current s")
    case (Pair ex s1)
    have s1: "nodes s1 = nodes s" using Pair nodes_path_exists [of os current s] by simp
    show ?thesis
    proof (cases ex)
      case True
      then show ?thesis using Suc.prems Pair s1 by simp
    next
      case False
      have "collect_missing n os (writable_parent current) (missing @ [current]) s1 = (Inr ms, s')"
        using Suc.prems Pair False by simp
      note IH = Suc.IH [OF this]
      have "d \<in> set missing \<or> d = [46] \<or> current \<noteq> [46] \<and> length d \<le> length current"
        if "d \<in> set ms" for d
      proof -
        from IH that have "d \<in> set (missing @ [current]) \<or> d = [46] \<or>
            writable_parent current \<noteq> [46] \<and> length d \<le> length (writable_parent current)"
          by blast
        then show ?thesis
          using writable_parent_shorter [of current] writable_parent_dot by auto
      qed
      with IH s1 show ?thesis by simp
    qed
  qed
qed

lemma collect_missing_Inl_nodes:
  "collect_missing n os current missing s = (Inl e, s') \<Longrightarrow> nodes s' = nodes s"
proof (induction n arbitrary: current missing s)
  case (Suc n)
  then show ?case
    using nodes_path_exists [of os current s]
    by (cases "path_exists os current s") (auto split: bool.splits)
qed simp

definition ancestors :: "path \<Rightarrow> path set" where
  "ancestors p = {d. d = [46] \<or> p \<noteq> [46] \<and> length d \<le> length p}"

lemma not_ancestor_of_parent: "p \<noteq> [46] \<Longrightarrow> p \<notin> ancestors (writable_parent p)"
  using writable_parent_shorter [of p] by (auto simp: ancestors_def)

lemma ancestors_of_parent:
  "path_parent p = Some q \<Longrightarrow> p \<noteq> [46] \<Longrightarrow> ancestors q \<subseteq> ancestors p"
  by (auto simp: ancestors_def dest: path_parent_shorter)

lemma ensure_secret_parent_growth:
  assumes "ensure_secret_parent_directory os parent s = (r, s')"
  shows "private_growth (ancestors parent) s s' (is_ok r)"
proof (cases "path_exists os parent s")
  case (Pair ex s1)
  have s1: "nodes s1 = nodes s" using Pair nodes_path_exists [of os parent s] by simp
  show ?thesis
  proof (cases ex)
    case True
    then have "nodes s' = nodes s1"
      using assms Pair nodes_validate_directory_mode [of os parent s1]
      by (simp add: ensure_secret_parent_directory_def)
    with s1 show ?thesis by (simp add: private_growth_same)
  next
    case False
    obtain r2 s2 where 2: "collect_missing (vec_limit os) os parent [] s1 = (r2, s2)"
      by (cases "collect_missing (vec_limit os) os parent [] s1")
    show ?thesis
    proof (cases r2)
      case (Inl e)
      then have "nodes s' = nodes s1"
        using assms Pair False 2 collect_missing_Inl_nodes
        by (auto simp: ensure_secret_parent_directory_def)
      with s1 show ?thesis by (simp add: private_growth_same)
    next
      case (Inr ms)
      note anc = collect_missing_ancestors [OF 2 [unfolded Inr]]
      obtain r3 s3 where 3: "create_missing os (rev ms) s2 = (r3, s3)"
        by (cases "create_missing os (rev ms) s2")
      have g: "private_growth (ancestors parent) s2 s3 (is_ok r3)"
        by (rule create_missing_growth [OF 3]) (use anc in \<open>auto simp: ancestors_def\<close>)
      have n: "nodes s2 = nodes s" using anc s1 by simp
      show ?thesis
      proof (cases r3)
        case (Inl e)
        then show ?thesis
          using assms Pair False 2 Inr 3 g n
          by (auto simp: ensure_secret_parent_directory_def private_growth_def)
      next
        case (Inr u)
        then have "nodes s' = nodes s3"
          using assms Pair False 2 \<open>r2 = Inr ms\<close> 3 nodes_validate_directory_mode [of os parent s3]
          by (simp add: ensure_secret_parent_directory_def)
        then show ?thesis
          using g n Inr by (auto simp: private_growth_def)
      qed
    qed
  qed
qed

lemma mode_private: "((m :: u32) AND 511) AND 63 = m AND 63"
  by (simp add: and.assoc)

lemma validate_directory_mode_Inr:
  assumes "validate_directory_mode os p s = (Inr (), s')"
  shows "\<exists>n. nodes s p = Some n \<and> node_mode n AND 63 = 0"
  using assms
  by (auto simp: validate_directory_mode_def metadata_mode_def syscall_def Let_def res_simps mode_private
      split: option.splits if_splits)

lemma validate_file_mode_Inr:
  assumes "validate_file_mode os p s = (Inr (), s')"
  shows "\<exists>n. nodes s p = Some n \<and> node_mode n AND 63 = 0"
  using assms
  by (auto simp: validate_file_mode_def metadata_mode_def syscall_def Let_def res_simps mode_private
      split: option.splits if_splits)

lemma ensure_secret_parent_validated:
  assumes "ensure_secret_parent_directory os parent s = (Inr (), s')"
  shows "\<exists>n. nodes s' parent = Some n \<and> node_mode n AND 63 = 0"
proof -
  obtain s1 where 1: "validate_directory_mode os parent s1 = (Inr (), s')"
    using assms
    by (cases "path_exists os parent s")
       (auto simp: ensure_secret_parent_directory_def res_simps split: bool.splits)
  have "nodes s' = nodes s1" using 1 nodes_validate_directory_mode [of os parent s1] by simp
  with validate_directory_mode_Inr [OF 1] show ?thesis by simp
qed

text \<open>
  Directories for secrets: whatever calls fail on the way,
  \<open>ensure_secret_parent_directory\<close> changes no file or directory that exists, touches only
  the directory asked for and its ancestors, and when it succeeds every directory it made has
  mode 0700 and the one asked for gives no access to group or others.
\<close>

theorem secret_directory_private:
  "let (r, s') = ensure_secret_parent_directory os parent s
   in private_growth (ancestors parent) s s' (is_ok r) \<and>
      (case r of Inl _ \<Rightarrow> True
       | Inr _ \<Rightarrow> (\<exists>n. nodes s' parent = Some n \<and> node_mode n AND 63 = 0))"
proof (cases "ensure_secret_parent_directory os parent s")
  case (Pair r s')
  then show ?thesis
    using ensure_secret_parent_growth [OF Pair] ensure_secret_parent_validated [of os parent s s']
    by (cases r) simp_all
qed

lemma collect_missing_step:
  "nodes s current = None \<Longrightarrow> collect_missing (Suc n) os current missing s =
     collect_missing n os (writable_parent current) (missing @ [current]) (s\<lparr>calls := Suc (calls s)\<rparr>)"
  by (simp add: path_exists_def)

lemma collect_missing_enough:
  "\<lbrakk>fault os = (\<lambda>_. None); nodes s [46] \<noteq> None; length current < n\<rbrakk>
   \<Longrightarrow> \<exists>ms s'. collect_missing (Suc n) os current missing s = (Inr ms, s')"
proof (induction n arbitrary: current missing s)
  case 0
  then show ?case by simp
next
  case (Suc n)
  show ?case
  proof (cases "nodes s current = None")
    case False
    then show ?thesis using Suc.prems by (simp add: path_exists_def)
  next
    case True
    define s1 where "s1 = s\<lparr>calls := Suc (calls s)\<rparr>"
    have step: "collect_missing (Suc (Suc n)) os current missing s =
        collect_missing (Suc n) os (writable_parent current) (missing @ [current]) s1"
      unfolding s1_def by (rule collect_missing_step [OF True])
    have s1: "nodes s1 [46] \<noteq> None" using Suc.prems by (simp add: s1_def)
    show ?thesis
    proof (cases "writable_parent current = [46]")
      case True
      then show ?thesis
        unfolding step using s1 Suc.prems by (simp add: path_exists_def)
    next
      case False
      then have "length (writable_parent current) < n"
        using writable_parent_shorter [of current] Suc.prems by linarith
      then show ?thesis unfolding step using Suc.IH s1 Suc.prems(1) by blast
    qed
  qed
qed

text \<open>
  The loop over the missing ancestors ends: where calls do not fail and the working directory
  exists, one round more than the path has bytes (and one to spare) is enough, so it never runs
  into the memory bound of its vector.
\<close>

theorem missing_ancestors_terminates:
  assumes "fault os = (\<lambda>_. None)" "nodes s [46] \<noteq> None" "length parent + 2 \<le> vec_limit os"
  shows "\<exists>ms s'. collect_missing (vec_limit os) os parent [] s = (Inr ms, s')"
proof -
  define n where "n = vec_limit os - 1"
  have "length parent < n" "vec_limit os = Suc n" using assms(3) by (simp_all add: n_def)
  then show ?thesis using collect_missing_enough [OF assms(1,2)] by metis
qed

section \<open>Writing a secret under its name\<close>

lemma create_dir_all_growth:
  "create_dir_all os p s = (r, s') \<Longrightarrow>
     (\<forall>q n. nodes s q = Some n \<longrightarrow> nodes s' q = Some n) \<and>
     (\<forall>q. q \<notin> ancestors p \<longrightarrow> nodes s' q = nodes s q)"
proof (induction os p s arbitrary: r s' rule: create_dir_all.induct)
  case (1 os p s)
  have p: "p \<in> ancestors p" by (simp add: ancestors_def)
  have made: "(\<forall>q n. nodes s0 q = Some n \<longrightarrow> nodes s1 q = Some n) \<and>
      (\<forall>q. q \<notin> ancestors p \<longrightarrow> nodes s1 q = nodes s0 q)"
    if "create_dir os p s0 = (r1, s1)" for s0 r1 s1
    using create_dir_cases [OF that] p by auto
  have tail: "nodes (snd (or_is_dir os p e s0)) = nodes s0" for e s0
    by (simp add: or_is_dir_def is_dir_def)
  show ?case
  proof (cases "p = []")
    case True
    then show ?thesis using 1(2) by (simp add: create_dir_all.simps)
  next
    case False
    obtain r1 s1 where c1: "create_dir os p s = (r1, s1)" by (cases "create_dir os p s")
    note m1 = made [OF c1]
    consider (ok) "r1 = Inr ()" | (err) e where "r1 = Inl e" "e \<noteq> [Io NotFound]"
      | (missing) "r1 = Inl [Io NotFound]"
      by (cases r1) auto
    then show ?thesis
    proof cases
      case ok
      then show ?thesis using 1(2) False c1 m1 by (simp add: create_dir_all.simps)
    next
      case err
      then have "nodes s' = nodes s1"
        using 1(2) False c1 tail [of e s1] by (simp add: create_dir_all.simps)
      with m1 show ?thesis by simp
    next
      case missing
      show ?thesis
      proof (cases "path_parent p")
        case None
        then show ?thesis using 1(2) False c1 missing m1 by (simp add: create_dir_all.simps)
      next
        case (Some q)
        obtain r2 s2 where c2: "create_dir_all os q s1 = (r2, s2)" by (cases "create_dir_all os q s1")
        have IH: "(\<forall>x n. nodes s1 x = Some n \<longrightarrow> nodes s2 x = Some n) \<and>
            (\<forall>x. x \<notin> ancestors q \<longrightarrow> nodes s2 x = nodes s1 x)"
          using "1.IH" [OF False c1 [symmetric] missing _ Some c2] by simp
        have sub: "x \<notin> ancestors p \<Longrightarrow> nodes s2 x = nodes s1 x" for x
        proof (cases "p = [46]")
          case True
          with Some have "q = []" by (simp add: path_parent_def)
          with c2 show ?thesis by (simp add: create_dir_all.simps)
        next
          case False
          then show "x \<notin> ancestors p \<Longrightarrow> nodes s2 x = nodes s1 x"
            using IH ancestors_of_parent [OF Some] by blast
        qed
        have s2: "(\<forall>x n. nodes s x = Some n \<longrightarrow> nodes s2 x = Some n) \<and>
            (\<forall>x. x \<notin> ancestors p \<longrightarrow> nodes s2 x = nodes s x)"
          using IH sub m1 by simp
        show ?thesis
        proof (cases r2)
          case (Inl e)
          then show ?thesis
            using 1(2) False c1 missing Some c2 s2 by (simp add: create_dir_all.simps)
        next
          case (Inr u)
          obtain r3 s3 where c3: "create_dir os p s2 = (r3, s3)" by (cases "create_dir os p s2")
          have "(r, s') = (case r3 of Inr _ \<Rightarrow> (Inr (), s3) | Inl e \<Rightarrow> or_is_dir os p e s3)"
            using 1(2) False c1 missing Some c2 Inr c3 by (simp add: create_dir_all.simps)
          then have "nodes s' = nodes s3"
            using tail [of _ s3] by (cases r3) (simp_all add: prod_eq_iff)
          then show ?thesis using made [OF c3] s2 by simp
        qed
      qed
    qed
  qed
qed

lemma nodes_write_all_other: "q \<noteq> p \<Longrightarrow> nodes (snd (write_all os p bs s)) q = nodes s q"
  by (auto simp: write_all_def Let_def split: option.splits node.splits)

lemma write_all_Inr:
  assumes "write_all os p bs s = (Inr (), s')" "nodes s p = Some (Reg m old)"
  shows "nodes s' = (nodes s)(p \<mapsto> Reg m (old @ bs))"
  using assms by (auto simp: write_all_def Let_def split: option.splits)

lemma secure_created_file_cases:
  assumes "secure_created_file os p owner s = (r, s')"
  shows "(\<exists>n. r = Inr () \<and> nodes s p = Some n \<and> nodes s' = (nodes s)(p \<mapsto> set_mode 384 n)) \<or>
         (\<exists>e. r = Inl e \<and> nodes s' = nodes s)"
proof -
  obtain r1 s1 where 1: "set_permissions os p 384 s = (r1, s1)" by (cases "set_permissions os p 384 s")
  show ?thesis
    using set_permissions_cases [OF 1] assms by (auto simp: secure_created_file_def 1 context_st_def)
qed

text \<open>What a write of the content \<open>bs\<close> to \<open>p\<close> may leave there.\<close>

definition installs :: "path \<Rightarrow> bytes \<Rightarrow> fs \<Rightarrow> unit res \<Rightarrow> fs \<Rightarrow> bool" where
  "installs p bs s r s' \<longleftrightarrow>
     (nodes s' p = nodes s p \<or> nodes s' p = Some (Reg 384 bs)) \<and>
     (r = Inr () \<longrightarrow> nodes s' p = Some (Reg 384 bs)) \<and>
     (\<forall>q n. q \<noteq> p \<longrightarrow> not_temp q \<longrightarrow> nodes s q = Some n \<longrightarrow> nodes s' q = Some n)"

context lawful_os
begin

lemma write_synced_cases:
  assumes "write_synced_temp_secret_file os d a ''.tmp'' bs owner s = (r, s')"
  shows "(\<exists>t. r = Inr t \<and> nodes s' t = Some (Reg 384 bs) \<and> (\<forall>q. q \<noteq> t \<longrightarrow> nodes s' q = nodes s q) \<and>
              (\<forall>q. not_temp q \<longrightarrow> q \<noteq> t)) \<or>
         (\<exists>e. r = Inl e \<and> (\<forall>q. not_temp q \<longrightarrow> nodes s' q = nodes s q))"
proof (cases "tempfile_in os d a ''.tmp'' s")
  case (Pair r1 s1)
  show ?thesis
  proof (cases r1)
    case (Inl e)
    then show ?thesis
      using assms Pair tempfile_in_Inl [of d a _ s e s1]
      by (auto simp: write_synced_temp_secret_file_def)
  next
    case (Inr t)
    note t = tempfile_in_Inr [OF Pair [unfolded Inr]]
    then have nt: "\<forall>q. not_temp q \<longrightarrow> q \<noteq> t" using path_join_not_temp by metis
    have t1: "nodes s1 = (nodes s)(t \<mapsto> Reg 384 [])" using t by simp
    define body where "body = then_st (context_st ''failed to secure temporary secret file''
                  (secure_created_file os t owner s1)) (\<lambda>_ s.
        then_st (context_st ''failed to write temporary secret file'' (write_all os t bs s)) (\<lambda>_ s.
        then_st (context_st ''failed to sync temporary secret file'' (sync_all os s)) (\<lambda>_ s.
        (Inr t, s))))"
    have eq: "(r, s') = dropping os t body"
      using assms Pair Inr by (simp add: write_synced_temp_secret_file_def body_def)
    obtain r2 s2 where 2: "secure_created_file os t owner s1 = (r2, s2)"
      by (cases "secure_created_file os t owner s1")
    have s2: "nodes s2 = nodes s1"
      using secure_created_file_cases [OF 2] t1 by auto
    obtain r3 s3 where 3: "write_all os t bs s2 = (r3, s3)" by (cases "write_all os t bs s2")
    have s3: "nodes s3 q = nodes s q" if "q \<noteq> t" for q
      using nodes_write_all_other [OF that, of os bs s2] that by (simp add: 3 s2 t1)
    obtain r4 s4 where 4: "sync_all os s3 = (r4, s4)" by (cases "sync_all os s3")
    have s4: "nodes s4 = nodes s3" using nodes_sync_all [of os s3] by (simp add: 4)
    obtain rb sb where b: "body = (rb, sb)" by (cases body)
    have other: "nodes sb q = nodes s q" if "q \<noteq> t" for q
      using b s2 s3 [OF that] s4 that t1
      by (cases r2; cases r3; cases r4) (auto simp: body_def 2 3 4)
    show ?thesis
    proof (cases rb)
      case (Inl e)
      then have "r = Inl e" "s' = remove_temp os t sb" using eq by (simp_all add: b dropping_def)
      then show ?thesis using other remove_temp_other nt by auto
    next
      case (Inr t')
      have r: "r = Inr t'" "s' = sb" using eq Inr by (simp_all add: b dropping_def)
      have ok: "r2 = Inr ()" "r3 = Inr ()" "t' = t" "sb = s4"
        using b Inr by (cases r2; cases r3; cases r4; auto simp: body_def 2 3 4)+
      have "nodes s3 = (nodes s2)(t \<mapsto> Reg 384 ([] @ bs))"
        by (rule write_all_Inr [OF 3 [unfolded ok(2)]]) (simp add: s2 t1)
      then show ?thesis using r ok s4 other nt by auto
    qed
  qed
qed

lemma install_cases:
  assumes "install os force t p s = (r, s')" "p \<noteq> t"
  shows "(r = Inr () \<and> (force \<or> nodes s p = None) \<and> nodes s' p = nodes s t \<and>
            (\<forall>q. q \<noteq> t \<and> q \<noteq> p \<longrightarrow> nodes s' q = nodes s q)) \<or>
         (\<exists>e. r = Inl e \<and> (\<forall>q. q \<noteq> t \<longrightarrow> nodes s' q = nodes s q))"
proof (cases force)
  case True
  obtain r1 s1 where 1: "persist os t p s = (r1, s1)" by (cases "persist os t p s")
  show ?thesis
    using assms True persist_Inr [of t p s s1] persist_Inl [of t p s _ s1] remove_temp_other
    by (cases r1) (auto simp: install_def 1 dropping_def)
next
  case False
  obtain r1 s1 where 1: "persist_noclobber os t p s = (r1, s1)" by (cases "persist_noclobber os t p s")
  show ?thesis
    using assms False persist_noclobber_Inr [of t p s s1] persist_noclobber_Inl [of t p s _ s1]
      remove_temp_other
    by (cases r1) (auto simp: install_def 1 dropping_def)
qed

end

lemma install_exists:
  assumes "tempfile_laws os" "nodes s p \<noteq> None"
  shows "fst (install os False t p s) = Inl [Io AlreadyExists]"
proof -
  have "fst (persist_noclobber os t p s) = Inl [Io AlreadyExists]"
    by (rule lawful_os.persist_noclobber_exists [OF lawful_os.intro [OF assms(1)] assms(2)])
  then show ?thesis by (cases "persist_noclobber os t p s") (simp add: install_def dropping_def)
qed

lemma installs_failed:
  "(\<And>q. not_temp q \<Longrightarrow> nodes s' q = nodes s q) \<Longrightarrow> not_temp p \<Longrightarrow> installs p bs s (Inl e) s'"
  by (simp add: installs_def)

lemma installs_cong_nodes:
  "nodes s'' = nodes s' \<Longrightarrow> installs p bs s r s'' = installs p bs s r s'"
  by (simp add: installs_def)

lemma installs_any_error: "installs p bs s r s' \<Longrightarrow> installs p bs s (Inl e) s'"
  by (simp add: installs_def)

text \<open>Writing, installing and checking a secret file: the tail all stores share.\<close>

definition store_secret ::
    "'o os_scheme \<Rightarrow> path \<Rightarrow> string \<Rightarrow> bytes \<Rightarrow> created_file_owner \<Rightarrow> bool \<Rightarrow> string \<Rightarrow> path
     \<Rightarrow> fs \<Rightarrow> unit res \<times> fs" where
  "store_secret os d a bs owner force m p s =
     then_st (write_synced_temp_secret_file os d a ''.tmp'' bs owner s) (\<lambda>tmp s.
     then_st (context_st m (install os force tmp p s)) (\<lambda>_ s.
     then_st (validate_file_mode os p s) (\<lambda>_ s.
     sync_parent_dir os p s)))"

lemma nodes_check_installed:
  "nodes (snd (then_st (validate_file_mode os p s) (\<lambda>_ s. sync_parent_dir os p s))) = nodes s"
  by (rule nodes_then_st) (auto simp: frame_simps)

lemma store_secret_installs:
  assumes laws: "tempfile_laws os" and p: "not_temp p"
    and run: "store_secret os d a bs owner force m p s = (r, s')"
  shows "installs p bs s r s'"
    and "\<not> force \<Longrightarrow> nodes s p \<noteq> None \<Longrightarrow> nodes s' p = nodes s p \<and> (\<exists>e. r = Inl e)"
proof -
  have L: "lawful_os os" by (rule lawful_os.intro [OF laws])
  have "installs p bs s r s' \<and>
      (\<not> force \<longrightarrow> nodes s p \<noteq> None \<longrightarrow> nodes s' p = nodes s p \<and> (\<exists>e. r = Inl e))"
  proof (cases "write_synced_temp_secret_file os d a ''.tmp'' bs owner s")
    case (Pair r1 s1)
    note w = lawful_os.write_synced_cases [OF L Pair]
    show ?thesis
    proof (cases r1)
      case (Inl e)
      then have "r = Inl e" "s' = s1" "\<And>q. not_temp q \<Longrightarrow> nodes s1 q = nodes s q"
        using run Pair w by (auto simp: store_secret_def)
      then show ?thesis using p by (simp add: installs_failed)
    next
      case (Inr t)
      have t: "nodes s1 t = Some (Reg 384 bs)" "\<And>q. q \<noteq> t \<Longrightarrow> nodes s1 q = nodes s q"
          "\<And>q. not_temp q \<Longrightarrow> q \<noteq> t"
        using w Inr by auto
      obtain r2 s2 where 2: "install os force t p s1 = (r2, s2)" by (cases "install os force t p s1")
      note i = lawful_os.install_cases [OF L 2 t(3) [OF p]]
      show ?thesis
      proof (cases r2)
        case (Inl e)
        then have "r = Inl (Msg m # e)" "s' = s2" "\<And>q. q \<noteq> t \<Longrightarrow> nodes s2 q = nodes s q"
          using run Pair \<open>r1 = Inr t\<close> 2 i t(2) by (auto simp: store_secret_def)
        then show ?thesis using p t(3) by (simp add: installs_failed)
      next
        case (Inr u)
        then have i: "force \<or> nodes s1 p = None" "nodes s2 p = Some (Reg 384 bs)"
            "\<And>q. q \<noteq> t \<Longrightarrow> q \<noteq> p \<Longrightarrow> nodes s2 q = nodes s q"
          using i t by auto
        have "(r, s') = then_st (validate_file_mode os p s2) (\<lambda>_ s. sync_parent_dir os p s)"
          using run Pair \<open>r1 = Inr t\<close> 2 Inr by (simp add: store_secret_def)
        then have "nodes s' = nodes s2" using nodes_check_installed [of os p s2] by (metis snd_conv)
        then show ?thesis using i t(2,3) p by (auto simp: installs_def)
      qed
    qed
  qed
  then show "installs p bs s r s'"
    and "\<not> force \<Longrightarrow> nodes s p \<noteq> None \<Longrightarrow> nodes s' p = nodes s p \<and> (\<exists>e. r = Inl e)"
    by auto
qed

lemma installs_after_growth:
  assumes g: "\<And>q n. nodes s q = Some n \<Longrightarrow> nodes s1 q = Some n" "nodes s1 p = nodes s p"
    and i: "installs p bs s1 r s'"
  shows "installs p bs s r s'"
  using i g unfolding installs_def by auto

lemma atomic_write_eq:
  "atomic_write_secret_file os p bs s =
     then_st (ensure_output_parent_directory os (writable_parent p) s)
       (\<lambda>_. store_secret os (writable_parent p) ''.avault.'' bs Keep True
               ''failed to install secret file'' p)"
  by (simp add: atomic_write_secret_file_def store_secret_def [abs_def] Let_def)

lemma ensure_output_parent_growth:
  assumes "ensure_output_parent_directory os parent s = (r, s')"
  shows "(\<forall>q n. nodes s q = Some n \<longrightarrow> nodes s' q = Some n) \<and>
         (\<forall>q. q \<notin> ancestors parent \<longrightarrow> nodes s' q = nodes s q)"
proof (cases "path_exists os parent s")
  case (Pair ex s1)
  have s1: "nodes s1 = nodes s" using Pair nodes_path_exists [of os parent s] by simp
  show ?thesis
  proof (cases ex)
    case True
    then show ?thesis using assms Pair s1 by (simp add: ensure_output_parent_directory_def)
  next
    case False
    then have "s' = snd (create_dir_all os parent s1)"
      using assms Pair by (simp add: ensure_output_parent_directory_def context_st_def)
    then show ?thesis
      using create_dir_all_growth [of os parent s1 _ s'] s1 by (metis surjective_pairing)
  qed
qed

text \<open>
  C31. Delivered files: after \<open>atomic_write_secret_file\<close> the target is what it was before or
  exactly the new content with mode 0600, never a part of it and never with other permissions,
  whichever calls fail; when it succeeds it is the new content; and no other file or directory
  is changed, temporary files apart.
\<close>

theorem atomic_write_installs:
  assumes "tempfile_laws os" "not_temp p" "p \<noteq> [46]"
    and run: "atomic_write_secret_file os p bs s = (r, s')"
  shows "installs p bs s r s'"
proof (cases "ensure_output_parent_directory os (writable_parent p) s")
  case (Pair r1 s1)
  have g: "\<And>q n. nodes s q = Some n \<Longrightarrow> nodes s1 q = Some n" "nodes s1 p = nodes s p"
    using ensure_output_parent_growth [OF Pair] not_ancestor_of_parent [OF assms(3)] by blast+
  show ?thesis
  proof (cases r1)
    case (Inl e)
    then have "r = Inl e" "s' = s1" using run Pair by (simp_all add: atomic_write_eq)
    then show ?thesis using g by (simp add: installs_def)
  next
    case (Inr u)
    then have "store_secret os (writable_parent p) ''.avault.'' bs Keep True
        ''failed to install secret file'' p s1 = (r, s')"
      using run Pair by (simp add: atomic_write_eq)
    from store_secret_installs(1) [OF assms(1,2) this] g show ?thesis
      by (rule installs_after_growth [rotated 2])
  qed
qed

section \<open>A system where nothing fails\<close>

text \<open>
  Temporary files get the letter \<open>x\<close> between prefix and suffix. The working directory is the
  only directory that exists.
\<close>

definition plain_os :: os where
  "plain_os = \<lparr>fault = (\<lambda>_. None), short_write = (\<lambda>_. 0), alloc_fails = (\<lambda>_. False),
     rng = (\<lambda>t i. of_nat (t + i)), umask = 18, vec_limit = 64,
     tempfile_in = (\<lambda>d a z s. let t = path_join d (as_bytes a @ [120] @ as_bytes z)
       in if nodes s t = None then (Inr t, s\<lparr>nodes := (nodes s)(t \<mapsto> Reg 384 [])\<rparr>)
          else (Inl [Io AlreadyExists], s)),
     persist = (\<lambda>t p s. (Inr (), s\<lparr>nodes := (nodes s)(t := None, p := nodes s t)\<rparr>)),
     persist_noclobber = (\<lambda>t p s. if nodes s p = None
       then (Inr (), s\<lparr>nodes := (nodes s)(t := None, p := nodes s t)\<rparr>)
       else (Inl [Io AlreadyExists], s)),
     remove_temp = (\<lambda>t s. s\<lparr>nodes := (nodes s)(t := None)\<rparr>)\<rparr>"

definition plain_fs :: fs where
  "plain_fs = \<lparr>nodes = [[46] \<mapsto> Dir 448], calls = 0\<rparr>"

lemma plain_laws: "tempfile_laws plain_os"
  unfolding tempfile_laws_def
  by (intro conjI allI impI)
     (auto simp: plain_os_def Let_def intro: exI [of _ "[120]"] split: if_splits)

interpretation plain: lawful_os plain_os
  by (rule lawful_os.intro [OF plain_laws])

definition sample_path :: path where
  "sample_path = [100, 47, 107]"

lemma sample_path_simps:
  "not_temp sample_path" "sample_path \<noteq> [46]" "writable_parent sample_path = [100]"
  by (simp_all add: not_temp_def sample_path_def as_bytes_Cons writable_parent_def path_parent_def)

lemma writable_parent_sample: "writable_parent [100] = [46]" "writable_parent [100, 47, 107] = [100]"
  by (simp_all add: writable_parent_def path_parent_def)

lemma plain_os_simps:
  "fault plain_os = (\<lambda>_. None)" "umask plain_os = 18" "vec_limit plain_os = 64"
  "alloc_fails plain_os = (\<lambda>_. False)" "rng plain_os = (\<lambda>t i. of_nat (t + i))"
  "tempfile_in plain_os d a z s = (let t = path_join d (as_bytes a @ [120] @ as_bytes z)
     in if nodes s t = None then (Inr t, s\<lparr>nodes := (nodes s)(t \<mapsto> Reg 384 [])\<rparr>)
        else (Inl [Io AlreadyExists], s))"
  "persist plain_os t p s = (Inr (), s\<lparr>nodes := (nodes s)(t := None, p := nodes s t)\<rparr>)"
  "persist_noclobber plain_os t p s = (if nodes s p = None
     then (Inr (), s\<lparr>nodes := (nodes s)(t := None, p := nodes s t)\<rparr>)
     else (Inl [Io AlreadyExists], s))"
  "remove_temp plain_os t s = s\<lparr>nodes := (nodes s)(t := None)\<rparr>"
  by (simp_all add: plain_os_def)

lemmas fs_eval = syscall_def path_exists_def metadata_mode_def set_permissions_def create_dir_def
  file_open_def read_at_def read_exact_def fs_read_def write_all_def sync_all_def
  validate_file_mode_def validate_directory_mode_def validate_parent_directory_mode_def
  secure_created_directory_def secure_created_file_def sync_directory_def sync_parent_dir_def
  dropping_def write_synced_temp_secret_file_def install_def plain_os_simps plain_fs_def Let_def
  writable_parent_sample sample_path_simps

lemma sample_atomic_write: "fst (atomic_write_secret_file plain_os sample_path [7, 8] plain_fs) = Inr ()"
  by (simp add: atomic_write_secret_file_def ensure_output_parent_directory_def create_dir_all.simps
      fs_eval sample_path_def path_join_def as_bytes_Cons)

theorem atomic_write_installs_witness:
  "\<exists>s'. atomic_write_secret_file plain_os sample_path [7, 8] plain_fs = (Inr (), s') \<and>
        nodes s' sample_path = Some (Reg 384 [7, 8])"
proof (cases "atomic_write_secret_file plain_os sample_path [7, 8] plain_fs")
  case (Pair r s')
  have "installs sample_path [7, 8] plain_fs r s'"
    by (rule atomic_write_installs [OF plain_laws _ _ Pair]) (rule sample_path_simps)+
  moreover have "r = Inr ()" using sample_atomic_write by (simp add: Pair)
  ultimately show ?thesis by (simp add: Pair installs_def)
qed

theorem missing_ancestors_terminates_witness:
  "\<exists>ms s'. collect_missing (vec_limit plain_os) plain_os sample_path [] plain_fs = (Inr ms, s')"
  by (rule missing_ancestors_terminates) (simp_all add: plain_os_def plain_fs_def sample_path_def)

end
