(* ===== verification/FileStore.thy ===== *)
theory FileStore
  imports FileSys
begin

text \<open>
  The plain file store of \<open>crates/avault-store/src/lib.rs\<close> (\<open>FileStore\<close>) and the contract all the
  master-key stores share.

  A store is its path. Its state is the file system of \<open>FileSys\<close>; keys are drawn from the random
  generator of \<open>os\<close>. A key is its bytes, and making one may fail: what its locked page does
  (\<open>LockedMemory\<close>) is, seen by the stores, just this.
\<close>

section \<open>Keys\<close>

(* SRC store MasterKey::zeroed_locked *)
definition zeroed_locked :: "'o os_scheme \<Rightarrow> fs \<Rightarrow> master_key res \<times> fs" where
  "zeroed_locked os s =
     (if alloc_fails os (calls s) then bail ''failed to allocate master key page''
      else Inr (replicate MASTER_KEY_BYTES 0),
      s\<lparr>calls := Suc (calls s)\<rparr>)"

(* SRC store MasterKey::from_bytes *)
definition from_bytes :: "'o os_scheme \<Rightarrow> bytes \<Rightarrow> fs \<Rightarrow> master_key res \<times> fs" where
  "from_bytes os bs s = then_st (zeroed_locked os s) (\<lambda>_ s. (Inr bs, s))"

text \<open>\<open>OsRng.fill_bytes\<close>.\<close>

definition fill_bytes :: "'o os_scheme \<Rightarrow> nat \<Rightarrow> fs \<Rightarrow> bytes \<times> fs" where
  "fill_bytes os n s = (map (rng os (calls s)) [0..<n], s\<lparr>calls := Suc (calls s)\<rparr>)"

(* SRC store MasterKey::generate_locked *)
definition generate_locked :: "'o os_scheme \<Rightarrow> fs \<Rightarrow> master_key res \<times> fs" where
  "generate_locked os s = then_st (zeroed_locked os s) (\<lambda>_ s.
     let (key, s) = fill_bytes os MASTER_KEY_BYTES s in (Inr key, s))"

section \<open>The file store\<close>

(* SRC store FileStore::ensure_parent *)
definition ensure_parent :: "'o os_scheme \<Rightarrow> path \<Rightarrow> fs \<Rightarrow> unit res \<times> fs" where
  "ensure_parent os p s =
     (let parent = writable_parent p
      in then_st (ensure_secret_parent_directory os parent s) (\<lambda>_ s.
         validate_directory_mode os parent s))"

(* SRC store FileStore::get *)
definition file_get :: "'o os_scheme \<Rightarrow> path \<Rightarrow> fs \<Rightarrow> master_key res \<times> fs" where
  "file_get os p s =
     then_st (validate_parent_directory_mode os p s) (\<lambda>_ s.
     then_st (validate_file_mode os p s) (\<lambda>_ s.
     then_st (context_st ''master key not found'' (file_open os p s)) (\<lambda>f s.
     then_st (zeroed_locked os s) (\<lambda>_ s.
     then_st (context_st ''master key has invalid length''
               (read_exact os f MASTER_KEY_BYTES s)) (\<lambda>key s.
     case read_at os f MASTER_KEY_BYTES 1 s of
       (Inr extra, s) \<Rightarrow>
         if extra = [] then (Inr key, s) else (bail ''master key has invalid length'', s)
     | (Inl e, s) \<Rightarrow> (Inl (Msg ''failed to validate master key length'' # e), s))))))"

(* SRC store FileStore::import *)
definition file_import :: "'o os_scheme \<Rightarrow> path \<Rightarrow> bytes \<Rightarrow> bool \<Rightarrow> fs \<Rightarrow> unit res \<times> fs" where
  "file_import os p key force s =
     then_st (ensure_parent os p s) (\<lambda>_ s.
     let (ex, s) = path_exists os p s
     in if ex \<and> \<not> force then (bail ''master key already exists'', s)
        else then_st (write_synced_temp_secret_file os (writable_parent p) ''.machine.'' ''.tmp'' key
                        SetCurrentUser s) (\<lambda>tmp s.
             then_st (if force
                then context_st ''failed to install imported master key'' (install os True tmp p s)
                else context_st ''master key already exists'' (install os False tmp p s)) (\<lambda>_ s.
             then_st (validate_file_mode os p s) (\<lambda>_ s.
             sync_parent_dir os p s))))"

(* SRC store FileStore::create_atomic *)
definition file_create_atomic :: "'o os_scheme \<Rightarrow> path \<Rightarrow> fs \<Rightarrow> unit res \<times> fs" where
  "file_create_atomic os p s =
     then_st (ensure_parent os p s) (\<lambda>_ s.
     then_st (generate_locked os s) (\<lambda>key s.
     then_st (write_synced_temp_secret_file os (writable_parent p) ''.machine.'' ''.tmp'' key
                SetCurrentUser s) (\<lambda>tmp s.
     case install os False tmp p s of
       (Inr _, s) \<Rightarrow> then_st (validate_file_mode os p s) (\<lambda>_ s. sync_parent_dir os p s)
     | (Inl e, s) \<Rightarrow>
         if e = [Io AlreadyExists] then (Inr (), s)
         else (Inl (Msg ''failed to install new master key'' # e), s))))"

(* SRC store FileStore::get_or_create *)
definition file_get_or_create :: "'o os_scheme \<Rightarrow> path \<Rightarrow> fs \<Rightarrow> master_key res \<times> fs" where
  "file_get_or_create os p s =
     (case file_get os p s of
        (Inr key, s) \<Rightarrow> (Inr key, s)
      | (Inl _, s) \<Rightarrow> then_st (file_create_atomic os p s) (\<lambda>_ s. file_get os p s))"

section \<open>The contract of a master-key store\<close>

text \<open>
  \<open>stored\<close> is the key a state holds and \<open>occupied\<close> says that something, readable or not, stands
  where the key goes. Clients only call \<open>get\<close> and \<open>imp\<close> (with its \<open>force\<close> flag).
\<close>

datatype store_op = GetKey | ImportKey bytes bool

fun run_ops :: "('s \<Rightarrow> bytes res \<times> 's) \<Rightarrow> (bytes \<Rightarrow> bool \<Rightarrow> 's \<Rightarrow> unit res \<times> 's) \<Rightarrow> store_op list \<Rightarrow> 's \<Rightarrow> 's" where
  "run_ops get imp [] s = s"
| "run_ops get imp (GetKey # ops) s = run_ops get imp ops (snd (get s))"
| "run_ops get imp (ImportKey k force # ops) s = run_ops get imp ops (snd (imp k force s))"

definition unforced :: "store_op \<Rightarrow> bool" where
  "unforced x = (case x of GetKey \<Rightarrow> True | ImportKey k force \<Rightarrow> \<not> force \<and> length k = MASTER_KEY_BYTES)"

locale key_store =
  fixes get :: "'s \<Rightarrow> bytes res \<times> 's"
    and imp :: "bytes \<Rightarrow> bool \<Rightarrow> 's \<Rightarrow> unit res \<times> 's"
    and stored :: "'s \<Rightarrow> bytes option"
    and occupied :: "'s \<Rightarrow> bool"
  assumes stored_occupied: "stored s = Some k \<Longrightarrow> occupied s"
    and get_keeps: "get s = (r, s') \<Longrightarrow> stored s' = stored s \<and> occupied s' = occupied s"
    and get_stored: "get s = (Inr k, s') \<Longrightarrow> stored s = Some k"
    and imp_stored:
      "\<lbrakk>length k = MASTER_KEY_BYTES; imp k force s = (Inr (), s')\<rbrakk> \<Longrightarrow> stored s' = Some k"
    and imp_failed:
      "\<lbrakk>length k = MASTER_KEY_BYTES; imp k force s = (Inl e, s')\<rbrakk>
       \<Longrightarrow> stored s' = stored s \<or> stored s' = Some k"
    and imp_refuses:
      "\<lbrakk>occupied s; imp k False s = (r2, s')\<rbrakk>
       \<Longrightarrow> stored s' = stored s \<and> occupied s' \<and> (\<exists>e. r2 = Inl e)"
begin

lemma import_get:
  assumes "length k = MASTER_KEY_BYTES" "imp k force s = (Inr (), s1)" "get s1 = (Inr k', s2)"
  shows "k' = k"
  using imp_stored [OF assms(1,2)] get_stored [OF assms(3)] by simp

lemma second_import_refused:
  assumes "length k = MASTER_KEY_BYTES" "imp k force s = (Inr (), s1)" "imp k2 False s1 = (r, s2)"
  shows "stored s2 = Some k \<and> (\<exists>e. r = Inl e)"
  using imp_stored [OF assms(1,2)] imp_refuses [OF stored_occupied assms(3)] by auto

lemma key_survives:
  "\<lbrakk>stored s = Some k; list_all unforced ops\<rbrakk> \<Longrightarrow> stored (run_ops get imp ops s) = Some k"
proof (induction ops arbitrary: s)
  case Nil
  then show ?case by simp
next
  case (Cons x ops)
  have step: "stored (snd (get s)) = Some k"
    using get_keeps [of s] Cons.prems by (metis prod.collapse)
  have step': "stored (snd (imp k2 False s)) = Some k" for k2
    using imp_refuses [OF stored_occupied, of s k k2] Cons.prems by (metis prod.collapse)
  show ?case using Cons step step' by (cases x) (auto simp: unforced_def)
qed

lemma only_imported_keys:
  assumes "stored (run_ops get imp ops s) = Some k"
    and "list_all (\<lambda>x. case x of GetKey \<Rightarrow> True | ImportKey k f \<Rightarrow> length k = MASTER_KEY_BYTES) ops"
  shows "stored s = Some k \<or> (\<exists>f. ImportKey k f \<in> set ops)"
  using assms
proof (induction ops arbitrary: s)
  case Nil
  then show ?case by simp
next
  case (Cons x ops)
  show ?case
  proof (cases x)
    case GetKey
    have "stored (snd (get s)) = stored s" using get_keeps [of s] by (metis prod.collapse)
    with Cons.prems GetKey have "stored s = Some k \<or> (\<exists>f. ImportKey k f \<in> set ops)"
      using Cons.IH [of "snd (get s)"] by simp
    then show ?thesis by auto
  next
    case (ImportKey k2 f)
    have "stored (snd (imp k2 f s)) = stored s \<or> stored (snd (imp k2 f s)) = Some k2"
      using imp_stored [of k2 f s] imp_failed [of k2 f s] Cons.prems(2) ImportKey
      by (cases "imp k2 f s"; cases "fst (imp k2 f s)") auto
    moreover have "stored (snd (imp k2 f s)) = Some k \<or> (\<exists>f. ImportKey k f \<in> set ops)"
      using Cons.IH [of "snd (imp k2 f s)"] Cons.prems ImportKey by simp
    ultimately show ?thesis using ImportKey by auto
  qed
qed

end

section \<open>What the file store does to its file\<close>

text \<open>Existing nodes stay, and so does the node (if any) at \<open>p\<close>.\<close>

definition grows_beside :: "path \<Rightarrow> fs \<Rightarrow> fs \<Rightarrow> bool" where
  "grows_beside p s s' \<longleftrightarrow> (\<forall>q n. nodes s q = Some n \<longrightarrow> nodes s' q = Some n) \<and> nodes s' p = nodes s p"

lemma grows_beside_same: "nodes s' = nodes s \<Longrightarrow> grows_beside p s s'"
  by (simp add: grows_beside_def)

lemma grows_beside_trans: "\<lbrakk>grows_beside p s s1; grows_beside p s1 s2\<rbrakk> \<Longrightarrow> grows_beside p s s2"
  by (simp add: grows_beside_def)

lemma installs_grown: "\<lbrakk>grows_beside p s s1; installs p bs s1 r s'\<rbrakk> \<Longrightarrow> installs p bs s r s'"
  by (rule installs_after_growth) (simp_all add: grows_beside_def)

lemma grown_installs_error: "grows_beside p s s' \<Longrightarrow> installs p bs s (Inl e) s'"
  by (simp add: grows_beside_def installs_def)

lemma ensure_parent_grows:
  assumes "ensure_parent os p s = (r, s')" "p \<noteq> [46]"
  shows "grows_beside p s s'"
proof (cases "ensure_secret_parent_directory os (writable_parent p) s")
  case (Pair r1 s1)
  have "nodes s' = nodes s1"
    using assms Pair nodes_validate_directory_mode [of os "writable_parent p" s1]
    by (cases r1) (auto simp: ensure_parent_def)
  then show ?thesis
    using ensure_secret_parent_growth [OF Pair] not_ancestor_of_parent [OF assms(2)]
    by (simp add: private_growth_def grows_beside_def)
qed

lemma ensure_parent_private:
  assumes "ensure_parent os p s = (Inr (), s')"
  shows "\<exists>n. nodes s' (writable_parent p) = Some n \<and> node_mode n AND 63 = 0"
proof -
  obtain s1 where 1: "validate_directory_mode os (writable_parent p) s1 = (Inr (), s')"
    using assms by (auto simp: ensure_parent_def Let_def res_simps)
  then have "nodes s' = nodes s1"
    using nodes_validate_directory_mode [of os "writable_parent p" s1] by simp
  with validate_directory_mode_Inr [OF 1] show ?thesis by simp
qed

lemma file_import_eq:
  "file_import os p key force s =
     then_st (ensure_parent os p s) (\<lambda>_ s.
     let (ex, s) = path_exists os p s
     in if ex \<and> \<not> force then (bail ''master key already exists'', s)
        else store_secret os (writable_parent p) ''.machine.'' key SetCurrentUser force
               (if force then ''failed to install imported master key''
                else ''master key already exists'') p s)"
  unfolding file_import_def store_secret_def by (cases force) (simp_all only: if_True if_False)

lemma guarded_store_installs:
  assumes laws: "tempfile_laws os" and p: "not_temp p"
    and run: "(let (ex, s1) = path_exists os p s
     in if ex \<and> \<not> force then (bail m, s1) else store_secret os d a bs ow force m' p s1) = (r, s')"
  shows "installs p bs s r s'"
    and "\<not> force \<Longrightarrow> nodes s p \<noteq> None \<Longrightarrow> nodes s' p = nodes s p \<and> (\<exists>e. r = Inl e)"
proof -
  obtain ex s1 where 1: "path_exists os p s = (ex, s1)" by (cases "path_exists os p s")
  have n: "nodes s1 = nodes s" using nodes_path_exists [of os p s] by (simp add: 1)
  show "installs p bs s r s'"
  proof (cases "ex \<and> \<not> force")
    case True
    then show ?thesis using run n by (auto simp: 1 bail_def installs_def)
  next
    case False
    then have "store_secret os d a bs ow force m' p s1 = (r, s')" using run by (cases ex; cases force) (simp_all add: 1)
    from store_secret_installs(1) [OF laws p this] n show ?thesis by (simp add: installs_def)
  qed
  show "nodes s' p = nodes s p \<and> (\<exists>e. r = Inl e)" if "\<not> force" "nodes s p \<noteq> None"
  proof (cases ex)
    case True
    then show ?thesis using run n that by (auto simp: 1 bail_def)
  next
    case False
    then have "store_secret os d a bs ow force m' p s1 = (r, s')" using run by (simp add: 1)
    from store_secret_installs(2) [OF laws p this] n that show ?thesis by simp
  qed
qed

lemma file_import_installs:
  assumes "tempfile_laws os" "not_temp p" "p \<noteq> [46]" "file_import os p key force s = (r, s')"
  shows "installs p key s r s'"
    and "\<not> force \<Longrightarrow> nodes s p \<noteq> None \<Longrightarrow> nodes s' p = nodes s p \<and> (\<exists>e. r = Inl e)"
proof -
  obtain r1 s1 where 1: "ensure_parent os p s = (r1, s1)" by (cases "ensure_parent os p s")
  note g = ensure_parent_grows [OF 1 assms(3)]
  show "installs p key s r s'"
  proof (cases r1)
    case (Inl e)
    then show ?thesis using assms(4) g by (auto simp: file_import_eq 1 intro: grown_installs_error)
  next
    case (Inr u)
    with assms(4) have run: "(let (ex, s) = path_exists os p s1
     in if ex \<and> \<not> force then (bail ''master key already exists'', s)
        else store_secret os (writable_parent p) ''.machine.'' key SetCurrentUser force
               (if force then ''failed to install imported master key''
                else ''master key already exists'') p s) = (r, s')"
      by (simp add: file_import_eq 1)
    show ?thesis by (rule installs_grown [OF g guarded_store_installs(1) [OF assms(1,2) run]])
  qed
  show "nodes s' p = nodes s p \<and> (\<exists>e. r = Inl e)" if "\<not> force" "nodes s p \<noteq> None"
  proof (cases r1)
    case (Inl e)
    then show ?thesis using assms(4) g by (auto simp: file_import_eq 1 grows_beside_def)
  next
    case (Inr u)
    with assms(4) have run: "(let (ex, s) = path_exists os p s1
     in if ex \<and> \<not> force then (bail ''master key already exists'', s)
        else store_secret os (writable_parent p) ''.machine.'' key SetCurrentUser force
               (if force then ''failed to install imported master key''
                else ''master key already exists'') p s) = (r, s')"
      by (simp add: file_import_eq 1)
    show ?thesis
      using guarded_store_installs(2) [OF assms(1,2) run that(1)] that(2) g
      by (simp add: grows_beside_def)
  qed
qed

text \<open>The key a key file holds: 32 bytes that only the owner may access.\<close>

definition key_file :: "path \<Rightarrow> fs \<Rightarrow> bytes option" where
  "key_file p s = (case nodes s p of
       Some (Reg m bs) \<Rightarrow> if m AND 63 = 0 \<and> length bs = MASTER_KEY_BYTES then Some bs else None
     | _ \<Rightarrow> None)"

lemma nodes_zeroed_locked [frame_simps]: "nodes (snd (zeroed_locked os s)) = nodes s"
  by (simp add: zeroed_locked_def)

lemma nodes_read_at_step: "read_at os f i n s = (r, s') \<Longrightarrow> nodes s' = nodes s"
  using nodes_read_at [of os f i n s] by simp

lemma nodes_file_get [frame_simps]: "nodes (snd (file_get os p s)) = nodes s"
  unfolding file_get_def
  by (intro nodes_then_st) (auto simp: frame_simps split: sum.split prod.split dest: nodes_read_at_step)

lemma validate_file_mode_step: "validate_file_mode os p s = (r, s') \<Longrightarrow> nodes s' = nodes s"
  using nodes_validate_file_mode [of os p s] by simp

lemma validate_parent_step: "validate_parent_directory_mode os p s = (r, s') \<Longrightarrow> nodes s' = nodes s"
  using nodes_validate_parent [of os p s] by simp

lemma file_open_Inr:
  "file_open os p s = (Inr f, s') \<Longrightarrow> nodes s p = Some f \<and> nodes s' = nodes s"
  by (auto simp: file_open_def syscall_def Let_def split: option.splits node.splits)

lemma read_at_Inr:
  "read_at os f i n s = (Inr bs, s') \<Longrightarrow> \<exists>m c. f = Reg m c \<and> bs = take n (drop i c)"
  by (auto simp: read_at_def syscall_def Let_def split: option.splits node.splits)

lemma read_exact_Inr:
  "read_exact os f n s = (Inr bs, s') \<Longrightarrow> \<exists>m c. f = Reg m c \<and> bs = take n c \<and> n \<le> length c"
  by (auto simp: read_exact_def res_simps split: if_splits dest!: read_at_Inr)

lemma no_extra_Inr:
  "(case rs of (Inl e, s) \<Rightarrow> (Inl (g e), s)
     | (Inr x, s) \<Rightarrow> if x = [] then (Inr k, s) else (bail m, s)) = (Inr k', s') \<longleftrightarrow>
   rs = (Inr [], s') \<and> k' = k"
  by (cases rs; cases "fst rs") (auto simp: bail_def)

lemma file_get_sound:
  assumes "file_get os p s = (Inr k, s')"
  shows "key_file p s = Some k"
proof -
  obtain s1 s2 f s3 s4 s5 s6
    where 1: "validate_parent_directory_mode os p s = (Inr (), s1)"
      and 2: "validate_file_mode os p s1 = (Inr (), s2)"
      and 3: "file_open os p s2 = (Inr f, s3)"
      and 5: "read_exact os f MASTER_KEY_BYTES s4 = (Inr k, s5)"
      and 6: "read_at os f MASTER_KEY_BYTES 1 s5 = (Inr [], s6)"
    using assms unfolding file_get_def then_st_eq_Inr no_extra_Inr context_st_eq_Inr by auto
  have n: "nodes s1 = nodes s" "nodes s2 = nodes s"
    using validate_parent_step [OF 1] validate_file_mode_step [OF 2] by simp_all
  have p: "nodes s p = Some f" using file_open_Inr [OF 3] n by simp
  obtain m c where f: "f = Reg m c" "k = take MASTER_KEY_BYTES c" "MASTER_KEY_BYTES \<le> length c"
    using read_exact_Inr [OF 5] by blast
  moreover have "take 1 (drop MASTER_KEY_BYTES c) = []" using read_at_Inr [OF 6] f by auto
  ultimately have "length c = MASTER_KEY_BYTES" by simp
  moreover have "m AND 63 = 0" using validate_file_mode_Inr [OF 2] n p f by simp
  ultimately show ?thesis using p f by (simp add: key_file_def)
qed

lemma file_get_complete:
  assumes "\<And>n. calls s \<le> n \<Longrightarrow> fault os n = None" "\<And>n. calls s \<le> n \<Longrightarrow> \<not> alloc_fails os n"
    and "key_file p s = Some k"
    and "nodes s (writable_parent p) = Some n" "node_mode n AND 63 = 0"
  shows "fst (file_get os p s) = Inr k"
proof -
  obtain m where "nodes s p = Some (Reg m k)" "m AND 63 = 0" "length k = MASTER_KEY_BYTES"
    using assms(3) by (auto simp: key_file_def split: option.splits node.splits if_splits)
  then show ?thesis
    using assms(1,2,4,5)
    by (simp add: file_get_def validate_parent_directory_mode_def validate_directory_mode_def
        validate_file_mode_def metadata_mode_def file_open_def read_exact_def read_at_def
        syscall_def zeroed_locked_def mode_private Let_def)
qed

lemma installs_key_file:
  assumes "installs p k s r s'" "length k = MASTER_KEY_BYTES"
  shows "r = Inr () \<Longrightarrow> key_file p s' = Some k"
    and "key_file p s' = key_file p s \<or> key_file p s' = Some k"
  using assms by (auto simp: installs_def key_file_def)

locale file_key_store = lawful_os os for os :: "'o os_scheme" +
  fixes p :: path
  assumes not_temp_p: "not_temp p" and not_cwd: "p \<noteq> [46]"

sublocale file_key_store \<subseteq> slot: key_store "file_get os p" "file_import os p" "key_file p"
    "\<lambda>s. nodes s p \<noteq> None"
proof
  fix s k assume "key_file p s = Some k"
  then show "nodes s p \<noteq> None" by (auto simp: key_file_def split: option.splits)
next
  fix s r s' assume "file_get os p s = (r, s')"
  then have "nodes s' = nodes s" using nodes_file_get [of os p s] by simp
  then show "key_file p s' = key_file p s \<and> (nodes s' p \<noteq> None) = (nodes s p \<noteq> None)"
    by (simp add: key_file_def)
next
  fix s k s' assume "file_get os p s = (Inr k, s')"
  then show "key_file p s = Some k" by (rule file_get_sound)
next
  fix k force s s'
  assume "length k = MASTER_KEY_BYTES" "file_import os p k force s = (Inr (), s')"
  then show "key_file p s' = Some k"
    using file_import_installs(1) [OF laws not_temp_p not_cwd] installs_key_file(1) by blast
next
  fix k force s e s'
  assume "length k = MASTER_KEY_BYTES" "file_import os p k force s = (Inl e, s')"
  then show "key_file p s' = key_file p s \<or> key_file p s' = Some k"
    using file_import_installs(1) [OF laws not_temp_p not_cwd] installs_key_file(2) by blast
next
  fix s k r2 s' assume "nodes s p \<noteq> None" "file_import os p k False s = (r2, s')"
  then show "key_file p s' = key_file p s \<and> nodes s' p \<noteq> None \<and> (\<exists>e. r2 = Inl e)"
    using file_import_installs(2) [OF laws not_temp_p not_cwd, of k False s r2 s']
    by (simp add: key_file_def)
qed

context file_key_store
begin

lemmas survives = slot.key_survives
lemmas only_imported = slot.only_imported_keys

end

interpretation plain_file: file_key_store plain_os sample_path
  by unfold_locales (rule sample_path_simps)+

section \<open>The default paths\<close>

lemma path_join_prefix: "\<exists>x. \<forall>b. hd b \<noteq> 47 \<longrightarrow> path_join a b = x @ b"
  by (cases "a = [] \<or> last a = 47") (auto simp: path_join_def intro: exI [of _ "a @ [47]"])

lemma vault_file_prefix:
  assumes "vault_file env f = Inr p"
  shows "\<exists>x. \<forall>g. hd (as_bytes g) \<noteq> 47 \<longrightarrow> vault_file env g = Inr (x @ as_bytes g)"
proof (cases "env ''AVAULT_HOME''")
  case None
  then obtain home where home: "user_home_dir env = Inr home"
    using assms by (auto simp: vault_file_def res_simps)
  let ?d = "path_join (path_join (path_join home (as_bytes ''.avibe'')) (as_bytes ''state'')) (as_bytes ''vault'')"
  from path_join_prefix [of ?d] obtain x
    where "\<forall>b. hd b \<noteq> 47 \<longrightarrow> path_join ?d b = x @ b" by blast
  then show ?thesis using None home by (auto simp: vault_file_def intro!: exI [of _ x])
next
  case (Some home)
  from path_join_prefix [of home] obtain x where "\<forall>b. hd b \<noteq> 47 \<longrightarrow> path_join home b = x @ b" by blast
  then show ?thesis using Some by (auto simp: vault_file_def intro!: exI [of _ x])
qed

lemma default_paths:
  assumes "default_master_key_path env = Inr p" "default_tpm_master_key_path env = Inr tpm"
  shows "not_temp p" "p \<noteq> [46]" "not_temp tpm" "tpm \<noteq> [46]" "p \<noteq> tpm"
proof -
  obtain x where x: "\<forall>g. hd (as_bytes g) \<noteq> 47 \<longrightarrow> vault_file env g = Inr (x @ as_bytes g)"
    using vault_file_prefix assms(1) unfolding default_master_key_path_def by blast
  have p: "p = x @ as_bytes ''machine.key''"
    using x [rule_format, of "''machine.key''"] assms(1)
    by (simp add: default_master_key_path_def as_bytes_Cons)
  have tpm: "tpm = x @ as_bytes ''machine.tpm.json''"
    using x [rule_format, of "''machine.tpm.json''"] assms(2)
    by (simp add: default_tpm_master_key_path_def as_bytes_Cons)
  show "not_temp p" "not_temp tpm" by (simp_all add: p tpm not_temp_def as_bytes_Cons)
  show "p \<noteq> [46]" "tpm \<noteq> [46]" by (simp_all add: p tpm as_bytes_Cons append_eq_Cons_conv)
  show "p \<noteq> tpm" by (simp add: p tpm as_bytes_Cons)
qed

lemma default_key_path:
  assumes "default_master_key_path env = Inr p"
  shows "not_temp p" "p \<noteq> [46]"
proof -
  obtain x where "\<forall>g. hd (as_bytes g) \<noteq> 47 \<longrightarrow> vault_file env g = Inr (x @ as_bytes g)"
    using vault_file_prefix assms unfolding default_master_key_path_def by blast
  then obtain tpm where "default_tpm_master_key_path env = Inr tpm"
    by (auto simp: default_tpm_master_key_path_def as_bytes_Cons dest: spec [of _ "''machine.tpm.json''"])
  with default_paths [OF assms] show "not_temp p" "p \<noteq> [46]" by blast+
qed

section \<open>What stays\<close>

text \<open>Everything that exists, temporary files apart, is as it was.\<close>

definition keeps :: "fs \<Rightarrow> fs \<Rightarrow> bool" where
  "keeps s s' \<longleftrightarrow> (\<forall>q n. not_temp q \<longrightarrow> nodes s q = Some n \<longrightarrow> nodes s' q = Some n)"

lemma keeps_same: "nodes s' = nodes s \<Longrightarrow> keeps s s'"
  by (simp add: keeps_def)

lemma keeps_trans: "\<lbrakk>keeps s s1; keeps s1 s2\<rbrakk> \<Longrightarrow> keeps s s2"
  by (simp add: keeps_def)

lemma grows_keeps: "grows_beside p s s' \<Longrightarrow> keeps s s'"
  by (simp add: grows_beside_def keeps_def)

lemma keeps_then_st:
  "\<lbrakk>keeps s (snd m); \<And>x s1. \<lbrakk>m = (Inr x, s1); keeps s s1\<rbrakk> \<Longrightarrow> keeps s (snd (f x s1))\<rbrakk>
   \<Longrightarrow> keeps s (snd (then_st m f))"
  by (cases m; cases "fst m") auto

lemma keeps_refl [simp]: "keeps s s"
  by (simp add: keeps_def)

lemma write_synced_other:
  assumes "tempfile_laws os" "not_temp q"
    and "write_synced_temp_secret_file os d a ''.tmp'' bs owner s = (r, s')"
  shows "nodes s' q = nodes s q"
  using lawful_os.write_synced_cases [OF lawful_os.intro [OF assms(1)] assms(3)] assms(2) by auto

lemma install_other:
  assumes "tempfile_laws os" "install os force t p s = (r, s')" "q \<noteq> t" "p \<noteq> t"
    and "q \<noteq> p \<or> \<not> force \<and> nodes s q \<noteq> None"
  shows "nodes s' q = nodes s q"
  using lawful_os.install_cases [OF lawful_os.intro [OF assms(1)] assms(2,4)] assms(3,5) by auto

lemma store_secret_other:
  assumes laws: "tempfile_laws os" "not_temp p" "not_temp q"
    and q: "q \<noteq> p \<or> \<not> force \<and> nodes s q \<noteq> None"
    and run: "store_secret os d a bs owner force m p s = (r, s')"
  shows "nodes s' q = nodes s q"
proof (cases "write_synced_temp_secret_file os d a ''.tmp'' bs owner s")
  case (Pair r1 s1)
  have 1: "nodes s1 q = nodes s q" by (rule write_synced_other [OF laws(1,3) Pair])
  show ?thesis
  proof (cases r1)
    case (Inl e)
    then show ?thesis using run Pair 1 by (simp add: store_secret_def)
  next
    case (Inr t)
    have t: "p \<noteq> t" "q \<noteq> t"
      using lawful_os.write_synced_cases [OF lawful_os.intro [OF laws(1)] Pair] Inr laws(2,3) by auto
    obtain r2 s2 where 2: "install os force t p s1 = (r2, s2)" by (cases "install os force t p s1")
    have n2: "nodes s2 q = nodes s1 q"
      by (rule install_other [OF laws(1) 2 t(2,1)]) (use q 1 in simp)
    have "nodes s' = nodes s2"
    proof (cases r2)
      case (Inl e)
      then show ?thesis using run Pair Inr 2 by (auto simp: store_secret_def)
    next
      case (Inr u)
      then have "(r, s') = then_st (validate_file_mode os p s2) (\<lambda>_ s. sync_parent_dir os p s)"
        using run Pair \<open>r1 = Inr t\<close> 2 by (simp add: store_secret_def)
      then show ?thesis using nodes_check_installed [of os p s2] by (metis snd_conv)
    qed
    with n2 1 show ?thesis by simp
  qed
qed

lemma store_secret_keeps:
  assumes "tempfile_laws os" "not_temp p" "store_secret os d a bs owner False m p s = (r, s')"
  shows "keeps s s'"
  unfolding keeps_def
proof (intro allI impI)
  fix q n assume "not_temp q" "nodes s q = Some n"
  then show "nodes s' q = Some n" using store_secret_other [OF assms(1,2) _ _ assms(3), of q] by simp
qed

lemma generate_locked_nodes: "generate_locked os s = (r, s') \<Longrightarrow> nodes s' = nodes s"
  by (auto simp: generate_locked_def zeroed_locked_def fill_bytes_def bail_def then_st_def
      split: if_splits)

text \<open>Installing a new file from a temporary one, where an existing one is left and counts as success.\<close>

lemma install_new_keeps:
  assumes laws: "tempfile_laws os" "not_temp p"
  shows "keeps s (snd (then_st (write_synced_temp_secret_file os d a ''.tmp'' bs ow s) (\<lambda>tmp s.
     case install os False tmp p s of
       (Inr _, s) \<Rightarrow> then_st (validate_file_mode os p s) (\<lambda>_ s. sync_parent_dir os p s)
     | (Inl e, s) \<Rightarrow> if e = [Io AlreadyExists] then (Inr (), s) else (Inl (Msg m # e), s))))"
proof (cases "write_synced_temp_secret_file os d a ''.tmp'' bs ow s")
  case (Pair r3 s3)
  have k3: "keeps s s3" using write_synced_other [OF laws(1) _ Pair] by (simp add: keeps_def)
  show ?thesis
  proof (cases r3)
    case (Inl e)
    then show ?thesis using k3 Pair by simp
  next
    case (Inr t)
    have t: "p \<noteq> t" "\<And>q. not_temp q \<Longrightarrow> q \<noteq> t"
      using lawful_os.write_synced_cases [OF lawful_os.intro [OF laws(1)] Pair] Inr laws(2) by auto
    obtain r4 s4 where 4: "install os False t p s3 = (r4, s4)" by (cases "install os False t p s3")
    have "keeps s3 s4"
      unfolding keeps_def
    proof (intro allI impI)
      fix q n assume "not_temp q" "nodes s3 q = Some n"
      then show "nodes s4 q = Some n" using install_other [OF laws(1) 4 t(2) t(1), of q] by simp
    qed
    with k3 have "keeps s s4" by (rule keeps_trans)
    moreover have "nodes (snd (then_st (validate_file_mode os p s4) (\<lambda>_ s. sync_parent_dir os p s)))
        = nodes s4" by (rule nodes_check_installed)
    ultimately show ?thesis using Pair Inr 4 by (cases r4) (auto simp: keeps_def)
  qed
qed

lemma create_atomic_keeps:
  assumes laws: "tempfile_laws os" "not_temp p" "p \<noteq> [46]"
  shows "keeps s (snd (file_create_atomic os p s))"
  unfolding file_create_atomic_def
proof (rule keeps_then_st, goal_cases)
  case 1
  show ?case
    using ensure_parent_grows [of os p s, OF _ laws(3)] grows_keeps by (metis prod.collapse)
next
  case (2 x s1)
  show ?case
  proof (rule keeps_then_st, goal_cases)
    case 1
    show ?case
      using generate_locked_nodes [of os s1] keeps_same keeps_trans 2(2) by (metis prod.collapse)
  next
    case (2 key s2)
    show ?case by (rule keeps_trans [OF 2(2) install_new_keeps [OF laws(1,2)]])
  qed
qed

lemma file_get_or_create_keeps:
  assumes laws: "tempfile_laws os" "not_temp p" "p \<noteq> [46]"
  shows "keeps s (snd (file_get_or_create os p s))"
proof (cases "file_get os p s")
  case (Pair r1 s1)
  have 1: "keeps s s1" using nodes_file_get [of os p s] by (simp add: Pair keeps_same)
  show ?thesis
  proof (cases r1)
    case (Inr k)
    then show ?thesis using 1 Pair by (simp add: file_get_or_create_def)
  next
    case (Inl e)
    have "keeps s (snd (then_st (file_create_atomic os p s1) (\<lambda>_ s. file_get os p s)))"
    proof (rule keeps_then_st)
      show "keeps s (snd (file_create_atomic os p s1))"
        by (rule keeps_trans [OF 1 create_atomic_keeps [OF laws]])
    next
      fix x s2 assume "keeps s s2"
      then show "keeps s (snd (file_get os p s2))"
        using nodes_file_get [of os p s2] by (simp add: keeps_def)
    qed
    then show ?thesis using Pair Inl by (simp add: file_get_or_create_def)
  qed
qed

section \<open>Properties\<close>

text \<open>
  A key in the file store survives: over any sequence of reads and imports without
  \<open>--force\<close>, whichever system calls fail on the way, the key file keeps the key it holds.
\<close>

theorem file_key_survives:
  assumes "tempfile_laws os" "not_temp p" "p \<noteq> [46]"
    and "key_file p s = Some k" "list_all unforced ops"
  shows "key_file p (run_ops (file_get os p) (file_import os p) ops s) = Some k"
proof -
  have "file_key_store os p"
    using assms(1-3) by (intro file_key_store.intro lawful_os.intro file_key_store_axioms.intro)
  then show ?thesis using file_key_store.survives assms(4,5) by blast
qed

lemma file_import_private_parent:
  assumes laws: "tempfile_laws os" "not_temp p" "p \<noteq> [46]" "not_temp (writable_parent p)"
    and run: "file_import os p k force s = (Inr (), s')"
  shows "\<exists>n. nodes s' (writable_parent p) = Some n \<and> node_mode n AND 63 = 0"
proof -
  obtain s1 where 1: "ensure_parent os p s = (Inr (), s1)"
      and 2: "(let (ex, s) = path_exists os p s1
     in if ex \<and> \<not> force then (bail ''master key already exists'', s)
        else store_secret os (writable_parent p) ''.machine.'' k SetCurrentUser force
               (if force then ''failed to install imported master key''
                else ''master key already exists'') p s) = (Inr (), s')"
    using run by (auto simp: file_import_eq res_simps)
  obtain n where n: "nodes s1 (writable_parent p) = Some n" "node_mode n AND 63 = 0"
    using ensure_parent_private [OF 1] by blast
  have "writable_parent p \<noteq> p"
    using writable_parent_shorter [of p] laws(3) by auto
  then have "nodes s' (writable_parent p) = Some n"
    using guarded_store_installs(1) [OF laws(1,2) 2] n laws(4) by (simp add: installs_def)
  with n show ?thesis by blast
qed

text \<open>
  Import, then read: after an import that succeeded, a read whose calls do not fail returns
  the imported key, whatever calls failed before and whatever stood at the path.
\<close>

theorem file_import_then_get:
  assumes "tempfile_laws os" "not_temp p" "p \<noteq> [46]" "not_temp (writable_parent p)"
    and "length k = MASTER_KEY_BYTES" "file_import os p k force s = (Inr (), s')"
    and "\<forall>n\<ge>calls s'. fault os n = None \<and> \<not> alloc_fails os n"
  shows "fst (file_get os p s') = Inr k"
proof -
  have "key_file p s' = Some k"
    using file_import_installs(1) [OF assms(1-3,6)] installs_key_file(1) [OF _ assms(5)] by blast
  moreover obtain n where "nodes s' (writable_parent p) = Some n" "node_mode n AND 63 = 0"
    using file_import_private_parent [OF assms(1-4,6)] by blast
  ultimately show ?thesis using assms(7) by (intro file_get_complete) auto
qed

lemma generate_locked_cases:
  assumes "generate_locked os s = (r, s')"
  shows "nodes s' = nodes s \<and> (\<forall>k. r = Inr k \<longrightarrow> length k = MASTER_KEY_BYTES)"
  using assms
  by (auto simp: generate_locked_def zeroed_locked_def fill_bytes_def bail_def then_st_def
      split: if_splits)

lemma create_atomic_effect:
  assumes "tempfile_laws os" "not_temp p" "p \<noteq> [46]" "file_create_atomic os p s = (r, s')"
  shows "(\<forall>n. nodes s p = Some n \<longrightarrow> nodes s' p = Some n) \<and>
         (nodes s' p = nodes s p \<or>
          (\<exists>k. length k = MASTER_KEY_BYTES \<and> nodes s' p = Some (Reg 384 k)))"
proof -
  have L: "lawful_os os" by (rule lawful_os.intro [OF assms(1)])
  obtain r1 s1 where 1: "ensure_parent os p s = (r1, s1)" by (cases "ensure_parent os p s")
  have g: "nodes s1 p = nodes s p"
    using ensure_parent_grows [OF 1 assms(3)] by (simp add: grows_beside_def)
  obtain r2 s2 where 2: "generate_locked os s1 = (r2, s2)" by (cases "generate_locked os s1")
  have n2: "nodes s2 = nodes s1" using generate_locked_cases [OF 2] by simp
  have "(\<exists>e. r1 = Inl e) \<or> (\<exists>e. r2 = Inl e) \<Longrightarrow> nodes s' p = nodes s p"
    using assms(4) g n2 by (cases r1; cases r2) (auto simp: file_create_atomic_def 1 2)
  moreover have ?thesis if r: "r1 = Inr ()" "r2 = Inr key" for key
  proof -
    have len: "length key = MASTER_KEY_BYTES" using generate_locked_cases [OF 2] r by simp
    obtain r3 s3 where 3: "write_synced_temp_secret_file os (writable_parent p) ''.machine.'' ''.tmp''
        key SetCurrentUser s2 = (r3, s3)" by (metis surj_pair)
    note w = lawful_os.write_synced_cases [OF L 3]
    show ?thesis
    proof (cases r3)
      case (Inl e)
      then have "nodes s' p = nodes s p"
        using assms(2,4) w g n2 r by (auto simp: file_create_atomic_def 1 2 3)
      then show ?thesis by simp
    next
      case (Inr t)
      then have t: "nodes s3 t = Some (Reg 384 key)" "p \<noteq> t" "nodes s3 p = nodes s p"
        using w assms(2) g n2 by auto
      obtain r4 s4 where 4: "install os False t p s3 = (r4, s4)" by (cases "install os False t p s3")
      note i = lawful_os.install_cases [OF L 4 t(2)]
      have "nodes s' = nodes s4"
      proof (cases r4)
        case (Inl e)
        then show ?thesis
          using assms(4) r \<open>r3 = Inr t\<close>
          by (auto simp: file_create_atomic_def 1 2 3 4 split: if_splits)
      next
        case (Inr u)
        then have "(r, s') = then_st (validate_file_mode os p s4) (\<lambda>_ s. sync_parent_dir os p s)"
          using assms(4) r \<open>r3 = Inr t\<close> by (simp add: file_create_atomic_def 1 2 3 4)
        then show ?thesis using nodes_check_installed [of os p s4] by (metis snd_conv)
      qed
      then show ?thesis using i t len by auto
    qed
  qed
  ultimately show ?thesis by (cases r1; cases r2) auto
qed

text \<open>
  First use: \<open>get_or_create\<close> never replaces or changes what stands at the path, be it a good
  key, a corrupt one or a file with loose permissions; the key it returns is the one the file
  then holds; and a file it made holds a whole key with mode 0600.
\<close>

theorem file_get_or_create_safe:
  assumes "tempfile_laws os" "not_temp p" "p \<noteq> [46]"
    and run: "file_get_or_create os p s = (r, s')"
  shows "(case nodes s p of
            Some n \<Rightarrow> nodes s' p = Some n
          | None \<Rightarrow> nodes s' p = None \<or>
              (\<exists>k. length k = MASTER_KEY_BYTES \<and> nodes s' p = Some (Reg 384 k))) \<and>
         (case r of Inl _ \<Rightarrow> True | Inr k \<Rightarrow> key_file p s' = Some k)"
proof -
  obtain r1 s1 where 1: "file_get os p s = (r1, s1)" by (cases "file_get os p s")
  have n1: "nodes s1 = nodes s" using nodes_file_get [of os p s] by (simp add: 1)
  show ?thesis
  proof (cases r1)
    case (Inr k)
    then have "r = Inr k" "s' = s1" using run by (simp_all add: file_get_or_create_def 1)
    then show ?thesis
      using n1 file_get_sound [of os p s k s1] 1 Inr
      by (auto simp: key_file_def split: option.split)
  next
    case (Inl e)
    obtain r2 s2 where 2: "file_create_atomic os p s1 = (r2, s2)" by (cases "file_create_atomic os p s1")
    note c = create_atomic_effect [OF assms(1-3) 2]
    have "nodes s' = nodes s2 \<and> (\<forall>k. r = Inr k \<longrightarrow> key_file p s2 = Some k)"
      using run Inl nodes_file_get [of os p s2] file_get_sound [of os p s2]
      by (cases r2) (auto simp: file_get_or_create_def 1 2)
    then show ?thesis
      using c n1 by (auto simp: key_file_def split: option.splits sum.splits)
  qed
qed

section \<open>Witnesses\<close>

definition sample_key :: bytes where
  "sample_key = replicate MASTER_KEY_BYTES 5"

lemma length_sample_key: "length sample_key = MASTER_KEY_BYTES"
  by (simp add: sample_key_def)

lemma plain_no_faults: "\<forall>n\<ge>m. fault plain_os n = None \<and> \<not> alloc_fails plain_os n"
  by (simp add: plain_os_simps)

definition keyed_fs :: fs where
  "keyed_fs = \<lparr>nodes = [[46] \<mapsto> Dir 448, [100] \<mapsto> Dir 448, sample_path \<mapsto> Reg 384 sample_key], calls = 0\<rparr>"

lemma keyed_fs_key: "key_file sample_path keyed_fs = Some sample_key"
  by (simp add: key_file_def keyed_fs_def length_sample_key)

theorem file_key_survives_witness:
  "key_file sample_path (run_ops (file_get plain_os sample_path) (file_import plain_os sample_path)
     [GetKey, ImportKey (replicate MASTER_KEY_BYTES 6) False, GetKey] keyed_fs) = Some sample_key"
  by (rule file_key_survives [OF plain_laws _ _ keyed_fs_key])
     (simp_all add: sample_path_simps unforced_def)

lemma collect_missing_numeral:
  "collect_missing (numeral n) os current missing s =
     (case path_exists os current s of
        (True, s) \<Rightarrow> (Inr missing, s)
      | (False, s) \<Rightarrow> collect_missing (pred_numeral n) os (writable_parent current) (missing @ [current]) s)"
  by (simp add: numeral_eq_Suc)

lemmas parent_eval = ensure_parent_def ensure_secret_parent_directory_def collect_missing_numeral
  create_missing_dir_def

lemma sample_file_import: "fst (file_import plain_os sample_path sample_key False plain_fs) = Inr ()"
  by (simp add: file_import_def parent_eval fs_eval sample_path_def path_join_def as_bytes_Cons)

lemma sample_parent_not_temp: "not_temp (writable_parent sample_path)"
  by (simp add: sample_path_simps not_temp_def as_bytes_Cons)

theorem file_import_then_get_witness:
  "let (r, s') = file_import plain_os sample_path sample_key False plain_fs
   in fst (file_get plain_os sample_path s') = Inr sample_key"
proof (cases "file_import plain_os sample_path sample_key False plain_fs")
  case (Pair r s')
  have "file_import plain_os sample_path sample_key False plain_fs = (Inr (), s')"
    using Pair sample_file_import by simp
  from file_import_then_get [OF plain_laws sample_path_simps(1,2) sample_parent_not_temp
      length_sample_key this plain_no_faults]
  show ?thesis by (simp add: Pair)
qed

lemma sample_get_or_create: "is_ok (fst (file_get_or_create plain_os sample_path plain_fs))"
  by (simp add: file_get_or_create_def file_create_atomic_def file_get_def generate_locked_def
      zeroed_locked_def fill_bytes_def MASTER_KEY_BYTES_def
      parent_eval fs_eval sample_path_def path_join_def as_bytes_Cons)

theorem file_get_or_create_safe_witness:
  "let (r, s') = file_get_or_create plain_os sample_path plain_fs
   in is_ok r \<and> (\<exists>k. nodes s' sample_path = Some (Reg 384 k))"
proof (cases "file_get_or_create plain_os sample_path plain_fs")
  case (Pair r s')
  note safe = file_get_or_create_safe [OF plain_laws sample_path_simps(1,2) Pair]
  obtain k where r: "r = Inr k" using sample_get_or_create by (auto simp: Pair is_ok_iff)
  have none: "nodes plain_fs sample_path = None" by (simp add: plain_fs_def sample_path_def)
  have "nodes s' sample_path \<noteq> None"
    using safe r by (cases "nodes s' sample_path") (auto simp: key_file_def)
  then show ?thesis using safe none r by (auto simp: Pair)
qed

end
