(* ===== verification/PassphraseStore.thy ===== *)
theory PassphraseStore
  imports Envelope FileStore
begin

text \<open>
  The passphrase-wrapped file store of \<open>crates/avault-store/src/lib.rs\<close>: the crate's own copies of
  the cryptographic helpers, the wrapping and unwrapping of a master key, and
  \<open>PassphraseFileStore\<close>. The packages are those of \<open>Envelope\<close>, with the derived JSON form of
  \<open>PassphraseMasterBlob\<close>.
\<close>

section \<open>The helpers of the store crate\<close>

(* SRC store encrypt_with_key *)
definition store_encrypt_with_key ::
    "'e core_env_scheme \<Rightarrow> bytes \<Rightarrow> bytes \<Rightarrow> bytes \<Rightarrow> bytes \<Rightarrow> bytes res" where
  "store_encrypt_with_key E key nonce plaintext associated =
     ok_or ''encryption failed'' (aes_encrypt E key nonce plaintext associated)"

(* SRC store decrypt_with_key *)
definition store_decrypt_with_key ::
    "'e core_env_scheme \<Rightarrow> bytes \<Rightarrow> bytes \<Rightarrow> bytes \<Rightarrow> bytes \<Rightarrow> bytes res" where
  "store_decrypt_with_key E key nonce ciphertext associated =
     ok_or ''authentication failed'' (aes_decrypt E key nonce ciphertext associated)"

(* SRC store b64 *)
definition store_b64 :: "'e core_env_scheme \<Rightarrow> bytes \<Rightarrow> string" where
  "store_b64 E raw = base64_encode E raw"

(* SRC store unb64 *)
definition store_unb64 :: "'e core_env_scheme \<Rightarrow> string \<Rightarrow> string \<Rightarrow> bytes res" where
  "store_unb64 E text field =
     with_context (field @ '' is not valid base64'') (lib_res ''base64'' (base64_decode E text))"

(* SRC store decode_nonce *)
definition store_decode_nonce :: "'e core_env_scheme \<Rightarrow> string \<Rightarrow> string \<Rightarrow> bytes res" where
  "store_decode_nonce E text field =
     and_then (store_unb64 E text field) (\<lambda>raw.
       if length raw \<noteq> 12 then bail (field @ '' has invalid length'') else Inr raw)"

(* SRC store validate_passphrase *)
definition validate_passphrase :: "bytes \<Rightarrow> unit res" where
  "validate_passphrase passphrase =
     (if passphrase = [] then bail ''a non-empty passphrase is required'' else Inr ())"

(* SRC store validate_scrypt_params *)
definition store_validate_scrypt_params :: "u32 \<Rightarrow> u32 \<Rightarrow> u32 \<Rightarrow> unit res" where
  "store_validate_scrypt_params n r p =
     (if n < 2 \<or> \<not> is_power_of_two n \<or> n > push_bit 17 1 then bail ''scrypt N out of bounds''
      else if \<not> (1 \<le> r \<and> r \<le> 16) then bail ''scrypt r out of bounds''
      else if \<not> (1 \<le> p \<and> p \<le> 16) then bail ''scrypt p out of bounds''
      else Inr ())"

(* SRC store derive_kek_scrypt *)
definition store_derive_kek_scrypt ::
    "'e core_env_scheme \<Rightarrow> bytes \<Rightarrow> bytes \<Rightarrow> u32 \<Rightarrow> u32 \<Rightarrow> u32 \<Rightarrow> bytes res" where
  "store_derive_kek_scrypt E passphrase salt n r p =
     and_then (store_validate_scrypt_params n r p) (\<lambda>_.
     and_then (ok_or ''invalid scrypt N'' (checked_ilog2 n)) (\<lambda>log_n.
     if \<not> scrypt_params_new E (log_n mod 256) r p MASTER_KEY_BYTES
     then Inl [Msg ''invalid scrypt parameters'', Lib ''scrypt'']
     else with_context ''scrypt derivation failed''
            (lib_res ''scrypt'' (scrypt_kdf E (log_n mod 256) r p passphrase salt))))"

text \<open>The two crates agree on every helper, so what holds of the one holds of the other.\<close>

lemma store_helpers_are_core:
  "store_encrypt_with_key = encrypt_with_key" "store_decrypt_with_key = decrypt_with_key"
  "store_b64 = b64" "store_unb64 = unb64" "store_decode_nonce = decode_nonce"
  "store_validate_scrypt_params = validate_scrypt_params"
  "store_derive_kek_scrypt = derive_kek_scrypt"
proof -
  show 1: "store_unb64 = unb64" "store_validate_scrypt_params = validate_scrypt_params"
    by (intro ext; simp add: store_unb64_def unb64_def store_validate_scrypt_params_def
        validate_scrypt_params_def)+
  show "store_encrypt_with_key = encrypt_with_key" "store_decrypt_with_key = decrypt_with_key"
    "store_b64 = b64"
    by (intro ext; simp add: store_encrypt_with_key_def encrypt_with_key_def
        store_decrypt_with_key_def decrypt_with_key_def store_b64_def b64_def)+
  show "store_decode_nonce = decode_nonce" "store_derive_kek_scrypt = derive_kek_scrypt"
    by (intro ext; simp add: store_decode_nonce_def decode_nonce_def 1 NONCE_BYTES_def
        store_derive_kek_scrypt_def derive_kek_scrypt_def KEY_BYTES_def MASTER_KEY_BYTES_def)+
qed

section \<open>Wrapping\<close>

(* SRC store PassphraseMasterBlob *)
record passphrase_blob =
  pb_scheme :: string
  pb_kdf :: string
  pb_n :: u32
  pb_r :: u32
  pb_p :: u32
  pb_salt :: string
  pb_nonce :: string
  pb_wrapped_master :: string

record store_env = core_env +
  blob_to_vec :: "passphrase_blob \<Rightarrow> bytes option"
  blob_from_slice :: "bytes \<Rightarrow> passphrase_blob option"

(* SRC store wrap_passphrase_master *)
definition wrap_passphrase_master ::
    "'e store_env_scheme \<Rightarrow> 'o os_scheme \<Rightarrow> bytes \<Rightarrow> bytes \<Rightarrow> fs \<Rightarrow> passphrase_blob res \<times> fs" where
  "wrap_passphrase_master E os master_key passphrase s =
     then_st (validate_passphrase passphrase, s) (\<lambda>_ s.
     let (salt, s) = fill_bytes os 16 s
     in then_st (store_derive_kek_scrypt E passphrase salt SCRYPT_N SCRYPT_R SCRYPT_P, s) (\<lambda>kek s.
        let (nonce, s) = fill_bytes os 12 s
        in then_st (store_encrypt_with_key E kek nonce master_key [], s) (\<lambda>wrapped s.
           (Inr \<lparr>pb_scheme = PASSPHRASE_STORE_SCHEME, pb_kdf = ''scrypt'', pb_n = SCRYPT_N,
                 pb_r = SCRYPT_R, pb_p = SCRYPT_P, pb_salt = store_b64 E salt,
                 pb_nonce = store_b64 E nonce, pb_wrapped_master = store_b64 E wrapped\<rparr>, s))))"

(* SRC store unwrap_passphrase_master *)
definition unwrap_passphrase_master ::
    "'e core_env_scheme \<Rightarrow> passphrase_blob \<Rightarrow> bytes \<Rightarrow> bytes res" where
  "unwrap_passphrase_master E blob passphrase =
     and_then (validate_passphrase passphrase) (\<lambda>_.
     if pb_scheme blob \<noteq> PASSPHRASE_STORE_SCHEME \<or> pb_kdf blob \<noteq> ''scrypt''
     then bail ''unrecognized passphrase master key''
     else and_then (store_validate_scrypt_params (pb_n blob) (pb_r blob) (pb_p blob)) (\<lambda>_.
          and_then (store_unb64 E (pb_salt blob) ''salt'') (\<lambda>salt.
          and_then (store_decode_nonce E (pb_nonce blob) ''nonce'') (\<lambda>nonce.
          and_then (store_unb64 E (pb_wrapped_master blob) ''wrapped_master'') (\<lambda>wrapped.
          and_then (store_derive_kek_scrypt E passphrase salt (pb_n blob) (pb_r blob) (pb_p blob)) (\<lambda>kek.
          and_then (with_context ''passphrase unlock failed''
                     (store_decrypt_with_key E kek nonce wrapped [])) (\<lambda>key.
          if length key \<noteq> MASTER_KEY_BYTES then bail ''unlocked master key has invalid length''
          else Inr key)))))))"

section \<open>The store\<close>

(* SRC store PassphraseFileStore::ensure_parent *)
definition passphrase_ensure_parent :: "'o os_scheme \<Rightarrow> path \<Rightarrow> fs \<Rightarrow> unit res \<times> fs" where
  "passphrase_ensure_parent os p s =
     (let parent = writable_parent p
      in then_st (ensure_secret_parent_directory os parent s) (\<lambda>_ s.
         validate_directory_mode os parent s))"

(* SRC store PassphraseFileStore::get *)
definition passphrase_get ::
    "'e store_env_scheme \<Rightarrow> 'o os_scheme \<Rightarrow> path \<Rightarrow> bytes \<Rightarrow> fs \<Rightarrow> master_key res \<times> fs" where
  "passphrase_get E os p passphrase s =
     then_st (validate_passphrase passphrase, s) (\<lambda>_ s.
     then_st (validate_parent_directory_mode os p s) (\<lambda>_ s.
     then_st (validate_file_mode os p s) (\<lambda>_ s.
     then_st (context_st ''passphrase master key not found'' (fs_read os p s)) (\<lambda>bs s.
     then_st (with_context ''passphrase master key JSON is invalid''
                (lib_res ''serde_json'' (blob_from_slice E bs)), s) (\<lambda>blob s.
     then_st (unwrap_passphrase_master E blob passphrase, s) (\<lambda>key s.
     context_st ''failed to lock unlocked master key'' (from_bytes os key s)))))))"

(* SRC store PassphraseFileStore::import *)
definition passphrase_import ::
    "'e store_env_scheme \<Rightarrow> 'o os_scheme \<Rightarrow> path \<Rightarrow> bytes \<Rightarrow> bytes \<Rightarrow> bool \<Rightarrow> fs \<Rightarrow> unit res \<times> fs" where
  "passphrase_import E os p passphrase key force s =
     then_st (validate_passphrase passphrase, s) (\<lambda>_ s.
     then_st (passphrase_ensure_parent os p s) (\<lambda>_ s.
     let (ex, s) = path_exists os p s
     in if ex \<and> \<not> force then (bail ''passphrase master key already exists'', s)
        else then_st (wrap_passphrase_master E os key passphrase s) (\<lambda>blob s.
             then_st (with_context ''failed to encode passphrase store''
                        (lib_res ''serde_json'' (blob_to_vec E blob)), s) (\<lambda>bs s.
             then_st (write_synced_temp_secret_file os (writable_parent p) ''.machine-passphrase.''
                        ''.tmp'' bs SetCurrentUser s) (\<lambda>tmp s.
             then_st (if force
                then context_st ''failed to install passphrase master key'' (install os True tmp p s)
                else context_st ''passphrase master key already exists'' (install os False tmp p s))
               (\<lambda>_ s.
             then_st (validate_file_mode os p s) (\<lambda>_ s.
             sync_parent_dir os p s)))))))"

(* SRC store PassphraseFileStore::create_atomic *)
definition passphrase_create_atomic ::
    "'e store_env_scheme \<Rightarrow> 'o os_scheme \<Rightarrow> path \<Rightarrow> bytes \<Rightarrow> fs \<Rightarrow> unit res \<times> fs" where
  "passphrase_create_atomic E os p passphrase s =
     then_st (validate_passphrase passphrase, s) (\<lambda>_ s.
     then_st (passphrase_ensure_parent os p s) (\<lambda>_ s.
     then_st (generate_locked os s) (\<lambda>key s.
     then_st (wrap_passphrase_master E os key passphrase s) (\<lambda>blob s.
     then_st (with_context ''failed to encode passphrase store''
                (lib_res ''serde_json'' (blob_to_vec E blob)), s) (\<lambda>bs s.
     then_st (write_synced_temp_secret_file os (writable_parent p) ''.machine-passphrase.''
                ''.tmp'' bs SetCurrentUser s) (\<lambda>tmp s.
     case install os False tmp p s of
       (Inr _, s) \<Rightarrow> then_st (validate_file_mode os p s) (\<lambda>_ s. sync_parent_dir os p s)
     | (Inl e, s) \<Rightarrow>
         if e = [Io AlreadyExists] then (Inr (), s)
         else (Inl (Msg ''failed to install passphrase master key'' # e), s)))))))"

(* SRC store PassphraseFileStore::get_or_create *)
definition passphrase_get_or_create ::
    "'e store_env_scheme \<Rightarrow> 'o os_scheme \<Rightarrow> path \<Rightarrow> bytes \<Rightarrow> fs \<Rightarrow> master_key res \<times> fs" where
  "passphrase_get_or_create E os p passphrase s =
     (case passphrase_get E os p passphrase s of
        (Inr key, s) \<Rightarrow> (Inr key, s)
      | (Inl _, s) \<Rightarrow> then_st (passphrase_create_atomic E os p passphrase s) (\<lambda>_ s.
                       passphrase_get E os p passphrase s))"

(* SRC store load_or_create_passphrase_master_key *)
definition load_or_create_passphrase_master_key ::
    "'e store_env_scheme \<Rightarrow> 'o os_scheme \<Rightarrow> environment \<Rightarrow> bytes \<Rightarrow> fs \<Rightarrow> master_key res \<times> fs" where
  "load_or_create_passphrase_master_key E os env passphrase s =
     then_st (default_passphrase_master_key_path env, s) (\<lambda>p s.
     passphrase_get_or_create E os p passphrase s)"

(* SRC store load_passphrase_master_key *)
definition load_passphrase_master_key ::
    "'e store_env_scheme \<Rightarrow> 'o os_scheme \<Rightarrow> environment \<Rightarrow> bytes \<Rightarrow> fs \<Rightarrow> master_key res \<times> fs" where
  "load_passphrase_master_key E os env passphrase s =
     then_st (default_passphrase_master_key_path env, s) (\<lambda>p s.
     passphrase_get E os p passphrase s)"

section \<open>What the store keeps\<close>

definition blob_json_correct :: "'e store_env_scheme \<Rightarrow> bool" where
  "blob_json_correct E \<longleftrightarrow> (\<forall>b v. blob_to_vec E b = Some v \<longrightarrow> blob_from_slice E v = Some b)"

text \<open>The key a passphrase opens in the file.\<close>

definition wrapped_key :: "'e store_env_scheme \<Rightarrow> bytes \<Rightarrow> path \<Rightarrow> fs \<Rightarrow> bytes option" where
  "wrapped_key E passphrase p s = (case nodes s p of
       Some (Reg m bs) \<Rightarrow>
         if m AND 63 = 0
         then (case blob_from_slice E bs of
             None \<Rightarrow> None
           | Some blob \<Rightarrow> (case unwrap_passphrase_master E blob passphrase of
                 Inl _ \<Rightarrow> None | Inr k \<Rightarrow> Some k))
         else None
     | _ \<Rightarrow> None)"

lemma wrapped_key_cong: "nodes s' p = nodes s p \<Longrightarrow> wrapped_key E pw p s' = wrapped_key E pw p s"
  by (simp add: wrapped_key_def)

lemma wrap_then_unwrap:
  assumes "aead_correct E" "base64_correct E" "length k = MASTER_KEY_BYTES"
    and wrapped: "wrap_passphrase_master E os k pw s = (Inr blob, s')"
  shows "unwrap_passphrase_master E blob pw = Inr k \<and> nodes s' = nodes s"
proof -
  have b64: "base64_decode E (base64_encode E x) = Some x" for x
    using assms(2) by (simp add: base64_correct_def)
  define salt where "salt = map (rng os (calls s)) [0..<16]"
  define nonce where "nonce = map (rng os (Suc (calls s))) [0..<12]"
  have pw: "pw \<noteq> []"
    using wrapped by (auto simp: wrap_passphrase_master_def validate_passphrase_def)
  obtain kek c where kek: "derive_kek_scrypt E pw salt SCRYPT_N SCRYPT_R SCRYPT_P = Inr kek"
    and c: "aes_encrypt E kek nonce k [] = Some c"
    and blob: "blob = \<lparr>pb_scheme = PASSPHRASE_STORE_SCHEME, pb_kdf = ''scrypt'', pb_n = SCRYPT_N,
                 pb_r = SCRYPT_R, pb_p = SCRYPT_P, pb_salt = base64_encode E salt,
                 pb_nonce = base64_encode E nonce, pb_wrapped_master = base64_encode E c\<rparr>"
    and s': "nodes s' = nodes s"
    using wrapped
    by (auto simp: wrap_passphrase_master_def fill_bytes_def Let_def store_helpers_are_core b64_def
        salt_def [symmetric] nonce_def [symmetric] then_st_eq_Inr encrypt_with_key_eq_Inr)
  have "aes_decrypt E kek nonce c [] = Some k" using c assms(1) by (simp add: aead_correct_def)
  moreover have "length nonce = NONCE_BYTES" by (simp add: nonce_def NONCE_BYTES_def)
  moreover have "validate_scrypt_params SCRYPT_N SCRYPT_R SCRYPT_P = Inr ()"
    using kek by (auto simp: derive_kek_scrypt_def res_simps)
  ultimately show ?thesis
    using kek pw assms(3) s'
    by (simp add: unwrap_passphrase_master_def blob store_helpers_are_core validate_passphrase_def
        unb64_def decode_nonce_def b64 decrypt_with_key_def)
qed

lemma passphrase_ensure_parent_eq: "passphrase_ensure_parent = ensure_parent"
  by (intro ext) (simp add: passphrase_ensure_parent_def ensure_parent_def)

lemma wrap_nodes: "nodes (snd (wrap_passphrase_master E os k pw s)) = nodes s"
  unfolding wrap_passphrase_master_def fill_bytes_def Let_def prod.case
  by (intro nodes_then_st) simp_all

text \<open>
  An import either leaves the node at the path alone and fails, or hands the encoded blob of a
  wrapping of the key to the shared tail of the stores.
\<close>

lemma passphrase_import_split:
  assumes not_cwd: "p \<noteq> [46]"
    and run: "passphrase_import E os p pw k force s = (r, s')"
  shows "(nodes s' p = nodes s p \<and> (\<exists>e. r = Inl e)) \<or>
         (\<exists>m s1 s2 blob bs s3. ensure_parent os p s = (Inr (), s1) \<and> nodes s3 = nodes s1 \<and> nodes s3 p = nodes s p \<and>
            wrap_passphrase_master E os k pw s2 = (Inr blob, s3) \<and> blob_to_vec E blob = Some bs \<and>
            store_secret os (writable_parent p) ''.machine-passphrase.'' bs SetCurrentUser force m p s3
              = (r, s'))"
proof -
  obtain r1 s1 where 1: "ensure_parent os p s = (r1, s1)" by (cases "ensure_parent os p s")
  have n1: "nodes s1 p = nodes s p"
    using ensure_parent_grows [OF 1 not_cwd] by (simp add: grows_beside_def)
  obtain ex s2 where 2: "path_exists os p s1 = (ex, s2)" by (cases "path_exists os p s1")
  have n2: "nodes s2 = nodes s1" using nodes_path_exists [of os p s1] by (simp add: 2)
  obtain r3 s3 where 3: "wrap_passphrase_master E os k pw s2 = (r3, s3)"
    by (cases "wrap_passphrase_master E os k pw s2")
  have n13: "nodes s3 = nodes s1"
    using wrap_nodes [of E os k pw s2] n2 by (simp add: 3)
  have n3: "nodes s3 p = nodes s p" using n13 n1 by simp
  consider (refused) "pw = [] \<or> (\<exists>e. r1 = Inl e) \<or> ex \<and> \<not> force \<or> (\<exists>e. r3 = Inl e)
      \<or> (\<exists>blob. r3 = Inr blob \<and> blob_to_vec E blob = None)"
    | (store) blob bs where "pw \<noteq> []" "r1 = Inr ()" "\<not> (ex \<and> \<not> force)" "r3 = Inr blob"
      "blob_to_vec E blob = Some bs"
    by (cases r1; cases r3) auto
  then show ?thesis
  proof cases
    case refused
    have "nodes s' p = nodes s p \<and> (\<exists>e. r = Inl e)"
      using run refused n1 n2 n3
      by (cases r1; cases r3; cases "pw = []"; cases "ex \<and> \<not> force")
         (auto simp: passphrase_import_def passphrase_ensure_parent_eq validate_passphrase_def 1 2 3
           bail_def)
    then show ?thesis by simp
  next
    case store
    have "store_secret os (writable_parent p) ''.machine-passphrase.'' bs SetCurrentUser force
        (if force then ''failed to install passphrase master key''
         else ''passphrase master key already exists'') p s3 = (r, s')"
      using run store
      by (cases force)
         (simp_all add: passphrase_import_def passphrase_ensure_parent_eq validate_passphrase_def
           1 2 3 store_secret_def)
    with store(4,5) 3 n3 n13 1 store(2) show ?thesis by blast
  qed
qed

lemma passphrase_import_keeps:
  assumes laws: "tempfile_laws os" "not_temp p" "p \<noteq> [46]"
    and run: "passphrase_import E os p pw k False s = (r, s')" and occ: "nodes s p \<noteq> None"
  shows "nodes s' p = nodes s p \<and> (\<exists>e. r = Inl e)"
  using passphrase_import_split [OF laws(3) run]
proof
  assume "\<exists>m s1 s2 blob bs s3. ensure_parent os p s = (Inr (), s1) \<and> nodes s3 = nodes s1 \<and> nodes s3 p = nodes s p \<and>
            wrap_passphrase_master E os k pw s2 = (Inr blob, s3) \<and> blob_to_vec E blob = Some bs \<and>
            store_secret os (writable_parent p) ''.machine-passphrase.'' bs SetCurrentUser False m p s3
              = (r, s')"
  then show ?thesis using store_secret_installs(2) [OF laws(1,2)] occ by metis
qed simp

lemma passphrase_import_cases:
  assumes laws: "tempfile_laws os" "not_temp p" "p \<noteq> [46]"
    and pkg: "aead_correct E" "base64_correct E" "blob_json_correct E"
    and len: "length k = MASTER_KEY_BYTES"
    and run: "passphrase_import E os p pw k force s = (r, s')"
  shows "(nodes s' p = nodes s p \<and> (\<exists>e. r = Inl e)) \<or> wrapped_key E pw p s' = Some k"
  using passphrase_import_split [OF laws(3) run]
proof
  assume "\<exists>m s1 s2 blob bs s3. ensure_parent os p s = (Inr (), s1) \<and> nodes s3 = nodes s1 \<and> nodes s3 p = nodes s p \<and>
            wrap_passphrase_master E os k pw s2 = (Inr blob, s3) \<and> blob_to_vec E blob = Some bs \<and>
            store_secret os (writable_parent p) ''.machine-passphrase.'' bs SetCurrentUser force m p s3
              = (r, s')"
  then obtain m s2 blob bs s3 where n3: "nodes s3 p = nodes s p"
      and w: "wrap_passphrase_master E os k pw s2 = (Inr blob, s3)" "blob_to_vec E blob = Some bs"
      and st: "store_secret os (writable_parent p) ''.machine-passphrase.'' bs SetCurrentUser force m p s3
              = (r, s')"
    by blast
  have opens: "unwrap_passphrase_master E blob pw = Inr k" "blob_from_slice E bs = Some blob"
    using wrap_then_unwrap [OF pkg(1,2) len w(1)] w(2) pkg(3) by (auto simp: blob_json_correct_def)
  show ?thesis
    using store_secret_installs(1) [OF laws(1,2) st] n3
    by (cases r) (auto simp: installs_def wrapped_key_def opens)
qed simp

lemma nodes_passphrase_get: "nodes (snd (passphrase_get E os p pw s)) = nodes s"
  unfolding passphrase_get_def
  by (intro nodes_then_st) (simp_all add: frame_simps from_bytes_def nodes_then_st)

lemma passphrase_get_sound:
  assumes "passphrase_get E os p pw s = (Inr k, s')"
  shows "wrapped_key E pw p s = Some k"
proof -
  obtain s1 s2 bs s3 blob
    where 1: "validate_parent_directory_mode os p s = (Inr (), s1)"
      and 2: "validate_file_mode os p s1 = (Inr (), s2)"
      and 3: "fs_read os p s2 = (Inr bs, s3)"
      and blob: "blob_from_slice E bs = Some blob" "unwrap_passphrase_master E blob pw = Inr k"
    using assms unfolding passphrase_get_def
    by (auto simp: then_st_eq_Inr context_st_eq_Inr with_context_eq_Inr lib_res_eq_Inr from_bytes_def)
  have n: "nodes s2 = nodes s"
    using validate_parent_step [OF 1] validate_file_mode_step [OF 2] by simp
  obtain g s4 where open_p: "file_open os p s2 = (Inr g, s4)"
      and read: "(case g of Reg _ c \<Rightarrow> read_at os g 0 (length c) s4 | _ \<Rightarrow> read_at os g 0 0 s4) = (Inr bs, s3)"
    using 3 by (auto simp: fs_read_def then_st_eq_Inr)
  have g: "nodes s p = Some g" using file_open_Inr [OF open_p] n by simp
  obtain m where f: "nodes s p = Some (Reg m bs)"
    using read g by (cases g) (auto dest!: read_at_Inr)
  moreover have "m AND 63 = 0"
    using validate_file_mode_Inr [OF 2] f validate_parent_step [OF 1] by simp
  ultimately show ?thesis using blob by (simp add: wrapped_key_def)
qed

lemma passphrase_get_complete:
  assumes "\<And>n. calls s \<le> n \<Longrightarrow> fault os n = None" "\<And>n. calls s \<le> n \<Longrightarrow> \<not> alloc_fails os n"
    and key: "wrapped_key E pw p s = Some k"
    and dir: "nodes s (writable_parent p) = Some n" "node_mode n AND 63 = 0"
  shows "fst (passphrase_get E os p pw s) = Inr k"
proof -
  obtain m bs blob where "nodes s p = Some (Reg m bs)" "m AND 63 = 0" "blob_from_slice E bs = Some blob"
      and u: "unwrap_passphrase_master E blob pw = Inr k"
    using key by (auto simp: wrapped_key_def split: option.splits node.splits if_splits sum.splits)
  moreover have "pw \<noteq> []" using u by (auto simp: unwrap_passphrase_master_def validate_passphrase_def)
  ultimately show ?thesis
    using assms(1,2) dir
    by (simp add: passphrase_get_def validate_passphrase_def validate_parent_directory_mode_def
        validate_directory_mode_def validate_file_mode_def metadata_mode_def fs_read_def file_open_def
        read_at_def syscall_def from_bytes_def zeroed_locked_def mode_private Let_def)
qed

lemma passphrase_import_private_parent:
  assumes laws: "tempfile_laws os" "not_temp p" "p \<noteq> [46]" "not_temp (writable_parent p)"
    and run: "passphrase_import E os p pw k force s = (Inr (), s')"
  shows "\<exists>n. nodes s' (writable_parent p) = Some n \<and> node_mode n AND 63 = 0"
proof -
  obtain m s1 bs s3 where 1: "ensure_parent os p s = (Inr (), s1)" and s3: "nodes s3 = nodes s1"
      and 4: "store_secret os (writable_parent p) ''.machine-passphrase.'' bs SetCurrentUser force m p s3
              = (Inr (), s')"
    using passphrase_import_split [OF laws(3) run] by auto
  obtain n where n: "nodes s1 (writable_parent p) = Some n" "node_mode n AND 63 = 0"
    using ensure_parent_private [OF 1] by blast
  have "writable_parent p \<noteq> p"
    using writable_parent_shorter [of p] laws(3) by auto
  then have "nodes s' (writable_parent p) = Some n"
    using store_secret_installs(1) [OF laws(1,2) 4] n laws(4) s3 by (simp add: installs_def)
  with n show ?thesis by blast
qed

locale passphrase_key_store = file_key_store os p for os :: "'o os_scheme" and p +
  fixes E :: "'e store_env_scheme" and pw :: bytes
  assumes packages: "aead_correct E" "base64_correct E" "blob_json_correct E"

sublocale passphrase_key_store \<subseteq> wrapped: key_store "passphrase_get E os p pw"
    "passphrase_import E os p pw" "wrapped_key E pw p" "\<lambda>s. nodes s p \<noteq> None"
proof
  fix s k assume "wrapped_key E pw p s = Some k"
  then show "nodes s p \<noteq> None" by (auto simp: wrapped_key_def split: option.splits)
next
  fix s r s' assume "passphrase_get E os p pw s = (r, s')"
  then have "nodes s' = nodes s" using nodes_passphrase_get [of E os p pw s] by simp
  then show "wrapped_key E pw p s' = wrapped_key E pw p s \<and> (nodes s' p \<noteq> None) = (nodes s p \<noteq> None)"
    by (simp add: wrapped_key_def)
next
  fix s k s' assume "passphrase_get E os p pw s = (Inr k, s')"
  then show "wrapped_key E pw p s = Some k" by (rule passphrase_get_sound)
next
  fix k force s s'
  assume "length k = MASTER_KEY_BYTES" "passphrase_import E os p pw k force s = (Inr (), s')"
  from passphrase_import_cases [OF laws not_temp_p not_cwd packages this]
  show "wrapped_key E pw p s' = Some k" by auto
next
  fix k force s e s'
  assume "length k = MASTER_KEY_BYTES" "passphrase_import E os p pw k force s = (Inl e, s')"
  from passphrase_import_cases [OF laws not_temp_p not_cwd packages this]
  show "wrapped_key E pw p s' = wrapped_key E pw p s \<or> wrapped_key E pw p s' = Some k"
    by (auto dest: wrapped_key_cong)
next
  fix s k r2 s' assume occ: "nodes s p \<noteq> None" and run: "passphrase_import E os p pw k False s = (r2, s')"
  have "nodes s' p = nodes s p \<and> (\<exists>e. r2 = Inl e)"
    using passphrase_import_keeps [OF laws not_temp_p not_cwd run occ] by simp
  then show "wrapped_key E pw p s' = wrapped_key E pw p s \<and> nodes s' p \<noteq> None \<and> (\<exists>e. r2 = Inl e)"
    using occ wrapped_key_cong by metis
qed

section \<open>Properties\<close>

text \<open>
  The passphrase store gives the key back: after an import that succeeded, a read with the
  same passphrase whose calls do not fail unlocks exactly the imported key, whatever failed
  before; and a later import without \<open>--force\<close> is refused and leaves it in place.
\<close>

theorem passphrase_import_then_get:
  assumes laws: "tempfile_laws os" "not_temp p" "p \<noteq> [46]" "not_temp (writable_parent p)"
    and pkg: "aead_correct E" "base64_correct E" "blob_json_correct E"
    and len: "length k = MASTER_KEY_BYTES"
    and run: "passphrase_import E os p pw k force s = (Inr (), s')"
    and quiet: "\<forall>n\<ge>calls s'. fault os n = None \<and> \<not> alloc_fails os n"
  shows "fst (passphrase_get E os p pw s') = Inr k \<and>
         wrapped_key E pw p (snd (passphrase_import E os p pw k2 False s')) = Some k"
proof -
  have key: "wrapped_key E pw p s' = Some k"
    using passphrase_import_cases [OF laws(1-3) pkg len run] by auto
  then have occ: "nodes s' p \<noteq> None" by (auto simp: wrapped_key_def split: option.splits)
  obtain r2 s2 where 2: "passphrase_import E os p pw k2 False s' = (r2, s2)"
    by (cases "passphrase_import E os p pw k2 False s'")
  have "wrapped_key E pw p s2 = Some k"
    using passphrase_import_keeps [OF laws(1-3) 2 occ] key wrapped_key_cong [of s2 p s' E pw] by simp
  moreover obtain n where "nodes s' (writable_parent p) = Some n" "node_mode n AND 63 = 0"
    using passphrase_import_private_parent [OF laws run] by blast
  ultimately show ?thesis
    using key quiet by (auto simp: 2 intro!: passphrase_get_complete)
qed

text \<open>A concrete JSON form: the fields printed one after the other.\<close>

definition sample_u32 :: "u32 \<Rightarrow> string" where
  "sample_u32 n = string_of (be32 (unat n))"

definition sample_blob_to_vec :: "passphrase_blob \<Rightarrow> bytes option" where
  "sample_blob_to_vec b = Some (as_bytes (concat (map sample_str
     [pb_scheme b, pb_kdf b, sample_u32 (pb_n b), sample_u32 (pb_r b), sample_u32 (pb_p b),
      pb_salt b, pb_nonce b, pb_wrapped_master b])))"

primrec sample_strings :: "nat \<Rightarrow> string \<Rightarrow> string list option" where
  "sample_strings 0 t = Some []"
| "sample_strings (Suc n) t = (case sample_unstr t of
       None \<Rightarrow> None
     | Some (s, rest) \<Rightarrow> map_option (\<lambda>ss. s # ss) (sample_strings n rest))"

definition sample_unu32 :: "string \<Rightarrow> u32" where
  "sample_unu32 s = of_nat (be_value (as_bytes s))"

definition sample_blob_from_slice :: "bytes \<Rightarrow> passphrase_blob option" where
  "sample_blob_from_slice v = (case sample_strings 8 (string_of v) of
       Some [a, b, c, d, e, f, g, h] \<Rightarrow>
         Some \<lparr>pb_scheme = a, pb_kdf = b, pb_n = sample_unu32 c, pb_r = sample_unu32 d,
               pb_p = sample_unu32 e, pb_salt = f, pb_nonce = g, pb_wrapped_master = h\<rparr>
     | _ \<Rightarrow> None)"

definition sample_store :: store_env where
  "sample_store = core_env.extend sample_core
     \<lparr>blob_to_vec = sample_blob_to_vec, blob_from_slice = sample_blob_from_slice\<rparr>"

lemma sample_unu32_u32 [simp]: "sample_unu32 (sample_u32 n) = n"
  by (simp add: sample_unu32_def sample_u32_def be_value_be32 [OF unat_u32_less])

lemma sample_strings_concat: "sample_strings (length ss) (concat (map sample_str ss)) = Some ss"
  by (induction ss) simp_all

lemma sample_store_packages:
  "aead_correct sample_store" "base64_correct sample_store" "blob_json_correct sample_store"
proof -
  show "aead_correct sample_store" "base64_correct sample_store"
    using sample_aead sample_base64
    by (simp_all add: aead_correct_def base64_correct_def sample_store_def core_env.defs sample_core_def)
  have "sample_blob_from_slice v = Some b" if v: "sample_blob_to_vec b = Some v" for b v
  proof -
    define ss where "ss = [pb_scheme b, pb_kdf b, sample_u32 (pb_n b), sample_u32 (pb_r b),
      sample_u32 (pb_p b), pb_salt b, pb_nonce b, pb_wrapped_master b]"
    have "v = as_bytes (concat (map sample_str ss))"
      using v unfolding sample_blob_to_vec_def ss_def by (simp only: option.inject)
    then have "string_of v = concat (map sample_str ss)" by (simp only: string_of_as_bytes)
    moreover have "length ss = 8" by (simp add: ss_def)
    ultimately have "sample_strings 8 (string_of v) = Some ss"
      using sample_strings_concat [of ss] by (simp only:)
    then show ?thesis by (simp add: sample_blob_from_slice_def ss_def)
  qed
  then show "blob_json_correct sample_store"
    by (simp add: blob_json_correct_def sample_store_def core_env.defs)
qed

interpretation plain_wrapped: passphrase_key_store plain_os sample_path sample_store "[65]"
  by unfold_locales (rule sample_store_packages)+

lemma sample_kek:
  "derive_kek_scrypt sample_store [65] salt SCRYPT_N SCRYPT_R SCRYPT_P
     = Inr (take 32 ([65] @ salt @ replicate 32 0))"
  by (simp add: derive_kek_scrypt_accepted [where k = 15] SCRYPT_N_def SCRYPT_R_def SCRYPT_P_def
      sample_store_def sample_core_def core_env.defs)

lemma sample_wrap:
  "\<exists>blob v s'. wrap_passphrase_master sample_store plain_os k [65] s = (Inr blob, s') \<and>
     blob_to_vec sample_store blob = Some v"
  by (simp add: wrap_passphrase_master_def validate_passphrase_def fill_bytes_def Let_def
      store_helpers_are_core sample_kek encrypt_with_key_def)
     (simp add: sample_store_def sample_core_def core_env.defs sample_blob_to_vec_def)

lemma sample_passphrase_import:
  "fst (passphrase_import sample_store plain_os sample_path [65] sample_key False plain_fs) = Inr ()"
proof -
  obtain s1 where 1: "ensure_parent plain_os sample_path plain_fs = (Inr (), s1)"
      and n1: "nodes s1 = [[46] \<mapsto> Dir 448, [100] \<mapsto> Dir 448]"
    by (auto simp: parent_eval fs_eval sample_path_def)
  define s2 where "s2 = s1\<lparr>calls := Suc (calls s1)\<rparr>"
  have 2: "path_exists plain_os sample_path s1 = (False, s2)"
    by (simp add: path_exists_def n1 s2_def sample_path_def plain_os_simps)
  obtain blob v s3 where 3: "wrap_passphrase_master sample_store plain_os sample_key [65] s2 = (Inr blob, s3)"
      and v: "blob_to_vec sample_store blob = Some v"
    using sample_wrap by blast
  have n3: "nodes s3 = nodes s1"
    using wrap_nodes [of sample_store plain_os sample_key "[65]" s2, unfolded 3] by (simp add: s2_def)
  have "passphrase_import sample_store plain_os sample_path [65] sample_key False plain_fs =
      store_secret plain_os [100] ''.machine-passphrase.'' v SetCurrentUser False
        ''passphrase master key already exists'' sample_path s3"
    by (simp add: passphrase_import_def passphrase_ensure_parent_eq validate_passphrase_def 1 2 3 v
        store_secret_def sample_path_simps)
  then show ?thesis
    by (simp add: store_secret_def fs_eval n1 n3 sample_path_def path_join_def as_bytes_Cons)
qed

theorem passphrase_import_then_get_witness:
  "let (r, s') = passphrase_import sample_store plain_os sample_path [65] sample_key False plain_fs
   in fst (passphrase_get sample_store plain_os sample_path [65] s') = Inr sample_key"
proof (cases "passphrase_import sample_store plain_os sample_path [65] sample_key False plain_fs")
  case (Pair r s')
  have "passphrase_import sample_store plain_os sample_path [65] sample_key False plain_fs = (Inr (), s')"
    using Pair sample_passphrase_import by simp
  from passphrase_import_then_get [OF plain_laws sample_path_simps(1,2) sample_parent_not_temp
      sample_store_packages length_sample_key this plain_no_faults]
  show ?thesis by (simp add: Pair)
qed

text \<open>A passphrase file as an export, which differs in the name of its scheme only.\<close>

definition as_export :: "passphrase_blob \<Rightarrow> export_blob" where
  "as_export b = \<lparr>eb_scheme = EXPORT_SCHEME, eb_kdf = pb_kdf b, eb_n = pb_n b, eb_r = pb_r b, eb_p = pb_p b,
     eb_salt = pb_salt b, eb_nonce = pb_nonce b, eb_ciphertext = pb_wrapped_master b\<rparr>"

text \<open>
  The two crates wrap a master key in the same way, each with its own code: a passphrase file
  unlocks to a key exactly if it names the scheme of the store and, read as an export, imports to
  that key with that passphrase; and wrapping a key writes a file exactly if exporting it with the
  same draws gives that export.
\<close>

theorem passphrase_file_is_export:
  "(unwrap_passphrase_master E b pw = Inr k \<longleftrightarrow>
      pb_scheme b = PASSPHRASE_STORE_SCHEME \<and> import_master_key E (as_export b) pw = Inr k) \<and>
   (fst (wrap_passphrase_master E' os k pw s) = Inr b \<longleftrightarrow>
      pb_scheme b = PASSPHRASE_STORE_SCHEME \<and>
      export_master_key E' (map (rng os (calls s)) [0..<16]) (map (rng os (Suc (calls s))) [0..<12]) k pw
        = Inr (as_export b))"
proof -
  have decodes: "unb64 E t l = Inr x \<longleftrightarrow> base64_decode E t = Some x" for t l x
    by (cases "base64_decode E t") (auto simp: unb64_def lib_res_def)
  have "unwrap_passphrase_master E b pw = Inr k \<longleftrightarrow>
      pb_scheme b = PASSPHRASE_STORE_SCHEME \<and> import_master_key E (as_export b) pw = Inr k"
    by (auto simp: unwrap_passphrase_master_def import_master_key_def as_export_def store_helpers_are_core
        validate_passphrase_def res_simps KEY_BYTES_def MASTER_KEY_BYTES_def decodes)
  moreover have "fst (wrap_passphrase_master E' os k pw s) = Inr b \<longleftrightarrow>
      pb_scheme b = PASSPHRASE_STORE_SCHEME \<and>
      export_master_key E' (map (rng os (calls s)) [0..<16]) (map (rng os (Suc (calls s))) [0..<12]) k pw
        = Inr (as_export b)"
  proof (cases "pw = []")
    case True
    then show ?thesis by (simp add: wrap_passphrase_master_def export_master_key_def validate_passphrase_def)
  next
    case False
    obtain kek where kek: "derive_kek_scrypt E' pw (map (rng os (calls s)) [0..<16]) SCRYPT_N SCRYPT_R SCRYPT_P = kek"
      by simp
    obtain c where c: "encrypt_with_key E' (case kek of Inr x \<Rightarrow> x | Inl _ \<Rightarrow> []) (map (rng os (Suc (calls s))) [0..<12]) k [] = c"
      by simp
    show ?thesis
      using False kek c
      by (cases kek; cases c)
         (auto simp: wrap_passphrase_master_def export_master_key_def validate_passphrase_def fill_bytes_def Let_def
           store_helpers_are_core as_export_def)
  qed
  ultimately show ?thesis ..
qed

end
