(* ===== verification/TpmStore.thy ===== *)
theory TpmStore
  imports Envelope FileStore
begin

text \<open>
  The TPM-sealed store of \<open>crates/avault-store/src/lib.rs\<close> and the Linux \<open>auto\<close> policy, which
  holds the master key in a plain file, in a TPM-sealed blob, or in both.

  The trait \<open>TpmBackend\<close> is the record \<open>tpm_env\<close>, together with the derived JSON form of the blob;
  its implementation over \<open>tss_esapi\<close> is in \<open>TpmSession\<close>. A backend may use the file system state
  (a device is a file); what the stores rely on of it is stated in \<open>tpm_laws\<close>.
\<close>

section \<open>Errors\<close>

(* SRC store is_not_found_error *)
definition is_not_found_error :: "err \<Rightarrow> bool" where
  "is_not_found_error e = list_ex (\<lambda>c. c = Io NotFound) e"

(* SRC store is_already_exists_error *)
definition is_already_exists_error :: "err \<Rightarrow> bool" where
  "is_already_exists_error e = list_ex (\<lambda>c. c = Io AlreadyExists) e"

(* SRC store is_unusable_tpm_error *)
definition is_unusable_tpm_error :: "tss_error \<Rightarrow> bool" where
  "is_unusable_tpm_error e = (case e of
       FormatOne _ c \<Rightarrow> c \<in> {AuthFail, BadAuth, BadHierarchy}
     | FormatZeroError _ c \<Rightarrow> c \<in> {AuthType, AuthMissing, AuthUnavailable, NvAuthorization}
     | TctiCode c \<Rightarrow> c \<in> {NoConnection, TctiIoError, NotPermitted, NotSupported,
                              IncompatibleTcti, BadTctiStructure}
     | OtherTss \<Rightarrow> False)"

(* SRC store is_tpm_unavailable *)
definition is_tpm_unavailable :: "err \<Rightarrow> bool" where
  "is_tpm_unavailable e = list_ex (\<lambda>c.
     c = Io PermissionDenied
     \<or> (case c of Tss t _ \<Rightarrow> is_unusable_tpm_error t | _ \<Rightarrow> False)
     \<or> list_ex (\<lambda>w. occurs w (cause_text c))
         [''/dev/tpm'', ''/dev/tpmrm'', ''TCTI'', ''tcti'', ''TPM context'', ''TPM device'',
          ''TPM not found'', ''No TPM'', ''No such device'', ''No such file or directory'',
          ''Permission denied'', ''permission denied'', ''Access denied'', ''access denied'',
          ''Authorization failure'', ''authorization failure'', ''Authorization failed'',
          ''authorization failed'', ''Authorization handle is not correct'',
          ''authorization handle is not correct'', ''authValue'', ''Operation not permitted'',
          ''operation not permitted'', ''Unknown or unusable TCTI'']) e"

section \<open>The store\<close>

(* SRC store TpmMasterBlob *)
record tpm_blob =
  tb_scheme :: string
  tb_hierarchy :: string
  tb_public :: string
  tb_private :: string

(* SRC store TpmBackend *)
record tpm_env =
  tpm_seal :: "bytes \<Rightarrow> fs \<Rightarrow> tpm_blob res \<times> fs"
  tpm_unseal :: "tpm_blob \<Rightarrow> fs \<Rightarrow> bytes res \<times> fs"
  tpm_to_vec :: "tpm_blob \<Rightarrow> bytes option"
  tpm_from_slice :: "bytes \<Rightarrow> tpm_blob option"

(* SRC store TpmStore::ensure_parent *)
definition tpm_ensure_parent :: "'o os_scheme \<Rightarrow> path \<Rightarrow> fs \<Rightarrow> unit res \<times> fs" where
  "tpm_ensure_parent os p s =
     (let parent = writable_parent p
      in then_st (ensure_secret_parent_directory os parent s) (\<lambda>_ s.
         validate_directory_mode os parent s))"

(* SRC store write_tpm_blob *)
definition write_tpm_blob ::
    "'b tpm_env_scheme \<Rightarrow> 'o os_scheme \<Rightarrow> path \<Rightarrow> tpm_blob \<Rightarrow> bool \<Rightarrow> fs \<Rightarrow> unit res \<times> fs" where
  "write_tpm_blob B os p blob force s =
     then_st (with_context ''failed to encode TPM master key''
                (lib_res ''serde_json'' (tpm_to_vec B blob)), s) (\<lambda>bs s.
     then_st (write_synced_temp_secret_file os (writable_parent p) ''.machine-tpm.'' ''.tmp'' bs
                SetCurrentUser s) (\<lambda>tmp s.
     then_st (if force
        then context_st ''failed to install TPM master key'' (install os True tmp p s)
        else context_st ''master key already exists'' (install os False tmp p s)) (\<lambda>_ s.
     then_st (validate_file_mode os p s) (\<lambda>_ s.
     sync_parent_dir os p s))))"

(* SRC store TpmStore::get_with *)
definition tpm_get_with ::
    "'b tpm_env_scheme \<Rightarrow> 'o os_scheme \<Rightarrow> path \<Rightarrow> fs \<Rightarrow> master_key res \<times> fs" where
  "tpm_get_with B os p s =
     then_st (validate_parent_directory_mode os p s) (\<lambda>_ s.
     then_st (validate_file_mode os p s) (\<lambda>_ s.
     then_st (context_st ''TPM master key not found'' (fs_read os p s)) (\<lambda>bs s.
     then_st (with_context ''TPM master key JSON is invalid''
                (lib_res ''serde_json'' (tpm_from_slice B bs)), s) (\<lambda>blob s.
     then_st (tpm_unseal B blob s) (\<lambda>key s.
     context_st ''failed to lock TPM master key'' (from_bytes os key s))))))"

(* SRC store TpmStore::create_noclobber_with *)
definition tpm_create_noclobber_with ::
    "'b tpm_env_scheme \<Rightarrow> 'o os_scheme \<Rightarrow> path \<Rightarrow> bytes \<Rightarrow> fs \<Rightarrow> unit res \<times> fs" where
  "tpm_create_noclobber_with B os p key s =
     then_st (tpm_ensure_parent os p s) (\<lambda>_ s.
     then_st (tpm_seal B key s) (\<lambda>blob s.
     write_tpm_blob B os p blob False s))"

(* SRC store TpmStore::create_force_with *)
definition tpm_create_force_with ::
    "'b tpm_env_scheme \<Rightarrow> 'o os_scheme \<Rightarrow> path \<Rightarrow> bytes \<Rightarrow> fs \<Rightarrow> unit res \<times> fs" where
  "tpm_create_force_with B os p key s =
     then_st (tpm_ensure_parent os p s) (\<lambda>_ s.
     then_st (tpm_seal B key s) (\<lambda>blob s.
     write_tpm_blob B os p blob True s))"

(* SRC store TpmStore::import_with *)
definition tpm_import_with ::
    "'b tpm_env_scheme \<Rightarrow> 'o os_scheme \<Rightarrow> path \<Rightarrow> bytes \<Rightarrow> bool \<Rightarrow> fs \<Rightarrow> unit res \<times> fs" where
  "tpm_import_with B os p key force s =
     then_st (tpm_ensure_parent os p s) (\<lambda>_ s.
     let (ex, s) = path_exists os p s
     in if ex \<and> \<not> force then (bail ''master key already exists'', s)
        else if force then tpm_create_force_with B os p key s
        else tpm_create_noclobber_with B os p key s)"

(* SRC store TpmStore::get_or_create_with *)
definition tpm_get_or_create_with ::
    "'b tpm_env_scheme \<Rightarrow> 'o os_scheme \<Rightarrow> path \<Rightarrow> fs \<Rightarrow> master_key res \<times> fs" where
  "tpm_get_or_create_with B os p s =
     (case tpm_get_with B os p s of
        (Inr key, s) \<Rightarrow> (Inr key, s)
      | (Inl e, s) \<Rightarrow>
          if is_not_found_error e
          then then_st (generate_locked os s) (\<lambda>key s.
               case tpm_create_noclobber_with B os p key s of
                 (Inr _, s) \<Rightarrow> (Inr key, s)
               | (Inl e, s) \<Rightarrow>
                   if is_already_exists_error e then tpm_get_with B os p s
                   else (Inl (Msg ''failed to store master key with TPM'' # e), s))
          else (Inl e, s))"

section \<open>The automatic choice on Linux\<close>

(* SRC store migrate_file_key_to_tpm_with_backend *)
definition migrate_file_key_to_tpm_with_backend ::
    "'b tpm_env_scheme \<Rightarrow> 'o os_scheme \<Rightarrow> path \<Rightarrow> bytes \<Rightarrow> fs \<Rightarrow> master_key res \<times> fs" where
  "migrate_file_key_to_tpm_with_backend B os tpm file_key s =
     (case tpm_get_with B os tpm s of
        (Inr tpm_key, s) \<Rightarrow>
          if tpm_key = file_key then (Inr tpm_key, s)
          else (bail ''file master key differs from TPM master key; refusing to choose automatically'', s)
      | (Inl e, s) \<Rightarrow>
          if is_not_found_error e
          then (case tpm_create_noclobber_with B os tpm file_key s of
                 (Inr _, s) \<Rightarrow> (Inr file_key, s)
               | (Inl e, s) \<Rightarrow>
                   if is_already_exists_error e
                   then then_st (tpm_get_with B os tpm s) (\<lambda>tpm_key s.
                        if tpm_key = file_key then (Inr tpm_key, s)
                        else (bail ''file master key differs from concurrently created TPM master key'', s))
                   else if is_tpm_unavailable e then (Inr file_key, s)
                   else (Inl (Msg ''failed to migrate file master key to TPM'' # e), s))
          else if is_tpm_unavailable e then (Inr file_key, s)
          else (Inl e, s))"

(* SRC store load_or_create_linux_auto_master_key_with_tpm_backend *)
definition load_or_create_linux_auto ::
    "'b tpm_env_scheme \<Rightarrow> 'o os_scheme \<Rightarrow> environment \<Rightarrow> fs \<Rightarrow> master_key res \<times> fs" where
  "load_or_create_linux_auto B os env s =
     then_st (default_tpm_master_key_path env, s) (\<lambda>tpm s.
     then_st (default_master_key_path env, s) (\<lambda>p s.
     let (ex, s) = path_exists os p s
     in if ex
        then then_st (file_get os p s) (\<lambda>file_key s.
             migrate_file_key_to_tpm_with_backend B os tpm file_key s)
        else let (ex, s) = path_exists os tpm s
             in if ex then tpm_get_with B os tpm s
                else (case tpm_get_or_create_with B os tpm s of
                        (Inr key, s) \<Rightarrow> (Inr key, s)
                      | (Inl e, s) \<Rightarrow>
                          if is_tpm_unavailable e then file_get_or_create os p s else (Inl e, s))))"

(* SRC store load_linux_auto_master_key_with_tpm_backend *)
definition load_linux_auto ::
    "'b tpm_env_scheme \<Rightarrow> 'o os_scheme \<Rightarrow> environment \<Rightarrow> fs \<Rightarrow> master_key res \<times> fs" where
  "load_linux_auto B os env s =
     then_st (default_tpm_master_key_path env, s) (\<lambda>tpm s.
     then_st (default_master_key_path env, s) (\<lambda>p s.
     let (ex, s) = path_exists os p s
     in if ex
        then then_st (file_get os p s) (\<lambda>file_key s.
             migrate_file_key_to_tpm_with_backend B os tpm file_key s)
        else tpm_get_with B os tpm s))"

(* SRC store import_linux_auto_master_key_with_tpm_backend *)
definition import_linux_auto ::
    "'b tpm_env_scheme \<Rightarrow> 'o os_scheme \<Rightarrow> environment \<Rightarrow> bytes \<Rightarrow> bool \<Rightarrow> fs \<Rightarrow> unit res \<times> fs" where
  "import_linux_auto B os env key force s =
     then_st (default_tpm_master_key_path env, s) (\<lambda>tpm s.
     then_st (default_master_key_path env, s) (\<lambda>p s.
     let (ex, s) = path_exists os p s
     in if ex
        then if \<not> force then (bail ''master key already exists'', s)
             else then_st (case tpm_import_with B os tpm key True s of
                      (Inr _, s) \<Rightarrow> (Inr (), s)
                    | (Inl e, s) \<Rightarrow>
                        if is_tpm_unavailable e
                        then let (tex, s) = path_exists os tpm s
                             in if \<not> tex then (Inr (), s)
                                else (Inl (Msg ''failed to store imported master key with TPM'' # e), s)
                        else (Inl (Msg ''failed to store imported master key with TPM'' # e), s)) (\<lambda>_ s.
                  context_st ''failed to store imported master key in file store''
                    (file_import os p key True s))
        else (case tpm_import_with B os tpm key force s of
               (Inr _, s) \<Rightarrow> (Inr (), s)
             | (Inl e, s) \<Rightarrow>
                 if is_tpm_unavailable e
                 then let (tex, s) = path_exists os tpm s
                      in if \<not> tex
                         then context_st ''TPM is unavailable; failed to import into file storage''
                                (file_import os p key force s)
                         else (Inl e, s)
                 else (Inl e, s))))"

section \<open>What the TPM promises\<close>

text \<open>
  Sealing and unsealing do not touch the file system, a blob unseals to one key only, which is the
  one it was made from, and the JSON form of a blob reads back.
\<close>

definition tpm_laws :: "'b tpm_env_scheme \<Rightarrow> bool" where
  "tpm_laws B \<longleftrightarrow>
     (\<forall>k s. nodes (snd (tpm_seal B k s)) = nodes s) \<and>
     (\<forall>b s. nodes (snd (tpm_unseal B b s)) = nodes s) \<and>
     (\<forall>k b k' s s'. fst (tpm_seal B k s) = Inr b \<longrightarrow> fst (tpm_unseal B b s') = Inr k' \<longrightarrow> k' = k) \<and>
     (\<forall>b v. tpm_to_vec B b = Some v \<longrightarrow> tpm_from_slice B v = Some b)"

lemma seal_nodes: "tpm_laws B \<Longrightarrow> tpm_seal B k s = (r, s') \<Longrightarrow> nodes s' = nodes s"
  unfolding tpm_laws_def by (metis snd_conv)

lemma unseal_nodes: "tpm_laws B \<Longrightarrow> tpm_unseal B b s = (r, s') \<Longrightarrow> nodes s' = nodes s"
  unfolding tpm_laws_def by (metis snd_conv)

lemma seal_unseal:
  "\<lbrakk>tpm_laws B; tpm_seal B k s0 = (Inr b, s1); tpm_unseal B b s = (Inr k', s')\<rbrakk> \<Longrightarrow> k' = k"
  unfolding tpm_laws_def by (metis fst_conv)

lemma blob_reads_back: "tpm_laws B \<Longrightarrow> tpm_to_vec B b = Some v \<Longrightarrow> tpm_from_slice B v = Some b"
  unfolding tpm_laws_def by blast

text \<open>The file at \<open>p\<close> holds a blob made from the key.\<close>

definition sealed_at :: "'b tpm_env_scheme \<Rightarrow> path \<Rightarrow> bytes \<Rightarrow> fs \<Rightarrow> bool" where
  "sealed_at B p k s \<longleftrightarrow> (\<exists>m v b s0 s1. nodes s p = Some (Reg m v) \<and> tpm_from_slice B v = Some b \<and>
     tpm_seal B k s0 = (Inr b, s1))"

lemma sealed_at_cong: "nodes s' p = nodes s p \<Longrightarrow> sealed_at B p k s' = sealed_at B p k s"
  by (simp add: sealed_at_def)

section \<open>What the store does to its file\<close>

lemma tpm_ensure_parent_eq: "tpm_ensure_parent = ensure_parent"
  by (intro ext) (simp add: tpm_ensure_parent_def ensure_parent_def)

lemma nodes_tpm_get:
  assumes "tpm_laws B"
  shows "nodes (snd (tpm_get_with B os p s)) = nodes s"
  unfolding tpm_get_with_def
  by (intro nodes_then_st)
     (auto simp: frame_simps from_bytes_def nodes_then_st
       intro: unseal_nodes [OF assms, OF prod.collapse [symmetric], THEN trans])

lemma fs_read_Inr:
  assumes "fs_read os p s = (Inr v, s')"
  shows "\<exists>m. nodes s p = Some (Reg m v) \<and> nodes s' = nodes s"
proof -
  obtain f s1 where 1: "file_open os p s = (Inr f, s1)"
      and 2: "(case f of Reg _ c \<Rightarrow> read_at os f 0 (length c) s1 | _ \<Rightarrow> read_at os f 0 0 s1) = (Inr v, s')"
    using assms by (auto simp: fs_read_def then_st_eq_Inr)
  have "nodes s' = nodes s1" using 2 by (cases f) (auto dest: nodes_read_at_step)
  then show ?thesis using file_open_Inr [OF 1] 2 by (cases f) (auto dest!: read_at_Inr)
qed

lemma tpm_get_sealed:
  assumes laws: "tpm_laws B" and get: "tpm_get_with B os p s = (Inr k', s')" and k: "sealed_at B p k s"
  shows "k' = k"
proof -
  obtain s1 s2 v s3 b s4 where 1: "validate_parent_directory_mode os p s = (Inr (), s1)"
      and 2: "validate_file_mode os p s1 = (Inr (), s2)"
      and 3: "fs_read os p s2 = (Inr v, s3)" and b: "tpm_from_slice B v = Some b"
      and u: "tpm_unseal B b s3 = (Inr k', s4)"
    using get unfolding tpm_get_with_def
    by (auto simp: then_st_eq_Inr context_st_eq_Inr with_context_eq_Inr lib_res_eq_Inr from_bytes_def)
  have "nodes s2 = nodes s" using validate_parent_step [OF 1] validate_file_mode_step [OF 2] by simp
  then obtain m where "nodes s p = Some (Reg m v)" using fs_read_Inr [OF 3] by auto
  with k b u laws show ?thesis by (auto simp: sealed_at_def intro: seal_unseal)
qed

lemma write_tpm_blob_eq:
  "write_tpm_blob B os p blob force s = (case tpm_to_vec B blob of
       None \<Rightarrow> (Inl [Msg ''failed to encode TPM master key'', Lib ''serde_json''], s)
     | Some v \<Rightarrow> store_secret os (writable_parent p) ''.machine-tpm.'' v SetCurrentUser force
         (if force then ''failed to install TPM master key'' else ''master key already exists'') p s)"
  by (cases force) (simp_all add: write_tpm_blob_def store_secret_def split: option.split)

text \<open>Both \<open>create\<close> operations, with the flag as an argument.\<close>

definition tpm_create :: "'b tpm_env_scheme \<Rightarrow> 'o os_scheme \<Rightarrow> path \<Rightarrow> bytes \<Rightarrow> bool \<Rightarrow> fs \<Rightarrow> unit res \<times> fs" where
  "tpm_create B os p key force s =
     then_st (ensure_parent os p s) (\<lambda>_ s.
     then_st (tpm_seal B key s) (\<lambda>blob s.
     write_tpm_blob B os p blob force s))"

lemma tpm_create_eqs:
  "tpm_create_noclobber_with B os p key s = tpm_create B os p key False s"
  "tpm_create_force_with B os p key s = tpm_create B os p key True s"
  by (simp_all add: tpm_create_noclobber_with_def tpm_create_force_with_def tpm_create_def
      tpm_ensure_parent_eq)

lemma tpm_create_split:
  assumes "tpm_laws B" and run: "tpm_create B os p key force s = (r, s')"
  shows "\<exists>r1 s1. ensure_parent os p s = (r1, s1) \<and>
     ((nodes s' = nodes s1 \<and> (\<exists>e. r = Inl e)) \<or>
      (\<exists>b c m s2. r1 = Inr () \<and> tpm_seal B key s1 = (Inr b, s2) \<and> nodes s2 = nodes s1 \<and>
         tpm_from_slice B c = Some b \<and>
         store_secret os (writable_parent p) ''.machine-tpm.'' c SetCurrentUser force m p s2 = (r, s')))"
proof -
  obtain r1 s1 where 1: "ensure_parent os p s = (r1, s1)" by (cases "ensure_parent os p s")
  obtain r2 s2 where 2: "tpm_seal B key s1 = (r2, s2)" by (cases "tpm_seal B key s1")
  have n2: "nodes s2 = nodes s1" by (rule seal_nodes [OF assms(1) 2])
  show ?thesis
  proof (cases r1)
    case (Inl e)
    then show ?thesis using run 1 by (auto simp: tpm_create_def)
  next
    case (Inr u)
    show ?thesis
    proof (cases r2)
      case (Inl e)
      then show ?thesis using run 1 2 \<open>r1 = Inr u\<close> n2 by (auto simp: tpm_create_def)
    next
      case (Inr b)
      show ?thesis
      proof (cases "tpm_to_vec B b")
        case None
        then show ?thesis
          using run 1 2 \<open>r1 = Inr u\<close> Inr n2 by (auto simp: tpm_create_def write_tpm_blob_eq)
      next
        case (Some c)
        then have "store_secret os (writable_parent p) ''.machine-tpm.'' c SetCurrentUser force
            (if force then ''failed to install TPM master key'' else ''master key already exists'') p s2
            = (r, s')"
          using run 1 2 \<open>r1 = Inr u\<close> Inr by (simp add: tpm_create_def write_tpm_blob_eq)
        moreover have "r1 = Inr ()" using \<open>r1 = Inr u\<close> by simp
        ultimately show ?thesis using 1 2 Inr n2 blob_reads_back [OF assms(1) Some] by blast
      qed
    qed
  qed
qed

lemma tpm_create_seals:
  assumes laws: "tempfile_laws os" "tpm_laws B" "not_temp p" "p \<noteq> [46]"
    and run: "tpm_create B os p key force s = (r, s')"
  shows "(nodes s' p = nodes s p \<and> (\<exists>e. r = Inl e)) \<or> sealed_at B p key s'"
proof -
  from tpm_create_split [OF laws(2) run] obtain r1 s1 where 1: "ensure_parent os p s = (r1, s1)"
      and cases: "(nodes s' = nodes s1 \<and> (\<exists>e. r = Inl e)) \<or>
      (\<exists>b c m s2. r1 = Inr () \<and> tpm_seal B key s1 = (Inr b, s2) \<and> nodes s2 = nodes s1 \<and>
         tpm_from_slice B c = Some b \<and>
         store_secret os (writable_parent p) ''.machine-tpm.'' c SetCurrentUser force m p s2 = (r, s'))"
    by blast
  have g: "nodes s1 p = nodes s p"
    using ensure_parent_grows [OF 1 laws(4)] by (simp add: grows_beside_def)
  from cases show ?thesis
  proof (elim disjE exE conjE)
    fix b c m s2
    assume *: "tpm_seal B key s1 = (Inr b, s2)" "nodes s2 = nodes s1" "tpm_from_slice B c = Some b"
      and st: "store_secret os (writable_parent p) ''.machine-tpm.'' c SetCurrentUser force m p s2 = (r, s')"
    from store_secret_installs(1) [OF laws(1,3) st] show ?thesis
      using * g by (cases r) (auto simp: installs_def sealed_at_def)
  qed (use g in auto)
qed

lemma tpm_create_keeps:
  assumes laws: "tempfile_laws os" "tpm_laws B" "not_temp p" "p \<noteq> [46]"
    and run: "tpm_create B os p key False s = (r, s')"
  shows "keeps s s'"
proof -
  from tpm_create_split [OF laws(2) run] obtain r1 s1 where 1: "ensure_parent os p s = (r1, s1)"
      and cases: "(nodes s' = nodes s1 \<and> (\<exists>e. r = Inl e)) \<or>
      (\<exists>b c m s2. r1 = Inr () \<and> tpm_seal B key s1 = (Inr b, s2) \<and> nodes s2 = nodes s1 \<and>
         tpm_from_slice B c = Some b \<and>
         store_secret os (writable_parent p) ''.machine-tpm.'' c SetCurrentUser False m p s2 = (r, s'))"
    by blast
  have g: "keeps s s1" by (rule grows_keeps [OF ensure_parent_grows [OF 1 laws(4)]])
  from cases show ?thesis
  proof (elim disjE exE conjE)
    fix b c m s2
    assume n: "nodes s2 = nodes s1"
      and st: "store_secret os (writable_parent p) ''.machine-tpm.'' c SetCurrentUser False m p s2 = (r, s')"
    have "keeps s2 s'" by (rule store_secret_keeps [OF laws(1,3) st])
    then show ?thesis using g n by (simp add: keeps_def)
  qed (use g in \<open>simp add: keeps_def\<close>)
qed

lemma tpm_get_keeps: "tpm_laws B \<Longrightarrow> keeps s (snd (tpm_get_with B os p s))"
  by (rule keeps_same) (rule nodes_tpm_get)

lemma tpm_get_or_create_keeps:
  assumes laws: "tempfile_laws os" "tpm_laws B" "not_temp p" "p \<noteq> [46]"
  shows "keeps s (snd (tpm_get_or_create_with B os p s))"
proof (cases "tpm_get_with B os p s")
  case (Pair r1 s1)
  have k1: "keeps s s1" using tpm_get_keeps [OF laws(2), of s os p] by (simp add: Pair)
  show ?thesis
  proof (cases r1)
    case (Inr k)
    then show ?thesis using k1 Pair by (simp add: tpm_get_or_create_with_def)
  next
    case (Inl e)
    obtain r2 s2 where 2: "generate_locked os s1 = (r2, s2)" by (cases "generate_locked os s1")
    have k2: "keeps s s2"
      using generate_locked_nodes [OF 2] k1 by (simp add: keeps_def)
    show ?thesis
    proof (cases r2)
      case (Inl e2)
      then show ?thesis using k1 k2 Pair \<open>r1 = Inl e\<close> 2 by (simp add: tpm_get_or_create_with_def)
    next
      case (Inr key)
      obtain r3 s3 where 3: "tpm_create B os p key False s2 = (r3, s3)"
        by (cases "tpm_create B os p key False s2")
      have k3: "keeps s s3" by (rule keeps_trans [OF k2 tpm_create_keeps [OF laws 3]])
      have k4: "keeps s (snd (tpm_get_with B os p s3))"
        by (rule keeps_trans [OF k3 tpm_get_keeps [OF laws(2)]])
      show ?thesis
        using k1 k3 k4 Pair \<open>r1 = Inl e\<close> 2 Inr 3
        by (cases r3) (simp_all add: tpm_get_or_create_with_def tpm_create_eqs)
    qed
  qed
qed

lemma migrate_keeps:
  assumes laws: "tempfile_laws os" "tpm_laws B" "not_temp p" "p \<noteq> [46]"
  shows "keeps s (snd (migrate_file_key_to_tpm_with_backend B os p k s))"
proof (cases "tpm_get_with B os p s")
  case (Pair r1 s1)
  have k1: "keeps s s1" using tpm_get_keeps [OF laws(2), of s os p] by (simp add: Pair)
  obtain r3 s3 where 3: "tpm_create B os p k False s1 = (r3, s3)"
    by (cases "tpm_create B os p k False s1")
  have k3: "keeps s s3" by (rule keeps_trans [OF k1 tpm_create_keeps [OF laws 3]])
  have k4: "keeps s (snd (tpm_get_with B os p s3))"
    by (rule keeps_trans [OF k3 tpm_get_keeps [OF laws(2)]])
  have k5: "keeps s (snd (then_st (tpm_get_with B os p s3) (\<lambda>t s. if t = k then (Inr t, s)
      else (bail m, s))))" for m
    by (rule keeps_then_st) (use k4 in \<open>auto simp: keeps_def\<close>)
  show ?thesis
    using k1 k3 k5 Pair 3
    by (cases r1; cases r3) (simp_all add: migrate_file_key_to_tpm_with_backend_def tpm_create_eqs)
qed

lemma migrate_returns_file_key:
  "migrate_file_key_to_tpm_with_backend B os p k s = (Inr k', s') \<Longrightarrow> k' = k"
  by (auto simp: migrate_file_key_to_tpm_with_backend_def then_st_eq_Inr
      split: prod.splits sum.splits if_splits)

lemma path_exists_nodes: "path_exists os p s = (ex, s') \<Longrightarrow> nodes s' = nodes s"
  by (auto simp: path_exists_def)

lemma load_or_create_linux_keeps:
  assumes "tempfile_laws os" "tpm_laws B"
  shows "keeps s (snd (load_or_create_linux_auto B os env s))"
proof (cases "default_tpm_master_key_path env")
  case (Inr tpm)
  note env_tpm = Inr
  show ?thesis
  proof (cases "default_master_key_path env")
    case (Inr p)
    note paths = default_paths [OF Inr env_tpm]
    obtain ex s1 where 1: "path_exists os p s = (ex, s1)" by (cases "path_exists os p s")
    have k0: "keeps s s1" using path_exists_nodes [OF 1] by (rule keeps_same)
    show ?thesis
    proof (cases ex)
      case True
      have "keeps s1 (snd (then_st (file_get os p s1) (\<lambda>k s. migrate_file_key_to_tpm_with_backend B os tpm k s)))"
        by (rule keeps_then_st)
           (auto intro: keeps_same keeps_trans migrate_keeps [OF assms paths(3,4)] simp: nodes_file_get)
      then show ?thesis
        using keeps_trans [OF k0] env_tpm Inr 1 True by (simp add: load_or_create_linux_auto_def)
    next
      case False
      obtain tex s2 where 2: "path_exists os tpm s1 = (tex, s2)" by (cases "path_exists os tpm s1")
      have k2: "keeps s s2" using path_exists_nodes [OF 2] k0 by (simp add: keeps_def)
      obtain r3 s3 where 3: "tpm_get_or_create_with B os tpm s2 = (r3, s3)"
        by (cases "tpm_get_or_create_with B os tpm s2")
      have k3: "keeps s s3"
        using keeps_trans [OF k2 tpm_get_or_create_keeps [OF assms paths(3,4)]] by (simp add: 3)
      have k4: "keeps s (snd (file_get_or_create os p s3))"
        by (rule keeps_trans [OF k3 file_get_or_create_keeps [OF assms(1) paths(1,2)]])
      have k5: "keeps s (snd (tpm_get_with B os tpm s2))"
        by (rule keeps_trans [OF k2 tpm_get_keeps [OF assms(2)]])
      show ?thesis
        using env_tpm Inr 1 2 3 False k3 k4 k5
        by (cases tex; cases r3) (simp_all add: load_or_create_linux_auto_def)
    qed
  qed (simp add: load_or_create_linux_auto_def Inr)
qed (simp add: load_or_create_linux_auto_def)

text \<open>Where the key file is found, it decides.\<close>

lemma load_or_create_linux_file_key:
  assumes env: "default_tpm_master_key_path env = Inr tpm" "default_master_key_path env = Inr p"
    and found: "path_exists os p s = (True, s1)" and run: "load_or_create_linux_auto B os env s = (Inr k, s')"
  shows "key_file p s = Some k"
proof -
  have "then_st (file_get os p s1) (\<lambda>k s. migrate_file_key_to_tpm_with_backend B os tpm k s) = (Inr k, s')"
    using run env found by (simp add: load_or_create_linux_auto_def)
  then obtain k2 s2 where "file_get os p s1 = (Inr k2, s2)"
      and m: "migrate_file_key_to_tpm_with_backend B os tpm k2 s2 = (Inr k, s')"
    by (auto simp: then_st_eq_Inr)
  then have "key_file p s1 = Some k" using file_get_sound migrate_returns_file_key [OF m] by blast
  then show ?thesis using path_exists_nodes [OF found] by (simp add: key_file_def)
qed

section \<open>Properties\<close>

text \<open>
  Opening or creating the master key on Linux never destroys one: whatever calls and TPM
  operations fail, \<open>load_or_create\<close> leaves every file that exists as it is, so neither a key
  file, nor a sealed blob, good or corrupt, is ever replaced; and where the key file exists (and
  the first call, which looks for it, does not fail) the key returned is the one in the key file,
  whatever the TPM holds.
\<close>

theorem linux_auto_keeps_keys:
  assumes "tempfile_laws os" "tpm_laws B"
    and run: "load_or_create_linux_auto B os env s = (r, s')"
  shows "keeps s s' \<and>
    (case (default_master_key_path env, r) of
       (Inr p, Inr k) \<Rightarrow>
         (if nodes s p \<noteq> None \<and> fault os (calls s) = None then key_file p s = Some k else True)
     | _ \<Rightarrow> True)"
proof -
  have "key_file p s = Some k"
    if env: "default_master_key_path env = Inr p" and k: "r = Inr k" and ex: "nodes s p \<noteq> None" "fault os (calls s) = None" for p k
  proof -
    obtain tpm where tpm: "default_tpm_master_key_path env = Inr tpm"
      using run k by (auto simp: load_or_create_linux_auto_def then_st_eq_Inr)
    have "fst (path_exists os p s)" using ex by (simp add: path_exists_def)
    then obtain s1 where "path_exists os p s = (True, s1)" by (metis prod.collapse)
    from load_or_create_linux_file_key [OF tpm env this] run k show ?thesis by blast
  qed
  moreover have "keeps s s'" using load_or_create_linux_keeps [OF assms(1,2), of s env] run by simp
  ultimately show ?thesis by (auto split: sum.split)
qed

lemma tpm_import_eq:
  "tpm_import_with B os p key force s =
     then_st (ensure_parent os p s) (\<lambda>_ s.
     let (ex, s) = path_exists os p s
     in if ex \<and> \<not> force then (bail ''master key already exists'', s)
        else tpm_create B os p key force s)"
  by (cases force)
     (simp_all add: tpm_import_with_def tpm_ensure_parent_eq tpm_create_eqs case_prod_unfold Let_def
       cong: if_cong)

lemma tpm_import_InrE:
  assumes "tpm_import_with B os p key force s = (Inr (), s')"
  obtains s1 ex s2 where "ensure_parent os p s = (Inr (), s1)" "path_exists os p s1 = (ex, s2)"
    "tpm_create B os p key force s2 = (Inr (), s')"
proof -
  obtain s1 where 1: "ensure_parent os p s = (Inr (), s1)"
      and 2: "(let (ex, s) = path_exists os p s1
     in if ex \<and> \<not> force then (bail ''master key already exists'', s)
        else tpm_create B os p key force s) = (Inr (), s')"
    using assms by (auto simp: tpm_import_eq then_st_eq_Inr)
  obtain ex s2 where "path_exists os p s1 = (ex, s2)" by (cases "path_exists os p s1")
  with 1 2 that show ?thesis by (auto split: if_splits)
qed

lemma tpm_import_Inr:
  assumes laws: "tempfile_laws os" "tpm_laws B" "not_temp p" "p \<noteq> [46]"
    and run: "tpm_import_with B os p key force s = (Inr (), s')"
  shows "sealed_at B p key s'"
proof -
  obtain s1 where "tpm_create B os p key force s1 = (Inr (), s')"
    using run by (rule tpm_import_InrE)
  from tpm_create_seals [OF laws this] show ?thesis by simp
qed

text \<open>A successful import into the TPM store puts no file anywhere else: new nodes are directories.\<close>

lemma ensure_parent_dirs:
  assumes "ensure_parent os p s = (Inr (), s')" "nodes s q = None"
  shows "nodes s' q = None \<or> nodes s' q = Some (Dir 448)"
proof -
  obtain s1 where 1: "ensure_secret_parent_directory os (writable_parent p) s = (Inr (), s1)"
      and 2: "validate_directory_mode os (writable_parent p) s1 = (Inr (), s')"
    using assms(1) by (auto simp: ensure_parent_def Let_def then_st_eq_Inr)
  have "nodes s' = nodes s1" using 2 nodes_validate_directory_mode [of os "writable_parent p" s1] by simp
  moreover have "private_growth (ancestors (writable_parent p)) s s1 True"
    using ensure_secret_parent_growth [OF 1] by simp
  ultimately show ?thesis using private_growth_new assms(2) by metis
qed

lemma tpm_import_beside:
  assumes laws: "tempfile_laws os" "tpm_laws B" "not_temp tpm" "tpm \<noteq> [46]"
    and run: "tpm_import_with B os tpm key force s = (Inr (), s')"
    and q: "not_temp q" "q \<noteq> tpm" "nodes s q = None"
  shows "nodes s' q = None \<or> nodes s' q = Some (Dir 448)"
proof -
  obtain s1 ex s2 where 1: "ensure_parent os tpm s = (Inr (), s1)" and 2: "path_exists os tpm s1 = (ex, s2)"
      and 3: "tpm_create B os tpm key force s2 = (Inr (), s')"
    using run by (rule tpm_import_InrE)
  obtain s3 s4 c m where 4: "ensure_parent os tpm s2 = (Inr (), s3)" and n4: "nodes s4 = nodes s3"
      and 5: "store_secret os (writable_parent tpm) ''.machine-tpm.'' c SetCurrentUser force m tpm s4 = (Inr (), s')"
    using tpm_create_split [OF laws(2) 3] by auto
  have n2: "nodes s2 = nodes s1" using nodes_path_exists [of os tpm s1] by (simp add: 2)
  have "nodes s3 q = None \<or> nodes s3 q = Some (Dir 448)"
    using ensure_parent_dirs [OF 1 q(3)] ensure_parent_dirs [OF 4, of q]
      ensure_parent_grows [OF 4 laws(4)] n2 by (auto simp: grows_beside_def)
  moreover have "nodes s' q = nodes s4 q"
    by (rule store_secret_other [OF laws(1,3) q(1) _ 5]) (use q(2) in simp)
  ultimately show ?thesis using n4 by simp
qed

text \<open>Without faults, a path exists when its node does.\<close>

lemma path_exists_quiet: "fault os = (\<lambda>_. None) \<Longrightarrow> path_exists os p s = (ex, s') \<Longrightarrow> ex \<longleftrightarrow> nodes s p \<noteq> None"
  by (auto simp: path_exists_def)

lemma import_linux_auto_Inr:
  assumes laws: "tempfile_laws os" "tpm_laws B" and quiet: "fault os = (\<lambda>_. None)"
    and paths: "default_tpm_master_key_path env = Inr tpm" "default_master_key_path env = Inr p"
    and len: "length key = MASTER_KEY_BYTES"
    and run: "import_linux_auto B os env key force s = (Inr (), s')"
  shows "key_file p s' = Some key \<or> sealed_at B tpm key s' \<and> (\<exists>s1. nodes s1 = nodes s \<and>
           nodes s p = None \<and> tpm_import_with B os tpm key force s1 = (Inr (), s'))"
proof -
  note ps = default_paths [OF paths(2,1)]
  obtain ex s1 where 1: "path_exists os p s = (ex, s1)" by (cases "path_exists os p s")
  have stored: "key_file p s2 = Some key" if "file_import os p key f s3 = (Inr (), s2)" for f s2 s3
    using file_import_installs(1) [OF laws(1) ps(1,2) that] installs_key_file(1) [OF _ len] by blast
  show ?thesis
  proof (cases ex)
    case True
    then obtain s2 where "file_import os p key True s2 = (Inr (), s')"
      using run paths 1
      by (auto simp: import_linux_auto_def then_st_eq_Inr context_st_eq_Inr split: if_splits)
    with stored show ?thesis by blast
  next
    case False
    obtain r2 s2 where 2: "tpm_import_with B os tpm key force s1 = (r2, s2)"
      by (cases "tpm_import_with B os tpm key force s1")
    show ?thesis
    proof (cases r2)
      case (Inl e)
      then obtain s3 where "file_import os p key force s3 = (Inr (), s')"
        using run paths 1 2 False
        by (auto simp: import_linux_auto_def context_st_eq_Inr split: if_splits prod.splits)
      with stored show ?thesis by blast
    next
      case (Inr u)
      then have t: "tpm_import_with B os tpm key force s1 = (Inr (), s')"
        using run paths 1 2 False by (simp add: import_linux_auto_def)
      moreover have "nodes s1 = nodes s" by (rule path_exists_nodes [OF 1])
      moreover have "nodes s p = None" using path_exists_quiet [OF quiet 1] False by simp
      ultimately show ?thesis using tpm_import_Inr [OF laws ps(3,4) t] by blast
    qed
  qed
qed

text \<open>
  Import and load agree on Linux: where system calls do not fail, a key imported with
  \<open>--store auto\<close> is the only key a later load can return, whether it went to the TPM, to the key
  file or to both, and whatever stood in either place before.
\<close>

theorem linux_auto_import_then_load:
  assumes laws: "tempfile_laws os" "tpm_laws B" and quiet: "fault os = (\<lambda>_. None)"
    and len: "length key = MASTER_KEY_BYTES"
    and imported: "import_linux_auto B os env key force s = (Inr (), s1)"
    and loaded: "load_linux_auto B os env s1 = (Inr k, s2)"
  shows "k = key"
proof -
  obtain tpm p where paths: "default_tpm_master_key_path env = Inr tpm" "default_master_key_path env = Inr p"
    using imported by (auto simp: import_linux_auto_def then_st_eq_Inr)
  note ps = default_paths [OF paths(2,1)]
  obtain ex s3 where 3: "path_exists os p s1 = (ex, s3)" by (cases "path_exists os p s1")
  have n3: "nodes s3 = nodes s1" by (rule path_exists_nodes [OF 3])
  show ?thesis
  proof (cases ex)
    case True
    then obtain k2 s4 where "file_get os p s3 = (Inr k2, s4)"
        and "migrate_file_key_to_tpm_with_backend B os tpm k2 s4 = (Inr k, s2)"
      using loaded paths 3 by (auto simp: load_linux_auto_def then_st_eq_Inr)
    then have file_key: "key_file p s1 = Some k"
      using file_get_sound migrate_returns_file_key n3 by (fastforce simp: key_file_def)
    from import_linux_auto_Inr [OF laws quiet paths len imported] show ?thesis
    proof
      assume "key_file p s1 = Some key"
      with file_key show ?thesis by simp
    next
      assume "sealed_at B tpm key s1 \<and> (\<exists>s0. nodes s0 = nodes s \<and> nodes s p = None \<and>
          tpm_import_with B os tpm key force s0 = (Inr (), s1))"
      then obtain s0 where "nodes s0 p = None" "tpm_import_with B os tpm key force s0 = (Inr (), s1)"
        by metis
      then have "nodes s1 p = None \<or> nodes s1 p = Some (Dir 448)"
        by (intro tpm_import_beside [OF laws ps(3,4) _ ps(1,5)])
      then have "key_file p s1 = None" by (auto simp: key_file_def)
      with file_key show ?thesis by simp
    qed
  next
    case False
    then have get: "tpm_get_with B os tpm s3 = (Inr k, s2)"
      using loaded paths 3 by (simp add: load_linux_auto_def)
    have "nodes s1 p = None" using path_exists_quiet [OF quiet 3] False by simp
    then have "sealed_at B tpm key s1"
      using import_linux_auto_Inr [OF laws quiet paths len imported] by (auto simp: key_file_def)
    then have "sealed_at B tpm key s3" using n3 by (simp add: sealed_at_def)
    with get show ?thesis using tpm_get_sealed [OF laws(2)] by blast
  qed
qed

section \<open>Witnesses\<close>

text \<open>A TPM that keeps the key in the private part of the blob, and an environment.\<close>

definition sample_tpm :: tpm_env where
  "sample_tpm = \<lparr>
     tpm_seal = (\<lambda>k s. (Inr \<lparr>tb_scheme = TPM_STORE_SCHEME, tb_hierarchy = ''owner'', tb_public = [],
                             tb_private = string_of k\<rparr>, s)),
     tpm_unseal = (\<lambda>b s. (Inr (as_bytes (tb_private b)), s)),
     tpm_to_vec = (\<lambda>b. Some (as_bytes (sample_str (tb_scheme b) @ sample_str (tb_hierarchy b)
                                @ sample_str (tb_public b) @ tb_private b))),
     tpm_from_slice = (\<lambda>v. case sample_unstr (string_of v) of None \<Rightarrow> None
       | Some (a, v) \<Rightarrow> (case sample_unstr v of None \<Rightarrow> None
       | Some (b, v) \<Rightarrow> (case sample_unstr v of None \<Rightarrow> None
       | Some (c, d) \<Rightarrow> Some \<lparr>tb_scheme = a, tb_hierarchy = b, tb_public = c, tb_private = d\<rparr>)))\<rparr>"

lemma sample_tpm_laws: "tpm_laws sample_tpm"
  by (auto simp: tpm_laws_def sample_tpm_def)

lemma sample_tpm_simps:
  "tpm_seal sample_tpm k s = (Inr \<lparr>tb_scheme = TPM_STORE_SCHEME, tb_hierarchy = ''owner'',
     tb_public = [], tb_private = string_of k\<rparr>, s)"
  "tpm_unseal sample_tpm b s = (Inr (as_bytes (tb_private b)), s)"
  "\<exists>v. tpm_to_vec sample_tpm b = Some v \<and> tpm_from_slice sample_tpm v = Some b"
  by (simp_all add: sample_tpm_def)

definition sample_env :: environment where
  "sample_env = [''AVAULT_HOME'' \<mapsto> [100]]"

definition sample_key_path :: path where
  "sample_key_path = [100, 47, 109, 97, 99, 104, 105, 110, 101, 46, 107, 101, 121]"

definition sample_tpm_path :: path where
  "sample_tpm_path = [100, 47, 109, 97, 99, 104, 105, 110, 101, 46, 116, 112, 109, 46, 106, 115, 111, 110]"

lemma sample_paths:
  "default_master_key_path sample_env = Inr sample_key_path"
  "default_tpm_master_key_path sample_env = Inr sample_tpm_path"
  "writable_parent sample_key_path = [100]" "writable_parent sample_tpm_path = [100]"
  "sample_key_path \<noteq> sample_tpm_path" "sample_tpm_path \<noteq> sample_key_path"
  by (simp_all add: default_master_key_path_def default_tpm_master_key_path_def vault_file_def
      sample_env_def path_join_def as_bytes_Cons sample_key_path_def sample_tpm_path_def
      writable_parent_def path_parent_def)

definition home_fs :: "node option \<Rightarrow> fs" where
  "home_fs key = \<lparr>nodes = [[46] \<mapsto> Dir 448, [100] \<mapsto> Dir 448](sample_key_path := key), calls = 0\<rparr>"

lemma home_fs_nodes:
  "nodes (home_fs key) sample_key_path = key" "nodes (home_fs key) [100] = Some (Dir 448)"
  "nodes (home_fs key) sample_tpm_path = None"
  by (simp_all add: home_fs_def sample_key_path_def sample_tpm_path_def)

lemma home_fs_temp:
  "nodes (home_fs key) (100 # 47 # 46 # x) = None"
  "100 # 47 # 46 # x \<noteq> sample_tpm_path" "sample_tpm_path \<noteq> 100 # 47 # 46 # x"
  "sample_tpm_path \<noteq> [100]" "[100] \<noteq> sample_tpm_path"
  by (simp_all add: home_fs_def sample_key_path_def sample_tpm_path_def)

lemmas tpm_eval = tpm_get_with_def tpm_create_noclobber_with_def tpm_ensure_parent_eq write_tpm_blob_def
  is_not_found_error_def is_already_exists_error_def from_bytes_def zeroed_locked_def

lemma sample_load_ok:
  "is_ok (fst (load_or_create_linux_auto sample_tpm plain_os sample_env
     (home_fs (Some (Reg 384 sample_key)))))"
proof -
  let ?s = "home_fs (Some (Reg 384 sample_key))"
  obtain v where v: "tpm_to_vec sample_tpm \<lparr>tb_scheme = TPM_STORE_SCHEME, tb_hierarchy = ''owner'',
     tb_public = [], tb_private = string_of sample_key\<rparr> = Some v"
    using sample_tpm_simps(3) by blast
  show ?thesis
    by (simp add: load_or_create_linux_auto_def sample_paths file_get_def home_fs_nodes
        migrate_file_key_to_tpm_with_backend_def tpm_eval parent_eval fs_eval length_sample_key
        sample_tpm_simps(1,2) v path_join_def as_bytes_Cons home_fs_temp)
qed

theorem linux_auto_keeps_keys_witness:
  "let (r, s') = load_or_create_linux_auto sample_tpm plain_os sample_env
                   (home_fs (Some (Reg 384 sample_key)))
   in r = Inr sample_key \<and> nodes s' sample_key_path = Some (Reg 384 sample_key)"
proof (cases "load_or_create_linux_auto sample_tpm plain_os sample_env
                   (home_fs (Some (Reg 384 sample_key)))")
  case (Pair r s')
  note t = linux_auto_keeps_keys [OF plain_laws sample_tpm_laws Pair]
  have "not_temp sample_key_path" using default_paths [OF sample_paths(1,2)] by simp
  then have "nodes s' sample_key_path = Some (Reg 384 sample_key)"
    using t home_fs_nodes by (auto simp: keeps_def)
  moreover have "key_file sample_key_path (home_fs (Some (Reg 384 sample_key))) = Some sample_key"
    by (simp add: key_file_def home_fs_nodes length_sample_key)
  ultimately show ?thesis
    using t sample_load_ok by (auto simp: Pair sample_paths home_fs_nodes plain_os_simps is_ok_iff)
qed

lemma sample_import_load:
  "is_ok (fst (load_linux_auto sample_tpm plain_os sample_env
     (snd (import_linux_auto sample_tpm plain_os sample_env sample_key False (home_fs None)))))"
  "fst (import_linux_auto sample_tpm plain_os sample_env sample_key False (home_fs None)) = Inr ()"
proof -
  obtain v where v: "tpm_to_vec sample_tpm \<lparr>tb_scheme = TPM_STORE_SCHEME, tb_hierarchy = ''owner'',
     tb_public = [], tb_private = string_of sample_key\<rparr> = Some v"
   and b: "tpm_from_slice sample_tpm v = Some \<lparr>tb_scheme = TPM_STORE_SCHEME, tb_hierarchy = ''owner'',
     tb_public = [], tb_private = string_of sample_key\<rparr>"
    using sample_tpm_simps(3) by blast
  note eval = import_linux_auto_def load_linux_auto_def sample_paths home_fs_nodes
        tpm_import_with_def tpm_eval parent_eval fs_eval length_sample_key
        sample_tpm_simps(1,2) v b path_join_def as_bytes_Cons home_fs_temp
  show "fst (import_linux_auto sample_tpm plain_os sample_env sample_key False (home_fs None)) = Inr ()"
    by (simp add: eval)
  show "is_ok (fst (load_linux_auto sample_tpm plain_os sample_env
     (snd (import_linux_auto sample_tpm plain_os sample_env sample_key False (home_fs None)))))"
    by (simp add: eval)
qed

theorem linux_auto_import_then_load_witness:
  "fst (load_linux_auto sample_tpm plain_os sample_env
     (snd (import_linux_auto sample_tpm plain_os sample_env sample_key False (home_fs None))))
   = Inr sample_key"
proof (cases "import_linux_auto sample_tpm plain_os sample_env sample_key False (home_fs None)")
  case (Pair r s1)
  with sample_import_load(2) have r: "r = Inr ()" by simp
  obtain k s2 where loaded: "load_linux_auto sample_tpm plain_os sample_env s1 = (Inr k, s2)"
    using sample_import_load(1) by (auto simp: Pair is_ok_iff prod_eq_iff)
  have "k = sample_key"
    by (rule linux_auto_import_then_load [OF plain_laws sample_tpm_laws _ length_sample_key
          Pair [unfolded r] loaded]) (simp add: plain_os_simps)
  with loaded show ?thesis by (simp add: Pair)
qed

end
