(* ===== verification/Keychain.thy ===== *)
theory Keychain
  imports FileStore
begin

text \<open>
  The Keychain store of \<open>crates/avault-store/src/lib.rs\<close> and the macOS \<open>auto\<close> policy, which holds
  the master key in a plain file, in the user's Keychain, or in both.

  \<^item> The trait \<open>KeychainBackend\<close> is the record \<open>keychain\<close> over a state of its own; the policy
    functions work on the pair of the file system and that state.
  \<^item> \<open>SystemKeychain\<close> implements the trait on the operations of \<open>security_framework\<close>, the record
    \<open>security\<close>, of which \<open>security_laws\<close> states what the code relies on.
\<close>

section \<open>Keychain errors\<close>

(* SRC store ERR_SEC_NOT_AVAILABLE *)
definition ERR_SEC_NOT_AVAILABLE :: int where
  "ERR_SEC_NOT_AVAILABLE = -25291"

(* SRC store ERR_SEC_DUPLICATE_ITEM *)
definition ERR_SEC_DUPLICATE_ITEM :: int where
  "ERR_SEC_DUPLICATE_ITEM = -25299"

(* SRC store ERR_SEC_ITEM_NOT_FOUND *)
definition ERR_SEC_ITEM_NOT_FOUND :: int where
  "ERR_SEC_ITEM_NOT_FOUND = -25300"

(* SRC store ERR_SEC_NO_DEFAULT_KEYCHAIN *)
definition ERR_SEC_NO_DEFAULT_KEYCHAIN :: int where
  "ERR_SEC_NO_DEFAULT_KEYCHAIN = -25307"

(* SRC store ERR_SEC_INTERACTION_NOT_ALLOWED *)
definition ERR_SEC_INTERACTION_NOT_ALLOWED :: int where
  "ERR_SEC_INTERACTION_NOT_ALLOWED = -25308"

(* SRC store ERR_SEC_USER_CANCELED *)
definition ERR_SEC_USER_CANCELED :: int where
  "ERR_SEC_USER_CANCELED = -128"

(* SRC store ERR_SEC_AUTH_FAILED *)
definition ERR_SEC_AUTH_FAILED :: int where
  "ERR_SEC_AUTH_FAILED = -25293"

lemmas err_sec_defs = ERR_SEC_NOT_AVAILABLE_def ERR_SEC_DUPLICATE_ITEM_def
  ERR_SEC_ITEM_NOT_FOUND_def ERR_SEC_NO_DEFAULT_KEYCHAIN_def ERR_SEC_INTERACTION_NOT_ALLOWED_def
  ERR_SEC_USER_CANCELED_def ERR_SEC_AUTH_FAILED_def

(* SRC store keychain_error_code *)
fun keychain_error_code :: "err \<Rightarrow> int option" where
  "keychain_error_code [] = None"
| "keychain_error_code (KeychainStatus c # _) = Some c"
| "keychain_error_code (_ # e) = keychain_error_code e"

(* SRC store is_keychain_not_found *)
definition is_keychain_not_found :: "err \<Rightarrow> bool" where
  "is_keychain_not_found e \<longleftrightarrow> keychain_error_code e = Some ERR_SEC_ITEM_NOT_FOUND"

(* SRC store is_keychain_duplicate *)
definition is_keychain_duplicate :: "err \<Rightarrow> bool" where
  "is_keychain_duplicate e \<longleftrightarrow> keychain_error_code e = Some ERR_SEC_DUPLICATE_ITEM"

(* SRC store is_keychain_unavailable *)
definition is_keychain_unavailable :: "err \<Rightarrow> bool" where
  "is_keychain_unavailable e \<longleftrightarrow> keychain_error_code e \<in>
     {Some ERR_SEC_NOT_AVAILABLE, Some ERR_SEC_NO_DEFAULT_KEYCHAIN, Some ERR_SEC_INTERACTION_NOT_ALLOWED}"

(* SRC store is_keychain_denial *)
definition is_keychain_denial :: "err \<Rightarrow> bool" where
  "is_keychain_denial e \<longleftrightarrow>
     keychain_error_code e \<in> {Some ERR_SEC_USER_CANCELED, Some ERR_SEC_AUTH_FAILED}"

(* SRC store background_keychain_error *)
definition background_keychain_error :: "err \<Rightarrow> err" where
  "background_keychain_error e =
     (if keychain_error_code e \<in> {Some ERR_SEC_INTERACTION_NOT_ALLOWED, Some ERR_SEC_AUTH_FAILED}
      then KeychainAuthorizationRequired # e else e)"

section \<open>The system's Keychain\<close>

(* SRC store KEYCHAIN_SERVICE *)
definition KEYCHAIN_SERVICE :: string where
  "KEYCHAIN_SERVICE = ''bot.avibe.avault''"

(* SRC store KEYCHAIN_ACCOUNT *)
definition KEYCHAIN_ACCOUNT :: string where
  "KEYCHAIN_ACCOUNT = ''standard-master-key''"

(* SRC store KEYCHAIN_SESSION_HINT *)
definition KEYCHAIN_SESSION_HINT :: string where
  "KEYCHAIN_SESSION_HINT =
     ''macOS can show the Keychain authorization prompt only in a logged-in desktop session''"

text \<open>
  \<open>security_framework\<close>: switching the user interface off and, when the guard is dropped, on
  again; the operations on a generic password; and whether the page of a key can be allocated.
  An operation fails with a status code.
\<close>

record 'k security =
  disable_user_interaction :: "'k \<Rightarrow> (int + unit) \<times> 'k"
  restore_user_interaction :: "'k \<Rightarrow> 'k"
  get_generic_password :: "string \<Rightarrow> string \<Rightarrow> 'k \<Rightarrow> (int + bytes) \<times> 'k"
  default_keychain :: "'k \<Rightarrow> (int + unit) \<times> 'k"
  add_generic_password :: "string \<Rightarrow> string \<Rightarrow> bytes \<Rightarrow> 'k \<Rightarrow> (int + unit) \<times> 'k"
  set_generic_password :: "string \<Rightarrow> string \<Rightarrow> bytes \<Rightarrow> 'k \<Rightarrow> (int + unit) \<times> 'k"
  page_available :: "'k \<Rightarrow> bool"

definition from_status :: "(int + 'a) \<times> 'k \<Rightarrow> 'a res \<times> 'k" where
  "from_status rk = (case rk of (Inl c, k) \<Rightarrow> (Inl [KeychainStatus c], k) | (Inr x, k) \<Rightarrow> (Inr x, k))"

(* SRC store SystemKeychain *)
datatype system_keychain = Background | Authorize

(* SRC store SystemKeychain::call *)
definition system_call ::
    "'k security \<Rightarrow> system_keychain \<Rightarrow> ('k \<Rightarrow> 'a res \<times> 'k) \<Rightarrow> 'k \<Rightarrow> 'a res \<times> 'k" where
  "system_call S mode call k = (case mode of
       Background \<Rightarrow>
         then_st (context_st ''failed to disable Keychain user interaction''
                    (from_status (disable_user_interaction S k))) (\<lambda>_ k.
         case call k of
           (Inr x, k) \<Rightarrow> (Inr x, restore_user_interaction S k)
         | (Inl e, k) \<Rightarrow> (Inl (background_keychain_error e), restore_user_interaction S k))
     | Authorize \<Rightarrow> (case call k of
           (Inr x, k) \<Rightarrow> (Inr x, k)
         | (Inl e, k) \<Rightarrow>
             (Inl (if keychain_error_code e = Some ERR_SEC_INTERACTION_NOT_ALLOWED
                   then Msg KEYCHAIN_SESSION_HINT # e else e), k)))"

(* SRC store KeychainBackend *)
record 'k keychain =
  kc_read :: "'k \<Rightarrow> master_key res \<times> 'k"
  kc_add :: "bytes \<Rightarrow> 'k \<Rightarrow> unit res \<times> 'k"
  kc_replace :: "bytes \<Rightarrow> 'k \<Rightarrow> unit res \<times> 'k"

(* SRC store 1532-1548 SystemKeychain::read *)
definition system_read :: "'k security \<Rightarrow> system_keychain \<Rightarrow> 'k \<Rightarrow> master_key res \<times> 'k" where
  "system_read S mode = system_call S mode (\<lambda>k.
     then_st (context_st ''failed to read master key from Keychain''
                (from_status (get_generic_password S KEYCHAIN_SERVICE KEYCHAIN_ACCOUNT k))) (\<lambda>bs k.
     if length bs \<noteq> MASTER_KEY_BYTES then (bail ''master key has invalid length'', k)
     else if \<not> page_available S k then (bail ''failed to allocate master key page'', k)
     else (Inr bs, k)))"

(* SRC store 1550-1556 SystemKeychain::add *)
definition system_add :: "'k security \<Rightarrow> system_keychain \<Rightarrow> bytes \<Rightarrow> 'k \<Rightarrow> unit res \<times> 'k" where
  "system_add S mode key = system_call S mode (\<lambda>k.
     then_st (from_status (default_keychain S k)) (\<lambda>_ k.
     from_status (add_generic_password S KEYCHAIN_SERVICE KEYCHAIN_ACCOUNT key k)))"

(* SRC store 1558-1563 SystemKeychain::replace *)
definition system_replace :: "'k security \<Rightarrow> system_keychain \<Rightarrow> bytes \<Rightarrow> 'k \<Rightarrow> unit res \<times> 'k" where
  "system_replace S mode key = system_call S mode (\<lambda>k.
     from_status (set_generic_password S KEYCHAIN_SERVICE KEYCHAIN_ACCOUNT key k))"

definition system_keychain :: "'k security \<Rightarrow> system_keychain \<Rightarrow> 'k keychain" where
  "system_keychain S mode = \<lparr>kc_read = system_read S mode, kc_add = system_add S mode,
     kc_replace = system_replace S mode\<rparr>"

section \<open>The store and the automatic choice on macOS\<close>

text \<open>Operations on one half of the state.\<close>

definition on_fs :: "(fs \<Rightarrow> 'a \<times> fs) \<Rightarrow> fs \<times> 'k \<Rightarrow> 'a \<times> (fs \<times> 'k)" where
  "on_fs f w = (let (r, s) = f (fst w) in (r, (s, snd w)))"

definition on_keychain :: "('k \<Rightarrow> 'a \<times> 'k) \<Rightarrow> fs \<times> 'k \<Rightarrow> 'a \<times> (fs \<times> 'k)" where
  "on_keychain f w = (let (r, k) = f (snd w) in (r, (fst w, k)))"

(* SRC store get_or_create_keychain_key *)
definition get_or_create_keychain_key ::
    "'k keychain \<Rightarrow> 'o os_scheme \<Rightarrow> fs \<times> 'k \<Rightarrow> master_key res \<times> (fs \<times> 'k)" where
  "get_or_create_keychain_key K os w =
     (case on_keychain (kc_read K) w of
        (Inr key, w) \<Rightarrow> (Inr key, w)
      | (Inl e, w) \<Rightarrow>
          if is_keychain_not_found e
          then then_st (on_fs (generate_locked os) w) (\<lambda>key w.
               case on_keychain (kc_add K key) w of
                 (Inr _, w) \<Rightarrow> (Inr key, w)
               | (Inl e, w) \<Rightarrow>
                   if is_keychain_duplicate e then on_keychain (kc_read K) w
                   else (Inl (Msg ''failed to create master key in Keychain'' # e), w))
          else (Inl e, w))"

(* SRC store import_keychain_key *)
definition import_keychain_key :: "'k keychain \<Rightarrow> bytes \<Rightarrow> bool \<Rightarrow> 'k \<Rightarrow> unit res \<times> 'k" where
  "import_keychain_key K key force k =
     (if force
      then context_st ''failed to store imported master key in Keychain'' (kc_replace K key k)
      else (case kc_add K key k of
              (Inr _, k) \<Rightarrow> (Inr (), k)
            | (Inl e, k) \<Rightarrow>
                if is_keychain_duplicate e then (Inl (Msg ''master key already exists'' # e), k)
                else (Inl (Msg ''failed to store imported master key in Keychain'' # e), k)))"

(* SRC store migrate_file_key_to_keychain *)
definition migrate_file_key_to_keychain :: "'k keychain \<Rightarrow> bytes \<Rightarrow> 'k \<Rightarrow> master_key res \<times> 'k" where
  "migrate_file_key_to_keychain K file_key k =
     (case kc_read K k of
        (Inr keychain_key, k) \<Rightarrow>
          if keychain_key = file_key then (Inr keychain_key, k)
          else (bail ''file master key differs from Keychain master key; refusing to choose automatically'', k)
      | (Inl e, k) \<Rightarrow>
          if is_keychain_not_found e
          then (case kc_add K file_key k of
                  (Inr _, k) \<Rightarrow> (Inr file_key, k)
                | (Inl e, k) \<Rightarrow>
                    if is_keychain_duplicate e
                    then then_st (kc_read K k) (\<lambda>keychain_key k.
                         if keychain_key = file_key then (Inr keychain_key, k)
                         else (bail ''file master key differs from concurrently created Keychain master key'', k))
                    else if is_keychain_unavailable e then (Inr file_key, k)
                    else (Inl (Msg ''failed to migrate file master key to Keychain'' # e), k))
          else if is_keychain_unavailable e then (Inr file_key, k)
          else (Inl e, k))"

(* SRC store load_existing_file_master_key *)
definition load_existing_file_master_key ::
    "'o os_scheme \<Rightarrow> path option \<Rightarrow> fs \<Rightarrow> master_key option res \<times> fs" where
  "load_existing_file_master_key os p s = (case p of
       None \<Rightarrow> (Inr None, s)
     | Some p \<Rightarrow> (let (ex, s) = path_exists os p s
                  in if ex then then_st (file_get os p s) (\<lambda>key s. (Inr (Some key), s))
                     else (Inr None, s)))"

(* SRC store load_auto_master_key_with *)
definition load_auto_master_key_with ::
    "'k keychain \<Rightarrow> 'o os_scheme \<Rightarrow> path option \<Rightarrow> bool \<Rightarrow> fs \<times> 'k \<Rightarrow> master_key res \<times> (fs \<times> 'k)" where
  "load_auto_master_key_with K os p create w =
     then_st (on_fs (load_existing_file_master_key os p) w) (\<lambda>file_key w.
     case file_key of
       Some key \<Rightarrow> on_keychain (migrate_file_key_to_keychain K key) w
     | None \<Rightarrow> (case (if create then get_or_create_keychain_key K os w else on_keychain (kc_read K) w) of
           (Inr key, w) \<Rightarrow> (Inr key, w)
         | (Inl e, w) \<Rightarrow>
             if is_keychain_unavailable e
             then (Inl (Msg ''Keychain is unavailable and no existing file master key was found'' # e), w)
             else (Inl e, w)))"

(* SRC store auto_file_store *)
definition auto_file_store :: "environment \<Rightarrow> path option res" where
  "auto_file_store env =
     (if env ''AVAULT_HOME'' \<noteq> None \<or> env ''HOME'' \<noteq> None
      then map_res Some (default_master_key_path env)
      else Inr None)"

(* SRC store import_auto_master_key@630 *)
definition import_auto_master_key ::
    "'k keychain \<Rightarrow> 'o os_scheme \<Rightarrow> environment \<Rightarrow> bytes \<Rightarrow> bool \<Rightarrow> fs \<times> 'k \<Rightarrow> unit res \<times> (fs \<times> 'k)" where
  "import_auto_master_key K os env key force w =
     then_st (auto_file_store env, w) (\<lambda>store w.
     let (ex, w) = (case store of
            None \<Rightarrow> (False, w) | Some p \<Rightarrow> on_fs (path_exists os p) w)
     in if ex
        then if \<not> force then (bail ''master key already exists'', w)
             else then_st (context_st ''failed to store imported master key in Keychain''
                             (on_keychain (import_keychain_key K key True) w)) (\<lambda>_ w.
                  context_st ''failed to store imported master key in file store''
                    (on_fs (file_import os (the store) key True) w))
        else (case on_keychain (import_keychain_key K key force) w of
               (Inr _, w) \<Rightarrow> (Inr (), w)
             | (Inl e, w) \<Rightarrow>
                 if is_keychain_unavailable e
                 then (Inl (Msg ''Keychain is unavailable; use --store file to import into file storage'' # e), w)
                 else (Inl e, w)))"

(* SRC store KeychainStore::get_or_create@1574 *)
definition keychain_get_or_create ::
    "'k security \<Rightarrow> 'o os_scheme \<Rightarrow> fs \<times> 'k \<Rightarrow> master_key res \<times> (fs \<times> 'k)" where
  "keychain_get_or_create S os = get_or_create_keychain_key (system_keychain S Background) os"

(* SRC store KeychainStore::get@1579 *)
definition keychain_get :: "'k security \<Rightarrow> 'k \<Rightarrow> master_key res \<times> 'k" where
  "keychain_get S = kc_read (system_keychain S Background)"

(* SRC store KeychainStore::import@1590 *)
definition keychain_import :: "'k security \<Rightarrow> bytes \<Rightarrow> bool \<Rightarrow> 'k \<Rightarrow> unit res \<times> 'k" where
  "keychain_import S key force = import_keychain_key (system_keychain S Background) key force"

(* SRC store load_or_create_auto_master_key@553 *)
definition load_or_create_auto_master_key ::
    "'k security \<Rightarrow> 'o os_scheme \<Rightarrow> environment \<Rightarrow> fs \<times> 'k \<Rightarrow> master_key res \<times> (fs \<times> 'k)" where
  "load_or_create_auto_master_key S os env w =
     then_st (auto_file_store env, w) (\<lambda>p w.
     load_auto_master_key_with (system_keychain S Background) os p True w)"

(* SRC store load_auto_master_key@572 *)
definition load_auto_master_key ::
    "'k security \<Rightarrow> 'o os_scheme \<Rightarrow> environment \<Rightarrow> fs \<times> 'k \<Rightarrow> master_key res \<times> (fs \<times> 'k)" where
  "load_auto_master_key S os env w =
     then_st (auto_file_store env, w) (\<lambda>p w.
     load_auto_master_key_with (system_keychain S Background) os p False w)"

section \<open>The contract of a Keychain\<close>

text \<open>
  \<open>item\<close> is the password of the master-key item in a state of the Keychain. Reading changes
  nothing and returns the item, adding succeeds only where there is none, replacing always stores,
  and an operation that fails leaves the item alone.
\<close>

locale keychain_item =
  fixes K :: "'k keychain" and item :: "'k \<Rightarrow> bytes option"
  assumes read_item: "kc_read K k = (Inr key, k') \<Longrightarrow> item k = Some key \<and> length key = MASTER_KEY_BYTES"
    and read_keeps: "kc_read K k = (r, k') \<Longrightarrow> item k' = item k"
    and add_item: "kc_add K key k = (Inr (), k') \<Longrightarrow> item k = None \<and> item k' = Some key"
    and add_keeps: "kc_add K key k = (Inl e, k') \<Longrightarrow> item k' = item k"
    and replace_item: "kc_replace K key k = (Inr (), k') \<Longrightarrow> item k' = Some key"
    and replace_keeps: "kc_replace K key k = (Inl e, k') \<Longrightarrow> item k' = item k"
begin

lemma import_Inr: "import_keychain_key K key force k = (Inr (), k') \<Longrightarrow> item k' = Some key"
  by (auto simp: import_keychain_key_def context_st_eq_Inr replace_item add_item
      split: if_splits prod.splits sum.splits)

lemma import_Inl:
  assumes "import_keychain_key K key force k = (Inl e, k')"
  shows "item k' = item k"
proof (cases force)
  case True
  then show ?thesis
    using assms replace_keeps [of key k] by (cases "kc_replace K key k"; cases "fst (kc_replace K key k)")
      (auto simp: import_keychain_key_def)
next
  case False
  then show ?thesis
    using assms add_keeps [of key k] by (cases "kc_add K key k"; cases "fst (kc_add K key k)")
      (auto simp: import_keychain_key_def split: if_splits)
qed

lemma import_refused:
  assumes "import_keychain_key K key False k = (r, k')" "item k \<noteq> None"
  shows "item k' = item k \<and> (\<exists>e. r = Inl e)"
  using assms add_item [of key k] add_keeps [of key k]
  by (cases "kc_add K key k"; cases "fst (kc_add K key k)")
     (auto simp: import_keychain_key_def split: if_splits)

lemma migrate_key:
  "migrate_file_key_to_keychain K key k = (Inr key', k') \<Longrightarrow> key' = key"
  by (auto simp: migrate_file_key_to_keychain_def then_st_eq_Inr
      split: prod.splits sum.splits if_splits)

lemma migrate_keeps_item:
  assumes "migrate_file_key_to_keychain K key k = (r, k')"
  shows "item k' = item k \<or> item k = None \<and> item k' = Some key"
proof -
  obtain r1 k1 where 1: "kc_read K k = (r1, k1)" by (cases "kc_read K k")
  have i1: "item k1 = item k" by (rule read_keeps [OF 1])
  obtain r2 k2 where 2: "kc_add K key k1 = (r2, k2)" by (cases "kc_add K key k1")
  obtain r3 k3 where 3: "kc_read K k2 = (r3, k3)" by (cases "kc_read K k2")
  have i3: "item k3 = item k2" by (rule read_keeps [OF 3])
  have added: "item k2 = item k1 \<or> item k1 = None \<and> item k2 = Some key"
    using add_item [of key k1] add_keeps [of key k1] 2 by (cases r2) auto
  have "k' = k1 \<or> k' = k2 \<or> k' = k3"
    using assms by (cases r1; cases r2; cases r3)
      (auto simp: migrate_file_key_to_keychain_def 1 2 3 split: if_splits)
  with i1 i3 added show ?thesis by auto
qed

lemma get_or_create_item:
  assumes run: "get_or_create_keychain_key K os (s, k) = (r, (s', k'))"
  shows "(item k' = item k \<or> item k = None \<and> (\<exists>key. item k' = Some key \<and> length key = MASTER_KEY_BYTES)) \<and>
         nodes s' = nodes s \<and> (\<forall>key. r = Inr key \<longrightarrow> item k' = Some key)"
proof -
  obtain r1 k1 where 1: "kc_read K k = (r1, k1)" by (cases "kc_read K k")
  have i1: "item k1 = item k" by (rule read_keeps [OF 1])
  show ?thesis
  proof (cases r1)
    case (Inr key)
    then show ?thesis
      using run 1 i1 read_item [of k key k1]
      by (auto simp: get_or_create_keychain_key_def on_keychain_def)
  next
    case (Inl e)
    obtain r2 s2 where 2: "generate_locked os s = (r2, s2)" by (cases "generate_locked os s")
    note g = generate_locked_cases [OF 2]
    show ?thesis
    proof (cases "is_keychain_not_found e \<and> (\<exists>key. r2 = Inr key)")
      case False
      then show ?thesis
        using run 1 2 Inl i1 g
        by (cases r2) (auto simp: get_or_create_keychain_key_def on_keychain_def on_fs_def split: if_splits)
    next
      case True
      then obtain key where key: "r2 = Inr key" by blast
      have len: "length key = MASTER_KEY_BYTES" using g key by simp
      obtain r3 k3 where 3: "kc_add K key k1 = (r3, k3)" by (cases "kc_add K key k1")
      have added: "item k3 = item k1 \<or> item k1 = None \<and> item k3 = Some key"
        using add_item [of key k1] add_keeps [of key k1] 3 by (cases r3) auto
      obtain r4 k4 where 4: "kc_read K k3 = (r4, k4)" by (cases "kc_read K k3")
      have i4: "item k4 = item k3" by (rule read_keeps [OF 4])
      show ?thesis
      proof (cases r3)
        case (Inr u)
        then show ?thesis
          using run 1 2 3 Inl True key i1 g len add_item [of key k1 k3]
          by (auto simp: get_or_create_keychain_key_def on_keychain_def on_fs_def)
      next
        case (Inl e2)
        have eq: "(r, (s', k')) = (if is_keychain_duplicate e2 then (r4, (s2, k4))
            else (Inl (Msg ''failed to create master key in Keychain'' # e2), (s2, k3)))"
          using run 1 2 3 4 \<open>r1 = Inl e\<close> True key Inl
          by (auto simp: get_or_create_keychain_key_def on_keychain_def on_fs_def split: if_splits)
        then show ?thesis
          using i1 i4 added g len read_item [of k3 _ k4] 4 by (auto split: if_splits)
      qed
    qed
  qed
qed

end

text \<open>Any Keychain is a master-key store.\<close>

definition held_key :: "bytes option \<Rightarrow> bytes option" where
  "held_key i = (case i of Some b \<Rightarrow> if length b = MASTER_KEY_BYTES then Some b else None | None \<Rightarrow> None)"

sublocale keychain_item \<subseteq> slot: key_store "kc_read K" "import_keychain_key K"
    "\<lambda>k. held_key (item k)" "\<lambda>k. item k \<noteq> None"
proof
  fix s k assume "held_key (item s) = Some k"
  then show "item s \<noteq> None" by (cases "item s") (auto simp: held_key_def)
next
  fix s r s' assume "kc_read K s = (r, s')"
  then show "held_key (item s') = held_key (item s) \<and> (item s' \<noteq> None) = (item s \<noteq> None)"
    by (simp add: read_keeps)
next
  fix s k s' assume "kc_read K s = (Inr k, s')"
  then show "held_key (item s) = Some k" using read_item by (simp add: held_key_def)
next
  fix k force s s'
  assume "length k = MASTER_KEY_BYTES" "import_keychain_key K k force s = (Inr (), s')"
  then show "held_key (item s') = Some k" using import_Inr by (simp add: held_key_def)
next
  fix k force s e s'
  assume "import_keychain_key K k force s = (Inl e, s')"
  then show "held_key (item s') = held_key (item s) \<or> held_key (item s') = Some k"
    using import_Inl by simp
next
  fix s k r2 s' assume "item s \<noteq> None" "import_keychain_key K k False s = (r2, s')"
  then show "held_key (item s') = held_key (item s) \<and> item s' \<noteq> None \<and> (\<exists>e. r2 = Inl e)"
    using import_refused by metis
qed

text \<open>What the code relies on of \<open>security_framework\<close>.\<close>

definition security_laws :: "'k security \<Rightarrow> ('k \<Rightarrow> bytes option) \<Rightarrow> bool" where
  "security_laws S item \<longleftrightarrow>
     (\<forall>k. item (snd (disable_user_interaction S k)) = item k) \<and>
     (\<forall>k. item (restore_user_interaction S k) = item k) \<and>
     (\<forall>k. item (snd (default_keychain S k)) = item k) \<and>
     (\<forall>k. item (snd (get_generic_password S KEYCHAIN_SERVICE KEYCHAIN_ACCOUNT k)) = item k) \<and>
     (\<forall>k b. fst (get_generic_password S KEYCHAIN_SERVICE KEYCHAIN_ACCOUNT k) = Inr b \<longrightarrow> item k = Some b) \<and>
     (\<forall>k b. (case add_generic_password S KEYCHAIN_SERVICE KEYCHAIN_ACCOUNT b k of
               (Inr _, k') \<Rightarrow> item k = None \<and> item k' = Some b | (Inl _, k') \<Rightarrow> item k' = item k)) \<and>
     (\<forall>k b. (case set_generic_password S KEYCHAIN_SERVICE KEYCHAIN_ACCOUNT b k of
               (Inr _, k') \<Rightarrow> item k' = Some b | (Inl _, k') \<Rightarrow> item k' = item k))"

lemma from_status_cases:
  "from_status m = (r, k) \<longleftrightarrow>
     (\<exists>c. m = (Inl c, k) \<and> r = Inl [KeychainStatus c]) \<or> (\<exists>x. m = (Inr x, k) \<and> r = Inr x)"
  by (cases m; cases "fst m") (auto simp: from_status_def)

lemma system_call_cases:
  assumes "security_laws S item" "system_call S mode call k = (r, k')"
  obtains (failed) e where "item k' = item k" "r = Inl e"
    | (called) k1 r2 k2 where "item k1 = item k" "call k1 = (r2, k2)" "item k' = item k2"
        "r = r2 \<or> (\<exists>e e'. r2 = Inl e \<and> r = Inl e')"
proof (cases mode)
  case Background
  obtain rd kd where d: "from_status (disable_user_interaction S k) = (rd, kd)"
    by (cases "from_status (disable_user_interaction S k)")
  have "kd = snd (disable_user_interaction S k)" using d by (auto simp: from_status_cases)
  then have id: "item kd = item k" using assms(1) by (simp add: security_laws_def)
  obtain rc kc where c: "call kd = (rc, kc)" by (cases "call kd")
  have restore: "item (restore_user_interaction S kc) = item kc"
    using assms(1) by (simp add: security_laws_def)
  show ?thesis
  proof (cases rd)
    case (Inl e)
    then show ?thesis using assms(2) Background d id failed by (auto simp: system_call_def)
  next
    case (Inr u)
    have "(r, k') = (case rc of Inr x \<Rightarrow> (Inr x, restore_user_interaction S kc)
        | Inl e \<Rightarrow> (Inl (background_keychain_error e), restore_user_interaction S kc))"
      unfolding assms(2) [symmetric] system_call_def Background system_keychain.case d Inr
      by (simp add: c)
    then have "k' = restore_user_interaction S kc"
        "r = rc \<or> (\<exists>e e'. rc = Inl e \<and> r = Inl e')"
      by (cases rc; simp)+
    with id c restore show ?thesis by (intro called [of kd rc kc]) simp_all
  qed
next
  case Authorize
  obtain rc kc where c: "call k = (rc, kc)" by (cases "call k")
  have "(r, k') = (case rc of Inr x \<Rightarrow> (Inr x, kc)
      | Inl e \<Rightarrow> (Inl (if keychain_error_code e = Some ERR_SEC_INTERACTION_NOT_ALLOWED
                     then Msg KEYCHAIN_SESSION_HINT # e else e), kc))"
    unfolding assms(2) [symmetric] system_call_def Authorize system_keychain.case c
    by (cases rc) simp_all
  then have "k' = kc" "r = rc \<or> (\<exists>e e'. rc = Inl e \<and> r = Inl e')"
    by (cases rc; simp)+
  with c show ?thesis by (intro called [of k rc kc]) simp_all
qed

locale lawful_security =
  fixes S :: "'k security" and item :: "'k \<Rightarrow> bytes option" and mode :: system_keychain
  assumes security: "security_laws S item"
begin

lemma system_read_cases:
  assumes "system_read S mode k = (r, k')"
  shows "item k' = item k \<and> (\<forall>key. r = Inr key \<longrightarrow> item k = Some key \<and> length key = MASTER_KEY_BYTES)"
proof -
  have law: "item (snd (get_generic_password S KEYCHAIN_SERVICE KEYCHAIN_ACCOUNT k)) = item k"
    "fst (get_generic_password S KEYCHAIN_SERVICE KEYCHAIN_ACCOUNT k) = Inr b \<Longrightarrow> item k = Some b" for k b
    using security unfolding security_laws_def by blast+
  from security assms [unfolded system_read_def] show ?thesis
  proof (cases rule: system_call_cases)
    case (called k1 r2 k2)
    obtain r3 k3 where 3: "get_generic_password S KEYCHAIN_SERVICE KEYCHAIN_ACCOUNT k1 = (r3, k3)"
      by (cases "get_generic_password S KEYCHAIN_SERVICE KEYCHAIN_ACCOUNT k1")
    have i3: "item k3 = item k1" using law(1) [of k1] by (simp add: 3)
    show ?thesis
    proof (cases r3)
      case (Inl c)
      then show ?thesis using called 3 i3 by (auto simp: from_status_def)
    next
      case (Inr b)
      then have "item k1 = Some b" using law(2) [of k1 b] by (simp add: 3)
      then show ?thesis
        using called 3 Inr i3 by (auto simp: from_status_def bail_def split: if_splits)
    qed
  qed simp
qed

lemma system_add_cases:
  assumes "system_add S mode key k = (r, k')"
  shows "(case r of Inr _ \<Rightarrow> item k = None \<and> item k' = Some key | Inl _ \<Rightarrow> item k' = item k)"
proof -
  have default: "item (snd (default_keychain S k)) = item k" for k
    using security unfolding security_laws_def by blast
  have add: "(case add_generic_password S KEYCHAIN_SERVICE KEYCHAIN_ACCOUNT key k of
      (Inr _, k') \<Rightarrow> item k = None \<and> item k' = Some key | (Inl _, k') \<Rightarrow> item k' = item k)" for k
    using security unfolding security_laws_def by (elim conjE) (erule allE, erule allE, assumption)
  from security assms [unfolded system_add_def] show ?thesis
  proof (cases rule: system_call_cases)
    case (called k1 r2 k2)
    obtain r3 k3 where 3: "default_keychain S k1 = (r3, k3)" by (cases "default_keychain S k1")
    have i3: "item k3 = item k1" using default [of k1] by (simp add: 3)
    obtain r4 k4 where 4: "add_generic_password S KEYCHAIN_SERVICE KEYCHAIN_ACCOUNT key k3 = (r4, k4)"
      by (cases "add_generic_password S KEYCHAIN_SERVICE KEYCHAIN_ACCOUNT key k3")
    show ?thesis
      using called 3 4 i3 add [of k3] by (cases r3; cases r4) (auto simp: from_status_def)
  qed simp
qed

lemma system_replace_cases:
  assumes "system_replace S mode key k = (r, k')"
  shows "(case r of Inr _ \<Rightarrow> item k' = Some key | Inl _ \<Rightarrow> item k' = item k)"
proof -
  have set: "(case set_generic_password S KEYCHAIN_SERVICE KEYCHAIN_ACCOUNT key k of
      (Inr _, k') \<Rightarrow> item k' = Some key | (Inl _, k') \<Rightarrow> item k' = item k)" for k
    using security unfolding security_laws_def by (elim conjE) (erule allE, erule allE, assumption)
  from security assms [unfolded system_replace_def] show ?thesis
  proof (cases rule: system_call_cases)
    case (called k1 r2 k2)
    then show ?thesis using set [of k1] by (auto simp: from_status_cases)
  qed simp
qed

end

sublocale lawful_security \<subseteq> system: keychain_item "system_keychain S mode" item
  by unfold_locales
     (auto simp: system_keychain_def dest!: system_read_cases system_add_cases system_replace_cases)

context keychain_item
begin

lemma load_existing:
  assumes "load_existing_file_master_key os p s = (r, s')"
  shows "nodes s' = nodes s \<and>
    (\<forall>key. r = Inr (Some key) \<longrightarrow> (\<exists>path. p = Some path \<and> key_file path s = Some key)) \<and>
    (r = Inr None \<longrightarrow> (case p of None \<Rightarrow> True | Some path \<Rightarrow>
        \<not> (nodes s path \<noteq> None \<and> fault os (calls s) = None))) \<and>
    ((case p of None \<Rightarrow> True | Some path \<Rightarrow> \<not> (nodes s path \<noteq> None \<and> fault os (calls s) = None))
       \<longrightarrow> r = Inr None)"
proof (cases p)
  case None
  then show ?thesis using assms by (auto simp: load_existing_file_master_key_def)
next
  case (Some path)
  obtain r1 s1 where 1: "file_get os path (s\<lparr>calls := Suc (calls s)\<rparr>) = (r1, s1)"
    by (cases "file_get os path (s\<lparr>calls := Suc (calls s)\<rparr>)")
  have n1: "nodes s1 = nodes s" using nodes_file_get [of os path "s\<lparr>calls := Suc (calls s)\<rparr>"] 1 by simp
  have "r1 = Inr key \<Longrightarrow> key_file path s = Some key" for key
    using file_get_sound [of os path "s\<lparr>calls := Suc (calls s)\<rparr>"] 1 by (simp add: key_file_def)
  then show ?thesis
    using assms Some 1 n1
    by (cases r1) (auto simp: load_existing_file_master_key_def path_exists_def split: if_splits)
qed

text \<open>With a key file, by what the Keychain answers.\<close>

lemma migrate_policy:
  assumes "migrate_file_key_to_keychain K fkey k = (r, k')"
  shows "case kc_read K k of
      (Inr kkey, _) \<Rightarrow> item k' = item k \<and> (if kkey = fkey then r = Inr fkey else \<not> is_ok r)
    | (Inl e, k1) \<Rightarrow>
        if is_keychain_not_found e
        then (case kc_add K fkey k1 of
                (Inr _, _) \<Rightarrow> r = Inr fkey \<and> item k' = Some fkey
              | (Inl _, _) \<Rightarrow> item k' = item k \<and> (case r of Inl _ \<Rightarrow> True | Inr key \<Rightarrow> key = fkey))
        else item k' = item k \<and> r = (if is_keychain_unavailable e then Inr fkey else Inl e)"
proof -
  obtain r1 k1 where 1: "kc_read K k = (r1, k1)" by (cases "kc_read K k")
  obtain r2 k2 where 2: "kc_add K fkey k1 = (r2, k2)" by (cases "kc_add K fkey k1")
  obtain r3 k3 where 3: "kc_read K k2 = (r3, k3)" by (cases "kc_read K k2")
  have items: "item k1 = item k" "item k3 = item k2" by (rule read_keeps [OF 1], rule read_keeps [OF 3])
  show ?thesis
  proof (cases r1)
    case (Inr kkey)
    then show ?thesis using assms 1 items by (auto simp: migrate_file_key_to_keychain_def bail_def split: if_splits)
  next
    case (Inl e)
    show ?thesis
    proof (cases r2)
      case (Inr u)
      then have "item k2 = Some fkey" using add_item [of fkey k1 k2] 2 by simp
      then show ?thesis using assms 1 2 Inl Inr items by (auto simp: migrate_file_key_to_keychain_def split: if_splits)
    next
      case (Inl e2)
      have "item k2 = item k1" using add_keeps [OF 2 [unfolded Inl]] .
      then show ?thesis
        using assms 1 2 3 Inl \<open>r1 = Inl e\<close> items
        by (cases r3) (auto simp: migrate_file_key_to_keychain_def bail_def split: if_splits)
    qed
  qed
qed

text \<open>A file that is found and cannot be read as a key is an error: the Keychain is not asked.\<close>

lemma load_auto_found:
  assumes run: "load_auto_master_key_with K os (Some path) create (s, k) = (r, (s', k'))"
    and found: "nodes s path \<noteq> None" "fault os (calls s) = None"
  shows "case fst (load_existing_file_master_key os (Some path) s) of
      Inl e \<Rightarrow> r = Inl e \<and> k' = k
    | Inr None \<Rightarrow> False
    | Inr (Some fkey) \<Rightarrow> key_file path s = Some fkey \<and> migrate_file_key_to_keychain K fkey k = (r, k')"
proof -
  obtain r1 s1 where 1: "load_existing_file_master_key os (Some path) s = (r1, s1)"
    by (cases "load_existing_file_master_key os (Some path) s")
  show ?thesis
    using run 1 load_existing [OF 1] found
    by (cases r1) (auto simp: load_auto_master_key_with_def on_fs_def on_keychain_def split: prod.splits option.splits)
qed

lemma load_auto_cases:
  assumes run: "load_auto_master_key_with K os p create (s, k) = (r, (s', k'))"
  defines "absent \<equiv> (case p of None \<Rightarrow> True | Some path \<Rightarrow>
      \<not> (nodes s path \<noteq> None \<and> fault os (calls s) = None))"
  shows "nodes s' = nodes s"
    and "item k' = item k \<or> item k = None"
    and "r = Inr key \<Longrightarrow> if absent then item k' = Some key
                      else \<exists>path. p = Some path \<and> key_file path s = Some key"
    and "absent \<Longrightarrow> \<not> create \<Longrightarrow> item k' = item k"
    and "absent \<Longrightarrow> kc_read K k = (Inl e, k2) \<Longrightarrow> \<not> is_keychain_not_found e \<Longrightarrow>
           item k' = item k \<and> (\<exists>e. r = Inl e)"
proof -
  obtain r1 s1 where 1: "load_existing_file_master_key os p s = (r1, s1)"
    by (cases "load_existing_file_master_key os p s")
  note le = load_existing [OF 1]
  have main: "nodes s' = nodes s \<and> (item k' = item k \<or> item k = None) \<and>
      (\<forall>key. r = Inr key \<longrightarrow> (if absent then item k' = Some key
                      else \<exists>path. p = Some path \<and> key_file path s = Some key)) \<and>
      (absent \<longrightarrow> \<not> create \<longrightarrow> item k' = item k) \<and>
      (\<forall>e k2. absent \<longrightarrow> kc_read K k = (Inl e, k2) \<longrightarrow> \<not> is_keychain_not_found e \<longrightarrow>
           item k' = item k \<and> (\<exists>e. r = Inl e))"
  proof (cases r1)
    case (Inl e)
    then show ?thesis
      using run 1 le by (auto simp: load_auto_master_key_with_def on_fs_def absent_def)
  next
    case (Inr found)
    show ?thesis
    proof (cases found)
      case (Some key)
      then obtain path where path: "p = Some path" "key_file path s = Some key" using le Inr by auto
      have na: "\<not> absent" using le Inr Some by (auto simp: absent_def)
      obtain r2 k2 where 2: "migrate_file_key_to_keychain K key k = (r2, k2)"
        by (cases "migrate_file_key_to_keychain K key k")
      have "r = r2" "s' = s1" "k' = k2"
        using run 1 Inr Some 2 by (simp_all add: load_auto_master_key_with_def on_fs_def on_keychain_def)
      then show ?thesis
        using le na path migrate_key [of key k] migrate_keeps_item [OF 2] 2 by auto
    next
      case None
      have ab: "absent" using le Inr None by (auto simp: absent_def)
      define inner where
        "inner = (if create then get_or_create_keychain_key K os (s1, k) else on_keychain (kc_read K) (s1, k))"
      obtain r2 s2 k2 where 2: "inner = (r2, (s2, k2))" by (cases inner) auto
      have eq: "s' = s2" "k' = k2" "\<And>key. r = Inr key \<longleftrightarrow> r2 = Inr key"
          "(\<exists>e. r = Inl e) \<longleftrightarrow> (\<exists>e. r2 = Inl e)"
        using run 1 Inr None 2 [unfolded inner_def]
        by (cases r2; auto simp: load_auto_master_key_with_def on_fs_def split: if_splits)+
      obtain rr kr where rd: "kc_read K k = (rr, kr)" by (cases "kc_read K k")
      have read: "item kr = item k" by (rule read_keeps [OF rd])
      show ?thesis
      proof (cases create)
        case True
        then have g: "get_or_create_keychain_key K os (s1, k) = (r2, (s2, k2))" using 2 by (simp add: inner_def)
        have "\<forall>e k3. kc_read K k = (Inl e, k3) \<longrightarrow> \<not> is_keychain_not_found e \<longrightarrow> k2 = kr \<and> r2 = Inl e"
          using g rd by (auto simp: get_or_create_keychain_key_def on_keychain_def)
        then show ?thesis
          using get_or_create_item [OF g] le eq ab True read by auto
      next
        case False
        then have "r2 = rr" "k2 = kr" "s2 = s1"
          using 2 rd by (simp_all add: inner_def on_keychain_def)
        then show ?thesis
          using le eq ab False read rd read_item [of k _ kr] by auto
      qed
    qed
  qed
  then show "nodes s' = nodes s" "item k' = item k \<or> item k = None"
    "r = Inr key \<Longrightarrow> if absent then item k' = Some key
                      else \<exists>path. p = Some path \<and> key_file path s = Some key"
    "absent \<Longrightarrow> \<not> create \<Longrightarrow> item k' = item k"
    "absent \<Longrightarrow> kc_read K k = (Inl e, k2) \<Longrightarrow> \<not> is_keychain_not_found e \<Longrightarrow>
           item k' = item k \<and> (\<exists>e. r = Inl e)"
    by simp_all
qed

end

context lawful_security
begin

lemma is_item: "keychain_item (system_keychain S mode) item"
  by (rule system.keychain_item_axioms)

end

text \<open>A Keychain that is only its item.\<close>

definition sample_security :: "bytes option security" where
  "sample_security = \<lparr>
     disable_user_interaction = (\<lambda>k. (Inr (), k)), restore_user_interaction = (\<lambda>k. k),
     get_generic_password = (\<lambda>_ _ k. (case k of None \<Rightarrow> Inl ERR_SEC_ITEM_NOT_FOUND | Some b \<Rightarrow> Inr b, k)),
     default_keychain = (\<lambda>k. (Inr (), k)),
     add_generic_password = (\<lambda>_ _ b k.
       case k of None \<Rightarrow> (Inr (), Some b) | Some _ \<Rightarrow> (Inl ERR_SEC_DUPLICATE_ITEM, k)),
     set_generic_password = (\<lambda>_ _ b k. (Inr (), Some b)),
     page_available = (\<lambda>_. True)\<rparr>"

lemma sample_security_laws: "security_laws sample_security (\<lambda>k. k)"
  by (auto simp: security_laws_def sample_security_def split: option.splits)

interpretation sample_system: lawful_security sample_security "\<lambda>k. k" Background
  by (rule lawful_security.intro [OF sample_security_laws])

section \<open>Properties\<close>

lemma system_is_item: "security_laws S item \<Longrightarrow> keychain_item (system_keychain S mode) item"
  by (rule lawful_security.is_item) (rule lawful_security.intro)



lemma import_auto_Inr:
  assumes sec: "security_laws S item" and laws: "tempfile_laws os" and quiet: "fault os = (\<lambda>_. None)"
    and p: "case p of None \<Rightarrow> True | Some path \<Rightarrow> not_temp path \<and> path \<noteq> [46]"
    and env: "auto_file_store env = Inr p" and len: "length key = MASTER_KEY_BYTES"
    and run: "import_auto_master_key (system_keychain S Background) os env key force (s, k) = (Inr (), (s', k'))"
  shows "(\<exists>path. p = Some path \<and> key_file path s' = Some key) \<or>
         item k' = Some key \<and> (case p of None \<Rightarrow> True | Some path \<Rightarrow> nodes s' path = None)"
proof -
  note imp = keychain_item.import_Inr [OF system_is_item [OF sec, of Background]]
  show ?thesis
  proof (cases p)
    case None
    then have "import_keychain_key (system_keychain S Background) key force k = (Inr (), k')"
      using run env by (auto simp: import_auto_master_key_def on_keychain_def split: prod.splits sum.splits if_splits)
    with imp None show ?thesis by auto
  next
    case (Some path)
    show ?thesis
    proof (cases "nodes s path = None")
      case True
      then have "import_keychain_key (system_keychain S Background) key force k = (Inr (), k')" "nodes s' = nodes s"
        using run env Some quiet
        by (auto simp: import_auto_master_key_def on_keychain_def on_fs_def path_exists_def
            split: prod.splits sum.splits if_splits)
      with imp Some True show ?thesis by auto
    next
      case False
      then obtain s1 where "file_import os path key True s1 = (Inr (), s')"
        using run env Some quiet
        by (auto simp: import_auto_master_key_def on_keychain_def on_fs_def path_exists_def
            then_st_eq_Inr context_st_eq_Inr split: prod.splits if_splits)
      then have "key_file path s' = Some key"
        using file_import_installs(1) [OF laws] installs_key_file(1) [OF _ len] p Some by fastforce
      with Some show ?thesis by blast
    qed
  qed
qed

lemma auto_path_ok:
  assumes "auto_file_store env = Inr p"
  shows "case p of None \<Rightarrow> True | Some path \<Rightarrow> not_temp path \<and> path \<noteq> [46]"
proof (cases p)
  case (Some path)
  then have "default_master_key_path env = Inr path"
    using assms by (auto simp: auto_file_store_def res_simps split: if_splits)
  then show ?thesis using Some default_key_path by simp
qed simp

text \<open>
  Import and load agree on macOS: where system calls do not fail, a key imported with
  \<open>--store auto\<close> is the only key a later load can return, whether it went to the Keychain alone or
  to the Keychain and the key file.
\<close>

theorem mac_auto_import_then_load:
  assumes sec: "security_laws S item" and laws: "tempfile_laws os" and quiet: "fault os = (\<lambda>_. None)"
    and len: "length key = MASTER_KEY_BYTES"
    and imported: "import_auto_master_key (system_keychain S Background) os env key force (s, k)
                     = (Inr (), (s1, k1))"
    and loaded: "load_auto_master_key S os env (s1, k1) = (Inr key', w)"
  shows "key' = key"
proof -
  obtain p where env: "auto_file_store env = Inr p"
    using imported by (auto simp: import_auto_master_key_def then_st_eq_Inr)
  obtain s2 k2 where w: "w = (s2, k2)" by (cases w)
  have load: "load_auto_master_key_with (system_keychain S Background) os p False (s1, k1) = (Inr key', (s2, k2))"
    using loaded env w by (simp add: load_auto_master_key_def)
  note policy = keychain_item.load_auto_cases [OF system_is_item [OF sec] load]
  show ?thesis
    using import_auto_Inr [OF sec laws quiet auto_path_ok [OF env] env len imported] policy quiet
    by (cases p) (auto simp: key_file_def split: if_splits option.splits)
qed

theorem mac_auto_import_then_load_witness:
  "fst (load_auto_master_key sample_security plain_os Map.empty
     (snd (import_auto_master_key (system_keychain sample_security Background) plain_os Map.empty
             sample_key False (plain_fs, None)))) = Inr sample_key"
proof -
  have imported: "import_auto_master_key (system_keychain sample_security Background) plain_os Map.empty
      sample_key False (plain_fs, None) = (Inr (), (plain_fs, Some sample_key))"
    by (simp add: import_auto_master_key_def auto_file_store_def on_keychain_def import_keychain_key_def
        system_keychain_def system_add_def system_call_def sample_security_def from_status_def)
  obtain r w where loaded: "load_auto_master_key sample_security plain_os Map.empty
      (plain_fs, Some sample_key) = (r, w)" by (metis surj_pair)
  have "is_ok r"
    using loaded [symmetric]
    by (simp add: load_auto_master_key_def auto_file_store_def load_auto_master_key_with_def on_fs_def
        on_keychain_def load_existing_file_master_key_def system_keychain_def system_read_def
        system_call_def sample_security_def from_status_def length_sample_key)
  then obtain key where r: "r = Inr key" by (auto simp: is_ok_iff)
  have "key = sample_key"
    by (rule mac_auto_import_then_load [OF sample_security_laws plain_laws _ length_sample_key imported
          loaded [unfolded r]]) (simp add: plain_os_simps)
  then show ?thesis by (simp add: imported loaded r)
qed

end
