(* ===== verification/AuthGate.thy ===== *)
theory AuthGate
  imports Keychain
begin

text \<open>
  The gate that serializes Keychain authorization prompts across the processes of a user
  (\<open>authorize_with_gate\<close> and what it calls in \<open>crates/avault-store/src/lib.rs\<close>).

  \<^item> The state \<open>gate\<close> holds the content of the gate file, which this process reads and writes
    under the lock, the time in milliseconds since the start, the number of calls made, whether
    the caller was told to wait, and the rest of the world, on which the two closures work.
  \<^item> \<open>gate_env\<close> is the environment: the metadata of the directory and of the gate, what each
    \<open>flock\<close> call returns, what other processes have made of the record by the time a call takes
    the lock, the Unix clock, how long each call takes, and which file calls fail.
  \<^item> Trying the lock repeats while the call is interrupted, and waiting repeats until the deadline,
    so both loops are partial functions: \<open>None\<close> is a run that never returns.
\<close>

section \<open>State and environment\<close>

record file_meta =
  fm_is_dir :: bool
  fm_is_file :: bool
  fm_uid :: u32
  fm_mode :: u32
  fm_nlink :: u64

datatype flock_result = Locked | Interrupted | WouldBlockLock | FlockError io_kind

record gate_env =
  ge_dir_meta :: "path \<Rightarrow> nat \<Rightarrow> io_kind + file_meta"
  ge_open :: "path \<Rightarrow> nat \<Rightarrow> io_kind + unit"
  ge_gate_meta :: "nat \<Rightarrow> io_kind + file_meta"
  ge_create_dir :: "path \<Rightarrow> nat \<Rightarrow> io_kind + unit"
  ge_temp_dir :: "bytes option"
  ge_flock :: "nat \<Rightarrow> flock_result"
  ge_others :: "nat \<Rightarrow> bytes \<Rightarrow> bytes"
  ge_unix_time :: "nat \<Rightarrow> u64 res"
  ge_delay :: "nat \<Rightarrow> nat"
  ge_fault :: "nat \<Rightarrow> io_kind option"
  ge_short :: "nat \<Rightarrow> nat"
  ge_euid :: u32

record 'w gate =
  gt_record :: bytes
  gt_millis :: nat
  gt_calls :: nat
  gt_told :: bool
  gt_world :: 'w

text \<open>Every call takes its time; \<open>sleep\<close> takes at least the time asked for.\<close>

definition tick :: "gate_env \<Rightarrow> 'w gate \<Rightarrow> 'w gate" where
  "tick E g = g\<lparr>gt_calls := Suc (gt_calls g), gt_millis := gt_millis g + ge_delay E (gt_calls g)\<rparr>"

definition sleep :: "gate_env \<Rightarrow> nat \<Rightarrow> 'w gate \<Rightarrow> 'w gate" where
  "sleep E millis g = (tick E g)\<lparr>gt_millis := gt_millis g + ge_delay E (gt_calls g) + millis\<rparr>"

definition io_call :: "(io_kind + 'a) \<Rightarrow> 'a res" where
  "io_call r = (case r of Inl k \<Rightarrow> Inl [Io k] | Inr x \<Rightarrow> Inr x)"

section \<open>Constants\<close>

(* SRC store KEYCHAIN_AUTHORIZATION_COOLDOWN_SECS *)
definition KEYCHAIN_AUTHORIZATION_COOLDOWN_SECS :: u64 where
  "KEYCHAIN_AUTHORIZATION_COOLDOWN_SECS = 120"

(* SRC store KEYCHAIN_AUTHORIZATION_WAIT *)
definition KEYCHAIN_AUTHORIZATION_WAIT :: nat where
  "KEYCHAIN_AUTHORIZATION_WAIT = 120000"

(* SRC store KEYCHAIN_AUTHORIZATION_POLL *)
definition KEYCHAIN_AUTHORIZATION_POLL :: nat where
  "KEYCHAIN_AUTHORIZATION_POLL = 100"

(* SRC store KEYCHAIN_AUTHORIZATION_DIR *)
definition KEYCHAIN_AUTHORIZATION_DIR :: string where
  "KEYCHAIN_AUTHORIZATION_DIR = ''bot.avibe.avault''"

(* SRC store KEYCHAIN_AUTHORIZATION_GATE_FILE *)
definition KEYCHAIN_AUTHORIZATION_GATE_FILE :: string where
  "KEYCHAIN_AUTHORIZATION_GATE_FILE = ''keychain-authorization.lock''"

(* SRC store MAX_KEYCHAIN_COOLDOWN_RECORD_BYTES *)
definition MAX_KEYCHAIN_COOLDOWN_RECORD_BYTES :: nat where
  "MAX_KEYCHAIN_COOLDOWN_RECORD_BYTES = 32"

section \<open>The gate file\<close>

(* SRC store validate_private_directory *)
definition validate_private_directory :: "gate_env \<Rightarrow> path \<Rightarrow> 'w gate \<Rightarrow> unit res \<times> 'w gate" where
  "validate_private_directory E dir g =
     then_st (with_context ''failed to inspect Keychain authorization directory''
                (io_call (ge_dir_meta E dir (gt_calls g))), tick E g) (\<lambda>m g.
     if \<not> fm_is_dir m \<or> fm_uid m \<noteq> ge_euid E \<or> fm_mode m AND 63 \<noteq> 0
     then (bail ''Keychain authorization directory is not private to the current user'', g)
     else (Inr (), g))"

(* SRC store open_keychain_authorization_gate *)
definition open_keychain_authorization_gate :: "gate_env \<Rightarrow> path \<Rightarrow> 'w gate \<Rightarrow> unit res \<times> 'w gate" where
  "open_keychain_authorization_gate E dir g =
     then_st (validate_private_directory E dir g) (\<lambda>_ g.
     then_st (with_context ''failed to open Keychain authorization gate''
                (io_call (ge_open E (path_join dir (as_bytes KEYCHAIN_AUTHORIZATION_GATE_FILE)) (gt_calls g))),
              tick E g) (\<lambda>_ g.
     then_st (with_context ''failed to inspect Keychain authorization gate''
                (io_call (ge_gate_meta E (gt_calls g))), tick E g) (\<lambda>m g.
     if \<not> fm_is_file m \<or> fm_uid m \<noteq> ge_euid E \<or> fm_mode m AND 63 \<noteq> 0 \<or> fm_nlink m \<noteq> 1
     then (bail ''Keychain authorization gate is not a private regular file'', g)
     else (Inr (), g))))"

(* SRC store darwin_user_temp_dir *)
definition darwin_user_temp_dir :: "gate_env \<Rightarrow> path res" where
  \<comment> \<open>\<open>confstr\<close> counts the terminator; the buffer has \<open>PATH_MAX\<close> (1024) bytes.\<close>
  "darwin_user_temp_dir E =
     (let len = (case ge_temp_dir E of None \<Rightarrow> 0 | Some d \<Rightarrow> length d + 1)
      in if len = 0 \<or> 1024 < len then bail ''failed to resolve the per-user temporary directory''
         else let buf = the (ge_temp_dir E);
                  stripped = rev (dropWhile (\<lambda>b. b = 47) (rev buf));
                  dir = (if stripped = [] \<and> buf \<noteq> [] then [47] else stripped)
              in if dir = [] \<or> hd dir \<noteq> 47 then bail ''per-user temporary directory is not absolute''
                 else Inr dir)"

(* SRC store keychain_authorization_dir *)
definition keychain_authorization_dir :: "gate_env \<Rightarrow> 'w gate \<Rightarrow> path res \<times> 'w gate" where
  "keychain_authorization_dir E g =
     then_st (darwin_user_temp_dir E, g) (\<lambda>parent g.
     then_st (validate_private_directory E parent g) (\<lambda>_ g.
     let dir = path_join parent (as_bytes KEYCHAIN_AUTHORIZATION_DIR)
     in case ge_create_dir E dir (gt_calls g) of
          Inr _ \<Rightarrow> (Inr dir, tick E g)
        | Inl k \<Rightarrow>
            if k = AlreadyExists then (Inr dir, tick E g)
            else (Inl [Msg ''failed to create Keychain authorization directory'', Io k], tick E g)))"

section \<open>The cooldown\<close>

definition set_len_zero :: "gate_env \<Rightarrow> 'w gate \<Rightarrow> unit res \<times> 'w gate" where
  "set_len_zero E g = (case ge_fault E (gt_calls g) of
       Some k \<Rightarrow> (Inl [Io k], tick E g) | None \<Rightarrow> (Inr (), (tick E g)\<lparr>gt_record := []\<rparr>))"

definition seek_start :: "gate_env \<Rightarrow> 'w gate \<Rightarrow> unit res \<times> 'w gate" where
  "seek_start E g = (case ge_fault E (gt_calls g) of
       Some k \<Rightarrow> (Inl [Io k], tick E g) | None \<Rightarrow> (Inr (), tick E g))"

definition write_record :: "gate_env \<Rightarrow> bytes \<Rightarrow> 'w gate \<Rightarrow> unit res \<times> 'w gate" where
  \<comment> \<open>At the start of a file of length zero; a failing write may have written a prefix.\<close>
  "write_record E bs g = (case ge_fault E (gt_calls g) of
       Some k \<Rightarrow> (Inl [Io k], (tick E g)\<lparr>gt_record := take (ge_short E (gt_calls g)) bs\<rparr>)
     | None \<Rightarrow> (Inr (), (tick E g)\<lparr>gt_record := bs\<rparr>))"

text \<open>\<open>u64::saturating_add\<close>.\<close>

definition saturating_add :: "u64 \<Rightarrow> u64 \<Rightarrow> u64" where
  "saturating_add a b = (if unat a + unat b < 2 ^ 64 then a + b else - 1)"

(* SRC store record_keychain_authorization_cooldown *)
definition record_keychain_authorization_cooldown :: "gate_env \<Rightarrow> u64 \<Rightarrow> 'w gate \<Rightarrow> unit res \<times> 'w gate" where
  "record_keychain_authorization_cooldown E until g =
     context_st ''failed to record Keychain authorization cooldown''
       (then_st (set_len_zero E g) (\<lambda>_ g.
        then_st (seek_start E g) (\<lambda>_ g.
        write_record E (as_bytes (decimal (unat until))) g)))"

(* SRC store keychain_authorization_cooldown *)
definition keychain_authorization_cooldown :: "gate_env \<Rightarrow> u64 \<Rightarrow> 'w gate \<Rightarrow> u64 option res \<times> 'w gate" where
  "keychain_authorization_cooldown E now g =
     then_st (context_st ''failed to read Keychain authorization cooldown''
        (then_st (seek_start E g) (\<lambda>_ g.
         case ge_fault E (gt_calls g) of
           Some k \<Rightarrow> (Inl [Io k], tick E g)
         | None \<Rightarrow> (Inr (take (MAX_KEYCHAIN_COOLDOWN_RECORD_BYTES + 1) (gt_record g)), tick E g)))) (\<lambda>r g.
     if r = [] then (Inr None, g)
     else let until = (case from_utf8 r of
                None \<Rightarrow> None
              | Some text \<Rightarrow>
                  if length r \<le> MAX_KEYCHAIN_COOLDOWN_RECORD_BYTES then parse_u64 (str_trim text) else None);
              rewrite = then_st (record_keychain_authorization_cooldown E
                            (saturating_add now KEYCHAIN_AUTHORIZATION_COOLDOWN_SECS) g) (\<lambda>_ g.
                          (Inr (Some KEYCHAIN_AUTHORIZATION_COOLDOWN_SECS), g))
          in case until of
               Some until \<Rightarrow>
                 if until \<le> now
                 then then_st (context_st ''failed to clear Keychain authorization cooldown''
                                 (set_len_zero E g)) (\<lambda>_ g. (Inr None, g))
                 else if until - now \<le> KEYCHAIN_AUTHORIZATION_COOLDOWN_SECS
                 then (Inr (Some (until - now)), g)
                 else rewrite
             | None \<Rightarrow> rewrite)"

section \<open>The gate\<close>

(* SRC store try_lock_keychain_authorization_gate *)
partial_function (option) try_lock_gate :: "gate_env \<Rightarrow> 'w gate \<Rightarrow> (bool res \<times> 'w gate) option" where
  "try_lock_gate E g = (case ge_flock E (gt_calls g) of
       Locked \<Rightarrow> Some (Inr True, (tick E g)\<lparr>gt_record := ge_others E (gt_calls g) (gt_record g)\<rparr>)
     | Interrupted \<Rightarrow> try_lock_gate E (tick E g)
     | WouldBlockLock \<Rightarrow> Some (Inr False, tick E g)
     | FlockError k \<Rightarrow> Some (Inl [Msg ''failed to lock Keychain authorization gate'', Io k], tick E g))"

text \<open>The waiting loop; the value says whether the lock was taken before the deadline.\<close>

(* SRC store 1673-1679 authorize_with_gate *)
partial_function (option) wait_for_gate ::
    "gate_env \<Rightarrow> nat \<Rightarrow> 'w gate \<Rightarrow> (unit res \<times> 'w gate) option" where
  "wait_for_gate E deadline g = Option.bind (try_lock_gate E g) (\<lambda>(r, g).
     case r of
       Inl e \<Rightarrow> Some (Inl e, g)
     | Inr taken \<Rightarrow>
         if taken then Some (Inr (), g)
         else if deadline \<le> gt_millis (tick E g) then Some (Inl [KeychainAuthorizationBusy], tick E g)
         else wait_for_gate E deadline (sleep E KEYCHAIN_AUTHORIZATION_POLL (tick E g)))"

(* SRC store unix_now_secs *)
definition unix_now_secs :: "gate_env \<Rightarrow> 'w gate \<Rightarrow> u64 res \<times> 'w gate" where
  "unix_now_secs E g = (ge_unix_time E (gt_calls g), tick E g)"

text \<open>A closure works on the world; it takes its time like a call.\<close>

definition on_world :: "gate_env \<Rightarrow> ('w \<Rightarrow> 'a \<times> 'w) \<Rightarrow> 'w gate \<Rightarrow> 'a \<times> 'w gate" where
  "on_world E f g = (let (r, w) = f (gt_world g) in (r, (tick E g)\<lparr>gt_world := w\<rparr>))"

text \<open>What the holder of the lock does.\<close>

(* SRC store 1682-1710 authorize_with_gate *)
definition authorize_locked ::
    "gate_env \<Rightarrow> bool \<Rightarrow> ('w \<Rightarrow> 'a res \<times> 'w) \<Rightarrow> ('w \<Rightarrow> 'a res \<times> 'w) \<Rightarrow> 'w gate \<Rightarrow> 'a res \<times> 'w gate" where
  "authorize_locked E waited interactive coalesced g =
     then_st (unix_now_secs E g) (\<lambda>now g.
     then_st (keychain_authorization_cooldown E now g) (\<lambda>cooldown g.
     case cooldown of
       Some remaining \<Rightarrow> (Inl [KeychainAuthorizationCooldown (unat remaining)], g)
     | None \<Rightarrow>
         if waited then on_world E coalesced g
         else (case on_world E interactive g of
                 (Inr value, g) \<Rightarrow> (Inr value, snd (set_len_zero E g))
               | (Inl e, g) \<Rightarrow>
                   if is_keychain_denial e
                   then (case then_st (unix_now_secs E g) (\<lambda>denied_at g.
                                record_keychain_authorization_cooldown E
                                  (saturating_add denied_at KEYCHAIN_AUTHORIZATION_COOLDOWN_SECS) g) of
                           (Inr _, g) \<Rightarrow> (Inl e, g)
                         | (Inl record_err, g) \<Rightarrow>
                             (Inl (Msg (''failed to record Keychain authorization cooldown: ''
                                        @ chain_text record_err) # e), g))
                   else (Inl e, g))))"

(* SRC store authorize_with_gate *)
definition authorize_with_gate ::
    "gate_env \<Rightarrow> path \<Rightarrow> nat \<Rightarrow> ('w \<Rightarrow> 'a res \<times> 'w) \<Rightarrow> ('w \<Rightarrow> 'a res \<times> 'w) \<Rightarrow> 'w gate
     \<Rightarrow> ('a res \<times> 'w gate) option" where
  "authorize_with_gate E dir wait interactive coalesced g =
     (case open_keychain_authorization_gate E dir g of
        (Inl e, g) \<Rightarrow> Some (Inl e, g)
      | (Inr _, g) \<Rightarrow> Option.bind (try_lock_gate E g) (\<lambda>(r, g).
          case r of
            Inl e \<Rightarrow> Some (Inl e, g)
          | Inr taken \<Rightarrow>
              if taken then Some (authorize_locked E False interactive coalesced g)
              else let g = tick E (g\<lparr>gt_told := True\<rparr>)
              in Option.bind (wait_for_gate E (gt_millis g + wait) g) (\<lambda>(r, g).
                 case r of
                   Inl e \<Rightarrow> Some (Inl e, g)
                 | Inr _ \<Rightarrow> Some (authorize_locked E True interactive coalesced g))))"

section \<open>Authorizing to read the Keychain\<close>

text \<open>
  The world of the closures is the file system with the Keychain; the automatic choice reads the
  key the way a command would, but with the user interface of the given mode.
\<close>

(* SRC store authorize_keychain *)
definition authorize_keychain ::
    "gate_env \<Rightarrow> (system_keychain \<Rightarrow> 'w \<Rightarrow> 'a res \<times> 'w) \<Rightarrow> 'w gate \<Rightarrow> (unit res \<times> 'w gate) option" where
  "authorize_keychain E operation g =
     (case keychain_authorization_dir E g of
        (Inl e, g) \<Rightarrow> Some (Inl e, g)
      | (Inr dir, g) \<Rightarrow>
          map_option (\<lambda>(r, g). (map_res (\<lambda>_. ()) r, g))
            (authorize_with_gate E dir KEYCHAIN_AUTHORIZATION_WAIT
               (operation Authorize) (operation Background) g))"

(* SRC store KeychainStore::authorize@1585 *)
definition keychain_authorize ::
    "gate_env \<Rightarrow> 'k security \<Rightarrow> (fs \<times> 'k) gate \<Rightarrow> (unit res \<times> (fs \<times> 'k) gate) option" where
  "keychain_authorize E S = authorize_keychain E (\<lambda>mode. on_keychain (kc_read (system_keychain S mode)))"

(* SRC store authorize_auto_master_key@591 *)
definition authorize_auto_master_key ::
    "gate_env \<Rightarrow> 'k security \<Rightarrow> 'o os_scheme \<Rightarrow> environment \<Rightarrow> (fs \<times> 'k) gate
     \<Rightarrow> (unit res \<times> (fs \<times> 'k) gate) option" where
  "authorize_auto_master_key E S os env g =
     (case auto_file_store env of
        Inl e \<Rightarrow> Some (Inl e, g)
      | Inr store \<Rightarrow> authorize_keychain E (\<lambda>mode.
          load_auto_master_key_with (system_keychain S mode) os store False) g)"

section \<open>The record\<close>

lemma decimal_unfold: "decimal n = (if n < 10 then [char_of (48 + n)] else decimal (n div 10) @ [char_of (48 + n mod 10)])"
  by (rule decimal.simps)

lemma length_decimal: "0 < k \<Longrightarrow> n < 10 ^ k \<Longrightarrow> length (decimal n) \<le> k"
proof (induction k arbitrary: n)
  case 0
  then show ?case by simp
next
  case (Suc k)
  show ?case
  proof (cases "n < 10")
    case True
    then show ?thesis by (simp add: decimal_unfold [of n])
  next
    case False
    then have k: "0 < k" using Suc.prems by (cases k) auto
    have "n div 10 < 10 ^ k" using Suc.prems by (simp add: less_mult_imp_div_less mult.commute)
    then show ?thesis using False Suc.IH [OF k] by (subst decimal_unfold) simp
  qed
qed

lemma digit_code: "is_ascii_digit c \<Longrightarrow> 48 \<le> code c \<and> code c \<le> 57"
  by (simp add: is_ascii_digit_def code_def)

lemma decimal_utf8: "from_utf8 (as_bytes (decimal n)) = Some (decimal n)"
proof (rule from_utf8_as_bytes, rule utf8_valid_ascii)
  have "unat b < 128" if "b \<in> set (as_bytes (decimal n))" for b
  proof -
    from that obtain c where c: "c \<in> set (decimal n)" "b = of_nat (of_char c)"
      by (auto simp: as_bytes_def)
    then have "code c \<le> 57" using decimal_digits [of n] digit_code by (auto simp: list_all_iff)
    then show ?thesis using c(2) by (simp add: code_def)
  qed
  then show "list_all (\<lambda>b. unat b < 128) (as_bytes (decimal n))" by (simp add: list_all_iff)
qed

lemma str_trim_decimal: "str_trim (decimal n) = decimal n"
proof (rule str_trim_graph)
  fix c assume "c \<in> {hd (decimal n), last (decimal n)}"
  then have "c \<in> set (decimal n)" by auto
  then have "is_ascii_digit c" using decimal_digits [of n] by (auto simp: list_all_iff)
  from digit_code [OF this] show "32 < code c \<and> code c < 127" by simp
qed simp

lemma parse_u64_decimal: "n < 2 ^ 64 \<Longrightarrow> parse_u64 (decimal n) = Some (of_nat n)"
proof -
  assume n: "n < 2 ^ 64"
  obtain c r where cr: "decimal n = c # r" using decimal_neq_Nil [of n] by (cases "decimal n") auto
  have "is_ascii_digit c" using decimal_digits [of n] by (simp add: cr)
  then have "c \<noteq> CHR ''+''" using digit_code [of c] by (auto simp: code_def)
  then show ?thesis
    using n decimal_digits [of n] decimal_value_decimal [of n]
    by (simp add: parse_u64_def cr del: decimal_value_decimal)
qed

text \<open>The end of the cooldown a record stands for.\<close>

definition record_until :: "bytes \<Rightarrow> u64 option" where
  "record_until r = (case from_utf8 (take 33 r) of
       None \<Rightarrow> None
     | Some text \<Rightarrow> if length r \<le> MAX_KEYCHAIN_COOLDOWN_RECORD_BYTES then parse_u64 (str_trim text) else None)"

lemma record_until_decimal: "record_until (as_bytes (decimal (unat u))) = Some u"
proof -
  have "unat u < 10 ^ 20" using unat_u64_less [of u] by (rule less_trans) simp
  then have len: "length (decimal (unat u)) \<le> 20" by (intro length_decimal) simp_all
  then have "take 33 (as_bytes (decimal (unat u))) = as_bytes (decimal (unat u))" by simp
  then show ?thesis
    using len parse_u64_decimal [OF unat_u64_less, of u]
    by (simp add: record_until_def decimal_utf8 str_trim_decimal MAX_KEYCHAIN_COOLDOWN_RECORD_BYTES_def)
qed

lemma record_until_Nil: "record_until [] = None"
  by (simp add: record_until_def from_utf8_def parse_u64_def str_trim_def trim_start.simps trim_rev_end.simps)

section \<open>The cooldown\<close>

lemma tick_simps [simp]:
  "gt_record (tick E g) = gt_record g" "gt_world (tick E g) = gt_world g" "gt_told (tick E g) = gt_told g"
  "gt_calls (tick E g) = Suc (gt_calls g)"
  by (simp_all add: tick_def)

lemma record_cooldown_Inr:
  assumes "record_keychain_authorization_cooldown E u g = (Inr (), g')"
  shows "record_until (gt_record g') = Some u \<and> gt_world g' = gt_world g"
  using assms
  by (auto simp: record_keychain_authorization_cooldown_def then_st_eq_Inr context_st_eq_Inr
      set_len_zero_def seek_start_def write_record_def record_until_decimal split: option.splits)

lemma record_cooldown_quiet:
  "ge_fault E = (\<lambda>_. None) \<Longrightarrow> \<exists>g'. record_keychain_authorization_cooldown E u g = (Inr (), g')"
  by (simp add: record_keychain_authorization_cooldown_def set_len_zero_def seek_start_def write_record_def)

lemma until_of_read:
  "length (take 33 r) \<le> MAX_KEYCHAIN_COOLDOWN_RECORD_BYTES \<longleftrightarrow> length r \<le> MAX_KEYCHAIN_COOLDOWN_RECORD_BYTES"
  by (auto simp: MAX_KEYCHAIN_COOLDOWN_RECORD_BYTES_def min_def)

text \<open>The function in two steps: reading the record, and what it stands for.\<close>

definition read_record :: "gate_env \<Rightarrow> 'w gate \<Rightarrow> bytes res \<times> 'w gate" where
  "read_record E g = context_st ''failed to read Keychain authorization cooldown''
        (then_st (seek_start E g) (\<lambda>_ g.
         case ge_fault E (gt_calls g) of
           Some k \<Rightarrow> (Inl [Io k], tick E g) | None \<Rightarrow> (Inr (gt_record g), tick E g)))"

definition cooldown_decision :: "gate_env \<Rightarrow> u64 \<Rightarrow> bytes \<Rightarrow> 'w gate \<Rightarrow> u64 option res \<times> 'w gate" where
  "cooldown_decision E now r g =
     (let rewrite = then_st (record_keychain_authorization_cooldown E
                   (saturating_add now KEYCHAIN_AUTHORIZATION_COOLDOWN_SECS) g) (\<lambda>_ g.
                 (Inr (Some KEYCHAIN_AUTHORIZATION_COOLDOWN_SECS), g))
      in if r = [] then (Inr None, g)
         else case record_until r of
           Some until \<Rightarrow>
             if until \<le> now
             then then_st (context_st ''failed to clear Keychain authorization cooldown'' (set_len_zero E g))
                    (\<lambda>_ g. (Inr None, g))
             else if until - now \<le> KEYCHAIN_AUTHORIZATION_COOLDOWN_SECS then (Inr (Some (until - now)), g)
             else rewrite
         | None \<Rightarrow> rewrite)"

lemma read_record_Inr:
  "read_record E g = (Inr r, g1) \<Longrightarrow> r = gt_record g \<and> g1 = tick E (tick E g)"
  by (auto simp: read_record_def seek_start_def context_st_eq_Inr then_st_eq_Inr split: option.splits)

lemma read_record_quiet:
  "ge_fault E = (\<lambda>_. None) \<Longrightarrow> read_record E g = (Inr (gt_record g), tick E (tick E g))"
  by (simp add: read_record_def seek_start_def)

lemma cooldown_eq:
  "keychain_authorization_cooldown E now g = then_st (read_record E g) (cooldown_decision E now)"
proof -
  have short: "Suc MAX_KEYCHAIN_COOLDOWN_RECORD_BYTES = 33"
    by (simp add: MAX_KEYCHAIN_COOLDOWN_RECORD_BYTES_def)
  show ?thesis
  proof (cases "ge_fault E (gt_calls g)")
    case None
    then show ?thesis
      by (cases "ge_fault E (Suc (gt_calls g))"; cases "from_utf8 (take 33 (gt_record g))")
         (simp_all add: keychain_authorization_cooldown_def read_record_def seek_start_def short
           cooldown_decision_def record_until_def until_of_read Let_def del: length_take)
  next
    case (Some k)
    then show ?thesis
      by (simp add: keychain_authorization_cooldown_def read_record_def seek_start_def)
  qed
qed

lemma saturating_add_exact: "unat a + unat b < 2 ^ 64 \<Longrightarrow> saturating_add a b = a + b"
  by (simp add: saturating_add_def)

lemma cooldown_running:
  assumes run: "keychain_authorization_cooldown E now g = (Inr (Some n), g')"
    and room: "unat now + 120 < 2 ^ 64"
  shows "0 < n \<and> n \<le> KEYCHAIN_AUTHORIZATION_COOLDOWN_SECS \<and> record_until (gt_record g') = Some (now + n)
    \<and> gt_world g' = gt_world g"
proof -
  let ?r = "gt_record g"
  obtain r g1 where read: "read_record E g = (Inr r, g1)" and main: "cooldown_decision E now r g1 = (Inr (Some n), g')"
    using run by (auto simp: cooldown_eq then_st_eq_Inr)
  have r: "r = ?r" and g1: "gt_record g1 = ?r" "gt_world g1 = gt_world g"
    using read_record_Inr [OF read] by auto
  have ne: "?r \<noteq> []" using main r by (auto simp: cooldown_decision_def)
  note main = main [unfolded cooldown_decision_def r Let_def]
  have rec: "0 < n \<and> n \<le> KEYCHAIN_AUTHORIZATION_COOLDOWN_SECS \<and> record_until (gt_record g') = Some (now + n)
      \<and> gt_world g' = gt_world g"
    if "then_st (record_keychain_authorization_cooldown E
                   (saturating_add now KEYCHAIN_AUTHORIZATION_COOLDOWN_SECS) g1) (\<lambda>_ g.
                 (Inr (Some KEYCHAIN_AUTHORIZATION_COOLDOWN_SECS), g)) = (Inr (Some n), g')"
  proof -
    have n: "n = 120" using that by (auto simp: then_st_eq_Inr KEYCHAIN_AUTHORIZATION_COOLDOWN_SECS_def)
    have "saturating_add now KEYCHAIN_AUTHORIZATION_COOLDOWN_SECS = now + 120"
      using room by (simp add: saturating_add_exact KEYCHAIN_AUTHORIZATION_COOLDOWN_SECS_def)
    then have "record_keychain_authorization_cooldown E (now + 120) g1 = (Inr (), g')"
      using that by (auto simp: then_st_eq_Inr)
    from record_cooldown_Inr [OF this] n g1 show ?thesis
      by (simp add: KEYCHAIN_AUTHORIZATION_COOLDOWN_SECS_def)
  qed
  show ?thesis
  proof (cases "record_until ?r")
    case None
    then show ?thesis using main ne rec by simp
  next
    case (Some until)
    consider "until \<le> now" | "\<not> until \<le> now" "until - now \<le> KEYCHAIN_AUTHORIZATION_COOLDOWN_SECS"
      | "\<not> until \<le> now" "\<not> until - now \<le> KEYCHAIN_AUTHORIZATION_COOLDOWN_SECS" by blast
    then show ?thesis
    proof cases
      case 1
      then show ?thesis using main ne Some by (auto simp: then_st_eq_Inr)
    next
      case 2
      then have n: "n = until - now" "g' = g1" using main ne Some by auto
      moreover have "0 < until - now" using 2(1) by (auto simp: word_gt_0)
      ultimately show ?thesis using 2 Some g1 by simp
    next
      case 3
      then show ?thesis using main ne Some rec by simp
    qed
  qed
qed

text \<open>What a running cooldown means for a later look at the record.\<close>

lemma cooldown_later:
  assumes "ge_fault E = (\<lambda>_. None)" "record_until (gt_record g) = Some u"
    and "u - t \<le> KEYCHAIN_AUTHORIZATION_COOLDOWN_SECS"
  shows "\<exists>g'. keychain_authorization_cooldown E t g = (Inr (if t < u then Some (u - t) else None), g') \<and>
           gt_world g' = gt_world g"
proof -
  have "gt_record g \<noteq> []" using assms(2) record_until_Nil by auto
  then show ?thesis
    using assms
    by (auto simp: cooldown_eq read_record_quiet cooldown_decision_def Let_def set_len_zero_def not_less)
qed

lemma window_diff:
  fixes now t n :: u64
  assumes "now \<le> t" "t < now + n" "unat now + unat n < 2 ^ 64"
  shows "now + n - t \<le> n" "unat (now + n - t) = unat now + unat n - unat t"
proof -
  have add: "unat (now + n) = unat now + unat n" using assms(3) by (simp add: unat_word_ariths)
  have le: "t \<le> now + n" using assms(2) by simp
  show eq: "unat (now + n - t) = unat now + unat n - unat t"
    using unat_sub [OF le] add by simp
  show "now + n - t \<le> n"
    using eq assms(1) by (simp add: word_le_nat_alt)
qed

section \<open>The lock\<close>

lemma try_lock_returns:
  "\<lbrakk>ge_flock E (gt_calls g + d) \<noteq> Interrupted\<rbrakk>
   \<Longrightarrow> \<exists>r g'. try_lock_gate E g = Some (r, g') \<and> gt_millis g \<le> gt_millis g' \<and> gt_calls g < gt_calls g'"
proof (induction d arbitrary: g)
  case 0
  then show ?case
    by (subst try_lock_gate.simps) (auto simp: tick_def split: flock_result.split)
next
  case (Suc d)
  show ?case
  proof (cases "ge_flock E (gt_calls g) = Interrupted")
    case True
    have "ge_flock E (gt_calls (tick E g) + d) \<noteq> Interrupted" using Suc.prems by simp
    from Suc.IH [OF this] obtain r g' where *: "try_lock_gate E (tick E g) = Some (r, g')"
        "gt_millis (tick E g) \<le> gt_millis g'" "gt_calls (tick E g) < gt_calls g'" by blast
    have "try_lock_gate E g = Some (r, g')" by (subst try_lock_gate.simps) (simp add: True *(1))
    moreover have "gt_millis g \<le> gt_millis g'" using *(2) by (simp add: tick_def)
    moreover have "gt_calls g < gt_calls g'" using *(3) by simp
    ultimately show ?thesis by blast
  next
    case False
    then show ?thesis
      by (subst try_lock_gate.simps) (auto simp: tick_def split: flock_result.split)
  qed
qed

lemma try_lock_Locked:
  "ge_flock E (gt_calls g) = Locked \<Longrightarrow>
   try_lock_gate E g = Some (Inr True, (tick E g)\<lparr>gt_record := ge_others E (gt_calls g) (gt_record g)\<rparr>)"
  by (subst try_lock_gate.simps) simp

definition not_forever_interrupted :: "gate_env \<Rightarrow> bool" where
  "not_forever_interrupted E \<longleftrightarrow> (\<forall>n. \<exists>d. ge_flock E (n + d) \<noteq> Interrupted)"

lemma wait_returns:
  assumes "not_forever_interrupted E"
  shows "\<exists>r g'. wait_for_gate E deadline g = Some (r, g')"
proof (induction "deadline - gt_millis g" arbitrary: g rule: less_induct)
  case less
  obtain d where "ge_flock E (gt_calls g + d) \<noteq> Interrupted"
    using assms by (auto simp: not_forever_interrupted_def)
  from try_lock_returns [OF this] obtain r g1 where 1: "try_lock_gate E g = Some (r, g1)"
      "gt_millis g \<le> gt_millis g1" by blast
  show ?case
  proof (cases "r = Inr False \<and> gt_millis (tick E g1) < deadline")
    case False
    then show ?thesis
      by (subst wait_for_gate.simps) (auto simp: 1 split: sum.split)
  next
    case True
    define g2 where "g2 = sleep E KEYCHAIN_AUTHORIZATION_POLL (tick E g1)"
    have "gt_millis g < gt_millis g2" "gt_millis g < deadline"
      using 1(2) True by (auto simp: g2_def sleep_def tick_def KEYCHAIN_AUTHORIZATION_POLL_def)
    then have "deadline - gt_millis g2 < deadline - gt_millis g" by linarith
    from less [OF this] obtain r' g' where "wait_for_gate E deadline g2 = Some (r', g')" by blast
    then show ?thesis
      using True by (subst wait_for_gate.simps) (auto simp: 1 g2_def)
  qed
qed

section \<open>Only the closures touch the world\<close>

lemma then_st_world:
  assumes "gt_world (snd m) = gt_world g" "\<And>x g1. m = (Inr x, g1) \<Longrightarrow> gt_world (snd (f x g1)) = gt_world g1"
  shows "gt_world (snd (then_st m f)) = gt_world g"
  using assms by (cases m; cases "fst m") auto

lemma context_st_snd [simp]: "snd (context_st m x) = snd x"
  by (cases x) (simp add: context_st_def)

lemma file_call_worlds [simp]:
  "gt_world (snd (set_len_zero E g)) = gt_world g" "gt_world (snd (seek_start E g)) = gt_world g"
  "gt_world (snd (write_record E bs g)) = gt_world g" "gt_world (snd (read_record E g)) = gt_world g"
  "gt_world (snd (unix_now_secs E g)) = gt_world g"
  by (auto simp: set_len_zero_def seek_start_def write_record_def read_record_def unix_now_secs_def
      split: option.split)

lemma record_cooldown_world [simp]:
  "gt_world (snd (record_keychain_authorization_cooldown E u g)) = gt_world g"
  by (auto simp: record_keychain_authorization_cooldown_def intro!: then_st_world)

lemma cooldown_world [simp]: "gt_world (snd (keychain_authorization_cooldown E now g)) = gt_world g"
  by (auto simp: cooldown_eq cooldown_decision_def Let_def intro!: then_st_world split: option.split)

lemma validate_dir_world [simp]: "gt_world (snd (validate_private_directory E dir g)) = gt_world g"
  by (auto simp: validate_private_directory_def intro!: then_st_world)

lemma open_gate_world [simp]: "gt_world (snd (open_keychain_authorization_gate E dir g)) = gt_world g"
  by (auto simp: open_keychain_authorization_gate_def intro!: then_st_world)

lemma authorization_dir_world [simp]: "gt_world (snd (keychain_authorization_dir E g)) = gt_world g"
  by (auto simp: keychain_authorization_dir_def Let_def intro!: then_st_world split: sum.split)

lemma try_lock_result: "try_lock_gate E g = Some y \<Longrightarrow> gt_world (snd y) = gt_world g"
  by (rule try_lock_gate.raw_induct [where P = "\<lambda>E g y. gt_world (snd y) = gt_world g"])
     (auto split: flock_result.splits)

lemma try_lock_world: "try_lock_gate E g = Some (r, g') \<Longrightarrow> gt_world g' = gt_world g"
  using try_lock_result by fastforce

lemma wait_result: "wait_for_gate E deadline g = Some y \<Longrightarrow> gt_world (snd y) = gt_world g"
  by (rule wait_for_gate.raw_induct [where P = "\<lambda>E d g y. gt_world (snd y) = gt_world g"])
     (auto simp: sleep_def dest!: try_lock_world split: Option.bind_splits sum.splits if_splits)

lemma wait_world: "wait_for_gate E deadline g = Some (r, g') \<Longrightarrow> gt_world g' = gt_world g"
  using wait_result by fastforce

text \<open>Every relation the closures respect is respected by the run.\<close>

lemma authorize_locked_world:
  assumes run: "authorize_locked E waited interactive coalesced g = (r, g')"
    and refl: "\<And>w. Q w w"
    and closures: "\<And>w. Q w (snd (interactive w))" "\<And>w. Q w (snd (coalesced w))"
  shows "Q (gt_world g) (gt_world g')"
proof -
  obtain c g2 where 2: "then_st (unix_now_secs E g) (keychain_authorization_cooldown E) = (c, g2)"
    by (cases "then_st (unix_now_secs E g) (keychain_authorization_cooldown E)")
  have "gt_world (snd (then_st (unix_now_secs E g) (keychain_authorization_cooldown E))) = gt_world g"
    by (intro then_st_world) simp_all
  then have w2: "gt_world g2 = gt_world g" by (simp add: 2)
  show ?thesis
  proof (cases "c = Inr None \<and> \<not> waited")
    case False
    have "g' = g2 \<or> g' = snd (on_world E coalesced g2)"
      using run 2 False unfolding authorize_locked_def
      by (cases "unix_now_secs E g"; cases "fst (unix_now_secs E g)"; cases c)
         (auto split: option.splits dest: arg_cong [where f = snd])
    then show ?thesis using w2 refl closures(2) by (auto simp: on_world_def case_prod_unfold Let_def)
  next
    case True
    obtain r3 g3 where 3: "on_world E interactive g2 = (r3, g3)" by (cases "on_world E interactive g2")
    have q3: "Q (gt_world g) (gt_world g3)"
      using 3 closures(1) [of "gt_world g2"] w2 by (auto simp: on_world_def case_prod_unfold Let_def)
    have "gt_world g' = gt_world g3"
    proof (cases r3)
      case (Inr v)
      then show ?thesis
        using run 2 True 3 unfolding authorize_locked_def
        by (cases "unix_now_secs E g"; cases "fst (unix_now_secs E g)") auto
    next
      case (Inl e)
      let ?rec = "then_st (unix_now_secs E g3) (\<lambda>denied_at g. record_keychain_authorization_cooldown E
          (saturating_add denied_at KEYCHAIN_AUTHORIZATION_COOLDOWN_SECS) g)"
      have rec: "gt_world (snd ?rec) = gt_world g3" by (intro then_st_world) simp_all
      have "g' = g3 \<or> g' = snd ?rec"
        using run 2 True 3 Inl unfolding authorize_locked_def
        by (cases "unix_now_secs E g"; cases "fst (unix_now_secs E g)"; cases ?rec; cases "fst ?rec")
           (auto split: if_splits)
      then show ?thesis using rec by auto
    qed
    then show ?thesis using q3 by simp
  qed
qed

lemma authorize_with_gate_world:
  assumes run: "authorize_with_gate E dir wait interactive coalesced g = Some (r, g')"
    and refl: "\<And>w. Q w w"
    and closures: "\<And>w. Q w (snd (interactive w))" "\<And>w. Q w (snd (coalesced w))"
  shows "Q (gt_world g) (gt_world g')"
proof -
  note locked = authorize_locked_world [where Q = Q, OF _ refl closures]
  obtain r0 g0 where 0: "open_keychain_authorization_gate E dir g = (r0, g0)"
    by (cases "open_keychain_authorization_gate E dir g")
  have w0: "gt_world g0 = gt_world g" using open_gate_world [of E dir g] by (simp add: 0)
  show ?thesis
  proof (cases r0)
    case (Inl e)
    then show ?thesis using run 0 w0 refl by (simp add: authorize_with_gate_def)
  next
    case (Inr u)
    obtain r1 g1 where 1: "try_lock_gate E g0 = Some (r1, g1)"
      using run 0 Inr by (auto simp: authorize_with_gate_def split: Option.bind_splits)
    have w1: "gt_world g1 = gt_world g" using try_lock_world [OF 1] w0 by simp
    show ?thesis
    proof (cases "r1 = Inr False")
      case False
      then show ?thesis
        using run 0 Inr 1 w1 refl locked [of E False g1 r g'] by (cases r1) (auto simp: authorize_with_gate_def)
    next
      case True
      define g2 where "g2 = tick E (g1\<lparr>gt_told := True\<rparr>)"
      obtain r3 g3 where 3: "wait_for_gate E (gt_millis g2 + wait) g2 = Some (r3, g3)"
          and rest: "(case r3 of Inl e \<Rightarrow> Some (Inl e, g3)
             | Inr _ \<Rightarrow> Some (authorize_locked E True interactive coalesced g3)) = Some (r, g')"
        using run 0 Inr 1 True by (auto simp: authorize_with_gate_def g2_def Let_def split: Option.bind_splits)
      have w3: "gt_world g3 = gt_world g" using wait_world [OF 3] w1 by (simp add: g2_def)
      then show ?thesis
        using rest refl locked [of E True g3 r g'] by (cases r3) auto
    qed
  qed
qed

lemma authorize_keychain_world:
  assumes run: "authorize_keychain E operation g = Some (r, g')"
    and refl: "\<And>w. Q w w" and operation: "\<And>mode w. Q w (snd (operation mode w))"
  shows "Q (gt_world g) (gt_world g')"
proof -
  obtain r0 g0 where 0: "keychain_authorization_dir E g = (r0, g0)" by (cases "keychain_authorization_dir E g")
  have w0: "gt_world g0 = gt_world g" using authorization_dir_world [of E g] by (simp add: 0)
  show ?thesis
  proof (cases r0)
    case (Inl e)
    then show ?thesis using run 0 w0 refl by (simp add: authorize_keychain_def)
  next
    case (Inr dir)
    then obtain r1 where "authorize_with_gate E dir KEYCHAIN_AUTHORIZATION_WAIT (operation Authorize)
        (operation Background) g0 = Some (r1, g')"
      using run 0 by (auto simp: authorize_keychain_def)
    from authorize_with_gate_world [where Q = Q, OF this refl operation operation] w0 show ?thesis by simp
  qed
qed

section \<open>A sample\<close>

text \<open>A gate that another process holds for the first 3 calls to lock it.\<close>

definition sample_gate_env :: gate_env where
  "sample_gate_env =
     \<lparr>ge_dir_meta = (\<lambda>_ _. Inr \<lparr>fm_is_dir = True, fm_is_file = False, fm_uid = 501, fm_mode = 448, fm_nlink = 2\<rparr>),
      ge_open = (\<lambda>_ _. Inr ()),
      ge_gate_meta = (\<lambda>_. Inr \<lparr>fm_is_dir = False, fm_is_file = True, fm_uid = 501, fm_mode = 384, fm_nlink = 1\<rparr>),
      ge_create_dir = (\<lambda>_ _. Inr ()), ge_temp_dir = Some (as_bytes ''/var/T/''),
      ge_flock = (\<lambda>n. if n = 3 then WouldBlockLock else Locked), ge_others = (\<lambda>_ r. r),
      ge_unix_time = (\<lambda>n. Inr (1000 + of_nat n)), ge_delay = (\<lambda>_. 1), ge_fault = (\<lambda>_. None),
      ge_short = (\<lambda>_. 0), ge_euid = 501\<rparr>"

lemma sample_gate_env_simps:
  "ge_dir_meta sample_gate_env p n =
     Inr \<lparr>fm_is_dir = True, fm_is_file = False, fm_uid = 501, fm_mode = 448, fm_nlink = 2\<rparr>"
  "ge_open sample_gate_env p n = Inr ()"
  "ge_gate_meta sample_gate_env n =
     Inr \<lparr>fm_is_dir = False, fm_is_file = True, fm_uid = 501, fm_mode = 384, fm_nlink = 1\<rparr>"
  "ge_create_dir sample_gate_env p n = Inr ()" "ge_temp_dir sample_gate_env = Some (as_bytes ''/var/T/'')"
  "ge_flock sample_gate_env n = (if n = 3 then WouldBlockLock else Locked)" "ge_euid sample_gate_env = 501"
  by (simp_all add: sample_gate_env_def)

definition sample_gate :: "bytes \<Rightarrow> unit gate" where
  "sample_gate r = \<lparr>gt_record = r, gt_millis = 0, gt_calls = 0, gt_told = False, gt_world = ()\<rparr>"

definition denied_prompt :: "unit \<Rightarrow> unit res \<times> unit" where
  "denied_prompt w = (Inl [KeychainStatus ERR_SEC_USER_CANCELED], w)"

section \<open>Properties\<close>

text \<open>
  The cooldown: a look at the record that finds one running reports at least one and at most
  120 seconds, however damaged the record was or however far in the future it ended; and from then
  on the record stands for exactly that time: until it is over every later look reports what is
  left of it, and afterwards none. Bad metadata can neither suppress prompts for longer than a
  window nor allow one early.
\<close>

theorem cooldown_window:
  assumes run: "keychain_authorization_cooldown E now g = (Inr (Some n), g')"
    and room: "unat now + 120 < 2 ^ 64"
    and later: "now \<le> t" "gt_record g2 = gt_record g'" "ge_fault E2 = (\<lambda>_. None)"
  shows "1 \<le> unat n \<and> unat n \<le> 120 \<and>
    (\<exists>g3. keychain_authorization_cooldown E2 t g2 =
       (Inr (if unat t < unat now + unat n then Some (of_nat (unat now + unat n - unat t)) else None), g3))"
proof -
  have n: "0 < n" "n \<le> KEYCHAIN_AUTHORIZATION_COOLDOWN_SECS" "record_until (gt_record g') = Some (now + n)"
    using cooldown_running [OF run room] by auto
  have n120: "unat n \<le> 120"
    using n(2) by (simp add: KEYCHAIN_AUTHORIZATION_COOLDOWN_SECS_def word_le_nat_alt)
  have n1: "1 \<le> unat n" using n(1) by (simp add: word_less_nat_alt)
  have room': "unat now + unat n < 2 ^ 64" using n120 room by linarith
  have add: "unat (now + n) = unat now + unat n" using room' by (simp add: unat_word_ariths)
  have lt: "t < now + n \<longleftrightarrow> unat t < unat now + unat n" by (simp add: word_less_nat_alt add)
  show ?thesis
  proof (cases "t < now + n")
    case True
    note d = window_diff [OF later(1) True room']
    have "now + n - t \<le> KEYCHAIN_AUTHORIZATION_COOLDOWN_SECS" using d(1) n(2) by (rule order_trans)
    from cooldown_later [OF later(3) _ this, of g2] n(3) later(2) True
    obtain g3 where g3: "keychain_authorization_cooldown E2 t g2 = (Inr (Some (now + n - t)), g3)" by auto
    have left: "now + n - t = of_nat (unat now + unat n - unat t)"
    proof -
      have "of_nat (unat w) = w" for w :: u64 by simp
      from this [of "now + n - t"] show ?thesis by (simp only: d(2))
    qed
    have "unat t < unat now + unat n" using True lt by simp
    then have "\<exists>g3. keychain_authorization_cooldown E2 t g2 =
       (Inr (if unat t < unat now + unat n then Some (of_nat (unat now + unat n - unat t)) else None), g3)"
      unfolding left [symmetric] using g3 by (simp only: if_True) blast
    then show ?thesis using n1 n120 by blast
  next
    case False
    have "gt_record g2 \<noteq> []" using n(3) later(2) record_until_Nil by auto
    then have "\<exists>g3. keychain_authorization_cooldown E2 t g2 = (Inr None, g3)"
      using n(3) later False
      by (auto simp: cooldown_eq read_record_quiet cooldown_decision_def Let_def set_len_zero_def not_less)
    moreover have "\<not> unat t < unat now + unat n" using False lt by simp
    ultimately show ?thesis using n1 n120 by (simp only: if_False)
  qed
qed

theorem cooldown_window_witness:
  "\<exists>g3. keychain_authorization_cooldown sample_gate_env 1010 (sample_gate (as_bytes (decimal 1050)))
     = (Inr (Some 40), g3)"
proof -
  let ?g = "sample_gate (as_bytes (decimal 1050))"
  have quiet: "ge_fault sample_gate_env = (\<lambda>_. None)" by (simp add: sample_gate_env_def)
  have rec: "record_until (gt_record ?g) = Some 1050"
    using record_until_decimal [of 1050] by (simp add: sample_gate_def)
  then have "gt_record ?g \<noteq> []" using record_until_Nil by auto
  then have run: "keychain_authorization_cooldown sample_gate_env 1000 ?g
      = (Inr (Some 50), tick sample_gate_env (tick sample_gate_env ?g))"
    using rec by (simp add: cooldown_eq read_record_quiet [OF quiet] cooldown_decision_def
        KEYCHAIN_AUTHORIZATION_COOLDOWN_SECS_def)
  from cooldown_window [OF run _ _ _ quiet, of 1010 ?g] show ?thesis by simp
qed

text \<open>
  C38. Waiting is bounded: unless the lock call is interrupted for ever, authorizing returns,
  whatever other processes do with the gate.
\<close>

theorem authorize_returns:
  assumes "not_forever_interrupted E"
  shows "\<exists>r g'. authorize_with_gate E dir wait interactive coalesced g = Some (r, g')"
proof (cases "open_keychain_authorization_gate E dir g")
  case (Pair r0 g0)
  show ?thesis
  proof (cases r0)
    case (Inl e)
    then show ?thesis using Pair by (simp add: authorize_with_gate_def)
  next
    case (Inr u)
    obtain d where "ge_flock E (gt_calls g0 + d) \<noteq> Interrupted"
      using assms by (auto simp: not_forever_interrupted_def)
    from try_lock_returns [OF this] obtain r1 g1 where 1: "try_lock_gate E g0 = Some (r1, g1)" by blast
    define g2 where "g2 = tick E (g1\<lparr>gt_told := True\<rparr>)"
    obtain r2 g3 where 2: "wait_for_gate E (gt_millis g2 + wait) g2 = Some (r2, g3)"
      using wait_returns [OF assms] by blast
    have "authorize_with_gate E dir wait interactive coalesced g \<noteq> None"
    proof (cases "r1 = Inr False")
      case True
      show ?thesis
        unfolding authorize_with_gate_def Pair Inr
        by (simp add: 1 True 2 [unfolded g2_def] split: sum.split)
    next
      case False
      then show ?thesis
        unfolding authorize_with_gate_def Pair Inr
        by (cases r1) (simp_all add: 1)
    qed
    then show ?thesis by (cases "authorize_with_gate E dir wait interactive coalesced g") auto
  qed
qed

theorem authorize_returns_witness:
  "\<exists>r g'. authorize_with_gate sample_gate_env [47] 1000 denied_prompt denied_prompt (sample_gate []) = Some (r, g')"
proof (rule authorize_returns)
  have "ge_flock sample_gate_env (n + 4) \<noteq> Interrupted" for n by (simp add: sample_gate_env_def)
  then show "not_forever_interrupted sample_gate_env" by (auto simp: not_forever_interrupted_def)
qed

text \<open>
  Who had to wait never prompts: where the gate is taken at the first attempt, the run does
  not depend on the interactive operation, so it is never started.
\<close>

theorem waiter_never_prompts:
  assumes "open_keychain_authorization_gate E dir g = (Inr (), g0)" "ge_flock E (gt_calls g0) = WouldBlockLock"
  shows "authorize_with_gate E dir wait interactive coalesced g
       = authorize_with_gate E dir wait interactive' coalesced g"
proof -
  have 1: "try_lock_gate E g0 = Some (Inr False, tick E g0)"
    by (subst try_lock_gate.simps) (simp add: assms(2))
  have waited: "authorize_locked E True interactive coalesced = authorize_locked E True interactive' coalesced"
    unfolding authorize_locked_def if_True ..
  show ?thesis
    unfolding authorize_with_gate_def assms(1) waited by (simp add: 1)
qed

theorem waiter_never_prompts_witness:
  "authorize_with_gate sample_gate_env [47] 1000 denied_prompt (Pair (Inr ())) (sample_gate [])
   = authorize_with_gate sample_gate_env [47] 1000 undefined (Pair (Inr ())) (sample_gate [])"
proof (rule waiter_never_prompts)
  show "open_keychain_authorization_gate sample_gate_env [47] (sample_gate [])
      = (Inr (), tick sample_gate_env (tick sample_gate_env (tick sample_gate_env (sample_gate []))))"
    by code_simp
  show "ge_flock sample_gate_env (gt_calls (tick sample_gate_env (tick sample_gate_env
      (tick sample_gate_env (sample_gate []))))) = WouldBlockLock"
    by (simp add: sample_gate_env_def sample_gate_def)
qed

lemma on_world_simps:
  "on_world E f g = (fst (f (gt_world g)), (tick E g)\<lparr>gt_world := snd (f (gt_world g))\<rparr>)"
  by (simp add: on_world_def case_prod_unfold Let_def)

lemma cooldown_blocks:
  assumes quiet: "ge_fault E = (\<lambda>_. None)" and clock: "ge_unix_time E (gt_calls g) = Inr t"
    and rec: "record_until (gt_record g) = Some (d + 120)" and t: "d \<le> t" "t < d + 120"
    and room: "unat d + 120 < 2 ^ 64"
  shows "\<exists>g'. authorize_locked E waited interactive coalesced g
       = (Inl [KeychainAuthorizationCooldown (unat d + 120 - unat t)], g') \<and> gt_world g' = gt_world g"
proof -
  have room': "unat d + unat (120 :: u64) < 2 ^ 64" using room by simp
  note w = window_diff [OF t room']
  have "d + 120 - t \<le> KEYCHAIN_AUTHORIZATION_COOLDOWN_SECS"
    using w(1) by (simp add: KEYCHAIN_AUTHORIZATION_COOLDOWN_SECS_def)
  from cooldown_later [OF quiet _ this, of "tick E g"] rec t(2)
  obtain g' where "keychain_authorization_cooldown E t (tick E g) = (Inr (Some (d + 120 - t)), g')"
      and "gt_world g' = gt_world g" by auto
  moreover have "unat (d + 120 - t) = unat d + 120 - unat t" using w(2) by simp
  ultimately show ?thesis
    by (simp add: authorize_locked_def unix_now_secs_def clock)
qed

text \<open>
  C37. A denial holds everybody off: when the prompt is denied at time \<open>d\<close> (and the gate file can be
  written), the caller gets its own error back, and whoever takes the gate with that record within
  120 seconds of the denial, waiter or not, gets the cooldown error with the time that is left;
  neither of its operations is run.
\<close>

theorem denial_holds_off:
  assumes quiet: "ge_fault E = (\<lambda>_. None)"
    and run: "authorize_locked E False interactive coalesced g = (r, g')"
    and prompted: "ge_unix_time E (gt_calls g) = Inr now" "keychain_authorization_cooldown E now (tick E g) = (Inr None, g1)"
    and denied: "interactive (gt_world g1) = (Inl e, w)" "is_keychain_denial e"
    and at: "ge_unix_time E (Suc (gt_calls g1)) = Inr d" "unat d + 120 < 2 ^ 64"
    and later: "gt_record g2 = gt_record g'" "ge_fault E2 = (\<lambda>_. None)"
      "ge_unix_time E2 (gt_calls g2) = Inr t" "d \<le> t" "t < d + 120"
  shows "r = Inl e \<and> (\<exists>g3. authorize_locked E2 waited interactive2 coalesced2 g2
       = (Inl [KeychainAuthorizationCooldown (unat d + 120 - unat t)], g3) \<and> gt_world g3 = gt_world g2)"
proof -
  define g4 where "g4 = (tick E g1)\<lparr>gt_world := w\<rparr>"
  have w: "on_world E interactive g1 = (Inl e, g4)" using denied(1) by (simp add: on_world_simps g4_def)
  have clock: "unix_now_secs E g4 = (Inr d, tick E g4)"
    using at(1) by (simp add: unix_now_secs_def g4_def)
  have sat: "saturating_add d KEYCHAIN_AUTHORIZATION_COOLDOWN_SECS = d + 120"
    using at(2) by (simp add: saturating_add_exact KEYCHAIN_AUTHORIZATION_COOLDOWN_SECS_def)
  obtain g5 where g5: "record_keychain_authorization_cooldown E (d + 120) (tick E g4) = (Inr (), g5)"
    using record_cooldown_quiet [OF quiet] by blast
  have "r = Inl e \<and> g' = g5"
    using run prompted denied(2) by (simp add: authorize_locked_def unix_now_secs_def [of E g] w clock sat g5)
  moreover have "record_until (gt_record g2) = Some (d + 120)"
    using record_cooldown_Inr [OF g5] later(1) calculation by simp
  ultimately show ?thesis
    using cooldown_blocks [OF later(2,3) _ later(4,5) at(2)] by blast
qed


theorem denial_holds_off_witness:
  "\<exists>g3. authorize_locked (sample_gate_env\<lparr>ge_unix_time := \<lambda>_. Inr 1050\<rparr>) True denied_prompt denied_prompt
     (sample_gate (gt_record (snd (authorize_locked sample_gate_env False denied_prompt denied_prompt (sample_gate [])))))
     = (Inl [KeychainAuthorizationCooldown 74], g3)"
proof -
  let ?E = "sample_gate_env" and ?g = "sample_gate []"
  let ?E2 = "?E\<lparr>ge_unix_time := \<lambda>_. Inr 1050\<rparr>"
  let ?d = "authorize_locked ?E False denied_prompt denied_prompt ?g"
  let ?g2 = "sample_gate (gt_record (snd ?d))"
  have quiet: "ge_fault ?E = (\<lambda>_. None)" by (simp add: sample_gate_env_def)
  have prompt: "keychain_authorization_cooldown ?E 1000 (tick ?E ?g) = (Inr None, tick ?E (tick ?E (tick ?E ?g)))"
    by (simp add: cooldown_eq read_record_quiet [OF quiet] cooldown_decision_def sample_gate_def)
  have denial: "is_keychain_denial [KeychainStatus ERR_SEC_USER_CANCELED]"
    by (simp add: is_keychain_denial_def)
  have "fst ?d = Inl [KeychainStatus ERR_SEC_USER_CANCELED] \<and>
    (\<exists>g3. authorize_locked ?E2 True denied_prompt denied_prompt ?g2
       = (Inl [KeychainAuthorizationCooldown (unat (1004 :: u64) + 120 - unat (1050 :: u64))], g3)
       \<and> gt_world g3 = gt_world ?g2)"
    by (rule denial_holds_off [OF quiet prod.collapse [symmetric] _ prompt _ denial, where w = "()"])
       (simp_all add: sample_gate_env_def sample_gate_def denied_prompt_def)
  then show ?thesis by auto
qed

end
