(* ===== verification/MasterKeys.thy ===== *)
theory MasterKeys
  imports PassphraseStore TpmStore AuthGate
begin

text \<open>
  The operations on the master key that the command line calls
  (\<open>load_or_create_master_key\<close>, \<open>load_master_key\<close>, \<open>authorize_master_key\<close> and
  \<open>import_master_key\<close> in \<open>crates/avault-store/src/lib.rs\<close>): the dispatch over the selected store and
  the platform. The variants that are compiled for one platform only are cases of the platform;
  the world is the file system together with the Keychain.
\<close>

section \<open>The host\<close>

datatype platform = MacOS | Linux | OtherPlatform

record 'k host =
  ho_platform :: platform
  ho_os :: os
  ho_env :: environment
  ho_security :: "'k security"
  ho_tpm :: tpm_env

(* SRC store default_backend *)
definition default_backend :: "platform \<Rightarrow> backend" where
  "default_backend plat = (case plat of MacOS \<Rightarrow> Keychain | Linux \<Rightarrow> Tpm | OtherPlatform \<Rightarrow> File)"

text \<open>The stores of the other platforms fail in every operation.\<close>

(* SRC store 1871-1887 KeychainStore *)
definition keychain_only :: "'k host \<Rightarrow> (fs \<times> 'k \<Rightarrow> 'a res \<times> (fs \<times> 'k)) \<Rightarrow> fs \<times> 'k \<Rightarrow> 'a res \<times> (fs \<times> 'k)" where
  "keychain_only H f w =
     (if ho_platform H = MacOS then f w
      else (bail ''Keychain master-key backend is only available on macOS'', w))"

(* SRC store 1122-1135 TpmStore *)
definition tpm_only :: "'k host \<Rightarrow> (fs \<Rightarrow> 'a res \<times> fs) \<Rightarrow> fs \<Rightarrow> 'a res \<times> fs" where
  "tpm_only H f s =
     (if ho_platform H = Linux then f s
      else (bail ''TPM master-key backend is only available on Linux'', s))"

definition at_path :: "path res \<Rightarrow> (path \<Rightarrow> fs \<Rightarrow> 'a res \<times> fs) \<Rightarrow> fs \<times> 'k \<Rightarrow> 'a res \<times> (fs \<times> 'k)" where
  "at_path p f w = then_st (p, w) (\<lambda>p w. on_fs (f p) w)"

definition passphrase_needed :: "fs \<times> 'k \<Rightarrow> 'a res \<times> (fs \<times> 'k)" where
  "passphrase_needed w = (bail ''passphrase backend requires an explicit passphrase unlock'', w)"

section \<open>Opening a store\<close>

text \<open>The stores that are named; \<open>Auto\<close> is the choice of the platform.\<close>

(* SRC store 489-495 load_or_create_master_key *)
definition load_or_create_named :: "'k host \<Rightarrow> backend \<Rightarrow> fs \<times> 'k \<Rightarrow> master_key res \<times> (fs \<times> 'k)" where
  "load_or_create_named H b = (case b of
       File \<Rightarrow> at_path (default_master_key_path (ho_env H)) (file_get_or_create (ho_os H))
     | Keychain \<Rightarrow> keychain_only H (keychain_get_or_create (ho_security H) (ho_os H))
     | Tpm \<Rightarrow> at_path (default_tpm_master_key_path (ho_env H)) (\<lambda>p.
         tpm_only H (tpm_get_or_create_with (ho_tpm H) (ho_os H) p))
     | _ \<Rightarrow> passphrase_needed)"

(* SRC store 561-569 load_or_create_auto_master_key *)
definition load_or_create_auto :: "'k host \<Rightarrow> fs \<times> 'k \<Rightarrow> master_key res \<times> (fs \<times> 'k)" where
  "load_or_create_auto H = (case ho_platform H of
       MacOS \<Rightarrow> load_or_create_auto_master_key (ho_security H) (ho_os H) (ho_env H)
     | Linux \<Rightarrow> on_fs (load_or_create_linux_auto (ho_tpm H) (ho_os H) (ho_env H))
     | OtherPlatform \<Rightarrow> load_or_create_named H (default_backend (ho_platform H)))"

(* SRC store load_or_create_master_key *)
definition load_or_create_master_key :: "'k host \<Rightarrow> backend \<Rightarrow> fs \<times> 'k \<Rightarrow> master_key res \<times> (fs \<times> 'k)" where
  "load_or_create_master_key H b = (if b = Auto then load_or_create_auto H else load_or_create_named H b)"

(* SRC store 503-509 load_master_key *)
definition load_named :: "'k host \<Rightarrow> backend \<Rightarrow> fs \<times> 'k \<Rightarrow> master_key res \<times> (fs \<times> 'k)" where
  "load_named H b = (case b of
       File \<Rightarrow> at_path (default_master_key_path (ho_env H)) (file_get (ho_os H))
     | Keychain \<Rightarrow> keychain_only H (on_keychain (keychain_get (ho_security H)))
     | Tpm \<Rightarrow> at_path (default_tpm_master_key_path (ho_env H)) (\<lambda>p.
         tpm_only H (tpm_get_with (ho_tpm H) (ho_os H) p))
     | _ \<Rightarrow> passphrase_needed)"

(* SRC store 580-588 load_auto_master_key *)
definition load_auto :: "'k host \<Rightarrow> fs \<times> 'k \<Rightarrow> master_key res \<times> (fs \<times> 'k)" where
  "load_auto H = (case ho_platform H of
       MacOS \<Rightarrow> load_auto_master_key (ho_security H) (ho_os H) (ho_env H)
     | Linux \<Rightarrow> on_fs (load_linux_auto (ho_tpm H) (ho_os H) (ho_env H))
     | OtherPlatform \<Rightarrow> load_named H (default_backend (ho_platform H)))"

(* SRC store load_master_key *)
definition load_master_key :: "'k host \<Rightarrow> backend \<Rightarrow> fs \<times> 'k \<Rightarrow> master_key res \<times> (fs \<times> 'k)" where
  "load_master_key H b = (if b = Auto then load_auto H else load_named H b)"

section \<open>Authorizing and importing\<close>

definition load_in_gate :: "'k host \<Rightarrow> backend \<Rightarrow> (fs \<times> 'k) gate \<Rightarrow> (unit res \<times> (fs \<times> 'k) gate) option" where
  "load_in_gate H b g = (let (r, w) = load_master_key H b (gt_world g)
     in Some (map_res (\<lambda>_. ()) r, g\<lparr>gt_world := w\<rparr>))"

(* SRC store authorize_master_key *)
definition authorize_master_key ::
    "gate_env \<Rightarrow> 'k host \<Rightarrow> backend \<Rightarrow> (fs \<times> 'k) gate \<Rightarrow> (unit res \<times> (fs \<times> 'k) gate) option" where
  "authorize_master_key E H b g = (case b of
       Auto \<Rightarrow> if ho_platform H = MacOS
              then authorize_auto_master_key E (ho_security H) (ho_os H) (ho_env H) g
              else load_in_gate H Auto g
     | Keychain \<Rightarrow> if ho_platform H = MacOS then keychain_authorize E (ho_security H) g
                  else Some (bail ''Keychain master-key backend is only available on macOS'', g)
     | _ \<Rightarrow> load_in_gate H b g)"

(* SRC store 537-548 import_master_key *)
definition import_named :: "'k host \<Rightarrow> backend \<Rightarrow> bytes \<Rightarrow> bool \<Rightarrow> fs \<times> 'k \<Rightarrow> unit res \<times> (fs \<times> 'k)" where
  "import_named H b key force = (case b of
       File \<Rightarrow> at_path (default_master_key_path (ho_env H)) (\<lambda>p s.
         context_st ''failed to store imported master key'' (file_import (ho_os H) p key force s))
     | Keychain \<Rightarrow> (\<lambda>w. context_st ''failed to store imported master key in Keychain''
         (keychain_only H (on_keychain (keychain_import (ho_security H) key force)) w))
     | Tpm \<Rightarrow> at_path (default_tpm_master_key_path (ho_env H)) (\<lambda>p s.
         context_st ''failed to store imported master key with TPM''
           (tpm_only H (tpm_import_with (ho_tpm H) (ho_os H) p key force) s))
     | _ \<Rightarrow> passphrase_needed)"

(* SRC store 655-663 import_auto_master_key *)
definition import_auto :: "'k host \<Rightarrow> bytes \<Rightarrow> bool \<Rightarrow> fs \<times> 'k \<Rightarrow> unit res \<times> (fs \<times> 'k)" where
  "import_auto H key force = (case ho_platform H of
       MacOS \<Rightarrow> import_auto_master_key (system_keychain (ho_security H) Background) (ho_os H) (ho_env H) key force
     | Linux \<Rightarrow> on_fs (import_linux_auto (ho_tpm H) (ho_os H) (ho_env H) key force)
     | OtherPlatform \<Rightarrow> import_named H (default_backend (ho_platform H)) key force)"

(* SRC store import_master_key *)
definition store_import_master_key :: "'k host \<Rightarrow> backend \<Rightarrow> bytes \<Rightarrow> bool \<Rightarrow> fs \<times> 'k \<Rightarrow> unit res \<times> (fs \<times> 'k)" where
  "store_import_master_key H b key force = (if b = Auto then import_auto H key force else import_named H b key force)"

section \<open>Nothing that exists is lost\<close>

text \<open>Files as they were, temporary ones apart, and an item of the Keychain as it was.\<close>

definition keeps_stores :: "('k \<Rightarrow> bytes option) \<Rightarrow> fs \<times> 'k \<Rightarrow> fs \<times> 'k \<Rightarrow> bool" where
  "keeps_stores item w w' \<longleftrightarrow>
     keeps (fst w) (fst w') \<and> (item (snd w) = None \<or> item (snd w') = item (snd w))"

lemma keeps_stores_refl [simp]: "keeps_stores item w w"
  by (simp add: keeps_stores_def)

lemma keeps_stores_trans:
  "\<lbrakk>keeps_stores item w w1; keeps_stores item w1 w2\<rbrakk> \<Longrightarrow> keeps_stores item w w2"
  by (auto simp: keeps_stores_def intro: keeps_trans)

lemma keeps_on_fs: "keeps (fst w) (snd (f (fst w))) \<Longrightarrow> keeps_stores item w (snd (on_fs f w))"
  by (simp add: on_fs_def keeps_stores_def case_prod_unfold Let_def)

lemma keeps_on_keychain:
  "item (snd (f (snd w))) = item (snd w) \<Longrightarrow> keeps_stores item w (snd (on_keychain f w))"
  by (simp add: on_keychain_def keeps_stores_def case_prod_unfold Let_def)

lemma keeps_at_path:
  assumes "\<And>p. r = Inr p \<Longrightarrow> keeps (fst w) (snd (f p (fst w)))"
  shows "keeps_stores item w (snd (at_path r f w))"
  using assms by (cases r) (simp_all add: at_path_def keeps_on_fs)

lemma keeps_keychain_only: "keeps_stores item w (snd (f w)) \<Longrightarrow> keeps_stores item w (snd (keychain_only H f w))"
  by (simp add: keychain_only_def)

lemma keeps_tpm_only: "keeps s (snd (f s)) \<Longrightarrow> keeps s (snd (tpm_only H f s))"
  by (simp add: tpm_only_def)

text \<open>What is known of the parameters of a host.\<close>

definition host_laws :: "'k host \<Rightarrow> ('k \<Rightarrow> bytes option) \<Rightarrow> bool" where
  "host_laws H item \<longleftrightarrow> tempfile_laws (ho_os H) \<and> tpm_laws (ho_tpm H) \<and> security_laws (ho_security H) item"

lemma tpm_path_ok:
  assumes "default_tpm_master_key_path env = Inr tpm"
  shows "not_temp tpm \<and> tpm \<noteq> [46]"
proof -
  obtain p where "default_master_key_path env = Inr p"
    using assms by (auto simp: default_tpm_master_key_path_def default_master_key_path_def vault_file_def
        res_simps split: option.splits)
  from default_paths [OF this assms] show ?thesis by simp
qed

lemma load_auto_with_keeps:
  assumes "security_laws S item"
  shows "keeps_stores item w (snd (load_auto_master_key_with (system_keychain S mode) os p create w))"
proof -
  obtain r s' k' where run: "load_auto_master_key_with (system_keychain S mode) os p create (fst w, snd w) = (r, (s', k'))"
    by (metis surj_pair)
  then show ?thesis
    using keychain_item.load_auto_cases(1,2) [OF system_is_item [OF assms] run]
    by (auto simp: keeps_stores_def keeps_def)
qed

lemma keychain_get_or_create_keeps:
  assumes "security_laws S item"
  shows "keeps_stores item w (snd (keychain_get_or_create S os w))"
proof -
  obtain r s' k' where run: "get_or_create_keychain_key (system_keychain S Background) os (fst w, snd w) = (r, (s', k'))"
    by (metis surj_pair)
  then show ?thesis
    using keychain_item.get_or_create_item [OF system_is_item [OF assms] run]
    by (auto simp: keychain_get_or_create_def keeps_stores_def keeps_def)
qed

lemma kc_read_keeps:
  assumes "security_laws S item"
  shows "item (snd (kc_read (system_keychain S mode) k)) = item k"
  using keychain_item.read_keeps [OF system_is_item [OF assms], of mode k] by (metis prod.collapse)

lemma load_linux_auto_keeps:
  assumes "tempfile_laws os" "tpm_laws B"
  shows "keeps s (snd (load_linux_auto B os env s))"
proof (cases "default_tpm_master_key_path env")
  case (Inr tpm)
  note t = tpm_path_ok [OF Inr]
  show ?thesis
  proof (cases "default_master_key_path env")
    case (Inr p)
    obtain ex s1 where 1: "path_exists os p s = (ex, s1)" by (cases "path_exists os p s")
    have "keeps s1 (snd (then_st (file_get os p s1) (\<lambda>k s. migrate_file_key_to_tpm_with_backend B os tpm k s)))"
      by (rule keeps_then_st)
         (use t in \<open>auto intro: keeps_same keeps_trans migrate_keeps [OF assms] simp: nodes_file_get\<close>)
    moreover have "keeps s1 (snd (tpm_get_with B os tpm s1))" by (rule tpm_get_keeps [OF assms(2)])
    ultimately show ?thesis
      using path_exists_nodes [OF 1] \<open>default_tpm_master_key_path env = Inr tpm\<close> Inr 1
      by (simp add: load_linux_auto_def keeps_def)
  qed (simp add: load_linux_auto_def Inr)
qed (simp add: load_linux_auto_def)

lemma load_or_create_named_keeps:
  assumes "host_laws H item"
  shows "keeps_stores item w (snd (load_or_create_named H b w))"
proof (cases b)
  case File
  then show ?thesis
    using assms default_key_path
    by (auto simp: load_or_create_named_def host_laws_def intro!: keeps_at_path file_get_or_create_keeps)
next
  case Tpm
  then show ?thesis
    using assms tpm_path_ok
    by (auto simp: load_or_create_named_def host_laws_def intro!: keeps_at_path keeps_tpm_only
        tpm_get_or_create_keeps)
next
  case Keychain
  then show ?thesis
    using assms
    by (auto simp: load_or_create_named_def host_laws_def intro!: keeps_keychain_only keychain_get_or_create_keeps)
qed (simp_all add: load_or_create_named_def passphrase_needed_def)

lemma load_named_keeps:
  assumes "host_laws H item"
  shows "keeps_stores item w (snd (load_named H b w))"
proof (cases b)
  case File
  then show ?thesis
    by (auto simp: load_named_def nodes_file_get intro!: keeps_at_path keeps_same)
next
  case Tpm
  then show ?thesis
    using assms by (auto simp: load_named_def host_laws_def intro!: keeps_at_path keeps_tpm_only tpm_get_keeps)
next
  case Keychain
  then show ?thesis
    using assms by (auto simp: load_named_def host_laws_def keychain_get_def kc_read_keeps
        intro!: keeps_keychain_only keeps_on_keychain)
qed (simp_all add: load_named_def passphrase_needed_def)

lemma keeps_then_pure:
  "(\<And>p. r = Inr p \<Longrightarrow> keeps_stores item w (snd (f p w))) \<Longrightarrow> keeps_stores item w (snd (then_st (r, w) f))"
  by (cases r) simp_all

lemma load_keeps:
  assumes "host_laws H item"
  shows "keeps_stores item w (snd (load_or_create_master_key H b w))"
    and "keeps_stores item w (snd (load_master_key H b w))"
proof -
  note laws = assms [unfolded host_laws_def]
  have "keeps_stores item w (snd (load_or_create_auto H w))"
    using laws load_or_create_named_keeps [OF assms]
    by (cases "ho_platform H") (auto simp: load_or_create_auto_def load_or_create_auto_master_key_def
        intro!: keeps_on_fs load_or_create_linux_keeps keeps_then_pure load_auto_with_keeps)
  then show "keeps_stores item w (snd (load_or_create_master_key H b w))"
    using load_or_create_named_keeps [OF assms] by (simp add: load_or_create_master_key_def)
  have "keeps_stores item w (snd (load_auto H w))"
    using laws load_named_keeps [OF assms]
    by (cases "ho_platform H") (auto simp: load_auto_def load_auto_master_key_def
        intro!: keeps_on_fs load_linux_auto_keeps keeps_then_pure load_auto_with_keeps)
  then show "keeps_stores item w (snd (load_master_key H b w))"
    using load_named_keeps [OF assms] by (simp add: load_master_key_def)
qed

lemma authorize_keeps:
  assumes laws: "host_laws H item" and run: "authorize_master_key E H b g = Some (r, g')"
  shows "keeps_stores item (gt_world g) (gt_world g')"
proof -
  note l = laws [unfolded host_laws_def]
  have in_gate: "keeps_stores item (gt_world g) (gt_world g')" if "load_in_gate H b' g = Some (r, g')" for b'
    using that load_keeps(2) [OF laws, of "gt_world g" b'] by (auto simp: load_in_gate_def case_prod_unfold Let_def)
  have "keeps_stores item (gt_world g) (gt_world g')"
    if "authorize_auto_master_key E (ho_security H) (ho_os H) (ho_env H) g = Some (r, g')"
    using that l
    by (auto simp: authorize_auto_master_key_def load_auto_with_keeps split: sum.splits
        elim!: authorize_keychain_world)
  moreover have "keeps_stores item (gt_world g) (gt_world g')"
    if "keychain_authorize E (ho_security H) g = Some (r, g')"
    using that l
    by (auto simp: keychain_authorize_def kc_read_keeps elim!: authorize_keychain_world intro!: keeps_on_keychain)
  ultimately show ?thesis
    using run in_gate by (cases b) (auto simp: authorize_master_key_def split: if_splits)
qed

section \<open>A sample\<close>

definition sample_host :: "bytes option host" where
  "sample_host = \<lparr>ho_platform = MacOS, ho_os = plain_os, ho_env = Map.empty,
     ho_security = sample_security, ho_tpm = sample_tpm\<rparr>"

lemma sample_host_laws: "host_laws sample_host (\<lambda>k. k)"
  by (simp add: host_laws_def sample_host_def plain_laws sample_tpm_laws sample_security_laws)

definition keyed_gate :: "(fs \<times> bytes option) gate" where
  "keyed_gate = \<lparr>gt_record = [], gt_millis = 0, gt_calls = 0, gt_told = False,
     gt_world = (keyed_fs, Some sample_key)\<rparr>"

section \<open>Properties\<close>

text \<open>
  Opening the master key never destroys one, on any platform and with any store: whatever
  system calls, TPM or Keychain operations fail, \<open>load_or_create_master_key\<close> and
  \<open>load_master_key\<close> leave every file that exists (temporary ones apart) and the Keychain item, if
  there is one, exactly as they are.
\<close>

theorem opening_keeps_keys:
  assumes "host_laws H item"
    and "w' = snd (load_or_create_master_key H b w) \<or> w' = snd (load_master_key H b w)"
  shows "keeps (fst w) (fst w') \<and> (item (snd w) = None \<or> item (snd w') = item (snd w))"
  using load_keeps [OF assms(1), of w b] assms(2) by (auto simp: keeps_stores_def)

theorem opening_keeps_keys_witness:
  "let w' = snd (load_or_create_master_key sample_host Keychain (keyed_fs, Some sample_key))
   in keeps keyed_fs (fst w') \<and> snd w' = Some sample_key"
  using opening_keeps_keys [OF sample_host_laws disjI1 [OF refl], where b = Keychain
      and w = "(keyed_fs, Some sample_key)"]
  by (simp add: Let_def)

text \<open>
  Authorizing never destroys or replaces a key either: whatever the user answers, whatever
  fails and however long the gate is held by others, the files that exist and the Keychain item
  are as they were when \<open>authorize_master_key\<close> returns.
\<close>

theorem authorizing_keeps_keys:
  assumes "host_laws H item" and "authorize_master_key E H b g = Some (r, g')"
  shows "keeps (fst (gt_world g)) (fst (gt_world g')) \<and>
    (item (snd (gt_world g)) = None \<or> item (snd (gt_world g')) = item (snd (gt_world g)))"
  using authorize_keeps [OF assms] by (simp add: keeps_stores_def)

theorem authorizing_keeps_keys_witness:
  "case authorize_master_key sample_gate_env sample_host Keychain keyed_gate of
     None \<Rightarrow> False
   | Some (r, g) \<Rightarrow> keeps keyed_fs (fst (gt_world g)) \<and> snd (gt_world g) = Some sample_key"
proof -
  have "authorize_master_key sample_gate_env sample_host Keychain keyed_gate \<noteq> None"
    by (simp add: authorize_master_key_def sample_host_def keychain_authorize_def authorize_keychain_def
        keychain_authorization_dir_def darwin_user_temp_dir_def validate_private_directory_def
        authorize_with_gate_def open_keychain_authorization_gate_def sample_gate_env_simps try_lock_Locked io_call_def
        keyed_gate_def as_bytes_def)
  then obtain r g where run: "authorize_master_key sample_gate_env sample_host Keychain keyed_gate = Some (r, g)"
    by auto
  have "gt_world keyed_gate = (keyed_fs, Some sample_key)" by (simp add: keyed_gate_def)
  with authorizing_keeps_keys [OF sample_host_laws run] show ?thesis by (simp add: run)
qed

end
