(* ===== verification/Delivery.thy ===== *)
theory Delivery
  imports AgentState Fetch
begin

text \<open>
  Opening the secrets of a request (\<open>crates/avault-cli/src/main.rs\<close>): the checks and the loop of
  the one-shot commands, which open standard-tier envelopes with the master key, and those of the
  resident agent, which open protected ones with the keys of a grant. The four loops differ in
  the check of an entry, the name it is delivered under and the key; \<open>open_each\<close> is what they
  share.
\<close>

section \<open>Requests\<close>

(* SRC cli EnvSecretInput *)
record env_secret_input =
  es_name :: string
  es_env :: string
  es_tier :: secret_tier
  es_envelope :: sealed
  es_dek_blindbox :: "blind_box option"
  es_approval :: "string option"

(* SRC cli NamedSecretInput *)
record named_secret_input =
  ns_name :: string
  ns_tier :: secret_tier
  ns_env :: "string option"
  ns_key :: "string option"
  ns_envelope :: sealed
  ns_dek_blindbox :: "blind_box option"
  ns_approval :: "string option"

(* SRC cli default_inject_format *)
definition default_inject_format :: string where
  "default_inject_format = ''dotenv''"

section \<open>The loop\<close>

fun open_each ::
    "('a \<Rightarrow> unit res) \<Rightarrow> ('a \<Rightarrow> string) \<Rightarrow> string \<Rightarrow> string \<Rightarrow> ('a \<Rightarrow> bytes res) \<Rightarrow> string list \<Rightarrow> 'a list
     \<Rightarrow> opened_secret list res" where
  "open_each check target label duplicate opn seen [] = Inr []"
| "open_each check target label duplicate opn seen (s # rest) =
     and_then (check s) (\<lambda>_.
     and_then (validate_shell_name (target s) label) (\<lambda>_.
     if target s \<in> set seen then bail duplicate
     else and_then (opn s) (\<lambda>plaintext.
          and_then (open_each check target label duplicate opn (target s # seen) rest) (\<lambda>opened.
          Inr (\<lparr>os_name = target s, os_plaintext = plaintext\<rparr> # opened)))))"

(* SRC cli 1366-1369 open_named_secrets *)
definition target_name :: "named_secret_input \<Rightarrow> string" where
  "target_name s = (case ns_key s of
       Some key \<Rightarrow> key
     | None \<Rightarrow> (case ns_env s of Some env \<Rightarrow> env | None \<Rightarrow> ns_name s))"

section \<open>One-shot commands\<close>

(* SRC cli reject_one_shot_protected_fields *)
definition reject_one_shot_protected_fields :: "blind_box option \<Rightarrow> string option \<Rightarrow> unit res" where
  "reject_one_shot_protected_fields dek_blindbox approval =
     (if dek_blindbox \<noteq> None \<or> approval \<noteq> None
      then bail ''protected DEK blind boxes require the resident agent'' else Inr ())"

(* SRC cli ensure_one_shot_standard_tier *)
definition ensure_one_shot_standard_tier :: "secret_tier \<Rightarrow> unit res" where
  "ensure_one_shot_standard_tier tier =
     (if tier \<noteq> Standard then bail ''one-shot delivery is standard-tier only'' else Inr ())"

text \<open>With the master key already loaded.\<close>

(* SRC cli open_one_shot_secret *)
definition open_one_shot_secret ::
    "'e core_env_scheme \<Rightarrow> string \<Rightarrow> sealed \<Rightarrow> blind_box option \<Rightarrow> string option \<Rightarrow> master_key \<Rightarrow> bytes res" where
  "open_one_shot_secret E name envelope dek_blindbox approval master =
     and_then (reject_one_shot_protected_fields dek_blindbox approval) (\<lambda>_.
     with_context ''envelope open failed'' (open_envelope E master name envelope))"

(* SRC cli 934-953 open_env_secrets *)
definition open_env_secrets ::
    "'e core_env_scheme \<Rightarrow> master_key \<Rightarrow> env_secret_input list \<Rightarrow> opened_secret list res" where
  "open_env_secrets E master = open_each
     (\<lambda>s. ensure_one_shot_standard_tier (es_tier s)) es_env ''env var name'' ''duplicate env var name''
     (\<lambda>s. with_context (''open failed for '' @ es_name s)
        (open_one_shot_secret E (es_name s) (es_envelope s) (es_dek_blindbox s) (es_approval s) master)) []"

(* SRC cli 1364-1389 open_named_secrets *)
definition open_named_secrets ::
    "'e core_env_scheme \<Rightarrow> master_key \<Rightarrow> named_secret_input list \<Rightarrow> opened_secret list res" where
  "open_named_secrets E master = open_each
     (\<lambda>s. ensure_one_shot_standard_tier (ns_tier s)) target_name ''secret target name''
     ''duplicate secret target name''
     (\<lambda>s. with_context (''open failed for '' @ ns_name s)
        (open_one_shot_secret E (ns_name s) (ns_envelope s) (ns_dek_blindbox s) (ns_approval s) master)) []"

(* SRC cli validate_inject_request *)
definition validate_inject_request :: "named_secret_input list \<Rightarrow> string \<Rightarrow> string res" where
  "validate_inject_request secrets format =
     (if secrets = [] then bail ''deliver inject requires at least one secret''
      else let format = to_ascii_lowercase format
           in if format \<noteq> ''dotenv'' \<and> format \<noteq> ''json''
              then bail ''deliver inject format is not implemented in P1.1'' else Inr format)"

section \<open>The agent\<close>

(* SRC cli reject_agent_one_shot_secret_fields *)
definition reject_agent_one_shot_secret_fields :: "blind_box option \<Rightarrow> string option \<Rightarrow> unit res" where
  "reject_agent_one_shot_secret_fields dek_blindbox approval =
     (if dek_blindbox \<noteq> None \<or> approval \<noteq> None
      then bail ''agent delivery uses cached grants and rejects one-shot DEK fields'' else Inr ())"

(* SRC cli reject_agent_env_one_shot_fields *)
definition reject_agent_env_one_shot_fields :: "env_secret_input list \<Rightarrow> unit res" where
  "reject_agent_env_one_shot_fields =
     for_each (\<lambda>s. reject_agent_one_shot_secret_fields (es_dek_blindbox s) (es_approval s))"

(* SRC cli reject_agent_named_one_shot_fields *)
definition reject_agent_named_one_shot_fields :: "named_secret_input list \<Rightarrow> unit res" where
  "reject_agent_named_one_shot_fields =
     for_each (\<lambda>s. reject_agent_one_shot_secret_fields (ns_dek_blindbox s) (ns_approval s))"

definition deliver_key :: "string \<Rightarrow> dek_key" where
  "deliver_key name = \<lparr>dk_purpose = DeliverDek, dk_name = name, dk_scheme = None, dk_digest_hex = None\<rparr>"

(* SRC cli open_secret_with_grant *)
definition open_secret_with_grant :: "'e core_env_scheme \<Rightarrow> string \<Rightarrow> sealed \<Rightarrow> grant_entry \<Rightarrow> bytes res" where
  "open_secret_with_grant E name envelope grant =
     and_then (ok_or ''grant does not cover secret'' (gr_deks grant (deliver_key name))) (\<lambda>dek.
     with_context ''envelope open failed'' (open_with_dek E dek name envelope))"

definition sign_key :: "'e blind_env_scheme \<Rightarrow> string \<Rightarrow> string \<Rightarrow> bytes \<Rightarrow> dek_key" where
  "sign_key E name scheme digest = \<lparr>dk_purpose = SignDek, dk_name = name, dk_scheme = Some scheme,
     dk_digest_hex = Some (hex_encode E digest)\<rparr>"

(* SRC cli open_signing_key_with_grant *)
definition open_signing_key_with_grant ::
    "'e blind_env_scheme \<Rightarrow> string \<Rightarrow> sealed \<Rightarrow> string \<Rightarrow> bytes \<Rightarrow> grant_entry \<Rightarrow> bytes res" where
  "open_signing_key_with_grant E name envelope scheme digest grant =
     and_then (ok_or ''grant does not cover signing operation''
                 (gr_deks grant (sign_key E name scheme digest))) (\<lambda>dek.
     with_context ''envelope open failed'' (open_with_dek E dek name envelope))"

(* SRC cli open_agent_secret *)
definition open_agent_secret ::
    "'e core_env_scheme \<Rightarrow> string \<Rightarrow> secret_tier \<Rightarrow> sealed \<Rightarrow> grant_entry \<Rightarrow> master_key option \<Rightarrow> bytes res" where
  "open_agent_secret E name tier envelope grant standard_master = (case tier of
       Standard \<Rightarrow> and_then (ok_or ''standard-tier secret requires a master key'' standard_master) (\<lambda>master.
         with_context ''envelope open failed'' (open_envelope E master name envelope))
     | Protected \<Rightarrow> open_secret_with_grant E name envelope grant)"

(* SRC cli open_env_secrets_for_agent *)
definition open_env_secrets_for_agent ::
    "'e core_env_scheme \<Rightarrow> env_secret_input list \<Rightarrow> grant_entry \<Rightarrow> master_key option \<Rightarrow> opened_secret list res" where
  "open_env_secrets_for_agent E secrets grant standard_master = open_each
     (\<lambda>s. reject_agent_one_shot_secret_fields (es_dek_blindbox s) (es_approval s)) es_env
     ''env var name'' ''duplicate env var name''
     (\<lambda>s. with_context (''open failed for '' @ es_name s)
        (open_agent_secret E (es_name s) (es_tier s) (es_envelope s) grant standard_master)) [] secrets"

(* SRC cli open_named_secrets_for_agent *)
definition open_named_secrets_for_agent ::
    "'e core_env_scheme \<Rightarrow> named_secret_input list \<Rightarrow> grant_entry \<Rightarrow> master_key option \<Rightarrow> opened_secret list res" where
  "open_named_secrets_for_agent E secrets grant standard_master = open_each
     (\<lambda>s. reject_agent_one_shot_secret_fields (ns_dek_blindbox s) (ns_approval s)) target_name
     ''secret target name'' ''duplicate secret target name''
     (\<lambda>s. with_context (''open failed for '' @ ns_name s)
        (open_agent_secret E (ns_name s) (ns_tier s) (ns_envelope s) grant standard_master)) [] secrets"

section \<open>What the loop returns\<close>

lemma open_each_eq_Inr:
  "open_each check target label duplicate opn seen xs = Inr opened \<longleftrightarrow>
     list_all (\<lambda>s. check s = Inr () \<and> validate_shell_name (target s) label = Inr ()) xs \<and>
     distinct (map target xs) \<and> set (map target xs) \<inter> set seen = {} \<and>
     list_all2 (\<lambda>s secret. os_name secret = target s \<and> opn s = Inr (os_plaintext secret)) xs opened"
proof (induction xs arbitrary: seen opened)
  case Nil
  then show ?case by auto
next
  case (Cons s rest)
  show ?case
    by (cases opened) (auto simp: res_simps Cons.IH)
qed

text \<open>
  C20. A delivery of the agent opens what was asked for and nothing else: it succeeds exactly if no
  entry carries one-shot fields, the target names are valid shell names and pairwise distinct, and
  every envelope opens, under the standard master for a standard-tier secret and under the key the
  grant holds for delivering that very name for a protected one; and then it returns the opened
  values under the target names in the order of the request.
\<close>

theorem agent_delivery_exact:
  "open_env_secrets_for_agent E secrets grant master = Inr opened \<longleftrightarrow>
     list_all (\<lambda>s. es_dek_blindbox s = None \<and> es_approval s = None \<and>
                   validate_shell_name (es_env s) ''env var name'' = Inr ()) secrets \<and>
     distinct (map es_env secrets) \<and>
     list_all2 (\<lambda>s secret. os_name secret = es_env s \<and>
        (case es_tier s of
           Standard \<Rightarrow> (case master of None \<Rightarrow> False
                        | Some m \<Rightarrow> open_envelope E m (es_name s) (es_envelope s) = Inr (os_plaintext secret))
         | Protected \<Rightarrow> (case gr_deks grant (deliver_key (es_name s)) of None \<Rightarrow> False
                         | Some dek \<Rightarrow> open_with_dek E dek (es_name s) (es_envelope s) = Inr (os_plaintext secret))))
       secrets opened"
proof -
  have opens: "with_context m (open_agent_secret E (es_name s) (es_tier s) (es_envelope s) grant master) = Inr p \<longleftrightarrow>
      (case es_tier s of
           Standard \<Rightarrow> (case master of None \<Rightarrow> False
                        | Some m \<Rightarrow> open_envelope E m (es_name s) (es_envelope s) = Inr p)
         | Protected \<Rightarrow> (case gr_deks grant (deliver_key (es_name s)) of None \<Rightarrow> False
                         | Some dek \<Rightarrow> open_with_dek E dek (es_name s) (es_envelope s) = Inr p))" for m s p
    by (auto simp: open_agent_secret_def open_secret_with_grant_def res_simps
        split: secret_tier.split option.split)
  have check: "reject_agent_one_shot_secret_fields b a = Inr () \<longleftrightarrow> b = None \<and> a = None" for b a
    by (simp add: reject_agent_one_shot_secret_fields_def)
  show ?thesis
    by (simp add: open_env_secrets_for_agent_def open_each_eq_Inr opens check conj_assoc)
qed

end
