(* ===== verification/AgentGrant.thy ===== *)
theory AgentGrant
  imports Delivery FileStore Signing
begin

text \<open>
  The grant request of the resident agent (\<open>handle_agent_frame_inner\<close>, the case \<open>Grant\<close>, and the
  approval helpers of \<open>crates/avault-cli/src/main.rs\<close>).

  \<^item> A worker's state \<open>agent_sys\<close> holds the shared grant table, the file system, a count of the
    calls it has made, and the helper processes it has started with what it sent them. \<open>agent_env\<close> is its environment: the readings of the monotonic clock and of
    the system time (nanoseconds, the latter since the Unix epoch) by the number of the call, and
    what the other workers have made of the table by the time a lock is
    taken, so every run of a handler here is a run among any number of others.
  \<^item> The blind-box, signature, fetch and serde parameters are those of the component theories;
    \<open>hex::decode\<close> is one more.
\<close>

section \<open>Environment and state\<close>

record ('sc, 'pt) agent_env =
  ae_core :: blind_env
  ae_curve :: "('sc, 'pt) curve_env"
  ae_fetch :: fetch_env
  ae_os :: os
  ae_to_json :: "string \<Rightarrow> string"
  ae_hex_decode :: "string \<Rightarrow> bytes option"
  ae_keypair :: blind_box_keypair
  ae_clock :: "nat \<Rightarrow> instant"
  ae_system_time :: "nat \<Rightarrow> int"
  ae_max_instant :: instant
  ae_max_system_time :: int
  ae_aux_rand :: "nat \<Rightarrow> bytes"
  ae_others :: "nat \<Rightarrow> agent_state \<Rightarrow> agent_state"
  ae_poisoned :: "nat \<Rightarrow> bool"
  ae_master :: "nat \<Rightarrow> master_key res"

record agent_sys =
  ag_state :: agent_state
  ag_fs :: fs
  ag_calls :: nat
  ag_children :: "(string list \<times> bytes) list"

definition step :: "agent_sys \<Rightarrow> agent_sys" where
  "step g = g\<lparr>ag_calls := Suc (ag_calls g)\<rparr>"

text \<open>\<open>Instant::now\<close> and \<open>SystemTime::now\<close>.\<close>

definition instant_now :: "('sc, 'pt, 'e) agent_env_scheme \<Rightarrow> agent_sys \<Rightarrow> instant \<times> agent_sys" where
  "instant_now E g = (ae_clock E (ag_calls g), step g)"

definition system_now :: "('sc, 'pt, 'e) agent_env_scheme \<Rightarrow> agent_sys \<Rightarrow> int \<times> agent_sys" where
  "system_now E g = (ae_system_time E (ag_calls g), step g)"

definition nanos :: "u64 \<Rightarrow> nat" where
  "nanos secs = unat secs * 10 ^ 9"

text \<open>Taking the lock of the table: others may have changed it, and one that panicked poisoned it.\<close>

(* SRC cli AgentShared::state *)
definition lock_state :: "('sc, 'pt, 'e) agent_env_scheme \<Rightarrow> agent_sys \<Rightarrow> unit res \<times> agent_sys" where
  "lock_state E g =
     (if ae_poisoned E (ag_calls g) then (bail ''agent state lock is poisoned'', step g)
      else (Inr (), (step g)\<lparr>ag_state := ae_others E (ag_calls g) (ag_state g)\<rparr>))"

section \<open>Requests\<close>

(* SRC cli ApprovalContextInput *)
record approval_context_input =
  ai_nonce :: string
  ai_expires_at_unix :: u64

(* SRC cli ApprovalContext *)
record approval_context =
  ap_nonce :: bytes
  ap_expires_at_unix :: u64

(* SRC cli AgentDekInput *)
record agent_dek_input =
  di_name :: string
  di_dek_blindbox :: blind_box
  di_approval :: approval_context_input
  di_scheme :: "string option"
  di_digest :: "string option"

(* SRC cli AgentGrantRequest *)
record agent_grant_request =
  gq_grant_id :: string
  gq_purpose :: "string option"
  gq_ttl_secs :: "u64 option"
  gq_deks :: "agent_dek_input list"

(* SRC cli DEFAULT_AGENT_GRANT_TTL_SECS *)
definition DEFAULT_AGENT_GRANT_TTL_SECS :: u64 where
  "DEFAULT_AGENT_GRANT_TTL_SECS = 300"

(* SRC cli MAX_AGENT_GRANT_TTL_SECS *)
definition MAX_AGENT_GRANT_TTL_SECS :: u64 where
  "MAX_AGENT_GRANT_TTL_SECS = 24 * 60 * 60"

(* SRC cli MIN_APPROVAL_NONCE_BYTES *)
definition MIN_APPROVAL_NONCE_BYTES :: nat where
  "MIN_APPROVAL_NONCE_BYTES = 16"

(* SRC cli MAX_APPROVAL_NONCE_BYTES *)
definition MAX_APPROVAL_NONCE_BYTES :: nat where
  "MAX_APPROVAL_NONCE_BYTES = 128"

section \<open>Helpers\<close>

(* SRC cli decode_hex_32 *)
definition decode_hex_32 :: "('sc, 'pt, 'e) agent_env_scheme \<Rightarrow> string \<Rightarrow> string \<Rightarrow> bytes res" where
  "decode_hex_32 E text label =
     (if length (as_bytes text) \<noteq> 64 then bail (label @ '' must be 32 bytes of hex'')
      else and_then (with_context (label @ '' is not valid hex'') (lib_res ''hex'' (ae_hex_decode E text))) (\<lambda>bs.
           if length bs = 32 then Inr bs else bail (label @ '' must be 32 bytes of hex'')))"

(* SRC cli zeroizing_vec_to_key32 *)
definition zeroizing_vec_to_key32 :: "bytes \<Rightarrow> string \<Rightarrow> bytes res" where
  "zeroizing_vec_to_key32 value label =
     (if length value \<noteq> 32 then bail (label @ '' has invalid length'') else Inr value)"

(* SRC cli parse_approval_context *)
definition parse_approval_context ::
    "('sc, 'pt, 'e) agent_env_scheme \<Rightarrow> approval_context_input \<Rightarrow> approval_context res" where
  "parse_approval_context E i =
     and_then (with_context ''approval nonce is not valid base64''
                 (lib_res ''base64'' (base64_decode (ae_core E) (ai_nonce i)))) (\<lambda>nonce.
     if length nonce < MIN_APPROVAL_NONCE_BYTES \<or> MAX_APPROVAL_NONCE_BYTES < length nonce
     then bail ''approval nonce has invalid length''
     else Inr \<lparr>ap_nonce = nonce, ap_expires_at_unix = ai_expires_at_unix i\<rparr>)"

(* SRC cli current_unix_secs *)
definition current_unix_secs :: "('sc, 'pt, 'e) agent_env_scheme \<Rightarrow> agent_sys \<Rightarrow> u64 res \<times> agent_sys" where
  "current_unix_secs E g =
     (let (now, g) = system_now E g
      in if now < 0 then (Inl [Msg ''system clock is before Unix epoch'', Lib ''SystemTimeError''], g)
         else (Inr (word_of_int (now div 10 ^ 9)), g))"

(* SRC cli validate_approval_not_expired *)
definition validate_approval_not_expired :: "('sc, 'pt, 'e) agent_env_scheme \<Rightarrow> u64 \<Rightarrow> agent_sys \<Rightarrow> unit res \<times> agent_sys" where
  "validate_approval_not_expired E expires_at_unix g =
     then_st (current_unix_secs E g) (\<lambda>now g.
     if expires_at_unix \<le> now then (bail ''approval is expired'', g) else (Inr (), g))"

text \<open>\<open>Instant::checked_add\<close> and \<open>SystemTime::checked_add\<close> fail past the end of their range.\<close>

definition checked_instant :: "('sc, 'pt, 'e) agent_env_scheme \<Rightarrow> instant \<Rightarrow> nat \<Rightarrow> string \<Rightarrow> instant res" where
  "checked_instant E t d m = (if t + d \<le> ae_max_instant E then Inr (t + d) else bail m)"

(* SRC cli approval_expiry_instant *)
definition approval_expiry_instant :: "('sc, 'pt, 'e) agent_env_scheme \<Rightarrow> u64 \<Rightarrow> agent_sys \<Rightarrow> instant res \<times> agent_sys" where
  "approval_expiry_instant E expires_at_unix g =
     (let (now_instant, g) = instant_now E g;
          (now, g) = system_now E g;
          expires_at = int (nanos expires_at_unix)
      in if ae_max_system_time E < expires_at then (bail ''approval expiration is invalid'', g)
         else if expires_at < now then (bail ''approval is expired'', g)
         else (checked_instant E now_instant (nat (expires_at - now)) ''approval expiration is invalid'', g))"

(* SRC cli agent_deliver_operation_hash *)
definition agent_deliver_operation_hash :: "('sc, 'pt, 'e) agent_env_scheme \<Rightarrow> string \<Rightarrow> u64 \<Rightarrow> bytes res" where
  "agent_deliver_operation_hash E name ttl_secs =
     operation_hash (ae_core E) [as_bytes ''agent-deliver'', as_bytes name, be_bytes 8 (unat ttl_secs)]"

(* SRC cli agent_sign_operation_hash *)
definition agent_sign_operation_hash :: "('sc, 'pt, 'e) agent_env_scheme \<Rightarrow> string \<Rightarrow> bytes \<Rightarrow> u64 \<Rightarrow> bytes res" where
  "agent_sign_operation_hash E scheme digest ttl_secs =
     operation_hash (ae_core E) [as_bytes ''agent-sign'', as_bytes scheme, digest, be_bytes 8 (unat ttl_secs)]"

(* SRC cli grant_key_from_id *)
definition grant_key_from_id :: "string \<Rightarrow> grant_key res" where
  "grant_key_from_id grant_id = (if grant_id = [] then bail ''grant_id is required'' else Inr grant_id)"

section \<open>The grant request\<close>

definition on_agent_fs :: "(fs \<Rightarrow> 'a \<times> fs) \<Rightarrow> agent_sys \<Rightarrow> 'a \<times> agent_sys" where
  "on_agent_fs f g = (let (r, s) = f (ag_fs g) in (r, g\<lparr>ag_fs := s\<rparr>))"

text \<open>The context the blind box of a DEK has to be bound to, and the key it is kept under.\<close>

(* SRC cli 2903-2941 handle_agent_frame_inner *)
definition grant_dek_context ::
    "('sc, 'pt, 'e) agent_env_scheme \<Rightarrow> dek_purpose \<Rightarrow> string \<Rightarrow> u64 \<Rightarrow> approval_context \<Rightarrow> agent_dek_input
     \<Rightarrow> (blind_box_context \<times> dek_key) res" where
  "grant_dek_context E purpose grant_id ttl_secs approval dek = (case purpose of
       DeliverDek \<Rightarrow>
         if di_scheme dek \<noteq> None \<or> di_digest dek \<noteq> None
         then bail ''deliver grant DEK must not include signing fields''
         else and_then (agent_deliver_operation_hash E (di_name dek) ttl_secs) (\<lambda>hash.
              Inr (with_operation_hash hash
                     (with_approval (ap_nonce approval) (ap_expires_at_unix approval)
                        (agent_deliver grant_id (di_name dek))),
                   deliver_key (di_name dek)))
     | SignDek \<Rightarrow>
         and_then (ok_or ''sign grant DEK requires scheme'' (di_scheme dek)) (\<lambda>scheme.
         and_then (ok_or ''sign grant DEK requires digest'' (di_digest dek)) (\<lambda>digest_hex.
         and_then (decode_hex_32 E digest_hex ''digest'') (\<lambda>digest.
         and_then (agent_sign_operation_hash E scheme digest ttl_secs) (\<lambda>hash.
         Inr (with_operation_hash hash
                (with_approval (ap_nonce approval) (ap_expires_at_unix approval)
                   (agent_sign grant_id (di_name dek) scheme digest)),
              sign_key (ae_core E) (di_name dek) scheme digest))))))"

record grant_acc =
  ga_deks :: "dek_key \<rightharpoonup> master_key"
  ga_used_nonces :: "(bytes \<times> instant) list"
  ga_expires_at :: instant

(* SRC cli 2894-2955 handle_agent_frame_inner *)
definition grant_dek ::
    "('sc, 'pt, 'e) agent_env_scheme \<Rightarrow> dek_purpose \<Rightarrow> string \<Rightarrow> u64 \<Rightarrow> agent_dek_input \<Rightarrow> grant_acc \<Rightarrow> agent_sys
     \<Rightarrow> grant_acc res \<times> agent_sys" where
  "grant_dek E purpose grant_id ttl_secs dek acc g =
     then_st (parse_approval_context E (di_approval dek), g) (\<lambda>approval g.
     then_st (validate_approval_not_expired E (ap_expires_at_unix approval) g) (\<lambda>_ g.
     then_st (approval_expiry_instant E (ap_expires_at_unix approval) g) (\<lambda>approval_expires_at g.
     if list_ex (\<lambda>(nonce, _). nonce = ap_nonce approval) (ga_used_nonces acc)
     then (bail ''duplicate grant approval nonce'', g)
     else then_st (grant_dek_context E purpose grant_id ttl_secs approval dek, g) (\<lambda>(context, key) g.
          if ga_deks acc key \<noteq> None then (bail ''duplicate grant DEK name'', g)
          else then_st (with_context ''DEK blind-box open failed''
                          (open_blind_box (ae_core E) (ae_keypair E) (di_dek_blindbox dek) context), g) (\<lambda>opened g.
               then_st (zeroizing_vec_to_key32 opened ''released DEK'', g) (\<lambda>released_dek g.
               then_st (context_st ''failed to lock released DEK''
                          (on_agent_fs (from_bytes (ae_os E) released_dek) g)) (\<lambda>locked g.
               (Inr \<lparr>ga_deks = (ga_deks acc)(key \<mapsto> locked),
                     ga_used_nonces = ga_used_nonces acc @ [(ap_nonce approval, approval_expires_at)],
                     ga_expires_at = min (ga_expires_at acc) approval_expires_at\<rparr>, g))))))))"

fun grant_deks ::
    "('sc, 'pt, 'e) agent_env_scheme \<Rightarrow> dek_purpose \<Rightarrow> string \<Rightarrow> u64 \<Rightarrow> agent_dek_input list \<Rightarrow> grant_acc \<Rightarrow> agent_sys
     \<Rightarrow> grant_acc res \<times> agent_sys" where
  "grant_deks E purpose grant_id ttl_secs [] acc g = (Inr acc, g)"
| "grant_deks E purpose grant_id ttl_secs (dek # rest) acc g =
     then_st (grant_dek E purpose grant_id ttl_secs dek acc g) (\<lambda>acc g.
     grant_deks E purpose grant_id ttl_secs rest acc g)"

text \<open>Publishing takes the lock and two readings of the clock.\<close>

definition agent_publish ::
    "('sc, 'pt, 'e) agent_env_scheme \<Rightarrow> grant_key \<Rightarrow> grant_entry \<Rightarrow> (bytes \<times> instant) list \<Rightarrow> agent_sys \<Rightarrow> unit res \<times> agent_sys" where
  "agent_publish E scope grant nonces g =
     then_st (lock_state E g) (\<lambda>_ g.
     let (now, g) = instant_now E g;
         (later, g) = instant_now E g;
         (r, st) = publish_grant now later scope grant nonces (ag_state g)
     in (r, g\<lparr>ag_state := st\<rparr>))"

(* SRC cli 2873-2967 handle_agent_frame_inner *)
definition handle_grant ::
    "('sc, 'pt, 'e) agent_env_scheme \<Rightarrow> agent_grant_request \<Rightarrow> agent_sys \<Rightarrow> (nat \<times> u64) res \<times> agent_sys" where
  "handle_grant E request g =
     (if gq_deks request = [] then (bail ''grant requires at least one DEK'', g)
      else then_st (grant_key_from_id (gq_grant_id request), g) (\<lambda>key g.
           let ttl_secs = (case gq_ttl_secs request of None \<Rightarrow> DEFAULT_AGENT_GRANT_TTL_SECS | Some t \<Rightarrow> t)
           in if ttl_secs = 0 then (bail ''grant ttl_secs must be positive'', g)
              else if MAX_AGENT_GRANT_TTL_SECS < ttl_secs then (bail ''grant ttl_secs exceeds maximum'', g)
              else let (now, g) = instant_now E g
              in then_st (checked_instant E now (nanos ttl_secs) ''grant expiration is invalid'', g)
                   (\<lambda>requested_expires_at g.
                 then_st (parse_dek_purpose (gq_purpose request), g) (\<lambda>purpose g.
                 then_st (grant_deks E purpose key ttl_secs (gq_deks request)
                            \<lparr>ga_deks = Map.empty, ga_used_nonces = [], ga_expires_at = requested_expires_at\<rparr> g)
                   (\<lambda>acc g.
                 then_st (agent_publish E key
                            \<lparr>gr_expires_at = ga_expires_at acc, gr_deks = ga_deks acc\<rparr> (ga_used_nonces acc) g)
                   (\<lambda>_ g.
                 (Inr (card (dom (ga_deks acc)), ttl_secs), g)))))))"

section \<open>What a DEK of a grant is\<close>

lemma step_simps [simp]:
  "ag_state (step g) = ag_state g" "ag_fs (step g) = ag_fs g" "ag_calls (step g) = Suc (ag_calls g)"
  by (simp_all add: step_def)

text \<open>
  The DEK input opens to the key \<open>d\<close> under the entry \<open>k\<close>: its approval is well formed, and its
  blind box opens in the context of this very grant.
\<close>

definition opens_to ::
    "('sc, 'pt, 'e) agent_env_scheme \<Rightarrow> dek_purpose \<Rightarrow> string \<Rightarrow> u64 \<Rightarrow> agent_dek_input \<Rightarrow> dek_key \<Rightarrow> bytes \<Rightarrow> bool" where
  "opens_to E purpose grant_id ttl_secs dek k d =
     (case parse_approval_context E (di_approval dek) of
        Inl _ \<Rightarrow> False
      | Inr approval \<Rightarrow>
          (case grant_dek_context E purpose grant_id ttl_secs approval dek of
             Inl _ \<Rightarrow> False
           | Inr (context, key) \<Rightarrow> key = k \<and> length d = 32 \<and>
               open_blind_box (ae_core E) (ae_keypair E) (di_dek_blindbox dek) context = Inr d))"

definition nonce_of :: "('sc, 'pt, 'e) agent_env_scheme \<Rightarrow> agent_dek_input \<Rightarrow> bytes" where
  "nonce_of E dek = (case parse_approval_context E (di_approval dek) of Inl _ \<Rightarrow> [] | Inr a \<Rightarrow> ap_nonce a)"

text \<open>
  A DEK takes three readings, numbered from \<open>c\<close>: the time for the check of its approval, then the
  instant and the time from which the end of the approval is counted.
\<close>

definition approval_end :: "('sc, 'pt, 'e) agent_env_scheme \<Rightarrow> nat \<Rightarrow> agent_dek_input \<Rightarrow> instant" where
  "approval_end E c dek =
     ae_clock E (c + 1) + nat (int (nanos (ai_expires_at_unix (di_approval dek))) - ae_system_time E (c + 2))"

definition approval_open :: "('sc, 'pt, 'e) agent_env_scheme \<Rightarrow> nat \<Rightarrow> agent_dek_input \<Rightarrow> bool" where
  "approval_open E c dek \<longleftrightarrow> 0 \<le> ae_system_time E c \<and>
     word_of_int (ae_system_time E c div 10 ^ 9) < ai_expires_at_unix (di_approval dek) \<and>
     ae_system_time E (c + 2) \<le> int (nanos (ai_expires_at_unix (di_approval dek)))"

primrec approval_ends :: "('sc, 'pt, 'e) agent_env_scheme \<Rightarrow> nat \<Rightarrow> agent_dek_input list \<Rightarrow> instant list" where
  "approval_ends E c [] = []"
| "approval_ends E c (dek # rest) = approval_end E c dek # approval_ends E (c + 3) rest"

primrec approvals_open :: "('sc, 'pt, 'e) agent_env_scheme \<Rightarrow> nat \<Rightarrow> agent_dek_input list \<Rightarrow> bool" where
  "approvals_open E c [] \<longleftrightarrow> True"
| "approvals_open E c (dek # rest) \<longleftrightarrow> approval_open E c dek \<and> approvals_open E (c + 3) rest"

lemma length_approval_ends [simp]: "length (approval_ends E c deks) = length deks"
  by (induction deks arbitrary: c) simp_all

lemma validate_Inr:
  "validate_approval_not_expired E x g = (Inr u, g') \<Longrightarrow>
     0 \<le> ae_system_time E (ag_calls g) \<and> word_of_int (ae_system_time E (ag_calls g) div 10 ^ 9) < x \<and> g' = step g"
  by (auto simp: validate_approval_not_expired_def current_unix_secs_def system_now_def Let_def
      linorder_not_le split: if_splits)

lemma expiry_Inr:
  "approval_expiry_instant E x g = (Inr at, g') \<Longrightarrow>
     ae_system_time E (Suc (ag_calls g)) \<le> int (nanos x) \<and> g' = step (step g) \<and>
     at = ae_clock E (ag_calls g) + nat (int (nanos x) - ae_system_time E (Suc (ag_calls g)))"
  by (auto simp: approval_expiry_instant_def system_now_def instant_now_def Let_def checked_instant_def
      split: if_splits)

lemma approval_state:
  "ag_state (snd (validate_approval_not_expired E x g)) = ag_state g"
  "ag_state (snd (approval_expiry_instant E x g)) = ag_state g"
  by (auto simp: validate_approval_not_expired_def current_unix_secs_def approval_expiry_instant_def
      system_now_def instant_now_def Let_def)

lemma on_agent_fs_state [simp]: "ag_state (snd (on_agent_fs f g)) = ag_state g"
  by (simp add: on_agent_fs_def case_prod_unfold Let_def)

lemma then_st_agent_state:
  assumes "ag_state (snd m) = s" "\<And>x g1. \<lbrakk>m = (Inr x, g1); ag_state g1 = s\<rbrakk> \<Longrightarrow> ag_state (snd (f x g1)) = s"
  shows "ag_state (snd (then_st m f)) = s"
  using assms by (cases m; cases "fst m") auto

lemma context_st_agent [simp]: "snd (context_st m x) = snd x"
  by (cases x) (simp add: context_st_def)

lemma grant_dek_state: "ag_state (snd (grant_dek E purpose grant_id ttl dek acc g)) = ag_state g"
  unfolding grant_dek_def
  by (intro then_st_agent_state) (auto simp: approval_state intro!: then_st_agent_state)

lemma grant_deks_state: "ag_state (snd (grant_deks E purpose grant_id ttl deks acc g)) = ag_state g"
proof (induction deks arbitrary: acc g)
  case (Cons dek rest)
  show ?case
    by (simp, rule then_st_agent_state) (auto simp: grant_dek_state Cons.IH)
qed simp

lemma from_bytes_Inr:
  "on_agent_fs (from_bytes os b) g = (Inr k, g') \<Longrightarrow> k = b \<and> ag_calls g' = ag_calls g"
  by (auto simp: on_agent_fs_def from_bytes_def then_st_eq_Inr split: prod.splits)

lemma key32_Inr: "zeroizing_vec_to_key32 v l = Inr k \<longleftrightarrow> length v = 32 \<and> k = v"
  by (auto simp: zeroizing_vec_to_key32_def)

lemma grant_dek_Inr:
  assumes "grant_dek E purpose grant_id ttl dek acc g = (Inr acc', g')"
  defines "at \<equiv> approval_end E (ag_calls g) dek"
  shows "ag_calls g' = ag_calls g + 3 \<and> approval_open E (ag_calls g) dek \<and>
    (\<exists>k d. opens_to E purpose grant_id ttl dek k d \<and> ga_deks acc k = None \<and>
      nonce_of E dek \<notin> fst ` set (ga_used_nonces acc) \<and>
      acc' = \<lparr>ga_deks = (ga_deks acc)(k \<mapsto> d), ga_used_nonces = ga_used_nonces acc @ [(nonce_of E dek, at)],
              ga_expires_at = min (ga_expires_at acc) at\<rparr>)"
proof -
  obtain approval where 1: "parse_approval_context E (di_approval dek) = Inr approval"
    using assms(1) by (auto simp: grant_dek_def then_st_eq_Inr)
  have ap: "ap_expires_at_unix approval = ai_expires_at_unix (di_approval dek)"
    using 1 by (auto simp: parse_approval_context_def and_then_eq_Inr split: if_splits)
  obtain e g1 g2 where v: "validate_approval_not_expired E (ap_expires_at_unix approval) g = (Inr (), g1)"
    and x: "approval_expiry_instant E (ap_expires_at_unix approval) g1 = (Inr e, g2)"
    and rest: "(if list_ex (\<lambda>(nonce, _). nonce = ap_nonce approval) (ga_used_nonces acc)
     then (bail ''duplicate grant approval nonce'', g2)
     else then_st (grant_dek_context E purpose grant_id ttl approval dek, g2) (\<lambda>(context, key) g.
          if ga_deks acc key \<noteq> None then (bail ''duplicate grant DEK name'', g)
          else then_st (with_context ''DEK blind-box open failed''
                          (open_blind_box (ae_core E) (ae_keypair E) (di_dek_blindbox dek) context), g) (\<lambda>opened g.
               then_st (zeroizing_vec_to_key32 opened ''released DEK'', g) (\<lambda>released_dek g.
               then_st (context_st ''failed to lock released DEK''
                          (on_agent_fs (from_bytes (ae_os E) released_dek) g)) (\<lambda>locked g.
               (Inr \<lparr>ga_deks = (ga_deks acc)(key \<mapsto> locked),
                     ga_used_nonces = ga_used_nonces acc @ [(ap_nonce approval, e)],
                     ga_expires_at = min (ga_expires_at acc) e\<rparr>, g)))))) = (Inr acc', g')"
    using assms(1) 1 by (auto simp: grant_dek_def then_st_eq_Inr)
  have calls: "ag_calls g2 = ag_calls g + 3" and e: "e = at" and opn: "approval_open E (ag_calls g) dek"
    using validate_Inr [OF v] expiry_Inr [OF x] ap
    by (auto simp: at_def approval_end_def approval_open_def numeral_2_eq_2)
  note 2 = rest [unfolded e]
  have fresh: "nonce_of E dek \<notin> fst ` set (ga_used_nonces acc)"
    using 2 1 by (auto simp: nonce_of_def list_ex_iff split: if_splits)
  have "\<not> list_ex (\<lambda>(nonce, _). nonce = ap_nonce approval) (ga_used_nonces acc)"
    using 2 by (auto split: if_splits)
  note 3 = 2 [unfolded if_not_P [OF this]]
  obtain ctx key where 4: "grant_dek_context E purpose grant_id ttl approval dek = Inr (ctx, key)"
    using 3 by (auto simp: then_st_eq_Inr)
  have 5: "ga_deks acc key = None" using 3 4 by (auto split: if_splits)
  obtain d where 6: "open_blind_box (ae_core E) (ae_keypair E) (di_dek_blindbox dek) ctx = Inr d" "length d = 32"
      and 7: "acc' = \<lparr>ga_deks = (ga_deks acc)(key \<mapsto> d), ga_used_nonces = ga_used_nonces acc @ [(ap_nonce approval, at)],
            ga_expires_at = min (ga_expires_at acc) at\<rparr>" "ag_calls g' = ag_calls g2"
    using 3 4 5 by (auto simp: then_st_eq_Inr context_st_eq_Inr res_simps key32_Inr dest!: from_bytes_Inr)
  have "opens_to E purpose grant_id ttl dek key d" using 1 4 6 by (simp add: opens_to_def)
  moreover have "nonce_of E dek = ap_nonce approval" using 1 by (simp add: nonce_of_def)
  ultimately show ?thesis using 5 7 fresh calls opn by auto
qed

text \<open>The whole list: every input has its own entry and nonce, and no entry comes from elsewhere.\<close>

definition deks_of ::
    "('sc, 'pt, 'e) agent_env_scheme \<Rightarrow> dek_purpose \<Rightarrow> string \<Rightarrow> u64 \<Rightarrow> agent_dek_input list \<Rightarrow> nat \<Rightarrow> grant_acc \<Rightarrow> grant_acc \<Rightarrow> bool" where
  "deks_of E purpose grant_id ttl deks c acc acc' \<longleftrightarrow>
     ga_expires_at acc' = fold min (approval_ends E c deks) (ga_expires_at acc) \<and> approvals_open E c deks \<and>
     (\<exists>ks ds. list_all2 (\<lambda>dek (k, d). opens_to E purpose grant_id ttl dek k d) deks (zip ks ds) \<and>
        length ks = length deks \<and> length ds = length deks \<and>
        distinct ks \<and> (\<forall>k \<in> set ks. ga_deks acc k = None) \<and>
        ga_deks acc' = extend_map (zip ks ds) (ga_deks acc) \<and>
        ga_used_nonces acc' = ga_used_nonces acc @ zip (map (nonce_of E) deks) (approval_ends E c deks) \<and>
        distinct (map (nonce_of E) deks) \<and>
        (\<forall>dek \<in> set deks. nonce_of E dek \<notin> fst ` set (ga_used_nonces acc)))"

lemma grant_deks_Inr:
  "grant_deks E purpose grant_id ttl deks acc g = (Inr acc', g') \<Longrightarrow>
     ag_calls g' = ag_calls g + 3 * length deks \<and> deks_of E purpose grant_id ttl deks (ag_calls g) acc acc'"
proof (induction deks arbitrary: acc g)
  case Nil
  then show ?case by (simp add: deks_of_def extend_map_def)
next
  case (Cons dek rest)
  let ?at = "approval_end E (ag_calls g) dek"
  obtain acc1 g1 where 1: "grant_dek E purpose grant_id ttl dek acc g = (Inr acc1, g1)"
      and 2: "grant_deks E purpose grant_id ttl rest acc1 g1 = (Inr acc', g')"
    using Cons.prems by (auto simp: then_st_eq_Inr)
  obtain k d where k: "opens_to E purpose grant_id ttl dek k d" "ga_deks acc k = None"
      "nonce_of E dek \<notin> fst ` set (ga_used_nonces acc)"
      and acc1: "acc1 = \<lparr>ga_deks = (ga_deks acc)(k \<mapsto> d),
         ga_used_nonces = ga_used_nonces acc @ [(nonce_of E dek, ?at)],
         ga_expires_at = min (ga_expires_at acc) ?at\<rparr>"
      and g1: "ag_calls g1 = ag_calls g + 3" "approval_open E (ag_calls g) dek"
    using grant_dek_Inr [OF 1] by blast
  obtain ks ds where r: "list_all2 (\<lambda>dek (k, d). opens_to E purpose grant_id ttl dek k d) rest (zip ks ds)"
      "length ks = length rest" "length ds = length rest" "distinct ks"
      "\<forall>k \<in> set ks. ga_deks acc1 k = None"
      "ga_deks acc' = extend_map (zip ks ds) (ga_deks acc1)"
      "ga_used_nonces acc' = ga_used_nonces acc1 @ zip (map (nonce_of E) rest) (approval_ends E (ag_calls g1) rest)"
      "distinct (map (nonce_of E) rest)"
      "\<forall>dek \<in> set rest. nonce_of E dek \<notin> fst ` set (ga_used_nonces acc1)"
      "ga_expires_at acc' = fold min (approval_ends E (ag_calls g1) rest) (ga_expires_at acc1)"
      "approvals_open E (ag_calls g1) rest" "ag_calls g' = ag_calls g1 + 3 * length rest"
    using Cons.IH [OF 2] unfolding deks_of_def by blast
  have new: "k \<notin> set ks" "\<forall>k \<in> set ks. ga_deks acc k = None"
    using r(5) by (auto simp: acc1 split: if_splits)
  have "nonce_of E dek \<notin> nonce_of E ` set rest" using r(9) by (auto simp: acc1)
  moreover have "ga_deks acc' = extend_map (zip (k # ks) (d # ds)) (ga_deks acc)"
    using r(6) by (simp add: acc1 extend_map_def)
  moreover have "ga_used_nonces acc' =
      ga_used_nonces acc @ zip (map (nonce_of E) (dek # rest)) (approval_ends E (ag_calls g) (dek # rest))"
    using r(7) g1(1) by (simp add: acc1)
  moreover have "ga_expires_at acc' = fold min (approval_ends E (ag_calls g) (dek # rest)) (ga_expires_at acc)"
    using r(10) g1(1) by (simp add: acc1 min.commute)
  moreover have "approvals_open E (ag_calls g) (dek # rest)" "ag_calls g' = ag_calls g + 3 * length (dek # rest)"
    using r(11,12) g1 by simp_all
  ultimately show ?case
    unfolding deks_of_def
    using k r new
    by (intro conjI exI [of _ "k # ks"] exI [of _ "d # ds"]) (auto simp: acc1)
qed

lemma extend_empty: "distinct (map fst kvs) \<Longrightarrow> extend_map kvs Map.empty = map_of kvs"
  by (rule ext) (simp add: extend_map_distinct split: option.split)

lemma card_dom_zip:
  "\<lbrakk>distinct ks; length ds = length ks\<rbrakk> \<Longrightarrow> card (dom (extend_map (zip ks ds) Map.empty)) = length ks"
  by (simp add: extend_empty dom_map_of_conv_image_fst distinct_card flip: set_map)

text \<open>The table that publishing finds: what the others have made of it by the lock, purged.\<close>

definition table_found :: "('sc, 'pt, 'e) agent_env_scheme \<Rightarrow> nat \<Rightarrow> agent_state \<Rightarrow> agent_state" where
  "table_found E n st = purge (ae_clock E (n + 1)) (ae_others E n st)"

lemma agent_publish_cases:
  fixes g :: agent_sys
  assumes "agent_publish E scope grant nonces g = (r, g')"
  shows "(is_ok r \<longrightarrow> publish_grant (ae_clock E (ag_calls g + 1)) (ae_clock E (ag_calls g + 2)) scope grant nonces
      (ae_others E (ag_calls g) (ag_state g)) = (Inr (), ag_state g')) \<and>
    (is_ok r \<or> ag_state g' = ag_state g \<or> ag_state g' = table_found E (ag_calls g) (ag_state g))"
proof (cases "ae_poisoned E (ag_calls g)")
  case True
  then show ?thesis using assms by (auto simp: agent_publish_def lock_state_def bail_def is_ok_def)
next
  case False
  obtain r' st where p: "publish_grant (ae_clock E (ag_calls g + 1)) (ae_clock E (ag_calls g + 2)) scope grant nonces
      (ae_others E (ag_calls g) (ag_state g)) = (r', st)" by (metis surj_pair)
  then have "r = r'" "ag_state g' = st"
    using assms False by (auto simp: agent_publish_def lock_state_def instant_now_def Let_def)
  then show ?thesis using p publish_grant_Inl [of _ _ scope grant nonces _ _ st]
    by (cases r') (auto simp: is_ok_def table_found_def)
qed

text \<open>What a grant that was made consists of.\<close>

definition grant_ttl :: "agent_grant_request \<Rightarrow> u64" where
  "grant_ttl request = (case gq_ttl_secs request of None \<Rightarrow> DEFAULT_AGENT_GRANT_TTL_SECS | Some t \<Rightarrow> t)"

definition publish_call :: "agent_grant_request \<Rightarrow> agent_sys \<Rightarrow> nat" where
  "publish_call request g = ag_calls g + 1 + 3 * length (gq_deks request)"

lemma handle_grant_Inr:
  assumes "handle_grant E request g = (Inr (n, ttl), g')"
  shows "gq_grant_id request \<noteq> [] \<and> gq_deks request \<noteq> [] \<and> 0 < ttl \<and> ttl \<le> MAX_AGENT_GRANT_TTL_SECS \<and>
    ttl = grant_ttl request \<and>
    (\<exists>purpose acc. parse_dek_purpose (gq_purpose request) = Inr purpose \<and>
       deks_of E purpose (gq_grant_id request) ttl (gq_deks request) (ag_calls g + 1)
         \<lparr>ga_deks = Map.empty, ga_used_nonces = [], ga_expires_at = ae_clock E (ag_calls g) + nanos ttl\<rparr> acc \<and>
       n = card (dom (ga_deks acc)) \<and>
       publish_grant (ae_clock E (publish_call request g + 1)) (ae_clock E (publish_call request g + 2))
         (gq_grant_id request) \<lparr>gr_expires_at = ga_expires_at acc, gr_deks = ga_deks acc\<rparr>
         (ga_used_nonces acc) (ae_others E (publish_call request g) (ag_state g)) = (Inr (), ag_state g'))"
proof -
  have "gq_deks request \<noteq> []" using assms by (auto simp: handle_grant_def split: if_splits)
  moreover have id: "gq_grant_id request \<noteq> []"
    using assms by (auto simp: handle_grant_def grant_key_from_id_def split: if_splits)
  moreover have ttl: "ttl = grant_ttl request" "0 < ttl" "ttl \<le> MAX_AGENT_GRANT_TTL_SECS"
    using assms id calculation(1)
    by (auto simp: handle_grant_def grant_key_from_id_def then_st_eq_Inr Let_def instant_now_def word_gt_0
        not_less grant_ttl_def split: if_splits)
  moreover obtain purpose acc g2 g3 where
      p: "parse_dek_purpose (gq_purpose request) = Inr purpose" and
      d: "grant_deks E purpose (gq_grant_id request) ttl (gq_deks request)
         \<lparr>ga_deks = Map.empty, ga_used_nonces = [], ga_expires_at = ae_clock E (ag_calls g) + nanos ttl\<rparr> (step g) = (Inr acc, g2)"
      and pub: "agent_publish E (gq_grant_id request)
         \<lparr>gr_expires_at = ga_expires_at acc, gr_deks = ga_deks acc\<rparr> (ga_used_nonces acc) g2 = (Inr (), g3)"
      and n: "n = card (dom (ga_deks acc))" "g' = g3"
    using assms id calculation(1) ttl
    by (auto simp: handle_grant_def grant_key_from_id_def then_st_eq_Inr Let_def instant_now_def
        checked_instant_def grant_ttl_def split: if_splits)
  moreover have "ag_calls g2 = publish_call request g" "ag_state g2 = ag_state g"
    using grant_deks_Inr [OF d] grant_deks_state [of E purpose "gq_grant_id request" ttl "gq_deks request" _ "step g"] d
    by (simp_all add: publish_call_def) (metis snd_conv)
  ultimately show ?thesis
    using grant_deks_Inr [OF d] agent_publish_cases [OF pub] by (auto simp: is_ok_def)
qed

text \<open>What a refused one leaves of the table.\<close>

definition spends_nothing ::
    "('sc, 'pt, 'e) agent_env_scheme \<Rightarrow> nat \<Rightarrow> agent_sys \<Rightarrow> 'a res \<times> agent_sys \<Rightarrow> bool" where
  "spends_nothing E n g r \<longleftrightarrow> is_ok (fst r) \<or> ag_state (snd r) = ag_state g \<or>
     ag_state (snd r) = table_found E n (ag_state g)"

lemma spends_pure: "ag_state g1 = ag_state g \<Longrightarrow> spends_nothing E n g (r, g1)"
  by (simp add: spends_nothing_def)

lemma spends_then:
  assumes "ag_state (snd m) = ag_state g"
    and "\<And>x g1. \<lbrakk>m = (Inr x, g1); ag_state g1 = ag_state g\<rbrakk> \<Longrightarrow> spends_nothing E n g (f x g1)"
  shows "spends_nothing E n g (then_st m f)"
  using assms by (cases m; cases "fst m") (auto simp: spends_nothing_def)

lemma agent_publish_spends:
  fixes g g1 :: agent_sys
  assumes "ag_state g1 = ag_state g"
  shows "spends_nothing E (ag_calls g1) g (then_st (agent_publish E scope grant nonces g1) (\<lambda>_ g. (Inr v, g)))"
proof -
  obtain r g2 where p: "agent_publish E scope grant nonces g1 = (r, g2)" by (metis surj_pair)
  then show ?thesis
    using agent_publish_cases [OF p] assms by (cases r) (auto simp: spends_nothing_def is_ok_def)
qed

lemma handle_grant_spends: "spends_nothing E (publish_call request g) g (handle_grant E request g)"
proof -
  have "spends_nothing E (publish_call request g) g
      (then_st (grant_deks E purpose key ttl (gq_deks request) acc (step g)) (\<lambda>acc g.
         then_st (agent_publish E key (grant acc) (ga_used_nonces acc) g) (\<lambda>_ g. (Inr (v acc), g))))"
    for purpose key ttl acc v grant
  proof (rule spends_then)
    fix acc' g1 assume d: "grant_deks E purpose key ttl (gq_deks request) acc (step g) = (Inr acc', g1)"
      and g1: "ag_state g1 = ag_state g"
    have "ag_calls g1 = publish_call request g" using grant_deks_Inr [OF d] by (simp add: publish_call_def)
    then show "spends_nothing E (publish_call request g) g
        (then_st (agent_publish E key (grant acc') (ga_used_nonces acc') g1) (\<lambda>_ g. (Inr (v acc'), g)))"
      using agent_publish_spends [OF g1] by metis
  qed (simp add: grant_deks_state)
  then show ?thesis
    unfolding handle_grant_def instant_now_def
    by (auto simp: Let_def then_st_def grant_key_from_id_def checked_instant_def spends_pure bail_def split: sum.split)
qed

section \<open>A sample\<close>

definition sample_agent_env :: "(z3, z3) agent_env" where
  "sample_agent_env = \<lparr>ae_core = sample_blind, ae_curve = sample_curve, ae_fetch = sample_fetch_env,
     ae_os = plain_os, ae_to_json = (\<lambda>s. s), ae_hex_decode = (\<lambda>t. Some (as_bytes t)),
     ae_keypair = \<lparr>kp_private_key = [], kp_public_key = []\<rparr>, ae_clock = (\<lambda>n. n),
     ae_system_time = (\<lambda>_. 1000 * 10 ^ 9), ae_max_instant = 10 ^ 30, ae_max_system_time = 10 ^ 30,
     ae_aux_rand = (\<lambda>_. replicate 32 0), ae_others = (\<lambda>_ st. st), ae_poisoned = (\<lambda>_. False),
     ae_master = (\<lambda>_. bail ''no key'')\<rparr>"

definition sample_context :: blind_box_context where
  "sample_context = with_operation_hash
     (sha256 sample_blind (encode_fields [as_bytes ''agent-deliver'', as_bytes ''n'', be_bytes 8 60]))
     (with_approval (replicate 16 1) 1060 (agent_deliver ''g'' ''n''))"

definition sample_box :: blind_box where
  "sample_box = \<lparr>bb_scheme = BLIND_BOX_SCHEME, bb_enc = string_of (replicate 32 0),
     bb_ct = string_of (replicate 32 0 @ BLIND_BOX_HPKE_INFO
       @ (case aad_bytes sample_context of Inl _ \<Rightarrow> [] | Inr a \<Rightarrow> a) @ replicate 32 7)\<rparr>"

definition sample_request :: agent_grant_request where
  "sample_request = \<lparr>gq_grant_id = ''g'', gq_purpose = None, gq_ttl_secs = Some 60,
     gq_deks = [\<lparr>di_name = ''n'', di_dek_blindbox = sample_box,
       di_approval = \<lparr>ai_nonce = string_of (replicate 16 1), ai_expires_at_unix = 1060\<rparr>,
       di_scheme = None, di_digest = None\<rparr>]\<rparr>"

definition sample_agent :: agent_sys where
  "sample_agent = \<lparr>ag_state = agent_state_new 0 (300 * 10 ^ 9), ag_fs = plain_fs, ag_calls = 0, ag_children = []\<rparr>"

lemma sample_context_encodes: "\<exists>a. aad_bytes sample_context = Inr a"
  by (simp add: aad_bytes_def push_aad_fields_eq sample_context_def with_operation_hash_def with_approval_def
      agent_deliver_def with_grant_id_def context_new_def or_empty_def short_field_def
      BLIND_BOX_AAD_DOMAIN_def BLIND_BOX_PURPOSE_AGENT_DELIVER_def WRAP_SCHEME_def sample_blind_def core_env.extend_def)

lemma sample_box_opens: "open_blind_box sample_blind kp sample_box sample_context = Inr (replicate 32 7)"
proof -
  obtain a where a: "aad_bytes sample_context = Inr a" using sample_context_encodes by blast
  have d: "base64_decode sample_blind (string_of b) = Some b" for b
    by (simp add: sample_blind_def core_env.extend_def sample_core_def)
  define ct where "ct = replicate 32 0 @ BLIND_BOX_HPKE_INFO @ a @ replicate 32 7"
  have parts: "base64_decode sample_blind (bb_enc sample_box) = Some (replicate 32 0)"
      "base64_decode sample_blind (bb_ct sample_box) = Some ct" "bb_scheme sample_box = BLIND_BOX_SCHEME"
    by (simp_all only: sample_box_def blind_box.select_convs d a sum.case ct_def)
  have enc: "hpke_encapped_key sample_blind (replicate 32 0) = Some (replicate 32 0)"
    and opn: "hpke_open sample_blind sk (replicate 32 0) BLIND_BOX_HPKE_INFO ct a = Some (replicate 32 7)" for sk
    by (simp_all add: sample_blind_def core_env.extend_def Let_def ct_def)
  show ?thesis
    by (simp add: open_blind_box_def open_blind_box_with_private_key_def unb64_def parts a enc opn)
qed

lemma sample_grant_runs: "\<exists>g'. handle_grant sample_agent_env sample_request sample_agent = (Inr (1, 60), g')"
proof -
  let ?dek = "hd (gq_deks sample_request)"
  have approval: "parse_approval_context sample_agent_env (di_approval ?dek)
      = Inr \<lparr>ap_nonce = replicate 16 1, ap_expires_at_unix = 1060\<rparr>"
    by (simp add: parse_approval_context_def sample_request_def sample_agent_env_def sample_blind_def
        core_env.extend_def sample_core_def MIN_APPROVAL_NONCE_BYTES_def MAX_APPROVAL_NONCE_BYTES_def)
  have ctx: "grant_dek_context sample_agent_env DeliverDek ''g'' 60
      \<lparr>ap_nonce = replicate 16 1, ap_expires_at_unix = 1060\<rparr> ?dek = Inr (sample_context, deliver_key ''n'')"
    by (simp add: grant_dek_context_def sample_request_def agent_deliver_operation_hash_def operation_hash_eq
        short_field_def sample_agent_env_def sample_context_def)
  have box: "open_blind_box (ae_core sample_agent_env) (ae_keypair sample_agent_env) (di_dek_blindbox ?dek)
      sample_context = Inr (replicate 32 7)"
    using sample_box_opens by (simp add: sample_agent_env_def sample_request_def)
  have dek: "\<exists>g'. grant_dek sample_agent_env DeliverDek ''g'' 60 ?dek
      \<lparr>ga_deks = Map.empty, ga_used_nonces = [], ga_expires_at = 60000000000\<rparr> (step sample_agent)
      = (Inr \<lparr>ga_deks = [deliver_key ''n'' \<mapsto> replicate 32 7], ga_used_nonces = [(replicate 16 1, 60000000002)],
              ga_expires_at = 60000000000\<rparr>, g') \<and> ag_state g' = ag_state sample_agent \<and> ag_calls g' = 4"
    unfolding grant_dek_def approval
    by (simp add: ctx box validate_approval_not_expired_def current_unix_secs_def system_now_def instant_now_def
        approval_expiry_instant_def checked_instant_def nanos_def zeroizing_vec_to_key32_def on_agent_fs_def
        from_bytes_def zeroed_locked_def plain_os_simps Let_def)
       (simp add: sample_agent_env_def sample_agent_def plain_os_simps)
  then obtain g1 where g1: "grant_dek sample_agent_env DeliverDek ''g'' 60 ?dek
      \<lparr>ga_deks = Map.empty, ga_used_nonces = [], ga_expires_at = 60000000000\<rparr> (step sample_agent)
      = (Inr \<lparr>ga_deks = [deliver_key ''n'' \<mapsto> replicate 32 7], ga_used_nonces = [(replicate 16 1, 60000000002)],
              ga_expires_at = 60000000000\<rparr>, g1)" "ag_state g1 = ag_state sample_agent" "ag_calls g1 = 4" by blast
  have publish: "\<exists>g2. agent_publish sample_agent_env ''g'' \<lparr>gr_expires_at = 60000000000,
      gr_deks = [deliver_key ''n'' \<mapsto> replicate 32 7]\<rparr> [(replicate 16 1, 60000000002)] g1 = (Inr (), g2)"
    using g1(2,3)
    by (simp add: agent_publish_def lock_state_def instant_now_def sample_agent_env_def publish_grant_def
        Let_def sample_agent_def agent_state_new_def retain_def)
  have list: "gq_deks sample_request = [?dek]" by (simp add: sample_request_def)
  have fields: "gq_grant_id sample_request = ''g''" "gq_purpose sample_request = None"
      "gq_ttl_secs sample_request = Some 60"
    by (simp_all add: sample_request_def)
  have now: "instant_now sample_agent_env sample_agent = (0, step sample_agent)"
    by (simp add: instant_now_def sample_agent_env_def sample_agent_def)
  have expires: "checked_instant sample_agent_env 0 (nanos 60) m = Inr (60000000000)" for m
    by (simp add: checked_instant_def nanos_def sample_agent_env_def)
  have purpose: "parse_dek_purpose None = Inr DeliverDek" by (simp add: parse_dek_purpose_def)
  have deks: "grant_deks sample_agent_env DeliverDek ''g'' 60 (gq_deks sample_request)
      \<lparr>ga_deks = Map.empty, ga_used_nonces = [], ga_expires_at = 60000000000\<rparr> (step sample_agent)
      = (Inr \<lparr>ga_deks = [deliver_key ''n'' \<mapsto> replicate 32 7], ga_used_nonces = [(replicate 16 1, 60000000002)],
              ga_expires_at = 60000000000\<rparr>, g1)"
    by (subst list) (simp only: grant_deks.simps g1(1) then_st_simps)
  have "gq_deks sample_request \<noteq> []" by (simp add: sample_request_def)
  then show ?thesis
    using publish
    by (auto simp: handle_grant_def fields grant_key_from_id_def now expires purpose deks MAX_AGENT_GRANT_TTL_SECS_def)
qed

text \<open>The accumulator of the DEK loop, read as the grant and the nonces to be published.\<close>

lemma deks_of_entries:
  assumes "deks_of E purpose gid ttl deks c \<lparr>ga_deks = Map.empty, ga_used_nonces = [], ga_expires_at = x\<rparr> acc"
  obtains ks where "distinct ks" "dom (ga_deks acc) = set ks" "card (dom (ga_deks acc)) = length deks"
    "list_all2 (\<lambda>dek k. \<exists>d. ga_deks acc k = Some d \<and> opens_to E purpose gid ttl dek k d) deks ks"
    "distinct (map (nonce_of E) deks)" "ga_used_nonces acc = zip (map (nonce_of E) deks) (approval_ends E c deks)"
    "ga_expires_at acc = Min (insert x (set (approval_ends E c deks)))" "approvals_open E c deks"
proof -
  obtain ks ds where k: "list_all2 (\<lambda>dek (k, d). opens_to E purpose gid ttl dek k d) deks (zip ks ds)"
      "length ks = length deks" "length ds = length deks" "distinct ks"
      "ga_deks acc = extend_map (zip ks ds) Map.empty"
      "ga_used_nonces acc = zip (map (nonce_of E) deks) (approval_ends E c deks)" "distinct (map (nonce_of E) deks)"
      "ga_expires_at acc = fold min (approval_ends E c deks) x" "approvals_open E c deks"
    using assms unfolding deks_of_def by auto
  have map: "ga_deks acc = map_of (zip ks ds)" using k(2-5) by (simp add: extend_empty)
  have dom: "dom (ga_deks acc) = set ks" using k(2,3) by (simp add: map dom_map_of_zip)
  have entries: "list_all2 (\<lambda>dek k. \<exists>d. ga_deks acc k = Some d \<and> opens_to E purpose gid ttl dek k d) deks ks"
  proof (rule list_all2_all_nthI)
    fix i assume i: "i < length deks"
    have "opens_to E purpose gid ttl (deks ! i) (ks ! i) (ds ! i)"
      using list_all2_nthD [OF k(1) i] i k(2,3) by simp
    moreover have "ga_deks acc (ks ! i) = Some (ds ! i)"
      using i k(2-4) by (simp add: map map_of_zip_nth)
    ultimately show "\<exists>d. ga_deks acc (ks ! i) = Some d \<and> opens_to E purpose gid ttl (deks ! i) (ks ! i) d" by blast
  qed (use k(2) in simp)
  have "card (dom (ga_deks acc)) = length deks" using dom k(2,4) by (simp add: distinct_card)
  moreover have "ga_expires_at acc = Min (insert x (set (approval_ends E c deks)))"
    using k(8) Min.set_eq_fold [of x "approval_ends E c deks"] by simp
  ultimately show ?thesis using that dom entries k by blast
qed

lemma published_nonces:
  assumes "publish_grant t1 t2 gid gr (zip ns ats) st = (Inr (), st')"
    and "length ats = length deks" "distinct (map f deks)" and ns: "ns = map f deks"
  shows "list_all2 (\<lambda>dek at. as_used_nonces (purge t1 st) (f dek) = None \<and>
    as_used_nonces st' (f dek) = Some at) deks ats"
proof (rule list_all2_all_nthI)
  fix i assume i: "i < length deks"
  have "distinct (map fst (zip ns ats))" using assms(2,3) ns by simp
  moreover have st': "as_used_nonces st' = extend_map (zip ns ats) (as_used_nonces (purge t1 st))"
      and fresh: "\<forall>n \<in> fst ` set (zip ns ats). as_used_nonces (purge t1 st) n = None"
    using assms(1) [unfolded publish_grant_Inr] by (elim conjE, simp)+
  ultimately have "as_used_nonces st' m = (case map_of (zip ns ats) m of
      None \<Rightarrow> as_used_nonces (purge t1 st) m | Some v \<Rightarrow> Some v)" for m
    by (simp only: extend_map_distinct)
  moreover have "map_of (zip ns ats) (f (deks ! i)) = Some (ats ! i)"
    using i assms(2,3) ns map_of_zip_nth [of "map f deks" ats i] by simp
  moreover have "f (deks ! i) \<in> fst ` set (zip ns ats)"
    using calculation(2) by (metis fst_conv image_eqI map_of_SomeD)
  ultimately show "as_used_nonces (purge t1 st) (f (deks ! i)) = None \<and> as_used_nonces st' (f (deks ! i)) = Some (ats ! i)"
    using bspec [OF fresh, of "f (deks ! i)"] by (simp del: purge_fields)
qed (use assms(2) in simp)

text \<open>The associated data that a DEK input is opened under, and the bytes its operation commitment hashes.\<close>

definition dek_aad ::
    "('sc, 'pt, 'e) agent_env_scheme \<Rightarrow> agent_grant_request \<Rightarrow> agent_dek_input \<Rightarrow> bytes res" where
  "dek_aad E request dek =
     and_then (parse_dek_purpose (gq_purpose request)) (\<lambda>purpose.
     and_then (parse_approval_context E (di_approval dek)) (\<lambda>approval.
     and_then (grant_dek_context E purpose (gq_grant_id request) (grant_ttl request) approval dek) (\<lambda>(context, _).
     aad_bytes context)))"

definition operation_fields ::
    "('sc, 'pt, 'e) agent_env_scheme \<Rightarrow> dek_purpose \<Rightarrow> agent_dek_input \<Rightarrow> u64 \<Rightarrow> bytes list" where
  "operation_fields E purpose dek ttl = (case purpose of
       DeliverDek \<Rightarrow> [as_bytes ''agent-deliver'', as_bytes (di_name dek), be_bytes 8 (unat ttl)]
     | SignDek \<Rightarrow> [as_bytes ''agent-sign'', as_bytes (or_empty (di_scheme dek)),
          (case decode_hex_32 E (or_empty (di_digest dek)) ''digest'' of Inl _ \<Rightarrow> [] | Inr digest \<Rightarrow> digest),
          be_bytes 8 (unat ttl)])"

definition signed_digest :: "('sc, 'pt, 'e) agent_env_scheme \<Rightarrow> agent_dek_input \<Rightarrow> bytes res option" where
  "signed_digest E dek = map_option (\<lambda>text. decode_hex_32 E text ''digest'') (di_digest dek)"

definition same_commitment ::
    "('sc, 'pt, 'e) agent_env_scheme \<Rightarrow> dek_purpose \<Rightarrow> agent_dek_input \<Rightarrow> u64 \<Rightarrow> agent_dek_input \<Rightarrow> u64 \<Rightarrow> bool" where
  "same_commitment E purpose dek ttl dek' ttl' \<longleftrightarrow>
     (let x = encode_fields (operation_fields E purpose dek ttl); y = encode_fields (operation_fields E purpose dek' ttl')
      in x \<noteq> y \<and> sha256 (ae_core E) x = sha256 (ae_core E) y)"

lemma be_ttl_inject: "be_bytes 8 (unat t) = be_bytes 8 (unat t') \<Longrightarrow> t = (t' :: u64)"
  using be64_inject by (metis word_unat_eq_iff)

lemma grant_context_Inr:
  assumes "grant_dek_context E purpose gid ttl ap dek = Inr (context, k)"
  shows "list_all short_field (operation_fields E purpose dek ttl) \<and>
    context = with_operation_hash (sha256 (ae_core E) (encode_fields (operation_fields E purpose dek ttl)))
      (with_approval (ap_nonce ap) (ap_expires_at_unix ap)
        (case purpose of DeliverDek \<Rightarrow> agent_deliver gid (di_name dek)
         | SignDek \<Rightarrow> agent_sign gid (di_name dek) (or_empty (di_scheme dek))
             (case decode_hex_32 E (or_empty (di_digest dek)) ''digest'' of Inl _ \<Rightarrow> [] | Inr digest \<Rightarrow> digest))) \<and>
    (case purpose of DeliverDek \<Rightarrow> di_scheme dek = None \<and> signed_digest E dek = None \<and> k = deliver_key (di_name dek)
     | SignDek \<Rightarrow> di_scheme dek \<noteq> None \<and> signed_digest E dek = Some (Inr
           (case decode_hex_32 E (or_empty (di_digest dek)) ''digest'' of Inl _ \<Rightarrow> [] | Inr digest \<Rightarrow> digest)) \<and>
         k = sign_key (ae_core E) (di_name dek) (or_empty (di_scheme dek))
           (case decode_hex_32 E (or_empty (di_digest dek)) ''digest'' of Inl _ \<Rightarrow> [] | Inr digest \<Rightarrow> digest))"
proof (cases purpose)
  case DeliverDek
  then show ?thesis using assms
    by (auto simp: grant_dek_context_def agent_deliver_operation_hash_def operation_hash_eq_Inr operation_fields_def
        signed_digest_def res_simps split: if_splits)
next
  case SignDek
  obtain scheme digest_hex digest where
      "di_scheme dek = Some scheme" "di_digest dek = Some digest_hex" "decode_hex_32 E digest_hex ''digest'' = Inr digest"
    using assms SignDek by (auto simp: grant_dek_context_def res_simps)
  then show ?thesis using assms SignDek
    by (auto simp: grant_dek_context_def agent_sign_operation_hash_def operation_hash_eq_Inr operation_fields_def
        signed_digest_def res_simps or_empty_def)
qed

lemmas context_defs = with_operation_hash_def with_approval_def agent_deliver_def agent_sign_def with_signing_def
  with_grant_id_def context_new_def BLIND_BOX_PURPOSE_AGENT_DELIVER_def BLIND_BOX_PURPOSE_AGENT_SIGN_def

lemma grant_contexts_agree:
  assumes 1: "grant_dek_context E purpose gid ttl ap dek = Inr (context, k)"
    and 2: "grant_dek_context E purpose' gid' ttl' ap' dek' = Inr (context', k')"
    and same: "canonical_context context = canonical_context context'"
  shows "purpose' = purpose \<and> gid' = gid \<and> di_name dek' = di_name dek \<and> di_scheme dek' = di_scheme dek \<and>
    signed_digest E dek' = signed_digest E dek \<and> k' = k \<and>
    ap_nonce ap' = ap_nonce ap \<and> ap_expires_at_unix ap' = ap_expires_at_unix ap \<and>
    (ttl' = ttl \<or> same_commitment E purpose dek ttl dek' ttl')"
proof -
  note c1 = grant_context_Inr [OF 1] and c2 = grant_context_Inr [OF 2]
  note eq = same [unfolded canonical_context_eq]
  have p: "purpose' = purpose"
    using c1 c2 eq by (cases purpose; cases purpose') (auto simp: context_defs)
  have fields: "gid' = gid \<and> di_name dek' = di_name dek \<and> di_scheme dek' = di_scheme dek \<and>
      signed_digest E dek' = signed_digest E dek \<and> k' = k \<and>
      ap_nonce ap' = ap_nonce ap \<and> ap_expires_at_unix ap' = ap_expires_at_unix ap"
    using c1 c2 eq p by (cases purpose) (auto simp: context_defs drop_empty_Some or_empty_def)
  have hash: "sha256 (ae_core E) (encode_fields (operation_fields E purpose dek ttl)) =
      sha256 (ae_core E) (encode_fields (operation_fields E purpose dek' ttl'))"
    using c1 c2 eq p by (cases purpose) (auto simp: context_defs drop_empty_Some)
  have "encode_fields (operation_fields E purpose dek ttl) \<noteq> encode_fields (operation_fields E purpose dek' ttl')"
    if "ttl' \<noteq> ttl"
  proof
    assume "encode_fields (operation_fields E purpose dek ttl) = encode_fields (operation_fields E purpose dek' ttl')"
    then have "operation_fields E purpose dek ttl = operation_fields E purpose dek' ttl'"
      using c1 c2 p by (intro encode_fields_inject) simp_all
    then have "be_bytes 8 (unat ttl) = be_bytes 8 (unat ttl')"
      by (cases purpose) (simp_all add: operation_fields_def)
    then show False using that be_ttl_inject by metis
  qed
  then show ?thesis using p fields hash by (auto simp: same_commitment_def Let_def)
qed

text \<open>Every DEK of a grant that was made opened in its context.\<close>

lemma granted_dek_opened:
  assumes "handle_grant E request g = (Inr (n, ttl), g')" "dek \<in> set (gq_deks request)"
  obtains purpose approval ctx k a d where "ttl = grant_ttl request"
    "opens_to E purpose (gq_grant_id request) ttl dek k d"
    "open_blind_box (ae_core E) (ae_keypair E) (di_dek_blindbox dek) ctx = Inr d"
    "parse_dek_purpose (gq_purpose request) = Inr purpose"
    "parse_approval_context E (di_approval dek) = Inr approval"
    "grant_dek_context E purpose (gq_grant_id request) ttl approval dek = Inr (ctx, k)"
    "aad_bytes ctx = Inr a" "dek_aad E request dek = Inr a"
    "box_accepts (ae_core E) (ae_keypair E) (di_dek_blindbox dek) a"
proof -
  obtain purpose acc where p: "parse_dek_purpose (gq_purpose request) = Inr purpose" and ttl: "ttl = grant_ttl request"
      and deks: "deks_of E purpose (gq_grant_id request) ttl (gq_deks request) (ag_calls g + 1)
         \<lparr>ga_deks = Map.empty, ga_used_nonces = [], ga_expires_at = ae_clock E (ag_calls g) + nanos ttl\<rparr> acc"
    using handle_grant_Inr [OF assms(1)] by blast
  obtain ks where ks: "list_all2 (\<lambda>dek k. \<exists>d. ga_deks acc k = Some d \<and>
      opens_to E purpose (gq_grant_id request) ttl dek k d) (gq_deks request) ks"
    by (rule deks_of_entries [OF deks])
  obtain i where "i < length (gq_deks request)" "gq_deks request ! i = dek"
    using assms(2) by (auto simp: in_set_conv_nth)
  then obtain k d where o: "opens_to E purpose (gq_grant_id request) ttl dek k d"
    using list_all2_nthD [OF ks, of i] by blast
  then obtain approval ctx where c: "parse_approval_context E (di_approval dek) = Inr approval"
      "grant_dek_context E purpose (gq_grant_id request) ttl approval dek = Inr (ctx, k)"
      "open_blind_box (ae_core E) (ae_keypair E) (di_dek_blindbox dek) ctx = Inr d"
    by (auto simp: opens_to_def split: sum.splits prod.splits)
  obtain a where a: "aad_bytes ctx = Inr a" "box_accepts (ae_core E) (ae_keypair E) (di_dek_blindbox dek) a"
    using open_blind_box_accepts [OF c(3)] by blast
  have "dek_aad E request dek = Inr a" using p c(1,2) a(1) ttl by (simp add: dek_aad_def)
  then show ?thesis using that p ttl o c a by blast
qed

section \<open>Properties\<close>

text \<open>
  C9. A grant that is made is exactly what was approved, whatever other workers do. It has a non-empty
  id, and the duration is the one of the request, or five minutes where it names none, between one
  second and a day; every approval was open when it was checked, and the grant ends at the earliest
  of the requested end, counted from the start of the request, and the ends of the approvals. It holds
  one key for every DEK of the request and none besides, each from a blind box that opened in the
  context of this grant, name, approval and duration. The nonces of the approvals are pairwise distinct, unused
  in the table that publishing finds under its lock, and then marked as used until their approval ends; no
  other grant of that table changes.
\<close>

theorem grant_is_approved:
  assumes "handle_grant E request g = (Inr (n, ttl), g')"
  shows "let deks = gq_deks request; gid = gq_grant_id request; c = ag_calls g;
      ends = approval_ends E (c + 1) deks; before = table_found E (publish_call request g) (ag_state g)
    in gid \<noteq> [] \<and> n = length deks \<and> 0 < n \<and>
      ttl = (case gq_ttl_secs request of None \<Rightarrow> 300 | Some t \<Rightarrow> t) \<and> 0 < ttl \<and> ttl \<le> 24 * 60 * 60 \<and>
      approvals_open E (c + 1) deks \<and>
      (\<exists>purpose gr ks. parse_dek_purpose (gq_purpose request) = Inr purpose \<and>
         as_grants (ag_state g') = (as_grants before)(gid \<mapsto> gr) \<and>
         gr_expires_at gr = Min (insert (ae_clock E c + nanos ttl) (set ends)) \<and>
         dom (gr_deks gr) = set ks \<and> distinct ks \<and>
         list_all2 (\<lambda>dek k. \<exists>d. gr_deks gr k = Some d \<and> opens_to E purpose gid ttl dek k d) deks ks) \<and>
      distinct (map (nonce_of E) deks) \<and>
      list_all2 (\<lambda>dek at. as_used_nonces before (nonce_of E dek) = None \<and>
        as_used_nonces (ag_state g') (nonce_of E dek) = Some at) deks ends"
proof -
  note h = handle_grant_Inr [OF assms]
  let ?deks = "gq_deks request" and ?gid = "gq_grant_id request" and ?c = "ag_calls g + 1" and ?p = "publish_call request g"
  let ?x = "ae_clock E (ag_calls g) + nanos ttl"
  obtain purpose acc where p: "parse_dek_purpose (gq_purpose request) = Inr purpose"
      and deks: "deks_of E purpose ?gid ttl ?deks ?c \<lparr>ga_deks = Map.empty, ga_used_nonces = [], ga_expires_at = ?x\<rparr> acc"
      and n: "n = card (dom (ga_deks acc))"
      and pub: "publish_grant (ae_clock E (?p + 1)) (ae_clock E (?p + 2)) ?gid
         \<lparr>gr_expires_at = ga_expires_at acc, gr_deks = ga_deks acc\<rparr>
         (ga_used_nonces acc) (ae_others E ?p (ag_state g)) = (Inr (), ag_state g')"
    using h by blast
  define gr where "gr = \<lparr>gr_expires_at = ga_expires_at acc, gr_deks = ga_deks acc\<rparr>"
  obtain ks where k: "distinct ks" "dom (gr_deks gr) = set ks" "n = length ?deks"
      "list_all2 (\<lambda>dek k. \<exists>d. gr_deks gr k = Some d \<and> opens_to E purpose ?gid ttl dek k d) ?deks ks"
      "distinct (map (nonce_of E) ?deks)"
    and u: "ga_used_nonces acc = zip (map (nonce_of E) ?deks) (approval_ends E ?c ?deks)"
      "gr_expires_at gr = Min (insert ?x (set (approval_ends E ?c ?deks)))" "approvals_open E ?c ?deks"
    using deks_of_entries [OF deks] n by (auto simp: gr_def)
  have "list_all2 (\<lambda>dek at. as_used_nonces (table_found E ?p (ag_state g)) (nonce_of E dek) = None \<and>
      as_used_nonces (ag_state g') (nonce_of E dek) = Some at) ?deks (approval_ends E ?c ?deks)"
    unfolding table_found_def by (rule published_nonces [OF pub [unfolded u(1)] length_approval_ends k(5) refl])
  moreover have "as_grants (ag_state g') = (as_grants (table_found E ?p (ag_state g)))(?gid \<mapsto> gr)"
    using pub [unfolded publish_grant_Inr] by (elim conjE) (simp add: gr_def table_found_def)
  moreover have "ttl \<le> 24 * 60 * 60" "ttl = (case gq_ttl_secs request of None \<Rightarrow> 300 | Some t \<Rightarrow> t)"
    using h unfolding MAX_AGENT_GRANT_TTL_SECS_def grant_ttl_def DEFAULT_AGENT_GRANT_TTL_SECS_def by blast+
  moreover have "?gid \<noteq> []" "?deks \<noteq> []" "0 < ttl" using h by blast+
  moreover have "0 < n" using k(3) \<open>?deks \<noteq> []\<close> by simp
  ultimately show ?thesis using p k u(2,3) unfolding Let_def by blast
qed

theorem grant_is_approved_witness:
  "\<exists>g' gr. handle_grant sample_agent_env sample_request sample_agent = (Inr (1, 60), g') \<and>
     as_grants (ag_state g') ''g'' = Some gr \<and> gr_expires_at gr = 60 * 10 ^ 9 \<and>
     as_used_nonces (ag_state g') (replicate 16 1) = Some (60 * 10 ^ 9 + 2)"
proof -
  obtain g' where run: "handle_grant sample_agent_env sample_request sample_agent = (Inr (1, 60), g')"
    using sample_grant_runs by blast
  have ends: "approval_ends sample_agent_env (ag_calls sample_agent + 1) (gq_deks sample_request) = [60000000002]"
    by (simp add: sample_request_def sample_agent_env_def sample_agent_def approval_end_def nanos_def)
  have facts: "gq_grant_id sample_request = ''g''" "ae_clock sample_agent_env (ag_calls sample_agent) + nanos 60 = 60000000000"
      "map (nonce_of sample_agent_env) (gq_deks sample_request) = [replicate 16 1]"
    by (simp_all add: sample_request_def sample_agent_env_def sample_agent_def nanos_def nonce_of_def
        parse_approval_context_def sample_blind_def core_env.extend_def sample_core_def MIN_APPROVAL_NONCE_BYTES_def
        MAX_APPROVAL_NONCE_BYTES_def)
  obtain dek where one: "gq_deks sample_request = [dek]" and nonce: "nonce_of sample_agent_env dek = replicate 16 1"
    using facts(3) by (auto simp: map_eq_Cons_conv)
  have ends1: "approval_ends sample_agent_env (ag_calls sample_agent + 1) [dek] = [60000000002]"
    using ends one by simp
  note all = grant_is_approved [OF run, unfolded Let_def one ends1 facts(1,2)]
  obtain gr where "as_grants (ag_state g') ''g'' = Some gr" "gr_expires_at gr = 60000000000"
    using all by (auto simp: min_def)
  moreover have "as_used_nonces (ag_state g') (nonce_of sample_agent_env dek) = Some 60000000002"
    using all by simp
  ultimately show ?thesis using run nonce by simp
qed

text \<open>
  C15. A blind box works for one operation only. If two grant requests, made at any time and answered by
  grants, bring the same box, then they agree on everything the user approved with it: the purpose,
  the id of the grant, the name of the secret, the signing scheme and digest, the nonce and the expiry of
  the approval, and the duration of the grant, and the same key came out of it; unless HPKE took the
  ciphertext under the two different associated data of the two requests, or, for the duration, the
  two operation texts are a collision of SHA-256.
\<close>

theorem blind_box_one_operation:
  assumes "handle_grant E request g = (Inr (n, ttl), g')" "dek \<in> set (gq_deks request)"
    and "handle_grant E request' h = (Inr (n', ttl'), h')" "dek' \<in> set (gq_deks request')"
    and "di_dek_blindbox dek' = di_dek_blindbox dek"
  shows "(\<exists>purpose k. parse_dek_purpose (gq_purpose request) = Inr purpose \<and>
      parse_dek_purpose (gq_purpose request') = Inr purpose \<and> gq_grant_id request' = gq_grant_id request \<and>
      di_name dek' = di_name dek \<and> di_scheme dek' = di_scheme dek \<and> signed_digest E dek' = signed_digest E dek \<and>
      nonce_of E dek' = nonce_of E dek \<and>
      ai_expires_at_unix (di_approval dek') = ai_expires_at_unix (di_approval dek) \<and>
      (\<exists>d. opens_to E purpose (gq_grant_id request) ttl dek k d \<and> opens_to E purpose (gq_grant_id request') ttl' dek' k d) \<and>
      (ttl' = ttl \<or> same_commitment E purpose dek ttl dek' ttl')) \<or>
    (\<exists>a a'. dek_aad E request dek = Inr a \<and> dek_aad E request' dek' = Inr a' \<and> a \<noteq> a' \<and>
      box_accepts (ae_core E) (ae_keypair E) (di_dek_blindbox dek) a \<and>
      box_accepts (ae_core E) (ae_keypair E) (di_dek_blindbox dek) a')"
proof -
  obtain purpose approval ctx k a d where 1: "ttl = grant_ttl request"
      "opens_to E purpose (gq_grant_id request) ttl dek k d"
      "open_blind_box (ae_core E) (ae_keypair E) (di_dek_blindbox dek) ctx = Inr d"
      "parse_dek_purpose (gq_purpose request) = Inr purpose" "parse_approval_context E (di_approval dek) = Inr approval"
      "grant_dek_context E purpose (gq_grant_id request) ttl approval dek = Inr (ctx, k)" "aad_bytes ctx = Inr a"
      "dek_aad E request dek = Inr a" "box_accepts (ae_core E) (ae_keypair E) (di_dek_blindbox dek) a"
    by (rule granted_dek_opened [OF assms(1,2)])
  obtain purpose' approval' ctx' k' a' d' where 2: "ttl' = grant_ttl request'"
      "opens_to E purpose' (gq_grant_id request') ttl' dek' k' d'"
      "open_blind_box (ae_core E) (ae_keypair E) (di_dek_blindbox dek') ctx' = Inr d'"
      "parse_dek_purpose (gq_purpose request') = Inr purpose'" "parse_approval_context E (di_approval dek') = Inr approval'"
      "grant_dek_context E purpose' (gq_grant_id request') ttl' approval' dek' = Inr (ctx', k')" "aad_bytes ctx' = Inr a'"
      "dek_aad E request' dek' = Inr a'" "box_accepts (ae_core E) (ae_keypair E) (di_dek_blindbox dek') a'"
    by (rule granted_dek_opened [OF assms(3,4)])
  show ?thesis
  proof (cases "a = a'")
    case False
    then show ?thesis using 1 2 assms(5) by auto
  next
    case True
    note agree = grant_contexts_agree [OF 1(6) 2(6) aad_bytes_injectD [OF 1(7) 2(7) [folded True]]]
    have "d' = d" using open_blind_box_cong [of ctx' ctx] 1(3,7) 2(3,7) True assms(5) by (metis sum.inject(2))
    moreover have "nonce_of E dek' = nonce_of E dek \<and>
        ai_expires_at_unix (di_approval dek') = ai_expires_at_unix (di_approval dek)"
      using agree 1(5) 2(5) by (auto simp: nonce_of_def parse_approval_context_def res_simps split: if_splits)
    ultimately show ?thesis using agree 1(2,4) 2(2,4) by metis
  qed
qed

theorem blind_box_one_operation_witness:
  "\<exists>g'. handle_grant sample_agent_env sample_request sample_agent = (Inr (1, 60), g') \<and>
     (\<exists>dek k d. gq_deks sample_request = [dek] \<and> di_dek_blindbox dek = sample_box \<and>
       opens_to sample_agent_env DeliverDek ''g'' 60 dek k d)"
proof -
  obtain g' where run: "handle_grant sample_agent_env sample_request sample_agent = (Inr (1, 60), g')"
    using sample_grant_runs by blast
  obtain dek where one: "gq_deks sample_request = [dek]" "di_dek_blindbox dek = sample_box"
    by (simp add: sample_request_def)
  have "gq_grant_id sample_request = ''g''" "parse_dek_purpose (gq_purpose sample_request) = Inr DeliverDek"
    by (simp_all add: sample_request_def parse_dek_purpose_def)
  with blind_box_one_operation [OF run _ run, of dek dek] one(1)
  have "\<exists>k d. opens_to sample_agent_env DeliverDek ''g'' 60 dek k d" by auto
  with run one show ?thesis by blast
qed

text \<open>
  C19. A grant request that is refused, for whatever reason and at whatever DEK, spends nothing, whatever
  other workers do: it leaves the table untouched, or, where publishing it is what is refused, as the
  purge under the lock of publishing leaves what the others have made of it; so it marks no nonce,
  makes or replaces no grant, and does not extend the idle timer.
\<close>

theorem refused_grant_spends_nothing:
  assumes "handle_grant E request g = (Inl e, g')"
  shows "ag_state g' = ag_state g \<or>
    (let n = ag_calls g + 1 + 3 * length (gq_deks request); found = ae_others E n (ag_state g)
     in ag_state g' = purge (ae_clock E (n + 1)) found \<and>
        as_last_activity (ag_state g') = as_last_activity found)"
proof (cases "ag_state g' = ag_state g")
  case False
  then have "ag_state g' = purge (ae_clock E (publish_call request g + 1)) (ae_others E (publish_call request g) (ag_state g))"
    using handle_grant_spends [of E request g] assms by (simp add: spends_nothing_def table_found_def is_ok_def)
  then show ?thesis by (simp add: publish_call_def Let_def)
qed simp

theorem refused_grant_spends_nothing_witness:
  "as_last_activity (ag_state (snd (handle_grant sample_agent_env (sample_request\<lparr>gq_ttl_secs := Some 0\<rparr>)
     sample_agent))) = as_last_activity (ag_state sample_agent)"
proof -
  have run: "handle_grant sample_agent_env (sample_request\<lparr>gq_ttl_secs := Some 0\<rparr>) sample_agent
      = (Inl [Msg ''grant ttl_secs must be positive''], sample_agent)"
    by (simp add: handle_grant_def sample_request_def grant_key_from_id_def bail_def)
  have "ae_others sample_agent_env = (\<lambda>_ st. st)" by (simp add: sample_agent_env_def)
  with refused_grant_spends_nothing [OF run] show ?thesis by (auto simp: run Let_def)
qed

end
