(* ===== verification/AgentHandler.thy ===== *)
theory AgentHandler
  imports AgentGrant Frames CliArgs
begin

text \<open>
  The requests of the resident agent that use a grant, and the dispatch of a frame
  (\<open>open_with_grant\<close>, \<open>handle_agent_frame\<close> and what they call in
  \<open>crates/avault-cli/src/main.rs\<close>). The environment adds the parse of a frame by serde and the
  processes: finding the executable, starting the helper, its standard input and its exit. What
  \<open>AgentMasterCache::get\<close> returns is \<open>ae_master\<close>; the theory MasterCache models that function.
\<close>

section \<open>Requests and answers\<close>

(* SRC cli AgentRunDeliverRequest *)
record agent_run_deliver_request =
  rr_grant_id :: string
  rr_command :: "string list"
  rr_secrets :: "env_secret_input list"

(* SRC cli AgentAuthSecretInput *)
record agent_auth_secret_input =
  au_name :: string
  au_tier :: secret_tier
  au_envelope :: sealed

(* SRC cli AgentFetchDeliverRequest *)
record agent_fetch_deliver_request =
  rf_grant_id :: string
  rf_auth :: agent_auth_secret_input
  rf_request :: fetch_request

(* SRC cli AgentInjectDeliverRequest *)
record agent_inject_deliver_request =
  rj_grant_id :: string
  rj_path :: path
  rj_format :: string
  rj_secrets :: "named_secret_input list"

(* SRC cli AgentSignRequest *)
record agent_sign_request =
  rs_grant_id :: string
  rs_name :: string
  rs_key_envelope :: sealed
  rs_digest :: string
  rs_scheme :: string

(* SRC cli AgentRequest *)
datatype agent_request =
    ReqPubkey
  | ReqGrant agent_grant_request
  | ReqRelease string
  | ReqRevoke string
  | ReqDeliverRun agent_run_deliver_request
  | ReqDeliverFetch agent_fetch_deliver_request
  | ReqDeliverInject agent_inject_deliver_request
  | ReqSign agent_sign_request

(* SRC cli SignOutput *)
record sign_output =
  so_signature :: string
  so_recovery_id :: "byte option"

datatype agent_output =
    PubkeyOutput string string
  | GrantOutput nat u64
  | ReleaseOutput bool
  | RunOutput byte
  | FetchResult fetch_output
  | InjectOutput
  | SignResult sign_output

(* SRC cli AgentResponse *)
record agent_response =
  ar_ok :: bool
  ar_result :: "agent_output option"
  ar_error :: "string option"
  ar_code :: "string option"

text \<open>The status of a process that has ended.\<close>

record exit_status =
  xs_signal :: "int option"
  xs_code :: "int option"

record ('sc, 'pt) worker_env = "('sc, 'pt) agent_env" +
  we_parse :: "bytes \<Rightarrow> agent_request option"
  we_current_exe :: "nat \<Rightarrow> io_kind + unit"
  we_spawn :: "nat \<Rightarrow> string list \<Rightarrow> io_kind + unit"
  we_stdin :: "nat \<Rightarrow> bool"
  we_pipe :: "nat \<Rightarrow> bytes write_fn"
  we_wait :: "nat \<Rightarrow> bytes \<Rightarrow> io_kind + exit_status"

section \<open>Using a grant\<close>

text \<open>The sections of \<open>open_with_grant\<close> that hold the lock.\<close>

definition agent_get_live :: "('sc, 'pt, 'e) agent_env_scheme \<Rightarrow> grant_key \<Rightarrow> agent_sys \<Rightarrow> grant_entry res \<times> agent_sys" where
  "agent_get_live E scope g =
     then_st (lock_state E g) (\<lambda>_ g.
     let (now, g) = instant_now E g in (get_live_grant now scope (ag_state g), g))"

definition agent_record_activity :: "('sc, 'pt, 'e) agent_env_scheme \<Rightarrow> agent_sys \<Rightarrow> unit res \<times> agent_sys" where
  "agent_record_activity E g =
     then_st (lock_state E g) (\<lambda>_ g.
     let (now, g) = instant_now E g; (later, g) = instant_now E g
     in (Inr (), g\<lparr>ag_state := record_activity now later (ag_state g)\<rparr>))"

definition agent_master :: "('sc, 'pt, 'e) agent_env_scheme \<Rightarrow> agent_sys \<Rightarrow> master_key res \<times> agent_sys" where
  "agent_master E g = (ae_master E (ag_calls g), step g)"

(* SRC cli open_with_grant *)
definition open_with_grant ::
    "('sc, 'pt, 'e) agent_env_scheme \<Rightarrow> grant_key \<Rightarrow> bool \<Rightarrow> (grant_entry \<Rightarrow> master_key option \<Rightarrow> 'a res) \<Rightarrow> agent_sys
     \<Rightarrow> 'a res \<times> agent_sys" where
  "open_with_grant E scope needs_standard_master opn g =
     then_st (agent_get_live E scope g) (\<lambda>_ g.
     then_st (if needs_standard_master then then_st (agent_master E g) (\<lambda>m g. (Inr (Some m), g))
              else (Inr None, g)) (\<lambda>master g.
     then_st (agent_get_live E scope g) (\<lambda>grant g.
     then_st (opn grant master, g) (\<lambda>opened g.
     then_st (agent_record_activity E g) (\<lambda>_ g.
     (Inr opened, g))))))"

text \<open>\<open>Release\<close> and \<open>Revoke\<close>; the second pair of readings is taken if a grant was removed.\<close>

(* SRC cli 2968-2978 handle_agent_frame_inner *)
definition handle_release :: "('sc, 'pt, 'e) agent_env_scheme \<Rightarrow> string \<Rightarrow> agent_sys \<Rightarrow> bool res \<times> agent_sys" where
  "handle_release E grant_id g =
     then_st (grant_key_from_id grant_id, g) (\<lambda>key g.
     then_st (lock_state E g) (\<lambda>_ g.
     let (t1, g) = instant_now E g;
         (released, st) = release_grant t1 (ae_clock E (ag_calls g)) (ae_clock E (Suc (ag_calls g))) key (ag_state g)
     in (Inr released, (if released then step (step g) else g)\<lparr>ag_state := st\<rparr>)))"

section \<open>Child processes\<close>

(* SRC cli status_to_exit_code *)
definition status_to_exit_code :: "exit_status \<Rightarrow> byte" where
  "status_to_exit_code status = (case xs_signal status of
       Some signal \<Rightarrow> if 0 \<le> 128 + signal \<and> 128 + signal \<le> 255 then word_of_int (128 + signal) else 1
     | None \<Rightarrow> (case xs_code status of
           Some c \<Rightarrow> if 0 \<le> c \<and> c \<le> 255 then word_of_int c else 1
         | None \<Rightarrow> 1))"

text \<open>The value is what the helper has read from its standard input by the time it is closed.\<close>

(* SRC cli spawn_agent_run_helper *)
definition spawn_agent_run_helper ::
    "('sc, 'pt, 'e) worker_env_scheme \<Rightarrow> string list \<Rightarrow> opened_secret list \<Rightarrow> bool \<Rightarrow> agent_sys \<Rightarrow> bytes res \<times> agent_sys" where
  "spawn_agent_run_helper E command opened envelope_stdin g =
     (if \<not> envelope_stdin then (bail ''agent deliver run requires closed child stdin'', g)
      else then_st (io_res ''failed to locate avault helper'' (we_current_exe E (ag_calls g), step g)) (\<lambda>_ g.
           let args = [''__agent-run-helper'', ''--stdin-null'', ''--''] @ command
           in then_st (io_res ''failed to spawn agent run helper'' (we_spawn E (ag_calls g) args, step g)) (\<lambda>_ g.
           let (write_result, sent) =
                 (if we_stdin E (ag_calls g)
                  then write_agent_run_helper_frame (we_pipe E (ag_calls g)) opened []
                  else (bail ''failed to open agent run helper stdin'', []));
               g = (step g)\<lparr>ag_children := ag_children g @ [(args, sent)]\<rparr>
           in case write_result of
                Inl e \<Rightarrow> (Inl (Msg ''failed to send secrets to agent run helper'' # e), step (step g))
              | Inr _ \<Rightarrow> (Inr sent, g))))"

(* SRC cli run_agent_child_with_opened_env *)
definition run_agent_child_with_opened_env ::
    "('sc, 'pt, 'e) worker_env_scheme \<Rightarrow> string list \<Rightarrow> opened_secret list \<Rightarrow> bool \<Rightarrow> agent_sys \<Rightarrow> byte res \<times> agent_sys" where
  "run_agent_child_with_opened_env E command opened envelope_stdin g =
     then_st (spawn_agent_run_helper E command opened envelope_stdin g) (\<lambda>sent g.
     then_st (io_res ''failed to wait for child command'' (we_wait E (ag_calls g) sent, step g)) (\<lambda>status g.
     (Inr (status_to_exit_code status), g)))"

section \<open>The requests\<close>

(* SRC cli 2979-3001 handle_agent_frame_inner *)
definition handle_deliver_run ::
    "('sc, 'pt, 'e) worker_env_scheme \<Rightarrow> agent_run_deliver_request \<Rightarrow> agent_sys \<Rightarrow> byte res \<times> agent_sys" where
  "handle_deliver_run E request g =
     (if rr_command request = [] then (bail ''deliver run requires a command'', g)
      else if rr_secrets request = [] then (bail ''deliver run requires at least one secret'', g)
      else then_st (reject_agent_env_one_shot_fields (rr_secrets request), g) (\<lambda>_ g.
           then_st (grant_key_from_id (rr_grant_id request), g) (\<lambda>scope g.
           then_st (open_with_grant E scope (list_ex (\<lambda>s. es_tier s = Standard) (rr_secrets request))
                      (open_env_secrets_for_agent (ae_core E) (rr_secrets request)) g) (\<lambda>opened g.
           run_agent_child_with_opened_env E (rr_command request) opened True g))))"

(* SRC cli 3002-3038 handle_agent_frame_inner *)
definition handle_deliver_fetch ::
    "('sc, 'pt, 'e) agent_env_scheme \<Rightarrow> agent_fetch_deliver_request \<Rightarrow> agent_sys \<Rightarrow> fetch_output res \<times> agent_sys" where
  "handle_deliver_fetch E r g =
     (let auth = rf_auth r;
          fetch = \<lparr>fi_name = au_name auth, fi_tier = au_tier auth, fi_envelope = au_envelope auth,
                   fi_dek_blindbox = None, fi_approval = None, fi_request = rf_request r\<rparr>
      in then_st (validate_fetch_input (ae_fetch E) fetch, g) (\<lambda>(_, is_loopback) g.
         then_st (grant_key_from_id (rf_grant_id r), g) (\<lambda>scope g.
         then_st (open_with_grant E scope (fi_tier fetch = Standard) (\<lambda>grant master.
                    with_context ''open failed''
                      (open_agent_secret (ae_core E) (fi_name fetch) (fi_tier fetch) (fi_envelope fetch)
                         grant master)) g) (\<lambda>secret g.
         (with_context ''fetch request failed''
            (execute_fetch_request (ae_fetch E) (fi_request fetch) secret is_loopback), g)))))"

(* SRC cli 3039-3062 handle_agent_frame_inner *)
definition handle_deliver_inject ::
    "('sc, 'pt, 'e) agent_env_scheme \<Rightarrow> agent_inject_deliver_request \<Rightarrow> agent_sys \<Rightarrow> unit res \<times> agent_sys" where
  "handle_deliver_inject E r g =
     then_st (grant_key_from_id (rj_grant_id r), g) (\<lambda>scope g.
     then_st (reject_agent_named_one_shot_fields (rj_secrets r), g) (\<lambda>_ g.
     then_st (validate_inject_request (rj_secrets r) (rj_format r), g) (\<lambda>format g.
     then_st (open_with_grant E scope (list_ex (\<lambda>s. ns_tier s = Standard) (rj_secrets r)) (\<lambda>grant master.
                and_then (open_named_secrets_for_agent (ae_core E) (rj_secrets r) grant master) (\<lambda>opened.
                render_inject_file (ae_to_json E) opened format)) g) (\<lambda>rendered g.
     context_st ''failed to write inject file''
       (on_agent_fs (atomic_write_secret_file (ae_os E) (rj_path r) rendered) g)))))"

(* SRC cli sign_digest_with_key *)
definition sign_digest_with_key ::
    "('sc, 'pt, 'e) agent_env_scheme \<Rightarrow> nat \<Rightarrow> signature_scheme \<Rightarrow> bytes \<Rightarrow> bytes \<Rightarrow> sign_output res" where
  "sign_digest_with_key E draw scheme digest key_plaintext =
     and_then (zeroizing_vec_to_key32 key_plaintext ''signing key'') (\<lambda>private_key.
     and_then (with_context ''signing failed''
                 (sign_digest (ae_curve E) (ae_aux_rand E draw) scheme private_key digest)) (\<lambda>result.
     Inr \<lparr>so_signature = hex_encode (ae_core E) (sr_signature result), so_recovery_id = sr_recovery_id result\<rparr>))"

(* SRC cli 3063-3077 handle_agent_frame_inner *)
definition handle_sign ::
    "('sc, 'pt, 'e) agent_env_scheme \<Rightarrow> agent_sign_request \<Rightarrow> agent_sys \<Rightarrow> sign_output res \<times> agent_sys" where
  "handle_sign E r g =
     then_st (grant_key_from_id (rs_grant_id r), g) (\<lambda>scope g.
     then_st (decode_hex_32 E (rs_digest r) ''digest'', g) (\<lambda>digest g.
     then_st (scheme_from_str (rs_scheme r), g) (\<lambda>scheme g.
     then_st (open_with_grant E scope False (\<lambda>grant _.
                open_signing_key_with_grant (ae_core E) (rs_name r) (rs_key_envelope r) (rs_scheme r) digest grant) g)
       (\<lambda>key_plaintext g.
     (sign_digest_with_key E (ag_calls g) scheme digest key_plaintext, step g)))))"

section \<open>The frame\<close>

(* SRC cli agent_ok *)
definition agent_ok :: "agent_output \<Rightarrow> agent_response" where
  "agent_ok result = \<lparr>ar_ok = True, ar_result = Some result, ar_error = None, ar_code = None\<rparr>"

(* SRC cli agent_error_message *)
definition agent_error_message :: "err \<Rightarrow> string" where
  "agent_error_message e = chain_text e"

(* SRC cli agent_error_response *)
definition agent_error_response :: "err \<Rightarrow> agent_response" where
  "agent_error_response e = \<lparr>ar_ok = False, ar_result = None, ar_error = Some (agent_error_message e),
     ar_code = error_code e\<rparr>"

text \<open>An answer of a handler as an answer of the agent.\<close>

definition answer :: "('a \<Rightarrow> agent_output) \<Rightarrow> 'a res \<times> agent_sys \<Rightarrow> agent_response res \<times> agent_sys" where
  "answer f r = then_st r (\<lambda>x g. (Inr (agent_ok (f x)), g))"

(* SRC cli 2861-2872 handle_agent_frame_inner *)
definition handle_agent_frame_inner ::
    "('sc, 'pt, 'e) worker_env_scheme \<Rightarrow> bytes \<Rightarrow> agent_sys \<Rightarrow> agent_response res \<times> agent_sys" where
  "handle_agent_frame_inner E frame g =
     then_st (with_context ''agent frame JSON is invalid'' (lib_res ''serde_json'' (we_parse E frame)), g)
       (\<lambda>request g. case request of
          ReqPubkey \<Rightarrow> (Inr (agent_ok (PubkeyOutput (public_key_b64 (ae_core E) (ae_keypair E))
             (fingerprint_hex (ae_core E) (ae_keypair E)))), g)
        | ReqGrant r \<Rightarrow> answer (\<lambda>(granted, ttl). GrantOutput granted ttl) (handle_grant E r g)
        | ReqRelease grant_id \<Rightarrow> answer ReleaseOutput (handle_release E grant_id g)
        | ReqRevoke grant_id \<Rightarrow> answer ReleaseOutput (handle_release E grant_id g)
        | ReqDeliverRun r \<Rightarrow> answer RunOutput (handle_deliver_run E r g)
        | ReqDeliverFetch r \<Rightarrow> answer FetchResult (handle_deliver_fetch E r g)
        | ReqDeliverInject r \<Rightarrow> answer (\<lambda>_. InjectOutput) (handle_deliver_inject E r g)
        | ReqSign r \<Rightarrow> answer SignResult (handle_sign E r g))"

(* SRC cli handle_agent_frame *)
definition handle_agent_frame ::
    "('sc, 'pt, 'e) worker_env_scheme \<Rightarrow> bytes \<Rightarrow> agent_sys \<Rightarrow> agent_response \<times> agent_sys" where
  "handle_agent_frame E frame g =
     (case handle_agent_frame_inner E frame g of
        (Inr response, g) \<Rightarrow> (response, g)
      | (Inl e, g) \<Rightarrow> (agent_error_response e, g))"

section \<open>Lemmas\<close>

definition quiet :: "('sc, 'pt, 'e) agent_env_scheme \<Rightarrow> bool" where
  "quiet E \<longleftrightarrow> ae_others E = (\<lambda>_ st. st)"

lemma lock_quiet: "quiet E \<Longrightarrow> ag_state (snd (lock_state E g)) = ag_state g"
  by (simp add: quiet_def lock_state_def)

lemma lock_children: "ag_children (snd (lock_state E g)) = ag_children g"
  by (simp add: lock_state_def step_def)

lemma get_live_quiet: "quiet E \<Longrightarrow> ag_state (snd (agent_get_live E scope g)) = ag_state g"
  unfolding agent_get_live_def by (rule then_st_agent_state) (auto simp: lock_quiet instant_now_def)

text \<open>
  The grant that a use beginning in \<open>g\<close> works with: the entry of the table under the lock of the second
  look, live at the instant read there. The looks are the calls \<open>c\<close> and \<open>c + 2\<close>, one later if the master is
  fetched in between; each finds the table as the other workers have left it.
\<close>

definition look_call :: "bool \<Rightarrow> agent_sys \<Rightarrow> nat" where
  "look_call needs g = ag_calls g + (if needs then 3 else 2)"

definition live_in_use ::
    "('sc, 'pt, 'e) agent_env_scheme \<Rightarrow> grant_key \<Rightarrow> bool \<Rightarrow> agent_sys \<Rightarrow> grant_entry \<Rightarrow> bool" where
  "live_in_use E scope needs g gr \<longleftrightarrow>
     (let k = look_call needs g; now = ae_clock E (k + 1);
          st = ae_others E k (ae_others E (ag_calls g) (ag_state g))
      in as_grants st scope = Some gr \<and> now < gr_expires_at gr \<and>
         now - as_last_activity st < as_idle_timeout st)"

definition master_in_use ::
    "('sc, 'pt, 'e) agent_env_scheme \<Rightarrow> bool \<Rightarrow> agent_sys \<Rightarrow> master_key option \<Rightarrow> bool" where
  "master_in_use E needs g master \<longleftrightarrow>
     (case master of None \<Rightarrow> \<not> needs | Some m \<Rightarrow> needs \<and> ae_master E (ag_calls g + 2) = Inr m)"

lemma get_live_Inr:
  fixes g :: agent_sys
  assumes "agent_get_live E scope g = (Inr gr, g')"
  shows "get_live_grant (ae_clock E (ag_calls g + 1)) scope (ae_others E (ag_calls g) (ag_state g)) = Inr gr \<and>
    ag_state g' = ae_others E (ag_calls g) (ag_state g) \<and> ag_calls g' = ag_calls g + 2"
  using assms by (auto simp: agent_get_live_def then_st_eq_Inr instant_now_def lock_state_def split: if_splits)

lemma children_then:
  assumes "ag_children (snd m) = c" "\<And>x g1. \<lbrakk>m = (Inr x, g1); ag_children g1 = c\<rbrakk> \<Longrightarrow> ag_children (snd (f x g1)) = c"
  shows "ag_children (snd (then_st m f)) = c"
  using assms by (cases m; cases "fst m") auto

lemma step_children [simp]: "ag_children (step g) = ag_children g"
  by (simp add: step_def)

lemma open_children: "ag_children (snd (open_with_grant E scope needs opn g)) = ag_children g"
  unfolding open_with_grant_def agent_get_live_def agent_record_activity_def agent_master_def
  by (auto simp: instant_now_def lock_children intro!: children_then)

lemma master_state:
  "ag_state (snd (if needs then then_st (agent_master E g) (\<lambda>m g. (Inr (Some m), g)) else (Inr None, g))) = ag_state g"
  by (simp add: agent_master_def) (rule impI, rule then_st_agent_state, simp_all)

text \<open>A use that failed changed nothing.\<close>

definition unchanged :: "agent_sys \<Rightarrow> 'a res \<times> agent_sys \<Rightarrow> bool" where
  "unchanged g r \<longleftrightarrow> is_ok (fst r) \<or> ag_state (snd r) = ag_state g"

lemma unchanged_then:
  assumes "ag_state (snd m) = ag_state g"
    and "\<And>x g1. \<lbrakk>m = (Inr x, g1); ag_state g1 = ag_state g\<rbrakk> \<Longrightarrow> unchanged g (f x g1)"
  shows "unchanged g (then_st m f)"
  using assms by (cases m; cases "fst m") (auto simp: unchanged_def)

lemma unchanged_record:
  assumes "quiet E" "ag_state g1 = ag_state g"
  shows "unchanged g (then_st (agent_record_activity E g1) (\<lambda>_ g. (Inr x, g)))"
  using assms lock_quiet [OF assms(1), of g1]
  by (cases "lock_state E g1"; cases "fst (lock_state E g1)")
     (auto simp: agent_record_activity_def instant_now_def unchanged_def)

lemma open_unchanged:
  assumes "quiet E"
  shows "unchanged g (open_with_grant E scope needs opn g)"
  unfolding open_with_grant_def
  by (intro unchanged_then unchanged_record [OF assms])
     (simp_all add: get_live_quiet [OF assms] master_state)

lemma open_with_grant_Inr:
  fixes g :: agent_sys
  assumes "open_with_grant E scope needs opn g = (Inr x, g')"
  obtains gr master where "live_in_use E scope needs g gr" "master_in_use E needs g master" "opn gr master = Inr x"
    "ag_calls g' = look_call needs g + 5" "as_last_activity (ag_state g') = ae_clock E (look_call needs g + 4)"
proof -
  obtain gr0 g1 where 1: "agent_get_live E scope g = (Inr gr0, g1)"
    using assms by (auto simp: open_with_grant_def then_st_eq_Inr)
  obtain master g2 where 2: "(if needs then then_st (agent_master E g1) (\<lambda>m g. (Inr (Some m), g)) else (Inr None, g1)) = (Inr master, g2)"
      and rest: "then_st (agent_get_live E scope g2) (\<lambda>grant g.
         then_st (opn grant master, g) (\<lambda>opened g.
         then_st (agent_record_activity E g) (\<lambda>_ g. (Inr opened, g)))) = (Inr x, g')"
    using assms 1 by (auto simp: open_with_grant_def then_st_eq_Inr)
  obtain gr g3 where 3: "agent_get_live E scope g2 = (Inr gr, g3)" and o: "opn gr master = Inr x"
      and r: "agent_record_activity E g3 = (Inr (), g')"
    using rest by (auto simp: then_st_eq_Inr)
  note l1 = get_live_Inr [OF 1] and l3 = get_live_Inr [OF 3]
  have m: "master_in_use E needs g master" and g2: "ag_calls g2 = look_call needs g" "ag_state g2 = ag_state g1"
    using 2 l1 by (auto simp: agent_master_def then_st_eq_Inr master_in_use_def look_call_def split: if_splits)
  have "live_in_use E scope needs g gr"
    using l1 l3 g2 by (auto simp: live_in_use_def get_live_grant_Inr Let_def)
  moreover have "ag_calls g' = look_call needs g + 5 \<and> as_last_activity (ag_state g') = ae_clock E (look_call needs g + 4)"
    using r l3 g2
    by (auto simp: agent_record_activity_def then_st_eq_Inr instant_now_def record_activity_def lock_state_def
        eval_nat_numeral split: if_splits)
  ultimately show ?thesis using that m o by blast
qed

text \<open>Whether or not the rest succeeds, at most one helper is started, and with one frame.\<close>

lemma spawn_children:
  fixes g :: agent_sys
  assumes "spawn_agent_run_helper E command opened True g = (r, g')"
  defines "frame \<equiv> write_agent_run_helper_frame (we_pipe E (ag_calls g + 2)) opened []"
    and "args \<equiv> [''__agent-run-helper'', ''--stdin-null'', ''--''] @ command"
  shows "(ag_children g' = ag_children g \<and> \<not> is_ok r) \<or>
    (ag_children g' = ag_children g @ [(args, snd frame)] \<and>
       (case r of Inr s \<Rightarrow> s = snd frame \<and> fst frame = Inr () | Inl _ \<Rightarrow> True)) \<or>
    (\<not> is_ok r \<and> ag_children g' = ag_children g @ [(args, [])])"
proof (cases "we_current_exe E (ag_calls g)")
  case (Inl k)
  then show ?thesis using assms(1) by (auto simp: spawn_agent_run_helper_def io_res_simps)
next
  case exe: (Inr u)
  let ?g1 = "step g"
  show ?thesis
  proof (cases "we_spawn E (ag_calls ?g1) args")
    case (Inl k)
    then show ?thesis
      using assms(1) exe by (auto simp: spawn_agent_run_helper_def io_res_simps args_def)
  next
    case (Inr v)
    have n: "ag_calls (step ?g1) = ag_calls g + 2" by simp
    obtain w sent where frame: "frame = (w, sent)" by (cases frame)
    show ?thesis
    proof (cases "we_stdin E (ag_calls g + 2)")
      case True
      then show ?thesis
        using assms(1) frame Inr exe n
        by (cases w) (auto simp: spawn_agent_run_helper_def io_res_simps args_def frame_def)
    next
      case False
      then show ?thesis
        using assms(1) Inr exe n
        by (auto simp: spawn_agent_run_helper_def io_res_simps bail_def args_def)
    qed
  qed
qed

lemma run_child_spawn:
  assumes "run_agent_child_with_opened_env E command opened stdin g = (r, g')"
  obtains rs g2 where "spawn_agent_run_helper E command opened stdin g = (rs, g2)"
    "ag_children g' = ag_children g2" "is_ok r \<longrightarrow> is_ok rs"
proof -
  obtain rs g2 where s: "spawn_agent_run_helper E command opened stdin g = (rs, g2)" by (metis surj_pair)
  have "ag_children g' = ag_children g2 \<and> (is_ok r \<longrightarrow> is_ok rs)"
    using assms s
    by (cases rs; cases "we_wait E (ag_calls g2) (case rs of Inr x \<Rightarrow> x | Inl _ \<Rightarrow> [])")
       (auto simp: run_agent_child_with_opened_env_def io_res_simps is_ok_def)
  then show ?thesis using that s by blast
qed

section \<open>Properties\<close>

text \<open>
  Material is opened only under a grant that is in force: a use that succeeds found its grant
  live in the table, opened with that grant and with the standard master exactly if the request
  needs it, and then recorded its activity; a use that fails, for whatever reason, leaves the
  table and so the idle timer as they are (where no other worker interferes).
\<close>

theorem grant_use_safe:
  fixes g :: agent_sys
  shows "case open_with_grant E scope needs opn g of
     (Inr x, g') \<Rightarrow>
       (\<exists>gr master. live_in_use E scope needs g gr \<and> master_in_use E needs g master \<and> opn gr master = Inr x) \<and>
       as_last_activity (ag_state g') = ae_clock E (look_call needs g + 4)
   | (Inl _, g') \<Rightarrow> if quiet E then ag_state g' = ag_state g else True"
proof (cases "open_with_grant E scope needs opn g")
  case (Pair r g')
  show ?thesis
  proof (cases r)
    case (Inl e)
    then show ?thesis
      using Pair open_unchanged [of E g scope needs opn] by (simp add: unchanged_def)
  next
    case (Inr x)
    obtain gr master where "live_in_use E scope needs g gr \<and> master_in_use E needs g master \<and> opn gr master = Inr x"
        and "as_last_activity (ag_state g') = ae_clock E (look_call needs g + 4)"
      using open_with_grant_Inr [OF Pair [unfolded Inr]] by metis
    then show ?thesis by (simp only: Pair Inr prod.case sum.case) blast
  qed
qed

text \<open>
  C12. A signature of the agent is one its grant covers: it is made only if the table, as this very
  request found it under its second lock, held a grant of the requested id that had not expired and
  was not idle at the instant read under that lock, that grant holds a key for signing with the
  requested name, scheme and very digest, and the key envelope opens under it to 32 bytes; and then it
  is the signature of the digest under these bytes.
\<close>

theorem agent_signs_only_granted:
  fixes g :: agent_sys
  shows "case handle_sign E r g of
     (Inr out, _) \<Rightarrow>
       (\<exists>gr digest scheme dek key result.
          live_in_use E (rs_grant_id r) False g gr \<and>
          decode_hex_32 E (rs_digest r) ''digest'' = Inr digest \<and>
          scheme_from_str (rs_scheme r) = Inr scheme \<and>
          gr_deks gr (sign_key (ae_core E) (rs_name r) (rs_scheme r) digest) = Some dek \<and>
          open_with_dek (ae_core E) dek (rs_name r) (rs_key_envelope r) = Inr key \<and> length key = 32 \<and>
          sign_digest (ae_curve E) (ae_aux_rand E (ag_calls g + 7)) scheme key digest = Inr result \<and>
          out = \<lparr>so_signature = hex_encode (ae_core E) (sr_signature result),
                 so_recovery_id = sr_recovery_id result\<rparr>)
   | (Inl _, _) \<Rightarrow> True"
proof (cases "handle_sign E r g")
  case (Pair res g')
  show ?thesis
  proof (cases res)
    case (Inl e)
    then show ?thesis using Pair by simp
  next
    case (Inr out)
    obtain digest scheme key g2 where d: "decode_hex_32 E (rs_digest r) ''digest'' = Inr digest"
        and s: "scheme_from_str (rs_scheme r) = Inr scheme"
        and o: "open_with_grant E (rs_grant_id r) False (\<lambda>grant _.
            open_signing_key_with_grant (ae_core E) (rs_name r) (rs_key_envelope r) (rs_scheme r) digest grant) g
            = (Inr key, g2)"
        and out: "sign_digest_with_key E (ag_calls g2) scheme digest key = Inr out"
      using Pair Inr
      by (auto simp: handle_sign_def then_st_eq_Inr grant_key_from_id_def split: if_splits)
    obtain gr where live1: "live_in_use E (rs_grant_id r) False g gr" "ag_calls g2 = look_call False g + 5"
        and opened: "open_signing_key_with_grant (ae_core E) (rs_name r) (rs_key_envelope r) (rs_scheme r) digest gr
          = Inr key"
      by (rule open_with_grant_Inr [OF o])
    then have live: "live_in_use E (rs_grant_id r) False g gr" "ag_calls g2 = ag_calls g + 7"
      by (simp_all add: look_call_def)
    obtain result where result: "length key = 32"
        "sign_digest (ae_curve E) (ae_aux_rand E (ag_calls g + 7)) scheme key digest = Inr result"
        "out = \<lparr>so_signature = hex_encode (ae_core E) (sr_signature result),
                so_recovery_id = sr_recovery_id result\<rparr>"
      using out live(2) by (auto simp: sign_digest_with_key_def res_simps key32_Inr)
    obtain dek where dek: "gr_deks gr (sign_key (ae_core E) (rs_name r) (rs_scheme r) digest) = Some dek"
        "open_with_dek (ae_core E) dek (rs_name r) (rs_key_envelope r) = Inr key"
      using opened by (auto simp: open_signing_key_with_grant_def res_simps)
    show ?thesis
      unfolding Pair Inr prod.case sum.case
      using live(1) d s dek result by (intro exI conjI)
  qed
qed

text \<open>
  C13. A helper process is started only for a delivery that was granted: if the request started any, then
  exactly one, with the requested command, and only after the table, as the request found it under
  its second lock, held a grant of the requested id live at that instant, and every secret opened under
  that grant and, where a secret needs it, the master that was loaded for this request. A delivery
  that returns an exit status started it and sent it one complete frame of those secrets; any
  other started none, or one that was sent no more than that frame's bytes before writing stopped.
\<close>

theorem run_starts_only_granted:
  fixes g :: agent_sys
  shows "let needs = list_ex (\<lambda>s. es_tier s = Standard) (rr_secrets r);
      args = [''__agent-run-helper'', ''--stdin-null'', ''--''] @ rr_command r;
      frame = write_agent_run_helper_frame (we_pipe E (look_call needs g + 7));
      granted = (\<lambda>opened. \<exists>gr master. live_in_use E (rr_grant_id r) needs g gr \<and> master_in_use E needs g master \<and>
        open_env_secrets_for_agent (ae_core E) (rr_secrets r) gr master = Inr opened)
    in case handle_deliver_run E r g of
         (Inr status, g') \<Rightarrow> (\<exists>opened sent. granted opened \<and> frame opened [] = (Inr (), sent) \<and>
            ag_children g' = ag_children g @ [(args, sent)])
       | (Inl _, g') \<Rightarrow> ag_children g' = ag_children g \<or>
            (\<exists>opened sent. granted opened \<and> (sent = [] \<or> sent = snd (frame opened [])) \<and>
               ag_children g' = ag_children g @ [(args, sent)])"
proof -
  let ?needs = "list_ex (\<lambda>s. es_tier s = Standard) (rr_secrets r)"
  let ?open = "open_with_grant E (rr_grant_id r) ?needs (open_env_secrets_for_agent (ae_core E) (rr_secrets r))"
  obtain res g' where run: "handle_deliver_run E r g = (res, g')" by (cases "handle_deliver_run E r g")
  have cases: "(\<not> is_ok res \<and> g' = g) \<or>
      handle_deliver_run E r g = then_st (?open g) (\<lambda>opened g. run_agent_child_with_opened_env E (rr_command r) opened True g)"
    using run
    by (cases "reject_agent_env_one_shot_fields (rr_secrets r)")
       (auto simp: handle_deliver_run_def grant_key_from_id_def split: if_splits)
  obtain ro g1 where o: "?open g = (ro, g1)" by (cases "?open g")
  have c1: "ag_children g1 = ag_children g" using open_children [of E "rr_grant_id r" _ _ g] o by (metis snd_conv)
  show ?thesis
  proof (cases "\<not> is_ok res \<and> ag_children g' = ag_children g")
    case True
    then show ?thesis unfolding run by (cases res) (simp_all add: Let_def)
  next
    case False
    then have eq: "then_st (?open g) (\<lambda>opened g. run_agent_child_with_opened_env E (rr_command r) opened True g)
        = (res, g')"
      using cases run by auto
    obtain opened where ro: "ro = Inr opened" using eq o c1 False by (cases ro) auto
    have child: "run_agent_child_with_opened_env E (rr_command r) opened True g1 = (res, g')"
      using eq o ro by simp
    obtain rs g2 where spawn: "spawn_agent_run_helper E (rr_command r) opened True g1 = (rs, g2)"
        and g2: "ag_children g' = ag_children g2" "is_ok res \<longrightarrow> is_ok rs"
      by (rule run_child_spawn [OF child])
    obtain gr master where m: "live_in_use E (rr_grant_id r) ?needs g gr" "master_in_use E ?needs g master"
        "open_env_secrets_for_agent (ae_core E) (rr_secrets r) gr master = Inr opened"
        and c: "ag_calls g1 = look_call ?needs g + 5"
      by (rule open_with_grant_Inr [OF o [unfolded ro]])
    have calls: "ag_calls g1 + 2 = look_call ?needs g + 7" using c by simp
    note ch = spawn_children [OF spawn, unfolded calls c1]
    show ?thesis
    proof (cases res)
      case (Inl e)
      then show ?thesis unfolding run Inl Let_def prod.case sum.case using ch g2(1) m False by (cases rs) auto
    next
      case (Inr status)
      then obtain sent where rs: "rs = Inr sent" using g2(2) by (cases rs) (auto simp: is_ok_def)
      have "fst (write_agent_run_helper_frame (we_pipe E (look_call ?needs g + 7)) opened []) = Inr ()"
          "snd (write_agent_run_helper_frame (we_pipe E (look_call ?needs g + 7)) opened []) = sent"
          "ag_children g' = ag_children g @ [([''__agent-run-helper'', ''--stdin-null'', ''--''] @ rr_command r, sent)]"
        using ch g2(1) rs by (auto simp: is_ok_def)
      then show ?thesis unfolding run Inr Let_def prod.case sum.case using m by (metis prod.collapse)
    qed
  qed
qed

end
