(* ===== verification/AgentSocket.thy ===== *)
theory AgentSocket
  imports FileSys CliArgs
begin

text \<open>
  The socket of the resident agent and the directory that holds it (\<open>bind_agent_socket\<close> to
  \<open>validate_agent_home_ancestors\<close> in \<open>crates/avault-cli/src/main.rs\<close>), over the file system of the
  theory FileSys. The environment adds the owner the kernel reports for a path, the user of the
  process, whether a socket answers a connection, and the longest name of a socket.
\<close>

section \<open>The calls\<close>

record socket_os = os +
  so_uid :: "nat \<Rightarrow> path \<Rightarrow> u32"
  so_euid :: u32
  so_answers :: "nat \<Rightarrow> path \<Rightarrow> bool"
  so_max_path :: nat

definition metadata_owner :: "'o socket_os_scheme \<Rightarrow> path \<Rightarrow> fs \<Rightarrow> (node \<times> u32) res \<times> fs" where
  "metadata_owner os p = syscall os (\<lambda>s. (case nodes s p of
       None \<Rightarrow> Inl [Io NotFound] | Some n \<Rightarrow> Inr (n, so_uid os (calls s) p), s))"

definition symlink_metadata :: "'o socket_os_scheme \<Rightarrow> path \<Rightarrow> fs \<Rightarrow> node res \<times> fs" where
  "symlink_metadata os p = syscall os (\<lambda>s. (case nodes s p of
       None \<Rightarrow> Inl [Io NotFound] | Some n \<Rightarrow> Inr n, s))"

definition socket_connects :: "'o socket_os_scheme \<Rightarrow> path \<Rightarrow> fs \<Rightarrow> bool \<times> fs" where
  "socket_connects os p s = (fault os (calls s) = None \<and> so_answers os (calls s) p, s\<lparr>calls := Suc (calls s)\<rparr>)"

definition remove_file :: "'o socket_os_scheme \<Rightarrow> path \<Rightarrow> fs \<Rightarrow> unit res \<times> fs" where
  "remove_file os p = syscall os (\<lambda>s. case nodes s p of
       None \<Rightarrow> (Inl [Io NotFound], s)
     | Some (Dir _) \<Rightarrow> (Inl [Io (OtherIo ''Is a directory (os error 21)'')], s)
     | Some _ \<Rightarrow> (Inr (), s\<lparr>nodes := (nodes s)(p := None)\<rparr>))"

definition bind_socket :: "'o socket_os_scheme \<Rightarrow> path \<Rightarrow> fs \<Rightarrow> unit res \<times> fs" where
  "bind_socket os p = syscall os (\<lambda>s.
     if so_max_path os < length p then (Inl [Io (OtherIo ''path must be shorter than SUN_LEN'')], s)
     else case nodes s p of
       Some _ \<Rightarrow> (Inl [Io (OtherIo ''Address already in use'')], s)
     | None \<Rightarrow> (case nodes s (writable_parent p) of
         Some (Dir _) \<Rightarrow> (Inr (), s\<lparr>nodes := (nodes s)(p \<mapsto> Sock (511 AND NOT (umask os)))\<rparr>)
       | Some _ \<Rightarrow> (Inl [Io (OtherIo ''Not a directory (os error 20)'')], s)
       | None \<Rightarrow> (Inl [Io NotFound], s)))"

section \<open>Paths by component\<close>

text \<open>
  \<open>Path::components\<close>: the root if there is one, then the names between separators; a dot counts
  only at the start of a relative path. Equality of paths and \<open>Path::starts_with\<close> compare these.
\<close>

fun split_path :: "bytes \<Rightarrow> bytes \<Rightarrow> bytes list" where
  "split_path acc [] = [acc]"
| "split_path acc (b # bs) = (if b = 47 then acc # split_path [] bs else split_path (acc @ [b]) bs)"

definition components :: "path \<Rightarrow> bytes list" where
  "components p =
     (let parts = split_path [] p;
          names = filter (\<lambda>c. c \<noteq> [] \<and> c \<noteq> [46]) parts
      in if p \<noteq> [] \<and> hd p = 47 then [47] # names
         else if p \<noteq> [] \<and> hd parts = [46] then [46] # names else names)"

definition path_starts_with :: "path \<Rightarrow> path \<Rightarrow> bool" where
  "path_starts_with p base = (take (length (components base)) (components p) = components base)"

section \<open>The directory\<close>

(* SRC cli secure_agent_runtime_directory *)
definition secure_agent_runtime_directory :: "'o socket_os_scheme \<Rightarrow> path \<Rightarrow> fs \<Rightarrow> unit res \<times> fs" where
  "secure_agent_runtime_directory os p s =
     context_st ''failed to secure agent runtime directory'' (set_permissions os p 448 s)"

(* SRC cli validate_agent_runtime_directory *)
definition validate_agent_runtime_directory :: "'o socket_os_scheme \<Rightarrow> path \<Rightarrow> fs \<Rightarrow> unit res \<times> fs" where
  "validate_agent_runtime_directory os p s =
     then_st (context_st ''failed to stat agent runtime directory'' (metadata_owner os p s)) (\<lambda>(n, uid) s.
     case n of
       Dir m \<Rightarrow>
         if uid \<noteq> so_euid os then (bail ''agent runtime directory is not owned by the current user'', s)
         else if m AND 63 \<noteq> 0 then (bail ''agent runtime directory mode is too open'', s)
         else (Inr (), s)
     | _ \<Rightarrow> (bail ''agent runtime path parent is not a directory'', s))"

(* SRC cli 2838-2848 validate_agent_home_ancestors *)
function validate_ancestors_from :: "'o socket_os_scheme \<Rightarrow> path \<Rightarrow> path option \<Rightarrow> fs \<Rightarrow> unit res \<times> fs" where
  "validate_ancestors_from os home current s = (case current of
       None \<Rightarrow> (Inr (), s)
     | Some p \<Rightarrow>
         if components p = components home then (Inr (), s)
         else if \<not> path_starts_with p home then (Inr (), s)
         else then_st (validate_agent_runtime_directory os p s) (\<lambda>_ s.
              validate_ancestors_from os home (path_parent p) s))"
  by pat_completeness auto
termination
  by (relation "measure (\<lambda>(_, _, current, _). case current of None \<Rightarrow> 0 | Some p \<Rightarrow> Suc (length p))")
     (auto dest: path_parent_shorter split: option.splits)

declare validate_ancestors_from.simps [simp del]

(* SRC cli validate_agent_home_ancestors *)
definition validate_agent_home_ancestors ::
    "'o socket_os_scheme \<Rightarrow> environment \<Rightarrow> path \<Rightarrow> fs \<Rightarrow> unit res \<times> fs" where
  "validate_agent_home_ancestors os env parent s = (case cli_user_home_dir env of
       Inl _ \<Rightarrow> (Inr (), s)
     | Inr home \<Rightarrow> validate_ancestors_from os home (path_parent parent) s)"

(* SRC cli 2798-2804 ensure_agent_socket_parent *)
definition create_runtime_dir :: "'o socket_os_scheme \<Rightarrow> path \<Rightarrow> fs \<Rightarrow> unit res \<times> fs" where
  "create_runtime_dir os dir s =
     (case create_dir os dir s of
        (Inr _, s) \<Rightarrow> secure_agent_runtime_directory os dir s
      | (Inl e, s) \<Rightarrow>
          if e = [Io AlreadyExists] then validate_agent_runtime_directory os dir s
          else (Inl (Msg ''failed to create agent runtime directory'' # e), s))"

(* SRC cli 2797-2805 ensure_agent_socket_parent *)
primrec create_runtime_dirs :: "'o socket_os_scheme \<Rightarrow> path list \<Rightarrow> fs \<Rightarrow> unit res \<times> fs" where
  "create_runtime_dirs os [] s = (Inr (), s)"
| "create_runtime_dirs os (dir # dirs) s =
     then_st (create_runtime_dir os dir s) (\<lambda>_ s. create_runtime_dirs os dirs s)"

text \<open>The loop over the missing ancestors is the one of \<open>ensure_secret_parent_directory\<close>.\<close>

(* SRC cli ensure_agent_socket_parent *)
definition ensure_agent_socket_parent ::
    "'o socket_os_scheme \<Rightarrow> environment \<Rightarrow> path \<Rightarrow> fs \<Rightarrow> unit res \<times> fs" where
  "ensure_agent_socket_parent os env parent s =
     then_st (case path_exists os parent s of
          (True, s) \<Rightarrow> (Inr (), s)
        | (False, s) \<Rightarrow> then_st (collect_missing (vec_limit os) os parent [] s) (\<lambda>missing s.
            create_runtime_dirs os (rev missing) s)) (\<lambda>_ s.
     then_st (validate_agent_runtime_directory os parent s) (\<lambda>_ s.
     validate_agent_home_ancestors os env parent s))"

section \<open>The socket\<close>

text \<open>What is at the path already: a socket nobody answers is removed, anything else is an error.\<close>

(* SRC cli 2767-2777 bind_agent_socket *)
definition clear_agent_socket :: "'o socket_os_scheme \<Rightarrow> path \<Rightarrow> fs \<Rightarrow> unit res \<times> fs" where
  "clear_agent_socket os p s =
     (case symlink_metadata os p s of
        (Inr (Sock _), s) \<Rightarrow>
          (case socket_connects os p s of
             (True, s) \<Rightarrow> (bail ''agent socket is already in use'', s)
           | (False, s) \<Rightarrow> context_st ''failed to remove stale agent socket'' (remove_file os p s))
      | (Inr _, s) \<Rightarrow> (bail ''agent socket path already exists and is not a socket'', s)
      | (Inl e, s) \<Rightarrow>
          if e = [Io NotFound] then (Inr (), s)
          else (Inl (Msg ''failed to inspect agent socket path'' # e), s))"

(* SRC cli bind_agent_socket *)
definition bind_agent_socket :: "'o socket_os_scheme \<Rightarrow> environment \<Rightarrow> path \<Rightarrow> fs \<Rightarrow> unit res \<times> fs" where
  "bind_agent_socket os env p s =
     (let parent = writable_parent p
      in then_st (ensure_agent_socket_parent os env parent s) (\<lambda>_ s.
         then_st (clear_agent_socket os p s) (\<lambda>_ s.
         then_st (context_st ''failed to bind agent socket'' (bind_socket os p s)) (\<lambda>_ s.
         context_st ''failed to secure agent socket'' (set_permissions os p 384 s)))))"

section \<open>Parents and components\<close>

definition path_prefix :: "path \<Rightarrow> bytes list" where
  "path_prefix p = (if p \<noteq> [] \<and> hd p = 47 then [[47]]
     else if p \<noteq> [] \<and> hd (split_path [] p) = [46] then [[46]] else [])"

definition names_of :: "path \<Rightarrow> bytes list" where
  "names_of p = filter (\<lambda>c. c \<noteq> [] \<and> c \<noteq> [46]) (split_path [] p)"

lemma components_eq: "components p = path_prefix p @ names_of p"
  by (simp add: components_def path_prefix_def names_of_def Let_def)

lemma split_path_append: "split_path acc (xs @ 47 # ys) = split_path acc xs @ split_path [] ys"
  by (induction xs arbitrary: acc) simp_all

lemma split_path_plain: "47 \<notin> set xs \<Longrightarrow> split_path acc xs = [acc @ xs]"
  by (induction xs arbitrary: acc) auto

lemma split_path_not_Nil: "split_path acc xs \<noteq> []"
  by (induction xs arbitrary: acc) auto

lemma names_of_append: "names_of (xs @ 47 # ys) = names_of xs @ names_of ys"
  by (simp add: names_of_def split_path_append)

lemma names_of_simps [simp]: "names_of [] = []" "names_of [46] = []" "names_of [47] = []"
  by (simp_all add: names_of_def)

lemma path_prefix_append: "xs \<noteq> [] \<Longrightarrow> path_prefix (xs @ 47 # ys) = path_prefix xs"
  by (simp add: path_prefix_def split_path_append split_path_not_Nil)

lemma path_prefix_root: "path_prefix (47 # ys) = [[47]]"
  by (simp add: path_prefix_def)

lemma trim_rev_components:
  "path_prefix (rev (trim_rev r)) = path_prefix (rev r) \<and> names_of (rev (trim_rev r)) = names_of (rev r)"
proof (induction r rule: trim_rev.induct)
  case (1 b r)
  show ?case
  proof (cases "b = 47")
    case True
    then show ?thesis
      using 1 by (cases "r = []") (simp_all add: path_prefix_append names_of_append)
  next
    case False
    show ?thesis
    proof (cases "b = 46 \<and> r \<noteq> [] \<and> hd r = 47")
      case True
      then obtain ys where r: "r = 47 # ys" by (cases r) auto
      have "path_prefix (rev r @ [46]) = path_prefix (rev r)"
        using path_prefix_append [of "rev ys" "[46]"] path_prefix_append [of "rev ys" "[]"]
        by (cases "ys = []") (simp_all add: r path_prefix_root)
      moreover have "names_of (rev r @ [46]) = names_of (rev r)"
        using names_of_append [of "rev ys" "[46]"] names_of_append [of "rev ys" "[]"] by (simp add: r)
      ultimately show ?thesis using 1 True False by simp
    qed (use False in auto)
  qed
qed simp

text \<open>What is left of a path ends in a name, or is the root or a dot.\<close>

lemma trim_rev_ends:
  "trim_rev r = b # t \<Longrightarrow> b \<noteq> 47 \<Longrightarrow> b = 46 \<Longrightarrow> t = [] \<or> hd t \<noteq> 47"
  by (induction r rule: trim_rev.induct) (auto split: if_splits)

lemma path_parent_components:
  assumes "path_parent p = Some q"
  shows "components q = butlast (components p)"
proof -
  define r where "r = trim_rev (rev p)"
  define d where "d = dropWhile (\<lambda>b. b \<noteq> 47) r"
  define name where "name = rev (takeWhile (\<lambda>b. b \<noteq> 47) r)"
  have r: "r \<noteq> []" "r \<noteq> [47]" and q: "q = (if d = [] then [] else rev (trim_rev d))"
    using assms by (auto simp: path_parent_def r_def [symmetric] d_def [symmetric] Let_def split: if_splits)
  have p: "components p = path_prefix (rev r) @ names_of (rev r)"
    using trim_rev_components [of "rev p"] by (simp add: components_eq r_def)
  have split: "rev r = rev d @ name" unfolding d_def name_def by (metis rev_append takeWhile_dropWhile_id)
  have plain: "47 \<notin> set name" by (auto simp: name_def dest: set_takeWhileD)
  obtain b t where bt: "r = b # t" using r(1) by (cases r) auto
  have b: "b \<noteq> 47" using r(2) bt trim_rev_Cons_dvd [of "rev p" b t] by (auto simp: r_def)
  then have name: "name \<noteq> []" by (simp add: name_def bt)
  show ?thesis
  proof (cases "d = []")
    case True
    then have "components p = path_prefix name @ names_of name" using p split by simp
    moreover have "length (path_prefix name @ names_of name) = 1"
      using plain name by (auto simp: path_prefix_def names_of_def split_path_plain neq_Nil_conv)
    ultimately have "butlast (components p) = []" by (metis length_butlast diff_self_eq_0 length_0_conv)
    then show ?thesis using q True by (simp add: components_eq path_prefix_def)
  next
    case False
    then obtain e where d: "d = 47 # e" using hd_dropWhile [of "\<lambda>b. b \<noteq> 47" r] by (cases d) (auto simp: d_def)
    have dot: "name \<noteq> [46]"
    proof
      assume "name = [46]"
      then have tw: "takeWhile (\<lambda>b. b \<noteq> 47) r = [46]" by (metis name_def rev_singleton_conv)
      then have "r = 46 # d" unfolding d_def by (metis append_Cons append_Nil takeWhile_dropWhile_id)
      then show False using trim_rev_ends [of "rev p" 46 d] d by (simp add: r_def)
    qed
    have "names_of (rev r) = names_of (rev e) @ [name]"
      using split d plain name dot by (simp add: names_of_append names_of_def [of name] split_path_plain)
    moreover have "path_prefix (rev r) = path_prefix (rev d)"
      using split d by (cases "e = []") (simp_all add: path_prefix_append path_prefix_root)
    moreover have "names_of (rev d) = names_of (rev e)" using d by (simp add: names_of_append)
    ultimately have "components p = components (rev d) @ [name]" using p by (simp add: components_eq)
    moreover have "components q = components (rev d)"
      using q False trim_rev_components [of d] by (simp add: components_eq)
    ultimately show ?thesis by simp
  qed
qed

section \<open>Private directories\<close>

text \<open>A directory the checks accept: the user's own, with no permission for anyone else.\<close>

definition private_dir :: "'o socket_os_scheme \<Rightarrow> fs \<Rightarrow> path \<Rightarrow> bool" where
  "private_dir os s p \<longleftrightarrow> (\<exists>m n. nodes s p = Some (Dir m) \<and> m AND 63 = 0 \<and> so_uid os n p = so_euid os)"

definition strictly_below :: "path \<Rightarrow> path \<Rightarrow> bool" where
  "strictly_below home p \<longleftrightarrow> path_starts_with p home \<and> components p \<noteq> components home"

function path_parents :: "path \<Rightarrow> path list" where
  "path_parents p = (case path_parent p of None \<Rightarrow> [] | Some q \<Rightarrow> q # path_parents q)"
  by pat_completeness auto
termination
  by (relation "measure length") (auto dest: path_parent_shorter)

declare path_parents.simps [simp del]

lemma path_parents_member:
  "q \<in> set (path_parents p) \<Longrightarrow> \<exists>r. path_parent p = Some r \<and> (q = r \<or> q \<in> set (path_parents r))"
  by (cases "path_parent p") (simp_all add: path_parents.simps [of p])

lemma take_butlast_prefix:
  "take (length h) (butlast c) = h \<Longrightarrow> butlast c \<noteq> h \<Longrightarrow> take (length h) c = h \<and> c \<noteq> h"
proof -
  assume t: "take (length h) (butlast c) = h" and n: "butlast c \<noteq> h"
  then have "length h \<le> length (butlast c)" by (metis length_take min.cobounded1)
  with t n have l: "length h < length (butlast c)"
    by (metis le_neq_implies_less take_all order_refl)
  then have "take (length h) c = h" using t by (simp add: take_butlast)
  moreover have "c \<noteq> h" using l by auto
  ultimately show ?thesis by blast
qed

lemma strictly_below_parent: "path_parent p = Some q \<Longrightarrow> strictly_below home q \<Longrightarrow> strictly_below home p"
  unfolding strictly_below_def path_starts_with_def path_parent_components
  using take_butlast_prefix by blast

lemma strictly_below_parents: "q \<in> set (path_parents p) \<Longrightarrow> strictly_below home q \<Longrightarrow> strictly_below home p"
proof (induction p rule: path_parents.induct)
  case (1 p)
  then obtain r where r: "path_parent p = Some r" "q = r \<or> q \<in> set (path_parents r)"
    using path_parents_member by blast
  then show ?case using 1 strictly_below_parent [OF r(1)] by blast
qed

lemma runtime_directory_valid:
  assumes "validate_agent_runtime_directory os p s = (r, s')"
  shows "nodes s' = nodes s" and "r = Inr () \<Longrightarrow> private_dir os s p"
  using assms
  by (auto simp: validate_agent_runtime_directory_def metadata_owner_def syscall_def Let_def private_dir_def
      context_st_def bail_def split: option.splits node.splits if_splits)

lemma validate_ancestors_nodes: "nodes (snd (validate_ancestors_from os home c s)) = nodes s"
proof (induction os home c s rule: validate_ancestors_from.induct)
  case (1 os home c s)
  show ?case
  proof (cases c)
    case (Some p)
    obtain r s1 where v: "validate_agent_runtime_directory os p s = (r, s1)" by (metis surj_pair)
    show ?thesis
      using 1 [OF Some] v runtime_directory_valid(1) [OF v]
      by (subst validate_ancestors_from.simps) (cases r; simp add: Some)
  qed (simp add: validate_ancestors_from.simps)
qed

lemma validate_ancestors_step: "validate_ancestors_from os home c s = (r, s') \<Longrightarrow> nodes s' = nodes s"
  using validate_ancestors_nodes [of os home c s] by simp

lemma home_ancestors_nodes: "validate_agent_home_ancestors os env p s = (r, s') \<Longrightarrow> nodes s' = nodes s"
  by (cases "cli_user_home_dir env") (auto simp: validate_agent_home_ancestors_def dest: validate_ancestors_step)

lemma validate_ancestors_Inr:
  assumes "validate_ancestors_from os home c s = (Inr (), s')"
    and "c = Some p" "q = p \<or> q \<in> set (path_parents p)" "strictly_below home q"
  shows "private_dir os s q"
  using assms
proof (induction os home c s arbitrary: p rule: validate_ancestors_from.induct)
  case (1 os home c s)
  have below: "strictly_below home p"
    using "1.prems"(3,4) strictly_below_parents by blast
  then have go: "components p \<noteq> components home" "path_starts_with p home" by (simp_all add: strictly_below_def)
  obtain r s1 where v: "validate_agent_runtime_directory os p s = (r, s1)" by (metis surj_pair)
  have r: "r = Inr ()" and rest: "validate_ancestors_from os home (path_parent p) s1 = (Inr (), s')"
    using "1.prems"(1,2) go v by (subst (asm) validate_ancestors_from.simps; cases r; simp)+
  note valid = runtime_directory_valid [OF v]
  show ?case
  proof (cases "q = p")
    case True
    then show ?thesis using valid(2) r by simp
  next
    case False
    with "1.prems"(3) obtain p' where p': "path_parent p = Some p'" "q = p' \<or> q \<in> set (path_parents p')"
      using path_parents_member by blast
    have "private_dir os s1 q"
      using "1.IH" [OF "1.prems"(2) go(1) _ v [unfolded r] rest p' "1.prems"(4)] go(2) by simp
    then show ?thesis using valid(1) by (simp add: private_dir_def)
  qed
qed

section \<open>Growth of the directories\<close>

lemma create_runtime_growth:
  assumes "create_runtime_dir os dir s = (r, s')" and dir: "dir \<in> ds"
  shows "private_growth ds s s' (is_ok r)"
proof -
  obtain r1 s1 where 1: "create_dir os dir s = (r1, s1)" by (cases "create_dir os dir s")
  consider (made) "r1 = Inr ()" "nodes s dir = None"
      "nodes s1 = (nodes s)(dir \<mapsto> Dir (511 AND NOT (umask os)))"
    | (failed) e where "r1 = Inl e" "nodes s1 = nodes s"
    using create_dir_cases [OF 1] by auto
  then show ?thesis
  proof cases
    case made
    obtain r2 s2 where 2: "set_permissions os dir 448 s1 = (r2, s2)" by (cases "set_permissions os dir 448 s1")
    have r: "r = with_context ''failed to secure agent runtime directory'' r2" "s' = s2"
      using assms(1) by (simp_all add: create_runtime_dir_def secure_agent_runtime_directory_def 1 made(1) 2 context_st_def)
    have "(r2 = Inr () \<and> nodes s2 = (nodes s)(dir \<mapsto> Dir 448)) \<or> (\<exists>e. r2 = Inl e \<and> nodes s2 = nodes s1)"
      using set_permissions_cases [OF 2] made(3) by auto
    then show ?thesis using made dir r by (auto simp: private_growth_def)
  next
    case failed
    have "nodes s' = nodes s1"
      using assms(1) runtime_directory_valid(1) [of os dir s1]
      by (auto simp: create_runtime_dir_def 1 failed(1) split: if_splits)
    then show ?thesis using failed by (simp add: private_growth_same)
  qed
qed

lemma create_runtime_dirs_growth:
  "\<lbrakk>create_runtime_dirs os dirs s = (r, s'); set dirs \<subseteq> ds\<rbrakk> \<Longrightarrow> private_growth ds s s' (is_ok r)"
proof (induction dirs arbitrary: s r s')
  case Nil
  then show ?case by (simp add: private_growth_same)
next
  case (Cons dir dirs)
  obtain r1 s1 where 1: "create_runtime_dir os dir s = (r1, s1)" by (cases "create_runtime_dir os dir s")
  have g: "private_growth ds s s1 (is_ok r1)"
    by (rule create_runtime_growth [OF 1]) (use Cons.prems in simp)
  show ?case
  proof (cases r1)
    case (Inl e)
    then show ?thesis using Cons.prems g by (simp add: 1)
  next
    case (Inr u)
    then have "create_runtime_dirs os dirs s1 = (r, s')" using Cons.prems by (simp add: 1)
    then have "private_growth ds s1 s' (is_ok r)" using Cons by simp
    with g Inr show ?thesis by (auto intro: private_growth_trans)
  qed
qed

lemma private_growth_cong_right:
  "private_growth ds s s' ok \<Longrightarrow> nodes s'' = nodes s' \<Longrightarrow> private_growth ds s s'' ok"
  by (simp add: private_growth_def)

lemma socket_parent_growth:
  assumes "ensure_agent_socket_parent os env parent s = (r, s')"
  shows "private_growth (ancestors parent) s s' (is_ok r)"
proof -
  let ?make = "case path_exists os parent s of
          (True, s) \<Rightarrow> (Inr (), s)
        | (False, s) \<Rightarrow> then_st (collect_missing (vec_limit os) os parent [] s) (\<lambda>missing s.
            create_runtime_dirs os (rev missing) s)"
  obtain ex s1 where e: "path_exists os parent s = (ex, s1)" by (cases "path_exists os parent s")
  have n1: "nodes s1 = nodes s" using e nodes_path_exists [of os parent s] by simp
  obtain r2 s2 where make: "?make = (r2, s2)" by (cases ?make)
  have g: "private_growth (ancestors parent) s s2 (is_ok r2)"
  proof (cases ex)
    case True
    then show ?thesis using make e n1 by (simp add: private_growth_same)
  next
    case False
    obtain rc sc where c: "collect_missing (vec_limit os) os parent [] s1 = (rc, sc)"
      by (cases "collect_missing (vec_limit os) os parent [] s1")
    show ?thesis
    proof (cases rc)
      case (Inl err)
      then show ?thesis using make e False c collect_missing_Inl_nodes [of _ os parent "[]" s1 err sc] n1
        by (simp add: private_growth_same)
    next
      case (Inr ms)
      note anc = collect_missing_ancestors [OF c [unfolded Inr]]
      have "create_runtime_dirs os (rev ms) sc = (r2, s2)" using make e False c Inr by simp
      then have "private_growth (ancestors parent) sc s2 (is_ok r2)"
        by (rule create_runtime_dirs_growth) (use anc in \<open>auto simp: ancestors_def\<close>)
      moreover have "nodes sc = nodes s" using anc n1 by simp
      ultimately show ?thesis by (simp add: private_growth_def)
    qed
  qed
  show ?thesis
  proof (cases r2)
    case (Inl err)
    then have "r = Inl err \<and> s' = s2" using assms make by (simp add: ensure_agent_socket_parent_def)
    then show ?thesis using g Inl by simp
  next
    case (Inr u)
    obtain r3 s3 where v: "validate_agent_runtime_directory os parent s2 = (r3, s3)" by (metis surj_pair)
    have run: "then_st (r3, s3) (\<lambda>_ s. validate_agent_home_ancestors os env parent s) = (r, s')"
      using assms make Inr v by (simp add: ensure_agent_socket_parent_def)
    have "nodes s' = nodes s3"
      using run home_ancestors_nodes by (cases r3) auto
    then have "nodes s' = nodes s2" using runtime_directory_valid(1) [OF v] by simp
    then show ?thesis using g Inr private_growth_cong_right [OF private_growth_weaken [of _ s s2 "is_ok r"]] by simp
  qed
qed

lemma socket_parent_Inr:
  assumes "ensure_agent_socket_parent os env parent s = (Inr (), s')"
  shows "private_dir os s' parent"
    and "\<lbrakk>cli_user_home_dir env = Inr home; q \<in> set (path_parents parent); strictly_below home q\<rbrakk>
      \<Longrightarrow> private_dir os s' q"
proof -
  obtain s2 s3 where v: "validate_agent_runtime_directory os parent s2 = (Inr (), s3)"
      and a: "validate_agent_home_ancestors os env parent s3 = (Inr (), s')"
    using assms by (auto simp: ensure_agent_socket_parent_def then_st_eq_Inr)
  have n3: "nodes s3 = nodes s2" by (rule runtime_directory_valid(1) [OF v])
  have n: "nodes s' = nodes s3"
    by (rule home_ancestors_nodes [OF a])
  show "private_dir os s' parent" using runtime_directory_valid(2) [OF v] n n3 by (simp add: private_dir_def)
  assume home: "cli_user_home_dir env = Inr home" "strictly_below home q" and q: "q \<in> set (path_parents parent)"
  obtain p where p: "path_parent parent = Some p" "q = p \<or> q \<in> set (path_parents p)"
    using path_parents_member [OF q] by blast
  have "validate_ancestors_from os home (path_parent parent) s3 = (Inr (), s')"
    using a home by (simp add: validate_agent_home_ancestors_def)
  from validate_ancestors_Inr [OF this p home(2)] show "private_dir os s' q" using n by (simp add: private_dir_def)
qed

section \<open>The socket at its path\<close>

lemma path_parents_shorter: "q \<in> set (path_parents p) \<Longrightarrow> length q < length p"
proof (induction p rule: path_parents.induct)
  case (1 p)
  then obtain r where r: "path_parent p = Some r" "q = r \<or> q \<in> set (path_parents r)"
    using path_parents_member by blast
  then show ?case using 1 path_parent_shorter [OF r(1)] by fastforce
qed

lemma not_own_parent: "p \<noteq> [46] \<Longrightarrow> writable_parent p \<noteq> p"
  using writable_parent_shorter [of p] by auto

lemma components_Nil: "components [] = []"
  by (simp add: components_eq path_prefix_def)

lemma below_not_socket:
  assumes "q \<in> set (path_parents (writable_parent p))" "strictly_below home q" "p \<noteq> [46]"
  shows "q \<noteq> p"
proof
  assume q: "q = p"
  note short = path_parents_shorter [OF assms(1)]
  show False
  proof (cases "writable_parent p = [46]")
    case True
    then have "q = []" using short by simp
    then show False using assms(2) by (auto simp: strictly_below_def path_starts_with_def components_Nil)
  next
    case False
    then show False using short q writable_parent_shorter [of p] by simp
  qed
qed

lemma clear_socket_cases:
  assumes "clear_agent_socket os p s = (r, s')"
  shows "(\<exists>e. r = Inl e \<and> nodes s' = nodes s) \<or>
    r = Inr () \<and> (nodes s' = nodes s \<or> nodes s' = (nodes s)(p := None) \<and>
      (\<exists>m n. nodes s p = Some (Sock m) \<and> \<not> (fault os n = None \<and> so_answers os n p)))"
proof (cases "symlink_metadata os p s")
  case (Pair r1 s1)
  have n1: "nodes s1 = nodes s"
    using Pair by (auto simp: symlink_metadata_def syscall_def Let_def split: option.splits)
  have found: "nodes s p = Some n" if "r1 = Inr n" for n
    using Pair that by (auto simp: symlink_metadata_def syscall_def Let_def split: option.splits)
  show ?thesis
  proof (cases r1)
    case (Inl e)
    then show ?thesis using assms Pair n1 by (auto simp: clear_agent_socket_def split: if_splits)
  next
    case (Inr n)
    show ?thesis
    proof (cases n)
      case (Sock m)
      obtain up s2 where c: "socket_connects os p s1 = (up, s2)" by (cases "socket_connects os p s1")
      have n2: "nodes s2 = nodes s" and dead: "\<not> up \<Longrightarrow> \<not> (fault os (calls s1) = None \<and> so_answers os (calls s1) p)"
        using c n1 by (auto simp: socket_connects_def)
      have p: "nodes s2 p = Some (Sock m)" using found Inr Sock n2 by simp
      show ?thesis
      proof (cases up)
        case True
        then show ?thesis using assms Pair Inr Sock c n2 by (auto simp: clear_agent_socket_def bail_def)
      next
        case False
        then have "context_st ''failed to remove stale agent socket'' (remove_file os p s2) = (r, s')"
          using assms Pair Inr Sock c by (simp add: clear_agent_socket_def)
        then have "(\<exists>e. r = Inl e \<and> nodes s' = nodes s2) \<or> r = Inr () \<and> nodes s' = (nodes s2)(p := None)"
          using p by (cases "fault os (calls s2)") (auto simp: remove_file_def syscall_def Let_def context_st_def)
        then show ?thesis using dead [OF False] p n2 by auto
      qed
    qed (use assms Pair Inr n1 in \<open>auto simp: clear_agent_socket_def bail_def\<close>)
  qed
qed

lemma bind_socket_cases:
  assumes "bind_socket os p s = (r, s')"
  shows "(\<exists>e. r = Inl e \<and> nodes s' = nodes s) \<or>
    r = Inr () \<and> nodes s p = None \<and> nodes s' = (nodes s)(p \<mapsto> Sock (511 AND NOT (umask os)))"
  using assms
  by (auto simp: bind_socket_def syscall_def Let_def split: option.splits if_splits node.splits)

text \<open>Everything after the directory is ready.\<close>

lemma socket_installed:
  assumes "then_st (clear_agent_socket os p s) (\<lambda>_ s.
      then_st (context_st ''failed to bind agent socket'' (bind_socket os p s)) (\<lambda>_ s.
      context_st ''failed to secure agent socket'' (set_permissions os p 384 s))) = (r, s')"
  shows "(\<forall>q. q \<noteq> p \<longrightarrow> nodes s' q = nodes s q) \<and>
    (nodes s' p = nodes s p \<or> nodes s p = None \<or> (\<exists>m. nodes s p = Some (Sock m))) \<and>
    (r = Inr () \<longrightarrow> nodes s' p = Some (Sock 384) \<and>
      (nodes s p = None \<or> (\<exists>m n. nodes s p = Some (Sock m) \<and> \<not> (fault os n = None \<and> so_answers os n p))))"
proof -
  obtain r1 s1 where c: "clear_agent_socket os p s = (r1, s1)" by (cases "clear_agent_socket os p s")
  obtain r2 s2 where b: "bind_socket os p s1 = (r2, s2)" by (cases "bind_socket os p s1")
  obtain r3 s3 where m: "set_permissions os p 384 s2 = (r3, s3)" by (cases "set_permissions os p 384 s2")
  note cases = clear_socket_cases [OF c] bind_socket_cases [OF b] set_permissions_cases [OF m]
  show ?thesis
  proof (cases r1)
    case (Inl e)
    then show ?thesis using assms c cases(1) by auto
  next
    case Inr1: (Inr u)
    show ?thesis
    proof (cases r2)
      case (Inl e)
      then show ?thesis using assms c Inr1 b cases(1,2) by (auto simp: context_st_def)
    next
      case (Inr v)
      then show ?thesis using assms c Inr1 b m cases by (auto simp: context_st_def)
    qed
  qed
qed

section \<open>A sample\<close>

definition socket_os :: socket_os where
  "socket_os = os.extend plain_os \<lparr>so_uid = (\<lambda>_ _. 1000), so_euid = 1000, so_answers = (\<lambda>_ _. False),
     so_max_path = 108\<rparr>"

text \<open>A private \<open>/r\<close> with the socket of an agent that has ended.\<close>

definition stale_fs :: fs where
  "stale_fs = \<lparr>nodes = [[47, 114] \<mapsto> Dir 448, [47, 114, 47, 97] \<mapsto> Sock 384], calls = 0\<rparr>"

lemma sample_bind:
  "\<exists>s'. bind_agent_socket socket_os Map.empty [47, 114, 47, 97] stale_fs = (Inr (), s')"
proof -
  have parent: "writable_parent [47, 114, 47, 97] = [47, 114]"
    by (simp add: writable_parent_def path_parent_def)
  have fields: "fault socket_os n = None" "umask socket_os = 18" "so_max_path socket_os = 108"
      "so_uid socket_os n p = 1000" "so_euid socket_os = 1000" "\<not> so_answers socket_os n p" for n p
    by (simp_all add: socket_os_def os.extend_def plain_os_simps)
  show ?thesis
    by (simp add: bind_agent_socket_def parent ensure_agent_socket_parent_def path_exists_def
        validate_agent_runtime_directory_def metadata_owner_def syscall_def fields stale_fs_def
        validate_agent_home_ancestors_def cli_user_home_dir_def bail_def clear_agent_socket_def
        symlink_metadata_def socket_connects_def remove_file_def bind_socket_def set_permissions_def)
qed

section \<open>Properties\<close>

text \<open>
  C21. The socket of the agent is private: where \<open>bind_agent_socket\<close> succeeds there is a socket at
  the path that only the user can connect to, in a directory that is the user's own and open to
  nobody else, and so is every directory above it that lies below \<open>HOME\<close>; before, there was
  nothing at the path, or a socket that did not answer. Whatever happens, nothing that exists is
  removed or changed except a socket at the path itself.
\<close>

theorem agent_socket_private:
  assumes "bind_agent_socket os env p s = (r, s')" and "p \<noteq> [46]"
  shows "(\<forall>q n. nodes s q = Some n \<longrightarrow> nodes s' q = Some n \<or> q = p \<and> (\<exists>m. n = Sock m)) \<and>
    (r = Inr () \<longrightarrow>
       nodes s' p = Some (Sock 384) \<and>
       (nodes s p = None \<or> (\<exists>m n. nodes s p = Some (Sock m) \<and> \<not> (fault os n = None \<and> so_answers os n p))) \<and>
       private_dir os s' (writable_parent p) \<and>
       (case cli_user_home_dir env of
          Inl _ \<Rightarrow> True
        | Inr home \<Rightarrow> \<forall>q \<in> set (path_parents (writable_parent p)).
            strictly_below home q \<longrightarrow> private_dir os s' q))"
proof -
  let ?parent = "writable_parent p"
  obtain r1 s1 where e: "ensure_agent_socket_parent os env ?parent s = (r1, s1)" by (metis surj_pair)
  note growth = socket_parent_growth [OF e]
  have kept: "nodes s1 q = Some n" if "nodes s q = Some n" for q n
    by (rule private_growth_keeps [OF growth that])
  have at: "nodes s1 p = nodes s p"
    using private_growth_outside [OF growth not_ancestor_of_parent [OF assms(2)]] by simp
  show ?thesis
  proof (cases r1)
    case (Inl err)
    then have "r = Inl err" "s' = s1" using assms(1) e by (simp_all add: bind_agent_socket_def Let_def)
    then show ?thesis using kept by simp
  next
    case (Inr u)
    then have e: "ensure_agent_socket_parent os env ?parent s = (Inr (), s1)" using e by simp
    have "then_st (clear_agent_socket os p s1) (\<lambda>_ s.
        then_st (context_st ''failed to bind agent socket'' (bind_socket os p s)) (\<lambda>_ s.
        context_st ''failed to secure agent socket'' (set_permissions os p 384 s))) = (r, s')"
      using assms(1) e by (simp add: bind_agent_socket_def Let_def)
    note inst = socket_installed [OF this]
    have other: "nodes s' q = nodes s1 q" if "q \<noteq> p" for q using inst that by blast
    have "private_dir os s' ?parent"
      using socket_parent_Inr(1) [OF e] other [OF not_own_parent [OF assms(2)]] by (simp add: private_dir_def)
    moreover have "private_dir os s' q"
      if "cli_user_home_dir env = Inr home" "q \<in> set (path_parents ?parent)" "strictly_below home q" for home q
      using socket_parent_Inr(2) [OF e that] other [OF below_not_socket [OF that(2,3) assms(2)]]
      by (simp add: private_dir_def)
    moreover have "nodes s' q = Some n \<or> q = p \<and> (\<exists>m. n = Sock m)" if "nodes s q = Some n" for q n
      using kept [OF that] other [of q] inst at that by (cases "q = p") auto
    ultimately show ?thesis using inst at by (auto split: sum.splits)
  qed
qed

theorem agent_socket_private_witness:
  "\<exists>s'. bind_agent_socket socket_os Map.empty [47, 114, 47, 97] stale_fs = (Inr (), s') \<and>
     nodes s' [47, 114, 47, 97] = Some (Sock 384) \<and> nodes s' [47, 114] = Some (Dir 448)"
proof -
  obtain s' where run: "bind_agent_socket socket_os Map.empty [47, 114, 47, 97] stale_fs = (Inr (), s')"
    using sample_bind by blast
  have "nodes stale_fs [47, 114] = Some (Dir 448)" by (simp add: stale_fs_def)
  with agent_socket_private [OF run] run show ?thesis by auto
qed

end
