(* ===== verification/Admission.thy ===== *)
theory Admission
  imports StoreTypes
begin

text \<open>
  The bound on concurrent agent connections (\<open>AgentAdmission\<close> and \<open>AgentPermit\<close> in
  \<open>crates/avault-cli/src/main.rs\<close>): a counter that is raised with a weak compare-and-swap loop and
  lowered when a permit is dropped. \<open>admit_iteration\<close> is one turn of the loop, and \<open>admission_run\<close>
  interleaves the turns of any number of threads; the counter has the width of \<open>usize\<close> on 64-bit
  targets.
\<close>

section \<open>The loop\<close>

datatype admit_outcome = Admitted | Refused | Retry u64

text \<open>
  \<open>compare_exchange_weak\<close>: it stores the new value if it finds the expected one, unless it fails
  spuriously; failing, it returns the value found.
\<close>

definition compare_exchange_weak :: "bool \<Rightarrow> u64 \<Rightarrow> u64 \<Rightarrow> u64 \<Rightarrow> (u64 + u64) \<times> u64" where
  "compare_exchange_weak spurious expected new shared =
     (if shared = expected \<and> \<not> spurious then (Inr shared, new) else (Inl shared, shared))"

(* SRC cli 2468-2478 AgentAdmission::try_admit *)
definition admit_iteration :: "bool \<Rightarrow> u64 \<Rightarrow> u64 \<Rightarrow> u64 \<Rightarrow> admit_outcome \<times> u64" where
  "admit_iteration spurious limit active shared =
     (if active < limit
      then (case compare_exchange_weak spurious active (active + 1) shared of
              (Inr _, shared) \<Rightarrow> (Admitted, shared)
            | (Inl current, shared) \<Rightarrow> (Retry current, shared))
      else (Refused, shared))"

text \<open>The whole loop, where the environment supplies what the counter holds at each turn.\<close>

(* SRC cli AgentAdmission::try_admit *)
partial_function (option) try_admit_from :: "(nat \<Rightarrow> bool \<times> u64) \<Rightarrow> u64 \<Rightarrow> nat \<Rightarrow> u64 \<Rightarrow> bool option" where
  "try_admit_from sched limit n active =
     (case admit_iteration (fst (sched n)) limit active (snd (sched n)) of
        (Admitted, _) \<Rightarrow> Some True
      | (Refused, _) \<Rightarrow> Some False
      | (Retry current, _) \<Rightarrow> try_admit_from sched limit (Suc n) current)"

(* SRC cli AgentPermit::drop *)
definition drop_permit :: "u64 \<Rightarrow> u64" where
  "drop_permit shared = shared - 1"

section \<open>Threads and permits\<close>

text \<open>\<open>ad_attempts\<close> holds what each thread in the loop last saw; \<open>ad_permits\<close> counts the live permits.\<close>

(* SRC cli AgentAdmission *)
record 'i admission =
  ad_active :: u64
  ad_limit :: u64
  ad_attempts :: "'i \<rightharpoonup> u64"
  ad_permits :: nat

(* SRC cli AgentAdmission::new *)
definition admission_new :: "u64 \<Rightarrow> 'i admission" where
  "admission_new limit = \<lparr>ad_active = 0, ad_limit = limit, ad_attempts = Map.empty, ad_permits = 0\<rparr>"

text \<open>One turn of the loop of thread \<open>i\<close>.\<close>

definition attempt :: "bool \<Rightarrow> 'i \<Rightarrow> u64 \<Rightarrow> 'i admission \<Rightarrow> 'i admission" where
  "attempt spurious i seen s =
     (case admit_iteration spurious (ad_limit s) seen (ad_active s) of
        (Admitted, shared) \<Rightarrow> s\<lparr>ad_active := shared, ad_attempts := (ad_attempts s)(i := None),
                               ad_permits := Suc (ad_permits s)\<rparr>
      | (Refused, shared) \<Rightarrow> s\<lparr>ad_active := shared, ad_attempts := (ad_attempts s)(i := None)\<rparr>
      | (Retry current, shared) \<Rightarrow> s\<lparr>ad_active := shared, ad_attempts := (ad_attempts s)(i \<mapsto> current)\<rparr>)"

inductive admission_run :: "u64 \<Rightarrow> 'i admission \<Rightarrow> bool" for limit where
  start: "admission_run limit (admission_new limit)"
| load: "\<lbrakk>admission_run limit s; ad_attempts s i = None\<rbrakk>
    \<Longrightarrow> admission_run limit (s\<lparr>ad_attempts := (ad_attempts s)(i \<mapsto> ad_active s)\<rparr>)"
| turn: "\<lbrakk>admission_run limit s; ad_attempts s i = Some seen\<rbrakk>
    \<Longrightarrow> admission_run limit (attempt spurious i seen s)"
| drop: "\<lbrakk>admission_run limit s; ad_permits s = Suc n\<rbrakk>
    \<Longrightarrow> admission_run limit (s\<lparr>ad_active := drop_permit (ad_active s), ad_permits := n\<rparr>)"

section \<open>Lemmas\<close>

lemma admit_iteration_cases:
  obtains (admitted) "seen < limit" "shared = seen" "admit_iteration spurious limit seen shared = (Admitted, shared + 1)"
  | (refused) "limit \<le> seen" "admit_iteration spurious limit seen shared = (Refused, shared)"
  | (retry) "admit_iteration spurious limit seen shared = (Retry shared, shared)"
proof (cases "seen < limit")
  case True
  then show ?thesis
    using that by (cases "shared = seen \<and> \<not> spurious") (auto simp: admit_iteration_def compare_exchange_weak_def)
next
  case False
  then have "limit \<le> seen" "admit_iteration spurious limit seen shared = (Refused, shared)"
    by (simp_all add: admit_iteration_def)
  then show ?thesis by (rule refused)
qed

lemma unat_below: "(a :: u64) < limit \<Longrightarrow> unat (a + 1) = Suc (unat a) \<and> Suc (unat a) \<le> unat limit"
proof -
  assume a: "a < limit"
  then have "unat a + 1 \<le> unat limit" by (simp add: word_less_nat_alt)
  moreover have "unat limit < 2 ^ 64" by (rule unat_u64_less)
  ultimately show ?thesis by (simp add: unat_word_ariths)
qed

text \<open>The invariant of the counter.\<close>

definition counts :: "u64 \<Rightarrow> 'i admission \<Rightarrow> bool" where
  "counts limit s \<longleftrightarrow>
     ad_limit s = limit \<and> unat (ad_active s) = ad_permits s \<and> ad_permits s \<le> unat limit"

lemma counts_attempt:
  assumes "counts limit s"
  shows "counts limit (attempt spurious i seen s)"
proof (cases rule: admit_iteration_cases [of seen "ad_limit s" "ad_active s" spurious])
  case admitted
  then show ?thesis using assms unat_below [of seen limit] by (simp add: counts_def attempt_def)
next
  case refused
  then show ?thesis using assms by (simp add: counts_def attempt_def)
next
  case retry
  then show ?thesis using assms by (simp add: counts_def attempt_def)
qed

lemma run_counts: "admission_run limit s \<Longrightarrow> counts limit s"
proof (induction rule: admission_run.induct)
  case start
  then show ?case by (simp add: counts_def admission_new_def)
next
  case (load s i)
  then show ?case by (simp add: counts_def)
next
  case (turn s i seen spurious)
  then show ?case by (blast intro: counts_attempt)
next
  case (drop s n)
  then have "ad_active s \<noteq> 0" by (auto simp: counts_def)
  then have "unat (ad_active s - 1) = n"
    using drop by (simp add: counts_def unat_minus_one)
  then show ?case using drop by (simp add: counts_def drop_permit_def)
qed

text \<open>Two turns on a quiet counter decide the loop, whatever was seen before.\<close>

lemma try_admit_decides:
  assumes "sched n = (False, v)" "sched (Suc n) = (False, v)"
  shows "try_admit_from sched limit n seen = Some (seen < limit \<and> v < limit)"
proof -
  have v: "try_admit_from sched limit (Suc n) v = Some (v < limit)"
    by (subst try_admit_from.simps) (simp add: assms admit_iteration_def compare_exchange_weak_def)
  show ?thesis
    by (subst try_admit_from.simps) (auto simp: assms admit_iteration_def compare_exchange_weak_def v)
qed

section \<open>Properties\<close>

text \<open>
  Connections are bounded: however the turns of the admission loops and the drops of permits
  interleave, and whichever swaps fail spuriously, the counter is the number of live permits and
  never exceeds the limit, so it neither wraps nor lets one connection more in.
\<close>

theorem admission_bounded:
  assumes "admission_run limit s"
  shows "unat (ad_active s) = ad_permits s \<and> ad_permits s \<le> unat limit"
  using run_counts [OF assms] by (simp add: counts_def)

text \<open>
  Two threads that both saw the last free place: one is admitted, the other has to look again and
  is refused.
\<close>

theorem admission_bounded_witness:
  "let s0 = admission_new 1 :: nat admission;
       s1 = s0\<lparr>ad_attempts := (ad_attempts s0)(0 \<mapsto> ad_active s0)\<rparr>;
       s2 = s1\<lparr>ad_attempts := (ad_attempts s1)(1 \<mapsto> ad_active s1)\<rparr>;
       s3 = attempt False 0 0 s2;
       s4 = attempt False 1 0 s3;
       s5 = attempt False 1 1 s4
   in ad_permits s5 = 1 \<and> unat (ad_active s5) = ad_permits s5 \<and> ad_permits s5 \<le> unat (1 :: u64)"
proof -
  define s0 where "s0 = (admission_new 1 :: nat admission)"
  define s1 where "s1 = s0\<lparr>ad_attempts := (ad_attempts s0)(0 \<mapsto> ad_active s0)\<rparr>"
  define s2 where "s2 = s1\<lparr>ad_attempts := (ad_attempts s1)(1 \<mapsto> ad_active s1)\<rparr>"
  define s3 where "s3 = attempt False 0 0 s2"
  define s4 where "s4 = attempt False 1 0 s3"
  define s5 where "s5 = attempt False 1 1 s4"
  note defs = s5_def s4_def s3_def s2_def s1_def s0_def
  have r2: "admission_run 1 s2"
    unfolding s2_def s1_def s0_def
    by (intro admission_run.load admission_run.start) (simp_all add: admission_new_def)
  have r3: "admission_run 1 s3"
    unfolding s3_def by (rule admission_run.turn [OF r2]) (simp add: s2_def s1_def s0_def admission_new_def)
  have a3: "s3 = \<lparr>ad_active = 1, ad_limit = 1, ad_attempts = [1 \<mapsto> 0], ad_permits = 1\<rparr>"
    by (auto simp: s3_def s2_def s1_def s0_def admission_new_def attempt_def admit_iteration_def
        compare_exchange_weak_def)
  have r4: "admission_run 1 s4"
    unfolding s4_def by (rule admission_run.turn [OF r3]) (simp add: a3)
  have a4: "s4 = \<lparr>ad_active = 1, ad_limit = 1, ad_attempts = [1 \<mapsto> 1], ad_permits = 1\<rparr>"
    by (auto simp: s4_def a3 attempt_def admit_iteration_def compare_exchange_weak_def)
  have "admission_run 1 s5"
    unfolding s5_def by (rule admission_run.turn [OF r4]) (simp add: a4)
  moreover have "ad_permits s5 = 1"
    by (simp add: s5_def a4 attempt_def admit_iteration_def)
  ultimately show ?thesis
    using admission_bounded [of 1 s5] unfolding Let_def defs by simp
qed

end
