(* ===== verification/AgentServer.thy ===== *)
theory AgentServer
  imports AgentHandler AgentSocket Admission MasterCache
begin

text \<open>
  The listener and the connections of the resident agent (\<open>run_agent\<close>'s loop,
  \<open>dispatch_agent_connection\<close>, \<open>reject_agent_connection\<close> and \<open>run_agent_connection\<close> in
  \<open>crates/avault-cli/src/main.rs\<close>). A connection is its schedule of reads and writes, as in the
  theory Frames; the environment adds what the kernel says of the peer, the JSON text of an answer,
  the readings of the clock for the deadlines, and what the workers have made of the cached master by
  the time the listener takes its lock.
\<close>

section \<open>Connections\<close>

record connection =
  cn_reads :: timed_reads
  cn_writes :: "bytes \<times> timed_writes"

record ('sc, 'pt) server_env = "('sc, 'pt) worker_env" +
  sv_json :: "agent_response \<Rightarrow> bytes option"
  sv_set_nonblocking :: "nat \<Rightarrow> io_kind + unit"
  sv_peer_uid :: "nat \<Rightarrow> u32 res"
  sv_euid :: u32
  sv_read_at :: "timed_reads \<Rightarrow> nat"
  sv_write_at :: "bytes \<times> timed_writes \<Rightarrow> nat"
  sv_cache_others :: "nat \<Rightarrow> cache_cell \<Rightarrow> cache_cell"
  sv_clone :: "nat \<Rightarrow> bool"
  sv_spawn :: "nat \<Rightarrow> io_kind + unit"

(* SRC cli write_agent_json_frame *)
definition write_agent_json_frame ::
    "('sc, 'pt, 'e) server_env_scheme \<Rightarrow> agent_response \<Rightarrow> connection \<Rightarrow> unit res \<times> connection" where
  "write_agent_json_frame E value c =
     (let (r, w) = then_st (with_context ''failed to encode agent frame'' (lib_res ''serde_json'' (sv_json E value)),
                            cn_writes c) (\<lambda>bytes w. write_agent_frame (sv_write_at E w) (sv_write_at E) bytes w)
      in (r, c\<lparr>cn_writes := w\<rparr>))"

(* SRC cli write_agent_error_frame *)
definition write_agent_error_frame ::
    "('sc, 'pt, 'e) server_env_scheme \<Rightarrow> err \<Rightarrow> connection \<Rightarrow> unit res \<times> connection" where
  "write_agent_error_frame E e c = write_agent_json_frame E (agent_error_response e) c"

text \<open>The next frame of a connection; every turn of the loop takes bytes from the schedule.\<close>

definition next_frame :: "('sc, 'pt, 'e) server_env_scheme \<Rightarrow> connection \<Rightarrow> bytes option res \<times> connection" where
  "next_frame E c = (let (r, reads) = read_agent_frame (sv_read_at E (cn_reads c)) (sv_read_at E) (cn_reads c)
     in (r, c\<lparr>cn_reads := reads\<rparr>))"

definition reads_left :: "timed_reads \<Rightarrow> nat" where
  "reads_left evs = sum_list (map (\<lambda>(_, ev). case ev of Data bs \<Rightarrow> Suc (length bs) | Fault _ \<Rightarrow> 1) evs)"

lemma reads_left_simps [simp]:
  "reads_left [] = 0" "reads_left ((t, Data bs) # evs) = Suc (length bs + reads_left evs)"
  "reads_left ((t, Fault k) # evs) = Suc (reads_left evs)"
  by (simp_all add: reads_left_def)

lemma read_exact_until_left:
  "read_exact_until d need acc evs = (r, evs') \<Longrightarrow>
     reads_left evs' \<le> reads_left evs \<and>
     (case r of Inl _ \<Rightarrow> True
      | Inr bs \<Rightarrow> acc @ arriving evs = bs @ arriving evs' \<and> (0 < need \<longrightarrow> reads_left evs' < reads_left evs))"
proof (induction d need acc evs rule: read_exact_until.induct)
  case (1 d need acc)
  then show ?case by (auto split: if_splits)
next
  case (2 d need acc t ev evs)
  show ?case
  proof (cases "need = 0")
    case False
    show ?thesis
    proof (cases ev)
      case (Data bs)
      show ?thesis
      proof (cases "bs \<noteq> [] \<and> length bs \<le> need")
        case True
        then have "read_exact_until d (need - length bs) (acc @ bs) evs = (r, evs')"
          using 2(3) False Data by simp
        from 2(1) [OF False Data _ _ this] True show ?thesis using Data by (auto split: sum.splits)
      next
        case False
        then show ?thesis using 2(3) \<open>need \<noteq> 0\<close> Data by (auto split: if_splits)
      qed
    next
      case (Fault k)
      show ?thesis
      proof (cases "is_poll k \<and> \<not> d \<le> t")
        case True
        then have "read_exact_until d need acc evs = (r, evs')" using 2(3) False Fault by simp
        from 2(2) [OF False Fault _ _ this] True show ?thesis using Fault by (auto split: sum.splits)
      next
        case False
        then show ?thesis using 2(3) \<open>need \<noteq> 0\<close> Fault by (auto split: if_splits)
      qed
    qed
  qed (use 2 in auto)
qed

lemma read_agent_frame_takes:
  assumes "read_agent_frame now clock evs = (Inr (Some f), evs')"
  shows "reads_left evs' < reads_left evs \<and> arriving evs = be32 (length f) @ f @ arriving evs' \<and>
    0 < length f \<and> length f \<le> MAX_AGENT_FRAME_BYTES"
proof -
  obtain r evs1 where 1: "read_exact_agent now 4 evs = (r, evs1)" by (cases "read_exact_agent now 4 evs")
  with assms obtain buf where buf: "r = Inr buf"
    by (cases r) (auto simp: read_agent_frame_def split: io_kind.splits)
  have 2: "read_exact_agent (clock evs1) (be_value buf) evs1 = (Inr f, evs')" and pos: "be_value buf \<noteq> 0"
    using assms 1 buf by (auto simp: read_agent_frame_def Let_def res_simps split: if_splits)
  note t1 = read_exact_until_left [OF 1 [unfolded read_exact_agent_def]]
    and t2 = read_exact_until_left [OF 2 [unfolded read_exact_agent_def]]
    and l1 = read_exact_until_length [OF 1 [unfolded read_exact_agent_def buf]]
    and l2 = read_exact_until_length [OF 2 [unfolded read_exact_agent_def]]
  have "be32 (length f) = buf" using l1 l2 be_bytes_be_value [of buf] by simp
  then show ?thesis using t1 t2 buf pos read_agent_frame_Some [OF assms] by auto
qed

lemma next_frame_takes:
  "next_frame E c = (Inr (Some f), c') \<Longrightarrow> reads_left (cn_reads c') < reads_left (cn_reads c)"
  by (auto simp: next_frame_def Let_def split: prod.splits dest: read_agent_frame_takes)

lemma write_json_reads: "cn_reads (snd (write_agent_json_frame E v c)) = cn_reads c"
  by (simp add: write_agent_json_frame_def Let_def case_prod_unfold)

(* SRC cli 2746-2757 run_agent_connection *)
function serve_frames ::
    "('sc, 'pt, 'e) server_env_scheme \<Rightarrow> connection \<Rightarrow> agent_sys \<Rightarrow> unit res \<times> connection \<times> agent_sys" where
  "serve_frames E c g = (case next_frame E c of
       (Inl e, c) \<Rightarrow> (Inl e, snd (write_agent_error_frame E e c), g)
     | (Inr None, c) \<Rightarrow> (Inr (), c, g)
     | (Inr (Some frame), c) \<Rightarrow>
         let (response, g) = handle_agent_frame E frame g
         in case write_agent_json_frame E response c of
              (Inl e, c) \<Rightarrow> (Inl e, c, g)
            | (Inr _, c) \<Rightarrow> serve_frames E c g)"
  by pat_completeness auto
termination
proof (relation "measure (\<lambda>(E, c, g). reads_left (cn_reads c))")
  fix E :: "('sc, 'pt, 'e) server_env_scheme" and c g x y b f xa xb ya xc yb u
  assume n: "(x, y) = next_frame E c" "x = Inr b" "b = Some f"
    and w: "(xc, yb) = write_agent_json_frame E xb y"
  have "reads_left (cn_reads y) < reads_left (cn_reads c)" using n next_frame_takes by metis
  moreover have "cn_reads yb = cn_reads y" using w write_json_reads by (metis snd_conv)
  ultimately show "((E, yb, ya), E, c, g) \<in> measure (\<lambda>(E, c, g). reads_left (cn_reads c))" by simp
qed simp

declare serve_frames.simps [simp del]

(* SRC cli run_agent_connection *)
definition run_agent_connection ::
    "('sc, 'pt, 'e) server_env_scheme \<Rightarrow> connection \<Rightarrow> agent_sys \<Rightarrow> unit res \<times> connection \<times> agent_sys" where
  "run_agent_connection E c g =
     (case sv_set_nonblocking E (ag_calls g) of
        Inl k \<Rightarrow> (Inl [Msg ''failed to configure agent connection'', Io k], c, step g)
      | Inr _ \<Rightarrow>
          (let g = step g
           in case authorize_same_uid_peer (sv_peer_uid E (ag_calls g)) (sv_euid E) of
                Inl e \<Rightarrow> (Inl e, snd (write_agent_error_frame E e c), step g)
              | Inr _ \<Rightarrow> serve_frames E c (step g)))"

section \<open>The listener\<close>

text \<open>A single write takes what the socket accepts at once.\<close>

fun write_once :: "bytes \<Rightarrow> bytes \<times> timed_writes \<Rightarrow> bytes \<times> timed_writes" where
  "write_once bs (out, (t, Accept n) # evs) = (out @ take n bs, evs)"
| "write_once bs (out, (t, WFault k) # evs) = (out, evs)"
| "write_once bs (out, []) = (out, [])"

(* SRC cli reject_agent_connection *)
definition reject_agent_connection ::
    "('sc, 'pt, 'e) server_env_scheme \<Rightarrow> string \<Rightarrow> connection \<Rightarrow> agent_sys \<Rightarrow> connection \<times> agent_sys" where
  "reject_agent_connection E message c g =
     (case sv_json E \<lparr>ar_ok = False, ar_result = None, ar_error = Some message, ar_code = None\<rparr> of
        None \<Rightarrow> (c, g)
      | Some body \<Rightarrow>
          if \<not> length body < 2 ^ 32 then (c, g)
          else case sv_set_nonblocking E (ag_calls g) of
                 Inl _ \<Rightarrow> (c, step g)
               | Inr _ \<Rightarrow> (c\<lparr>cn_writes := write_once (be32 (length body) @ body) (cn_writes c)\<rparr>, step g))"

text \<open>
  What became of a connection. A worker that was started runs \<open>run_agent_connection\<close> and holds its
  permit until it returns; in the other two cases no permit is held.
\<close>

datatype dispatch_outcome = Busy | NotStarted | Started

(* SRC cli dispatch_agent_connection *)
definition dispatch_agent_connection ::
    "('sc, 'pt, 'e) server_env_scheme \<Rightarrow> bool \<Rightarrow> connection \<Rightarrow> agent_sys
     \<Rightarrow> dispatch_outcome \<times> connection \<times> agent_sys" where
  "dispatch_agent_connection E admitted c g =
     (if \<not> admitted then (Busy, reject_agent_connection E ''agent is busy; retry later'' c g)
      else let cloned = sv_clone E (ag_calls g); g = step g
           in case sv_spawn E (ag_calls g) of
                Inr _ \<Rightarrow> (Started, c, step g)
              | Inl _ \<Rightarrow>
                  (NotStarted,
                   if cloned
                   then reject_agent_connection E ''agent could not start a worker; retry later'' c (step g)
                   else (c, step g)))"

text \<open>
  Maintenance purges the table of grants and then the cached master, each under its own lock; the
  clock of the cache is the one of the table.
\<close>

(* SRC cli AgentShared::purge *)
definition agent_purge ::
    "('sc, 'pt, 'e) server_env_scheme \<Rightarrow> cache_cell \<Rightarrow> agent_sys \<Rightarrow> unit res \<times> cache_cell \<times> agent_sys" where
  "agent_purge E cell g =
     (case then_st (lock_state E g) (\<lambda>_ g.
              let (now, g) = instant_now E g in (Inr (), g\<lparr>ag_state := purge now (ag_state g)\<rparr>)) of
        (Inl e, g) \<Rightarrow> (Inl e, cell, g)
      | (Inr _, g) \<Rightarrow>
          let (r, cell) = purge_cell (as_idle_timeout (ag_state g)) (\<lambda>_. ae_clock E (ag_calls g))
                            (sv_cache_others E (ag_calls g) cell)
          in (r, cell, step g))"

datatype accepted = Stream connection | NoConnection | AcceptFailed io_kind

text \<open>
  A turn of the loop of the listener, for what \<open>accept\<close> and \<open>try_admit\<close> return in it; the state has a
  list of what became of the connections, the cached master and the rest. The loop has no way out but
  a failing purge, so it is a partial function; \<open>listen_turns\<close> is its first turns.
\<close>

type_synonym listen_state = "(dispatch_outcome \<times> connection) list \<times> cache_cell \<times> agent_sys"

(* SRC cli 2657-2670 run_agent *)
definition listen_turn ::
    "('sc, 'pt, 'e) server_env_scheme \<Rightarrow> accepted \<times> bool \<Rightarrow> listen_state \<Rightarrow> unit res \<times> listen_state" where
  "listen_turn E event s = (case s of (seen, cell, g) \<Rightarrow> case agent_purge E cell g of
       (Inl e, cell, g) \<Rightarrow> (Inl e, seen, cell, g)
     | (Inr _, cell, g) \<Rightarrow> (case event of
           (Stream c, admitted) \<Rightarrow>
             (case dispatch_agent_connection E admitted c g of
                (outcome, c, g) \<Rightarrow> (Inr (), seen @ [(outcome, c)], cell, g))
         | _ \<Rightarrow> (Inr (), seen, cell, g)))"

(* SRC cli 2656-2671 run_agent *)
partial_function (option) listen ::
    "('sc, 'pt, 'e) server_env_scheme \<Rightarrow> (nat \<Rightarrow> accepted \<times> bool) \<Rightarrow> nat \<Rightarrow> listen_state
     \<Rightarrow> (err \<times> listen_state) option" where
  "listen E sched n s = (case listen_turn E (sched n) s of
       (Inl e, s) \<Rightarrow> Some (e, s)
     | (Inr _, s) \<Rightarrow> listen E sched (Suc n) s)"

primrec listen_turns ::
    "nat \<Rightarrow> ('sc, 'pt, 'e) server_env_scheme \<Rightarrow> (nat \<Rightarrow> accepted \<times> bool) \<Rightarrow> nat \<Rightarrow> listen_state
     \<Rightarrow> unit res \<times> listen_state" where
  "listen_turns 0 E sched n s = (Inr (), s)"
| "listen_turns (Suc k) E sched n s = (case listen_turn E (sched n) s of
       (Inl e, s) \<Rightarrow> (Inl e, s)
     | (Inr _, s) \<Rightarrow> listen_turns k E sched (Suc n) s)"

section \<open>Workers and permits\<close>

text \<open>
  The listener admits, starts or fails to start a worker; workers end at any time. \<open>li_holding\<close> is
  the permit in the hand of the listener between the two. A turn of the admission loop may work
  from any reading of the counter.
\<close>

record listener =
  li_active :: u64
  li_holding :: bool
  li_workers :: nat

inductive listener_run :: "('sc, 'pt, 'e) server_env_scheme \<Rightarrow> u64 \<Rightarrow> listener \<Rightarrow> bool" for E limit where
  start: "listener_run E limit \<lparr>li_active = 0, li_holding = False, li_workers = 0\<rparr>"
| admit: "\<lbrakk>listener_run E limit s; \<not> li_holding s;
      admit_iteration spurious limit seen (li_active s) = (Admitted, active)\<rbrakk>
    \<Longrightarrow> listener_run E limit (s\<lparr>li_active := active, li_holding := True\<rparr>)"
| started: "\<lbrakk>listener_run E limit s; li_holding s;
      fst (dispatch_agent_connection E True c g) = Started\<rbrakk>
    \<Longrightarrow> listener_run E limit (s\<lparr>li_holding := False, li_workers := Suc (li_workers s)\<rparr>)"
| not_started: "\<lbrakk>listener_run E limit s; li_holding s;
      fst (dispatch_agent_connection E True c g) = NotStarted\<rbrakk>
    \<Longrightarrow> listener_run E limit (s\<lparr>li_holding := False, li_active := drop_permit (li_active s)\<rparr>)"
| ended: "\<lbrakk>listener_run E limit s; li_workers s = Suc n\<rbrakk>
    \<Longrightarrow> listener_run E limit (s\<lparr>li_workers := n, li_active := drop_permit (li_active s)\<rparr>)"

section \<open>What a connection does\<close>

text \<open>The reference: the frames are handled one after the other.\<close>

primrec answers ::
    "('sc, 'pt, 'e) server_env_scheme \<Rightarrow> bytes list \<Rightarrow> agent_sys \<Rightarrow> agent_response list \<times> agent_sys" where
  "answers E [] g = ([], g)"
| "answers E (frame # frames) g =
     (let (response, g) = handle_agent_frame E frame g; (responses, g) = answers E frames g
      in (response # responses, g))"

definition frame_ok :: "bytes \<Rightarrow> bool" where
  "frame_ok frame \<longleftrightarrow> 0 < length frame \<and> length frame \<le> MAX_AGENT_FRAME_BYTES"

lemma write_json_out:
  assumes "write_agent_json_frame E v c = (Inr (), c')"
  shows "\<exists>body. sv_json E v = Some body \<and> cn_reads c' = cn_reads c \<and>
    fst (cn_writes c') = fst (cn_writes c) @ field_frame body"
proof -
  obtain w where w: "then_st (with_context ''failed to encode agent frame'' (lib_res ''serde_json'' (sv_json E v)),
      cn_writes c) (\<lambda>bytes w. write_agent_frame (sv_write_at E w) (sv_write_at E) bytes w) = (Inr (), w)"
      and c': "c' = c\<lparr>cn_writes := w\<rparr>"
    using assms by (auto simp: write_agent_json_frame_def Let_def split: prod.splits)
  obtain body where body: "sv_json E v = Some body"
      and wr: "write_agent_frame (sv_write_at E (cn_writes c)) (sv_write_at E) body (cn_writes c) = (Inr (), w)"
    using w by (auto simp: then_st_eq_Inr res_simps)
  obtain out evs out' evs' where "cn_writes c = (out, evs)" "w = (out', evs')" by (metis surj_pair)
  then show ?thesis using write_agent_frame_out [of _ _ body out evs out' evs'] wr body c'
    by (auto simp: field_frame_def)
qed

definition responses_sent :: "('sc, 'pt, 'e) server_env_scheme \<Rightarrow> agent_response list \<Rightarrow> bytes \<Rightarrow> bool" where
  "responses_sent E responses out \<longleftrightarrow>
     (\<exists>bodies. map (sv_json E) responses = map Some bodies \<and> out = concat (map field_frame bodies))"

lemma responses_sent_Nil: "responses_sent E [] []"
  by (simp add: responses_sent_def)

lemma responses_sent_Cons:
  "\<lbrakk>sv_json E r = Some body; responses_sent E rs out\<rbrakk> \<Longrightarrow> responses_sent E (r # rs) (field_frame body @ out)"
  unfolding responses_sent_def by (elim exE) (rule exI [of _ "body # _"], simp)

lemma next_frame_Some:
  assumes "next_frame E c = (Inr (Some f), c')"
  shows "arriving (cn_reads c) = field_frame f @ arriving (cn_reads c') \<and> frame_ok f \<and> cn_writes c' = cn_writes c"
  using assms read_agent_frame_takes
  by (auto simp: next_frame_def Let_def field_frame_def frame_ok_def split: prod.splits)

lemma serve_frames_answers:
  assumes "serve_frames E c g = (r, c', g')"
  shows "\<exists>frames rest responses. arriving (cn_reads c) = concat (map field_frame frames) @ rest \<and>
    list_all frame_ok frames \<and> answers E frames g = (responses, g') \<and>
    (r = Inr () \<longrightarrow> (\<exists>out. responses_sent E responses out \<and> fst (cn_writes c') = fst (cn_writes c) @ out))"
  using assms
proof (induction E c g arbitrary: r c' g' rule: serve_frames.induct)
  case (1 E c g)
  obtain n c1 where n: "next_frame E c = (n, c1)" by (cases "next_frame E c")
  have none: ?case if "answers E [] g = ([], g')" "r = Inr () \<longrightarrow> cn_writes c' = cn_writes c"
    using that responses_sent_Nil [of E] by (intro exI [of _ "[]"] exI [of _ "arriving (cn_reads c)"]) auto
  show ?case
  proof (cases n)
    case (Inl e)
    then have "r = Inl e" "g' = g" using "1.prems" n by (simp_all add: serve_frames.simps [of E c])
    then show ?thesis by (intro none) simp_all
  next
    case (Inr fo)
    show ?thesis
    proof (cases fo)
      case None
      then have "r = Inr ()" "g' = g" "c' = c1" using "1.prems" n Inr by (simp_all add: serve_frames.simps [of E c])
      moreover have "cn_writes c1 = cn_writes c"
        using n by (auto simp: next_frame_def Let_def split: prod.splits)
      ultimately show ?thesis by (intro none) simp_all
    next
      case (Some f)
      note f = next_frame_Some [OF n [unfolded Inr Some]]
      obtain response g1 where h: "handle_agent_frame E f g = (response, g1)" by (metis surj_pair)
      obtain w c2 where w: "write_agent_json_frame E response c1 = (w, c2)" by (metis surj_pair)
      show ?thesis
      proof (cases w)
        case (Inl e)
        then have "r = Inl e" "g' = g1" using "1.prems" n Inr Some h w by (simp_all add: serve_frames.simps [of E c])
        then show ?thesis using f h
          by (intro exI [of _ "[f]"] exI [of _ "arriving (cn_reads c1)"] exI [of _ "[response]"]) simp
      next
        case w': (Inr u)
        obtain body where body: "sv_json E response = Some body" "cn_reads c2 = cn_reads c1"
            "fst (cn_writes c2) = fst (cn_writes c1) @ field_frame body"
          using write_json_out [of E response c1 c2] w w' by auto
        have rec: "serve_frames E c2 g1 = (r, c', g')"
          using "1.prems" n Inr Some h w w' by (simp add: serve_frames.simps [of E c])
        obtain frames rest responses where IH: "arriving (cn_reads c2) = concat (map field_frame frames) @ rest"
            "list_all frame_ok frames" "answers E frames g1 = (responses, g')"
            "r = Inr () \<longrightarrow> (\<exists>out. responses_sent E responses out \<and> fst (cn_writes c') = fst (cn_writes c2) @ out)"
          using "1.IH" [OF n [symmetric] Inr Some refl h [symmetric] w [symmetric] w' rec] by blast
        show ?thesis
          using IH f h body responses_sent_Cons [OF body(1), of responses]
          by (intro exI [of _ "f # frames"] exI [of _ rest] exI [of _ "response # responses"]) auto
      qed
    qed
  qed
qed

lemma next_frame_timely:
  assumes "timely (frame_deadline 0) (cn_reads c)"
  shows "arriving (cn_reads c) = field_frame f @ rest \<Longrightarrow> frame_ok f \<Longrightarrow>
      \<exists>c'. next_frame E c = (Inr (Some f), c') \<and> arriving (cn_reads c') = rest \<and>
        timely (frame_deadline 0) (cn_reads c') \<and> cn_writes c' = cn_writes c"
    and "arriving (cn_reads c) = [] \<Longrightarrow> \<exists>c'. next_frame E c = (Inr None, c') \<and> cn_writes c' = cn_writes c"
proof -
  let ?read = "read_agent_frame (sv_read_at E (cn_reads c)) (sv_read_at E) (cn_reads c)"
  have d: "frame_deadline 0 \<le> frame_deadline t" for t by (simp add: frame_deadline_def)
  assume "arriving (cn_reads c) = field_frame f @ rest" "frame_ok f"
  then have "\<exists>evs'. ?read = (Inr (Some f), evs') \<and> arriving evs' = rest \<and> timely (frame_deadline 0) evs'"
    by (intro read_frame_timely [OF assms _ _ _ d d]) (simp_all add: field_frame_def frame_ok_def)
  then show "\<exists>c'. next_frame E c = (Inr (Some f), c') \<and> arriving (cn_reads c') = rest \<and>
        timely (frame_deadline 0) (cn_reads c') \<and> cn_writes c' = cn_writes c"
    by (auto simp: next_frame_def)
next
  assume "arriving (cn_reads c) = []"
  then show "\<exists>c'. next_frame E c = (Inr None, c') \<and> cn_writes c' = cn_writes c"
    using read_frame_end [OF assms, of "sv_read_at E (cn_reads c)" "sv_read_at E"]
    by (auto simp: next_frame_def frame_deadline_def)
qed

lemma serve_frames_all:
  assumes "timely (frame_deadline 0) (cn_reads c)" "arriving (cn_reads c) = concat (map field_frame frames)"
    and "list_all frame_ok frames" "serve_frames E c g = (r, c', g')"
  shows "(\<exists>responses out. r = Inr () \<and> answers E frames g = (responses, g') \<and>
      responses_sent E responses out \<and> fst (cn_writes c') = fst (cn_writes c) @ out) \<or>
    (\<exists>e v c1. r = Inl e \<and> write_agent_json_frame E v c1 = (Inl e, c'))"
  using assms
proof (induction frames arbitrary: c g)
  case Nil
  then obtain c1 where n: "next_frame E c = (Inr None, c1)" "cn_writes c1 = cn_writes c"
    using next_frame_timely(2) [OF Nil.prems(1), of E] by auto
  then have "r = Inr () \<and> c' = c1 \<and> g' = g" using Nil.prems by (simp add: serve_frames.simps [of E c])
  then show ?case using n responses_sent_Nil [of E] by auto
next
  case (Cons f frames)
  obtain c1 where n: "next_frame E c = (Inr (Some f), c1)" "arriving (cn_reads c1) = concat (map field_frame frames)"
      "timely (frame_deadline 0) (cn_reads c1)" "cn_writes c1 = cn_writes c"
    using next_frame_timely(1) [OF Cons.prems(1), of f _ E] Cons.prems(2,3) by fastforce
  obtain response g1 where h: "handle_agent_frame E f g = (response, g1)" by (metis surj_pair)
  obtain w c2 where w: "write_agent_json_frame E response c1 = (w, c2)" by (metis surj_pair)
  show ?case
  proof (cases w)
    case (Inl e)
    then have "r = Inl e \<and> c' = c2" using Cons.prems(4) n(1) h w by (simp add: serve_frames.simps [of E c])
    then show ?thesis using w Inl by blast
  next
    case (Inr u)
    obtain body where body: "sv_json E response = Some body" "cn_reads c2 = cn_reads c1"
        "fst (cn_writes c2) = fst (cn_writes c1) @ field_frame body"
      using write_json_out [of E response c1 c2] w Inr by auto
    have "serve_frames E c2 g1 = (r, c', g')"
      using Cons.prems(4) n(1) h w Inr by (simp add: serve_frames.simps [of E c])
    from Cons.IH [OF _ _ _ this] show ?thesis
      using n body h responses_sent_Cons [OF body(1)] Cons.prems(3) by (auto 4 4)
  qed
qed

lemma unauthorized_peer:
  assumes "run_agent_connection E c g = (r, c', g')"
  obtains (refused) "\<not> is_ok r" "cn_reads c' = cn_reads c" "g' = step g \<or> g' = step (step g)"
  | (served) n where "sv_peer_uid E n = Inr (sv_euid E)" "serve_frames E c (step (step g)) = (r, c', g')"
proof (cases "sv_set_nonblocking E (ag_calls g)")
  case (Inl k)
  then show ?thesis using assms by (intro refused) (auto simp: run_agent_connection_def)
next
  case ok: (Inr u)
  show ?thesis
  proof (cases "authorize_same_uid_peer (sv_peer_uid E (ag_calls (step g))) (sv_euid E)")
    case (Inl e)
    then show ?thesis using assms ok
      by (intro refused)
         (auto simp: run_agent_connection_def Let_def write_agent_error_frame_def write_json_reads is_ok_def
           split: sum.splits)
  next
    case (Inr v)
    then have "sv_peer_uid E (ag_calls (step g)) = Inr (sv_euid E)"
      by (simp add: authorize_same_uid_peer_iff)
    then show ?thesis using assms ok Inr by (intro served) (auto simp: run_agent_connection_def Let_def)
  qed
qed

text \<open>The ways a purge can fail: one of the two locks is found poisoned.\<close>

definition poisoned_lock :: "('sc, 'pt, 'e) server_env_scheme \<Rightarrow> err \<Rightarrow> bool" where
  "poisoned_lock E e \<longleftrightarrow>
     e = [Msg ''agent state lock is poisoned''] \<and> (\<exists>m. ae_poisoned E m) \<or>
     e = [Msg ''agent master cache lock is poisoned''] \<and> (\<exists>m cell. ce_poisoned (sv_cache_others E m cell))"

lemma agent_purge_Inl: "agent_purge E cell g = (Inl e, r) \<Longrightarrow> poisoned_lock E e"
  by (auto simp: agent_purge_def lock_state_def poisoned_lock_def bail_def instant_now_def purge_cell_def
      lock_cached_def Let_def split: if_splits)

text \<open>What the listener owes a stream: it reads nothing from it, and starts it only with a permit.\<close>

definition dispatched :: "connection \<times> bool \<Rightarrow> dispatch_outcome \<times> connection \<Rightarrow> bool" where
  "dispatched = (\<lambda>(c, admitted) (outcome, c'). cn_reads c' = cn_reads c \<and>
     (if admitted then outcome = NotStarted \<or> outcome = Started \<and> c' = c else outcome = Busy))"

primrec streams :: "nat \<Rightarrow> (nat \<Rightarrow> accepted \<times> bool) \<Rightarrow> nat \<Rightarrow> (connection \<times> bool) list" where
  "streams 0 sched n = []"
| "streams (Suc k) sched n =
     (case sched n of (Stream c, admitted) \<Rightarrow> [(c, admitted)] | _ \<Rightarrow> []) @ streams k sched (Suc n)"

lemma reject_reads: "cn_reads (fst (reject_agent_connection E m c g)) = cn_reads c"
  by (simp add: reject_agent_connection_def split: option.split sum.split)

lemma dispatch_dispatched:
  "dispatch_agent_connection E admitted c g = (outcome, c', g') \<Longrightarrow> dispatched (c, admitted) (outcome, c')"
  by (auto simp: dispatch_agent_connection_def dispatched_def Let_def split: if_splits sum.splits)
     (metis fst_conv reject_reads)+

lemma listen_turn_Inl: "listen_turn E event s = (Inl e, s') \<Longrightarrow> poisoned_lock E e"
  by (auto simp: listen_turn_def split: prod.splits sum.splits accepted.splits dest: agent_purge_Inl)

lemma listen_turn_Inr:
  "listen_turn E event s = (Inr u, s') \<Longrightarrow>
     \<exists>new. fst s' = fst s @ new \<and>
       list_all2 dispatched (case event of (Stream c, admitted) \<Rightarrow> [(c, admitted)] | _ \<Rightarrow> []) new"
  by (auto simp: listen_turn_def split: prod.splits sum.splits accepted.splits dest: dispatch_dispatched)

lemma listen_turns_Inl: "listen_turns k E sched n s = (Inl e, s') \<Longrightarrow> listen E sched n s = Some (e, s')"
proof (induction k arbitrary: n s)
  case (Suc k)
  then show ?case by (subst listen.simps) (auto split: prod.splits sum.splits)
qed simp

lemma listen_turns_Inr:
  "listen_turns k E sched n s = (Inr u, s') \<Longrightarrow>
     \<exists>new. fst s' = fst s @ new \<and> list_all2 dispatched (streams k sched n) new"
proof (induction k arbitrary: n s)
  case (Suc k)
  obtain s1 where 1: "listen_turn E (sched n) s = (Inr (), s1)" and 2: "listen_turns k E sched (Suc n) s1 = (Inr u, s')"
    using Suc.prems by (auto split: prod.splits sum.splits)
  obtain new1 new2 where "fst s1 = fst s @ new1" "list_all2 dispatched (case sched n of (Stream c, admitted) \<Rightarrow> [(c, admitted)] | _ \<Rightarrow> []) new1"
      "fst s' = fst s1 @ new2" "list_all2 dispatched (streams k sched (Suc n)) new2"
    using listen_turn_Inr [OF 1] Suc.IH [OF 2] by blast
  then show ?case by (auto simp only: streams.simps append_assoc intro!: exI [of _ "new1 @ new2"] list_all2_appendI)
qed simp

lemma listen_result: "listen E sched n s = Some y \<Longrightarrow> poisoned_lock E (fst y)"
  by (rule listen.raw_induct [where P = "\<lambda>E sched n s y. poisoned_lock E (fst y)"])
     (auto split: sum.splits prod.splits dest: listen_turn_Inl)

text \<open>The invariant of the permits.\<close>

definition permits_held :: "listener \<Rightarrow> nat" where
  "permits_held s = li_workers s + (if li_holding s then 1 else 0)"

lemma unat_drop_permit: "unat a = Suc n \<Longrightarrow> unat (drop_permit a) = n"
  by (simp add: drop_permit_def) (metis Suc_eq_plus1 add_diff_cancel_right' nat.simps(3) unat_0 unat_minus_one)

lemma listener_permits:
  "listener_run E limit s \<Longrightarrow> unat (li_active s) = permits_held s \<and> permits_held s \<le> unat limit"
proof (induction rule: listener_run.induct)
  case (admit s spurious seen active)
  then show ?case
  proof (cases rule: admit_iteration_cases [of seen limit "li_active s" spurious])
    case admitted
    then show ?thesis using admit unat_below [of "li_active s" limit] by (auto simp: permits_held_def)
  qed auto
qed (auto simp: permits_held_def intro!: unat_drop_permit)

section \<open>A sample\<close>

definition sample_server :: "(z3, z3) server_env" where
  "sample_server = agent_env.extend sample_agent_env
     \<lparr>we_parse = (\<lambda>b. if b = [1] then Some ReqPubkey else None), we_current_exe = (\<lambda>_. Inr ()),
      we_spawn = (\<lambda>_ _. Inr ()), we_stdin = (\<lambda>_. True), we_pipe = (\<lambda>_. append_writer),
      we_wait = (\<lambda>_ _. Inr \<lparr>xs_signal = None, xs_code = Some 0\<rparr>),
      sv_json = (\<lambda>r. Some (if ar_ok r then [2] else [3, 3])), sv_set_nonblocking = (\<lambda>_. Inr ()),
      sv_peer_uid = (\<lambda>_. Inr 1000), sv_euid = 1000, sv_read_at = (\<lambda>_. 0), sv_write_at = (\<lambda>_. 0),
      sv_cache_others = (\<lambda>_ cell. cell), sv_clone = (\<lambda>_. True), sv_spawn = (\<lambda>_. Inr ())\<rparr>"

lemma sample_server_simps:
  "we_parse sample_server = (\<lambda>b. if b = [1] then Some ReqPubkey else None)"
  "sv_json sample_server = (\<lambda>r. Some (if ar_ok r then [2] else [3, 3]))"
  "sv_set_nonblocking sample_server = (\<lambda>_. Inr ())" "sv_peer_uid sample_server = (\<lambda>_. Inr 1000)"
  "sv_euid sample_server = 1000" "sv_read_at sample_server = (\<lambda>_. 0)" "sv_write_at sample_server = (\<lambda>_. 0)"
  "sv_clone sample_server = (\<lambda>_. True)" "sv_spawn sample_server = (\<lambda>_. Inr ())"
  by (simp_all add: sample_server_def agent_env.extend_def)

definition sample_connection :: connection where
  "sample_connection = \<lparr>cn_reads = [(1, Data (field_frame [1]))],
     cn_writes = ([], [(0, Accept 4), (0, Accept 1)])\<rparr>"

lemma be32_1: "be32 (Suc 0) = [0, 0, 0, 1]"
proof -
  have four: "(4 :: nat) = Suc (Suc (Suc (Suc 0)))" by simp
  show ?thesis unfolding four be_bytes.simps by simp
qed

lemma field_frame_1: "field_frame [b] = [0, 0, 0, 1, b]"
  by (simp add: field_frame_def be32_1)

section \<open>Properties\<close>

text \<open>
  C22. The agent works only for its user: whatever a client sends and however it ends, the requests
  that are handled are whole frames of at most 2 MiB, the ones that arrived first, each handled
  once and in order, and none at all unless the kernel reports the peer as a process of the same
  user; where the connection ends without an error, each of them was answered with one frame.
\<close>

theorem agent_serves_its_user:
  "case run_agent_connection E c g of (r, c', g') \<Rightarrow>
     \<exists>frames rest responses g1. ag_state g1 = ag_state g \<and> ag_fs g1 = ag_fs g \<and> ag_children g1 = ag_children g \<and>
       arriving (cn_reads c) = concat (map field_frame frames) @ rest \<and> list_all frame_ok frames \<and>
       answers E frames g1 = (responses, g') \<and>
       (frames = [] \<or> (\<exists>n. sv_peer_uid E n = Inr (sv_euid E))) \<and>
       (if is_ok r
        then \<exists>out. responses_sent E responses out \<and> fst (cn_writes c') = fst (cn_writes c) @ out else True)"
proof -
  obtain r c' g' where run: "run_agent_connection E c g = (r, c', g')" by (metis surj_pair)
  have steps: "ag_state (step h) = ag_state h" "ag_fs (step h) = ag_fs h" "ag_children (step h) = ag_children h"
    for h by (simp_all add: step_def)
  show ?thesis
    using run
  proof (cases rule: unauthorized_peer)
    case refused
    then show ?thesis unfolding run prod.case
      by (intro exI [of _ "[]"] exI [of _ "arriving (cn_reads c)"] exI [of _ g']) (auto simp: steps)
  next
    case (served n)
    obtain frames rest responses where "arriving (cn_reads c) = concat (map field_frame frames) @ rest"
        "list_all frame_ok frames" "answers E frames (step (step g)) = (responses, g')"
        "r = Inr () \<longrightarrow> (\<exists>out. responses_sent E responses out \<and> fst (cn_writes c') = fst (cn_writes c) @ out)"
      using serve_frames_answers [OF served(2)] by blast
    then show ?thesis unfolding run prod.case
      using served(1)
      by (intro exI [of _ frames] exI [of _ rest] exI [of _ responses] exI [of _ "step (step g)"])
         (auto simp: steps is_ok_def split: sum.splits)
  qed
qed

text \<open>
  C23. A client that is the agent's user and sends its requests in time is served completely: if
  whole frames arrive, cut into chunks anyhow and with no poll past the first deadline, then
  every one of them is handled, in order, and answered, and the connection ends well when the
  client closes it; the only other end is that an answer could not be written.
\<close>

theorem connection_served:
  assumes "timely (frame_deadline 0) (cn_reads c)" "arriving (cn_reads c) = concat (map field_frame frames)"
    and "list_all frame_ok frames"
    and "sv_set_nonblocking E (ag_calls g) = Inr ()" "sv_peer_uid E (Suc (ag_calls g)) = Inr (sv_euid E)"
  shows "case run_agent_connection E c g of
      (Inr _, c', g') \<Rightarrow> \<exists>responses out. answers E frames (step (step g)) = (responses, g') \<and>
         responses_sent E responses out \<and> fst (cn_writes c') = fst (cn_writes c) @ out
    | (Inl e, c', _) \<Rightarrow> \<exists>v c1. write_agent_json_frame E v c1 = (Inl e, c')"
proof -
  obtain r c' g' where run: "serve_frames E c (step (step g)) = (r, c', g')" by (metis surj_pair)
  have c: "run_agent_connection E c g = (r, c', g')"
    using assms(4,5) run by (simp add: run_agent_connection_def authorize_same_uid_peer_def Let_def)
  note all = serve_frames_all [OF assms(1-3) run]
  show ?thesis
  proof (cases r)
    case (Inl e)
    then obtain v c1 where "write_agent_json_frame E v c1 = (Inl e, c')" using all by auto
    then show ?thesis unfolding c Inl prod.case sum.case by blast
  next
    case (Inr u)
    then obtain responses out where "answers E frames (step (step g)) = (responses, g')"
        "responses_sent E responses out" "fst (cn_writes c') = fst (cn_writes c) @ out"
      using all by auto
    then show ?thesis unfolding c Inr prod.case sum.case by blast
  qed
qed

theorem connection_served_witness:
  "\<exists>c' g' responses. run_agent_connection sample_server sample_connection sample_agent = (Inr (), c', g') \<and>
     answers sample_server [[1]] (step (step sample_agent)) = (responses, g') \<and> length responses = 1 \<and>
     fst (cn_writes c') = field_frame [2]"
proof -
  have run: "run_agent_connection sample_server sample_connection sample_agent = (Inr (),
     \<lparr>cn_reads = [], cn_writes = (field_frame [2], [])\<rparr>, step (step sample_agent))"
    by (simp add: run_agent_connection_def sample_server_simps authorize_same_uid_peer_def Let_def
        serve_frames.simps next_frame_def read_agent_frame_def sample_connection_def field_frame_1
        read_exact_agent_def be_value_def write_agent_json_frame_def MAX_AGENT_FRAME_BYTES_def
        handle_agent_frame_def handle_agent_frame_inner_def agent_ok_def write_agent_frame_def write_all_agent_def
        be32_1)
  have "timely (frame_deadline 0) (cn_reads sample_connection)"
      "arriving (cn_reads sample_connection) = concat (map field_frame [[1]])" "list_all frame_ok [[1]]"
    by (simp_all add: sample_connection_def field_frame_1 frame_ok_def MAX_AGENT_FRAME_BYTES_def)
  from connection_served [OF this, of sample_server sample_agent] run show ?thesis
    by (auto simp: sample_server_simps Let_def split: prod.splits)
qed

text \<open>
  C25. Workers are bounded and no permit is lost: at every moment the counter is the number of
  workers that run, plus one while the listener holds a fresh permit, however the turns of the
  admission loop, failing starts and the ends of workers interleave; so never more than the limit
  run, and when all have ended the agent admits as many again.
\<close>

theorem workers_bounded:
  assumes "listener_run E limit s"
  shows "unat (li_active s) = li_workers s + (if li_holding s then 1 else 0) \<and> li_workers s \<le> unat limit"
  using listener_permits [OF assms] by (simp add: permits_held_def split: if_splits)

theorem workers_bounded_witness:
  "unat (li_active \<lparr>li_active = 1, li_holding = False, li_workers = 1\<rparr>) = 1 \<and> 1 \<le> unat (64 :: u64) \<and>
   listener_run sample_server 64 \<lparr>li_active = 1, li_holding = False, li_workers = 1\<rparr>"
proof -
  have "listener_run sample_server 64 (\<lparr>li_active = 0, li_holding = False, li_workers = 0\<rparr>
      \<lparr>li_active := 1, li_holding := True\<rparr>)"
    by (rule listener_run.admit [where seen = 0 and spurious = False, OF listener_run.start])
       (simp_all add: admit_iteration_def compare_exchange_weak_def)
  then have "listener_run sample_server 64 (\<lparr>li_active = 1, li_holding = True, li_workers = 0\<rparr>
      \<lparr>li_holding := False, li_workers := Suc 0\<rparr>)"
    using listener_run.started [where c = sample_connection and g = sample_agent]
    by (fastforce simp: dispatch_agent_connection_def sample_server_simps Let_def)
  then have "listener_run sample_server 64 \<lparr>li_active = 1, li_holding = False, li_workers = 1\<rparr>" by simp
  with workers_bounded [OF this] show ?thesis by simp
qed


end
