(* ===== verification/Commands.thy ===== *)
theory Commands
  imports MasterKeys AgentServer
begin

text \<open>
  The commands of \<open>crates/avault-cli/src/main.rs\<close>, from \<open>run\<close> down: they compose the parts the
  other theories model with reading standard input, writing standard output and starting child
  processes.

  \<^item> The state \<open>command_sys\<close> holds the rest of standard input, what standard output has received,
    the stores (the file system and the Keychain, as the world of the authorization gate), the
    number of calls made and the child processes started so far.
  \<^item> \<open>command_env\<close> extends the environment of the agent by the host, the parse of each JSON input
    and the text of each output by serde, the random draws, standard output, and the processes.
  \<^item> Writing with \<open>print!\<close> to a standard output that fails is a panic. Wiping memory and the
    messages on standard error have no part in the state.
\<close>

section \<open>State and environment\<close>

(* SRC cli SignInput *)
record sign_input =
  si_name :: string
  si_key_envelope :: sealed
  si_digest :: string
  si_scheme :: string
  si_dek_blindbox :: "blind_box option"
  si_approval :: "string option"

(* SRC cli InjectInput *)
record inject_input =
  ij_path :: path
  ij_format :: string
  ij_secrets :: "named_secret_input list"

datatype command_output =
    SealedOut sealed
  | PubkeyOut string string
  | SignOut sign_output
  | FetchOut fetch_output
  | ExportOut export_blob

record child =
  ch_command :: os_args
  ch_env_clear :: bool
  ch_env :: "(string \<times> string) list"
  ch_stdin_null :: bool

record ('sc, 'pt, 'k) command_env = "('sc, 'pt) worker_env" +
  ce_host :: "'k host"
  ce_store :: store_env
  ce_gate :: gate_env
  ce_blind_box :: "bytes \<Rightarrow> blind_box option"
  ce_sealed :: "bytes \<Rightarrow> sealed option"
  ce_env_secrets :: "bytes \<Rightarrow> env_secret_input list option"
  ce_fetch_input :: "bytes \<Rightarrow> fetch_input option"
  ce_inject_input :: "bytes \<Rightarrow> inject_input option"
  ce_sign_input :: "bytes \<Rightarrow> sign_input option"
  ce_export_blob :: "bytes \<Rightarrow> export_blob option"
  ce_json :: "command_output \<Rightarrow> bytes"
  ce_random :: "nat \<Rightarrow> nat \<Rightarrow> bytes"
  ce_read_file :: "nat \<Rightarrow> string \<Rightarrow> io_kind + bytes"
  ce_stdout :: "nat \<Rightarrow> bytes write_fn"
  ce_spawn :: "nat \<Rightarrow> child \<Rightarrow> io_kind + unit"
  ce_wait :: "nat \<Rightarrow> child \<Rightarrow> io_kind + exit_status"
  ce_exec :: "nat \<Rightarrow> child \<Rightarrow> io_kind option"
  ce_socket_os :: socket_os
  ce_set_nonblocking :: "nat \<Rightarrow> io_kind + unit"

record 'k command_sys =
  cs_input :: stream
  cs_stdout :: bytes
  cs_gate :: "(fs \<times> 'k) gate"
  cs_calls :: nat
  cs_children :: "child list"

definition count_call :: "'k command_sys \<Rightarrow> 'k command_sys" where
  "count_call g = g\<lparr>cs_calls := Suc (cs_calls g)\<rparr>"

definition on_stores :: "(fs \<times> 'k \<Rightarrow> 'a res \<times> (fs \<times> 'k)) \<Rightarrow> 'k command_sys \<Rightarrow> 'a res \<times> 'k command_sys" where
  "on_stores f g = (let (r, w) = f (gt_world (cs_gate g))
     in (r, g\<lparr>cs_gate := (cs_gate g)\<lparr>gt_world := w\<rparr>\<rparr>))"

definition on_input :: "(stream \<Rightarrow> 'a res \<times> stream) \<Rightarrow> 'k command_sys \<Rightarrow> 'a res \<times> 'k command_sys" where
  "on_input f g = (let (r, s) = f (cs_input g) in (r, g\<lparr>cs_input := s\<rparr>))"

definition write_stdout :: "('sc, 'pt, 'k, 'e) command_env_scheme \<Rightarrow> bytes \<Rightarrow> 'k command_sys
    \<Rightarrow> (io_kind + unit) \<times> 'k command_sys" where
  "write_stdout E bs g = (let (r, out) = ce_stdout E (cs_calls g) (cs_stdout g) bs
     in (r, (count_call g)\<lparr>cs_stdout := out\<rparr>))"

text \<open>\<open>print!\<close>, \<open>println!\<close>, and \<open>serde_json::to_writer\<close> on standard output followed by \<open>println!\<close>.\<close>

definition print_text :: "('sc, 'pt, 'k, 'e) command_env_scheme \<Rightarrow> bytes \<Rightarrow> 'k command_sys \<Rightarrow> unit res \<times> 'k command_sys" where
  "print_text E bs g = (case write_stdout E bs g of
       (Inr _, g) \<Rightarrow> (Inr (), g) | (Inl _, g) \<Rightarrow> (Inl [Panic ''failed printing to stdout''], g))"

definition println :: "('sc, 'pt, 'k, 'e) command_env_scheme \<Rightarrow> bytes \<Rightarrow> 'k command_sys \<Rightarrow> unit res \<times> 'k command_sys" where
  "println E bs = print_text E (bs @ [10])"

definition print_json ::
    "('sc, 'pt, 'k, 'e) command_env_scheme \<Rightarrow> string \<Rightarrow> command_output \<Rightarrow> 'k command_sys \<Rightarrow> unit res \<times> 'k command_sys" where
  "print_json E failure out g =
     then_st (io_res failure (write_stdout E (ce_json E out) g)) (\<lambda>_ g. println E [] g)"

section \<open>The master key\<close>

(* SRC cli load_existing_master_from_unlock *)
definition load_existing_master_from_unlock ::
    "('sc, 'pt, 'k, 'e) command_env_scheme \<Rightarrow> store_unlock \<Rightarrow> 'k command_sys \<Rightarrow> master_key res \<times> 'k command_sys" where
  "load_existing_master_from_unlock E unlock = (let H = ce_host E in case unlock of
       UnlockStandard backend \<Rightarrow> on_stores (load_master_key H backend)
     | UnlockFilePassphrase passphrase \<Rightarrow> (\<lambda>g. context_st ''failed to unlock passphrase master key''
         (on_stores (on_fs (load_passphrase_master_key (ce_store E) (ho_os H) (ho_env H) passphrase)) g)))"

(* SRC cli load_or_create_master_from_unlock *)
definition load_or_create_master_from_unlock ::
    "('sc, 'pt, 'k, 'e) command_env_scheme \<Rightarrow> store_unlock \<Rightarrow> 'k command_sys \<Rightarrow> master_key res \<times> 'k command_sys" where
  "load_or_create_master_from_unlock E unlock = (let H = ce_host E in case unlock of
       UnlockStandard backend \<Rightarrow> on_stores (load_or_create_master_key H backend)
     | UnlockFilePassphrase passphrase \<Rightarrow> (\<lambda>g. context_st ''failed to unlock passphrase master key''
         (on_stores (on_fs (load_or_create_passphrase_master_key (ce_store E) (ho_os H) (ho_env H) passphrase)) g)))"

(* SRC cli import_master_with_unlock *)
definition import_master_with_unlock ::
    "('sc, 'pt, 'k, 'e) command_env_scheme \<Rightarrow> store_unlock \<Rightarrow> bytes \<Rightarrow> bool \<Rightarrow> 'k command_sys \<Rightarrow> unit res \<times> 'k command_sys" where
  "import_master_with_unlock E unlock key force = (let H = ce_host E in case unlock of
       UnlockStandard backend \<Rightarrow> on_stores (store_import_master_key H backend key force)
     | UnlockFilePassphrase passphrase \<Rightarrow>
         on_stores (at_path (default_passphrase_master_key_path (ho_env H)) (\<lambda>p s.
           context_st ''failed to store imported passphrase master key''
             (passphrase_import (ce_store E) (ho_os H) p passphrase key force s))))"

section \<open>Inputs\<close>

definition read_unlock :: "cli_config \<Rightarrow> 'k command_sys \<Rightarrow> store_unlock res \<times> 'k command_sys" where
  "read_unlock config = on_input (read_store_unlock config stream_read)"

definition read_parsed ::
    "string \<Rightarrow> string \<Rightarrow> (bytes \<Rightarrow> 'a option) \<Rightarrow> 'k command_sys \<Rightarrow> 'a res \<times> 'k command_sys" where
  \<comment> \<open>\<open>read_json_input\<close> and then \<open>serde_json::from_slice\<close> with its context.\<close>
  "read_parsed unreadable invalid parse g =
     then_st (on_input (read_json_input stream_read unreadable) g) (\<lambda>input g.
     (with_context invalid (lib_res ''serde_json'' (parse input)), g))"

section \<open>Sealing\<close>

text \<open>\<open>avault_core::seal\<close> with its three draws.\<close>

definition seal_value ::
    "('sc, 'pt, 'k, 'e) command_env_scheme \<Rightarrow> master_key \<Rightarrow> string \<Rightarrow> bytes \<Rightarrow> 'k command_sys \<Rightarrow> sealed res \<times> 'k command_sys" where
  "seal_value E master name value g =
     (let draw = ce_random E (cs_calls g)
      in (with_context ''seal failed'' (seal (ae_core E) (draw 0) (draw 1) (draw 2) master name value), count_call g))"

(* SRC cli 281-293 seal_cmd *)
definition seal_blind_box ::
    "('sc, 'pt, 'k, 'e) command_env_scheme \<Rightarrow> string \<Rightarrow> store_unlock \<Rightarrow> 'k command_sys \<Rightarrow> sealed res \<times> 'k command_sys" where
  "seal_blind_box E name unlock g =
     then_st (read_parsed ''failed to read blind-box JSON from stdin'' ''blind-box JSON is invalid''
                (ce_blind_box E) g) (\<lambda>blind_box g.
     then_st (load_existing_master_from_unlock E unlock g) (\<lambda>master g.
     then_st (derive_blind_box_keypair_from_master (ae_core E) master, g) (\<lambda>keypair g.
     then_st (with_context ''blind-box open failed''
                (open_blind_box (ae_core E) keypair blind_box (context_seal name)), g) (\<lambda>value g.
     seal_value E master name value g))))"

(* SRC cli 295-301 seal_cmd *)
definition seal_plaintext ::
    "('sc, 'pt, 'k, 'e) command_env_scheme \<Rightarrow> string \<Rightarrow> store_unlock \<Rightarrow> 'k command_sys \<Rightarrow> sealed res \<times> 'k command_sys" where
  "seal_plaintext E name unlock g =
     then_st (context_st ''failed to read plaintext value from stdin''
                (on_input (read_stdin_zeroizing_from stream_read) g)) (\<lambda>value g.
     then_st (load_or_create_master_from_unlock E unlock g) (\<lambda>master g.
     seal_value E master name value g))"

(* SRC cli seal_cmd *)
definition seal_cmd ::
    "('sc, 'pt, 'k, 'e) command_env_scheme \<Rightarrow> os_args \<Rightarrow> cli_config \<Rightarrow> 'k command_sys \<Rightarrow> byte res \<times> 'k command_sys" where
  "seal_cmd E args config g =
     then_st (parse_seal_options args, g) (\<lambda>options g.
     then_st (read_unlock config g) (\<lambda>unlock g.
     then_st ((if so_blind_box options then seal_blind_box else seal_plaintext) E (so_name options) unlock g)
       (\<lambda>sealed g.
     then_st (print_json E ''failed to write envelope JSON'' (SealedOut sealed) g) (\<lambda>_ g.
     (Inr 0, g)))))"

section \<open>Public key and signature\<close>

(* SRC cli pubkey_cmd *)
definition pubkey_cmd ::
    "('sc, 'pt, 'k, 'e) command_env_scheme \<Rightarrow> os_args \<Rightarrow> cli_config \<Rightarrow> 'k command_sys \<Rightarrow> byte res \<times> 'k command_sys" where
  "pubkey_cmd E args config g =
     (if args \<noteq> [] then (bail ''pubkey takes no options'', g)
      else then_st (read_unlock config g) (\<lambda>unlock g.
           then_st (load_or_create_master_from_unlock E unlock g) (\<lambda>master g.
           then_st (derive_blind_box_keypair_from_master (ae_core E) master, g) (\<lambda>keypair g.
           then_st (print_json E ''failed to write pubkey JSON''
                      (PubkeyOut (public_key_b64 (ae_core E) keypair) (fingerprint_hex (ae_core E) keypair)) g) (\<lambda>_ g.
           (Inr 0, g))))))"

(* SRC cli sign_cmd *)
definition sign_cmd ::
    "('sc, 'pt, 'k, 'e) command_env_scheme \<Rightarrow> os_args \<Rightarrow> cli_config \<Rightarrow> 'k command_sys \<Rightarrow> byte res \<times> 'k command_sys" where
  "sign_cmd E args config g =
     (if args \<noteq> [] then (bail ''sign reads its JSON request from stdin and takes no options'', g)
      else then_st (read_unlock config g) (\<lambda>unlock g.
           then_st (read_parsed ''failed to read sign JSON from stdin'' ''sign JSON is invalid'' (ce_sign_input E) g)
             (\<lambda>request g.
           then_st (decode_hex_32 E (si_digest request) ''digest'', g) (\<lambda>digest g.
           then_st (scheme_from_str (si_scheme request), g) (\<lambda>scheme g.
           then_st (reject_one_shot_protected_fields (si_dek_blindbox request) (si_approval request), g) (\<lambda>_ g.
           then_st (load_existing_master_from_unlock E unlock g) (\<lambda>master g.
           then_st (with_context ''key envelope open failed''
                      (open_envelope (ae_core E) master (si_name request) (si_key_envelope request)), g) (\<lambda>key g.
           then_st (sign_digest_with_key E (cs_calls g) scheme digest key, count_call g) (\<lambda>output g.
           then_st (print_json E ''failed to write signature JSON'' (SignOut output) g) (\<lambda>_ g.
           (Inr 0, g)))))))))))"

section \<open>Delivery\<close>

(* SRC cli open_env_secrets *)
definition open_env_secrets_with_unlock ::
    "('sc, 'pt, 'k, 'e) command_env_scheme \<Rightarrow> env_secret_input list \<Rightarrow> store_unlock \<Rightarrow> 'k command_sys
     \<Rightarrow> opened_secret list res \<times> 'k command_sys" where
  "open_env_secrets_with_unlock E secrets unlock g =
     then_st (load_existing_master_from_unlock E unlock g) (\<lambda>master g.
     (open_env_secrets (ae_core E) master secrets, g))"

(* SRC cli open_named_secrets *)
definition open_named_secrets_with_unlock ::
    "('sc, 'pt, 'k, 'e) command_env_scheme \<Rightarrow> named_secret_input list \<Rightarrow> store_unlock \<Rightarrow> 'k command_sys
     \<Rightarrow> opened_secret list res \<times> 'k command_sys" where
  "open_named_secrets_with_unlock E secrets unlock g =
     then_st (load_existing_master_from_unlock E unlock g) (\<lambda>master g.
     (open_named_secrets (ae_core E) master secrets, g))"

text \<open>The variables of a child; setting one again replaces its value.\<close>

(* SRC cli 721-729 spawn_child_with_opened_env *)
fun child_variables :: "opened_secret list \<Rightarrow> (string \<times> string) list res" where
  "child_variables [] = Inr []"
| "child_variables (secret # opened) =
     and_then (validate_env_value (os_plaintext secret)) (\<lambda>_.
     case from_utf8 (os_plaintext secret) of
       None \<Rightarrow> Inl [Msg ''secret value is not valid UTF-8 for env delivery'', Lib ''Utf8Error'']
     | Some value \<Rightarrow> and_then (child_variables opened) (\<lambda>vars. Inr ((os_name secret, value) # vars)))"

(* SRC cli spawn_child_with_opened_env *)
definition spawn_child_with_opened_env ::
    "('sc, 'pt, 'k, 'e) command_env_scheme \<Rightarrow> os_args \<Rightarrow> opened_secret list \<Rightarrow> bool \<Rightarrow> bool \<Rightarrow> 'k command_sys
     \<Rightarrow> child res \<times> 'k command_sys" where
  "spawn_child_with_opened_env E command opened envelope_stdin inherit_env g =
     then_st (child_variables opened, g) (\<lambda>vars g.
     let child = \<lparr>ch_command = command, ch_env_clear = (\<not> inherit_env), ch_env = vars,
                  ch_stdin_null = envelope_stdin\<rparr>
     in then_st (io_res ''failed to run child command'' (ce_spawn E (cs_calls g) child, count_call g)) (\<lambda>_ g.
        (Inr child, g\<lparr>cs_children := cs_children g @ [child]\<rparr>)))"

(* SRC cli run_child_with_opened_env *)
definition run_child_with_opened_env ::
    "('sc, 'pt, 'k, 'e) command_env_scheme \<Rightarrow> os_args \<Rightarrow> opened_secret list \<Rightarrow> bool \<Rightarrow> 'k command_sys
     \<Rightarrow> byte res \<times> 'k command_sys" where
  "run_child_with_opened_env E command opened envelope_stdin g =
     then_st (spawn_child_with_opened_env E command opened envelope_stdin True g) (\<lambda>child g.
     then_st (io_res ''failed to wait for child command'' (ce_wait E (cs_calls g) child, count_call g)) (\<lambda>status g.
     (Inr (status_to_exit_code status), g)))"

text \<open>The arguments before and after the first \<open>--\<close>.\<close>

definition split_at_dashes :: "os_args \<Rightarrow> (os_args \<times> os_args) option" where
  "split_at_dashes args = (case dropWhile (\<lambda>a. a \<noteq> as_bytes ''--'') args of
       [] \<Rightarrow> None | _ # command \<Rightarrow> Some (takeWhile (\<lambda>a. a \<noteq> as_bytes ''--'') args, command))"

(* SRC cli 563-580 deliver_run_cmd *)
definition deliver_run_single ::
    "('sc, 'pt, 'k, 'e) command_env_scheme \<Rightarrow> os_args \<Rightarrow> os_args \<Rightarrow> store_unlock \<Rightarrow> 'k command_sys \<Rightarrow> byte res \<times> 'k command_sys" where
  "deliver_run_single E options command unlock g =
     then_st (parse_deliver_run_options options, g) (\<lambda>run_options g.
     let envelope_stdin = (dro_envelope_file run_options = None)
     in then_st (on_input (read_envelope (ce_read_file E (cs_calls g)) stream_read (dro_envelope_file run_options))
                   (count_call g)) (\<lambda>envelope g.
        then_st (with_context ''envelope JSON is invalid'' (lib_res ''serde_json'' (ce_sealed E envelope)), g) (\<lambda>sealed g.
        then_st (open_env_secrets_with_unlock E
                   [\<lparr>es_name = dro_name run_options, es_env = dro_env_name run_options, es_tier = Standard,
                     es_envelope = sealed, es_dek_blindbox = None, es_approval = None\<rparr>] unlock g) (\<lambda>opened g.
        run_child_with_opened_env E command opened envelope_stdin g))))"

(* SRC cli 552-561 deliver_run_cmd *)
definition deliver_run_many ::
    "('sc, 'pt, 'k, 'e) command_env_scheme \<Rightarrow> os_args \<Rightarrow> store_unlock \<Rightarrow> 'k command_sys \<Rightarrow> byte res \<times> 'k command_sys" where
  "deliver_run_many E command unlock g =
     then_st (read_parsed ''failed to read deliver run JSON from stdin'' ''deliver run JSON is invalid''
                (ce_env_secrets E) g) (\<lambda>secrets g.
     if secrets = [] then (bail ''deliver run requires at least one secret'', g)
     else then_st (open_env_secrets_with_unlock E secrets unlock g) (\<lambda>opened g.
          run_child_with_opened_env E command opened True g))"

(* SRC cli deliver_run_cmd *)
definition deliver_run_cmd ::
    "('sc, 'pt, 'k, 'e) command_env_scheme \<Rightarrow> os_args \<Rightarrow> cli_config \<Rightarrow> 'k command_sys \<Rightarrow> byte res \<times> 'k command_sys" where
  "deliver_run_cmd E args config g =
     then_st (ok_or ''deliver run requires -- before the command'' (split_at_dashes args), g)
       (\<lambda>(options, command) g.
     if command = [] then (bail ''deliver run requires a command'', g)
     else then_st (read_unlock config g) (\<lambda>unlock g.
          if options = [] then deliver_run_many E command unlock g
          else deliver_run_single E options command unlock g))"

text \<open>The master key is loaded only after the request was accepted.\<close>

(* SRC cli open_one_shot_secret *)
definition open_one_shot_secret_unloaded ::
    "('sc, 'pt, 'k, 'e) command_env_scheme \<Rightarrow> fetch_input \<Rightarrow> store_unlock \<Rightarrow> 'k command_sys \<Rightarrow> bytes res \<times> 'k command_sys" where
  "open_one_shot_secret_unloaded E fetch unlock g =
     then_st (reject_one_shot_protected_fields (fi_dek_blindbox fetch) (fi_approval fetch), g) (\<lambda>_ g.
     then_st (load_existing_master_from_unlock E unlock g) (\<lambda>master g.
     (open_one_shot_secret (ae_core E) (fi_name fetch) (fi_envelope fetch) (fi_dek_blindbox fetch)
        (fi_approval fetch) master, g)))"

(* SRC cli deliver_fetch_cmd *)
definition deliver_fetch_cmd ::
    "('sc, 'pt, 'k, 'e) command_env_scheme \<Rightarrow> os_args \<Rightarrow> cli_config \<Rightarrow> 'k command_sys \<Rightarrow> byte res \<times> 'k command_sys" where
  "deliver_fetch_cmd E args config g =
     (if args \<noteq> [] then (bail ''deliver fetch reads its JSON request from stdin and takes no options'', g)
      else then_st (read_unlock config g) (\<lambda>unlock g.
           then_st (read_parsed ''failed to read deliver fetch JSON from stdin'' ''deliver fetch JSON is invalid''
                      (ce_fetch_input E) g) (\<lambda>fetch g.
           then_st (ensure_one_shot_standard_tier (fi_tier fetch), g) (\<lambda>_ g.
           then_st (validate_fetch_input (ae_fetch E) fetch, g) (\<lambda>(_, is_loopback) g.
           then_st (context_st ''open failed'' (open_one_shot_secret_unloaded E fetch unlock g)) (\<lambda>secret g.
           then_st (with_context ''fetch request failed''
                      (execute_fetch_request (ae_fetch E) (fi_request fetch) secret is_loopback), g) (\<lambda>output g.
           then_st (print_json E ''failed to write fetch response JSON'' (FetchOut output) g) (\<lambda>_ g.
           (Inr (fetch_output_exit_code output), g)))))))))"

definition ok_json :: bytes where
  "ok_json = as_bytes ''{\"ok\":true}''"

(* SRC cli deliver_inject_cmd *)
definition deliver_inject_cmd ::
    "('sc, 'pt, 'k, 'e) command_env_scheme \<Rightarrow> os_args \<Rightarrow> cli_config \<Rightarrow> 'k command_sys \<Rightarrow> byte res \<times> 'k command_sys" where
  "deliver_inject_cmd E args config g =
     (if args \<noteq> [] then (bail ''deliver inject reads its JSON request from stdin and takes no options'', g)
      else then_st (read_unlock config g) (\<lambda>unlock g.
           then_st (read_parsed ''failed to read deliver inject JSON from stdin'' ''deliver inject JSON is invalid''
                      (ce_inject_input E) g) (\<lambda>inject g.
           then_st (validate_inject_request (ij_secrets inject) (ij_format inject), g) (\<lambda>format g.
           then_st (open_named_secrets_with_unlock E (ij_secrets inject) unlock g) (\<lambda>opened g.
           then_st (render_inject_file (ae_to_json E) opened format, g) (\<lambda>rendered g.
           then_st (context_st ''failed to write inject file''
                      (on_stores (on_fs (atomic_write_secret_file (ho_os (ce_host E)) (ij_path inject) rendered)) g)) (\<lambda>_ g.
           then_st (println E ok_json g) (\<lambda>_ g.
           (Inr 0, g)))))))))"

(* SRC cli deliver_cmd *)
definition deliver_cmd ::
    "('sc, 'pt, 'k, 'e) command_env_scheme \<Rightarrow> os_args \<Rightarrow> cli_config \<Rightarrow> 'k command_sys \<Rightarrow> byte res \<times> 'k command_sys" where
  "deliver_cmd E args config g = (case next_value args of
       None \<Rightarrow> (bail ''missing deliver subcommand'', g)
     | Some subcmd \<Rightarrow>
         if subcmd = ''run'' then deliver_run_cmd E (tl args) config g
         else if subcmd = ''fetch'' then deliver_fetch_cmd E (tl args) config g
         else if subcmd = ''inject'' then deliver_inject_cmd E (tl args) config g
         else (bail (''unknown deliver subcommand: '' @ subcmd), g))"

section \<open>The master key\<close>

(* SRC cli key_export_cmd *)
definition key_export_cmd ::
    "('sc, 'pt, 'k, 'e) command_env_scheme \<Rightarrow> cli_config \<Rightarrow> 'k command_sys \<Rightarrow> byte res \<times> 'k command_sys" where
  "key_export_cmd E config g =
     then_st (read_unlock config g) (\<lambda>unlock g.
     then_st (context_st ''failed to read passphrase from stdin''
                (on_input (read_stdin_zeroizing_from stream_read) g)) (\<lambda>passphrase g.
     let passphrase = trim_trailing_newlines passphrase
     in then_st (load_existing_master_from_unlock E unlock g) (\<lambda>master g.
        let draw = ce_random E (cs_calls g)
        in then_st (with_context ''key export failed''
                      (export_master_key (ae_core E) (draw 0) (draw 1) master passphrase), count_call g) (\<lambda>blob g.
           then_st (print_json E ''failed to write key export JSON'' (ExportOut blob) g) (\<lambda>_ g.
           (Inr 0, g))))))"

(* SRC cli key_import_cmd *)
definition key_import_cmd ::
    "('sc, 'pt, 'k, 'e) command_env_scheme \<Rightarrow> os_args \<Rightarrow> cli_config \<Rightarrow> 'k command_sys \<Rightarrow> byte res \<times> 'k command_sys" where
  "key_import_cmd E args config g =
     then_st (parse_flag args ''--force'', g) (\<lambda>force g.
     then_st (read_unlock config g) (\<lambda>unlock g.
     then_st (context_st ''failed to read key import JSON from stdin''
                (on_input (read_stdin_zeroizing_from stream_read) g)) (\<lambda>input g.
     then_st (with_context ''key import JSON is invalid'' (import_passphrase_from_json input), g) (\<lambda>passphrase g.
     then_st (with_context ''key import JSON is invalid'' (import_blob_from_json (ce_export_blob E) input), g) (\<lambda>blob g.
     then_st (with_context ''key import failed''
                (import_master_key (ae_core E) blob (trim_trailing_newlines passphrase)), g) (\<lambda>key g.
     then_st (import_master_with_unlock E unlock key force g) (\<lambda>_ g.
     then_st (println E ok_json g) (\<lambda>_ g.
     (Inr 0, g)))))))))"

text \<open>Waiting for the gate may not end, so the result is an option.\<close>

(* SRC cli key_authorize_cmd *)
definition key_authorize_cmd ::
    "('sc, 'pt, 'k, 'e) command_env_scheme \<Rightarrow> os_args \<Rightarrow> cli_config \<Rightarrow> 'k command_sys
     \<Rightarrow> (byte res \<times> 'k command_sys) option" where
  "key_authorize_cmd E args config g =
     (if args \<noteq> [] then Some (bail ''key authorize takes no options'', g)
      else case read_unlock config g of
             (Inl e, g) \<Rightarrow> Some (Inl e, g)
           | (Inr unlock, g) \<Rightarrow>
               map_option (\<lambda>rg. then_st rg (\<lambda>_ g. then_st (println E ok_json g) (\<lambda>_ g. (Inr 0, g))))
                 (case unlock of
                    UnlockStandard backend \<Rightarrow>
                      map_option (\<lambda>(r, gate). (r, g\<lparr>cs_gate := gate\<rparr>))
                        (authorize_master_key (ce_gate E) (ce_host E) backend (cs_gate g))
                  | UnlockFilePassphrase _ \<Rightarrow>
                      Some (then_st (load_existing_master_from_unlock E unlock g) (\<lambda>_ g. (Inr (), g)))))"

(* SRC cli key_cmd *)
definition key_cmd ::
    "('sc, 'pt, 'k, 'e) command_env_scheme \<Rightarrow> os_args \<Rightarrow> cli_config \<Rightarrow> 'k command_sys
     \<Rightarrow> (byte res \<times> 'k command_sys) option" where
  "key_cmd E args config g = (case next_value args of
       None \<Rightarrow> Some (bail ''missing key subcommand'', g)
     | Some subcmd \<Rightarrow>
         if subcmd = ''export'' then Some (key_export_cmd E config g)
         else if subcmd = ''import'' then Some (key_import_cmd E (tl args) config g)
         else if subcmd = ''authorize'' then key_authorize_cmd E (tl args) config g
         else Some (bail (''unknown key subcommand: '' @ subcmd), g))"

section \<open>The agent and its run helper\<close>

text \<open>
  What a run of the program ends in: a status or an error, another program in its place (\<open>exec\<close>), or
  the agent's loop, which the theory AgentServer models: a run of \<open>agent\<close> is followed to the point where it begins
  to serve, and its result \<open>Serving\<close> says with what.
\<close>

record agent_setup =
  gs_source :: "master_key + backend"
  gs_keypair :: blind_box_keypair
  gs_idle_timeout :: u64

datatype outcome = Returned "byte res" | Replaced child | Serving agent_setup

definition returned :: "byte res \<times> 'k command_sys \<Rightarrow> outcome \<times> 'k command_sys" where
  "returned rg = (Returned (fst rg), snd rg)"

(* SRC cli 777-781 agent_run_helper_cmd *)
fun helper_variables :: "opened_secret list \<Rightarrow> (string \<times> string) list res" where
  "helper_variables [] = Inr []"
| "helper_variables (secret # opened) =
     (case from_utf8 (os_plaintext secret) of
        None \<Rightarrow> Inl [Msg ''secret value is not valid UTF-8 for env delivery'', Lib ''Utf8Error'']
      | Some value \<Rightarrow> and_then (helper_variables opened) (\<lambda>vars. Inr ((os_name secret, value) # vars)))"

(* SRC cli agent_run_helper_cmd *)
definition agent_run_helper_cmd ::
    "('sc, 'pt, 'k, 'e) command_env_scheme \<Rightarrow> os_args \<Rightarrow> 'k command_sys \<Rightarrow> outcome \<times> 'k command_sys" where
  "agent_run_helper_cmd E args g =
     (let stdin_null = (next_value args = Some ''--stdin-null'');
          args = (if stdin_null then tl args else args)
      in if next_value args \<noteq> Some ''--''
         then (Returned (bail ''agent run helper requires -- before command''), g)
         else let command = tl args
         in if command = [] then (Returned (bail ''agent run helper requires a command''), g)
         else case then_st (on_input (read_agent_run_helper_frame stream_read) g) (\<lambda>opened g.
                     (helper_variables opened, g)) of
                (Inl e, g) \<Rightarrow> (Returned (Inl e), g)
              | (Inr vars, g) \<Rightarrow>
                  let child = \<lparr>ch_command = command, ch_env_clear = True, ch_env = vars, ch_stdin_null = stdin_null\<rparr>
                  in case ce_exec E (cs_calls g) child of
                       None \<Rightarrow> (Replaced child, count_call g)
                     | Some k \<Rightarrow> (Returned (Inl [Msg ''failed to exec child command'', Io k]), count_call g))"

(* SRC cli 2629-2647 run_agent *)
definition agent_master_source ::
    "('sc, 'pt, 'k, 'e) command_env_scheme \<Rightarrow> agent_options \<Rightarrow> 'k command_sys \<Rightarrow> (master_key + backend) res \<times> 'k command_sys" where
  "agent_master_source E options g =
     (if ao_unlock options
      then then_st (context_st ''failed to read store passphrase from stdin''
                      (on_input (read_passphrase_line stream_read) g)) (\<lambda>passphrase g.
           then_st (context_st ''failed to unlock passphrase master key''
                      (on_stores (on_fs (load_or_create_passphrase_master_key (ce_store E) (ho_os (ce_host E))
                         (ho_env (ce_host E)) passphrase)) g)) (\<lambda>master g.
           (Inr (Inl master), g)))
      else (case ao_store options of
              SelAuto \<Rightarrow> Inr (Inr Auto)
            | SelKeychain \<Rightarrow> Inr (Inr Keychain)
            | SelTpm \<Rightarrow> Inr (Inr Tpm)
            | SelFile \<Rightarrow> Inr (Inr File)
            | SelFilePassphrase \<Rightarrow> bail ''file-passphrase agent requires --unlock'', g))"

text \<open>
  The key that a request which finds none cached gets while the agent serves: the one that was unlocked at
  the start, or what the store has by then.
\<close>

(* SRC cli 2635-2646 run_agent *)
definition agent_load_master ::
    "('sc, 'pt, 'k, 'e) command_env_scheme \<Rightarrow> agent_setup \<Rightarrow> fs \<times> 'k \<Rightarrow> master_key res \<times> (fs \<times> 'k)" where
  "agent_load_master E setup w = (case gs_source setup of
       Inl master \<Rightarrow> (Inr master, w)
     | Inr backend \<Rightarrow> load_master_key (ce_host E) backend w)"

(* SRC cli 2627-2653 run_agent *)
definition run_agent ::
    "('sc, 'pt, 'k, 'e) command_env_scheme \<Rightarrow> agent_options \<Rightarrow> 'k command_sys \<Rightarrow> agent_setup res \<times> 'k command_sys" where
  "run_agent E options g =
     then_st (agent_master_source E options g) (\<lambda>source g.
     let keypair = generate_blind_box_keypair (ae_core E) (ce_random E (cs_calls g) 0); g = count_call g
     in then_st (on_stores (on_fs (bind_agent_socket (ce_socket_os E) (ho_env (ce_host E)) (ao_socket_path options))) g)
          (\<lambda>_ g.
        then_st (io_res ''failed to configure agent socket'' (ce_set_nonblocking E (cs_calls g), count_call g)) (\<lambda>_ g.
        (Inr \<lparr>gs_source = source, gs_keypair = keypair, gs_idle_timeout = ao_idle_timeout options\<rparr>, g))))"

(* SRC cli agent_cmd@2067 *)
definition agent_cmd ::
    "('sc, 'pt, 'k, 'e) command_env_scheme \<Rightarrow> os_args \<Rightarrow> cli_config \<Rightarrow> 'k command_sys \<Rightarrow> outcome \<times> 'k command_sys" where
  "agent_cmd E args config g =
     (case then_st (parse_agent_options (ho_env (ce_host E)) args config, g) (run_agent E) of
        (Inl e, g) \<Rightarrow> (Returned (Inl e), g)
      | (Inr setup, g) \<Rightarrow> (Serving setup, g))"

section \<open>The program\<close>

(* SRC cli 79-104 USAGE *)
definition USAGE :: bytes where
  "USAGE = concat (map (\<lambda>line. line @ [10])
    [as_bytes ''avault '' @ [0xE2, 0x80, 0x94] @ as_bytes '' Avibe Vaults custody core'',
     as_bytes '''',
     as_bytes ''USAGE:'',
     as_bytes ''    avault [--store auto|keychain|tpm|file|file-passphrase] COMMAND ...'',
     as_bytes ''    avault seal --name NAME'',
     as_bytes ''    avault seal --name NAME --blind-box'',
     as_bytes ''    avault deliver run --name NAME --env VAR [--envelope-file PATH] -- COMMAND [ARGS...]'',
     as_bytes ''    avault deliver run -- COMMAND [ARGS...] < run-secrets.json'',
     as_bytes ''    avault deliver fetch < fetch-request.json'',
     as_bytes ''    avault deliver inject < inject-request.json'',
     as_bytes ''    avault key export'',
     as_bytes ''    avault key import [--force]'',
     as_bytes ''    avault key authorize'',
     as_bytes ''    avault pubkey'',
     as_bytes ''    avault sign < sign-request.json'',
     as_bytes ''    avault agent [--store auto|keychain|tpm|file|file-passphrase] [--unlock] [--socket PATH] [--idle-timeout-secs SECS]'',
     as_bytes ''    avault version'',
     as_bytes '''',
     as_bytes ''P1 reads secret values, envelopes, and passphrases from stdin. Plaintext never belongs in argv.'',
     as_bytes ''deliver fetch requires request.allowed_hosts before attaching a credential.'',
     as_bytes ''auto uses macOS Keychain on macOS, Linux TPM when available, and the file store elsewhere.'',
     as_bytes ''file-passphrase is opt-in. Its unlock passphrase is read from the first stdin line.'',
     as_bytes ''Only `key authorize` may show macOS Keychain UI; run it when another command asks for it'',
     as_bytes ''with exit status 77 (keychain_authorization_required).''])"

definition VERSION :: string where
  "VERSION = ''0.1.8''"

(* SRC cli run *)
definition run_program ::
    "('sc, 'pt, 'k, 'e) command_env_scheme \<Rightarrow> os_args \<Rightarrow> 'k command_sys \<Rightarrow> (outcome \<times> 'k command_sys) option" where
  "run_program E args g = (case parse_global_options (ho_env (ce_host E)) args of
       Inl e \<Rightarrow> Some (Returned (Inl e), g)
     | Inr (config, args) \<Rightarrow> (case next_value args of
         None \<Rightarrow> Some (returned (then_st (print_text E USAGE g) (\<lambda>_ g. (Inr 0, g))))
       | Some cmd \<Rightarrow>
           let rest = tl args
           in if cmd = ''version'' \<or> cmd = ''--version'' \<or> cmd = ''-V''
              then Some (returned (then_st (println E (as_bytes (''avault '' @ VERSION)) g) (\<lambda>_ g. (Inr 0, g))))
              else if cmd = ''help'' \<or> cmd = ''--help'' \<or> cmd = ''-h''
              then Some (returned (then_st (print_text E USAGE g) (\<lambda>_ g. (Inr 0, g))))
              else if cmd = ''seal'' then Some (returned (seal_cmd E rest config g))
              else if cmd = ''deliver'' then Some (returned (deliver_cmd E rest config g))
              else if cmd = ''key'' then map_option returned (key_cmd E rest config g)
              else if cmd = ''pubkey'' then Some (returned (pubkey_cmd E rest config g))
              else if cmd = ''sign'' then Some (returned (sign_cmd E rest config g))
              else if cmd = ''agent'' then Some (agent_cmd E rest config g)
              else if cmd = ''__agent-run-helper'' then Some (agent_run_helper_cmd E rest g)
              else Some (returned (then_st (print_text E USAGE g) (\<lambda>_ g. (Inr 64, g))))))"

end
