(* ===== verification/KeychainPrompts.thy ===== *)
theory KeychainPrompts
  imports MasterKeys
begin

text \<open>
  Which operations may show the Keychain's authorization dialog. \<open>security_framework\<close> can disable the
  user interface for a call; while it is disabled, no operation shows a dialog (\<open>prompt_laws\<close>). The
  lemmas here push this through \<open>SystemKeychain::call\<close> in background mode, the policy functions
  and the operations of a host: only authorizing a key can show a dialog.
\<close>

section \<open>A counter of dialogs\<close>

text \<open>
  \<open>ui\<close> tells whether the user interface is enabled for the process, \<open>prompts\<close> how many dialogs
  the user has seen.
\<close>

definition prompt_laws :: "'k security \<Rightarrow> ('k \<Rightarrow> bool) \<Rightarrow> ('k \<Rightarrow> nat) \<Rightarrow> bool" where
  "prompt_laws S ui prompts \<longleftrightarrow>
     (\<forall>k. prompts (snd (disable_user_interaction S k)) = prompts k \<and>
          (fst (disable_user_interaction S k) = Inr () \<longrightarrow> \<not> ui (snd (disable_user_interaction S k)))) \<and>
     (\<forall>k. prompts (restore_user_interaction S k) = prompts k) \<and>
     (\<forall>k. \<not> ui k \<longrightarrow> \<not> ui (snd (default_keychain S k)) \<and> prompts (snd (default_keychain S k)) = prompts k) \<and>
     (\<forall>service account k. \<not> ui k \<longrightarrow> prompts (snd (get_generic_password S service account k)) = prompts k) \<and>
     (\<forall>service account b k. \<not> ui k \<longrightarrow> prompts (snd (add_generic_password S service account b k)) = prompts k) \<and>
     (\<forall>service account b k. \<not> ui k \<longrightarrow> prompts (snd (set_generic_password S service account b k)) = prompts k)"

text \<open>A field of the state that every step of a sequence leaves alone.\<close>

lemma then_st_field:
  assumes "h (snd m) = c" "\<And>x s. h s = c \<Longrightarrow> h (snd (f x s)) = c"
  shows "h (snd (then_st m f)) = c"
  using assms by (cases m; cases "fst m") auto

lemma from_status_simps [simp]:
  "from_status (Inl c, k) = (Inl [KeychainStatus c], k)" "from_status (Inr x, k) = (Inr x, k)"
  by (simp_all add: from_status_def)

lemma snd_from_status [simp]: "snd (from_status m) = snd m"
  by (cases m; cases "fst m") (auto simp: from_status_def)

section \<open>A silent Keychain\<close>

locale silent_keychain =
  fixes K :: "'k keychain" and prompts :: "'k \<Rightarrow> nat"
  assumes silent_read: "prompts (snd (kc_read K k)) = prompts k"
    and silent_add: "prompts (snd (kc_add K key k)) = prompts k"
    and silent_replace: "prompts (snd (kc_replace K key k)) = prompts k"
begin

lemma read_st: "kc_read K k = (r, k') \<Longrightarrow> prompts k' = prompts k"
  using silent_read [of k] by simp

lemma add_st: "kc_add K key k = (r, k') \<Longrightarrow> prompts k' = prompts k"
  using silent_add [of key k] by simp

lemma silent_on_fs: "prompts (snd (snd (on_fs f w))) = prompts (snd w)"
  by (simp add: on_fs_def case_prod_unfold Let_def)

lemma silent_on_keychain:
  "prompts (snd (f (snd w))) = prompts (snd w) \<Longrightarrow> prompts (snd (snd (on_keychain f w))) = prompts (snd w)"
  by (simp add: on_keychain_def case_prod_unfold Let_def)

lemma silent_import: "prompts (snd (import_keychain_key K key force k)) = prompts k"
  by (auto simp: import_keychain_key_def silent_replace dest: add_st split: prod.splits sum.splits)

lemma silent_migrate: "prompts (snd (migrate_file_key_to_keychain K key k)) = prompts k"
proof -
  obtain r k1 where 1: "kc_read K k = (r, k1)" by (metis surj_pair)
  obtain r2 k2 where 2: "kc_add K key k1 = (r2, k2)" by (metis surj_pair)
  have "prompts k1 = prompts k" "prompts k2 = prompts k"
    using read_st [OF 1] add_st [OF 2] by simp_all
  then show ?thesis
    unfolding migrate_file_key_to_keychain_def 1 prod.case
    by (cases r; cases r2) (auto simp: 2 silent_read intro!: then_st_field [where h = prompts])
qed

lemma silent_get_or_create: "prompts (snd (snd (get_or_create_keychain_key K os w))) = prompts (snd w)"
proof -
  obtain r w1 where 1: "on_keychain (kc_read K) w = (r, w1)" by (metis surj_pair)
  have w1: "prompts (snd w1) = prompts (snd w)"
    using silent_on_keychain [of "kc_read K" w] 1 by (simp add: silent_read)
  have add: "prompts (snd (snd (case on_keychain (kc_add K key) v of
       (Inr _, w) \<Rightarrow> (Inr key, w)
     | (Inl e, w) \<Rightarrow> if is_keychain_duplicate e then on_keychain (kc_read K) w
                    else (Inl (Msg ''failed to create master key in Keychain'' # e), w)))) = prompts (snd v)" for key v
  proof -
    obtain r v1 where 2: "on_keychain (kc_add K key) v = (r, v1)" by (metis surj_pair)
    have "prompts (snd v1) = prompts (snd v)"
      using silent_on_keychain [of "kc_add K key" v] 2 by (simp add: silent_add)
    then show ?thesis unfolding 2 by (cases r) (simp_all add: silent_on_keychain silent_read)
  qed
  show ?thesis
    using w1 unfolding get_or_create_keychain_key_def 1
    by (cases r) (auto intro!: then_st_field [where h = "\<lambda>w. prompts (snd w)"] simp: silent_on_fs add)
qed

lemma silent_load_auto: "prompts (snd (snd (load_auto_master_key_with K os p create w))) = prompts (snd w)"
proof -
  have load: "prompts (snd (snd (case (if create then get_or_create_keychain_key K os v else on_keychain (kc_read K) v) of
           (Inr key, w) \<Rightarrow> (Inr key, w)
         | (Inl e, w) \<Rightarrow>
             if is_keychain_unavailable e
             then (Inl (Msg ''Keychain is unavailable and no existing file master key was found'' # e), w)
             else (Inl e, w)))) = prompts (snd v)" for v
  proof -
    obtain r v1 where 2: "(if create then get_or_create_keychain_key K os v else on_keychain (kc_read K) v) = (r, v1)"
      by (metis surj_pair)
    have "prompts (snd v1) = prompts (snd v)"
      using silent_get_or_create [of os v] silent_on_keychain [of "kc_read K" v] 2
      by (auto simp: silent_read split: if_splits)
    then show ?thesis unfolding 2 by (cases r) simp_all
  qed
  show ?thesis
    unfolding load_auto_master_key_with_def
  proof (rule then_st_field [where h = "\<lambda>w. prompts (snd w)"])
    fix file_key and v :: "fs \<times> 'k" assume v: "prompts (snd v) = prompts (snd w)"
    show "prompts (snd (snd (case file_key of
       Some key \<Rightarrow> on_keychain (migrate_file_key_to_keychain K key) v
     | None \<Rightarrow> (case (if create then get_or_create_keychain_key K os v else on_keychain (kc_read K) v) of
           (Inr key, w) \<Rightarrow> (Inr key, w)
         | (Inl e, w) \<Rightarrow>
             if is_keychain_unavailable e
             then (Inl (Msg ''Keychain is unavailable and no existing file master key was found'' # e), w)
             else (Inl e, w))))) = prompts (snd w)"
    proof (cases file_key)
      case None
      then show ?thesis using load [of v] v by (simp only: option.case)
    next
      case (Some key)
      then show ?thesis using v by (simp add: silent_on_keychain silent_migrate)
    qed
  qed (simp add: silent_on_fs)
qed

lemma silent_import_auto: "prompts (snd (snd (import_auto_master_key K os env key force w))) = prompts (snd w)"
proof -
  let ?h = "\<lambda>w. prompts (snd w)"
  have store: "prompts (snd (snd (case on_keychain (import_keychain_key K key force) v of
          (Inr _, w) \<Rightarrow> (Inr (), w)
        | (Inl e, w) \<Rightarrow>
            if is_keychain_unavailable e
            then (Inl (Msg ''Keychain is unavailable; use --store file to import into file storage'' # e), w)
            else (Inl e, w)))) = prompts (snd v)" for v
  proof -
    obtain r v1 where 2: "on_keychain (import_keychain_key K key force) v = (r, v1)" by (metis surj_pair)
    have "prompts (snd v1) = prompts (snd v)"
      using silent_on_keychain [of "import_keychain_key K key force" v] 2 by (simp add: silent_import)
    then show ?thesis unfolding 2 by (cases r) simp_all
  qed
  have looked: "?h (snd (case q of None \<Rightarrow> (False, v) | Some p \<Rightarrow> on_fs (path_exists os p) v)) = ?h v"
    for q and v :: "fs \<times> 'k"
    by (simp add: silent_on_fs split: option.split)
  show ?thesis
    unfolding import_auto_master_key_def
  proof (rule then_st_field [where h = ?h])
    fix p and v :: "fs \<times> 'k" assume v: "?h v = ?h w"
    obtain ex v1 where 1: "(case p of None \<Rightarrow> (False, v) | Some p \<Rightarrow> on_fs (path_exists os p) v) = (ex, v1)"
      by (metis surj_pair)
    have v1: "?h v1 = ?h w" using looked [of v p] 1 v by simp
    then show "?h (snd (let (ex, w) = (case p of None \<Rightarrow> (False, v) | Some p \<Rightarrow> on_fs (path_exists os p) v)
      in if ex
         then if \<not> force then (bail ''master key already exists'', w)
              else then_st (context_st ''failed to store imported master key in Keychain''
                              (on_keychain (import_keychain_key K key True) w)) (\<lambda>_ w.
                   context_st ''failed to store imported master key in file store''
                     (on_fs (file_import os (the p) key True) w))
         else (case on_keychain (import_keychain_key K key force) w of
                (Inr _, w) \<Rightarrow> (Inr (), w)
              | (Inl e, w) \<Rightarrow>
                  if is_keychain_unavailable e
                  then (Inl (Msg ''Keychain is unavailable; use --store file to import into file storage'' # e), w)
                  else (Inl e, w)))) = ?h w"
      unfolding 1 Let_def prod.case
      by (auto simp: store silent_on_fs silent_on_keychain silent_import intro!: then_st_field [where h = ?h])
  qed simp
qed

end

text \<open>Background calls are made with the user interface disabled.\<close>

locale prompting_security =
  fixes S :: "'k security" and ui :: "'k \<Rightarrow> bool" and prompts :: "'k \<Rightarrow> nat"
  assumes prompt_security: "prompt_laws S ui prompts"
begin

lemma background_call:
  assumes "\<And>k. \<not> ui k \<Longrightarrow> prompts (snd (call k)) = prompts k"
  shows "prompts (snd (system_call S Background call k)) = prompts k"
proof -
  obtain r k1 where d: "disable_user_interaction S k = (r, k1)" by (metis surj_pair)
  have k1: "prompts k1 = prompts k" "r = Inr () \<Longrightarrow> \<not> ui k1"
    using prompt_security d unfolding prompt_laws_def by (metis fst_conv snd_conv)+
  have restore: "prompts (restore_user_interaction S k) = prompts k" for k
    using prompt_security by (simp add: prompt_laws_def)
  show ?thesis
  proof (cases r)
    case (Inl c)
    then show ?thesis using d k1 by (simp add: system_call_def from_status_def)
  next
    case (Inr u)
    obtain rc k2 where c: "call k1 = (rc, k2)" by (metis surj_pair)
    have "prompts k2 = prompts k" using assms [of k1] c k1 Inr by simp
    then show ?thesis using d Inr c by (cases rc) (simp_all add: system_call_def from_status_def restore)
  qed
qed

lemma background_read: "prompts (snd (system_read S Background k)) = prompts k"
proof -
  have "prompts (snd (get_generic_password S KEYCHAIN_SERVICE KEYCHAIN_ACCOUNT k)) = prompts k" if "\<not> ui k" for k
    using prompt_security that by (simp add: prompt_laws_def)
  then show ?thesis
    unfolding system_read_def
    by (intro background_call then_st_field [where h = prompts]) auto
qed

lemma background_add: "prompts (snd (system_add S Background key k)) = prompts k"
proof -
  have "prompts (snd (then_st (from_status (default_keychain S k)) (\<lambda>_ k.
           from_status (add_generic_password S KEYCHAIN_SERVICE KEYCHAIN_ACCOUNT key k)))) = prompts k" if "\<not> ui k" for k
  proof -
    obtain r k1 where d: "default_keychain S k = (r, k1)" by (metis surj_pair)
    have "\<not> ui k1" "prompts k1 = prompts k"
      using prompt_security that d unfolding prompt_laws_def by (metis snd_conv)+
    then have "prompts (snd (add_generic_password S KEYCHAIN_SERVICE KEYCHAIN_ACCOUNT key k1)) = prompts k"
      using prompt_security by (simp add: prompt_laws_def)
    then show ?thesis using d \<open>prompts k1 = prompts k\<close> by (cases r) simp_all
  qed
  then show ?thesis unfolding system_add_def by (intro background_call)
qed

lemma background_replace: "prompts (snd (system_replace S Background key k)) = prompts k"
  unfolding system_replace_def
  by (rule background_call) (use prompt_security in \<open>simp add: prompt_laws_def\<close>)

lemma background_silent: "silent_keychain (system_keychain S Background) prompts"
  by unfold_locales (simp_all add: system_keychain_def background_read background_add background_replace)

end

sublocale prompting_security \<subseteq> background: silent_keychain "system_keychain S Background" prompts
  by (rule background_silent)

section \<open>The operations of a host\<close>

text \<open>The stores other than the Keychain never touch it.\<close>

lemma on_fs_snd [simp]: "snd (snd (on_fs f w)) = snd w"
  by (simp add: on_fs_def case_prod_unfold Let_def)

lemma at_path_snd [simp]: "snd (snd (at_path r f w)) = snd w"
  by (cases r) (simp_all add: at_path_def)

lemma keychain_only_prompts:
  "prompts (snd (snd (f w))) = prompts (snd w) \<Longrightarrow> prompts (snd (snd (keychain_only H f w))) = prompts (snd w)"
  by (simp add: keychain_only_def)

lemma passphrase_needed_snd [simp]: "snd (passphrase_needed w) = w"
  by (simp add: passphrase_needed_def)

context prompting_security
begin

lemma load_or_create_silent:
  assumes "ho_security H = S"
  shows "prompts (snd (snd (load_or_create_master_key H b w))) = prompts (snd w)"
proof -
  have named: "prompts (snd (snd (load_or_create_named H b w))) = prompts (snd w)" for b
    using assms background.silent_get_or_create [of "ho_os H" w]
    by (cases b) (auto simp: load_or_create_named_def keychain_get_or_create_def intro: keychain_only_prompts)
  have "prompts (snd (snd (load_or_create_auto_master_key S os env w))) = prompts (snd w)"
    for os :: os and env
    unfolding load_or_create_auto_master_key_def
    by (rule then_st_field [where h = "\<lambda>w. prompts (snd w)"]) (simp_all add: background.silent_load_auto)
  then show ?thesis
    using named assms
    by (cases "ho_platform H") (simp_all add: load_or_create_master_key_def load_or_create_auto_def)
qed

lemma load_silent:
  assumes "ho_security H = S"
  shows "prompts (snd (snd (load_master_key H b w))) = prompts (snd w)"
proof -
  have get: "prompts (snd (snd (on_keychain (keychain_get S) w))) = prompts (snd w)"
    by (simp add: on_keychain_def keychain_get_def background.silent_read case_prod_unfold Let_def)
  have named: "prompts (snd (snd (load_named H b w))) = prompts (snd w)" for b
    using assms get by (cases b) (auto simp: load_named_def intro: keychain_only_prompts)
  have "prompts (snd (snd (load_auto_master_key S os env w))) = prompts (snd w)"
    for os :: os and env
    unfolding load_auto_master_key_def
    by (rule then_st_field [where h = "\<lambda>w. prompts (snd w)"]) (simp_all add: background.silent_load_auto)
  then show ?thesis
    using named assms by (cases "ho_platform H") (simp_all add: load_master_key_def load_auto_def)
qed

lemma import_silent:
  assumes "ho_security H = S"
  shows "prompts (snd (snd (store_import_master_key H b key force w))) = prompts (snd w)"
proof -
  have put: "prompts (snd (snd (on_keychain (keychain_import S key force) w))) = prompts (snd w)"
    by (simp add: on_keychain_def keychain_import_def background.silent_import case_prod_unfold Let_def)
  have named: "prompts (snd (snd (import_named H b key force w))) = prompts (snd w)" for b
    using assms put by (cases b) (auto simp: import_named_def intro: keychain_only_prompts)
  then show ?thesis
    using assms
    by (cases "ho_platform H") (simp_all add: background.silent_import_auto store_import_master_key_def import_auto_def)
qed

end

section \<open>A sample\<close>

text \<open>A Keychain whose item needs a dialog to be read, and refuses while it cannot show one.\<close>

record counted_keychain =
  ck_item :: "bytes option"
  ck_ui :: bool
  ck_prompts :: nat

definition counted_security :: "counted_keychain security" where
  "counted_security = \<lparr>
     disable_user_interaction = (\<lambda>k. (Inr (), k\<lparr>ck_ui := False\<rparr>)),
     restore_user_interaction = (\<lambda>k. k\<lparr>ck_ui := True\<rparr>),
     get_generic_password = (\<lambda>_ _ k. case ck_item k of
        None \<Rightarrow> (Inl ERR_SEC_ITEM_NOT_FOUND, k)
      | Some b \<Rightarrow> if ck_ui k then (Inr b, k\<lparr>ck_prompts := Suc (ck_prompts k)\<rparr>)
                  else (Inl ERR_SEC_INTERACTION_NOT_ALLOWED, k)),
     default_keychain = (\<lambda>k. (Inr (), k)),
     add_generic_password = (\<lambda>_ _ b k. case ck_item k of
        None \<Rightarrow> (Inr (), k\<lparr>ck_item := Some b\<rparr>) | Some _ \<Rightarrow> (Inl ERR_SEC_DUPLICATE_ITEM, k)),
     set_generic_password = (\<lambda>_ _ b k. (Inr (), k\<lparr>ck_item := Some b\<rparr>)),
     page_available = (\<lambda>_. True)\<rparr>"

lemma counted_prompt_laws: "prompt_laws counted_security ck_ui ck_prompts"
  by (auto simp: prompt_laws_def counted_security_def split: option.splits)

interpretation counted: prompting_security counted_security ck_ui ck_prompts
  by (rule prompting_security.intro [OF counted_prompt_laws])

end
