(* ===== verification/CommandEffects.thy ===== *)
theory CommandEffects
  imports Commands KeychainPrompts
begin

text \<open>
  What the commands leave alone. A locale, \<open>command_field\<close>, is a field of the state of the program
  that counting a call, reading standard input and the store operations do not change; its lemmas
  carry that through the stages of every command up to its output. It is interpreted on standard
  output, on the child processes and on the dialogs of the Keychain; two extensions add the writing
  of the output and the starting of a child.
\<close>

section \<open>Two commands that stand out\<close>

definition subcommand :: "string \<Rightarrow> string \<Rightarrow> environment \<Rightarrow> os_args \<Rightarrow> bool" where
  "subcommand cmd sub env args = (case parse_global_options env args of
       Inl _ \<Rightarrow> False
     | Inr (_, args) \<Rightarrow> next_value args = Some cmd \<and> next_value (tl args) = Some sub)"

abbreviation "authorizes \<equiv> subcommand ''key'' ''authorize''"
abbreviation "delivers_run \<equiv> subcommand ''deliver'' ''run''"

text \<open>The dispatch of \<open>run\<close>.\<close>

definition print_and_exit ::
    "('sc, 'pt, 'k, 'e) command_env_scheme \<Rightarrow> bytes \<Rightarrow> byte \<Rightarrow> 'k command_sys \<Rightarrow> byte res \<times> 'k command_sys" where
  "print_and_exit E msg status g = then_st (print_text E msg g) (\<lambda>_ g. (Inr status, g))"

definition version_line :: bytes where
  "version_line = as_bytes (''avault '' @ VERSION) @ [10]"

lemma run_program_cases:
  assumes run: "run_program E args g = Some rg"
    and parse: "parse_global_options (ho_env (ce_host E)) args = Inr (config, rest)"
  shows "rg = returned (print_and_exit E USAGE 0 g) \<or> rg = returned (print_and_exit E USAGE 64 g) \<or>
    rg = returned (print_and_exit E version_line 0 g) \<or> rg = returned (seal_cmd E (tl rest) config g) \<or>
    next_value rest = Some ''deliver'' \<and> rg = returned (deliver_cmd E (tl rest) config g) \<or>
    next_value rest = Some ''key'' \<and> (\<exists>k. key_cmd E (tl rest) config g = Some k \<and> rg = returned k) \<or>
    rg = returned (pubkey_cmd E (tl rest) config g) \<or> rg = returned (sign_cmd E (tl rest) config g) \<or>
    rg = agent_cmd E (tl rest) config g \<or> rg = agent_run_helper_cmd E (tl rest) g"
proof (cases "next_value rest")
  case None
  then show ?thesis using run parse by (simp add: run_program_def print_and_exit_def)
next
  case (Some cmd)
  have "run_program E args g = (if cmd = ''version'' \<or> cmd = ''--version'' \<or> cmd = ''-V''
              then Some (returned (print_and_exit E version_line 0 g))
              else if cmd = ''help'' \<or> cmd = ''--help'' \<or> cmd = ''-h''
              then Some (returned (print_and_exit E USAGE 0 g))
              else if cmd = ''seal'' then Some (returned (seal_cmd E (tl rest) config g))
              else if cmd = ''deliver'' then Some (returned (deliver_cmd E (tl rest) config g))
              else if cmd = ''key'' then map_option returned (key_cmd E (tl rest) config g)
              else if cmd = ''pubkey'' then Some (returned (pubkey_cmd E (tl rest) config g))
              else if cmd = ''sign'' then Some (returned (sign_cmd E (tl rest) config g))
              else if cmd = ''agent'' then Some (agent_cmd E (tl rest) config g)
              else if cmd = ''__agent-run-helper'' then Some (agent_run_helper_cmd E (tl rest) g)
              else Some (returned (print_and_exit E USAGE 64 g)))"
    unfolding run_program_def parse Let_def print_and_exit_def version_line_def println_def
      sum.case prod.case Some option.case by (rule refl)
  from this [unfolded run] show ?thesis
    unfolding Some by (auto split: if_split_asm dest!: sym [where t = "map_option f x" for f x])
qed

section \<open>What every stage keeps\<close>

text \<open>
  A relation between the states before and after, kept by the steps the commands are made of: counting
  a call, reading standard input, loading or creating the master key, binding the socket. Two extensions add the
  writing of the output and the starting of a child.
\<close>

locale command_relation =
  fixes E :: "('sc, 'pt, 'k, 'e) command_env_scheme" and rel :: "'k command_sys \<Rightarrow> 'k command_sys \<Rightarrow> bool"
  assumes same: "rel g g" and joins: "\<lbrakk>rel g g1; rel g1 g2\<rbrakk> \<Longrightarrow> rel g g2"
    and keeps_call [simp]: "rel g (count_call g)"
    and keeps_input [simp]: "rel g (g\<lparr>cs_input := i\<rparr>)"
    and keeps_load [simp]: "rel g (snd (on_stores (load_master_key (ce_host E) b) g))"
    and keeps_create [simp]: "rel g (snd (on_stores (load_or_create_master_key (ce_host E) b) g))"
    and keeps_passphrase_load [simp]: "rel g (snd (on_stores (on_fs
          (load_passphrase_master_key (ce_store E) (ho_os (ce_host E)) (ho_env (ce_host E)) pw)) g))"
    and keeps_passphrase_create [simp]: "rel g (snd (on_stores (on_fs
          (load_or_create_passphrase_master_key (ce_store E) (ho_os (ce_host E)) (ho_env (ce_host E)) pw)) g))"
    and keeps_bind [simp]: "rel g (snd (on_stores (on_fs
          (bind_agent_socket (ce_socket_os E) (ho_env (ce_host E)) path)) g))"
begin

lemma sequence: "rel g (snd m) \<Longrightarrow> (\<And>x s. rel s (snd (f x s))) \<Longrightarrow> rel g (snd (then_st m f))"
  by (cases m; cases "fst m") (auto simp: same intro: joins)

lemma after_call: "rel (count_call g) g' \<Longrightarrow> rel g g'"
  by (rule joins [OF keeps_call])

lemma keeps_on_input [simp]: "rel g (snd (on_input f g))"
  by (simp add: same on_input_def case_prod_unfold Let_def)

lemma keeps_io [simp]: "rel g (snd (io_res m (r, count_call g)))"
  by (cases r) (simp_all add: same io_res_def)

lemma keeps_load_existing [simp]: "rel g (snd (load_existing_master_from_unlock E unlock g))"
  by (cases unlock) (simp_all add: same load_existing_master_from_unlock_def Let_def)

lemma keeps_load_or_create [simp]: "rel g (snd (load_or_create_master_from_unlock E unlock g))"
  by (cases unlock) (simp_all add: same load_or_create_master_from_unlock_def Let_def)

lemma keeps_read_unlock [simp]: "rel g (snd (read_unlock config g))"
  by (simp add: same read_unlock_def)

lemma keeps_read_parsed [simp]: "rel g (snd (read_parsed unreadable invalid parse g))"
  unfolding read_parsed_def by (rule sequence) (simp_all add: same)

lemma keeps_seal_value [simp]: "rel g (snd (seal_value E master name value g))"
  by (simp add: same seal_value_def Let_def)

lemma keeps_seal_blind_box [simp]: "rel g (snd (seal_blind_box E name unlock g))"
  unfolding seal_blind_box_def by (intro sequence) (simp_all add: same)

lemma keeps_seal_plaintext [simp]: "rel g (snd (seal_plaintext E name unlock g))"
  unfolding seal_plaintext_def by (intro sequence) (simp_all add: same)

lemma keeps_open_env [simp]: "rel g (snd (open_env_secrets_with_unlock E secrets unlock g))"
  unfolding open_env_secrets_with_unlock_def by (rule sequence) (simp_all add: same)

lemma keeps_open_named [simp]: "rel g (snd (open_named_secrets_with_unlock E secrets unlock g))"
  unfolding open_named_secrets_with_unlock_def by (rule sequence) (simp_all add: same)

lemma keeps_open_one_shot [simp]: "rel g (snd (open_one_shot_secret_unloaded E fetch unlock g))"
  unfolding open_one_shot_secret_unloaded_def by (intro sequence) (simp_all add: same)

lemma keeps_agent_source [simp]: "rel g (snd (agent_master_source E options g))"
  unfolding agent_master_source_def by (auto simp: same intro!: sequence split: store_selection.split)

lemma keeps_returned [simp]: "snd (returned rg) = snd rg"
  by (simp add: same returned_def)

lemma keeps_run_agent [simp]: "rel g (snd (run_agent E options g))"
  unfolding run_agent_def Let_def
  by (rule sequence, simp, rule after_call, intro sequence) (simp_all add: same)

lemma keeps_agent_cmd: "rel g (snd (agent_cmd E args config g))"
proof -
  obtain r g1 where 1: "then_st (parse_agent_options (ho_env (ce_host E)) args config, g) (run_agent E) = (r, g1)"
    by (metis surj_pair)
  have "rel g (snd (then_st (parse_agent_options (ho_env (ce_host E)) args config, g) (run_agent E)))"
    by (rule sequence) (simp_all add: same)
  then show ?thesis using 1 by (cases r) (simp_all add: same agent_cmd_def)
qed

lemma keeps_run_helper: "rel g (snd (agent_run_helper_cmd E args g))"
proof -
  have "rel g (snd (then_st (on_input (read_agent_run_helper_frame stream_read) g) (\<lambda>opened g.
                     (helper_variables opened, g))))"
    by (rule sequence) (simp_all add: same)
  then show ?thesis
    by (auto simp: same agent_run_helper_cmd_def Let_def split: sum.split option.split prod.split intro: joins [OF _ keeps_call])
qed

end

text \<open>A relation that writing the output keeps too.\<close>

abbreviation "injects \<equiv> subcommand ''deliver'' ''inject''"

locale printing_relation = command_relation +
  assumes keeps_stdout [simp]: "rel g (g\<lparr>cs_stdout := out\<rparr>)"
begin

lemma keeps_write [simp]: "rel g (snd (write_stdout E bs g))"
  using joins [OF keeps_call keeps_stdout] by (simp add: same write_stdout_def case_prod_unfold Let_def)

lemma keeps_print [simp]: "rel g (snd (print_text E bs g))"
proof -
  obtain r g1 where 1: "write_stdout E bs g = (r, g1)" by (metis surj_pair)
  then have "rel g g1" using keeps_write [of g bs] by simp
  with 1 show ?thesis by (cases r) (simp_all add: same print_text_def)
qed

lemma keeps_println [simp]: "rel g (snd (println E bs g))"
  by (simp add: same println_def)

lemma keeps_io_write [simp]: "rel g (snd (io_res m (write_stdout E bs g)))"
  using keeps_write [of g bs] by (cases "write_stdout E bs g"; cases "fst (write_stdout E bs g)") (simp_all add: same io_res_def)

lemma keeps_print_json [simp]: "rel g (snd (print_json E m out g))"
  unfolding print_json_def by (rule sequence) (simp_all add: same)

lemma keeps_seal_cmd: "rel g (snd (seal_cmd E args config g))"
  unfolding seal_cmd_def by (intro sequence) (simp_all add: same)

lemma keeps_pubkey_cmd: "rel g (snd (pubkey_cmd E args config g))"
  unfolding pubkey_cmd_def by (auto simp: same intro!: sequence)

lemma keeps_sign_cmd: "rel g (snd (sign_cmd E args config g))"
  unfolding sign_cmd_def by (auto simp: same intro!: sequence)

lemma keeps_fetch_cmd: "rel g (snd (deliver_fetch_cmd E args config g))"
  unfolding deliver_fetch_cmd_def by (auto simp: same intro!: sequence)

lemma keeps_inject_cmd:
  assumes "\<And>path bs s. rel s (snd (on_stores (on_fs (atomic_write_secret_file (ho_os (ce_host E)) path bs)) s))"
  shows "rel g (snd (deliver_inject_cmd E args config g))"
  using assms unfolding deliver_inject_cmd_def by (auto simp: same intro!: sequence)

lemma keeps_export_cmd: "rel g (snd (key_export_cmd E config g))"
  unfolding key_export_cmd_def Let_def by (intro sequence) (simp_all add: same)

lemmas keeps_one_shot = keeps_seal_cmd keeps_pubkey_cmd keeps_sign_cmd keeps_fetch_cmd
  keeps_export_cmd keeps_agent_cmd keeps_run_helper

text \<open>What is left of a run is \<open>key import\<close>, \<open>key authorize\<close> and \<open>deliver run\<close>.\<close>

lemma keeps_others:
  assumes "run_program E args g = Some (out, g')"
    and "\<not> authorizes (ho_env (ce_host E)) args" "\<not> delivers_run (ho_env (ce_host E)) args"
    and import: "\<And>config rest. \<lbrakk>parse_global_options (ho_env (ce_host E)) args = Inr (config, rest);
        next_value rest = Some ''key''; next_value (tl rest) = Some ''import''\<rbrakk> \<Longrightarrow>
        rel g (snd (key_import_cmd E (tl (tl rest)) config g))"
    and inject: "\<And>a config. injects (ho_env (ce_host E)) args \<Longrightarrow> rel g (snd (deliver_inject_cmd E a config g))"
  shows "rel g g'"
proof (cases "parse_global_options (ho_env (ce_host E)) args")
  case (Inl e)
  then show ?thesis using assms(1) by (simp add: same run_program_def)
next
  case (Inr parsed)
  obtain config rest where parse: "parse_global_options (ho_env (ce_host E)) args = Inr (config, rest)"
    using Inr by (cases parsed) simp
  have "rel g (snd (print_and_exit E msg status g))" for msg status
    unfolding print_and_exit_def by (rule sequence) (simp_all add: same)
  moreover have "rel g (snd (deliver_cmd E (tl rest) config g))" if "next_value rest = Some ''deliver''"
    using that assms(3) inject parse
    by (auto simp: same subcommand_def deliver_cmd_def keeps_one_shot split: option.split)
  moreover have "rel g (snd rg)"
    if "next_value rest = Some ''key''" "key_cmd E (tl rest) config g = Some rg" for rg
    using that assms(2) import parse
    by (auto simp: same subcommand_def key_cmd_def keeps_one_shot split: option.splits if_splits)
  ultimately have "rel g (snd (out, g'))"
    using run_program_cases [OF assms(1) parse] by (elim disjE conjE exE) (simp_all add: same keeps_one_shot)
  then show ?thesis by simp
qed

end

text \<open>A relation that starting a child keeps too.\<close>

locale starting_relation = printing_relation +
  assumes keeps_started [simp]: "rel g (g\<lparr>cs_children := children\<rparr>)"
begin

lemma keeps_spawn [simp]: "rel g (snd (spawn_child_with_opened_env E command opened e i g))"
  unfolding spawn_child_with_opened_env_def Let_def by (intro sequence) (simp_all add: same)

lemma keeps_run_child [simp]: "rel g (snd (run_child_with_opened_env E command opened e g))"
  unfolding run_child_with_opened_env_def by (intro sequence) (simp_all add: same)

lemma keeps_run_cmd: "rel g (snd (deliver_run_cmd E args config g))"
proof -
  have "rel g (snd (deliver_run_single E options command unlock g))" for options command unlock g
    unfolding deliver_run_single_def Let_def
    by (rule sequence, simp add: same, rule sequence, rule after_call) (simp_all add: same sequence)
  moreover have "rel g (snd (deliver_run_many E command unlock g))" for command unlock g
    unfolding deliver_run_many_def by (auto simp: same intro!: sequence)
  ultimately show ?thesis
    unfolding deliver_run_cmd_def by (auto simp: same intro!: sequence split: prod.split)
qed

lemma keeps_more:
  assumes "run_program E args g = Some (out, g')" "\<not> authorizes (ho_env (ce_host E)) args"
    and import: "\<And>config rest. \<lbrakk>parse_global_options (ho_env (ce_host E)) args = Inr (config, rest);
        next_value rest = Some ''key''; next_value (tl rest) = Some ''import''\<rbrakk> \<Longrightarrow>
        rel g (snd (key_import_cmd E (tl (tl rest)) config g))"
    and inject: "\<And>a config. injects (ho_env (ce_host E)) args \<Longrightarrow> rel g (snd (deliver_inject_cmd E a config g))"
  shows "rel g g'"
proof (cases "delivers_run (ho_env (ce_host E)) args")
  case True
  then obtain config rest where parse: "parse_global_options (ho_env (ce_host E)) args = Inr (config, rest)"
      and run: "next_value rest = Some ''deliver''" "next_value (tl rest) = Some ''run''"
    by (auto simp: same subcommand_def split: sum.splits)
  have "run_program E args g = Some (returned (deliver_run_cmd E (tl (tl rest)) config g))"
    by (simp add: same run_program_def parse run Let_def deliver_cmd_def)
  then show ?thesis using assms(1) keeps_run_cmd [of g "tl (tl rest)" config] by (simp add: same returned_def)
qed (rule keeps_others [OF assms(1,2) _ import inject])

end

section \<open>A field no stage changes\<close>

locale command_field =
  fixes E :: "('sc, 'pt, 'k, 'e) command_env_scheme" and h :: "'k command_sys \<Rightarrow> 'h"
  assumes call [simp]: "h (count_call g) = h g"
    and input [simp]: "h (g\<lparr>cs_input := i\<rparr>) = h g"
    and files: "h (g\<lparr>cs_gate := (cs_gate g)\<lparr>gt_world := (s, snd (gt_world (cs_gate g)))\<rparr>\<rparr>) = h g"
    and load [simp]: "h (snd (on_stores (load_master_key (ce_host E) b) g)) = h g"
    and create [simp]: "h (snd (on_stores (load_or_create_master_key (ce_host E) b) g)) = h g"
    and import [simp]: "h (snd (on_stores (store_import_master_key (ce_host E) b key force) g)) = h g"
begin

lemmas then_keeps = then_st_field [where h = h]

lemma field_on_fs [simp]: "h (snd (on_stores (on_fs f) g)) = h g"
  by (simp add: on_stores_def on_fs_def case_prod_unfold Let_def files)

end

sublocale command_field \<subseteq> command_relation E "\<lambda>g g'. h g' = h g"
  by unfold_locales simp_all

context command_field
begin

lemma field_at_path [simp]: "h (snd (on_stores (at_path p f) g)) = h g"
proof (cases p)
  case (Inl e)
  then show ?thesis
    using files [where g = g and s = "fst (gt_world (cs_gate g))"] by (simp add: on_stores_def at_path_def)
next
  case (Inr path)
  then have "on_stores (at_path p f) g = on_stores (on_fs (f path)) g"
    by (simp add: on_stores_def at_path_def)
  then show ?thesis by simp
qed

lemma keeps_import_unlock [simp]: "h (snd (import_master_with_unlock E unlock key force g)) = h g"
  by (cases unlock) (simp_all add: import_master_with_unlock_def Let_def)

end

text \<open>A field that writing the output does not change either, and one that starting a child does not.\<close>

locale printing_field = command_field +
  assumes printed [simp]: "h (g\<lparr>cs_stdout := out\<rparr>) = h g"

sublocale printing_field \<subseteq> printing_relation E "\<lambda>g g'. h g' = h g"
  by unfold_locales simp_all

context printing_field
begin

lemma keeps_import_cmd: "h (snd (key_import_cmd E args config g)) = h g"
  unfolding key_import_cmd_def by (intro then_keeps) simp_all

lemmas keeps_inject = keeps_inject_cmd [OF field_on_fs]

lemma keeps_program:
  "\<lbrakk>run_program E args g = Some (out, g'); \<not> authorizes (ho_env (ce_host E)) args;
    \<not> delivers_run (ho_env (ce_host E)) args\<rbrakk> \<Longrightarrow> h g' = h g"
  by (rule keeps_others [OF _ _ _ keeps_import_cmd keeps_inject])

end

locale starting_field = printing_field +
  assumes started [simp]: "h (g\<lparr>cs_children := children\<rparr>) = h g"

sublocale starting_field \<subseteq> starting_relation E "\<lambda>g g'. h g' = h g"
  by unfold_locales simp_all

context starting_field
begin

lemma keeps_unless_authorizing:
  "\<lbrakk>run_program E args g = Some (out, g'); \<not> authorizes (ho_env (ce_host E)) args\<rbrakk> \<Longrightarrow> h g' = h g"
  by (rule keeps_more [OF _ _ keeps_import_cmd keeps_inject])

end

section \<open>The dialogs of the Keychain\<close>

locale prompting_host =
  fixes E :: "('sc, 'pt, 'k, 'e) command_env_scheme" and ui :: "'k \<Rightarrow> bool" and prompts :: "'k \<Rightarrow> nat"
  assumes host_security: "prompt_laws (ho_security (ce_host E)) ui prompts"

sublocale prompting_host \<subseteq> security: prompting_security "ho_security (ce_host E)" ui prompts
  by unfold_locales (rule host_security)

sublocale prompting_host \<subseteq> dialogs: starting_field E "\<lambda>g. prompts (snd (gt_world (cs_gate g)))"
  by unfold_locales
     (simp_all add: count_call_def on_stores_def case_prod_unfold Let_def security.load_silent
        security.load_or_create_silent security.import_silent)

context prompting_host
begin

lemmas unless_authorizing = dialogs.keeps_unless_authorizing

lemma serving_silent: "prompts (snd (snd (agent_load_master E setup w))) = prompts (snd w)"
  by (simp add: agent_load_master_def security.load_silent split: sum.split)

end

section \<open>Standard output and the children\<close>

interpretation children: printing_field E cs_children for E
  by unfold_locales (simp_all add: count_call_def on_stores_def case_prod_unfold Let_def)

interpretation stdout: command_field E cs_stdout for E
  by unfold_locales (simp_all add: count_call_def on_stores_def case_prod_unfold Let_def)

section \<open>What is printed\<close>

text \<open>
  What a successful command prints: the usage, the version, an acknowledgement or one line of JSON. A
  standard output that never fails takes everything that is written.
\<close>

definition reliable_stdout :: "('sc, 'pt, 'k, 'e) command_env_scheme \<Rightarrow> bool" where
  "reliable_stdout E \<longleftrightarrow> (\<forall>c out bs. ce_stdout E c out bs = (Inr (), out @ bs))"

definition is_output :: "('sc, 'pt, 'k, 'e) command_env_scheme \<Rightarrow> bytes \<Rightarrow> bool" where
  "is_output E msg \<longleftrightarrow> msg \<in> {USAGE, version_line, ok_json @ [10]} \<or> (\<exists>out. msg = ce_json E out @ [10])"

definition says :: "('sc, 'pt, 'k, 'e) command_env_scheme \<Rightarrow> bytes \<Rightarrow> 'a res \<times> 'k command_sys \<Rightarrow> bool" where
  "says E before rg = (case fst rg of
       Inl _ \<Rightarrow> cs_stdout (snd rg) = before
     | Inr _ \<Rightarrow> \<exists>msg. is_output E msg \<and> cs_stdout (snd rg) = before @ msg)"

lemma says_then:
  assumes "cs_stdout (snd m) = before" "\<And>x s. cs_stdout s = before \<Longrightarrow> says E before (f x s)"
  shows "says E before (then_st m f)"
  using assms by (cases m; cases "fst m") (auto simp: says_def)

lemma says_bail: "cs_stdout g = before \<Longrightarrow> says E before (bail m, g)"
  by (simp add: says_def bail_def)

lemma print_text_reliable:
  "reliable_stdout E \<Longrightarrow> print_text E bs g = (Inr (), (count_call g)\<lparr>cs_stdout := cs_stdout g @ bs\<rparr>)"
  by (simp add: reliable_stdout_def print_text_def write_stdout_def)

lemma says_print:
  "\<lbrakk>reliable_stdout E; is_output E msg; cs_stdout g = before\<rbrakk>
   \<Longrightarrow> says E before (then_st (print_text E msg g) (\<lambda>_ g. (Inr status, g)))"
  by (auto simp: print_text_reliable says_def)

lemma says_ok:
  "\<lbrakk>reliable_stdout E; cs_stdout g = before\<rbrakk>
   \<Longrightarrow> says E before (then_st (println E ok_json g) (\<lambda>_ g. (Inr status, g)))"
  by (simp add: println_def says_print is_output_def)

lemma print_json_reliable:
  assumes "reliable_stdout E"
  shows "\<exists>g'. print_json E m out g = (Inr (), g') \<and> cs_stdout g' = cs_stdout g @ ce_json E out @ [10]"
  using assms by (simp add: print_json_def write_stdout_def reliable_stdout_def io_res_def println_def
      print_text_def)

lemma says_json:
  assumes "reliable_stdout E" "cs_stdout g = before"
  shows "says E before (then_st (print_json E m out g) (\<lambda>_ g. (Inr status, g)))"
proof -
  obtain g' where "print_json E m out g = (Inr (), g')" "cs_stdout g' = cs_stdout g @ ce_json E out @ [10]"
    using print_json_reliable [OF assms(1)] by blast
  then show ?thesis using assms(2) by (auto simp: says_def is_output_def)
qed

text \<open>The agent environment has nothing to do with it: every stage before the output is silent.\<close>

lemma one_shot_says:
  assumes "reliable_stdout E"
  shows "says E (cs_stdout g) (seal_cmd E args config g)"
    and "says E (cs_stdout g) (pubkey_cmd E args config g)"
    and "says E (cs_stdout g) (sign_cmd E args config g)"
    and "says E (cs_stdout g) (deliver_fetch_cmd E args config g)"
    and "says E (cs_stdout g) (deliver_inject_cmd E args config g)"
    and "says E (cs_stdout g) (key_export_cmd E config g)"
    and "says E (cs_stdout g) (key_import_cmd E args config g)"
proof -
  note step = says_json [OF assms] says_ok [OF assms] says_then says_bail
  show "says E (cs_stdout g) (seal_cmd E args config g)"
    unfolding seal_cmd_def by (intro step) simp_all
  show "says E (cs_stdout g) (pubkey_cmd E args config g)"
    unfolding pubkey_cmd_def by (auto intro!: step)
  show "says E (cs_stdout g) (sign_cmd E args config g)"
    unfolding sign_cmd_def by (auto intro!: step)
  show "says E (cs_stdout g) (deliver_fetch_cmd E args config g)"
    unfolding deliver_fetch_cmd_def by (auto intro!: step)
  show "says E (cs_stdout g) (deliver_inject_cmd E args config g)"
    unfolding deliver_inject_cmd_def by (auto intro!: step)
  show "says E (cs_stdout g) (key_export_cmd E config g)"
    unfolding key_export_cmd_def Let_def by (intro step) simp_all
  show "says E (cs_stdout g) (key_import_cmd E args config g)"
    unfolding key_import_cmd_def by (intro step) simp_all
qed

lemma says_cong: "\<lbrakk>says E b rg; b = b'\<rbrakk> \<Longrightarrow> says E b' rg"
  by simp

lemma authorize_says:
  fixes g :: "'c command_sys"
  assumes "reliable_stdout E" and run: "key_authorize_cmd E args config g = Some rg"
  shows "says E (cs_stdout g) rg"
proof (cases "args = []")
  case False
  then show ?thesis using run by (auto simp: key_authorize_cmd_def says_bail)
next
  case True
  obtain r g1 where 1: "read_unlock config g = (r, g1)" by (metis surj_pair)
  have g1: "cs_stdout g1 = cs_stdout g" using stdout.keeps_read_unlock [of config g] 1 by simp
  show ?thesis
  proof (cases r)
    case (Inl e)
    then show ?thesis using run True 1 g1 by (auto simp: key_authorize_cmd_def says_def)
  next
    case (Inr unlock)
    have "\<exists>m :: unit res \<times> 'c command_sys. cs_stdout (snd m) = cs_stdout g \<and>
        rg = then_st m (\<lambda>_ g. then_st (println E ok_json g) (\<lambda>_ g. (Inr 0, g)))"
    proof (cases unlock)
      case (UnlockStandard b)
      then obtain r2 gate where "authorize_master_key (ce_gate E) (ce_host E) b (cs_gate g1) = Some (r2, gate)"
        and "rg = then_st (r2, g1\<lparr>cs_gate := gate\<rparr>) (\<lambda>_ g. then_st (println E ok_json g) (\<lambda>_ g. (Inr 0, g)))"
        using run True 1 Inr by (auto simp: key_authorize_cmd_def)
      then show ?thesis using g1 by (intro exI [of _ "(r2, g1\<lparr>cs_gate := gate\<rparr>)"]) simp
    next
      case (UnlockFilePassphrase p)
      let ?m = "then_st (load_existing_master_from_unlock E unlock g1) (\<lambda>_ g. (Inr (), g))"
      have "rg = then_st ?m (\<lambda>_ g. then_st (println E ok_json g) (\<lambda>_ g. (Inr 0, g)))"
        using run True 1 Inr UnlockFilePassphrase by (simp add: key_authorize_cmd_def)
      moreover have "cs_stdout (snd ?m) = cs_stdout g"
        using g1 by (intro stdout.then_keeps) simp_all
      ultimately show ?thesis by blast
    qed
    then obtain m :: "unit res \<times> 'c command_sys" where m: "cs_stdout (snd m) = cs_stdout g"
        "rg = then_st m (\<lambda>_ g. then_st (println E ok_json g) (\<lambda>_ g. (Inr 0, g)))"
      by (elim exE conjE)
    show ?thesis
      unfolding m(2) by (rule says_then [OF m(1)]) (rule says_ok [OF assms(1)])
  qed
qed

lemma run_cmd_stdout: "cs_stdout (snd (deliver_run_cmd E args config g)) = cs_stdout g"
proof -
  note keep = stdout.then_keeps
  have spawn: "cs_stdout (snd (spawn_child_with_opened_env E command opened e i g)) = cs_stdout g" for command opened e i g
    unfolding spawn_child_with_opened_env_def Let_def by (intro keep) simp_all
  have child: "cs_stdout (snd (run_child_with_opened_env E command opened e g)) = cs_stdout g" for command opened e g
    unfolding run_child_with_opened_env_def by (intro keep) (simp_all add: spawn)
  have "cs_stdout (snd (deliver_run_single E options command unlock g)) = cs_stdout g" for options command unlock g
    unfolding deliver_run_single_def Let_def by (intro keep) (simp_all add: child)
  moreover have "cs_stdout (snd (deliver_run_many E command unlock g)) = cs_stdout g" for command unlock g
    unfolding deliver_run_many_def by (auto intro!: keep simp: child)
  ultimately show ?thesis
    unfolding deliver_run_cmd_def by (auto intro!: keep split: prod.split)
qed

end
