(* ===== verification/CommandProperties.thy ===== *)
theory CommandProperties
  imports CommandEffects
begin

text \<open>
  Properties of whole runs of the program: which child processes start and with which environment,
  that a sealed value reaches the child it is delivered to, what is printed, and which command may
  ask the user of a Mac.
\<close>

section \<open>The environment of a child\<close>

text \<open>A variable for every secret of the request, each opened from its own envelope.\<close>

definition opened_environment ::
    "'e core_env_scheme \<Rightarrow> master_key \<Rightarrow> env_secret_input list \<Rightarrow> (string \<times> string) list \<Rightarrow> bool" where
  "opened_environment E master secrets vars \<longleftrightarrow>
     distinct (map es_env secrets) \<and>
     list_all2 (\<lambda>s (name, value). name = es_env s \<and> es_tier s = Standard \<and>
        validate_shell_name name ''env var name'' = Inr () \<and>
        open_envelope E master (es_name s) (es_envelope s) = Inr (as_bytes value) \<and>
        validate_env_value (as_bytes value) = Inr ()) secrets vars"

lemma from_utf8_bytes: "from_utf8 bs = Some v \<Longrightarrow> as_bytes v = bs"
  by (auto simp: from_utf8_def split: if_splits)

lemma child_variables_eq_Inr:
  "child_variables opened = Inr vars \<longleftrightarrow>
     list_all2 (\<lambda>secret (name, value). name = os_name secret \<and> os_plaintext secret = as_bytes value \<and>
        from_utf8 (os_plaintext secret) = Some value \<and> validate_env_value (os_plaintext secret) = Inr ()) opened vars"
proof (induction opened arbitrary: vars)
  case (Cons secret opened)
  show ?case
  proof (cases "from_utf8 (os_plaintext secret)")
    case None
    then show ?thesis by (cases vars) (auto simp: res_simps)
  next
    case (Some v)
    then show ?thesis
      by (cases vars) (auto simp: res_simps Cons.IH from_utf8_bytes)
  qed
qed auto

lemma opened_environment_exact:
  assumes "open_env_secrets E master secrets = Inr opened" "child_variables opened = Inr vars"
  shows "opened_environment E master secrets vars"
proof -
  have opens: "with_context m (open_one_shot_secret E (es_name s) (es_envelope s) (es_dek_blindbox s)
        (es_approval s) master) = Inr p \<Longrightarrow> open_envelope E master (es_name s) (es_envelope s) = Inr p" for m s p
    by (auto simp: open_one_shot_secret_def reject_one_shot_protected_fields_def res_simps split: if_splits)
  have tier: "ensure_one_shot_standard_tier t = Inr () \<longleftrightarrow> t = Standard" for t
    by (simp add: ensure_one_shot_standard_tier_def)
  have each: "list_all (\<lambda>s. es_tier s = Standard \<and> validate_shell_name (es_env s) ''env var name'' = Inr ()) secrets"
      "distinct (map es_env secrets)"
      "list_all2 (\<lambda>s secret. os_name secret = es_env s \<and>
         open_envelope E master (es_name s) (es_envelope s) = Inr (os_plaintext secret)) secrets opened"
    using assms(1) opens unfolding open_env_secrets_def open_each_eq_Inr tier
    by (auto elim!: list_all2_mono)
  have "list_all2 (\<lambda>s (name, value). name = es_env s \<and> es_tier s = Standard \<and>
        validate_shell_name name ''env var name'' = Inr () \<and>
        open_envelope E master (es_name s) (es_envelope s) = Inr (as_bytes value) \<and>
        validate_env_value (as_bytes value) = Inr ()) secrets vars"
    using each(1,3) assms(2) unfolding child_variables_eq_Inr
    by (auto simp: list_all2_conv_all_nth list_all_length split_beta)
  then show ?thesis using each(2) by (simp add: opened_environment_def)
qed

section \<open>The children of a run\<close>

text \<open>
  What a delivery was asked for: the command after the dashes, the secrets of the JSON on standard
  input or the one of the options and its envelope, how the store is unlocked, and whether the child
  gets no standard input.
\<close>

definition delivery_request ::
    "('sc, 'pt, 'k, 'e) command_env_scheme \<Rightarrow> os_args \<Rightarrow> cli_config \<Rightarrow> 'k command_sys
     \<Rightarrow> (os_args \<times> env_secret_input list \<times> store_unlock \<times> bool) res \<times> 'k command_sys" where
  "delivery_request E args config g =
     then_st (ok_or ''deliver run requires -- before the command'' (split_at_dashes args), g) (\<lambda>(options, command) g.
     if command = [] then (bail ''deliver run requires a command'', g)
     else then_st (read_unlock config g) (\<lambda>unlock g.
          if options = []
          then then_st (read_parsed ''failed to read deliver run JSON from stdin'' ''deliver run JSON is invalid''
                          (ce_env_secrets E) g) (\<lambda>secrets g.
               if secrets = [] then (bail ''deliver run requires at least one secret'', g)
               else (Inr (command, secrets, unlock, True), g))
          else then_st (parse_deliver_run_options options, g) (\<lambda>run g.
               then_st (on_input (read_envelope (ce_read_file E (cs_calls g)) stream_read (dro_envelope_file run))
                          (count_call g)) (\<lambda>envelope g.
               then_st (with_context ''envelope JSON is invalid'' (lib_res ''serde_json'' (ce_sealed E envelope)), g) (\<lambda>sealed g.
               (Inr (command, [\<lparr>es_name = dro_name run, es_env = dro_env_name run, es_tier = Standard,
                     es_envelope = sealed, es_dek_blindbox = None, es_approval = None\<rparr>], unlock,
                     dro_envelope_file run = None), g))))))"

lemma then_st_assoc: "then_st (then_st m f) h = then_st m (\<lambda>x s. then_st (f x s) h)"
  by (cases m; cases "fst m") auto

lemma deliver_run_request:
  "deliver_run_cmd E args config g =
     then_st (delivery_request E args config g) (\<lambda>(command, secrets, unlock, stdin_null) g.
     then_st (open_env_secrets_with_unlock E secrets unlock g) (\<lambda>opened g.
     run_child_with_opened_env E command opened stdin_null g))"
  unfolding deliver_run_cmd_def delivery_request_def deliver_run_many_def deliver_run_single_def Let_def
  by (simp add: then_st_assoc case_prod_unfold if_distrib [where f = "\<lambda>x. then_st x f" for f] if_distribR
      cong: if_cong)

lemma request_children: "cs_children (snd (delivery_request E args config g)) = cs_children g"
  unfolding delivery_request_def
  by (auto simp: case_prod_unfold intro!: children.then_keeps)

definition starts_opened ::
    "('sc, 'pt, 'k, 'e) command_env_scheme \<Rightarrow> os_args \<Rightarrow> cli_config \<Rightarrow> 'k command_sys \<Rightarrow> 'k command_sys \<Rightarrow> bool" where
  "starts_opened E args config g g' \<longleftrightarrow>
     (\<exists>command secrets unlock stdin_null g1 master g2 vars.
        delivery_request E args config g = (Inr (command, secrets, unlock, stdin_null), g1) \<and>
        load_existing_master_from_unlock E unlock g1 = (Inr master, g2) \<and>
        opened_environment (ae_core E) master secrets vars \<and>
        cs_children g' = cs_children g @
          [\<lparr>ch_command = command, ch_env_clear = False, ch_env = vars, ch_stdin_null = stdin_null\<rparr>])"

lemma run_cmd_starts:
  fixes g :: "'k command_sys"
  assumes "deliver_run_cmd E args config g = (r, g')"
  shows "cs_children g' = cs_children g \<or> starts_opened E args config g g'"
proof (cases "\<exists>x. fst (delivery_request E args config g) = Inr x")
  case False
  then have "cs_children g' = cs_children g"
    using assms request_children [of E args config g]
    by (cases "delivery_request E args config g"; cases "fst (delivery_request E args config g)")
       (auto simp: deliver_run_request)
  then show ?thesis ..
next
  case True
  then obtain command secrets unlock stdin_null g1 where
      req: "delivery_request E args config g = (Inr (command, secrets, unlock, stdin_null), g1)"
    by (metis prod.collapse prod_cases4)
  have c1: "cs_children g1 = cs_children g" using request_children [of E args config g] req by simp
  obtain ro g2 where o: "open_env_secrets_with_unlock E secrets unlock g1 = (ro, g2)" by (metis surj_pair)
  have c2: "cs_children g2 = cs_children g" using children.keeps_open_env [of E secrets unlock g1] o c1 by simp
  show ?thesis
  proof (cases ro)
    case (Inl e)
    then show ?thesis using assms req o c2 by (simp add: deliver_run_request)
  next
    case (Inr opened)
    have g': "g' = snd (run_child_with_opened_env E command opened stdin_null g2)"
      using assms req o Inr by (simp add: deliver_run_request)
    obtain master where load: "load_existing_master_from_unlock E unlock g1 = (Inr master, g2)"
        and opens: "open_env_secrets (ae_core E) master secrets = Inr opened"
      using o Inr by (auto simp: open_env_secrets_with_unlock_def res_simps)
    show ?thesis
    proof (cases "child_variables opened")
      case (Inl e)
      then show ?thesis
        using c2 g' by (simp add: run_child_with_opened_env_def spawn_child_with_opened_env_def)
    next
      case vars: (Inr vars)
      let ?child = "\<lparr>ch_command = command, ch_env_clear = False, ch_env = vars, ch_stdin_null = stdin_null\<rparr>"
      have "cs_children g' \<in> {cs_children g, cs_children g @ [?child]}"
        using c2 unfolding g'
        by (cases "ce_spawn E (cs_calls g2) ?child"; cases "ce_wait E (Suc (cs_calls g2)) ?child")
           (simp_all add: run_child_with_opened_env_def spawn_child_with_opened_env_def vars io_res_def
             count_call_def Let_def)
      then show ?thesis
        using req load opened_environment_exact [OF opens vars] unfolding starts_opened_def by blast
    qed
  qed
qed

lemma authorize_children:
  assumes run: "key_authorize_cmd E args config g = Some rg"
  shows "cs_children (snd rg) = cs_children g"
proof (cases "args = []")
  case False
  then show ?thesis using run by (auto simp: key_authorize_cmd_def)
next
  case True
  obtain r g1 where 1: "read_unlock config g = (r, g1)" by (metis surj_pair)
  have g1: "cs_children g1 = cs_children g" using children.keeps_read_unlock [of config g] 1 by simp
  show ?thesis
  proof (cases r)
    case (Inl e)
    then show ?thesis using run True 1 g1 by (auto simp: key_authorize_cmd_def)
  next
    case (Inr unlock)
    show ?thesis
      using run True 1 Inr g1
      by (cases unlock) (auto simp: key_authorize_cmd_def intro!: children.then_keeps)
  qed
qed

lemma run_children:
  assumes run: "run_program E args g = Some (out, g')"
  shows "cs_children g' = cs_children g \<or>
    (\<exists>config rest. parse_global_options (ho_env (ce_host E)) args = Inr (config, rest) \<and>
       next_value rest = Some ''deliver'' \<and> next_value (tl rest) = Some ''run'' \<and>
       starts_opened E (tl (tl rest)) config g g')"
proof (cases "delivers_run (ho_env (ce_host E)) args")
  case False
  show ?thesis
  proof (cases "authorizes (ho_env (ce_host E)) args")
    case False
    then show ?thesis using children.keeps_program [OF run False] \<open>\<not> delivers_run _ _\<close> by simp
  next
    case True
    then obtain config rest where parse: "parse_global_options (ho_env (ce_host E)) args = Inr (config, rest)"
        and sub: "next_value rest = Some ''key''" "next_value (tl rest) = Some ''authorize''"
      by (auto simp: subcommand_def split: sum.splits)
    have "run_program E args g = map_option returned (key_authorize_cmd E (tl (tl rest)) config g)"
      by (simp add: run_program_def parse sub Let_def key_cmd_def)
    then obtain rg where "key_authorize_cmd E (tl (tl rest)) config g = Some rg" "(out, g') = returned rg"
      using run by (cases "key_authorize_cmd E (tl (tl rest)) config g") auto
    then show ?thesis using authorize_children [of E "tl (tl rest)" config g rg] by (simp add: returned_def)
  qed
next
  case True
  then obtain config rest where parse: "parse_global_options (ho_env (ce_host E)) args = Inr (config, rest)"
      and sub: "next_value rest = Some ''deliver''" "next_value (tl rest) = Some ''run''"
    by (auto simp: subcommand_def split: sum.splits)
  have "run_program E args g = Some (returned (deliver_run_cmd E (tl (tl rest)) config g))"
    by (simp add: run_program_def parse sub Let_def deliver_cmd_def)
  then have "deliver_run_cmd E (tl (tl rest)) config g = (fst (deliver_run_cmd E (tl (tl rest)) config g), g')"
    using run by (simp add: returned_def)
  from run_cmd_starts [OF this] show ?thesis using parse sub by blast
qed

section \<open>From sealing to a child\<close>

text \<open>A key that was read once is read again while its files stay as they are.\<close>

lemma file_get_parent:
  assumes "file_get os p s = (Inr k, s')"
  shows "\<exists>n. nodes s (writable_parent p) = Some n \<and> node_mode n AND 63 = 0"
proof -
  obtain s1 where "validate_parent_directory_mode os p s = (Inr (), s1)"
    using assms by (auto simp: file_get_def res_simps)
  then show ?thesis
    using validate_directory_mode_Inr by (fastforce simp: validate_parent_directory_mode_def)
qed

lemma file_get_or_create_got:
  assumes "file_get_or_create os p s = (Inr k, s')"
  shows "\<exists>s1. file_get os p s1 = (Inr k, s') \<and> nodes s1 = nodes s'"
proof -
  obtain r1 s1 where 1: "file_get os p s = (r1, s1)" by (metis surj_pair)
  have n: "nodes t' = nodes t" if "file_get os p t = (r, t')" for r t t'
    using nodes_file_get [of os p t] that by simp
  show ?thesis
  proof (cases r1)
    case (Inl e)
    then obtain s2 where "file_get os p s2 = (Inr k, s')"
      using assms by (auto simp: file_get_or_create_def 1 res_simps)
    then show ?thesis using n by metis
  next
    case (Inr key)
    then show ?thesis using assms 1 n by (auto simp: file_get_or_create_def)
  qed
qed

lemma file_key_again:
  assumes first: "file_get_or_create os p s = (Inr k, s1)" and same: "nodes s2 = nodes s1"
    and quiet: "\<And>n. fault os n = None" "\<And>n. \<not> alloc_fails os n"
  shows "\<exists>s3. file_get os p s2 = (Inr k, s3)"
proof -
  obtain s0 where got: "file_get os p s0 = (Inr k, s1)" "nodes s0 = nodes s1"
    using file_get_or_create_got [OF first] by blast
  obtain n where parent: "nodes s0 (writable_parent p) = Some n" "node_mode n AND 63 = 0"
    using file_get_parent [OF got(1)] by blast
  have "key_file p s2 = Some k"
    using file_get_sound [OF got(1)] got(2) same by (simp add: key_file_def)
  then have "fst (file_get os p s2) = Inr k"
    using parent got(2) same quiet by (intro file_get_complete) auto
  then show ?thesis by (metis prod.collapse)
qed

text \<open>The JSON forms agree: what serde writes for an envelope and a newline parses to the envelope.\<close>

definition sealed_json :: "('sc, 'pt, 'k, 'e) command_env_scheme \<Rightarrow> bool" where
  "sealed_json E \<longleftrightarrow> (\<forall>s. ce_sealed E (ce_json E (SealedOut s) @ [10]) = Some s)"

definition sealing_laws :: "('sc, 'pt, 'k, 'e) command_env_scheme \<Rightarrow> bool" where
  "sealing_laws E \<longleftrightarrow> aead_correct (ae_core E) \<and> base64_correct (ae_core E) \<and> wrap_meta_json_correct (ae_core E) \<and>
     sealed_json E \<and> reliable_stdout E \<and>
     (\<forall>c. length (ce_random E c 0) = KEY_BYTES \<and> length (ce_random E c 1) = NONCE_BYTES \<and>
          length (ce_random E c 2) = NONCE_BYTES)"

definition quiet_files :: "os \<Rightarrow> bool" where
  "quiet_files os \<longleftrightarrow> (\<forall>n. fault os n = None \<and> \<not> alloc_fails os n)"

lemma seal_cmd_effect:
  assumes laws: "sealing_laws E" and sel: "cfg_store config = SelFile"
    and options: "parse_seal_options args = Inr opts" "\<not> so_blind_box opts"
    and run: "seal_cmd E args config g = (Inr status, g1)"
  obtains s plaintext p key fs1 where
    "fst (read_stdin_zeroizing_from stream_read (cs_input g)) = Inr plaintext"
    "default_master_key_path (ho_env (ce_host E)) = Inr p"
    "file_get_or_create (ho_os (ce_host E)) p (fst (gt_world (cs_gate g))) = (Inr key, fs1)"
    "gt_world (cs_gate g1) = (fs1, snd (gt_world (cs_gate g)))"
    "cs_stdout g1 = cs_stdout g @ ce_json E (SealedOut s) @ [10]"
    "open_envelope (ae_core E) key (so_name opts) s = Inr plaintext"
proof -
  have unlock: "read_unlock config g = (Inr (UnlockStandard File), g)"
    by (simp add: read_unlock_def on_input_def read_store_unlock_def sel)
  obtain s g2 where sealed: "seal_plaintext E (so_name opts) (UnlockStandard File) g = (Inr s, g2)"
      and printed: "then_st (print_json E ''failed to write envelope JSON'' (SealedOut s) g2) (\<lambda>_ g. (Inr 0, g)) = (Inr status, g1)"
    using run options by (auto simp: seal_cmd_def unlock res_simps)
  obtain plaintext g3 key g4 where read: "context_st ''failed to read plaintext value from stdin''
        (on_input (read_stdin_zeroizing_from stream_read) g) = (Inr plaintext, g3)"
      and load: "load_or_create_master_from_unlock E (UnlockStandard File) g3 = (Inr key, g4)"
      and seal: "seal_value E key (so_name opts) plaintext g4 = (Inr s, g2)"
    using sealed unfolding seal_plaintext_def then_st_eq_Inr by blast
  have plain: "fst (read_stdin_zeroizing_from stream_read (cs_input g)) = Inr plaintext"
      and g3: "cs_gate g3 = cs_gate g" "cs_stdout g3 = cs_stdout g"
    using read by (auto simp: on_input_def res_simps case_prod_unfold Let_def)
  obtain p fs1 where p: "default_master_key_path (ho_env (ce_host E)) = Inr p"
      and key: "file_get_or_create (ho_os (ce_host E)) p (fst (gt_world (cs_gate g))) = (Inr key, fs1)"
      and g4: "gt_world (cs_gate g4) = (fs1, snd (gt_world (cs_gate g)))" "cs_stdout g4 = cs_stdout g"
  proof (cases "default_master_key_path (ho_env (ce_host E))")
    case (Inl e)
    then show ?thesis
      using load by (simp add: load_or_create_master_from_unlock_def load_or_create_master_key_def
        load_or_create_named_def on_stores_def at_path_def Let_def)
  next
    case (Inr p)
    obtain r fs1 where r: "file_get_or_create (ho_os (ce_host E)) p (fst (gt_world (cs_gate g))) = (r, fs1)"
      by (metis surj_pair)
    then have "r = Inr key" "gt_world (cs_gate g4) = (fs1, snd (gt_world (cs_gate g)))" "cs_stdout g4 = cs_stdout g"
      using load g3 Inr by (auto simp: load_or_create_master_from_unlock_def load_or_create_master_key_def
        load_or_create_named_def on_stores_def at_path_def on_fs_def)
    then show ?thesis using that Inr r by blast
  qed
  have g2: "cs_gate g2 = cs_gate g4" "cs_stdout g2 = cs_stdout g4"
      and s: "seal (ae_core E) (ce_random E (cs_calls g4) 0) (ce_random E (cs_calls g4) 1)
        (ce_random E (cs_calls g4) 2) key (so_name opts) plaintext = Inr s"
    using seal by (auto simp: seal_value_def Let_def res_simps count_call_def)
  have "open_envelope (ae_core E) key (so_name opts) s = Inr plaintext"
    using laws by (intro seal_opens [OF _ _ _ _ _ _ s]) (simp_all add: sealing_laws_def)
  moreover have "cs_gate g1 = cs_gate g2" "cs_stdout g1 = cs_stdout g2 @ ce_json E (SealedOut s) @ [10]"
    using printed laws
    by (auto simp: sealing_laws_def print_json_def write_stdout_def reliable_stdout_def io_res_def println_def
        print_text_def count_call_def)
  ultimately show ?thesis using that plain p key g4 g2 by simp
qed

lemma on_file_get:
  assumes "default_master_key_path (ho_env H) = Inr p"
    and "file_get (ho_os H) p (fst (gt_world (cs_gate g))) = (Inr key, fs1)"
  shows "\<exists>g'. on_stores (load_master_key H File) g = (Inr key, g') \<and> cs_children g' = cs_children g"
  using assms by (simp add: load_master_key_def load_named_def on_stores_def at_path_def on_fs_def)

text \<open>The delivery of one secret from an envelope file, where nothing fails.\<close>

lemma deliver_single_effect:
  assumes cmd: "split_at_dashes args = Some (options, command)" "options \<noteq> []" "command \<noteq> []"
    and store: "cfg_store config = SelFile"
    and opts: "parse_deliver_run_options options = Inr run" "dro_envelope_file run = Some path"
    and env_name: "validate_shell_name (dro_env_name run) ''env var name'' = Inr ()"
    and input: "ce_read_file E (cs_calls g) path = Inr json" "ce_sealed E json = Some s"
    and key: "default_master_key_path (ho_env (ce_host E)) = Inr p"
      "file_get (ho_os (ce_host E)) p (fst (gt_world (cs_gate g))) = (Inr key, fs1)"
    and opens: "open_envelope (ae_core E) key (dro_name run) s = Inr (as_bytes plain)"
    and plain: "from_utf8 (as_bytes plain) = Some plain" "0 \<notin> set (as_bytes plain)"
    and child: "child = \<lparr>ch_command = command, ch_env_clear = False, ch_env = [(dro_env_name run, plain)],
                         ch_stdin_null = False\<rparr>"
    and runs: "\<And>c. ce_spawn E c child = Inr ()" "\<And>c. ce_wait E c child = Inr status"
  shows "\<exists>g'. deliver_run_cmd E args config g = (Inr (status_to_exit_code status), g') \<and>
    cs_children g' = cs_children g @ [child]"
proof -
  have unlock: "read_unlock config g = (Inr (UnlockStandard File), g)"
    by (simp add: read_unlock_def on_input_def read_store_unlock_def store)
  let ?secrets = "[\<lparr>es_name = dro_name run, es_env = dro_env_name run, es_tier = Standard,
                     es_envelope = s, es_dek_blindbox = None, es_approval = None\<rparr>]"
  let ?opened = "[\<lparr>os_name = dro_env_name run, os_plaintext = as_bytes plain\<rparr>]"
  have read: "on_input (read_envelope (ce_read_file E (cs_calls g)) stream_read (dro_envelope_file run)) (count_call g)
      = (Inr json, count_call g)"
    using input opts by (simp add: on_input_def read_envelope_def)
  have "gt_world (cs_gate (count_call g)) = gt_world (cs_gate g)" by (simp add: count_call_def)
  then obtain g2 where load: "load_existing_master_from_unlock E (UnlockStandard File) (count_call g) = (Inr key, g2)"
      and g2: "cs_children g2 = cs_children g"
    using on_file_get [OF key(1), of "count_call g"] key(2)
    by (auto simp: load_existing_master_from_unlock_def count_call_def)
  have "open_env_secrets (ae_core E) key ?secrets = Inr ?opened"
    using env_name opens by (simp add: open_env_secrets_def ensure_one_shot_standard_tier_def
        open_one_shot_secret_def reject_one_shot_protected_fields_def)
  then have opened: "open_env_secrets_with_unlock E ?secrets (UnlockStandard File) (count_call g) = (Inr ?opened, g2)"
    by (simp add: open_env_secrets_with_unlock_def load)
  have vars: "child_variables ?opened = Inr (ch_env child)"
    using plain child by (simp add: validate_env_value_def)
  have spawn: "spawn_child_with_opened_env E command ?opened False True g2
      = (Inr child, (count_call g2)\<lparr>cs_children := cs_children g2 @ [child]\<rparr>)"
    unfolding spawn_child_with_opened_env_def vars then_st_simps Let_def
    using child runs by (simp add: io_res_def count_call_def)
  have "\<exists>g'. run_child_with_opened_env E command ?opened False g2 = (Inr (status_to_exit_code status), g') \<and>
      cs_children g' = cs_children g2 @ [child]"
    unfolding run_child_with_opened_env_def spawn then_st_simps runs by (simp add: io_res_def count_call_def)
  then obtain g' where ran: "run_child_with_opened_env E command ?opened False g2 = (Inr (status_to_exit_code status), g')"
      "cs_children g' = cs_children g @ [child]"
    using g2 by auto
  have "deliver_run_single E options command (UnlockStandard File) g = (Inr (status_to_exit_code status), g')"
    using opts input by (simp add: deliver_run_single_def read [simplified opts] opened ran(1) Let_def)
  then show ?thesis
    using cmd ran(2) by (simp add: deliver_run_cmd_def unlock)
qed

section \<open>A sample\<close>

text \<open>
  A Mac whose Keychain would have to ask, with a key file, on which a command is run; and the JSON
  of an envelope as its strings printed one after the other.
\<close>

definition sample_sealed_json :: "sealed \<Rightarrow> bytes" where
  "sample_sealed_json s = as_bytes (sample_str (sl_ciphertext s) @ sample_str (sl_nonce s) @ sl_wrap_meta s)"

definition sample_parse_sealed :: "bytes \<Rightarrow> sealed option" where
  "sample_parse_sealed bs = (case sample_unstr (string_of (butlast bs)) of
       None \<Rightarrow> None
     | Some (c, rest) \<Rightarrow> (case sample_unstr rest of
         None \<Rightarrow> None
       | Some (n, m) \<Rightarrow> Some \<lparr>sl_ciphertext = c, sl_nonce = n, sl_wrap_meta = m\<rparr>))"

definition sample_envelope :: sealed where
  "sample_envelope = (case seal sample_blind (replicate 32 1) (replicate 12 1) (replicate 12 1) sample_key ''n'' [118] of
     Inl _ \<Rightarrow> \<lparr>sl_ciphertext = [], sl_nonce = [], sl_wrap_meta = []\<rparr> | Inr s \<Rightarrow> s)"

definition sample_commands :: "(z3, z3, counted_keychain) command_env" where
  "sample_commands = agent_env.extend sample_agent_env
     \<lparr>we_parse = (\<lambda>_. None), we_current_exe = (\<lambda>_. Inr ()), we_spawn = (\<lambda>_ _. Inr ()), we_stdin = (\<lambda>_. True),
      we_pipe = (\<lambda>_. append_writer), we_wait = (\<lambda>_ _. Inr \<lparr>xs_signal = None, xs_code = Some 0\<rparr>),
      ce_host = \<lparr>ho_platform = MacOS, ho_os = plain_os, ho_env = sample_env, ho_security = counted_security,
        ho_tpm = sample_tpm\<rparr>,
      ce_store = sample_store, ce_gate = sample_gate_env, ce_blind_box = (\<lambda>_. None),
      ce_sealed = sample_parse_sealed, ce_env_secrets = (\<lambda>_. None), ce_fetch_input = (\<lambda>_. None),
      ce_inject_input = (\<lambda>_. None), ce_sign_input = (\<lambda>_. None), ce_export_blob = (\<lambda>_. None),
      ce_json = (\<lambda>out. case out of SealedOut s \<Rightarrow> sample_sealed_json s | _ \<Rightarrow> []),
      ce_random = (\<lambda>_ i. replicate (if i = 0 then 32 else 12) 1),
      ce_read_file = (\<lambda>_ _. Inr (sample_sealed_json sample_envelope @ [10])), ce_stdout = (\<lambda>_ out bs. (Inr (), out @ bs)),
      ce_spawn = (\<lambda>_ _. Inr ()), ce_wait = (\<lambda>_ _. Inr \<lparr>xs_signal = None, xs_code = Some 3\<rparr>),
      ce_exec = (\<lambda>_ _. None), ce_socket_os = AgentSocket.socket_os, ce_set_nonblocking = (\<lambda>_. Inr ())\<rparr>"

lemma sample_commands_simps:
  "ae_core sample_commands = sample_blind" "ce_host sample_commands = \<lparr>ho_platform = MacOS, ho_os = plain_os,
     ho_env = sample_env, ho_security = counted_security, ho_tpm = sample_tpm\<rparr>"
  "ce_sealed sample_commands = sample_parse_sealed"
  "ce_json sample_commands = (\<lambda>out. case out of SealedOut s \<Rightarrow> sample_sealed_json s | _ \<Rightarrow> [])"
  "ce_random sample_commands = (\<lambda>_ i. replicate (if i = 0 then 32 else 12) 1)"
  "ce_read_file sample_commands = (\<lambda>_ _. Inr (sample_sealed_json sample_envelope @ [10]))"
  "ce_stdout sample_commands = (\<lambda>_ out bs. (Inr (), out @ bs))" "ce_spawn sample_commands = (\<lambda>_ _. Inr ())"
  "ce_wait sample_commands = (\<lambda>_ _. Inr \<lparr>xs_signal = None, xs_code = Some 3\<rparr>)"
  by (simp_all add: sample_commands_def agent_env.extend_def sample_agent_env_def)

lemma sample_parse_json: "sample_parse_sealed (sample_sealed_json s @ [b]) = Some s"
  by (simp add: sample_parse_sealed_def sample_sealed_json_def del: as_bytes_append)

lemma sample_sealing_laws: "sealing_laws sample_commands"
proof -
  have "aead_correct sample_blind" "base64_correct sample_blind" "wrap_meta_json_correct sample_blind"
    using sample_aead(1) sample_base64 sample_meta_roundtrip
    by (simp_all add: aead_correct_def base64_correct_def wrap_meta_json_correct_def sample_blind_def
        core_env.extend_def)
  then show ?thesis
    by (simp add: sealing_laws_def sealed_json_def reliable_stdout_def sample_commands_simps sample_parse_json
        KEY_BYTES_def NONCE_BYTES_def)
qed

definition sample_sys :: "bytes \<Rightarrow> counted_keychain command_sys" where
  "sample_sys input = \<lparr>cs_input = [Data input], cs_stdout = [], cs_gate = \<lparr>gt_record = [], gt_millis = 0, gt_calls = 0,
       gt_told = False, gt_world = (home_fs (Some (Reg 384 sample_key)),
         \<lparr>ck_item = Some sample_key, ck_ui = True, ck_prompts = 0\<rparr>)\<rparr>, cs_calls = 0, cs_children = []\<rparr>"

interpretation sample_host: prompting_host sample_commands ck_ui ck_prompts
  by unfold_locales (simp add: sample_commands_simps counted_prompt_laws)

section \<open>Properties\<close>

text \<open>
  C8. A child holds what was opened and nothing else. A run of the program - of \<open>agent\<close>, up to the point where it
  begins to serve - starts at most one child process, only \<open>deliver run\<close> starts one, and it is determined by what
  that run was given: the command after the dashes, the environment of the program extended by one
  variable for each secret of the request that was read, in order and under distinct valid names, each
  with the value that the secret's own envelope opens to under the master key that the
  store gave this run, and no standard input where the request came from there.
\<close>

theorem child_holds_opened:
  "case run_program E args g of
     None \<Rightarrow> True
   | Some (out, g') \<Rightarrow> cs_children g' = cs_children g \<or>
       (\<exists>config rest command secrets unlock stdin_null g1 master g2 vars.
          parse_global_options (ho_env (ce_host E)) args = Inr (config, rest) \<and>
          next_value rest = Some ''deliver'' \<and> next_value (tl rest) = Some ''run'' \<and>
          delivery_request E (tl (tl rest)) config g = (Inr (command, secrets, unlock, stdin_null), g1) \<and>
          load_existing_master_from_unlock E unlock g1 = (Inr master, g2) \<and>
          opened_environment (ae_core E) master secrets vars \<and>
          cs_children g' = cs_children g @
            [\<lparr>ch_command = command, ch_env_clear = False, ch_env = vars, ch_stdin_null = stdin_null\<rparr>])"
proof (cases "run_program E args g")
  case (Some rg)
  then show ?thesis
    using run_children [of E args g "fst rg" "snd rg"] unfolding starts_opened_def
    by (simp add: case_prod_unfold)
qed simp

text \<open>
  C3. What is sealed is what is delivered: the envelope that \<open>seal\<close> prints, given back to
  \<open>deliver run\<close> by a file while the key file stays as it was, starts one child whose environment
  holds exactly the value that was on standard input when it was sealed, and the status is the
  child's. The key file and serde's JSON are all the two runs share. It holds for the file store (\<open>--store file\<close>), a
  value that is text without a zero byte, the name it was sealed under and a valid variable name,
  where no call that reads the key file or the envelope fails and the child can be started and waited for.
\<close>

theorem sealed_value_delivered:
  assumes laws: "sealing_laws E" "quiet_files (ho_os (ce_host E))" and sel: "cfg_store config = SelFile"
    and seal: "parse_seal_options seal_args = Inr opts" "\<not> so_blind_box opts"
      "seal_cmd E seal_args config g = (Inr sealed, g1)"
    and plain: "fst (read_stdin_zeroizing_from stream_read (cs_input g)) = Inr (as_bytes plain)"
      "from_utf8 (as_bytes plain) = Some plain" "0 \<notin> set (as_bytes plain)"
    and cmd: "split_at_dashes args = Some (options, command)" "options \<noteq> []" "command \<noteq> []"
      "parse_deliver_run_options options = Inr run" "dro_name run = so_name opts" "dro_envelope_file run = Some path"
      "validate_shell_name (dro_env_name run) ''env var name'' = Inr ()"
    and kept: "nodes (fst (gt_world (cs_gate g2))) = nodes (fst (gt_world (cs_gate g1)))"
      "ce_read_file E (cs_calls g2) path = Inr (drop (length (cs_stdout g)) (cs_stdout g1))"
    and child: "child = \<lparr>ch_command = command, ch_env_clear = False, ch_env = [(dro_env_name run, plain)],
                         ch_stdin_null = False\<rparr>"
      "\<And>c. ce_spawn E c child = Inr ()" "\<And>c. ce_wait E c child = Inr status"
  shows "\<exists>g3. deliver_run_cmd E args config g2 = (Inr (status_to_exit_code status), g3) \<and>
    cs_children g3 = cs_children g2 @ [child]"
proof -
  obtain s plaintext p key fs1 where
      read: "fst (read_stdin_zeroizing_from stream_read (cs_input g)) = Inr plaintext"
    and path: "default_master_key_path (ho_env (ce_host E)) = Inr p"
    and key: "file_get_or_create (ho_os (ce_host E)) p (fst (gt_world (cs_gate g))) = (Inr key, fs1)"
    and after: "gt_world (cs_gate g1) = (fs1, snd (gt_world (cs_gate g)))"
      "cs_stdout g1 = cs_stdout g @ ce_json E (SealedOut s) @ [10]"
    and opens: "open_envelope (ae_core E) key (so_name opts) s = Inr plaintext"
    by (rule seal_cmd_effect [OF laws(1) sel seal])
  obtain fs3 where get: "file_get (ho_os (ce_host E)) p (fst (gt_world (cs_gate g2))) = (Inr key, fs3)"
    using file_key_again [OF key, of "fst (gt_world (cs_gate g2))"] kept(1) after(1) laws(2)
    by (auto simp: quiet_files_def)
  have json: "ce_read_file E (cs_calls g2) path = Inr (ce_json E (SealedOut s) @ [10])"
      "ce_sealed E (ce_json E (SealedOut s) @ [10]) = Some s"
    using kept(2) after(2) laws(1) by (simp_all add: sealing_laws_def sealed_json_def)
  show ?thesis
    by (rule deliver_single_effect [OF cmd(1-3) sel cmd(4,6,7) json path get _ plain(2,3) child])
       (use opens read plain(1) cmd(5) in simp)
qed

lemma sample_read: "read_stdin_zeroizing_from stream_read [Data [118]] = (Inr [118], [])"
  by (simp add: read_stdin_zeroizing_from_def read_zeroizing_to_cap_def read_to_cap.simps
      MAX_STDIN_SECRET_BYTES_def STDIN_READ_CHUNK_BYTES_def)

lemma sample_get: "\<exists>s. file_get plain_os sample_key_path (home_fs (Some (Reg 384 sample_key))) = (Inr sample_key, s)
    \<and> nodes s = nodes (home_fs (Some (Reg 384 sample_key)))"
proof -
  have "fst (file_get plain_os sample_key_path (home_fs (Some (Reg 384 sample_key)))) = Inr sample_key"
    by (rule file_get_complete [where n = "Dir 448"])
       (simp_all add: plain_os_simps key_file_def home_fs_nodes sample_paths length_sample_key)
  then show ?thesis
    using nodes_file_get [of plain_os sample_key_path "home_fs (Some (Reg 384 sample_key))"]
    by (metis prod.collapse)
qed

lemma sample_seal_value:
  "seal sample_blind (replicate 32 1) (replicate 12 1) (replicate 12 1) sample_key ''n'' [118] = Inr sample_envelope"
proof -
  obtain s where "seal sample_blind (replicate 32 1) (replicate 12 1) (replicate 12 1) sample_key ''n'' [118] = Inr s"
    by (simp add: seal_def sample_blind_def core_env.extend_def sample_core_def encrypt_with_key_def Let_def
        sample_meta_to_json_def)
  then show ?thesis by (simp add: sample_envelope_def)
qed

lemma sample_options:
  "parse_seal_options [arg ''--name'', arg ''n''] = Inr \<lparr>so_name = ''n'', so_blind_box = False\<rparr>"
  "parse_deliver_run_options [arg ''--name'', arg ''n'', arg ''--env'', arg ''V'', arg ''--envelope-file'', arg ''e'']
     = Inr \<lparr>dro_name = ''n'', dro_env_name = ''V'', dro_envelope_file = Some ''e''\<rparr>"
  "split_at_dashes [arg ''--name'', arg ''n'', arg ''--env'', arg ''V'', arg ''--envelope-file'', arg ''e'', arg ''--'', arg ''c'']
     = Some ([arg ''--name'', arg ''n'', arg ''--env'', arg ''V'', arg ''--envelope-file'', arg ''e''], [arg ''c''])"
  by (simp_all add: parse_seal_options_def parse_deliver_run_options_def from_utf8_arg_ascii code_def)
     (simp add: split_at_dashes_def arg_def)

lemma sample_seal_run:
  "\<exists>g1. seal_cmd sample_commands [arg ''--name'', arg ''n''] \<lparr>cfg_store = SelFile\<rparr> (sample_sys [118]) = (Inr 0, g1) \<and>
     cs_stdout g1 = sample_sealed_json sample_envelope @ [10] \<and> cs_children g1 = [] \<and>
     nodes (fst (gt_world (cs_gate g1))) = nodes (home_fs (Some (Reg 384 sample_key)))"
proof -
  obtain s where s: "file_get plain_os sample_key_path (home_fs (Some (Reg 384 sample_key))) = (Inr sample_key, s)"
      "nodes s = nodes (home_fs (Some (Reg 384 sample_key)))"
    using sample_get by blast
  show ?thesis
    by (simp add: seal_cmd_def sample_options read_unlock_def on_input_def read_store_unlock_def sample_sys_def
        seal_plaintext_def sample_read load_or_create_master_from_unlock_def load_or_create_master_key_def
        load_or_create_named_def sample_commands_simps on_stores_def at_path_def sample_paths on_fs_def
        file_get_or_create_def s seal_value_def sample_seal_value print_json_def write_stdout_def io_res_def
        println_def print_text_def count_call_def Let_def)
qed

theorem sealed_value_delivered_witness:
  "\<exists>g1 g3. seal_cmd sample_commands [arg ''--name'', arg ''n''] \<lparr>cfg_store = SelFile\<rparr> (sample_sys [118]) = (Inr 0, g1) \<and>
     deliver_run_cmd sample_commands [arg ''--name'', arg ''n'', arg ''--env'', arg ''V'', arg ''--envelope-file'', arg ''e'',
       arg ''--'', arg ''c''] \<lparr>cfg_store = SelFile\<rparr> g1 = (Inr 3, g3) \<and>
     map ch_env (cs_children g3) = [[(''V'', ''v'')]]"
proof -
  obtain g1 where g1: "seal_cmd sample_commands [arg ''--name'', arg ''n''] \<lparr>cfg_store = SelFile\<rparr> (sample_sys [118]) = (Inr 0, g1)"
      "cs_stdout g1 = sample_sealed_json sample_envelope @ [10]" "cs_children g1 = []"
    using sample_seal_run by blast
  have v: "as_bytes ''v'' = [118]" by (simp add: as_bytes_Cons)
  have utf8: "from_utf8 [118] = Some ''v''"
    using from_utf8_as_bytes [of "''v''"] by (simp add: utf8_valid_ascii v)
  have "\<exists>g3. deliver_run_cmd sample_commands [arg ''--name'', arg ''n'', arg ''--env'', arg ''V'', arg ''--envelope-file'',
       arg ''e'', arg ''--'', arg ''c''] \<lparr>cfg_store = SelFile\<rparr> g1
         = (Inr (status_to_exit_code \<lparr>xs_signal = None, xs_code = Some 3\<rparr>), g3) \<and>
      cs_children g3 = cs_children g1 @ [\<lparr>ch_command = [arg ''c''], ch_env_clear = False, ch_env = [(''V'', ''v'')],
        ch_stdin_null = False\<rparr>]"
    by (rule sealed_value_delivered [OF sample_sealing_laws _ _ sample_options(1) _ g1(1) _ _ _ sample_options(3) _ _
          sample_options(2)])
       (simp_all add: quiet_files_def sample_commands_simps plain_os_simps v sample_sys_def sample_read
          utf8 validate_shell_name_def shell_first_def is_ascii_uppercase_def code_def g1)
  then show ?thesis using g1 by (auto simp: status_to_exit_code_def)
qed

text \<open>
  C29. Only \<open>key authorize\<close> may ask: on a Mac where the system shows no dialog while an application
  has disabled the user interface of the Keychain, no other run of the program, whatever its
  arguments, its input and the state of the stores, shows the user a dialog, because every other
  call to the Keychain is made in between. A run of \<open>agent\<close> is followed to the point where it begins to
  serve; after it, its one use of the Keychain is the load of the key for requests, and that too shows none,
  in whatever state it finds the stores.
\<close>

theorem only_authorize_prompts:
  assumes "prompt_laws (ho_security (ce_host E)) ui prompts"
    and "run_program E args g = Some (out, g')" "\<not> authorizes (ho_env (ce_host E)) args"
  shows "prompts (snd (gt_world (cs_gate g'))) = prompts (snd (gt_world (cs_gate g))) \<and>
    (case out of
       Serving setup \<Rightarrow> (\<forall>w. prompts (snd (snd (agent_load_master E setup w))) = prompts (snd w))
     | _ \<Rightarrow> True)"
proof -
  have mac: "prompting_host E ui prompts" using assms(1) by (rule prompting_host.intro)
  have "prompts (snd (snd (agent_load_master E s w))) = prompts (snd w)" for s w
    using prompting_host.serving_silent [OF mac] .
  then show ?thesis using prompting_host.unless_authorizing [OF mac assms(2,3)] by (cases out) simp_all
qed

lemma usage_says:
  "reliable_stdout E \<Longrightarrow> msg \<in> {USAGE, version_line} \<Longrightarrow> says E (cs_stdout g) (print_and_exit E msg status g)"
  unfolding print_and_exit_def by (intro says_print) (auto simp: is_output_def)

lemma deliver_says:
  "reliable_stdout E \<Longrightarrow> next_value args \<noteq> Some ''run'' \<Longrightarrow> says E (cs_stdout g) (deliver_cmd E args config g)"
  by (auto simp: deliver_cmd_def one_shot_says says_bail split: option.split)

lemma key_says:
  "reliable_stdout E \<Longrightarrow> key_cmd E args config g = Some k \<Longrightarrow> says E (cs_stdout g) k"
  using authorize_says [of E]
  by (auto simp: key_cmd_def one_shot_says says_bail split: option.splits if_splits)

lemma helper_output:
  assumes "(out, g') = agent_run_helper_cmd E args g"
  shows "(case out of Returned (Inr _) \<Rightarrow> False | _ \<Rightarrow> True) \<and> cs_stdout g' = cs_stdout g"
proof
  show "case out of Returned (Inr _) \<Rightarrow> False | _ \<Rightarrow> True"
    using assms by (auto simp: agent_run_helper_cmd_def Let_def bail_def
        split: if_splits prod.splits sum.splits option.splits)
  show "cs_stdout g' = cs_stdout g"
    using stdout.keeps_run_helper [of E args g] assms by (metis snd_conv)
qed


lemma sample_global:
  "parse_global_options sample_env (arg ''--store'' # arg ''keychain'' # [arg ''pubkey''])
     = Inr (\<lparr>cfg_store = SelKeychain\<rparr>, [arg ''pubkey''])"
  "parse_global_options sample_env (arg ''--store'' # arg ''file'' # [arg ''seal'', arg ''--name'', arg ''n''])
     = Inr (\<lparr>cfg_store = SelFile\<rparr>, [arg ''seal'', arg ''--name'', arg ''n''])"
  by (simp_all add: parse_global_options_def sample_env_def from_utf8_arg_ascii code_def store_selection_parse_def)

theorem only_authorize_prompts_witness:
  "\<exists>out g'. run_program sample_commands [arg ''--store'', arg ''keychain'', arg ''pubkey''] (sample_sys []) = Some (out, g') \<and>
     ck_prompts (snd (gt_world (cs_gate g'))) = 0"
proof -
  have pubkey: "next_value (arg ''pubkey'' # rest) = Some ''pubkey''" for rest
    by (simp add: next_value_def from_utf8_arg_ascii code_def)
  have "\<exists>rg. run_program sample_commands [arg ''--store'', arg ''keychain'', arg ''pubkey''] (sample_sys []) = Some rg"
    by (simp add: run_program_def sample_commands_simps sample_global pubkey Let_def)
  then obtain out g' where run:
      "run_program sample_commands [arg ''--store'', arg ''keychain'', arg ''pubkey''] (sample_sys []) = Some (out, g')"
    by (metis surj_pair)
  have "prompt_laws (ho_security (ce_host sample_commands)) ck_ui ck_prompts"
    by (simp add: sample_commands_simps counted_prompt_laws)
  from only_authorize_prompts [OF this run] run show ?thesis
    by (simp add: subcommand_def sample_commands_simps sample_global pubkey sample_sys_def)
qed


end
