(* ===== verification/ImportText.thy ===== *)
theory ImportText
  imports KeyImportJson
begin

text \<open>
  What the scanner of \<open>KeyImportJson\<close> finds in JSON text. The grammar of JSON is stated over bytes: a
  value, the fields of an object, the whitespace around them. On the text of any object, with any
  fields, nesting and escapes, the scanner is the lookup of a field by its name.
\<close>

section \<open>The grammar\<close>

definition json_space :: "byte \<Rightarrow> bool" where
  "json_space b \<longleftrightarrow> b = 0x20 \<or> b = 0x0A \<or> b = 0x0D \<or> b = 0x09"

record json_field =
  jf_before :: bytes
  jf_key :: "json_item list"
  jf_colon :: "bytes \<times> bytes"
  jf_value :: bytes
  jf_after :: bytes

definition text_of :: "json_item list \<Rightarrow> bytes" where
  "text_of its = quote # items_text its @ [quote]"

definition field_text :: "json_field \<Rightarrow> bytes" where
  "field_text f = jf_before f @ text_of (jf_key f) @ fst (jf_colon f) @ ascii CHR '':'' # snd (jf_colon f) @
     jf_value f @ jf_after f"

fun separated :: "bytes list \<Rightarrow> bytes" where
  "separated [] = []"
| "separated [x] = x"
| "separated (x # y # xs) = x @ ascii CHR '','' # separated (y # xs)"

definition field_ok :: "json_field \<Rightarrow> bool" where
  "field_ok f \<longleftrightarrow> list_all item_ok (jf_key f) \<and> list_all json_space (jf_before f) \<and>
     list_all json_space (fst (jf_colon f)) \<and> list_all json_space (snd (jf_colon f)) \<and>
     list_all json_space (jf_after f)"

definition object_text :: "json_field list \<Rightarrow> bytes" where
  "object_text members = ascii CHR ''{'' # separated (map field_text members) @ [ascii CHR ''}'']"

inductive json_value :: "bytes \<Rightarrow> bool" where
  Text: "list_all item_ok its \<Longrightarrow> json_value (text_of its)"
| Number: "b = ascii CHR ''-'' \<or> ascii CHR ''0'' \<le> b \<and> b \<le> ascii CHR ''9'' \<Longrightarrow> list_all is_scalar_byte ds \<Longrightarrow>
    json_value (b # ds)"
| Literal: "v \<in> {as_bytes ''true'', as_bytes ''false'', as_bytes ''null''} \<Longrightarrow> json_value v"
| NoElements: "list_all json_space w \<Longrightarrow> json_value (ascii CHR ''['' # w @ [ascii CHR '']''])"
| Elements: "(\<And>w v w'. (w, v, w') \<in> set es \<Longrightarrow> list_all json_space w \<and> json_value v \<and> list_all json_space w') \<Longrightarrow>
    json_value (ascii CHR ''['' # separated (map (\<lambda>(w, v, w'). w @ v @ w') es) @ [ascii CHR '']''])"
| NoFields: "list_all json_space w \<Longrightarrow> json_value (ascii CHR ''{'' # w @ [ascii CHR ''}''])"
| Fields: "(\<And>f. f \<in> set members \<Longrightarrow> field_ok f \<and> json_value (jf_value f)) \<Longrightarrow> json_value (object_text members)"

section \<open>Balanced text\<close>

text \<open>What skipping a compound value relies on: strings are closed and brackets match.\<close>

inductive balanced :: "bytes \<Rightarrow> bool" where
  Empty: "balanced []"
| Other: "b \<noteq> quote \<Longrightarrow> b \<notin> {ascii CHR ''{'', ascii CHR ''['', ascii CHR ''}'', ascii CHR '']''} \<Longrightarrow> balanced r \<Longrightarrow>
    balanced (b # r)"
| Quoted: "list_all item_ok its \<Longrightarrow> balanced r \<Longrightarrow> balanced (text_of its @ r)"
| Braces: "balanced x \<Longrightarrow> balanced r \<Longrightarrow> balanced (ascii CHR ''{'' # x @ ascii CHR ''}'' # r)"
| Brackets: "balanced x \<Longrightarrow> balanced r \<Longrightarrow> balanced (ascii CHR ''['' # x @ ascii CHR '']'' # r)"

lemma balanced_append: "balanced x \<Longrightarrow> balanced y \<Longrightarrow> balanced (x @ y)"
proof (induction rule: balanced.induct)
  case (Quoted its r)
  then show ?case using balanced.Quoted [of its "r @ y"] by simp
next
  case (Braces x r)
  then show ?case using balanced.Braces [of x "r @ y"] by simp
next
  case (Brackets x r)
  then show ?case using balanced.Brackets [of x "r @ y"] by simp
qed (simp_all add: balanced.Empty balanced.Other)

lemma balanced_plain:
  "list_all (\<lambda>b. b \<noteq> quote \<and> b \<notin> {ascii CHR ''{'', ascii CHR ''['', ascii CHR ''}'', ascii CHR '']''}) w \<Longrightarrow> balanced w"
  by (induction w) (auto intro: balanced.Empty balanced.Other)

lemma balanced_space: "list_all json_space w \<Longrightarrow> balanced w"
  by (rule balanced_plain) (auto simp: list_all_iff json_space_def)

lemma scalar_byte_plain:
  "is_scalar_byte b \<Longrightarrow> b \<noteq> quote \<and> b \<notin> {ascii CHR ''{'', ascii CHR ''['', ascii CHR ''}'', ascii CHR '']''}"
  by (auto simp: is_scalar_byte_def word_le_nat_alt)

lemma balanced_text: "list_all item_ok its \<Longrightarrow> balanced (text_of its)"
  using balanced.Quoted [OF _ balanced.Empty, of its] by simp

lemma balanced_comma: "balanced x \<Longrightarrow> balanced (ascii CHR '','' # x)" "balanced x \<Longrightarrow> balanced (ascii CHR '':'' # x)"
  by (auto intro: balanced.Other)

lemma balanced_separated: "(\<And>x. x \<in> set xs \<Longrightarrow> balanced x) \<Longrightarrow> balanced (separated xs)"
proof (induction xs rule: separated.induct)
  case (3 x y xs)
  then have "balanced (x @ (ascii CHR '','' # separated (y # xs)))"
    by (intro balanced_append balanced_comma) auto
  then show ?case by simp
qed (simp_all add: balanced.Empty)

lemma balanced_field: "field_ok f \<Longrightarrow> balanced (jf_value f) \<Longrightarrow> balanced (field_text f)"
  unfolding field_text_def field_ok_def
  by (intro balanced_append balanced_comma) (simp_all add: balanced_space balanced_text)

lemma balanced_object: "(\<And>f. f \<in> set members \<Longrightarrow> balanced (field_text f)) \<Longrightarrow> balanced (object_text members)"
  unfolding object_text_def
  by (rule balanced.Braces [OF balanced_separated balanced.Empty]) auto

lemma value_balanced: "json_value v \<Longrightarrow> balanced v"
proof (induction rule: json_value.induct)
  case (Number b ds)
  then have "list_all is_scalar_byte (b # ds)" by (auto simp: is_scalar_byte_def)
  then show ?case using scalar_byte_plain by (intro balanced_plain) (auto simp: list_all_iff)
next
  case (Literal v)
  then show ?case by (intro balanced_plain) (auto simp: as_bytes_Cons)
next
  case (NoElements w)
  then show ?case using balanced.Brackets [OF balanced_space balanced.Empty, of w] by simp
next
  case (Elements es)
  have "balanced (separated (map (\<lambda>(w, v, w'). w @ v @ w') es))"
    using Elements by (intro balanced_separated) (auto 4 3 intro!: balanced_append intro: balanced_space)
  then show ?case using balanced.Brackets [OF _ balanced.Empty] by simp
next
  case (NoFields w)
  then show ?case using balanced.Braces [OF balanced_space balanced.Empty, of w] by simp
next
  case (Fields members)
  then show ?case by (intro balanced_object balanced_field) auto
qed (rule balanced_text)

section \<open>Skipping\<close>

lemma skip_spaces:
  assumes "drop i input = w @ r" "list_all json_space w" "r \<noteq> [] \<Longrightarrow> \<not> json_space (hd r)"
  shows "skip_json_ws input i = i + length w"
  using assms
proof (induction w arbitrary: i)
  case Nil
  show ?case
  proof (cases r)
    case Nil
    then have "get input i = None" using Nil.prems by (simp add: get_def)
    then show ?thesis by (subst skip_json_ws.simps) simp
  next
    case (Cons b t)
    then have "get input i = Some b" using Nil.prems by (auto simp: get_drop)
    then show ?thesis using Nil.prems(3) Cons by (subst skip_json_ws.simps) (simp add: json_space_def)
  qed
next
  case (Cons b w)
  then have d: "drop i input = b # (w @ r)" by simp
  then have "get input i = Some b" by (auto simp: get_drop)
  moreover have "skip_json_ws input (i + 1) = i + 1 + length w"
    using drop_ConsD [OF d] Cons.prems(2,3) by (intro Cons.IH) simp_all
  ultimately show ?case
    using Cons.prems(2) by (subst skip_json_ws.simps) (simp add: json_space_def)
qed

lemma skip_scalars:
  assumes "drop i input = w @ r" "list_all is_scalar_byte w" "r \<noteq> [] \<Longrightarrow> \<not> is_scalar_byte (hd r)"
  shows "json_scalar_end input i = i + length w"
  using assms
proof (induction w arbitrary: i)
  case Nil
  show ?case
  proof (cases r)
    case Nil
    then have "get input i = None" using Nil.prems by (simp add: get_def)
    then show ?thesis by (subst json_scalar_end.simps) simp
  next
    case (Cons b t)
    then have "get input i = Some b" using Nil.prems by (auto simp: get_drop)
    then show ?thesis using Nil.prems(3) Cons by (subst json_scalar_end.simps) simp
  qed
next
  case (Cons b w)
  then have d: "drop i input = b # (w @ r)" by simp
  then have "get input i = Some b" by (auto simp: get_drop)
  moreover have "json_scalar_end input (i + 1) = i + 1 + length w"
    using drop_ConsD [OF d] Cons.prems(2,3) by (intro Cons.IH) simp_all
  ultimately show ?case using Cons.prems(2) by (subst json_scalar_end.simps) simp
qed

lemma length_text_of [simp]: "length (text_of its) = length (items_text its) + 2"
  by (simp add: text_of_def)

lemma text_end:
  assumes "list_all item_ok its"
  shows "json_string_end (text_of its @ r) = Inr (length (text_of its))"
proof -
  have "drop 1 (text_of its @ r) = items_text its @ quote # r" by (simp add: text_of_def)
  from json_string_end_items [OF this assms] show ?thesis
    by (simp add: json_string_end_def get_def text_of_def)
qed

lemma slice_drop: "drop i input = b # r \<Longrightarrow> slice_from input i = Inr (b # r)"
  using drop_ConsD [of i input b r] by (simp add: slice_from_def)

text \<open>Over balanced text the compound scanner comes out with the stack it went in with.\<close>

lemma compound_balanced:
  assumes "balanced x" "drop i input = x @ r" "stack \<noteq> []"
  shows "json_compound_from input stack i = json_compound_from input stack (i + length x)"
  using assms
proof (induction arbitrary: i r stack rule: balanced.induct)
  case Empty
  then show ?case by simp
next
  case (Other b x)
  then have d: "drop i input = b # (x @ r)" by simp
  have "json_compound_from input stack i = json_compound_from input stack (i + 1)"
    using Other.hyps drop_ConsD [OF d] by (subst json_compound_from.simps) simp
  also have "\<dots> = json_compound_from input stack (i + 1 + length x)"
    using drop_ConsD [OF d] Other.prems(2) by (intro Other.IH) simp_all
  finally show ?case by simp
next
  case (Quoted its x)
  then have d: "drop i input = text_of its @ (x @ r)" by simp
  then have q: "drop i input = quote # (items_text its @ quote # (x @ r))" by (simp add: text_of_def)
  have "json_string_end (quote # items_text its @ quote # x @ r) = Inr (length (text_of its))"
    using text_end [OF Quoted.hyps(1), of "x @ r"] by (simp add: text_of_def)
  then have "json_compound_from input stack i = json_compound_from input stack (i + length (text_of its))"
    using drop_ConsD [OF q] slice_drop [OF q] by (subst json_compound_from.simps) simp
  also have "\<dots> = json_compound_from input stack (i + length (text_of its) + length x)"
    using drop_append_add [OF d] Quoted.prems(2) by (intro Quoted.IH) simp_all
  finally show ?case by (simp add: add.assoc)
next
  case (Braces x y)
  then have d: "drop i input = ascii CHR ''{'' # (x @ ascii CHR ''}'' # (y @ r))" by simp
  have e: "drop (i + 1 + length x) input = ascii CHR ''}'' # (y @ r)"
    using drop_ConsD [OF d] by (intro drop_append_add) simp
  have "json_compound_from input stack i = json_compound_from input (ascii CHR ''{'' # stack) (i + 1)"
    using drop_ConsD [OF d] by (subst json_compound_from.simps) simp
  also have "\<dots> = json_compound_from input (ascii CHR ''{'' # stack) (i + 1 + length x)"
    using drop_ConsD [OF d] by (intro Braces.IH(1)) simp_all
  also have "\<dots> = json_compound_from input stack (i + 1 + length x + 1)"
    using drop_ConsD [OF e] Braces.prems(2) by (subst json_compound_from.simps) simp
  also have "\<dots> = json_compound_from input stack (i + 1 + length x + 1 + length y)"
    using drop_ConsD [OF e] Braces.prems(2) by (intro Braces.IH(2)) simp_all
  finally show ?case by (simp add: add.assoc)
next
  case (Brackets x y)
  then have d: "drop i input = ascii CHR ''['' # (x @ ascii CHR '']'' # (y @ r))" by simp
  have e: "drop (i + 1 + length x) input = ascii CHR '']'' # (y @ r)"
    using drop_ConsD [OF d] by (intro drop_append_add) simp
  have "json_compound_from input stack i = json_compound_from input (ascii CHR ''['' # stack) (i + 1)"
    using drop_ConsD [OF d] by (subst json_compound_from.simps) simp
  also have "\<dots> = json_compound_from input (ascii CHR ''['' # stack) (i + 1 + length x)"
    using drop_ConsD [OF d] by (intro Brackets.IH(1)) simp_all
  also have "\<dots> = json_compound_from input stack (i + 1 + length x + 1)"
    using drop_ConsD [OF e] Brackets.prems(2) by (subst json_compound_from.simps) simp
  also have "\<dots> = json_compound_from input stack (i + 1 + length x + 1 + length y)"
    using drop_ConsD [OF e] Brackets.prems(2) by (intro Brackets.IH(2)) simp_all
  finally show ?case by (simp add: add.assoc)
qed

section \<open>The end of a value\<close>

lemma compound_end:
  assumes "balanced x" and "(b, e) \<in> {(ascii CHR ''{'', ascii CHR ''}''), (ascii CHR ''['', ascii CHR '']'')}"
    and "drop i input = b # x @ e # r"
  shows "json_value_end input i = Inr (i + length (b # x @ [e]))"
proof -
  have d: "drop (i + 1) input = x @ e # r" "i < length input" "input ! i = b"
    using drop_ConsD [OF assms(3)] by simp_all
  have t: "drop (i + 1 + length x) input = e # r" by (rule drop_append_add [OF d(1)])
  have "json_compound_from input [b] (i + 1) = json_compound_from input [b] (i + 1 + length x)"
    by (rule compound_balanced [OF assms(1) d(1)]) simp
  also have "\<dots> = Inr (i + 1 + length x + 1)"
    using assms(2) drop_ConsD [OF t] by (subst json_compound_from.simps) auto
  finally have "json_compound_end input i = Inr (i + length (b # x @ [e]))"
    using d by (simp add: json_compound_end_def index_byte_def get_def)
  then show ?thesis using assms(2) d by (auto simp: json_value_end_def get_def)
qed

lemma literal_end:
  assumes "drop i input = v @ r" "v \<in> {as_bytes ''true'', as_bytes ''false'', as_bytes ''null''}"
  shows "json_value_end input i = Inr (i + length v)"
proof -
  have heads: "as_bytes ''true'' = 0x74 # as_bytes ''rue''" "as_bytes ''false'' = 0x66 # as_bytes ''alse''"
      "as_bytes ''null'' = 0x6E # as_bytes ''ull''"
    by (simp_all add: as_bytes_Cons)
  have range: "get_range input i (i + length v) = Some v"
  proof -
    have "\<exists>b. get input i = Some b" using assms heads by (auto simp: get_drop)
    then have "i \<le> length input" by (auto simp: get_eq_Some)
    then show ?thesis using assms(1) by (auto simp: get_range_drop)
  qed
  consider "v = as_bytes ''true''" | "v = as_bytes ''false''" | "v = as_bytes ''null''" using assms(2) by blast
  then show ?thesis
  proof cases
    case 1
    then have "get input i = Some 0x74" using assms(1) heads(1) by (auto simp: get_drop)
    moreover have len: "length v = 4" by (simp add: 1)
    moreover have "get_range input i (i + 4) = Some (as_bytes ''true'')" using range unfolding len by (simp add: 1)
    ultimately show ?thesis by (simp add: json_value_end_def)
  next
    case 2
    then have "get input i = Some 0x66" using assms(1) heads(2) by (auto simp: get_drop)
    moreover have len: "length v = 5" by (simp add: 2)
    moreover have "get_range input i (i + 5) = Some (as_bytes ''false'')" using range unfolding len by (simp add: 2)
    ultimately show ?thesis by (simp add: json_value_end_def)
  next
    case 3
    then have "get input i = Some 0x6E" using assms(1) heads(3) by (auto simp: get_drop)
    moreover have len: "length v = 4" by (simp add: 3)
    moreover have "get_range input i (i + 4) = Some (as_bytes ''null'')" using range unfolding len by (simp add: 3)
    ultimately show ?thesis by (simp add: json_value_end_def)
  qed
qed

lemma value_end:
  assumes "json_value v" "drop i input = v @ r" "r \<noteq> [] \<Longrightarrow> \<not> is_scalar_byte (hd r)"
  shows "json_value_end input i = Inr (i + length v)"
  using assms(1)
proof cases
  case (Text its)
  then have d: "drop i input = quote # (items_text its @ quote # r)" using assms(2) by (simp add: text_of_def)
  have "json_string_end (quote # items_text its @ quote # r) = Inr (length v)"
    using text_end [OF Text(2), of r] Text(1) by (simp add: text_of_def)
  then show ?thesis using drop_ConsD [OF d] slice_drop [OF d] by (simp add: json_value_end_def get_def)
next
  case (Number b ds)
  then have b: "is_scalar_byte b" by (auto simp: is_scalar_byte_def)
  have d: "get input i = Some b" using assms(2) Number by (auto simp: get_drop)
  have "json_scalar_end input i = i + length v"
    using assms(2,3) Number b by (intro skip_scalars) simp_all
  then show ?thesis using scalar_byte_plain [OF b] Number(2) d by (simp add: json_value_end_def)
next
  case Literal
  then show ?thesis using assms(2) by (intro literal_end)
next
  case (NoElements w)
  then show ?thesis
    using assms(2) compound_end [OF balanced_space [OF NoElements(2)], of "ascii CHR ''[''" "ascii CHR '']''" i input r]
    by simp
next
  case (Elements es)
  have "balanced (separated (map (\<lambda>(w, v, w'). w @ v @ w') es))"
    using Elements(2) value_balanced
    by (intro balanced_separated) (auto 4 3 intro!: balanced_append intro: balanced_space)
  from compound_end [OF this, of "ascii CHR ''[''" "ascii CHR '']''" i input r] show ?thesis
    using Elements(1) assms(2) by simp
next
  case (NoFields w)
  then show ?thesis
    using assms(2) compound_end [OF balanced_space [OF NoFields(2)], of "ascii CHR ''{''" "ascii CHR ''}''" i input r]
    by simp
next
  case (Fields members)
  have "balanced (separated (map field_text members))"
    using Fields(2) by (intro balanced_separated) (auto intro: balanced_field value_balanced)
  from compound_end [OF this, of "ascii CHR ''{''" "ascii CHR ''}''" i input r] show ?thesis
    using Fields(1) assms(2) by (simp add: object_text_def)
qed

section \<open>Finding a field\<close>

lemma items_value_shorter: "list_all item_ok its \<Longrightarrow> length (items_value its) \<le> length (items_text its)"
proof (induction its)
  case (Cons it its)
  have "length (item_value it) \<le> length (item_text it)"
    using Cons.prems le_trans [OF length_encode_utf8(1), of 6] le_trans [OF length_encode_utf8(1), of 12]
    by (cases it) (auto simp: hex_digits_length)
  then show ?case using Cons by simp
qed simp

lemma decode_text:
  assumes "list_all item_ok its" "length (items_text its) \<le> MAX_STDIN_SECRET_BYTES"
  shows "decode_json_string_bytes (text_of its @ r) = Inr (items_value its)"
  unfolding decode_json_string_bytes_iff
  using assms items_value_shorter [OF assms(1)]
  by (intro exI [of _ its] exI [of _ r]) (simp add: text_of_def)

definition field_named :: "json_field list \<Rightarrow> bytes \<Rightarrow> json_field option" where
  "field_named members name = find (\<lambda>f. items_value (jf_key f) = name) members"

lemma not_space: "\<not> json_space quote" "\<not> json_space (ascii CHR '':'')" "\<not> json_space (ascii CHR '','')"
    "\<not> json_space (ascii CHR ''}'')" "json_space b \<Longrightarrow> \<not> is_scalar_byte b"
  by (auto simp: json_space_def is_scalar_byte_def word_le_nat_alt)

lemma value_head: "json_value v \<Longrightarrow> v \<noteq> [] \<and> \<not> json_space (hd v)"
proof (induction rule: json_value.induct)
  case (Number b ds)
  then show ?case by (auto simp: json_space_def word_le_nat_alt)
qed (auto simp: text_of_def json_space_def as_bytes_Cons object_text_def)

text \<open>The scanner on one field: its key is decoded, and its value starts after the colon.\<close>

lemma field_start:
  assumes ok: "field_ok f" "json_value (jf_value f)" and short: "length input \<le> MAX_STDIN_SECRET_BYTES"
    and d: "drop i input = field_text f @ r"
  obtains k c p where "skip_json_ws input i = k" "get input k = Some quote"
    "slice_from input k = Inr (text_of (jf_key f) @ drop (k + length (text_of (jf_key f))) input)"
    "decode_json_string_bytes (text_of (jf_key f) @ drop (k + length (text_of (jf_key f))) input) = Inr (items_value (jf_key f))"
    "json_string_end (text_of (jf_key f) @ drop (k + length (text_of (jf_key f))) input) = Inr (length (text_of (jf_key f)))"
    "skip_json_ws input (length (text_of (jf_key f)) + k) = c" "get input c = Some (ascii CHR '':'')"
    "skip_json_ws input (c + 1) = p" "drop p input = jf_value f @ jf_after f @ r"
    "p + length (jf_value f) + length (jf_after f) = i + length (field_text f)"
proof -
  let ?k = "text_of (jf_key f)" and ?w = "jf_before f" and ?u = "fst (jf_colon f)" and ?v = "snd (jf_colon f)"
  let ?tail = "?u @ ascii CHR '':'' # ?v @ jf_value f @ jf_after f @ r"
  have spaces: "list_all json_space ?w" "list_all json_space ?u" "list_all json_space ?v"
    and items: "list_all item_ok (jf_key f)"
    using ok by (simp_all add: field_ok_def)
  have d1: "drop i input = ?w @ (?k @ ?tail)" using d by (simp add: field_text_def)
  have k: "skip_json_ws input i = i + length ?w"
    by (rule skip_spaces [OF d1 spaces(1)]) (simp add: text_of_def not_space(1))
  have d2: "drop (i + length ?w) input = ?k @ ?tail" by (rule drop_append_add [OF d1])
  have d3: "drop (i + length ?w + length ?k) input = ?tail" by (rule drop_append_add [OF d2])
  have q: "drop (i + length ?w) input = quote # (items_text (jf_key f) @ quote # ?tail)"
    using d2 by (simp add: text_of_def)
  have c: "skip_json_ws input (i + length ?w + length ?k) = i + length ?w + length ?k + length ?u"
    by (rule skip_spaces [OF d3 spaces(2)]) (use not_space(2) in simp)
  have d4: "drop (i + length ?w + length ?k + length ?u) input = ascii CHR '':'' # (?v @ jf_value f @ jf_after f @ r)"
    by (rule drop_append_add [OF d3])
  have d5: "drop (i + length ?w + length ?k + length ?u + 1) input = ?v @ (jf_value f @ jf_after f @ r)"
    using drop_ConsD [OF d4] by simp
  have p: "skip_json_ws input (i + length ?w + length ?k + length ?u + 1)
      = i + length ?w + length ?k + length ?u + 1 + length ?v"
    by (rule skip_spaces [OF d5 spaces(3)]) (use value_head [OF ok(2)] in \<open>cases "jf_value f"; simp\<close>)
  have short_key: "length (items_text (jf_key f)) \<le> MAX_STDIN_SECRET_BYTES"
  proof -
    have "length (items_text (jf_key f)) \<le> length (drop (i + length ?w) input)" by (simp add: q)
    then show ?thesis using short by (simp del: drop_drop)
  qed
  show thesis
    by (rule that [OF k _ _ _ _ _ _ p])
       (use q d2 d3 c d4 slice_drop [OF q] drop_append_add [OF d5] decode_text [OF items short_key] text_end [OF items]
         in \<open>auto simp: get_drop text_of_def field_text_def add.commute add.left_commute\<close>)
qed

definition found :: "bytes \<Rightarrow> json_field option \<Rightarrow> nat res \<Rightarrow> bool" where
  "found input f r = (case f of
       None \<Rightarrow> r = bail ''key import JSON missing required field''
     | Some f \<Rightarrow> \<exists>p t. r = Inr p \<and> drop p input = jf_value f @ t \<and> t \<noteq> [] \<and> \<not> is_scalar_byte (hd t))"

lemma after_not_scalar:
  assumes "list_all json_space w" "b \<in> {ascii CHR '','', ascii CHR ''}''}"
  shows "w @ b # r \<noteq> [] \<and> \<not> is_scalar_byte (hd (w @ b # r))"
proof (cases w)
  case Nil
  then show ?thesis using assms(2) by (auto simp: is_scalar_byte_def word_le_nat_alt)
next
  case (Cons a w')
  then show ?thesis using assms(1) not_space(5) by simp
qed

lemma find_step:
  assumes ok: "field_ok f" "json_value (jf_value f)" and short: "length input \<le> MAX_STDIN_SECRET_BYTES"
    and d: "drop i input = field_text f @ b # r" "b \<in> {ascii CHR '','', ascii CHR ''}''}"
  shows "items_value (jf_key f) = name \<Longrightarrow> found input (Some f) (find_json_field_from input name i)"
    and "items_value (jf_key f) \<noteq> name \<Longrightarrow> find_json_field_from input name i =
      (if b = ascii CHR '','' then find_json_field_from input name (i + length (field_text f) + 1)
       else bail ''key import JSON missing required field'')"
proof -
  obtain k c p where s: "skip_json_ws input i = k" "get input k = Some quote"
    "slice_from input k = Inr (text_of (jf_key f) @ drop (k + length (text_of (jf_key f))) input)"
    "decode_json_string_bytes (text_of (jf_key f) @ drop (k + length (text_of (jf_key f))) input) = Inr (items_value (jf_key f))"
    "json_string_end (text_of (jf_key f) @ drop (k + length (text_of (jf_key f))) input) = Inr (length (text_of (jf_key f)))"
    "skip_json_ws input (length (text_of (jf_key f)) + k) = c" "get input c = Some (ascii CHR '':'')"
    "skip_json_ws input (c + 1) = p" and v: "drop p input = jf_value f @ jf_after f @ b # r"
    and len: "p + length (jf_value f) + length (jf_after f) = i + length (field_text f)"
    by (rule field_start [OF ok short d(1)])
  have after: "list_all json_space (jf_after f)" using ok(1) by (simp add: field_ok_def)
  note t = after_not_scalar [OF after d(2), of r]
  note once = find_json_field_from.simps [of input name i]
  have no_brace: "(quote = ascii CHR ''}'') = False" by simp
  have head: "find_json_field_from input name i =
      (if items_value (jf_key f) = name then Inr p
       else and_then (json_value_end input p) (\<lambda>value_end.
              let next = skip_json_ws input value_end
              in if get input next = Some (ascii CHR '','') then find_json_field_from input name (next + 1)
                 else if get input next = Some (ascii CHR ''}'') then bail ''key import JSON missing required field''
                 else bail ''key import JSON is invalid''))"
    by (subst once) (simp only: Let_def s and_then_Inr option.inject if_False if_True simp_thms no_brace)
  show "items_value (jf_key f) = name \<Longrightarrow> found input (Some f) (find_json_field_from input name i)"
    using v t by (simp add: head found_def)
  have stop: "json_value_end input p = Inr (p + length (jf_value f))"
    by (rule value_end [OF ok(2) v]) (use t in blast)
  have d2: "drop (p + length (jf_value f)) input = jf_after f @ b # r" by (rule drop_append_add [OF v])
  have "skip_json_ws input (p + length (jf_value f)) = p + length (jf_value f) + length (jf_after f)"
    by (rule skip_spaces [OF d2 after]) (use d(2) not_space(3,4) in auto)
  then have nxt: "skip_json_ws input (p + length (jf_value f)) = i + length (field_text f)" by (simp add: len)
  have "drop (p + length (jf_value f) + length (jf_after f)) input = b # r" by (rule drop_append_add [OF d2])
  then have b: "get input (i + length (field_text f)) = Some b" by (auto simp: len get_drop)
  show "items_value (jf_key f) \<noteq> name \<Longrightarrow> find_json_field_from input name i =
      (if b = ascii CHR '','' then find_json_field_from input name (i + length (field_text f) + 1)
       else bail ''key import JSON missing required field'')"
    using d(2) by (auto simp: head stop nxt b Let_def)
qed

lemma find_members:
  assumes "list_all (\<lambda>f. field_ok f \<and> json_value (jf_value f)) members" "members \<noteq> []"
    and "length input \<le> MAX_STDIN_SECRET_BYTES"
    and "drop i input = separated (map field_text members) @ ascii CHR ''}'' # r"
  shows "found input (field_named members name) (find_json_field_from input name i)"
  using assms(1,2,4)
proof (induction members arbitrary: i)
  case Nil
  then show ?case by simp
next
  case (Cons f fs)
  then have ok: "field_ok f" "json_value (jf_value f)" by simp_all
  show ?case
  proof (cases fs)
    case Nil
    then have d: "drop i input = field_text f @ ascii CHR ''}'' # r" using Cons.prems by simp
    show ?thesis
      using find_step [OF ok assms(3) d, of name] Nil by (auto simp: field_named_def found_def)
  next
    case (Cons g gs)
    let ?tail = "separated (map field_text fs) @ ascii CHR ''}'' # r"
    have d: "drop i input = field_text f @ ascii CHR '','' # ?tail" using Cons.prems(3) Cons by simp
    have "drop (i + length (field_text f)) input = ascii CHR '','' # ?tail" by (rule drop_append_add [OF d])
    then have "drop (i + length (field_text f) + 1) input = ?tail" using drop_ConsD by fastforce
    then have "found input (field_named fs name) (find_json_field_from input name (i + length (field_text f) + 1))"
      using Cons.prems Cons by (intro Cons.IH) simp_all
    then show ?thesis
      using find_step [OF ok assms(3) d, of name]
      by (cases "items_value (jf_key f) = name") (auto simp: field_named_def)
  qed
qed

lemma find_field:
  assumes ok: "list_all (\<lambda>f. field_ok f \<and> json_value (jf_value f)) members" and "list_all json_space w"
    and input: "input = w @ object_text members @ r" "length input \<le> MAX_STDIN_SECRET_BYTES"
  shows "found input (field_named members name) (find_json_field_value input name)"
proof -
  have d: "drop 0 input = w @ (ascii CHR ''{'' # separated (map field_text members) @ ascii CHR ''}'' # r)"
    by (simp add: input(1) object_text_def)
  have skip: "skip_json_ws input 0 = length w"
    using skip_spaces [OF d assms(2)] by (simp add: json_space_def)
  have d2: "drop (length w) input = ascii CHR ''{'' # (separated (map field_text members) @ ascii CHR ''}'' # r)"
    using drop_append_add [OF d] by simp
  have d3: "drop (length w + 1) input = separated (map field_text members) @ ascii CHR ''}'' # r"
    using drop_ConsD [OF d2] by simp
  have brace: "get input (length w) = Some (ascii CHR ''{'')" using d2 by (auto simp: get_drop)
  show ?thesis
  proof (cases members)
    case Nil
    then have "drop (length w + 1) input = [] @ (ascii CHR ''}'' # r)" using d3 by simp
    then have "skip_json_ws input (length w + 1) = length w + 1" "get input (length w + 1) = Some (ascii CHR ''}'')"
      using skip_spaces [of "length w + 1" input "[]"] not_space(4) by (auto simp: get_drop)
    then show ?thesis
      using Nil brace
      by (simp add: find_json_field_value_def skip found_def field_named_def find_json_field_from.simps [of input])
  next
    case (Cons f fs)
    then show ?thesis
      using find_members [OF ok _ input(2) d3] by (simp add: find_json_field_value_def skip brace)
  qed
qed

section \<open>Reading an import\<close>

definition passphrase_of :: "json_field list \<Rightarrow> bytes res" where
  "passphrase_of members = (case field_named members (as_bytes ''passphrase'') of
       None \<Rightarrow> bail ''key import JSON missing required field''
     | Some f \<Rightarrow> if hd (jf_value f) \<noteq> quote then bail ''key import passphrase must be a string''
                 else decode_json_string_bytes (jf_value f))"

definition blob_of :: "(bytes \<Rightarrow> export_blob option) \<Rightarrow> json_field list \<Rightarrow> export_blob res" where
  "blob_of from_slice members = (case field_named members (as_bytes ''blob'') of
       None \<Rightarrow> bail ''key import JSON missing required field''
     | Some f \<Rightarrow> with_context ''key import blob is invalid'' (lib_res ''serde_json'' (from_slice (jf_value f))))"

lemma quoted_value: "json_value v \<Longrightarrow> hd v = quote \<Longrightarrow> \<exists>its. v = text_of its \<and> list_all item_ok its"
proof (induction rule: json_value.cases)
  case (Number b ds)
  then show ?case by (auto simp: word_le_nat_alt)
qed (auto simp: as_bytes_Cons object_text_def)

lemma field_in: "field_named members name = Some f \<Longrightarrow> f \<in> set members"
  unfolding field_named_def by (auto simp: find_Some_iff)

lemma import_blob_text:
  assumes ok: "list_all (\<lambda>f. field_ok f \<and> json_value (jf_value f)) members" and "list_all json_space w"
    and "length (w @ object_text members @ r) \<le> MAX_STDIN_SECRET_BYTES"
  shows "import_blob_from_json from_slice (w @ object_text members @ r) = blob_of from_slice members"
proof -
  let ?input = "w @ object_text members @ r"
  note f = find_field [OF assms(1,2) refl assms(3), of "as_bytes ''blob''"]
  show ?thesis
  proof (cases "field_named members (as_bytes ''blob'')")
    case None
    then show ?thesis using f by (simp add: found_def import_blob_from_json_def blob_of_def)
  next
    case (Some g)
    obtain p t where p: "find_json_field_value ?input (as_bytes ''blob'') = Inr p" "drop p ?input = jf_value g @ t"
        "\<not> is_scalar_byte (hd t)"
      using f Some by (auto simp: found_def)
    have v: "json_value (jf_value g)" using ok field_in [OF Some] by (auto simp: list_all_iff)
    have "json_value_end ?input p = Inr (p + length (jf_value g))" by (rule value_end [OF v p(2)]) (rule p(3))
    moreover have "get_range ?input p (p + length (jf_value g)) = Some (jf_value g)"
    proof -
      have "drop p ?input \<noteq> []" using p(2) value_head [OF v] by simp
      then have "p \<le> length ?input" by (metis drop_all nat_le_linear)
      then show ?thesis using p(2) get_range_drop by blast
    qed
    ultimately show ?thesis
      using Some p(1) by (simp add: import_blob_from_json_def blob_of_def slice_range_def)
  qed
qed

lemma import_passphrase_text:
  assumes ok: "list_all (\<lambda>f. field_ok f \<and> json_value (jf_value f)) members" and "list_all json_space w"
    and short: "length (w @ object_text members @ r) \<le> MAX_STDIN_SECRET_BYTES"
  shows "import_passphrase_from_json (w @ object_text members @ r) = passphrase_of members"
proof -
  let ?input = "w @ object_text members @ r"
  note f = find_field [OF assms(1,2) refl assms(3), of "as_bytes ''passphrase''"]
  show ?thesis
  proof (cases "field_named members (as_bytes ''passphrase'')")
    case None
    then show ?thesis using f by (simp add: found_def import_passphrase_from_json_def passphrase_of_def)
  next
    case (Some g)
    obtain p t where p: "find_json_field_value ?input (as_bytes ''passphrase'') = Inr p" "drop p ?input = jf_value g @ t"
      using f Some by (auto simp: found_def)
    have v: "json_value (jf_value g)" using ok field_in [OF Some] by (auto simp: list_all_iff)
    obtain b v' where b: "jf_value g = b # v'" using value_head [OF v] by (cases "jf_value g") auto
    have d: "drop p ?input = b # (v' @ t)" using p(2) b by simp
    show ?thesis
    proof (cases "b = quote")
      case False
      then show ?thesis
        using drop_ConsD [OF d] p(1) Some b by (simp add: import_passphrase_from_json_def passphrase_of_def get_def)
    next
      case True
      then obtain its where its: "jf_value g = text_of its" "list_all item_ok its"
        using quoted_value [OF v] b by auto
      have "length (drop p ?input) \<le> length ?input" by (simp only: length_drop diff_le_self)
      moreover have "length (items_text its) \<le> length (drop p ?input)"
        by (simp add: p(2) its del: drop_append length_drop)
      ultimately have len: "length (items_text its) \<le> MAX_STDIN_SECRET_BYTES" using short by (meson le_trans)
      have "decode_json_string_bytes (jf_value g @ t) = decode_json_string_bytes (jf_value g)"
        using decode_text [OF its(2) len, of t] decode_text [OF its(2) len, of "[]"] its(1) by simp
      then show ?thesis
        using drop_ConsD [OF d] slice_drop [OF d] p(1) Some b True
        by (simp add: import_passphrase_from_json_def passphrase_of_def get_def)
    qed
  qed
qed

text \<open>
  C7. The hand-written scanner reads JSON as JSON: on the text of any object that fits standard input,
  with any other fields, nested values, whitespace and escapes, the passphrase it returns is the
  decoded string of the first field whose decoded key is \<open>passphrase\<close>, the blob is parsed from
  exactly the text of the first field whose decoded key is \<open>blob\<close>, and a field that is missing or a
  passphrase that is not a string is the error it should be.
\<close>

theorem import_reads_object:
  assumes "list_all (\<lambda>f. field_ok f \<and> json_value (jf_value f)) members" "list_all json_space w"
    and "length (w @ object_text members @ r) \<le> MAX_STDIN_SECRET_BYTES"
  shows "import_passphrase_from_json (w @ object_text members @ r) = passphrase_of members \<and>
    import_blob_from_json from_slice (w @ object_text members @ r) = blob_of from_slice members"
  by (intro conjI import_passphrase_text import_blob_text assms)

definition sample_field :: "string \<Rightarrow> bytes \<Rightarrow> json_field" where
  "sample_field name v = \<lparr>jf_before = [], jf_key = map Plain (as_bytes name), jf_colon = ([], [0x20]),
     jf_value = v, jf_after = []\<rparr>"

definition sample_members :: "json_field list" where
  "sample_members = [sample_field ''blob'' (as_bytes ''null''), sample_field ''passphrase'' (text_of [Plain 0x61])]"

lemma sample_members_ok: "list_all (\<lambda>f. field_ok f \<and> json_value (jf_value f)) sample_members"
  using json_value.Text [of "[Plain 0x61]"] json_value.Literal [of "as_bytes ''null''"]
  by (simp add: sample_members_def sample_field_def field_ok_def json_space_def as_bytes_Cons)

lemma import_reads_object_witness:
  "import_passphrase_from_json ([0x0A] @ object_text sample_members @ []) = Inr [0x61] \<and>
   import_blob_from_json (\<lambda>_. None) ([0x0A] @ object_text sample_members @ []) =
     blob_of (\<lambda>_. None) sample_members"
proof -
  have "length ([0x0A] @ object_text sample_members @ []) \<le> MAX_STDIN_SECRET_BYTES"
    by (simp add: object_text_def sample_members_def sample_field_def field_text_def as_bytes_Cons
        MAX_STDIN_SECRET_BYTES_def)
  moreover have "list_all json_space [0x0A]" by (simp add: json_space_def)
  moreover have "decode_json_string_bytes (text_of [Plain 0x61] @ []) = Inr [0x61]"
    by (subst decode_text) (simp_all add: MAX_STDIN_SECRET_BYTES_def items_value_def)
  then have "passphrase_of sample_members = Inr [0x61]"
    by (simp add: passphrase_of_def field_named_def sample_members_def sample_field_def as_bytes_Cons text_of_def)
  ultimately show ?thesis using import_reads_object [OF sample_members_ok, of "[0x0A]" "[]" "\<lambda>_. None"] by simp
qed

end
