(* ===== verification/KeyTransfer.thy ===== *)
theory KeyTransfer
  imports CommandProperties ImportText
begin

text \<open>
  The way of a master key from one machine to another: \<open>key export\<close> prints an export under a
  passphrase, the user puts it with the passphrase into a JSON object, and \<open>key import\<close> reads that
  object on another machine. What passes between the machines is JSON text: what one machine's
  serde prints is what the hand-written scanner of the other must find.
\<close>

section \<open>What each run does\<close>

definition transfer_laws ::
    "('sc, 'pt, 'k, 'e) command_env_scheme \<Rightarrow> ('sc2, 'pt2, 'k2, 'e) command_env_scheme \<Rightarrow> bool" where
  "transfer_laws A B \<longleftrightarrow> ae_core B = ae_core A \<and> aead_correct (ae_core A) \<and> base64_correct (ae_core A) \<and>
     reliable_stdout A \<and> (\<forall>c. length (ce_random A c 1) = NONCE_BYTES) \<and>
     (\<forall>b. ce_export_blob B (ce_json A (ExportOut b)) = Some b)"

lemma file_unlock: "cfg_store config = SelFile \<Longrightarrow> read_unlock config g = (Inr (UnlockStandard File), g)"
  by (simp add: read_unlock_def on_input_def read_store_unlock_def)

lemma on_input_world:
  "on_input f g = (r, g') \<Longrightarrow> r = fst (f (cs_input g)) \<and> cs_gate g' = cs_gate g \<and> cs_stdout g' = cs_stdout g \<and> cs_calls g' = cs_calls g"
  by (auto simp: on_input_def case_prod_unfold Let_def)

lemma load_file_world:
  assumes "load_existing_master_from_unlock E (UnlockStandard File) g = (Inr key, g')"
  obtains p fs1 where "default_master_key_path (ho_env (ce_host E)) = Inr p"
    "file_get (ho_os (ce_host E)) p (fst (gt_world (cs_gate g))) = (Inr key, fs1)"
    "cs_stdout g' = cs_stdout g"
proof (cases "default_master_key_path (ho_env (ce_host E))")
  case (Inl e)
  then show ?thesis
    using assms by (simp add: load_existing_master_from_unlock_def load_master_key_def load_named_def
        on_stores_def at_path_def)
next
  case (Inr p)
  obtain r fs1 where r: "file_get (ho_os (ce_host E)) p (fst (gt_world (cs_gate g))) = (r, fs1)"
    by (metis surj_pair)
  then have "r = Inr key" "cs_stdout g' = cs_stdout g"
    using assms Inr by (auto simp: load_existing_master_from_unlock_def load_master_key_def load_named_def
        on_stores_def at_path_def on_fs_def)
  then show ?thesis using that Inr r by blast
qed

lemma export_effect:
  assumes rel: "reliable_stdout E" and sel: "cfg_store config = SelFile"
    and run: "key_export_cmd E config g = (Inr status, g1)"
  obtains typed p key fs1 salt c blob where
    "fst (read_stdin_zeroizing_from stream_read (cs_input g)) = Inr typed"
    "default_master_key_path (ho_env (ce_host E)) = Inr p"
    "file_get (ho_os (ce_host E)) p (fst (gt_world (cs_gate g))) = (Inr key, fs1)"
    "export_master_key (ae_core E) salt (ce_random E c 1) key (trim_trailing_newlines typed) = Inr blob"
    "cs_stdout g1 = cs_stdout g @ ce_json E (ExportOut blob) @ [10]"
proof -
  obtain typed g2 key g3 where read: "on_input (read_stdin_zeroizing_from stream_read) g = (Inr typed, g2)"
      and load: "load_existing_master_from_unlock E (UnlockStandard File) g2 = (Inr key, g3)"
      and rest: "(let draw = ce_random E (cs_calls g3)
        in then_st (with_context ''key export failed''
             (export_master_key (ae_core E) (draw 0) (draw 1) key (trim_trailing_newlines typed)), count_call g3)
           (\<lambda>blob g. then_st (print_json E ''failed to write key export JSON'' (ExportOut blob) g) (\<lambda>_ g. (Inr 0, g))))
        = (Inr status, g1)"
    using run unfolding key_export_cmd_def file_unlock [OF sel] by (auto simp: then_st_eq_Inr context_st_eq_Inr Let_def)
  obtain p fs1 where p: "default_master_key_path (ho_env (ce_host E)) = Inr p"
      "file_get (ho_os (ce_host E)) p (fst (gt_world (cs_gate g2))) = (Inr key, fs1)" "cs_stdout g3 = cs_stdout g2"
    by (rule load_file_world [OF load])
  obtain blob where "export_master_key (ae_core E) (ce_random E (cs_calls g3) 0) (ce_random E (cs_calls g3) 1) key
        (trim_trailing_newlines typed) = Inr blob" "cs_stdout g1 = cs_stdout g3 @ ce_json E (ExportOut blob) @ [10]"
    using rest rel
    by (auto simp: Let_def res_simps print_json_def write_stdout_def reliable_stdout_def io_res_def println_def
        print_text_def count_call_def)
  then show ?thesis using that p on_input_world [OF read] by metis
qed

lemma stdin_short: "fst (read_stdin_zeroizing_from stream_read s) = Inr v \<Longrightarrow> length v \<le> MAX_STDIN_SECRET_BYTES"
  using stream.read_to_cap_bounded [of MAX_STDIN_SECRET_BYTES "[]" s v]
  by (auto simp: read_stdin_zeroizing_from_def read_zeroizing_to_cap_def prod_eq_iff)

lemma import_file_world:
  assumes "import_master_with_unlock E (UnlockStandard File) key force g = (Inr (), g')"
  obtains p fs1 where "default_master_key_path (ho_env (ce_host E)) = Inr p"
    "file_import (ho_os (ce_host E)) p key force (fst (gt_world (cs_gate g))) = (Inr (), fs1)"
    "fst (gt_world (cs_gate g')) = fs1"
proof (cases "default_master_key_path (ho_env (ce_host E))")
  case (Inl e)
  then show ?thesis
    using assms by (simp add: import_master_with_unlock_def store_import_master_key_def import_named_def
        on_stores_def at_path_def Let_def)
next
  case (Inr p)
  obtain r fs1 where r: "file_import (ho_os (ce_host E)) p key force (fst (gt_world (cs_gate g))) = (r, fs1)"
    by (metis surj_pair)
  then have "r = Inr ()" "fst (gt_world (cs_gate g')) = fs1"
    using assms Inr by (auto simp: import_master_with_unlock_def store_import_master_key_def import_named_def
        on_stores_def at_path_def on_fs_def Let_def context_st_eq_Inr split: prod.splits)
  then show ?thesis using that Inr r by blast
qed

lemma import_effect:
  assumes sel: "cfg_store config = SelFile"
    and request: "fst (read_stdin_zeroizing_from stream_read (cs_input g)) = Inr (w @ object_text members @ r)"
    and ok: "list_all (\<lambda>f. field_ok f \<and> json_value (jf_value f)) members" "list_all json_space w"
    and run: "key_import_cmd E args config g = (Inr status, g1)"
  obtains pw blob key force p fs1 where
    "passphrase_of members = Inr pw" "blob_of (ce_export_blob E) members = Inr blob"
    "import_master_key (ae_core E) blob (trim_trailing_newlines pw) = Inr key"
    "default_master_key_path (ho_env (ce_host E)) = Inr p"
    "file_import (ho_os (ce_host E)) p key force (fst (gt_world (cs_gate g))) = (Inr (), fs1)"
    "fst (gt_world (cs_gate g1)) = fs1"
proof -
  note short = stdin_short [OF request]
  note scan = import_passphrase_text [OF ok short] import_blob_text [OF ok short, of "ce_export_blob E"]
  obtain force g2 pw blob key g3 where
      read: "on_input (read_stdin_zeroizing_from stream_read) g = (Inr (w @ object_text members @ r), g2)"
    and scanned: "passphrase_of members = Inr pw" "blob_of (ce_export_blob E) members = Inr blob"
    and key: "import_master_key (ae_core E) blob (trim_trailing_newlines pw) = Inr key"
    and stored: "import_master_with_unlock E (UnlockStandard File) key force g2 = (Inr (), g3)"
    and said: "println E ok_json g3 = (Inr (), g1)"
    using run on_input_world [of "read_stdin_zeroizing_from stream_read" g] request
    unfolding key_import_cmd_def file_unlock [OF sel]
    by (auto simp: res_simps then_st_eq_Inr context_st_eq_Inr scan [symmetric])
  obtain p fs1 where "default_master_key_path (ho_env (ce_host E)) = Inr p"
      "file_import (ho_os (ce_host E)) p key force (fst (gt_world (cs_gate g2))) = (Inr (), fs1)"
      "fst (gt_world (cs_gate g3)) = fs1"
    by (rule import_file_world [OF stored])
  moreover have "gt_world (cs_gate g1) = gt_world (cs_gate g3)" using said
    by (auto simp: println_def print_text_def write_stdout_def io_res_def count_call_def Let_def split: prod.splits sum.splits)
  ultimately show ?thesis using that scanned key on_input_world [OF read] by metis
qed

section \<open>The key that arrives\<close>

text \<open>The text of an export as the field of the object: what was printed, less its newline.\<close>

definition carries :: "bytes \<Rightarrow> json_field list \<Rightarrow> bytes \<Rightarrow> bool" where
  "carries printed members passphrase \<longleftrightarrow>
     list_all (\<lambda>f. field_ok f \<and> json_value (jf_value f)) members \<and>
     (\<exists>f. field_named members (as_bytes ''blob'') = Some f \<and> jf_value f @ [10] = printed) \<and>
     map_res trim_trailing_newlines (passphrase_of members) = Inr (trim_trailing_newlines passphrase)"

lemma carries_blob:
  assumes "carries (ce_json A (ExportOut blob) @ [10]) members passphrase"
    and "\<And>b. ce_export_blob B (ce_json A (ExportOut b)) = Some b"
  shows "blob_of (ce_export_blob B) members = Inr blob"
  using assms by (auto simp: carries_def blob_of_def)

text \<open>
  C5. A key moves between machines: the export that \<open>key export\<close> prints on one machine, put as the
  \<open>blob\<close> of any JSON object whose \<open>passphrase\<close> is the one that was typed (whatever else the object
  has, however it is spaced and escaped), is imported by \<open>key import\<close> on another machine as the same
  key: once that run succeeds, every later load there from the same files returns the key that
  the key file of the first machine held. Both machines use the file store (\<open>--store file\<close>), the standard output of the
  first takes everything, no call that reads a file on the second fails, its key file lies where
  no temporary file is made, and the two share the ciphers and serde's JSON of the export.
\<close>

theorem exported_key_moves:
  assumes laws: "transfer_laws A B" "tempfile_laws (ho_os (ce_host B))" "quiet_files (ho_os (ce_host B))"
    and stores: "cfg_store ca = SelFile" "cfg_store cb = SelFile"
    and export: "fst (read_stdin_zeroizing_from stream_read (cs_input ga)) = Inr typed"
      "key_export_cmd A ca ga = (Inr sa, ga1)"
    and request: "carries (drop (length (cs_stdout ga)) (cs_stdout ga1)) members typed" "list_all json_space w"
      "fst (read_stdin_zeroizing_from stream_read (cs_input gb)) = Inr (w @ object_text members @ r)"
    and import: "key_import_cmd B args cb gb = (Inr sb, gb1)"
    and paths: "default_master_key_path (ho_env (ce_host A)) = Inr pa" "default_master_key_path (ho_env (ce_host B)) = Inr pb"
      "not_temp (writable_parent pb)"
    and later: "nodes (fst (gt_world (cs_gate g2))) = nodes (fst (gt_world (cs_gate gb1)))"
  shows "\<exists>key g3. key_file pa (fst (gt_world (cs_gate ga))) = Some key \<and>
    load_existing_master_from_unlock B (UnlockStandard File) g2 = (Inr key, g3)"
proof -
  have core: "ae_core B = ae_core A" "aead_correct (ae_core A)" "base64_correct (ae_core A)" "reliable_stdout A"
      "\<And>c. length (ce_random A c 1) = NONCE_BYTES" and json: "\<And>b. ce_export_blob B (ce_json A (ExportOut b)) = Some b"
    using laws(1) by (simp_all add: transfer_laws_def)
  obtain key fs1 salt c blob where
      get: "file_get (ho_os (ce_host A)) pa (fst (gt_world (cs_gate ga))) = (Inr key, fs1)"
    and made: "export_master_key (ae_core A) salt (ce_random A c 1) key (trim_trailing_newlines typed) = Inr blob"
    and printed: "cs_stdout ga1 = cs_stdout ga @ ce_json A (ExportOut blob) @ [10]"
    using export_effect [OF core(4) stores(1) export(2)] export(1) paths(1) by (metis sum.inject(2))
  have held: "key_file pa (fst (gt_world (cs_gate ga))) = Some key" by (rule file_get_sound [OF get])
  then have len: "length key = MASTER_KEY_BYTES" by (auto simp: key_file_def split: option.splits node.splits if_splits)
  have carried: "carries (ce_json A (ExportOut blob) @ [10]) members typed" using request(1) printed by simp
  then have ok: "list_all (\<lambda>f. field_ok f \<and> json_value (jf_value f)) members" by (simp add: carries_def)
  obtain pw blob' key' force fs2 where
      got: "passphrase_of members = Inr pw" "blob_of (ce_export_blob B) members = Inr blob'"
        "import_master_key (ae_core B) blob' (trim_trailing_newlines pw) = Inr key'"
    and stored: "file_import (ho_os (ce_host B)) pb key' force (fst (gt_world (cs_gate gb))) = (Inr (), fs2)"
      "fst (gt_world (cs_gate gb1)) = fs2"
    using import_effect [OF stores(2) request(3) ok request(2) import] paths(2) by (metis sum.inject(2))
  have "trim_trailing_newlines pw = trim_trailing_newlines typed" using carried got(1) by (simp add: carries_def)
  moreover have "blob' = blob" using carries_blob [OF carried json] got(2) by simp
  ultimately have "key' = key"
    using export_then_import [OF core(2,3,5) _ made] got(3) core(1) len by (simp add: KEY_BYTES_def MASTER_KEY_BYTES_def)
  note p = default_key_path [OF paths(2)]
  have "key_file pb fs2 = Some key"
    using file_import_installs(1) [OF laws(2) p stored(1)] installs_key_file(1) [OF _ len] \<open>key' = key\<close> by blast
  moreover obtain n where "nodes fs2 (writable_parent pb) = Some n" "node_mode n AND 63 = 0"
    using file_import_private_parent [OF laws(2) p paths(3) stored(1)] by blast
  ultimately have "fst (file_get (ho_os (ce_host B)) pb (fst (gt_world (cs_gate g2)))) = Inr key"
    using laws(3) later stored(2) by (intro file_get_complete) (auto simp: quiet_files_def key_file_def)
  then obtain fs3 where "file_get (ho_os (ce_host B)) pb (fst (gt_world (cs_gate g2))) = (Inr key, fs3)"
    by (metis prod.collapse)
  from on_file_get [OF paths(2) this] held show ?thesis
    by (auto simp: load_existing_master_from_unlock_def)
qed

section \<open>A sample\<close>

text \<open>
  The JSON form of an export as one string: its fields printed one after the other, each byte as
  two letters. Two machines of that form, the first with a key file and the second without.
\<close>

definition letters :: "byte \<Rightarrow> bytes" where
  "letters b = [byte_of (97 + unat b div 16), byte_of (97 + unat b mod 16)]"

fun unletters :: "bytes \<Rightarrow> bytes" where
  "unletters (x # y # r) = byte_of ((unat x - 97) * 16 + (unat y - 97)) # unletters r"
| "unletters _ = []"

lemma unletters_letters: "unletters (concat (map letters bs)) = bs"
proof (induction bs)
  case (Cons b bs)
  have "unat b div 16 < 16" using unat_byte_less [of b] by (simp del: unat_byte_less)
  moreover have "unat b mod 16 < 16" by simp
  ultimately have "unat (byte_of (97 + unat b div 16)) = 97 + unat b div 16"
      "unat (byte_of (97 + unat b mod 16)) = 97 + unat b mod 16"
    by (simp_all del: mod_less_divisor)
  then have "byte_of ((unat (byte_of (97 + unat b div 16)) - 97) * 16 + (unat (byte_of (97 + unat b mod 16)) - 97))
      = byte_of (unat b)"
    by simp
  also have "\<dots> = b" by (simp add: byte_of_def)
  finally have "byte_of ((unat (byte_of (97 + unat b div 16)) - 97) * 16 + (unat (byte_of (97 + unat b mod 16)) - 97)) = b" .
  then show ?case using Cons by (simp add: letters_def)
qed simp

definition export_strings :: "export_blob \<Rightarrow> string list" where
  "export_strings b = [eb_scheme b, eb_kdf b, sample_u32 (eb_n b), sample_u32 (eb_r b), sample_u32 (eb_p b),
     eb_salt b, eb_nonce b, eb_ciphertext b]"

definition sample_export_items :: "export_blob \<Rightarrow> json_item list" where
  "sample_export_items b = map Plain (concat (map letters (as_bytes (concat (map sample_str (export_strings b))))))"

definition sample_export_json :: "export_blob \<Rightarrow> bytes" where
  "sample_export_json b = text_of (sample_export_items b)"

definition sample_parse_export :: "bytes \<Rightarrow> export_blob option" where
  "sample_parse_export v = (case sample_strings 8 (string_of (unletters (butlast (tl v)))) of
       Some [a, b, c, d, e, f, g, h] \<Rightarrow>
         Some \<lparr>eb_scheme = a, eb_kdf = b, eb_n = sample_unu32 c, eb_r = sample_unu32 d,
               eb_p = sample_unu32 e, eb_salt = f, eb_nonce = g, eb_ciphertext = h\<rparr>
     | _ \<Rightarrow> None)"

lemma items_text_plain: "items_text (map Plain bs) = bs"
  by (induction bs) simp_all

lemma sample_parse_export_json: "sample_parse_export (sample_export_json b) = Some b"
proof -
  have eight: "length (export_strings b) = 8" by (simp add: export_strings_def)
  have "sample_strings 8 (concat (map sample_str (export_strings b))) = Some (export_strings b)"
    using sample_strings_concat [of "export_strings b"] eight by simp
  then show ?thesis
    by (simp add: sample_parse_export_def sample_export_json_def text_of_def sample_export_items_def
        items_text_plain unletters_letters del: as_bytes_append) (simp add: export_strings_def)
qed

lemma letters_ok: "list_all item_ok (map Plain (concat (map letters bs)))"
proof -
  have "item_ok (Plain (byte_of (97 + n)))" if "n < 16" for n
  proof -
    have "unat (byte_of (97 + n)) = 97 + n" using that by simp
    then show ?thesis by (auto simp: word_less_nat_alt)
  qed
  moreover have "unat b div 16 < 16" for b :: byte using unat_byte_less [of b] by (simp del: unat_byte_less)
  ultimately show ?thesis by (induction bs) (simp_all add: letters_def)
qed

definition sample_transfer :: "(z3, z3, counted_keychain) command_env" where
  "sample_transfer = sample_commands
     \<lparr>ce_json := (\<lambda>out. case out of ExportOut b \<Rightarrow> sample_export_json b | _ \<Rightarrow> []),
      ce_export_blob := sample_parse_export\<rparr>"

lemma sample_transfer_simps:
  "ae_core sample_transfer = sample_blind" "ce_host sample_transfer = \<lparr>ho_platform = MacOS, ho_os = plain_os,
     ho_env = sample_env, ho_security = counted_security, ho_tpm = sample_tpm\<rparr>"
  "ce_json sample_transfer = (\<lambda>out. case out of ExportOut b \<Rightarrow> sample_export_json b | _ \<Rightarrow> [])"
  "ce_export_blob sample_transfer = sample_parse_export"
  "ce_random sample_transfer = (\<lambda>_ i. replicate (if i = 0 then 32 else 12) 1)"
  "ce_stdout sample_transfer = (\<lambda>_ out bs. (Inr (), out @ bs))"
  by (simp_all add: sample_transfer_def sample_commands_simps)

lemma sample_transfer_laws: "transfer_laws sample_transfer sample_transfer"
  using sample_sealing_laws
  by (simp add: transfer_laws_def sealing_laws_def reliable_stdout_def sample_commands_simps sample_transfer_simps
      sample_parse_export_json NONCE_BYTES_def)

definition sample_exported :: export_blob where
  "sample_exported = \<lparr>eb_scheme = EXPORT_SCHEME, eb_kdf = ''scrypt'', eb_n = SCRYPT_N, eb_r = SCRYPT_R, eb_p = SCRYPT_P,
     eb_salt = string_of (replicate 32 1), eb_nonce = string_of (replicate 12 1),
     eb_ciphertext = string_of (sample_header (97 # replicate 31 1) (replicate 12 1) [] @ sample_key)\<rparr>"

lemma sample_export:
  "export_master_key sample_blind (replicate 32 1) (replicate 12 1) sample_key [97] = Inr sample_exported"
proof -
  have "take 32 ([97] @ replicate 32 1 @ replicate 32 0) = 97 # replicate 31 (1 :: byte)"
    by (simp add: numeral_eq_Suc)
  then have "derive_kek_scrypt sample_blind [97] (replicate 32 1) SCRYPT_N SCRYPT_R SCRYPT_P = Inr (97 # replicate 31 1)"
    by (simp add: derive_kek_scrypt_accepted [where k = 15] SCRYPT_N_def SCRYPT_R_def SCRYPT_P_def
        sample_blind_def core_env.extend_def sample_core_def)
  then show ?thesis
    by (simp add: export_master_key_def encrypt_with_key_def b64_def sample_exported_def
        sample_blind_def core_env.extend_def sample_core_def)
qed

lemma sample_read_one: "read_stdin_zeroizing_from stream_read [Data [b]] = (Inr [b], [])"
  by (simp add: read_stdin_zeroizing_from_def read_zeroizing_to_cap_def read_to_cap.simps
      MAX_STDIN_SECRET_BYTES_def STDIN_READ_CHUNK_BYTES_def)

lemma trim_one: "trim_trailing_newlines [97] = [97]"
  by (simp add: trim_trailing_newlines.simps)

lemma sample_export_run:
  "\<exists>g1. key_export_cmd sample_transfer \<lparr>cfg_store = SelFile\<rparr> (sample_sys [97]) = (Inr 0, g1) \<and>
     cs_stdout g1 = sample_export_json sample_exported @ [10]"
proof -
  obtain s where s: "file_get plain_os sample_key_path (home_fs (Some (Reg 384 sample_key))) = (Inr sample_key, s)"
    using sample_get by blast
  show ?thesis
    by (simp add: key_export_cmd_def file_unlock on_input_def sample_sys_def sample_read_one trim_one
        load_existing_master_from_unlock_def load_master_key_def load_named_def sample_transfer_simps on_stores_def
        at_path_def sample_paths on_fs_def s sample_export print_json_def write_stdout_def io_res_def
        println_def print_text_def count_call_def Let_def)
qed

definition transfer_members :: "json_field list" where
  "transfer_members = [sample_field ''blob'' (sample_export_json sample_exported), sample_field ''passphrase'' (text_of [Plain 97])]"

lemma transfer_members_ok: "list_all (\<lambda>f. field_ok f \<and> json_value (jf_value f)) transfer_members"
  using json_value.Text [of "[Plain 97]"] json_value.Text [OF letters_ok]
  by (simp add: transfer_members_def sample_field_def field_ok_def json_space_def as_bytes_Cons
      sample_export_json_def sample_export_items_def)

lemma length_concat_letters: "length (concat (map letters bs)) = 2 * length bs"
  by (induction bs) (simp_all add: letters_def)

lemma length_strings: "length (concat (map sample_str ss)) = sum_list (map (\<lambda>s. 2 * length s + 1) ss)"
  by (induction ss) (simp_all add: sample_str_def)

lemma length_export_json:
  "length (sample_export_json b) = 2 + 2 * sum_list (map (\<lambda>s. 2 * length s + 1) (export_strings b))"
  unfolding sample_export_json_def sample_export_items_def length_text_of items_text_plain length_concat_letters
    length_as_bytes length_strings by simp

lemma transfer_members_passphrase: "passphrase_of transfer_members = Inr [97]"
proof -
  have "decode_json_string_bytes (text_of [Plain 97] @ []) = Inr [97]"
    by (subst decode_text) (simp_all add: MAX_STDIN_SECRET_BYTES_def items_value_def)
  then show ?thesis
    by (simp add: passphrase_of_def field_named_def transfer_members_def sample_field_def as_bytes_Cons text_of_def)
qed

lemma sample_carries: "carries (sample_export_json sample_exported @ [10]) transfer_members [97]"
  using transfer_members_ok transfer_members_passphrase
  by (simp add: carries_def) (simp add: transfer_members_def sample_field_def field_named_def as_bytes_Cons)

definition sample_new_sys :: "counted_keychain command_sys" where
  "sample_new_sys = (sample_sys [])\<lparr>cs_input := [Data (object_text transfer_members)],
     cs_gate := (cs_gate (sample_sys []))\<lparr>gt_world := (home_fs None,
       \<lparr>ck_item = None, ck_ui = True, ck_prompts = 0\<rparr>)\<rparr>\<rparr>"

lemma transfer_members_short: "length (object_text transfer_members) \<le> MAX_STDIN_SECRET_BYTES"
proof -
  have "length (sample_export_json sample_exported) \<le> 2000"
    by (simp add: length_export_json export_strings_def sample_exported_def EXPORT_SCHEME_def sample_u32_def
        sample_header_def length_sample_key MASTER_KEY_BYTES_def)
  then show ?thesis
    by (simp add: object_text_def transfer_members_def sample_field_def field_text_def as_bytes_Cons
        items_text_plain MAX_STDIN_SECRET_BYTES_def)
qed

lemma sample_new_read: "fst (read_stdin_zeroizing_from stream_read (cs_input sample_new_sys)) = Inr ([] @ object_text transfer_members @ [])"
  using stream.read_zeroizing_to_cap_clean [of "[Data (object_text transfer_members)]" MAX_STDIN_SECRET_BYTES] transfer_members_short
  by (simp add: read_stdin_zeroizing_from_def sample_new_sys_def)

lemma sample_file_arrives: "fst (file_import plain_os sample_key_path sample_key False (home_fs None)) = Inr ()"
proof -
  have "sample_key_path \<noteq> [100, 47, 46, 109, 97, 99, 104, 105, 110, 101, 46, 120, 46, 116, 109, 112]"
    by (simp add: sample_key_path_def)
  then show ?thesis
    by (simp add: file_import_def parent_eval fs_eval sample_paths home_fs_nodes path_join_def as_bytes_Cons home_fs_temp)
qed

lemma sample_import_run:
  "\<exists>g1. key_import_cmd sample_transfer [] \<lparr>cfg_store = SelFile\<rparr> sample_new_sys = (Inr 0, g1)"
proof -
  obtain s where s: "read_stdin_zeroizing_from stream_read (cs_input sample_new_sys) = (Inr (object_text transfer_members), s)"
    using sample_new_read by (metis append_Nil append_Nil2 prod.collapse)
  have json: "\<And>b. ce_export_blob sample_transfer (ce_json sample_transfer (ExportOut b)) = Some b"
    by (simp add: sample_transfer_simps sample_parse_export_json)
  have blob: "blob_of (ce_export_blob sample_transfer) transfer_members = Inr sample_exported"
    using carries_blob [of sample_transfer sample_exported transfer_members "[97]" sample_transfer] json sample_carries
    by (simp add: sample_transfer_simps)
  have scan: "import_passphrase_from_json (object_text transfer_members) = Inr [97]"
      "import_blob_from_json sample_parse_export (object_text transfer_members) = Inr sample_exported"
    using import_passphrase_text [OF transfer_members_ok, of "[]" "[]"] transfer_members_passphrase blob
      import_blob_text [OF transfer_members_ok, of "[]" "[]" sample_parse_export] transfer_members_short
    by (simp_all add: sample_transfer_simps)
  have "import_master_key sample_blind sample_exported [97] = Inr sample_key"
    using export_then_import [OF _ _ _ _ sample_export] sample_transfer_laws
    by (simp add: transfer_laws_def sample_transfer_simps NONCE_BYTES_def KEY_BYTES_def length_sample_key MASTER_KEY_BYTES_def)
  moreover obtain fs1 where "file_import plain_os sample_key_path sample_key False (home_fs None) = (Inr (), fs1)"
    using sample_file_arrives by (metis prod.collapse)
  ultimately show ?thesis
    by (simp add: key_import_cmd_def parse_flag_def file_unlock on_input_def s scan trim_one sample_transfer_simps
        import_master_with_unlock_def store_import_master_key_def import_named_def on_stores_def at_path_def sample_paths
        on_fs_def println_def print_text_def write_stdout_def Let_def)
      (simp add: sample_new_sys_def sample_sys_def)
qed

theorem exported_key_moves_witness:
  "\<exists>ga1 gb1 g3. key_export_cmd sample_transfer \<lparr>cfg_store = SelFile\<rparr> (sample_sys [97]) = (Inr 0, ga1) \<and>
     key_import_cmd sample_transfer [] \<lparr>cfg_store = SelFile\<rparr> sample_new_sys = (Inr 0, gb1) \<and>
     load_existing_master_from_unlock sample_transfer (UnlockStandard File) gb1 = (Inr sample_key, g3)"
proof -
  obtain ga1 where ga1: "key_export_cmd sample_transfer \<lparr>cfg_store = SelFile\<rparr> (sample_sys [97]) = (Inr 0, ga1)"
      "cs_stdout ga1 = sample_export_json sample_exported @ [10]"
    using sample_export_run by blast
  obtain gb1 where gb1: "key_import_cmd sample_transfer [] \<lparr>cfg_store = SelFile\<rparr> sample_new_sys = (Inr 0, gb1)"
    using sample_import_run by blast
  have typed: "fst (read_stdin_zeroizing_from stream_read (cs_input (sample_sys [97]))) = Inr [97]"
    by (simp add: sample_sys_def sample_read_one)
  have carried: "carries (drop (length (cs_stdout (sample_sys [97]))) (cs_stdout ga1)) transfer_members [97]"
    using sample_carries ga1(2) by (simp add: sample_sys_def)
  have quiet: "quiet_files (ho_os (ce_host sample_transfer))" "tempfile_laws (ho_os (ce_host sample_transfer))"
    using plain_laws by (simp_all add: sample_transfer_simps quiet_files_def plain_os_simps)
  have path: "default_master_key_path (ho_env (ce_host sample_transfer)) = Inr sample_key_path"
      "not_temp (writable_parent sample_key_path)"
    by (simp_all add: sample_transfer_simps sample_paths not_temp_def as_bytes_Cons)
  obtain key g3 where "key_file sample_key_path (fst (gt_world (cs_gate (sample_sys [97])))) = Some key"
      "load_existing_master_from_unlock sample_transfer (UnlockStandard File) gb1 = (Inr key, g3)"
    using exported_key_moves [OF sample_transfer_laws quiet(2,1) _ _ typed ga1(1) carried _ sample_new_read gb1 path(1,1,2) refl]
    by auto
  then have "load_existing_master_from_unlock sample_transfer (UnlockStandard File) gb1 = (Inr sample_key, g3)"
    by (simp add: sample_sys_def key_file_def home_fs_nodes length_sample_key)
  then show ?thesis using ga1(1) gb1 by blast
qed

end
