(* ===== verification/KeyKeeping.thy ===== *)
theory KeyKeeping
  imports CommandProperties
begin

text \<open>
  Which runs of the program can destroy a master key. Every step of a command keeps the regular files
  that exist and the item of the Keychain; only \<open>key import\<close> and \<open>deliver inject\<close>, which are told what to
  write, replace a file.
\<close>

section \<open>Keeping regular files and the Keychain item\<close>

definition keeps_files :: "fs \<Rightarrow> fs \<Rightarrow> bool" where
  "keeps_files s s' \<longleftrightarrow> (\<forall>q m bs. not_temp q \<longrightarrow> nodes s q = Some (Reg m bs) \<longrightarrow> nodes s' q = Some (Reg m bs))"

definition keeps_item :: "('k \<Rightarrow> bytes option) \<Rightarrow> 'k \<Rightarrow> 'k \<Rightarrow> bool" where
  "keeps_item item k k' \<longleftrightarrow> item k = None \<or> item k' = item k"

definition keys_kept :: "('k \<Rightarrow> bytes option) \<Rightarrow> 'k command_sys \<Rightarrow> 'k command_sys \<Rightarrow> bool" where
  "keys_kept item g g' \<longleftrightarrow>
     (let (s, k) = gt_world (cs_gate g); (s', k') = gt_world (cs_gate g')
      in keeps_files s s' \<and> keeps_item item k k')"

lemma keeps_regular: "keeps s s' \<Longrightarrow> keeps_files s s'"
  by (simp add: keeps_def keeps_files_def)

lemma keys_kept_stores:
  "keys_kept item g (snd (on_stores f g))"
  if "keeps_stores item (gt_world (cs_gate g)) (snd (f (gt_world (cs_gate g))))"
  using that
  by (simp add: keys_kept_def on_stores_def case_prod_unfold Let_def keeps_stores_def keeps_regular keeps_item_def)

lemma keys_kept_files:
  "keys_kept item g (snd (on_stores (on_fs f) g))" if "keeps_files (fst (gt_world (cs_gate g))) (snd (f (fst (gt_world (cs_gate g)))))"
  using that by (simp add: keys_kept_def on_stores_def on_fs_def case_prod_unfold Let_def keeps_item_def)

section \<open>The steps that are new here\<close>

lemma passphrase_path:
  assumes "default_passphrase_master_key_path env = Inr p"
  shows "not_temp p" "p \<noteq> [46]"
proof -
  obtain x where "\<forall>g. hd (as_bytes g) \<noteq> 47 \<longrightarrow> vault_file env g = Inr (x @ as_bytes g)"
    using vault_file_prefix assms unfolding default_passphrase_master_key_path_def by blast
  then have "p = x @ as_bytes ''machine.passphrase.json''"
    using assms by (auto simp: default_passphrase_master_key_path_def as_bytes_Cons
        dest!: spec [of _ "''machine.passphrase.json''"])
  then show "not_temp p" "p \<noteq> [46]" by (simp_all add: not_temp_def as_bytes_Cons append_eq_Cons_conv)
qed

lemma keeps_sequence: "keeps s (snd m) \<Longrightarrow> (\<And>x s1. keeps s1 (snd (f x s1))) \<Longrightarrow> keeps s (snd (then_st m f))"
  by (cases m; cases "fst m") (auto intro: keeps_trans)

lemma passphrase_create_keeps:
  assumes laws: "tempfile_laws os" "not_temp p" "p \<noteq> [46]"
  shows "keeps s (snd (passphrase_create_atomic E os p pw s))"
proof -
  have parent: "keeps s (snd (ensure_parent os p s))" for s
    using ensure_parent_grows [of os p s, OF _ laws(3)] grows_keeps by (metis prod.collapse)
  have generated: "keeps s (snd (generate_locked os s))" for s
    using generate_locked_nodes [of os s] by (intro keeps_same) (metis prod.collapse)
  have wrapped: "keeps s (snd (wrap_passphrase_master E os key pw s))" for key s
    by (rule keeps_same [OF wrap_nodes])
  show ?thesis
    unfolding passphrase_create_atomic_def passphrase_ensure_parent_eq
    by (rule keeps_sequence, simp, rule keeps_sequence, rule parent, rule keeps_sequence, rule generated,
        rule keeps_sequence, rule wrapped, rule keeps_sequence, simp, rule install_new_keeps [OF laws(1,2)])
qed

lemma load_or_create_passphrase_keeps:
  assumes "tempfile_laws os"
  shows "keeps s (snd (load_or_create_passphrase_master_key E os env pw s))"
proof (cases "default_passphrase_master_key_path env")
  case (Inr p)
  have get: "keeps s (snd (passphrase_get E os p pw s))" for s by (rule keeps_same [OF nodes_passphrase_get])
  obtain r s1 where 1: "passphrase_get E os p pw s = (r, s1)" by (metis surj_pair)
  have "keeps s s1" using get [of s] 1 by simp
  moreover have "keeps s1 (snd (then_st (passphrase_create_atomic E os p pw s1) (\<lambda>_ s. passphrase_get E os p pw s)))"
    using passphrase_path [OF Inr] by (intro keeps_sequence get passphrase_create_keeps [OF assms])
  ultimately show ?thesis
    using 1 Inr
    by (cases r) (auto simp: load_or_create_passphrase_master_key_def passphrase_get_or_create_def intro: keeps_trans)
qed (simp add: load_or_create_passphrase_master_key_def)

lemma load_passphrase_keeps: "keeps s (snd (load_passphrase_master_key E os env pw s))"
  by (cases "default_passphrase_master_key_path env")
     (simp_all add: load_passphrase_master_key_def keeps_same nodes_passphrase_get)

lemma bind_socket_keeps_files: "keeps_files s (snd (bind_agent_socket os env p s))"
proof -
  let ?rest = "\<lambda>s. then_st (clear_agent_socket os p s) (\<lambda>_ s.
      then_st (context_st ''failed to bind agent socket'' (bind_socket os p s)) (\<lambda>_ s.
      context_st ''failed to secure agent socket'' (set_permissions os p 384 s)))"
  obtain r1 s1 where 1: "ensure_agent_socket_parent os env (writable_parent p) s = (r1, s1)" by (metis surj_pair)
  have grown: "nodes s q = Some n \<Longrightarrow> nodes s1 q = Some n" for q n
    by (rule private_growth_keeps [OF socket_parent_growth [OF 1]])
  obtain r2 s2 where 2: "?rest s1 = (r2, s2)" by (metis surj_pair)
  have "nodes s2 q = Some (Reg m bs)" if "nodes s1 q = Some (Reg m bs)" for q m bs
    using socket_installed [OF 2] that by (cases "q = p") auto
  with grown show ?thesis
    by (cases r1) (simp_all add: bind_agent_socket_def 1 2 keeps_files_def)
qed

section \<open>Whole runs\<close>

locale keeping_host =
  fixes E :: "('sc, 'pt, 'k, 'e) command_env_scheme" and item :: "'k \<Rightarrow> bytes option"
  assumes host: "host_laws (ce_host E) item"

sublocale keeping_host \<subseteq> starting_relation E "keys_kept item"
proof
  note laws = host [unfolded host_laws_def]
  fix g g1 g2 :: "'k command_sys"
  show "keys_kept item g g" by (simp add: keys_kept_def keeps_files_def keeps_item_def case_prod_unfold Let_def)
  show "keys_kept item g g1 \<Longrightarrow> keys_kept item g1 g2 \<Longrightarrow> keys_kept item g g2"
    by (auto simp: keys_kept_def keeps_files_def keeps_item_def case_prod_unfold Let_def)
  show "keys_kept item g (count_call g)" "keys_kept item g (g\<lparr>cs_input := i\<rparr>)" "keys_kept item g (g\<lparr>cs_stdout := out\<rparr>)"
      "keys_kept item g (g\<lparr>cs_children := children\<rparr>)" for i out children
    by (simp_all add: keys_kept_def keeps_files_def keeps_item_def case_prod_unfold Let_def count_call_def)
  show "keys_kept item g (snd (on_stores (load_master_key (ce_host E) b) g))"
      "keys_kept item g (snd (on_stores (load_or_create_master_key (ce_host E) b) g))" for b
    by (intro keys_kept_stores load_keeps [OF host])+
  show "keys_kept item g (snd (on_stores (on_fs (load_passphrase_master_key (ce_store E) (ho_os (ce_host E)) (ho_env (ce_host E)) pw)) g))"
      "keys_kept item g (snd (on_stores (on_fs (load_or_create_passphrase_master_key (ce_store E) (ho_os (ce_host E)) (ho_env (ce_host E)) pw)) g))"
    for pw
    using laws by (auto intro!: keys_kept_files keeps_regular load_passphrase_keeps load_or_create_passphrase_keeps)
  show "keys_kept item g (snd (on_stores (on_fs (bind_agent_socket (ce_socket_os E) (ho_env (ce_host E)) path)) g))" for path
    by (rule keys_kept_files) (rule bind_socket_keeps_files)
qed

context keeping_host
begin

lemma keeps_authorize:
  assumes run: "key_authorize_cmd E args config g = Some rg"
  shows "keys_kept item g (snd rg)"
proof (cases "args = []")
  case False
  then show ?thesis using run by (auto simp: key_authorize_cmd_def same)
next
  case True
  obtain r g1 where 1: "read_unlock config g = (r, g1)" by (metis surj_pair)
  have g1: "keys_kept item g g1" using keeps_read_unlock [of g config] 1 by simp
  have rest: "keys_kept item g (snd (then_st m (\<lambda>_ g. then_st (println E ok_json g) (\<lambda>_ g. (Inr 0, g)))))"
    if "keys_kept item g (snd m)" for m :: "unit res \<times> 'k command_sys"
    using that by (intro sequence) (simp_all add: same)
  show ?thesis
  proof (cases r)
    case (Inl e)
    then show ?thesis using run True 1 g1 by (auto simp: key_authorize_cmd_def)
  next
    case (Inr unlock)
    show ?thesis
    proof (cases unlock)
      case (UnlockStandard b)
      then obtain r2 gate where gate: "authorize_master_key (ce_gate E) (ce_host E) b (cs_gate g1) = Some (r2, gate)"
        and rg: "rg = then_st (r2, g1\<lparr>cs_gate := gate\<rparr>) (\<lambda>_ g. then_st (println E ok_json g) (\<lambda>_ g. (Inr 0, g)))"
        using run True 1 Inr by (auto simp: key_authorize_cmd_def)
      have "keys_kept item g1 (g1\<lparr>cs_gate := gate\<rparr>)"
        using authorize_keeps [OF host gate]
        by (simp add: keys_kept_def keeps_stores_def keeps_regular keeps_item_def case_prod_unfold Let_def)
      then show ?thesis using rest [of "(r2, g1\<lparr>cs_gate := gate\<rparr>)"] joins [OF g1] by (simp add: rg)
    next
      case (UnlockFilePassphrase p)
      let ?m = "then_st (load_existing_master_from_unlock E unlock g1) (\<lambda>_ g. (Inr (), g))"
      have "keys_kept item g1 (snd ?m)" by (rule sequence) (simp_all add: same)
      then have "keys_kept item g (snd (then_st ?m (\<lambda>_ g. then_st (println E ok_json g) (\<lambda>_ g. (Inr 0, g)))))"
        by (intro rest joins [OF g1])
      moreover have "rg = then_st ?m (\<lambda>_ g. then_st (println E ok_json g) (\<lambda>_ g. (Inr 0, g)))"
        using run True 1 Inr UnlockFilePassphrase by (simp add: key_authorize_cmd_def)
      ultimately show ?thesis by simp
    qed
  qed
qed

lemma keeps_run:
  assumes run: "run_program E args g = Some (out, g')"
    and "\<not> injects (ho_env (ce_host E)) args"
    and import: "\<And>config rest. \<lbrakk>parse_global_options (ho_env (ce_host E)) args = Inr (config, rest);
        next_value rest = Some ''key''; next_value (tl rest) = Some ''import''\<rbrakk> \<Longrightarrow>
        keys_kept item g (snd (key_import_cmd E (tl (tl rest)) config g))"
  shows "keys_kept item g g'"
proof (cases "authorizes (ho_env (ce_host E)) args")
  case False
  then show ?thesis using assms(2) by (intro keeps_more [OF run _ import]) auto
next
  case True
  then obtain config rest where parse: "parse_global_options (ho_env (ce_host E)) args = Inr (config, rest)"
      and sub: "next_value rest = Some ''key''" "next_value (tl rest) = Some ''authorize''"
    by (auto simp: subcommand_def split: sum.splits)
  have "run_program E args g = map_option returned (key_authorize_cmd E (tl (tl rest)) config g)"
    by (simp add: run_program_def parse sub Let_def key_cmd_def)
  then obtain rg where "key_authorize_cmd E (tl (tl rest)) config g = Some rg" "(out, g') = returned rg"
    using run by (cases "key_authorize_cmd E (tl (tl rest)) config g") auto
  then show ?thesis using keeps_authorize by (simp add: returned_def)
qed

end

section \<open>Importing without force\<close>

lemma file_import_keeps:
  assumes "tempfile_laws os" "not_temp p" "p \<noteq> [46]"
  shows "keeps s (snd (file_import os p key False s))"
proof -
  have parent: "keeps s (snd (ensure_parent os p s))"
    using ensure_parent_grows [of os p s, OF _ assms(3)] grows_keeps by (metis prod.collapse)
  have store: "keeps s (snd (store_secret os d a key ow False m p s))" for d a ow m s
    using store_secret_keeps [OF assms(1,2)] by (metis prod.collapse)
  show ?thesis
    unfolding file_import_eq
  proof (rule keeps_sequence [OF parent])
    fix s1
    have n: "keeps s1 (snd (path_exists os p s1))" by (rule keeps_same) (simp add: path_exists_def)
    show "keeps s1 (snd (let (ex, s) = path_exists os p s1 in if ex \<and> \<not> False then (bail ''master key already exists'', s)
        else store_secret os (writable_parent p) ''.machine.'' key SetCurrentUser False
               (if False then ''failed to install imported master key'' else ''master key already exists'') p s))"
      using n keeps_trans [OF n store] by (simp add: case_prod_unfold Let_def)
  qed
qed

lemma tpm_import_keeps:
  assumes "tempfile_laws os" "tpm_laws B" "not_temp p" "p \<noteq> [46]"
  shows "keeps s (snd (tpm_import_with B os p key False s))"
proof -
  have parent: "keeps s (snd (ensure_parent os p s))"
    using ensure_parent_grows [of os p s, OF _ assms(4)] grows_keeps by (metis prod.collapse)
  have store: "keeps s (snd (tpm_create B os p key False s))" for s
    using tpm_create_keeps [OF assms] by (metis prod.collapse)
  show ?thesis
    unfolding tpm_import_eq
  proof (rule keeps_sequence [OF parent])
    fix s1
    have n: "keeps s1 (snd (path_exists os p s1))" by (rule keeps_same) (simp add: path_exists_def)
    show "keeps s1 (snd (let (ex, s) = path_exists os p s1 in if ex \<and> \<not> False then (bail ''master key already exists'', s)
        else tpm_create B os p key False s))"
      using n keeps_trans [OF n store] by (simp add: case_prod_unfold Let_def)
  qed
qed

lemma passphrase_import_keeps_others:
  assumes "tempfile_laws os" "not_temp p" "p \<noteq> [46]"
  shows "keeps s (snd (passphrase_import E os p pw key False s))"
proof -
  have parent: "keeps s (snd (passphrase_ensure_parent os p s))" for s
    unfolding passphrase_ensure_parent_eq
    using ensure_parent_grows [of os p s, OF _ assms(3)] grows_keeps by (metis prod.collapse)
  have store: "keeps s (snd (store_secret os (writable_parent p) ''.machine-passphrase.'' bs SetCurrentUser False
      ''passphrase master key already exists'' p s))" for bs s
    using store_secret_keeps [OF assms(1,2)] by (metis prod.collapse)
  have wrapped: "keeps s (snd (wrap_passphrase_master E os key pw s))" for s
    by (rule keeps_same [OF wrap_nodes])
  have rest: "keeps s (snd (then_st (wrap_passphrase_master E os key pw s) (\<lambda>blob s.
      then_st (with_context ''failed to encode passphrase store'' (lib_res ''serde_json'' (blob_to_vec E blob)), s) (\<lambda>bs s.
      store_secret os (writable_parent p) ''.machine-passphrase.'' bs SetCurrentUser False
        ''passphrase master key already exists'' p s))))" for s
    by (intro keeps_sequence wrapped store) simp
  show ?thesis
    unfolding passphrase_import_def
  proof (intro keeps_sequence [OF _ keeps_sequence [OF parent]])
    fix s1
    have n: "keeps s1 (snd (path_exists os p s1))" by (rule keeps_same) (simp add: path_exists_def)
    show "keeps s1 (snd (let (ex, s) = path_exists os p s1
     in if ex \<and> \<not> False then (bail ''passphrase master key already exists'', s)
        else then_st (wrap_passphrase_master E os key pw s) (\<lambda>blob s.
             then_st (with_context ''failed to encode passphrase store''
                        (lib_res ''serde_json'' (blob_to_vec E blob)), s) (\<lambda>bs s.
             then_st (write_synced_temp_secret_file os (writable_parent p) ''.machine-passphrase.''
                        ''.tmp'' bs SetCurrentUser s) (\<lambda>tmp s.
             then_st (if False
                then context_st ''failed to install passphrase master key'' (install os True tmp p s)
                else context_st ''passphrase master key already exists'' (install os False tmp p s))
               (\<lambda>_ s.
             then_st (validate_file_mode os p s) (\<lambda>_ s.
             sync_parent_dir os p s)))))))"
      using n keeps_trans [OF n rest [unfolded store_secret_def]] by (simp add: case_prod_unfold Let_def)
  qed simp
qed

lemma path_exists_keeps: "keeps s (snd (path_exists os p s))"
  by (rule keeps_same) (simp add: path_exists_def)

lemma linux_import_keeps:
  assumes "tempfile_laws os" "tpm_laws B"
  shows "keeps s (snd (import_linux_auto B os env key False s))"
proof (cases "default_tpm_master_key_path env")
  case (Inr tpm)
  show ?thesis
  proof (cases "default_master_key_path env")
    case (Inr p)
    note paths = default_key_path [OF Inr] tpm_path_ok [OF \<open>default_tpm_master_key_path env = Inr tpm\<close>]
    obtain ex s1 where 1: "path_exists os p s = (ex, s1)" by (metis surj_pair)
    obtain r s2 where 2: "tpm_import_with B os tpm key False s1 = (r, s2)" by (metis surj_pair)
    obtain tex s3 where 3: "path_exists os tpm s2 = (tex, s3)" by (metis surj_pair)
    have k: "keeps s s1" "keeps s1 s2" "keeps s2 s3"
      using path_exists_keeps [of s os p] tpm_import_keeps [OF assms, of tpm s1 key] path_exists_keeps [of s2 os tpm]
        paths 1 2 3 by simp_all
    have "keeps s s2" "keeps s s3" using k keeps_trans by blast+
    moreover have "keeps s3 (snd (file_import os p key False s3))"
      using file_import_keeps [OF assms(1)] paths by blast
    ultimately show ?thesis
      using \<open>default_tpm_master_key_path env = Inr tpm\<close> Inr 1 2 3 k(1)
      by (cases r) (auto simp: import_linux_auto_def intro: keeps_trans)
  qed (simp add: import_linux_auto_def Inr)
qed (simp add: import_linux_auto_def)

lemma keychain_import_keeps:
  assumes "security_laws S item"
  shows "keeps_item item k (snd (import_keychain_key (system_keychain S mode) key False k))"
  using keychain_item.import_refused [OF system_is_item [OF assms], of mode key k]
  by (cases "item k"; cases "import_keychain_key (system_keychain S mode) key False k") (auto simp: keeps_item_def)

lemma mac_import_keeps:
  assumes "security_laws S item"
  shows "keeps_stores item w (snd (import_auto_master_key (system_keychain S mode) os env key False w))"
proof -
  obtain s k where w: "w = (s, k)" by (cases w)
  obtain r k2 where 2: "import_keychain_key (system_keychain S mode) key False k = (r, k2)" by (metis surj_pair)
  have item: "keeps_item item k k2" using keychain_import_keeps [OF assms, of k mode key] 2 by simp
  have looked: "keeps s s1" if "path_exists os p s = (ex, s1)" for p ex s1
    using path_exists_keeps [of s os p] that by simp
  show ?thesis
    using item looked
    by (cases "auto_file_store env"; cases r)
       (auto simp: import_auto_master_key_def w 2 on_fs_def on_keychain_def keeps_stores_def keeps_item_def
         split: option.splits prod.splits if_splits)
qed

lemma store_import_keeps:
  assumes "host_laws H item"
  shows "keeps_stores item w (snd (store_import_master_key H b key False w))"
proof -
  note laws = assms [unfolded host_laws_def]
  have named: "keeps_stores item w (snd (import_named H b key False w))" for b
  proof (cases b)
    case File
    then show ?thesis
      by (simp add: import_named_def, intro keeps_at_path, simp, intro file_import_keeps)
         (use laws default_key_path in blast)+
  next
    case Tpm
    then show ?thesis
      by (simp add: import_named_def, intro keeps_at_path, simp, intro keeps_tpm_only tpm_import_keeps)
         (use laws tpm_path_ok in blast)+
  next
    case Keychain
    then show ?thesis
      using laws keychain_import_keeps [of "ho_security H" item "snd w" Background key]
      by (auto simp: import_named_def keeps_keychain_only keeps_stores_def keychain_only_def on_keychain_def
          keychain_import_def keeps_item_def split: prod.split)
  qed (simp_all add: import_named_def passphrase_needed_def)
  have "keeps_stores item w (snd (import_auto H key False w))"
    using laws named
    by (cases "ho_platform H") (auto simp: import_auto_def intro!: keeps_on_fs linux_import_keeps mac_import_keeps)
  then show ?thesis using named by (simp add: store_import_master_key_def)
qed

section \<open>No run loses a key\<close>

definition forces :: "environment \<Rightarrow> os_args \<Rightarrow> bool" where
  "forces env args \<longleftrightarrow> (case parse_global_options env args of
       Inl _ \<Rightarrow> False
     | Inr (_, args) \<Rightarrow> next_value args = Some ''key'' \<and> next_value (tl args) = Some ''import'' \<and>
         as_bytes ''--force'' \<in> set (tl (tl args)))"

lemma parse_flag_False: "parse_flag args flag = Inr force \<Longrightarrow> as_bytes flag \<notin> set args \<Longrightarrow> \<not> force"
proof -
  assume parse: "parse_flag args flag = Inr force" and none: "as_bytes flag \<notin> set args"
  let ?step = "\<lambda>arg r. and_then r (\<lambda>seen. if arg = as_bytes flag then Inr True else bail ''unknown option for key import'')"
  have error: "fold ?step as (Inl e) = Inl e" for as e by (induction as) simp_all
  show "\<not> force"
    using parse none by (cases args) (auto simp: parse_flag_def bail_def error)
qed

context keeping_host
begin

lemma keeps_import_unlock: "keys_kept item g (snd (import_master_with_unlock E unlock key False g))"
proof (cases unlock)
  case (UnlockStandard b)
  then show ?thesis
    by (simp add: import_master_with_unlock_def Let_def) (intro keys_kept_stores store_import_keeps [OF host])
next
  case (UnlockFilePassphrase pw)
  have kept: "keeps_stores item w (snd (at_path (default_passphrase_master_key_path (ho_env (ce_host E))) (\<lambda>p s.
           context_st ''failed to store imported passphrase master key''
             (passphrase_import (ce_store E) (ho_os (ce_host E)) p pw key False s)) w))" for w
    by (intro keeps_at_path, simp, intro passphrase_import_keeps_others)
       (use host [unfolded host_laws_def] passphrase_path in blast)+
  show ?thesis
    by (simp add: import_master_with_unlock_def Let_def UnlockFilePassphrase) (intro keys_kept_stores kept)
qed

lemma keeps_import_cmd:
  assumes "as_bytes ''--force'' \<notin> set args"
  shows "keys_kept item g (snd (key_import_cmd E args config g))"
proof (cases "parse_flag args ''--force''")
  case (Inl e)
  then show ?thesis by (simp add: key_import_cmd_def same)
next
  case (Inr force)
  then have unforced: "force = False" using parse_flag_False assms by blast
  show ?thesis
    unfolding key_import_cmd_def Inr then_st_simps unforced by (intro sequence) (simp_all add: same keeps_import_unlock)
qed

lemma keeps_unforced:
  "\<lbrakk>run_program E args g = Some (out, g'); \<not> forces (ho_env (ce_host E)) args; \<not> injects (ho_env (ce_host E)) args\<rbrakk>
   \<Longrightarrow> keys_kept item g g'"
  by (erule keeps_run) (auto simp: forces_def intro!: keeps_import_cmd)

end

section \<open>A sample\<close>

lemma counted_security_laws: "security_laws counted_security ck_item"
  by (auto simp: security_laws_def counted_security_def split: option.splits)

lemma sample_commands_host: "host_laws (ce_host sample_commands) ck_item"
  by (simp add: host_laws_def sample_commands_simps plain_laws sample_tpm_laws counted_security_laws)

interpretation sample_keeping: keeping_host sample_commands ck_item
  by (rule keeping_host.intro [OF sample_commands_host])

section \<open>Properties\<close>

text \<open>
  C6. No run of the program loses a master key, unless it was told to: whatever the arguments, the input,
  the store and the platform, and whatever calls of the system, the TPM or the Keychain fail, a run other
  than \<open>key import --force\<close> and \<open>deliver inject\<close> leaves every regular file that exists (key files,
  sealed blobs and passphrase files, good or corrupt, temporary files apart) and the item of the
  Keychain exactly as they were. A run of \<open>agent\<close> counts up to where it starts to serve.
\<close>

theorem no_run_loses_keys:
  assumes "host_laws (ce_host E) item" and "run_program E args g = Some (out, g')"
    and "\<not> forces (ho_env (ce_host E)) args" "\<not> injects (ho_env (ce_host E)) args"
  shows "let (s, k) = gt_world (cs_gate g); (s', k') = gt_world (cs_gate g')
    in keeps_files s s' \<and> keeps_item item k k'"
  using keeping_host.keeps_unforced [OF keeping_host.intro [OF assms(1)] assms(2-4)] unfolding keys_kept_def .

theorem no_run_loses_keys_witness:
  "\<exists>g'. run_program sample_commands [arg ''--store'', arg ''file'', arg ''seal'', arg ''--name'', arg ''n'']
       (sample_sys [118]) = Some (Returned (Inr 0), g') \<and>
     nodes (fst (gt_world (cs_gate g'))) sample_key_path = Some (Reg 384 sample_key) \<and>
     ck_item (snd (gt_world (cs_gate g'))) = Some sample_key"
proof -
  obtain g1 where g1: "seal_cmd sample_commands [arg ''--name'', arg ''n''] \<lparr>cfg_store = SelFile\<rparr> (sample_sys [118]) = (Inr 0, g1)"
    using sample_seal_run by blast
  have seal: "next_value (arg ''seal'' # rest) = Some ''seal''" for rest
    by (simp add: next_value_def from_utf8_arg_ascii code_def)
  have run: "run_program sample_commands [arg ''--store'', arg ''file'', arg ''seal'', arg ''--name'', arg ''n'']
       (sample_sys [118]) = Some (Returned (Inr 0), g1)"
    by (simp add: run_program_def sample_commands_simps sample_global seal Let_def g1 returned_def)
  have "not_temp sample_key_path" using default_paths [OF sample_paths(1,2)] by simp
  then show ?thesis
    using no_run_loses_keys [OF sample_commands_host run] run
    by (simp add: forces_def subcommand_def sample_commands_simps sample_global seal sample_sys_def
        keeps_files_def keeps_item_def home_fs_nodes case_prod_unfold Let_def)
qed

end
