(* ===== verification/AgentTypes.thy ===== *)
theory AgentTypes
  imports AgentServer
begin

text \<open>
  The types of the agent's table that Rust's types do not express. A locale, \<open>table_invariant\<close>, is a
  predicate on the table that the sections which hold the lock keep; its lemmas carry it through
  every request, frame, connection and purge, while other workers act on the table in between. It
  is interpreted on the form of keys, scopes and nonces.
\<close>

section \<open>A predicate on the table\<close>

locale table_invariant =
  fixes P :: "agent_state \<Rightarrow> bool" and ok :: "grant_key \<Rightarrow> grant_entry \<Rightarrow> (bytes \<times> instant) list \<Rightarrow> bool"
  assumes purge_P: "P st \<Longrightarrow> P (purge t st)"
    and touch_P: "P st \<Longrightarrow> P (st\<lparr>as_last_activity := t\<rparr>)"
    and remove_P: "P st \<Longrightarrow> P (st\<lparr>as_grants := (as_grants st)(scope := None)\<rparr>)"
    and add_P: "\<lbrakk>P st; ok scope grant nonces\<rbrakk> \<Longrightarrow>
      P (st\<lparr>as_used_nonces := extend_map nonces (as_used_nonces st), as_last_activity := t,
            as_grants := (as_grants st)(scope \<mapsto> grant)\<rparr>)"
begin

lemma publish_P: "\<lbrakk>P st; ok scope grant nonces\<rbrakk> \<Longrightarrow> P (snd (publish_grant t1 t2 scope grant nonces st))"
  by (auto simp: publish_grant_def Let_def intro!: purge_P add_P [where st = "purge t1 st", simplified])

lemma record_P: "P st \<Longrightarrow> P (record_activity t1 t2 st)"
  by (simp add: record_activity_def purge_P touch_P)

lemma release_P: "P st \<Longrightarrow> P (snd (release_grant t1 t2 t3 scope st))"
  by (auto simp: release_grant_def Let_def purge_P remove_P intro!: record_P remove_P [where st = "purge t1 st"])

lemma then_P:
  assumes "P (ag_state (snd m))" "\<And>x g. \<lbrakk>m = (Inr x, g); P (ag_state g)\<rbrakk> \<Longrightarrow> P (ag_state (snd (f x g)))"
  shows "P (ag_state (snd (then_st m f)))"
  using assms by (cases m; cases "fst m") auto

lemma pure_P: "P (ag_state g) \<Longrightarrow> P (ag_state (snd (r, g)))"
  by simp

end

text \<open>The other workers keep it as well, and what a grant request builds is in order.\<close>

locale table_worker = table_invariant +
  fixes E :: "('sc, 'pt, 'e) worker_env_scheme"
  assumes others_P: "P st \<Longrightarrow> P (ae_others E c st)"
    and grants_ok: "\<lbrakk>scope \<noteq> []; grant_deks E purpose scope ttl deks
        \<lparr>ga_deks = Map.empty, ga_used_nonces = [], ga_expires_at = t\<rparr> g = (Inr acc, g')\<rbrakk>
      \<Longrightarrow> ok scope \<lparr>gr_expires_at = ga_expires_at acc, gr_deks = ga_deks acc\<rparr> (ga_used_nonces acc)"
begin

lemma lock_P: "P (ag_state g) \<Longrightarrow> P (ag_state (snd (lock_state E g)))"
  by (simp add: lock_state_def others_P)

lemma get_live_P: "P (ag_state g) \<Longrightarrow> P (ag_state (snd (agent_get_live E scope g)))"
  unfolding agent_get_live_def by (rule then_P) (simp_all add: lock_P instant_now_def)

lemma activity_P: "P (ag_state g) \<Longrightarrow> P (ag_state (snd (agent_record_activity E g)))"
  unfolding agent_record_activity_def
  by (rule then_P) (simp_all add: lock_P instant_now_def record_P)

lemma open_P: "P (ag_state g) \<Longrightarrow> P (ag_state (snd (open_with_grant E scope needs opn g)))"
  unfolding open_with_grant_def
  by (intro then_P) (simp_all add: get_live_P master_state activity_P)

lemma agent_publish_P:
  assumes "P (ag_state g)" "ok scope grant nonces"
  shows "P (ag_state (snd (agent_publish E scope grant nonces g)))"
  unfolding agent_publish_def
  by (rule then_P)
     (use assms in \<open>simp_all add: lock_P instant_now_def publish_P case_prod_unfold Let_def\<close>)

lemma grant_P:
  assumes "P (ag_state g)"
  shows "P (ag_state (snd (handle_grant E request g)))"
proof (cases "gq_deks request = [] \<or> gq_grant_id request = []")
  case True
  then show ?thesis using assms by (auto simp: handle_grant_def grant_key_from_id_def)
next
  case False
  then have key: "grant_key_from_id (gq_grant_id request) = Inr (gq_grant_id request)"
    by (simp add: grant_key_from_id_def)
  then show ?thesis
    using assms False
    by (auto simp: handle_grant_def Let_def instant_now_def grant_deks_state intro!: then_P agent_publish_P
        intro: grants_ok)
qed

lemma handle_release_P: "P (ag_state g) \<Longrightarrow> P (ag_state (snd (handle_release E grant_id g)))"
  unfolding handle_release_def
  by (intro then_P) (auto simp: lock_P instant_now_def case_prod_unfold Let_def intro!: release_P)

end

context table_worker
begin

lemma run_child_state: "ag_state (snd (run_agent_child_with_opened_env E command opened stdin g)) = ag_state g"
proof -
  have fields: "ag_state (g\<lparr>ag_children := c\<rparr>) = ag_state g" for g c by simp
  have io: "ag_state (snd (io_res m (r, step g))) = ag_state g" for m and r :: "io_kind + 'x" and g
    by (cases r) (simp_all add: io_res_def)
  have "ag_state (snd (spawn_agent_run_helper E command opened stdin g)) = ag_state g"
    unfolding spawn_agent_run_helper_def Let_def
    by (auto intro!: then_st_agent_state simp: io split: prod.split sum.split)
  then show ?thesis
    unfolding run_agent_child_with_opened_env_def by (intro then_st_agent_state) (simp_all add: io)
qed

lemma requests_P:
  assumes "P (ag_state g)"
  shows "P (ag_state (snd (handle_deliver_run E rr g)))"
    and "P (ag_state (snd (handle_deliver_fetch E rf g)))"
    and "P (ag_state (snd (handle_deliver_inject E rj g)))"
    and "P (ag_state (snd (handle_sign E rs g)))"
proof -
  show "P (ag_state (snd (handle_deliver_run E rr g)))"
    using assms by (auto simp: handle_deliver_run_def run_child_state open_P intro!: then_P)
  show "P (ag_state (snd (handle_deliver_fetch E rf g)))"
    using assms by (auto simp: handle_deliver_fetch_def open_P Let_def intro!: then_P)
  show "P (ag_state (snd (handle_deliver_inject E rj g)))"
    using assms by (auto simp: handle_deliver_inject_def open_P intro!: then_P)
  show "P (ag_state (snd (handle_sign E rs g)))"
    using assms by (auto simp: handle_sign_def open_P intro!: then_P)
qed

lemma answer_P: "P (ag_state (snd r)) \<Longrightarrow> P (ag_state (snd (answer f r)))"
  unfolding answer_def by (rule then_P) simp_all

lemma frame_P:
  assumes "P (ag_state g)"
  shows "P (ag_state (snd (handle_agent_frame E frame g)))"
proof -
  have "P (ag_state (snd (handle_agent_frame_inner E frame g)))"
    unfolding handle_agent_frame_inner_def
    using assms
    by (intro then_P) (auto split: agent_request.split intro!: answer_P requests_P grant_P handle_release_P)
  then show ?thesis by (auto simp: handle_agent_frame_def split: prod.splits sum.splits)
qed

end

text \<open>A connection, and the maintenance of the listener.\<close>

locale table_server = table_worker P ok E
  for P :: "agent_state \<Rightarrow> bool" and ok and E :: "('sc, 'pt, 'e) server_env_scheme"
begin

lemma serve_P: "P (ag_state g) \<Longrightarrow> P (ag_state (snd (snd (serve_frames E c g))))"
proof (induction "reads_left (cn_reads c)" arbitrary: c g rule: less_induct)
  case less
  obtain r c1 where 1: "next_frame E c = (r, c1)" by (metis surj_pair)
  show ?case
  proof (cases "\<exists>frame. r = Inr (Some frame)")
    case False
    then show ?thesis
      using less.prems by (subst serve_frames.simps) (auto simp: 1 split: sum.split option.split)
  next
    case True
    then obtain frame where frame: "r = Inr (Some frame)" by blast
    obtain response g1 where 2: "handle_agent_frame E frame g = (response, g1)" by (metis surj_pair)
    obtain w c2 where 3: "write_agent_json_frame E response c1 = (w, c2)" by (metis surj_pair)
    have "P (ag_state g1)" using frame_P [OF less.prems, of frame] 2 by simp
    moreover have "reads_left (cn_reads c2) < reads_left (cn_reads c)"
      using 1 frame 3 next_frame_takes write_json_reads by (metis snd_conv)
    ultimately show ?thesis
      using less.hyps [of c2 g1] by (subst serve_frames.simps) (auto simp: 1 frame 2 3 split: sum.split)
  qed
qed

lemma connection_P: "P (ag_state g) \<Longrightarrow> P (ag_state (snd (snd (run_agent_connection E c g))))"
  by (auto simp: run_agent_connection_def Let_def split: sum.split intro!: serve_P)

lemma maintenance_P: "P (ag_state g) \<Longrightarrow> P (ag_state (snd (snd (agent_purge E cell g))))"
proof -
  assume "P (ag_state g)"
  then have "P (ag_state (snd (then_st (lock_state E g) (\<lambda>_ g.
      let (now, g) = instant_now E g in (Inr (), g\<lparr>ag_state := purge now (ag_state g)\<rparr>)))))"
    by (intro then_P) (simp_all add: lock_P instant_now_def purge_P)
  then show ?thesis by (auto simp: agent_purge_def Let_def split: prod.splits sum.splits)
qed

end

section \<open>The form of keys, scopes and nonces\<close>

definition dek_typed :: "dek_key \<Rightarrow> bytes \<Rightarrow> bool" where
  "dek_typed k d \<longleftrightarrow> length d = MASTER_KEY_BYTES \<and>
     (case dk_purpose k of
        DeliverDek \<Rightarrow> dk_scheme k = None \<and> dk_digest_hex k = None
      | SignDek \<Rightarrow> dk_scheme k \<noteq> None \<and> dk_digest_hex k \<noteq> None)"

definition grant_typed :: "grant_entry \<Rightarrow> bool" where
  "grant_typed g \<longleftrightarrow> (\<forall>k d. gr_deks g k = Some d \<longrightarrow> dek_typed k d)"

definition nonce_typed :: "bytes \<Rightarrow> bool" where
  "nonce_typed n \<longleftrightarrow> MIN_APPROVAL_NONCE_BYTES \<le> length n \<and> length n \<le> MAX_APPROVAL_NONCE_BYTES"

definition table_typed :: "agent_state \<Rightarrow> bool" where
  "table_typed st \<longleftrightarrow>
     (\<forall>scope g. as_grants st scope = Some g \<longrightarrow> scope \<noteq> [] \<and> grant_typed g) \<and>
     (\<forall>n t. as_used_nonces st n = Some t \<longrightarrow> nonce_typed n)"

definition publish_typed :: "grant_key \<Rightarrow> grant_entry \<Rightarrow> (bytes \<times> instant) list \<Rightarrow> bool" where
  "publish_typed scope g nonces \<longleftrightarrow> scope \<noteq> [] \<and> grant_typed g \<and> (\<forall>(n, t) \<in> set nonces. nonce_typed n)"

lemma extend_map_Some: "extend_map kvs m k = Some v \<Longrightarrow> m k = Some v \<or> (k, v) \<in> set kvs"
  by (induction kvs arbitrary: m) (fastforce simp: extend_map_def split: if_splits)+

interpretation typed: table_invariant table_typed publish_typed
proof
  fix st t assume "table_typed st"
  then show "table_typed (purge t st)"
    by (auto simp: table_typed_def purge_grants retain_eq_Some)
next
  fix st scope grant nonces t
  assume "table_typed st" "publish_typed scope grant nonces"
  then show "table_typed (st\<lparr>as_used_nonces := extend_map nonces (as_used_nonces st), as_last_activity := t,
            as_grants := (as_grants st)(scope \<mapsto> grant)\<rparr>)"
    by (fastforce simp: table_typed_def publish_typed_def dest: extend_map_Some split: if_splits)
qed (auto simp: table_typed_def split: if_splits)

text \<open>What a grant request builds.\<close>

definition acc_typed :: "grant_acc \<Rightarrow> bool" where
  "acc_typed acc \<longleftrightarrow> (\<forall>k d. ga_deks acc k = Some d \<longrightarrow> dek_typed k d) \<and>
     (\<forall>(n, t) \<in> set (ga_used_nonces acc). nonce_typed n)"

lemma opens_to_typed: "opens_to E purpose grant_id ttl dek k d \<Longrightarrow> dek_typed k d \<and> nonce_typed (nonce_of E dek)"
  by (auto simp: opens_to_def dek_typed_def nonce_of_def nonce_typed_def parse_approval_context_def res_simps
      grant_dek_context_def deliver_key_def sign_key_def MASTER_KEY_BYTES_def
      split: sum.splits prod.splits dek_purpose.splits if_splits)

lemma grant_dek_typed:
  assumes "grant_dek E purpose grant_id ttl dek acc g = (Inr acc', g')" "acc_typed acc"
  shows "acc_typed acc'"
  using grant_dek_Inr [OF assms(1)] assms(2) by (auto simp: acc_typed_def dest: opens_to_typed split: if_splits)

lemma grant_deks_typed:
  "\<lbrakk>grant_deks E purpose grant_id ttl deks acc g = (Inr acc', g'); acc_typed acc\<rbrakk> \<Longrightarrow> acc_typed acc'"
proof (induction deks arbitrary: acc g)
  case (Cons dek rest)
  then show ?case by (auto simp: res_simps dest: grant_dek_typed)
qed simp

lemma typed_worker:
  assumes "\<And>c st. table_typed st \<Longrightarrow> table_typed (ae_others E c st)"
  shows "table_server table_typed publish_typed E"
proof
  fix scope purpose ttl deks t g acc g'
  assume "scope \<noteq> []" "grant_deks E purpose scope ttl deks
      \<lparr>ga_deks = Map.empty, ga_used_nonces = [], ga_expires_at = t\<rparr> g = (Inr acc, g')"
  moreover from this(2) have "acc_typed acc" by (rule grant_deks_typed) (simp add: acc_typed_def)
  ultimately show "publish_typed scope \<lparr>gr_expires_at = ga_expires_at acc, gr_deks = ga_deks acc\<rparr> (ga_used_nonces acc)"
    by (simp add: publish_typed_def acc_typed_def grant_typed_def)
qed (rule assms)

section \<open>Properties\<close>

text \<open>
  C24. The table of the agent is always well formed: it starts so, and whatever frames a connection
  carries, however they fail and whatever other workers do in between that is well formed itself,
  every key in the table has 32 bytes, every key for delivery has no signing fields and every key
  for signing has both, no grant has an empty id, and every nonce that is remembered has between 16
  and 128 bytes.
\<close>

theorem table_stays_typed:
  assumes "\<And>c st. table_typed st \<Longrightarrow> table_typed (ae_others E c st)"
    and "table_typed (ag_state g)" "run_agent_connection E c g = (r, c', g')"
  shows "table_typed (ag_state g') \<and> table_typed (agent_state_new now idle)"
  using table_server.connection_P [OF typed_worker [OF assms(1)] assms(2), of c] assms(3)
  by (simp add: table_typed_def agent_state_new_def)

theorem table_stays_typed_witness:
  "\<exists>r c' g'. run_agent_connection sample_server sample_connection sample_agent = (r, c', g') \<and>
     table_typed (ag_state g')"
proof -
  obtain r c' g' where run: "run_agent_connection sample_server sample_connection sample_agent = (r, c', g')"
    by (metis surj_pair)
  have others: "ae_others sample_server c st = st" for c st
    by (simp add: sample_server_def agent_env.extend_def sample_agent_env_def)
  have start: "table_typed (ag_state sample_agent)"
    by (simp add: sample_agent_def table_typed_def agent_state_new_def)
  have "table_typed (ag_state g')"
    using table_stays_typed [OF _ start run] by (simp add: others)
  with run show ?thesis by blast
qed

end
