(* ===== verification/AgentFlow.thy ===== *)
theory AgentFlow
  imports AgentHandler
begin

text \<open>
  The protected tier of the agent from end to end: an approved grant request and then a delivery to a
  command (the cases \<open>Grant\<close> and \<open>DeliverRun\<close> of \<open>handle_agent_frame_inner\<close> in
  \<open>crates/avault-cli/src/main.rs\<close>). The theories AgentGrant and AgentHandler show what a success of
  these requests implies; this one shows that they do succeed, and where their conditions hold the command gets
  its secrets. Total correctness of sequenced steps is \<open>succeeds\<close>, with a rule for \<open>then_st\<close>.
\<close>

section \<open>Steps that succeed\<close>

definition succeeds :: "'a res \<times> 's \<Rightarrow> ('a \<Rightarrow> 's \<Rightarrow> bool) \<Rightarrow> bool" where
  "succeeds m Q = (case m of (Inr x, s) \<Rightarrow> Q x s | (Inl _, _) \<Rightarrow> False)"

lemma succeeds_simps [simp]: "succeeds (Inr x, s) Q = Q x s" "succeeds (Inl e, s) Q = False"
  by (simp_all add: succeeds_def)

lemma succeeds_then:
  assumes "succeeds m P" "\<And>x s. P x s \<Longrightarrow> succeeds (f x s) Q"
  shows "succeeds (then_st m f) Q"
  using assms by (cases m; cases "fst m") auto

lemma succeeds_mono: "\<lbrakk>succeeds m P; \<And>x s. P x s \<Longrightarrow> Q x s\<rbrakk> \<Longrightarrow> succeeds m Q"
  by (auto simp: succeeds_def split: prod.splits sum.splits)

text \<open>Steps that leave the table and the helpers alone.\<close>

definition onward :: "agent_sys \<Rightarrow> agent_sys \<Rightarrow> bool" where
  "onward g g' \<longleftrightarrow> ag_calls g \<le> ag_calls g' \<and> ag_state g' = ag_state g \<and> ag_children g' = ag_children g"

lemma onward_refl [simp]: "onward g g"
  by (simp add: onward_def)

lemma onward_trans: "\<lbrakk>onward g g1; onward g1 g2\<rbrakk> \<Longrightarrow> onward g g2"
  by (simp add: onward_def)

lemma onward_step [simp]: "onward g (step g1) = (ag_calls g \<le> Suc (ag_calls g1) \<and> ag_state g1 = ag_state g
    \<and> ag_children g1 = ag_children g)"
  by (simp add: onward_def)

section \<open>An undisturbed agent\<close>

text \<open>
  From the call \<open>n\<close> on no other worker interferes or has poisoned a lock, no page of memory is
  refused, the monotonic clock reads between \<open>t0\<close> and \<open>t1\<close>, and the system time is at most \<open>u\<close>.
\<close>

definition calm :: "('sc, 'pt, 'e) agent_env_scheme \<Rightarrow> nat \<Rightarrow> instant \<Rightarrow> instant \<Rightarrow> int \<Rightarrow> bool" where
  "calm E n t0 t1 u \<longleftrightarrow> quiet E \<and> (\<forall>m. \<not> alloc_fails (ae_os E) m) \<and>
     (\<forall>m \<ge> n. \<not> ae_poisoned E m \<and> t0 \<le> ae_clock E m \<and> ae_clock E m \<le> t1 \<and>
             0 \<le> ae_system_time E m \<and> ae_system_time E m \<le> u)"

lemma calm_reading:
  assumes "calm E n t0 t1 u" "n \<le> m"
  shows "\<not> ae_poisoned E m" "t0 \<le> ae_clock E m" "ae_clock E m \<le> t1" "0 \<le> ae_system_time E m"
    "ae_system_time E m \<le> u"
  using assms by (auto simp: calm_def)

lemma calm_lock:
  assumes "calm E n t0 t1 u" "n \<le> ag_calls g"
  shows "succeeds (lock_state E g) (\<lambda>_ g'. onward g g')"
  using assms by (simp add: lock_state_def calm_def quiet_def onward_def)

lemma calm_page:
  assumes "calm E n t0 t1 u"
  shows "succeeds (context_st m (on_agent_fs (from_bytes (ae_os E) b) g)) (\<lambda>k g'. k = b \<and> onward g g')"
  using assms by (simp add: on_agent_fs_def from_bytes_def zeroed_locked_def calm_def onward_def)

section \<open>Granting\<close>

text \<open>An approval that outlasts the readings, within the ranges of both clocks.\<close>

definition outlasts :: "('sc, 'pt, 'e) agent_env_scheme \<Rightarrow> instant \<Rightarrow> instant \<Rightarrow> int \<Rightarrow> agent_dek_input \<Rightarrow> bool" where
  "outlasts E t0 t1 u dek \<longleftrightarrow>
     (let expires = nanos (ai_expires_at_unix (di_approval dek))
      in u + int (t1 - t0) < int expires \<and> int expires \<le> ae_max_system_time E \<and> t1 + expires \<le> ae_max_instant E)"

lemma seconds_below:
  assumes "0 \<le> now" "now < int (nanos x)"
  shows "(word_of_int (now div 10 ^ 9) :: u64) < x"
proof -
  have below: "now div 10 ^ 9 < uint x" using assms(2) by (simp add: nanos_def div_less_iff_less_mult)
  moreover have "0 \<le> now div 10 ^ 9" using assms(1) by simp
  moreover have "uint x < 2 ^ 64" using unsigned_less [of x, where ?'a = int] by simp
  ultimately have "uint (word_of_int (now div 10 ^ 9) :: u64) = now div 10 ^ 9"
    by (simp add: unsigned_of_int take_bit_int_eq_self)
  with below show ?thesis by (simp add: word_less_def)
qed

lemma approval_accepted:
  assumes "calm E n t0 t1 u" "n \<le> ag_calls g" "u < int (nanos x)"
  shows "succeeds (validate_approval_not_expired E x g) (\<lambda>_ g'. onward g g')"
proof -
  let ?now = "ae_system_time E (ag_calls g)"
  have now: "0 \<le> ?now" "?now < int (nanos x)" using calm_reading [OF assms(1,2)] assms(3) by linarith+
  then have "\<not> x \<le> word_of_int (?now div 10 ^ 9)" using seconds_below [OF now] by (simp only: not_le)
  with now show ?thesis by (simp add: validate_approval_not_expired_def current_unix_secs_def system_now_def)
qed

lemma approval_expires_later:
  assumes "calm E n t0 t1 u" "n \<le> ag_calls g" "outlasts E t0 t1 u dek"
  shows "succeeds (approval_expiry_instant E (ai_expires_at_unix (di_approval dek)) g) (\<lambda>at g'. t1 < at \<and> onward g g')"
proof -
  let ?e = "nanos (ai_expires_at_unix (di_approval dek))" and ?c = "ae_clock E (ag_calls g)"
    and ?s = "ae_system_time E (Suc (ag_calls g))"
  note c = calm_reading [OF assms(1,2)] and s = calm_reading [OF assms(1), of "Suc (ag_calls g)"]
  have e: "u + int (t1 - t0) < int ?e" "int ?e \<le> ae_max_system_time E" "t1 + ?e \<le> ae_max_instant E"
    using assms(3) by (simp_all add: outlasts_def Let_def)
  have s': "0 \<le> ?s" "?s \<le> u" using s assms(2) by simp_all
  have "t1 < ?c + nat (int ?e - ?s)" "?c + nat (int ?e - ?s) \<le> ae_max_instant E" "?s \<le> int ?e"
    using c(2,3) s' e by linarith+
  then show ?thesis
    using e(2) by (simp add: approval_expiry_instant_def instant_now_def system_now_def checked_instant_def Let_def)
qed

lemma dek_granted:
  assumes calm: "calm E n t0 t1 u" "n \<le> ag_calls g" and dek: "outlasts E t0 t1 u dek"
    and opens: "opens_to E purpose gid ttl dek k d"
    and new: "ga_deks acc k = None" "nonce_of E dek \<notin> set (map fst (ga_used_nonces acc))"
  shows "succeeds (grant_dek E purpose gid ttl dek acc g) (\<lambda>acc' g'. onward g g' \<and> (\<exists>at. t1 < at \<and>
     acc' = \<lparr>ga_deks = (ga_deks acc)(k \<mapsto> d), ga_used_nonces = ga_used_nonces acc @ [(nonce_of E dek, at)],
             ga_expires_at = min (ga_expires_at acc) at\<rparr>))"
proof -
  obtain approval bound where a: "parse_approval_context E (di_approval dek) = Inr approval"
      and ctx: "grant_dek_context E purpose gid ttl approval dek = Inr (bound, k)"
      and box: "open_blind_box (ae_core E) (ae_keypair E) (di_dek_blindbox dek) bound = Inr d" "length d = 32"
    using opens by (auto simp: opens_to_def split: sum.splits)
  have x: "ap_expires_at_unix approval = ai_expires_at_unix (di_approval dek)"
    using a by (auto simp: parse_approval_context_def res_simps split: if_splits)
  have nonce: "nonce_of E dek = ap_nonce approval" by (simp add: nonce_of_def a)
  have fresh: "\<not> list_ex (\<lambda>(m, _). m = ap_nonce approval) (ga_used_nonces acc)"
    using new(2) nonce by (force simp: list_ex_iff)
  have "u < int (nanos (ai_expires_at_unix (di_approval dek)))" using dek by (simp add: outlasts_def Let_def)
  note accepted = approval_accepted [OF calm this]
  have later: "succeeds (approval_expiry_instant E (ai_expires_at_unix (di_approval dek)) g1)
      (\<lambda>at g'. t1 < at \<and> onward g g')" if "onward g g1" for g1
  proof (rule succeeds_mono)
    show "succeeds (approval_expiry_instant E (ai_expires_at_unix (di_approval dek)) g1) (\<lambda>at g'. t1 < at \<and> onward g1 g')"
      by (rule approval_expires_later [OF calm(1) _ dek]) (use calm(2) that in \<open>simp add: onward_def\<close>)
  qed (use onward_trans that in blast)
  show ?thesis
    unfolding grant_dek_def a then_st_simps x
  proof (rule succeeds_then [OF accepted], rule succeeds_then, erule later)
    fix at g2 assume at: "t1 < at \<and> onward g g2"
    have page: "succeeds (context_st ''failed to lock released DEK'' (on_agent_fs (from_bytes (ae_os E) d) g2))
        (\<lambda>k g'. k = d \<and> onward g2 g')"
      by (rule calm_page [OF calm(1)])
    show "succeeds (if list_ex (\<lambda>(m, _). m = ap_nonce approval) (ga_used_nonces acc)
       then (bail ''duplicate grant approval nonce'', g2)
       else then_st (grant_dek_context E purpose gid ttl approval dek, g2) (\<lambda>(context, key) g.
          if ga_deks acc key \<noteq> None then (bail ''duplicate grant DEK name'', g)
          else then_st (with_context ''DEK blind-box open failed''
                          (open_blind_box (ae_core E) (ae_keypair E) (di_dek_blindbox dek) context), g) (\<lambda>opened g.
               then_st (zeroizing_vec_to_key32 opened ''released DEK'', g) (\<lambda>released_dek g.
               then_st (context_st ''failed to lock released DEK''
                          (on_agent_fs (from_bytes (ae_os E) released_dek) g)) (\<lambda>locked g.
               (Inr \<lparr>ga_deks = (ga_deks acc)(key \<mapsto> locked),
                     ga_used_nonces = ga_used_nonces acc @ [(ap_nonce approval, at)],
                     ga_expires_at = min (ga_expires_at acc) at\<rparr>, g))))))
      (\<lambda>acc' g'. onward g g' \<and> (\<exists>at. t1 < at \<and>
         acc' = \<lparr>ga_deks = (ga_deks acc)(k \<mapsto> d), ga_used_nonces = ga_used_nonces acc @ [(nonce_of E dek, at)],
                 ga_expires_at = min (ga_expires_at acc) at\<rparr>))"
      using at onward_trans [of g g2]
      by (auto simp: fresh ctx box new(1) zeroizing_vec_to_key32_def nonce intro!: succeeds_then [OF page])
  qed
qed

lemma deks_granted:
  assumes "calm E n t0 t1 u" "n \<le> ag_calls g" "t1 < ga_expires_at acc"
    and "list_all2 (\<lambda>dek (k, d). opens_to E purpose gid ttl dek k d \<and> outlasts E t0 t1 u dek) deks kds"
    and "distinct (map fst kds)" "list_all (\<lambda>k. ga_deks acc k = None) (map fst kds)"
    and "distinct (map fst (ga_used_nonces acc) @ map (nonce_of E) deks)"
  shows "succeeds (grant_deks E purpose gid ttl deks acc g) (\<lambda>acc' g'. onward g g' \<and> t1 < ga_expires_at acc' \<and>
     ga_deks acc' = extend_map kds (ga_deks acc) \<and>
     map fst (ga_used_nonces acc') = map fst (ga_used_nonces acc) @ map (nonce_of E) deks)"
  using assms(2-)
proof (induction deks arbitrary: acc g kds)
  case Nil
  then show ?case by (simp add: extend_map_def)
next
  case (Cons dek deks)
  obtain k d rest where kds: "kds = (k, d) # rest" using Cons.prems(3) by (cases kds) auto
  have opens: "opens_to E purpose gid ttl dek k d" "outlasts E t0 t1 u dek"
    and rest: "list_all2 (\<lambda>dek (k, d). opens_to E purpose gid ttl dek k d \<and> outlasts E t0 t1 u dek) deks rest"
    using Cons.prems(3) by (simp_all add: kds)
  have new: "ga_deks acc k = None" "nonce_of E dek \<notin> set (map fst (ga_used_nonces acc))"
    using Cons.prems(5,6) by (auto simp: kds)
  show ?case
    unfolding grant_deks.simps
  proof (rule succeeds_then [OF dek_granted [OF assms(1) Cons.prems(1) opens(2,1) new]])
    fix acc1 g1
    assume first: "onward g g1 \<and> (\<exists>at. t1 < at \<and>
      acc1 = \<lparr>ga_deks = (ga_deks acc)(k \<mapsto> d), ga_used_nonces = ga_used_nonces acc @ [(nonce_of E dek, at)],
              ga_expires_at = min (ga_expires_at acc) at\<rparr>)"
    then obtain at where at: "onward g g1" "t1 < at" and acc1: "acc1 = \<lparr>ga_deks = (ga_deks acc)(k \<mapsto> d),
        ga_used_nonces = ga_used_nonces acc @ [(nonce_of E dek, at)], ga_expires_at = min (ga_expires_at acc) at\<rparr>"
      by blast
    have "succeeds (grant_deks E purpose gid ttl deks acc1 g1) (\<lambda>acc' g'. onward g1 g' \<and> t1 < ga_expires_at acc' \<and>
        ga_deks acc' = extend_map rest (ga_deks acc1) \<and>
        map fst (ga_used_nonces acc') = map fst (ga_used_nonces acc1) @ map (nonce_of E) deks)"
      by (rule Cons.IH [OF _ _ rest]) (use Cons.prems at in \<open>auto simp: acc1 kds onward_def list_all_iff image_iff\<close>)
    then show "succeeds (grant_deks E purpose gid ttl deks acc1 g1) (\<lambda>acc' g'. onward g g' \<and> t1 < ga_expires_at acc' \<and>
        ga_deks acc' = extend_map kds (ga_deks acc) \<and>
        map fst (ga_used_nonces acc') = map fst (ga_used_nonces acc) @ map (nonce_of E) (dek # deks))"
      by (rule succeeds_mono) (use onward_trans [OF at(1)] in \<open>auto simp: acc1 kds extend_map_def\<close>)
  qed
qed

text \<open>The table after the grant was published, in so far as its use needs it.\<close>

definition granted :: "grant_key \<Rightarrow> instant \<Rightarrow> instant \<Rightarrow> (dek_key \<rightharpoonup> master_key) \<Rightarrow> agent_state \<Rightarrow> bool" where
  "granted scope t0 t1 deks st \<longleftrightarrow> t1 - t0 < as_idle_timeout st \<and> t0 \<le> as_last_activity st \<and>
     (\<exists>gr. as_grants st scope = Some gr \<and> gr_deks gr = deks \<and> t1 < gr_expires_at gr)"

lemma grant_published:
  assumes "calm E n t0 t1 u" "n \<le> ag_calls g" "t1 < gr_expires_at gr" "t1 - t0 < as_idle_timeout (ag_state g)"
    and "list_all (\<lambda>m. as_used_nonces (ag_state g) m = None) (map fst nonces)"
  shows "succeeds (agent_publish E scope gr nonces g) (\<lambda>_ g'. ag_calls g \<le> ag_calls g' \<and>
     ag_children g' = ag_children g \<and> granted scope t0 t1 (gr_deks gr) (ag_state g'))"
  unfolding agent_publish_def
proof (rule succeeds_then [OF calm_lock [OF assms(1,2)]])
  fix g1 assume on: "onward g g1"
  let ?now = "ae_clock E (ag_calls g1)" and ?later = "ae_clock E (Suc (ag_calls g1))"
  have "?later \<le> t1" "t0 \<le> ?later"
    using calm_reading [OF assms(1), of "Suc (ag_calls g1)"] assms(2) on by (simp_all add: onward_def)
  then have later: "?later < gr_expires_at gr" "t0 \<le> ?later" using assms(3) by simp_all
  have fresh: "\<forall>m \<in> fst ` set nonces. as_used_nonces (purge ?now (ag_state g1)) m = None"
    using assms(5) on by (auto simp: list_all_iff retain_eq_None onward_def)
  define st where "st = (purge ?now (ag_state g1))\<lparr>as_used_nonces := extend_map nonces (as_used_nonces (purge ?now (ag_state g1))),
        as_last_activity := ?later, as_grants := (as_grants (purge ?now (ag_state g1)))(scope \<mapsto> gr)\<rparr>"
  have pub: "publish_grant ?now ?later scope gr nonces (ag_state g1) = (Inr (), st)"
    unfolding publish_grant_Inr by (intro conjI later(1) fresh st_def)
  have "granted scope t0 t1 (gr_deks gr) st"
    using assms(3,4) later(2) on by (simp add: granted_def st_def onward_def)
  then show "succeeds (let (now, g) = instant_now E g1; (later, g) = instant_now E g;
       (r, st) = publish_grant now later scope gr nonces (ag_state g) in (r, g\<lparr>ag_state := st\<rparr>))
     (\<lambda>_ g'. ag_calls g \<le> ag_calls g' \<and> ag_children g' = ag_children g \<and>
        granted scope t0 t1 (gr_deks gr) (ag_state g'))"
    using pub on by (simp add: instant_now_def onward_def)
qed

text \<open>
  A request whose approvals hold: it names a grant and a time within the maximum that outlasts the readings,
  and its DEKs open to \<open>kds\<close>, under distinct entries and with distinct nonces.
\<close>

definition approved ::
    "('sc, 'pt, 'e) agent_env_scheme \<Rightarrow> instant \<Rightarrow> instant \<Rightarrow> int \<Rightarrow> dek_purpose \<Rightarrow> agent_grant_request \<Rightarrow> u64
     \<Rightarrow> (dek_key \<times> bytes) list \<Rightarrow> bool" where
  "approved E t0 t1 u purpose r ttl kds \<longleftrightarrow>
     gq_grant_id r \<noteq> [] \<and> gq_deks r \<noteq> [] \<and> parse_dek_purpose (gq_purpose r) = Inr purpose \<and>
     (case gq_ttl_secs r of None \<Rightarrow> DEFAULT_AGENT_GRANT_TTL_SECS | Some t \<Rightarrow> t) = ttl \<and>
     0 < ttl \<and> ttl \<le> MAX_AGENT_GRANT_TTL_SECS \<and>
     t1 < t0 + nanos ttl \<and> t1 + nanos ttl \<le> ae_max_instant E \<and>
     list_all2 (\<lambda>dek (k, d). opens_to E purpose (gq_grant_id r) ttl dek k d \<and> outlasts E t0 t1 u dek) (gq_deks r) kds \<and>
     distinct (map fst kds) \<and> distinct (map (nonce_of E) (gq_deks r))"

lemma grant_request_granted:
  assumes calm: "calm E (ag_calls g) t0 t1 u" and req: "approved E t0 t1 u purpose r ttl kds"
    and idle: "t1 - t0 < as_idle_timeout (ag_state g)"
    and unused: "list_all (\<lambda>dek. as_used_nonces (ag_state g) (nonce_of E dek) = None) (gq_deks r)"
  shows "succeeds (handle_grant E r g) (\<lambda>x g'. x = (length (gq_deks r), ttl) \<and>
     ag_calls g \<le> ag_calls g' \<and> ag_children g' = ag_children g \<and>
     granted (gq_grant_id r) t0 t1 (map_of kds) (ag_state g'))"
proof -
  have r: "gq_grant_id r \<noteq> []" "gq_deks r \<noteq> []" "parse_dek_purpose (gq_purpose r) = Inr purpose"
      "0 < ttl" "ttl \<le> MAX_AGENT_GRANT_TTL_SECS" "t1 < t0 + nanos ttl" "t1 + nanos ttl \<le> ae_max_instant E"
      "distinct (map fst kds)" "distinct (map (nonce_of E) (gq_deks r))"
    and lasts: "(case gq_ttl_secs r of None \<Rightarrow> DEFAULT_AGENT_GRANT_TTL_SECS | Some t \<Rightarrow> t) = ttl"
    and opens: "list_all2 (\<lambda>dek (k, d). opens_to E purpose (gq_grant_id r) ttl dek k d \<and> outlasts E t0 t1 u dek)
        (gq_deks r) kds"
    using req by (simp_all add: approved_def)
  let ?now = "ae_clock E (ag_calls g)"
  have now: "t0 \<le> ?now" "?now \<le> t1" using calm_reading [OF calm] by simp_all
  have key: "grant_key_from_id (gq_grant_id r) = Inr (gq_grant_id r)" using r by (simp add: grant_key_from_id_def)
  have until: "checked_instant E ?now (nanos ttl) m = Inr (?now + nanos ttl)" for m
    using now r by (simp add: checked_instant_def)
  have deks: "succeeds (grant_deks E purpose (gq_grant_id r) ttl (gq_deks r)
       \<lparr>ga_deks = Map.empty, ga_used_nonces = [], ga_expires_at = ?now + nanos ttl\<rparr> (step g))
     (\<lambda>acc g'. onward (step g) g' \<and> t1 < ga_expires_at acc \<and> ga_deks acc = extend_map kds Map.empty \<and>
        map fst (ga_used_nonces acc) = map (nonce_of E) (gq_deks r))"
    using deks_granted [OF calm, of "step g" "\<lparr>ga_deks = Map.empty, ga_used_nonces = [],
       ga_expires_at = ?now + nanos ttl\<rparr>" purpose "gq_grant_id r" ttl "gq_deks r" kds] now r opens
    by (simp add: list_all_iff)
  have len: "length kds = length (gq_deks r)" using opens by (auto dest: list_all2_lengthD)
  have ttl: "ttl \<noteq> 0" "\<not> MAX_AGENT_GRANT_TTL_SECS < ttl" using r by auto
  have made: "succeeds (then_st (agent_publish E (gq_grant_id r)
        \<lparr>gr_expires_at = ga_expires_at acc, gr_deks = ga_deks acc\<rparr> (ga_used_nonces acc) g1)
        (\<lambda>_ g. (Inr (card (dom (ga_deks acc)), ttl), g)))
      (\<lambda>x g'. x = (length (gq_deks r), ttl) \<and> ag_calls g \<le> ag_calls g' \<and> ag_children g' = ag_children g \<and>
        granted (gq_grant_id r) t0 t1 (map_of kds) (ag_state g'))"
    if "onward (step g) g1 \<and> t1 < ga_expires_at acc \<and> ga_deks acc = extend_map kds Map.empty \<and>
        map fst (ga_used_nonces acc) = map (nonce_of E) (gq_deks r)" for acc g1
  proof (rule succeeds_then)
    show "succeeds (agent_publish E (gq_grant_id r) \<lparr>gr_expires_at = ga_expires_at acc, gr_deks = ga_deks acc\<rparr>
        (ga_used_nonces acc) g1) (\<lambda>_ g'. ag_calls g1 \<le> ag_calls g' \<and> ag_children g' = ag_children g1 \<and>
        granted (gq_grant_id r) t0 t1 (ga_deks acc) (ag_state g'))"
    proof -
      have "list_all (\<lambda>m. as_used_nonces (ag_state g1) m = None) (map fst (ga_used_nonces acc))"
        using that unused by (simp add: onward_def list_all_iff)
      then show ?thesis
        using grant_published [OF calm, of g1 "\<lparr>gr_expires_at = ga_expires_at acc, gr_deks = ga_deks acc\<rparr>"
          "ga_used_nonces acc" "gq_grant_id r"] that idle by (simp add: onward_def)
    qed
  next
    fix x g2 assume "ag_calls g1 \<le> ag_calls g2 \<and> ag_children g2 = ag_children g1 \<and>
        granted (gq_grant_id r) t0 t1 (ga_deks acc) (ag_state g2)"
    moreover have "ga_deks acc = map_of kds" using that r by (simp add: extend_empty)
    moreover have "card (dom (map_of kds)) = length kds"
      using r by (simp add: dom_map_of_conv_image_fst distinct_card flip: set_map)
    ultimately show "succeeds (Inr (card (dom (ga_deks acc)), ttl), g2) (\<lambda>x g'. x = (length (gq_deks r), ttl) \<and>
        ag_calls g \<le> ag_calls g' \<and> ag_children g' = ag_children g \<and>
        granted (gq_grant_id r) t0 t1 (map_of kds) (ag_state g'))"
      using that len by (simp add: onward_def)
  qed
  have "handle_grant E r g = then_st (grant_deks E purpose (gq_grant_id r) ttl (gq_deks r)
       \<lparr>ga_deks = Map.empty, ga_used_nonces = [], ga_expires_at = ?now + nanos ttl\<rparr> (step g)) (\<lambda>acc g.
     then_st (agent_publish E (gq_grant_id r)
        \<lparr>gr_expires_at = ga_expires_at acc, gr_deks = ga_deks acc\<rparr> (ga_used_nonces acc) g)
        (\<lambda>_ g. (Inr (card (dom (ga_deks acc)), ttl), g)))"
    using r ttl by (simp add: handle_grant_def key lasts Let_def instant_now_def until)
  then show ?thesis using succeeds_then [OF deks made] by simp
qed

section \<open>Using the grant\<close>

lemma live_got:
  assumes "calm E n t0 t1 u" "n \<le> ag_calls g" "granted scope t0 t1 deks (ag_state g)"
  shows "succeeds (agent_get_live E scope g) (\<lambda>gr g'. onward g g' \<and> gr_deks gr = deks)"
  unfolding agent_get_live_def
proof (rule succeeds_then [OF calm_lock [OF assms(1,2)]])
  fix g1 assume on: "onward g g1"
  obtain gr where gr: "as_grants (ag_state g) scope = Some gr" "gr_deks gr = deks" "t1 < gr_expires_at gr"
    and idle: "t1 - t0 < as_idle_timeout (ag_state g)" "t0 \<le> as_last_activity (ag_state g)"
    using assms(3) by (auto simp: granted_def)
  have "ae_clock E (ag_calls g1) \<le> t1"
    using calm_reading [OF assms(1), of "ag_calls g1"] assms(2) on by (simp add: onward_def)
  then have "get_live_grant (ae_clock E (ag_calls g1)) scope (ag_state g1) = Inr gr"
    using gr idle on by (auto simp: get_live_grant_Inr onward_def)
  then show "succeeds (let (now, g) = instant_now E g1 in (get_live_grant now scope (ag_state g), g))
      (\<lambda>gr g'. onward g g' \<and> gr_deks gr = deks)"
    using on gr(2) by (simp add: instant_now_def onward_def)
qed

lemma activity_recorded:
  assumes "calm E n t0 t1 u" "n \<le> ag_calls g"
  shows "succeeds (agent_record_activity E g) (\<lambda>_ g'. ag_calls g \<le> ag_calls g' \<and> ag_children g' = ag_children g)"
  unfolding agent_record_activity_def
  by (rule succeeds_then [OF calm_lock [OF assms]]) (simp add: instant_now_def onward_def)

lemma grant_opens:
  assumes calm: "calm E n t0 t1 u" "n \<le> ag_calls g" and gr: "granted scope t0 t1 deks (ag_state g)"
    and opens: "\<And>gr. gr_deks gr = deks \<Longrightarrow> opn gr None = Inr x"
  shows "succeeds (open_with_grant E scope False opn g)
    (\<lambda>y g'. y = x \<and> ag_calls g \<le> ag_calls g' \<and> ag_children g' = ag_children g)"
  unfolding open_with_grant_def if_False then_st_simps
proof (rule succeeds_then [OF live_got [OF calm gr]], rule succeeds_then)
  fix g1 :: agent_sys and gr0 :: grant_entry
  assume on: "onward g g1 \<and> gr_deks gr0 = deks"
  show "succeeds (agent_get_live E scope g1) (\<lambda>gr g'. onward g1 g' \<and> gr_deks gr = deks)"
    by (rule live_got [OF calm(1)]) (use calm(2) gr on in \<open>simp_all add: onward_def\<close>)
  fix gr1 :: grant_entry and g2 assume on2: "onward g1 g2 \<and> gr_deks gr1 = deks"
  have "n \<le> ag_calls g2" using calm(2) on on2 by (simp add: onward_def)
  note recorded = activity_recorded [OF calm(1) this]
  show "succeeds (then_st (opn gr1 None, g2) (\<lambda>opened g. then_st (agent_record_activity E g) (\<lambda>_ g. (Inr opened, g))))
      (\<lambda>y g'. y = x \<and> ag_calls g \<le> ag_calls g' \<and> ag_children g' = ag_children g)"
    using on on2 by (simp add: opens onward_def) (rule succeeds_then [OF recorded], auto simp: onward_def)
qed

section \<open>Delivering to a command\<close>

text \<open>The opening of a protected secret of the request under the keys of a grant.\<close>

definition opens_under ::
    "'e core_env_scheme \<Rightarrow> (dek_key \<rightharpoonup> master_key) \<Rightarrow> env_secret_input \<Rightarrow> opened_secret \<Rightarrow> bool" where
  "opens_under E deks s secret \<longleftrightarrow>
     es_tier s = Protected \<and> es_dek_blindbox s = None \<and> es_approval s = None \<and>
     validate_shell_name (es_env s) ''env var name'' = Inr () \<and> os_name secret = es_env s \<and>
     (case deks (deliver_key (es_name s)) of None \<Rightarrow> False
      | Some dek \<Rightarrow> open_with_dek E dek (es_name s) (es_envelope s) = Inr (os_plaintext secret))"

lemma protected_opens:
  assumes "list_all2 (opens_under E deks) secrets opened" "distinct (map es_env secrets)" "gr_deks gr = deks"
  shows "open_env_secrets_for_agent E secrets gr master = Inr opened"
proof -
  have "list_all (\<lambda>s. reject_agent_one_shot_secret_fields (es_dek_blindbox s) (es_approval s) = Inr () \<and>
      validate_shell_name (es_env s) ''env var name'' = Inr ()) secrets"
    using assms(1) by (auto simp: list_all_length list_all2_conv_all_nth opens_under_def
        reject_agent_one_shot_secret_fields_def)
  moreover have "list_all2 (\<lambda>s secret. os_name secret = es_env s \<and>
      with_context (''open failed for '' @ es_name s)
        (open_agent_secret E (es_name s) (es_tier s) (es_envelope s) gr master) = Inr (os_plaintext secret))
      secrets opened"
    by (rule list_all2_mono [OF assms(1)])
       (auto simp: opens_under_def open_agent_secret_def open_secret_with_grant_def assms(3) res_simps
        split: option.splits)
  ultimately show ?thesis using assms(2) by (simp add: open_env_secrets_for_agent_def open_each_eq_Inr)
qed

lemma no_one_shot_fields:
  "list_all2 (opens_under E deks) secrets opened \<Longrightarrow> reject_agent_env_one_shot_fields secrets = Inr ()
    \<and> \<not> list_ex (\<lambda>s. es_tier s = Standard) secrets"
  by (induction secrets opened rule: list_all2_induct)
     (auto simp: reject_agent_env_one_shot_fields_def reject_agent_one_shot_secret_fields_def opens_under_def)

text \<open>Helpers can be started from the call \<open>n\<close> on, read what they are sent, and end.\<close>

definition helpers_run :: "('sc, 'pt, 'e) worker_env_scheme \<Rightarrow> nat \<Rightarrow> bool" where
  "helpers_run E n \<longleftrightarrow> (\<forall>m \<ge> n. we_current_exe E m = Inr () \<and> (\<forall>args. we_spawn E m args = Inr ()) \<and>
     we_stdin E m \<and> we_pipe E m = append_writer \<and> (\<forall>sent. \<not> isl (we_wait E m sent)))"

lemma helper_run:
  assumes "helpers_run E n" "n \<le> ag_calls g"
    and "write_agent_run_helper_frame append_writer opened [] = (Inr (), sent)"
  shows "succeeds (run_agent_child_with_opened_env E command opened True g) (\<lambda>_ g'.
     ag_children g' = ag_children g @ [([''__agent-run-helper'', ''--stdin-null'', ''--''] @ command, sent)])"
proof -
  let ?n = "ag_calls g"
  have h: "we_current_exe E ?n = Inr ()" "we_spawn E (Suc ?n) args = Inr ()" "we_stdin E (Suc (Suc ?n))"
      "we_pipe E (Suc (Suc ?n)) = append_writer" "\<not> isl (we_wait E (Suc (Suc (Suc ?n))) sent)" for args
    using assms(1,2) by (simp_all add: helpers_run_def)
  obtain status where "we_wait E (Suc (Suc (Suc ?n))) sent = Inr status" using h(5) by (cases "we_wait E (Suc (Suc (Suc ?n))) sent") auto
  then show ?thesis
    by (simp add: run_agent_child_with_opened_env_def spawn_agent_run_helper_def h(1-4) assms(3) Let_def)
qed

lemma granted_run_delivered:
  assumes calm: "calm E n t0 t1 u" "n \<le> ag_calls g" and gr: "granted (rr_grant_id run) t0 t1 deks (ag_state g)"
    and opens: "list_all2 (opens_under (ae_core E) deks) (rr_secrets run) opened" "distinct (map es_env (rr_secrets run))"
    and req: "rr_command run \<noteq> []" "rr_secrets run \<noteq> []" "rr_grant_id run \<noteq> []"
    and helper: "helpers_run E n" "write_agent_run_helper_frame append_writer opened [] = (Inr (), sent)"
  shows "succeeds (handle_deliver_run E run g) (\<lambda>_ g'. ag_children g'
     = ag_children g @ [([''__agent-run-helper'', ''--stdin-null'', ''--''] @ rr_command run, sent)])"
proof -
  have fields: "reject_agent_env_one_shot_fields (rr_secrets run) = Inr ()"
      "\<not> list_ex (\<lambda>s. es_tier s = Standard) (rr_secrets run)"
    using no_one_shot_fields [OF opens(1)] by simp_all
  have opened: "succeeds (open_with_grant E (rr_grant_id run) False (open_env_secrets_for_agent (ae_core E) (rr_secrets run)) g)
      (\<lambda>y g'. y = opened \<and> ag_calls g \<le> ag_calls g' \<and> ag_children g' = ag_children g)"
    by (rule grant_opens [OF calm gr]) (rule protected_opens [OF opens])
  have run: "handle_deliver_run E run g = then_st (open_with_grant E (rr_grant_id run) False
      (open_env_secrets_for_agent (ae_core E) (rr_secrets run)) g)
      (\<lambda>opened g. run_agent_child_with_opened_env E (rr_command run) opened True g)"
    using req fields by (simp add: handle_deliver_run_def grant_key_from_id_def)
  show ?thesis
    unfolding run
  proof (rule succeeds_then [OF opened])
    fix y and g1 :: agent_sys assume "y = opened \<and> ag_calls g \<le> ag_calls g1 \<and> ag_children g1 = ag_children g"
    then show "succeeds (run_agent_child_with_opened_env E (rr_command run) y True g1) (\<lambda>_ g'. ag_children g'
        = ag_children g @ [([''__agent-run-helper'', ''--stdin-null'', ''--''] @ rr_command run, sent)])"
      using helper_run [OF helper(1) _ helper(2), of g1 "rr_command run"] calm(2) by simp
  qed
qed

section \<open>A sample\<close>

definition flow_env :: "(z3, z3) worker_env" where
  "flow_env = agent_env.extend (sample_agent_env\<lparr>ae_clock := \<lambda>_. 5\<rparr>)
     \<lparr>we_parse = (\<lambda>_. None), we_current_exe = (\<lambda>_. Inr ()), we_spawn = (\<lambda>_ _. Inr ()), we_stdin = (\<lambda>_. True),
      we_pipe = (\<lambda>_. append_writer), we_wait = (\<lambda>_ _. Inr \<lparr>xs_signal = None, xs_code = Some 0\<rparr>)\<rparr>"

text \<open>The secret of the name \<open>n\<close>, sealed under the DEK of \<open>sample_box\<close>.\<close>

definition flow_envelope :: sealed where
  "flow_envelope =
     (let n = replicate 12 5
      in \<lparr>sl_ciphertext = string_of (sample_header (replicate 32 7) n (protected_record_aad sample_blind ''n'' sample_meta)
            @ [104, 105]),
          sl_nonce = string_of n, sl_wrap_meta = the (sample_meta_to_json sample_meta)\<rparr>)"

definition flow_run :: agent_run_deliver_request where
  "flow_run = \<lparr>rr_grant_id = ''g'', rr_command = [''ls''], rr_secrets =
     [\<lparr>es_name = ''n'', es_env = ''K'', es_tier = Protected, es_envelope = flow_envelope,
       es_dek_blindbox = None, es_approval = None\<rparr>]\<rparr>"

definition flow_opened :: "opened_secret list" where
  "flow_opened = [\<lparr>os_name = ''K'', os_plaintext = [104, 105]\<rparr>]"

lemma flow_env_simps:
  "ae_core flow_env = sample_blind" "ae_keypair flow_env = ae_keypair sample_agent_env"
  "ae_others flow_env = (\<lambda>_ st. st)" "ae_os flow_env = plain_os" "ae_poisoned flow_env = (\<lambda>_. False)"
  "ae_clock flow_env = (\<lambda>_. 5)" "ae_system_time flow_env = (\<lambda>_. 1000 * 10 ^ 9)"
  "ae_max_instant flow_env = 10 ^ 30" "ae_max_system_time flow_env = 10 ^ 30"
  "we_current_exe flow_env = (\<lambda>_. Inr ())" "we_spawn flow_env = (\<lambda>_ _. Inr ())" "we_stdin flow_env = (\<lambda>_. True)"
  "we_pipe flow_env = (\<lambda>_. append_writer)" "we_wait flow_env = (\<lambda>_ _. Inr \<lparr>xs_signal = None, xs_code = Some 0\<rparr>)"
  by (simp_all add: flow_env_def sample_agent_env_def agent_env.extend_def)

lemma flow_calm: "calm flow_env n 5 5 (1000 * 10 ^ 9)" "helpers_run flow_env n"
  by (simp_all add: calm_def quiet_def helpers_run_def flow_env_simps plain_os_simps)

lemma flow_nonce: "parse_approval_context flow_env (di_approval (hd (gq_deks sample_request)))
    = Inr \<lparr>ap_nonce = replicate 16 1, ap_expires_at_unix = 1060\<rparr>"
  by (simp add: parse_approval_context_def flow_env_simps sample_request_def sample_blind_def
      core_env.extend_def sample_core_def MIN_APPROVAL_NONCE_BYTES_def MAX_APPROVAL_NONCE_BYTES_def)

lemma flow_opens: "opens_to flow_env DeliverDek ''g'' 60 (hd (gq_deks sample_request)) (deliver_key ''n'') (replicate 32 7)"
proof -
  have ctx: "grant_dek_context flow_env DeliverDek ''g'' 60
      \<lparr>ap_nonce = replicate 16 1, ap_expires_at_unix = 1060\<rparr> (hd (gq_deks sample_request))
      = Inr (sample_context, deliver_key ''n'')"
    by (simp add: grant_dek_context_def sample_request_def agent_deliver_operation_hash_def operation_hash_eq
        short_field_def flow_env_simps sample_context_def)
  have "di_dek_blindbox (hd (gq_deks sample_request)) = sample_box" by (simp add: sample_request_def)
  then show ?thesis
    by (simp add: opens_to_def flow_nonce ctx flow_env_simps sample_box_opens)
qed

lemma flow_approved: "approved flow_env 5 5 (1000 * 10 ^ 9) DeliverDek sample_request 60
    [(deliver_key ''n'', replicate 32 7)]"
proof -
  have list: "gq_deks sample_request = [hd (gq_deks sample_request)]" by (simp add: sample_request_def)
  have fields: "gq_grant_id sample_request = ''g''" "gq_purpose sample_request = None"
      "gq_ttl_secs sample_request = Some 60"
      "di_approval (hd (gq_deks sample_request)) = \<lparr>ai_nonce = string_of (replicate 16 1), ai_expires_at_unix = 1060\<rparr>"
    by (simp_all add: sample_request_def)
  have "outlasts flow_env 5 5 (1000 * 10 ^ 9) (hd (gq_deks sample_request))"
    by (simp add: outlasts_def fields nanos_def flow_env_simps)
  then have opens: "list_all2 (\<lambda>dek (k, d). opens_to flow_env DeliverDek ''g'' 60 dek k d \<and>
        outlasts flow_env 5 5 (1000 * 10 ^ 9) dek) (gq_deks sample_request) [(deliver_key ''n'', replicate 32 7)]"
    using flow_opens by (subst list) simp
  have "gq_deks sample_request \<noteq> []" "distinct (map (nonce_of flow_env) (gq_deks sample_request))"
    by (simp_all add: sample_request_def)
  with opens show ?thesis
    by (simp add: approved_def fields parse_dek_purpose_def MAX_AGENT_GRANT_TTL_SECS_def nanos_def flow_env_simps)
qed

lemma flow_secret_opens: "open_with_dek sample_blind (replicate 32 7) ''n'' flow_envelope = Inr [104, 105]"
  unfolding open_with_dek_def open_eq_Inr open_protected_value_eq_Inr
  by (simp add: flow_envelope_def Let_def sample_blind_def core_env.extend_def sample_core_simps sample_meta_the
      NONCE_BYTES_def sample_meta_def)

section \<open>Property\<close>

text \<open>
  C4. What was approved works: if the blind boxes of a grant request open in the contexts of their
  approvals, which are unused and last beyond the readings of the clocks, and no other worker interferes,
  the request is granted with one key per DEK and for the requested time; and a delivery of protected
  secrets to a command that follows starts exactly one helper, with that command, and the helper reads from
  what it is sent the plaintexts to which the envelopes open under the released DEKs, under the requested
  names. The side conditions: the readings of the clocks lie in a window shorter than the idle timeout and within
  their ranges, no lock is poisoned and every page for a key can be had (\<open>calm\<close>); the helper can be
  located, started, written to and waited for; and the secrets have distinct valid variable names, are text
  without a zero byte, and are within the limits of the helper's frame in number and size.
\<close>

theorem approved_run_delivered:
  assumes "calm E (ag_calls g) t0 t1 u" "helpers_run E (ag_calls g)" "t1 - t0 < as_idle_timeout (ag_state g)"
    and "approved E t0 t1 u DeliverDek r ttl kds"
    and "list_all (\<lambda>dek. as_used_nonces (ag_state g) (nonce_of E dek) = None) (gq_deks r)"
    and "rr_grant_id run = gq_grant_id r" "rr_command run \<noteq> []" "rr_secrets run \<noteq> []"
    and "list_all2 (opens_under (ae_core E) (map_of kds)) (rr_secrets run) opened"
    and "distinct (map es_env (rr_secrets run))"
    and "length opened \<le> MAX_AGENT_RUN_SECRETS" "list_all secret_bounded opened" "list_all secret_deliverable opened"
  shows "succeeds (handle_grant E r g) (\<lambda>x g1. x = (length (gq_deks r), ttl) \<and>
    succeeds (handle_deliver_run E run g1) (\<lambda>_ g2. \<exists>sent s.
      ag_children g2 = ag_children g @ [([''__agent-run-helper'', ''--stdin-null'', ''--''] @ rr_command run, sent)] \<and>
      read_agent_run_helper_frame stream_read [Data sent] = (Inr opened, s)))"
proof (rule succeeds_mono [OF grant_request_granted [OF assms(1,4,3,5)]])
  fix x and g1 :: agent_sys
  assume g1: "x = (length (gq_deks r), ttl) \<and> ag_calls g \<le> ag_calls g1 \<and>
      ag_children g1 = ag_children g \<and> granted (gq_grant_id r) t0 t1 (map_of kds) (ag_state g1)"
  then have gr: "ag_calls g \<le> ag_calls g1" "ag_children g1 = ag_children g"
      "granted (rr_grant_id run) t0 t1 (map_of kds) (ag_state g1)"
    using assms(6) by auto
  define sent where "sent = AGENT_RUN_HELPER_MAGIC @ be32 (length opened) @ concat (map secret_frame opened)"
  have ne: "opened \<noteq> []" using assms(8,9) by auto
  have "length opened < 2 ^ 32" using assms(11) by (simp add: MAX_AGENT_RUN_SECRETS_def)
  moreover have "list_all (\<lambda>s. length (os_name s) < 2 ^ 32 \<and> length (os_plaintext s) < 2 ^ 32) opened"
    using assms(12) by (auto simp: list_all_iff secret_bounded_def MAX_AGENT_RUN_ENV_NAME_BYTES_def
        MAX_STDIN_SECRET_BYTES_def)
  ultimately have wrote: "write_agent_run_helper_frame append_writer opened [] = (Inr (), sent)"
    using ne assms(13) by (simp add: write_frame_append sent_def)
  have "sent \<noteq> []" by (simp add: sent_def AGENT_RUN_HELPER_MAGIC_def)
  then obtain s where s: "read_agent_run_helper_frame stream_read [Data sent] = (Inr opened, s)"
    using run_helper_frame_roundtrip [OF wrote assms(11,12), of "[Data sent]" "[]"] by auto
  have id: "rr_grant_id run \<noteq> []" using assms(4,6) by (simp add: approved_def)
  have "succeeds (handle_deliver_run E run g1) (\<lambda>_ g2. ag_children g2
      = ag_children g1 @ [([''__agent-run-helper'', ''--stdin-null'', ''--''] @ rr_command run, sent)])"
    by (rule granted_run_delivered [OF assms(1) gr(1,3) assms(9,10,7,8) id assms(2) wrote])
  then have "succeeds (handle_deliver_run E run g1) (\<lambda>_ g2. \<exists>sent s.
      ag_children g2 = ag_children g @ [([''__agent-run-helper'', ''--stdin-null'', ''--''] @ rr_command run, sent)] \<and>
      read_agent_run_helper_frame stream_read [Data sent] = (Inr opened, s))"
    by (rule succeeds_mono) (use gr(2) s in auto)
  with g1 show "x = (length (gq_deks r), ttl) \<and>
      succeeds (handle_deliver_run E run g1) (\<lambda>_ g2. \<exists>sent s.
        ag_children g2 = ag_children g @ [([''__agent-run-helper'', ''--stdin-null'', ''--''] @ rr_command run, sent)] \<and>
        read_agent_run_helper_frame stream_read [Data sent] = (Inr opened, s))"
    by blast
qed

theorem approved_run_delivered_witness:
  "succeeds (handle_grant flow_env sample_request sample_agent) (\<lambda>x g1. x = (length (gq_deks sample_request), 60) \<and>
    succeeds (handle_deliver_run flow_env flow_run g1) (\<lambda>_ g2. \<exists>sent s.
      ag_children g2 = ag_children sample_agent
        @ [([''__agent-run-helper'', ''--stdin-null'', ''--''] @ rr_command flow_run, sent)] \<and>
      read_agent_run_helper_frame stream_read [Data sent] = (Inr flow_opened, s)))"
proof (rule approved_run_delivered [OF flow_calm _ flow_approved])
  have name: "validate_shell_name ''K'' m = Inr ()" for m
    by (simp add: validate_shell_name_def shell_first_def is_ascii_uppercase_def code_def)
  have "map_of [(deliver_key ''n'', replicate 32 7)] (deliver_key ''n'') = Some (replicate 32 7 :: bytes)" by simp
  then show "list_all2 (opens_under (ae_core flow_env) (map_of [(deliver_key ''n'', replicate 32 7)]))
      (rr_secrets flow_run) flow_opened"
    by (simp add: flow_run_def flow_opened_def opens_under_def name flow_env_simps flow_secret_opens del: map_of.simps)
  have "from_utf8 [104, 105] \<noteq> None" by (simp add: from_utf8_def)
  then show "list_all secret_deliverable flow_opened"
    by (simp add: flow_opened_def secret_deliverable_def validate_env_value_def name)
qed (simp_all add: sample_agent_def agent_state_new_def sample_request_def flow_run_def flow_opened_def
    MAX_AGENT_RUN_SECRETS_def secret_bounded_def MAX_AGENT_RUN_ENV_NAME_BYTES_def MAX_STDIN_SECRET_BYTES_def)

end
