(* ===== verification/WindowsAcl.thy ===== *)
theory WindowsAcl
  imports FileSys
begin

text \<open>
  Owner-only access lists on Windows (\<open>set_owner_only_acl\<close> and \<open>validate_owner_only_acl\<close> in
  \<open>crates/avault-store/src/lib.rs\<close>), which the Windows variants of the checks and of securing new
  files call.

  \<^item> A security identifier is the bytes it consists of, a pointer to one an option.
  \<^item> Win32 is the record \<open>win32\<close>: what each call returns, by its number; the objects of the file
    system with their owners and access lists are the state \<open>win_sys\<close>. Handles, buffers and security
    descriptors are freed by guards and have no part in the state.
\<close>

section \<open>Objects and their security\<close>

type_synonym sid = bytes

record ace =
  ac_type :: byte
  ac_inherit :: u32
  ac_mask :: u32
  ac_sid :: sid

record security_descriptor =
  se_owner :: "sid option"
  se_dacl :: "ace list option"
  se_control :: "16 word"

record win_sys =
  ws_objects :: "path \<rightharpoonup> security_descriptor"
  ws_calls :: nat

datatype known_sid = LocalSystem | BuiltinAdministrators

text \<open>
  What the calls return: whether they succeed, or their code, 0 for success. The sizes are what
  the size probes leave in \<open>needed\<close>; the calls that follow take the length of the buffer.
\<close>

record win32 =
  wn_open_token :: "nat \<Rightarrow> bool"
  wn_token_size :: "nat \<Rightarrow> u32"
  wn_last_error :: "nat \<Rightarrow> u32"
  wn_token_user :: "nat \<Rightarrow> nat \<Rightarrow> sid option option"
  wn_known_size :: "nat \<Rightarrow> known_sid \<Rightarrow> u32"
  wn_known_sid :: "nat \<Rightarrow> known_sid \<Rightarrow> nat \<Rightarrow> (bytes \<times> u32) option"
  wn_sid_length :: "sid \<Rightarrow> u32"
  wn_equal_sid :: "sid \<Rightarrow> sid \<Rightarrow> bool"
  wn_acl_call :: "nat \<Rightarrow> bool"
  wn_security_call :: "nat \<Rightarrow> u32"

definition win_tick :: "win_sys \<Rightarrow> win_sys" where
  "win_tick s = s\<lparr>ws_calls := Suc (ws_calls s)\<rparr>"

lemma win_tick_simps [simp]: "ws_objects (win_tick s) = ws_objects s" "ws_calls (win_tick s) = Suc (ws_calls s)"
  by (simp_all add: win_tick_def)

text \<open>Constants of the Windows headers.\<close>

definition ERROR_INSUFFICIENT_BUFFER :: u32 where "ERROR_INSUFFICIENT_BUFFER = 122"
definition SE_DACL_PROTECTED :: "16 word" where "SE_DACL_PROTECTED = 0x1000"
definition FILE_ALL_ACCESS :: u32 where "FILE_ALL_ACCESS = 0x1F01FF"
definition INHERIT_BOTH :: u32 where "INHERIT_BOTH = 3"
definition ACCESS_ALLOWED_ACE_TYPE :: byte where "ACCESS_ALLOWED_ACE_TYPE = 0"
definition ACCESS_ALLOWED_COMPOUND_ACE_TYPE :: byte where "ACCESS_ALLOWED_COMPOUND_ACE_TYPE = 4"
definition ACCESS_ALLOWED_OBJECT_ACE_TYPE :: byte where "ACCESS_ALLOWED_OBJECT_ACE_TYPE = 5"
definition ACCESS_ALLOWED_CALLBACK_ACE_TYPE :: byte where "ACCESS_ALLOWED_CALLBACK_ACE_TYPE = 9"
definition ACCESS_ALLOWED_CALLBACK_OBJECT_ACE_TYPE :: byte where "ACCESS_ALLOWED_CALLBACK_OBJECT_ACE_TYPE = 11"

lemmas ace_type_defs = ACCESS_ALLOWED_ACE_TYPE_def ACCESS_ALLOWED_COMPOUND_ACE_TYPE_def
  ACCESS_ALLOWED_OBJECT_ACE_TYPE_def ACCESS_ALLOWED_CALLBACK_ACE_TYPE_def
  ACCESS_ALLOWED_CALLBACK_OBJECT_ACE_TYPE_def

definition SIZE_OF_ACL :: nat where "SIZE_OF_ACL = 8"
definition SIZE_OF_ACCESS_ALLOWED_ACE :: nat where "SIZE_OF_ACCESS_ALLOWED_ACE = 12"
definition SIZE_OF_U32 :: nat where "SIZE_OF_U32 = 4"

section \<open>Security identifiers\<close>

(* SRC store unsafe_sid_len *)
definition unsafe_sid_len :: "win32 \<Rightarrow> sid option \<Rightarrow> nat res" where
  "unsafe_sid_len W sid = (case sid of
       None \<Rightarrow> bail ''missing SID''
     | Some sid \<Rightarrow> (let len = unat (wn_sid_length W sid)
                    in if 0 < len then Inr len else bail ''invalid SID length''))"

(* SRC store copy_sid *)
definition copy_sid :: "win32 \<Rightarrow> sid option \<Rightarrow> sid res" where
  "copy_sid W sid = and_then (unsafe_sid_len W sid) (\<lambda>len. Inr (take len (the sid)))"

(* SRC store equal_sid *)
definition equal_sid :: "win32 \<Rightarrow> sid option \<Rightarrow> sid option \<Rightarrow> bool" where
  "equal_sid W left right = (case (left, right) of
       (Some l, Some r) \<Rightarrow> wn_equal_sid W l r
     | _ \<Rightarrow> False)"

(* SRC store current_user_sid *)
definition current_user_sid :: "win32 \<Rightarrow> win_sys \<Rightarrow> sid res \<times> win_sys" where
  "current_user_sid W s =
     (if \<not> wn_open_token W (ws_calls s) then (bail ''failed to open process token'', win_tick s)
      else let s = win_tick s; needed = wn_token_size W (ws_calls s); s = win_tick s
      in if needed = 0 \<and> wn_last_error W (ws_calls s) \<noteq> ERROR_INSUFFICIENT_BUFFER
         then (bail ''failed to size process token user'', s)
         else case wn_token_user W (ws_calls s) (unat needed) of
                None \<Rightarrow> (bail ''failed to read process token user'', win_tick s)
              | Some user_sid \<Rightarrow> (copy_sid W user_sid, win_tick s))"

(* SRC store well_known_sid *)
definition well_known_sid :: "win32 \<Rightarrow> known_sid \<Rightarrow> win_sys \<Rightarrow> sid res \<times> win_sys" where
  "well_known_sid W kind s =
     (let needed = wn_known_size W (ws_calls s) kind; s = win_tick s
      in if needed = 0 then (bail ''failed to size well-known SID'', s)
         else case wn_known_sid W (ws_calls s) kind (unat needed) of
                None \<Rightarrow> (bail ''failed to create well-known SID'', win_tick s)
              | Some (buf, needed) \<Rightarrow> (Inr (take (unat needed) buf), win_tick s))"

section \<open>Setting the list\<close>

text \<open>
  \<open>AddAccessAllowedAceEx\<close> fails where the list has no room: the entry is its header, its mask and the
  identifier. \<open>SetNamedSecurityInfoW\<close> stores the list, protects it from inheritance and sets the owner
  if it is given one.
\<close>

definition add_access_allowed_ace :: "win32 \<Rightarrow> nat \<Rightarrow> u32 \<Rightarrow> u32 \<Rightarrow> sid \<Rightarrow> win_sys \<Rightarrow> ace list res \<times> win_sys" where
  "add_access_allowed_ace W acl_len inherit access sid s =
     (if wn_acl_call W (ws_calls s) \<and>
         SIZE_OF_ACL + (SIZE_OF_ACCESS_ALLOWED_ACE - SIZE_OF_U32) + unat (wn_sid_length W sid) \<le> acl_len
      then Inr [\<lparr>ac_type = ACCESS_ALLOWED_ACE_TYPE, ac_inherit = inherit, ac_mask = access, ac_sid = sid\<rparr>]
      else bail ''failed to build secret file ACL'', win_tick s)"

definition set_named_security :: "win32 \<Rightarrow> path \<Rightarrow> sid option \<Rightarrow> ace list \<Rightarrow> win_sys \<Rightarrow> bool \<times> win_sys" where
  "set_named_security W p owner dacl s = (case ws_objects s p of
       None \<Rightarrow> (False, win_tick s)
     | Some d \<Rightarrow>
         if wn_security_call W (ws_calls s) \<noteq> 0 then (False, win_tick s)
         else (True, win_tick (s\<lparr>ws_objects := (ws_objects s)(p \<mapsto>
                d\<lparr>se_owner := (if owner = None then se_owner d else owner), se_dacl := Some dacl,
                  se_control := se_control d OR SE_DACL_PROTECTED\<rparr>)\<rparr>)))"

(* SRC store set_owner_only_acl_impl *)
definition set_owner_only_acl_impl :: "win32 \<Rightarrow> path \<Rightarrow> bool \<Rightarrow> bool \<Rightarrow> win_sys \<Rightarrow> unit res \<times> win_sys" where
  "set_owner_only_acl_impl W p directory set_owner s =
     then_st (context_st ''failed to read current user SID'' (current_user_sid W s)) (\<lambda>owner s.
     then_st (unsafe_sid_len W (Some owner), s) (\<lambda>sid_len s.
     let acl_len = SIZE_OF_ACL + SIZE_OF_ACCESS_ALLOWED_ACE + sid_len - SIZE_OF_U32
     in if \<not> wn_acl_call W (ws_calls s)
        then (bail ''failed to initialize secret file ACL'', win_tick s)
        else then_st (add_access_allowed_ace W acl_len (if directory then INHERIT_BOTH else 0) FILE_ALL_ACCESS owner
                        (win_tick s)) (\<lambda>acl s.
             case set_named_security W p (if set_owner then Some owner else None) acl s of
               (False, s) \<Rightarrow> (bail ''failed to install owner-only ACL'', s)
             | (True, s) \<Rightarrow> (Inr (), s))))"

(* SRC store set_owner_only_acl *)
definition set_owner_only_acl :: "win32 \<Rightarrow> path \<Rightarrow> bool \<Rightarrow> win_sys \<Rightarrow> unit res \<times> win_sys" where
  "set_owner_only_acl W p directory = set_owner_only_acl_impl W p directory True"

(* SRC store set_owner_only_dacl *)
definition set_owner_only_dacl :: "win32 \<Rightarrow> path \<Rightarrow> bool \<Rightarrow> win_sys \<Rightarrow> unit res \<times> win_sys" where
  "set_owner_only_dacl W p directory = set_owner_only_acl_impl W p directory False"

section \<open>Checking the list\<close>

(* SRC store is_unsupported_access_allowing_ace_type *)
definition is_unsupported_access_allowing_ace_type :: "byte \<Rightarrow> bool" where
  "is_unsupported_access_allowing_ace_type t \<longleftrightarrow>
     t = ACCESS_ALLOWED_CALLBACK_ACE_TYPE \<or> t = ACCESS_ALLOWED_CALLBACK_OBJECT_ACE_TYPE \<or>
     t = ACCESS_ALLOWED_COMPOUND_ACE_TYPE \<or> t = ACCESS_ALLOWED_OBJECT_ACE_TYPE"

(* SRC store 2555-2584 validate_owner_only_acl *)
fun validate_aces :: "win32 \<Rightarrow> string \<Rightarrow> sid list \<Rightarrow> ace list \<Rightarrow> win_sys \<Rightarrow> unit res \<times> win_sys" where
  "validate_aces W label allowed [] s = (Inr (), s)"
| "validate_aces W label allowed (ace # aces) s =
     (if \<not> wn_acl_call W (ws_calls s) then (bail (''failed to inspect '' @ label @ '' ACL''), win_tick s)
      else if ac_type ace \<noteq> ACCESS_ALLOWED_ACE_TYPE
      then if is_unsupported_access_allowing_ace_type (ac_type ace)
           then (bail (label @ '' ACL contains unsupported access-allowing ACE''), win_tick s)
           else validate_aces W label allowed aces (win_tick s)
      else if \<not> list_ex (\<lambda>a. equal_sid W (Some (ac_sid ace)) (Some a)) allowed
      then (bail (label @ '' ACL grants access to another principal''), win_tick s)
      else validate_aces W label allowed aces (win_tick s))"

(* SRC store validate_owner_only_acl *)
definition validate_owner_only_acl :: "win32 \<Rightarrow> path \<Rightarrow> string \<Rightarrow> win_sys \<Rightarrow> unit res \<times> win_sys" where
  "validate_owner_only_acl W p label s =
     then_st (context_st ''failed to read current user SID'' (current_user_sid W s)) (\<lambda>owner s.
     then_st (context_st ''failed to build SYSTEM SID'' (well_known_sid W LocalSystem s)) (\<lambda>system s.
     then_st (context_st ''failed to build Administrators SID'' (well_known_sid W BuiltinAdministrators s))
       (\<lambda>administrators s.
     case (if wn_security_call W (ws_calls s) = 0 then ws_objects s p else None) of
       None \<Rightarrow> (bail (''failed to read '' @ label @ '' ACL''), win_tick s)
     | Some d \<Rightarrow>
         let s = win_tick s
         in if \<not> equal_sid W (se_owner d) (Some owner)
            then (bail (label @ '' owner is not the current user''), s)
            else case se_dacl d of
                   None \<Rightarrow> (bail (label @ '' ACL is missing''), s)
                 | Some aces \<Rightarrow>
                     if \<not> wn_acl_call W (ws_calls s)
                     then (bail (''failed to inspect '' @ label @ '' ACL protection''), win_tick s)
                     else if se_control d AND SE_DACL_PROTECTED = 0
                     then (bail (label @ '' ACL inheritance is enabled''), win_tick s)
                     else validate_aces W label [owner, system, administrators] aces (win_tick s))))"

section \<open>The Windows variants of the file checks\<close>

(* SRC store validate_file_mode@2373 *)
definition win_validate_file_mode :: "win32 \<Rightarrow> path \<Rightarrow> win_sys \<Rightarrow> unit res \<times> win_sys" where
  "win_validate_file_mode W p = validate_owner_only_acl W p ''master key''"

(* SRC store validate_directory_mode@2388 *)
definition win_validate_directory_mode :: "win32 \<Rightarrow> path \<Rightarrow> win_sys \<Rightarrow> unit res \<times> win_sys" where
  "win_validate_directory_mode W p = validate_owner_only_acl W p ''master key directory''"

(* SRC store secure_created_directory@2309 *)
definition win_secure_created_directory :: "win32 \<Rightarrow> path \<Rightarrow> win_sys \<Rightarrow> unit res \<times> win_sys" where
  "win_secure_created_directory W p = set_owner_only_acl W p True"

(* SRC store secure_created_file@2314 *)
definition win_secure_created_file :: "win32 \<Rightarrow> path \<Rightarrow> created_file_owner \<Rightarrow> win_sys \<Rightarrow> unit res \<times> win_sys" where
  "win_secure_created_file W p owner = (case owner of
       SetCurrentUser \<Rightarrow> set_owner_only_acl W p False
     | Keep \<Rightarrow> set_owner_only_dacl W p False)"

section \<open>What the code relies on of Win32\<close>

text \<open>
  The token names one user, the well-known identifiers are what they are, \<open>GetLengthSid\<close> is the
  length of an identifier, and \<open>EqualSid\<close> compares.
\<close>

definition win_laws :: "win32 \<Rightarrow> sid \<Rightarrow> (known_sid \<Rightarrow> sid) \<Rightarrow> bool" where
  "win_laws W user known \<longleftrightarrow>
     (\<forall>n len. wn_token_user W n len \<in> {None, Some (Some user)}) \<and>
     (\<forall>n kind len buf needed. wn_known_sid W n kind len = Some (buf, needed) \<longrightarrow> take (unat needed) buf = known kind) \<and>
     0 < length user \<and> unat (wn_sid_length W user) = length user \<and>
     (\<forall>l r. wn_equal_sid W l r \<longleftrightarrow> l = r)"

definition win_quiet :: "win32 \<Rightarrow> bool" where
  "win_quiet W \<longleftrightarrow> (\<forall>n. wn_open_token W n \<and> wn_token_size W n \<noteq> 0 \<and> wn_acl_call W n \<and> wn_security_call W n = 0 \<and>
     (\<forall>kind len. wn_known_size W n kind \<noteq> 0 \<and> wn_known_sid W n kind len \<noteq> None \<and> wn_token_user W n len \<noteq> None))"

lemma win_quietD:
  assumes "win_quiet W"
  shows "wn_open_token W n" "wn_token_size W n \<noteq> 0" "wn_acl_call W n" "wn_security_call W n = 0"
    "wn_known_size W n kind \<noteq> 0" "\<exists>y. wn_known_sid W n kind len = Some y" "\<exists>y. wn_token_user W n len = Some y"
  using assms by (simp_all add: win_quiet_def)

lemma user_sid:
  assumes "win_laws W user known"
  shows "current_user_sid W s = (Inr u, s') \<Longrightarrow> u = user"
    and "ws_objects (snd (current_user_sid W s)) = ws_objects s"
    and "win_quiet W \<Longrightarrow> \<exists>s'. current_user_sid W s = (Inr user, s')"
proof -
  have token: "wn_token_user W n len = None \<or> wn_token_user W n len = Some (Some user)" for n len
    using assms by (auto simp: win_laws_def)
  have copy: "copy_sid W (Some user) = Inr user"
    using assms by (simp add: win_laws_def copy_sid_def unsafe_sid_len_def)
  show "current_user_sid W s = (Inr u, s') \<Longrightarrow> u = user"
    using token [of "Suc (Suc (ws_calls s))" "unat (wn_token_size W (Suc (ws_calls s)))"] copy
    by (auto simp: current_user_sid_def Let_def split: if_splits)
  show "ws_objects (snd (current_user_sid W s)) = ws_objects s"
    by (simp add: current_user_sid_def Let_def split: option.split)
  show "\<exists>s'. current_user_sid W s = (Inr user, s')" if quiet: "win_quiet W"
    using token [of "Suc (Suc (ws_calls s))" "unat (wn_token_size W (Suc (ws_calls s)))"] copy
      win_quietD(7) [OF quiet, of "Suc (Suc (ws_calls s))" "unat (wn_token_size W (Suc (ws_calls s)))"]
    by (auto simp: current_user_sid_def Let_def win_quietD(1,2) [OF quiet])
qed

lemma known_sid:
  assumes "win_laws W user known"
  shows "well_known_sid W kind s = (Inr k, s') \<Longrightarrow> k = known kind"
    and "ws_objects (snd (well_known_sid W kind s)) = ws_objects s"
    and "win_quiet W \<Longrightarrow> \<exists>s'. well_known_sid W kind s = (Inr (known kind), s')"
proof -
  have sid: "wn_known_sid W n kind len = Some (buf, needed) \<Longrightarrow> take (unat needed) buf = known kind" for n len buf needed
    using assms by (auto simp: win_laws_def)
  show "well_known_sid W kind s = (Inr k, s') \<Longrightarrow> k = known kind"
    by (auto simp: well_known_sid_def Let_def sid split: if_splits option.splits)
  show "ws_objects (snd (well_known_sid W kind s)) = ws_objects s"
    by (simp add: well_known_sid_def Let_def split: option.split)
  show "win_quiet W \<Longrightarrow> \<exists>s'. well_known_sid W kind s = (Inr (known kind), s')"
    using win_quietD(6) [of W "Suc (ws_calls s)" kind "unat (wn_known_size W (ws_calls s) kind)"]
    by (auto simp: well_known_sid_def Let_def win_quietD(5) sid)
qed

section \<open>What the check means\<close>

text \<open>
  An entry lets somebody in if it is of one of the types that Windows documents as allowing access:
  the plain one (0), and the compound (4), object (5), callback (9) and callback object (11) ones.
\<close>

definition allows_access :: "ace \<Rightarrow> bool" where
  "allows_access ace \<longleftrightarrow> ac_type ace \<in> {0, 4, 5, 9, 11}"

lemma allows_access_iff:
  "allows_access ace \<longleftrightarrow> ac_type ace = ACCESS_ALLOWED_ACE_TYPE \<or> is_unsupported_access_allowing_ace_type (ac_type ace)"
  by (auto simp: allows_access_def is_unsupported_access_allowing_ace_type_def ace_type_defs)

definition ace_admissible :: "sid set \<Rightarrow> ace \<Rightarrow> bool" where
  "ace_admissible sids ace \<longleftrightarrow>
     (if allows_access ace then ac_type ace = ACCESS_ALLOWED_ACE_TYPE \<and> ac_sid ace \<in> sids else True)"

definition private_to :: "sid \<Rightarrow> sid set \<Rightarrow> security_descriptor \<Rightarrow> bool" where
  "private_to user sids d \<longleftrightarrow> se_owner d = Some user \<and> se_control d AND SE_DACL_PROTECTED \<noteq> 0 \<and>
     (case se_dacl d of None \<Rightarrow> False | Some aces \<Rightarrow> list_all (ace_admissible sids) aces)"

lemma validate_aces_objects: "ws_objects (snd (validate_aces W label allowed aces s)) = ws_objects s"
  by (induction W label allowed aces s rule: validate_aces.induct) simp_all

lemma validate_aces_Inr:
  assumes "win_laws W user known"
  shows "validate_aces W label allowed aces s = (Inr (), s') \<Longrightarrow> list_all (ace_admissible (set allowed)) aces"
    and "\<lbrakk>win_quiet W; list_all (ace_admissible (set allowed)) aces\<rbrakk> \<Longrightarrow>
      \<exists>s'. validate_aces W label allowed aces s = (Inr (), s')"
proof -
  have eq: "equal_sid W (Some l) (Some r) \<longleftrightarrow> l = r" for l r
    using assms by (simp add: win_laws_def equal_sid_def)
  have ne: "\<not> is_unsupported_access_allowing_ace_type ACCESS_ALLOWED_ACE_TYPE"
    by (simp add: is_unsupported_access_allowing_ace_type_def ace_type_defs)
  show "validate_aces W label allowed aces s = (Inr (), s') \<Longrightarrow> list_all (ace_admissible (set allowed)) aces"
    by (induction aces arbitrary: s)
       (auto simp: ace_admissible_def allows_access_iff list_ex_iff eq ne split: if_splits)
  show "\<exists>s'. validate_aces W label allowed aces s = (Inr (), s')"
    if "win_quiet W" "list_all (ace_admissible (set allowed)) aces"
    using that
    by (induction aces arbitrary: s)
       (auto simp: ace_admissible_def allows_access_iff list_ex_iff eq ne win_quietD split: if_splits)
qed

lemma validate_acl_Inr:
  assumes laws: "win_laws W user known"
    and run: "validate_owner_only_acl W p label s = (Inr (), s')"
  shows "\<exists>d. ws_objects s p = Some d \<and>
    private_to user {user, known LocalSystem, known BuiltinAdministrators} d \<and> ws_objects s' = ws_objects s"
proof -
  obtain owner s1 system s2 administrators s3
    where 1: "current_user_sid W s = (Inr owner, s1)"
      and 2: "well_known_sid W LocalSystem s1 = (Inr system, s2)"
      and 3: "well_known_sid W BuiltinAdministrators s2 = (Inr administrators, s3)"
      and rest: "(case (if wn_security_call W (ws_calls s3) = 0 then ws_objects s3 p else None) of
       None \<Rightarrow> (bail (''failed to read '' @ label @ '' ACL''), win_tick s3)
     | Some d \<Rightarrow>
         let s = win_tick s3
         in if \<not> equal_sid W (se_owner d) (Some owner)
            then (bail (label @ '' owner is not the current user''), s)
            else case se_dacl d of
                   None \<Rightarrow> (bail (label @ '' ACL is missing''), s)
                 | Some aces \<Rightarrow>
                     if \<not> wn_acl_call W (ws_calls s)
                     then (bail (''failed to inspect '' @ label @ '' ACL protection''), win_tick s)
                     else if se_control d AND SE_DACL_PROTECTED = 0
                     then (bail (label @ '' ACL inheritance is enabled''), win_tick s)
                     else validate_aces W label [owner, system, administrators] aces (win_tick s)) = (Inr (), s')"
    using run unfolding validate_owner_only_acl_def then_st_eq_Inr context_st_eq_Inr by blast
  have sids: "owner = user" "system = known LocalSystem" "administrators = known BuiltinAdministrators"
    using user_sid(1) [OF laws 1] known_sid(1) [OF laws 2] known_sid(1) [OF laws 3] by auto
  have objects: "ws_objects s3 = ws_objects s"
    using user_sid(2) [OF laws, of s] known_sid(2) [OF laws, of LocalSystem s1]
      known_sid(2) [OF laws, of BuiltinAdministrators s2] 1 2 3 by simp
  obtain d where d: "ws_objects s3 p = Some d"
    using rest by (auto split: option.splits if_splits)
  obtain aces where aces: "se_dacl d = Some aces"
    using rest d by (auto simp: Let_def split: option.splits if_splits)
  have checks: "equal_sid W (se_owner d) (Some owner)" "se_control d AND SE_DACL_PROTECTED \<noteq> 0"
      and list: "validate_aces W label [owner, system, administrators] aces (win_tick (win_tick s3)) = (Inr (), s')"
    using rest d aces by (auto simp: Let_def split: if_splits)
  have "se_owner d = Some user"
    using checks(1) sids(1) laws by (auto simp: equal_sid_def win_laws_def split: option.splits)
  then show ?thesis
    using validate_aces_Inr(1) [OF laws list] checks(2) aces d objects sids
      validate_aces_objects [of W label "[owner, system, administrators]" aces "win_tick (win_tick s3)"] list
    by (auto simp: private_to_def)
qed

lemma validate_acl_complete:
  assumes laws: "win_laws W user known" and quiet: "win_quiet W"
    and d: "ws_objects s p = Some d" "private_to user {user, known LocalSystem, known BuiltinAdministrators} d"
  shows "\<exists>s'. validate_owner_only_acl W p label s = (Inr (), s')"
proof -
  obtain s1 where 1: "current_user_sid W s = (Inr user, s1)" using user_sid(3) [OF laws quiet] by blast
  obtain s2 where 2: "well_known_sid W LocalSystem s1 = (Inr (known LocalSystem), s2)"
    using known_sid(3) [OF laws quiet] by blast
  obtain s3 where 3: "well_known_sid W BuiltinAdministrators s2 = (Inr (known BuiltinAdministrators), s3)"
    using known_sid(3) [OF laws quiet] by blast
  have objects: "ws_objects s3 = ws_objects s"
    using user_sid(2) [OF laws, of s] known_sid(2) [OF laws, of LocalSystem s1]
      known_sid(2) [OF laws, of BuiltinAdministrators s2] 1 2 3 by simp
  obtain aces where aces: "se_dacl d = Some aces"
      "list_all (ace_admissible {user, known LocalSystem, known BuiltinAdministrators}) aces"
    using d(2) by (auto simp: private_to_def split: option.splits)
  obtain s4 where "validate_aces W label [user, known LocalSystem, known BuiltinAdministrators] aces
      (win_tick (win_tick s3)) = (Inr (), s4)"
    using validate_aces_Inr(2) [OF laws quiet, of "[user, known LocalSystem, known BuiltinAdministrators]" aces] aces
    by auto
  then show ?thesis
    using d aces laws
    by (auto simp: validate_owner_only_acl_def 1 2 3 objects win_quietD [OF quiet] private_to_def equal_sid_def
        win_laws_def Let_def)
qed

text \<open>Setting the list, where nothing fails: it always has room for its one entry.\<close>

definition owner_only :: "sid \<Rightarrow> bool \<Rightarrow> ace list" where
  "owner_only user directory =
     [\<lparr>ac_type = ACCESS_ALLOWED_ACE_TYPE, ac_inherit = (if directory then INHERIT_BOTH else 0),
       ac_mask = FILE_ALL_ACCESS, ac_sid = user\<rparr>]"

lemma set_acl_effect:
  assumes laws: "win_laws W user known" and quiet: "win_quiet W" and d: "ws_objects s p = Some d"
  shows "\<exists>s'. set_owner_only_acl_impl W p directory set_owner s = (Inr (), s') \<and>
    ws_objects s' = (ws_objects s)(p \<mapsto> d\<lparr>se_owner := (if set_owner then Some user else se_owner d),
      se_dacl := Some (owner_only user directory), se_control := se_control d OR SE_DACL_PROTECTED\<rparr>)"
proof -
  obtain s1 where 1: "current_user_sid W s = (Inr user, s1)" using user_sid(3) [OF laws quiet] by blast
  have objects: "ws_objects s1 = ws_objects s" using user_sid(2) [OF laws, of s] 1 by simp
  have len: "unsafe_sid_len W (Some user) = Inr (length user)" "unat (wn_sid_length W user) = length user"
    using laws by (simp_all add: unsafe_sid_len_def win_laws_def)
  show ?thesis
    using d objects
    by (simp add: set_owner_only_acl_impl_def 1 len win_quietD [OF quiet] add_access_allowed_ace_def Let_def
        set_named_security_def SIZE_OF_ACL_def SIZE_OF_ACCESS_ALLOWED_ACE_def SIZE_OF_U32_def owner_only_def)
qed

lemma secured_passes:
  assumes laws: "win_laws W user known" and quiet: "win_quiet W" and d: "ws_objects s p = Some d"
    and owner: "set_owner \<or> se_owner d = Some user"
    and later: "ws_objects t p = ws_objects (snd (set_owner_only_acl_impl W p directory set_owner s)) p"
  shows "fst (set_owner_only_acl_impl W p directory set_owner s) = Inr () \<and>
    (\<exists>d'. ws_objects (snd (set_owner_only_acl_impl W p directory set_owner s)) = (ws_objects s)(p \<mapsto> d') \<and>
       se_dacl d' = Some (owner_only user directory)) \<and>
    fst (validate_owner_only_acl W p label t) = Inr ()"
proof -
  obtain s1 where 1: "set_owner_only_acl_impl W p directory set_owner s = (Inr (), s1)"
      "ws_objects s1 = (ws_objects s)(p \<mapsto> d\<lparr>se_owner := (if set_owner then Some user else se_owner d),
        se_dacl := Some (owner_only user directory), se_control := se_control d OR SE_DACL_PROTECTED\<rparr>)"
    using set_acl_effect [OF laws quiet d] by blast
  let ?d = "d\<lparr>se_owner := (if set_owner then Some user else se_owner d),
        se_dacl := Some (owner_only user directory), se_control := se_control d OR SE_DACL_PROTECTED\<rparr>"
  have "(se_control d OR SE_DACL_PROTECTED) AND SE_DACL_PROTECTED = SE_DACL_PROTECTED"
    by (rule bit_word_eqI) (auto simp: bit_and_iff bit_or_iff)
  then have "private_to user {user, known LocalSystem, known BuiltinAdministrators} ?d"
    using owner by (auto simp: private_to_def owner_only_def ace_admissible_def SE_DACL_PROTECTED_def)
  moreover have "ws_objects t p = Some ?d" using later 1 by simp
  ultimately obtain t' where "validate_owner_only_acl W p label t = (Inr (), t')"
    using validate_acl_complete [OF laws quiet] by blast
  with 1 show ?thesis by auto
qed

section \<open>A sample\<close>

definition sample_win32 :: win32 where
  "sample_win32 = \<lparr>wn_open_token = (\<lambda>_. True), wn_token_size = (\<lambda>_. 44), wn_last_error = (\<lambda>_. 122),
     wn_token_user = (\<lambda>_ _. Some (Some [1, 5, 21])), wn_known_size = (\<lambda>_ _. 3),
     wn_known_sid = (\<lambda>_ kind _. Some (replicate 3 (case kind of LocalSystem \<Rightarrow> 18 | BuiltinAdministrators \<Rightarrow> 32), 3)),
     wn_sid_length = (\<lambda>s. of_nat (length s)), wn_equal_sid = (=), wn_acl_call = (\<lambda>_. True),
     wn_security_call = (\<lambda>_. 0)\<rparr>"

definition sample_known :: "known_sid \<Rightarrow> sid" where
  "sample_known kind = replicate 3 (case kind of LocalSystem \<Rightarrow> 18 | BuiltinAdministrators \<Rightarrow> 32)"

text \<open>A directory of the user whose list is inherited and lets everyone in.\<close>

definition sample_win_sys :: win_sys where
  "sample_win_sys = \<lparr>ws_objects = [[100] \<mapsto> \<lparr>se_owner = Some [1, 5, 21], se_dacl = Some
     [\<lparr>ac_type = 0, ac_inherit = 0, ac_mask = 1, ac_sid = [1, 1, 0]\<rparr>], se_control = 0\<rparr>], ws_calls = 0\<rparr>"

lemma sample_object: "ws_objects sample_win_sys [100] = Some \<lparr>se_owner = Some [1, 5, 21], se_dacl = Some
     [\<lparr>ac_type = 0, ac_inherit = 0, ac_mask = 1, ac_sid = [1, 1, 0]\<rparr>], se_control = 0\<rparr>"
  by (simp add: sample_win_sys_def)

lemma sample_win_quiet: "win_quiet sample_win32"
  by (simp add: win_quiet_def sample_win32_def)

section \<open>Properties\<close>

text \<open>
  C36. What passes the check is private: whatever calls fail, \<open>validate_owner_only_acl\<close> accepts an object
  only if the current user owns it, its list is protected from inheritance, and every entry of a
  type that can allow access is a plain one for the user, the system or the administrators; the
  check changes nothing.
\<close>

theorem acl_admits_only_allowed:
  assumes "win_laws W user known" "validate_owner_only_acl W p label s = (Inr (), s')"
  shows "\<exists>d aces. ws_objects s p = Some d \<and> se_owner d = Some user \<and> se_dacl d = Some aces \<and>
    se_control d AND SE_DACL_PROTECTED \<noteq> 0 \<and> ws_objects s' = ws_objects s \<and>
    list_all (ace_admissible {user, known LocalSystem, known BuiltinAdministrators}) aces"
  using validate_acl_Inr [OF assms] by (auto simp: private_to_def split: option.splits)

text \<open>
  What is secured passes the check: where no call fails, \<open>set_owner_only_acl\<close> gives any existing
  object, however open it was, a list of one entry for the current user and makes it the user's,
  changes no other object, and from then on, until the object is changed, every check succeeds;
  where only the list is set, as for \<open>inject\<close>, the same holds if the user owned the object.
\<close>

theorem secured_object_passes:
  assumes laws: "win_laws W user known" and quiet: "win_quiet W" and d: "ws_objects s p = Some d"
    and owner: "set_owner \<or> se_owner d = Some user"
    and later: "ws_objects t p = ws_objects (snd (set_owner_only_acl_impl W p directory set_owner s)) p"
  shows "fst (set_owner_only_acl_impl W p directory set_owner s) = Inr () \<and>
    (\<exists>d'. ws_objects (snd (set_owner_only_acl_impl W p directory set_owner s)) = (ws_objects s)(p \<mapsto> d') \<and>
       se_dacl d' = Some (owner_only user directory)) \<and>
    fst (validate_owner_only_acl W p label t) = Inr ()"
  by (rule secured_passes) (fact assms)+

lemma sample_win_laws: "win_laws sample_win32 [1, 5, 21] sample_known"
  by (simp add: win_laws_def sample_win32_def sample_known_def split: known_sid.split)

theorem secured_object_passes_witness:
  "fst (validate_owner_only_acl sample_win32 [100] ''master key'' sample_win_sys) \<noteq> Inr () \<and>
   fst (validate_owner_only_acl sample_win32 [100] ''master key''
     (snd (set_owner_only_acl sample_win32 [100] True sample_win_sys))) = Inr ()"
proof -
  have "fst (validate_owner_only_acl sample_win32 [100] ''master key'' sample_win_sys) \<noteq> Inr ()"
    using validate_acl_Inr [OF sample_win_laws, of "[100]" "''master key''" sample_win_sys] sample_object
    by (cases "validate_owner_only_acl sample_win32 [100] ''master key'' sample_win_sys")
       (auto simp: private_to_def)
  moreover have "fst (validate_owner_only_acl sample_win32 [100] ''master key''
     (snd (set_owner_only_acl sample_win32 [100] True sample_win_sys))) = Inr ()"
    using secured_object_passes [OF sample_win_laws sample_win_quiet sample_object, of True
        "snd (set_owner_only_acl sample_win32 [100] True sample_win_sys)" True "''master key''"]
    by (simp add: set_owner_only_acl_def)
  ultimately show ?thesis ..
qed

theorem acl_admits_only_allowed_witness:
  "\<exists>s' d. validate_owner_only_acl sample_win32 [100] ''master key''
       (snd (set_owner_only_acl sample_win32 [100] True sample_win_sys)) = (Inr (), s') \<and>
     ws_objects s' [100] = Some d \<and> se_owner d = Some [1, 5, 21]"
proof -
  define t where "t = snd (set_owner_only_acl sample_win32 [100] True sample_win_sys)"
  have "fst (validate_owner_only_acl sample_win32 [100] ''master key'' t) = Inr ()"
    unfolding t_def set_owner_only_acl_def
    by (rule secured_passes [OF sample_win_laws sample_win_quiet sample_object _ refl, THEN conjunct2, THEN conjunct2])
       simp
  then obtain s' where run: "validate_owner_only_acl sample_win32 [100] ''master key'' t = (Inr (), s')"
    by (metis prod.collapse)
  from acl_admits_only_allowed [OF sample_win_laws run] run show ?thesis by (auto simp: t_def)
qed

end
