(* ===== verification/TpmSession.thy ===== *)
theory TpmSession
  imports TpmStore PassphraseStore
begin

text \<open>
  \<open>EsapiTpmBackend\<close> of \<open>crates/avault-store/src/lib.rs\<close>, which seals the master key with a TPM: how a
  context is opened, the templates, and how the objects a session creates are used and flushed.

  \<^item> The package \<open>tss_esapi\<close> is the record \<open>tss\<close> over a state of the TPM, in which transient objects
    have numbered handles. A session that \<open>execute_with_nullauth_session\<close> runs is between
    \<open>ts_enter_session\<close> and \<open>ts_leave_session\<close>.
  \<^item> The state is the file system, of which only the existence of a device file is looked up, with
    the state of the TPM. \<open>session_backend\<close> is the backend as the store sees it.
\<close>

section \<open>The package\<close>

datatype object_attribute = FixedTpm | FixedParent | SensitiveDataOrigin | UserWithAuth | Decrypt | Restricted

text \<open>
  The two templates, over built attributes and RSA parameters: a restricted RSA 2048 decryption key
  (AES-128-CFB, SHA-256 names), and a sealed object with no scheme.
\<close>

datatype ('at, 'rsa) public_template = RsaPrimary 'at 'rsa | KeyedHashSealed 'at

record ('x, 'at, 'rsa, 'pub, 'priv) tss =
  ts_tcti_from_env :: "string res"
  ts_tcti_from_str :: "string \<Rightarrow> string res"
  ts_connect :: "string \<Rightarrow> 'x \<Rightarrow> unit res \<times> 'x"
  ts_enter_session :: "'x \<Rightarrow> 'x"
  ts_leave_session :: "'x \<Rightarrow> 'x"
  ts_build_attributes :: "object_attribute list \<Rightarrow> 'at res"
  ts_build_rsa_parameters :: "'rsa res"
  ts_build_public :: "('at, 'rsa) public_template \<Rightarrow> 'pub res"
  ts_create_primary :: "'pub \<Rightarrow> 'x \<Rightarrow> nat res \<times> 'x"
  ts_sensitive_data :: "bytes \<Rightarrow> bytes res"
  ts_create :: "nat \<Rightarrow> 'pub \<Rightarrow> bytes \<Rightarrow> 'x \<Rightarrow> ('pub \<times> 'priv) res \<times> 'x"
  ts_load :: "nat \<Rightarrow> 'priv \<Rightarrow> 'pub \<Rightarrow> 'x \<Rightarrow> nat res \<times> 'x"
  ts_unseal :: "nat \<Rightarrow> 'x \<Rightarrow> bytes res \<times> 'x"
  ts_flush_context :: "nat \<Rightarrow> 'x \<Rightarrow> unit res \<times> 'x"
  ts_marshal_public :: "'pub \<Rightarrow> bytes res"
  ts_marshal_private :: "'priv \<Rightarrow> bytes res"
  ts_unmarshal_public :: "bytes \<Rightarrow> 'pub res"
  ts_unmarshal_private :: "bytes \<Rightarrow> 'priv res"

section \<open>The templates\<close>

(* SRC store primary_public_template *)
definition primary_public_template :: "('x, 'at, 'rsa, 'pub, 'priv) tss \<Rightarrow> 'pub res" where
  "primary_public_template T =
     and_then (with_context ''failed to build TPM primary attributes'' (ts_build_attributes T
        [FixedTpm, FixedParent, SensitiveDataOrigin, UserWithAuth, Decrypt, Restricted])) (\<lambda>attributes.
     and_then (with_context ''failed to build TPM primary RSA parameters'' (ts_build_rsa_parameters T)) (\<lambda>rsa.
     with_context ''failed to build TPM primary template'' (ts_build_public T (RsaPrimary attributes rsa))))"

(* SRC store sealed_data_public_template *)
definition sealed_data_public_template :: "('x, 'at, 'rsa, 'pub, 'priv) tss \<Rightarrow> 'pub res" where
  "sealed_data_public_template T =
     and_then (with_context ''failed to build TPM sealed-object attributes'' (ts_build_attributes T
        [FixedTpm, FixedParent, UserWithAuth])) (\<lambda>attributes.
     with_context ''failed to build TPM sealed-object template'' (ts_build_public T (KeyedHashSealed attributes)))"

section \<open>Sessions\<close>

definition dev_tpmrm0 :: path where
  "dev_tpmrm0 = as_bytes ''/dev/tpmrm0''"

definition on_tpm :: "('x \<Rightarrow> 'a \<times> 'x) \<Rightarrow> fs \<times> 'x \<Rightarrow> 'a \<times> (fs \<times> 'x)" where
  "on_tpm f w = (let (r, x) = f (snd w) in (r, (fst w, x)))"

(* SRC store open_tpm_context *)
definition open_tpm_context ::
    "('x, 'at, 'rsa, 'pub, 'priv) tss \<Rightarrow> 'o os_scheme \<Rightarrow> environment \<Rightarrow> fs \<times> 'x \<Rightarrow> unit res \<times> (fs \<times> 'x)" where
  "open_tpm_context T os env w =
     then_st (if env ''TPM2TOOLS_TCTI'' \<noteq> None \<or> env ''TCTI'' \<noteq> None \<or> env ''TEST_TCTI'' \<noteq> None
              then (with_context ''invalid TPM TCTI configuration'' (ts_tcti_from_env T), w)
              else let (ex, s) = path_exists os dev_tpmrm0 (fst w)
                   in (with_context ''invalid TPM device path''
                         (ts_tcti_from_str T (if ex then ''device:/dev/tpmrm0'' else ''device:/dev/tpm0'')), (s, snd w)))
       (\<lambda>tcti w. context_st ''failed to initialize TPM context'' (on_tpm (ts_connect T tcti) w))"

definition with_nullauth_session :: "('x, 'at, 'rsa, 'pub, 'priv) tss \<Rightarrow> ('x \<Rightarrow> 'a res \<times> 'x) \<Rightarrow> 'x \<Rightarrow> 'a res \<times> 'x" where
  "with_nullauth_session T f x = (let (r, x) = f (ts_enter_session T x) in (r, ts_leave_session T x))"

(* SRC store flush_tpm_object *)
definition flush_tpm_object :: "('x, 'at, 'rsa, 'pub, 'priv) tss \<Rightarrow> nat \<Rightarrow> 'x \<Rightarrow> unit res \<times> 'x" where
  "flush_tpm_object T handle = ts_flush_context T handle"

(* SRC store create_tpm_primary *)
definition create_tpm_primary :: "('x, 'at, 'rsa, 'pub, 'priv) tss \<Rightarrow> 'x \<Rightarrow> nat res \<times> 'x" where
  "create_tpm_primary T x =
     then_st (primary_public_template T, x) (\<lambda>template x.
     context_st ''failed to create TPM primary context'' (ts_create_primary T template x))"

(* SRC store with_tpm_primary *)
definition with_tpm_primary ::
    "('x, 'at, 'rsa, 'pub, 'priv) tss \<Rightarrow> (nat \<Rightarrow> 'x \<Rightarrow> 'a res \<times> 'x) \<Rightarrow> 'x \<Rightarrow> 'a res \<times> 'x" where
  "with_tpm_primary T f x =
     then_st (create_tpm_primary T x) (\<lambda>primary x.
     let (result, x) = f primary x;
         (flush_result, x) = context_st ''failed to flush TPM primary context'' (flush_tpm_object T primary x)
     in (case (result, flush_result) of
           (Inr v, Inr _) \<Rightarrow> Inr v
         | (Inl e, _) \<Rightarrow> Inl e
         | (Inr _, Inl e) \<Rightarrow> Inl e, x))"

section \<open>Sealing and unsealing\<close>

(* SRC store 1167-1190 EsapiTpmBackend::seal_master_key *)
definition seal_under_primary ::
    "('x, 'at, 'rsa, 'pub, 'priv) tss \<Rightarrow> 'e core_env_scheme \<Rightarrow> bytes \<Rightarrow> nat \<Rightarrow> 'x \<Rightarrow> tpm_blob res \<times> 'x" where
  "seal_under_primary T C master_key primary x =
     then_st (with_context ''invalid TPM secret'' (ts_sensitive_data T master_key), x) (\<lambda>sensitive x.
     then_st (sealed_data_public_template T, x) (\<lambda>template x.
     then_st (context_st ''failed to seal master key with TPM'' (ts_create T primary template sensitive x))
       (\<lambda>(out_public, out_private) x.
     then_st (with_context ''failed to marshal TPM public blob'' (ts_marshal_public T out_public), x) (\<lambda>public_blob x.
     then_st (with_context ''failed to marshal TPM private blob'' (ts_marshal_private T out_private), x)
       (\<lambda>private_blob x.
     (Inr \<lparr>tb_scheme = TPM_STORE_SCHEME, tb_hierarchy = ''owner'', tb_public = store_b64 C public_blob,
           tb_private = store_b64 C private_blob\<rparr>, x))))))"

(* SRC store EsapiTpmBackend::seal_master_key *)
definition seal_master_key ::
    "('x, 'at, 'rsa, 'pub, 'priv) tss \<Rightarrow> 'e core_env_scheme \<Rightarrow> 'o os_scheme \<Rightarrow> environment \<Rightarrow> bytes \<Rightarrow> fs \<times> 'x
     \<Rightarrow> tpm_blob res \<times> (fs \<times> 'x)" where
  "seal_master_key T C os env master_key w =
     then_st (open_tpm_context T os env w) (\<lambda>_ w.
     on_tpm (with_nullauth_session T (with_tpm_primary T (seal_under_primary T C master_key))) w)"

(* SRC store validate_tpm_blob *)
definition validate_tpm_blob :: "tpm_blob \<Rightarrow> unit res" where
  "validate_tpm_blob blob =
     (if tb_scheme blob \<noteq> TPM_STORE_SCHEME \<or> tb_hierarchy blob \<noteq> ''owner''
      then bail ''unrecognized TPM master key'' else Inr ())"

(* SRC store 1210-1231 EsapiTpmBackend::unseal_master_key *)
definition unseal_under_primary ::
    "('x, 'at, 'rsa, 'pub, 'priv) tss \<Rightarrow> 'priv \<Rightarrow> 'pub \<Rightarrow> nat \<Rightarrow> 'x \<Rightarrow> bytes res \<times> 'x" where
  "unseal_under_primary T private public primary x =
     then_st (context_st ''failed to load TPM master key blob'' (ts_load T primary private public x)) (\<lambda>sealed x.
     let (result, x) = context_st ''failed to unseal TPM master key'' (ts_unseal T sealed x);
         result = and_then result (\<lambda>bs.
           if length bs \<noteq> MASTER_KEY_BYTES then bail ''unsealed TPM master key has invalid length'' else Inr bs)
     in then_st (context_st ''failed to flush TPM sealed object'' (flush_tpm_object T sealed x)) (\<lambda>_ x.
        (result, x)))"

(* SRC store EsapiTpmBackend::unseal_master_key *)
definition unseal_master_key ::
    "('x, 'at, 'rsa, 'pub, 'priv) tss \<Rightarrow> 'e core_env_scheme \<Rightarrow> 'o os_scheme \<Rightarrow> environment \<Rightarrow> tpm_blob \<Rightarrow> fs \<times> 'x
     \<Rightarrow> bytes res \<times> (fs \<times> 'x)" where
  "unseal_master_key T C os env blob w =
     then_st (validate_tpm_blob blob, w) (\<lambda>_ w.
     then_st (store_unb64 C (tb_public blob) ''public'', w) (\<lambda>public_blob w.
     then_st (store_unb64 C (tb_private blob) ''private'', w) (\<lambda>private_blob w.
     then_st (with_context ''failed to unmarshal TPM public blob'' (ts_unmarshal_public T public_blob), w) (\<lambda>public w.
     then_st (with_context ''failed to unmarshal TPM private blob'' (ts_unmarshal_private T private_blob), w)
       (\<lambda>private w.
     then_st (open_tpm_context T os env w) (\<lambda>_ w.
     on_tpm (with_nullauth_session T (with_tpm_primary T (unseal_under_primary T private public))) w))))))"

text \<open>The backend as the store sees it: each operation opens a context of its own.\<close>

definition session_backend ::
    "('x, 'at, 'rsa, 'pub, 'priv) tss \<Rightarrow> 'e core_env_scheme \<Rightarrow> 'o os_scheme \<Rightarrow> environment \<Rightarrow> (nat \<Rightarrow> 'x)
     \<Rightarrow> (tpm_blob \<Rightarrow> bytes option) \<Rightarrow> (bytes \<Rightarrow> tpm_blob option) \<Rightarrow> tpm_env" where
  "session_backend T C os env tpm to_vec from_slice = \<lparr>
     tpm_seal = (\<lambda>k s. let (r, w) = seal_master_key T C os env k (s, tpm (calls s)) in (r, fst w)),
     tpm_unseal = (\<lambda>b s. let (r, w) = unseal_master_key T C os env b (s, tpm (calls s)) in (r, fst w)),
     tpm_to_vec = to_vec, tpm_from_slice = from_slice\<rparr>"

section \<open>What the code relies on of the TPM\<close>

text \<open>
  \<open>live\<close> are the handles of the transient objects. Creating a primary and loading make one that was not
  there, flushing removes the one it is given, and nothing else adds or removes any.
\<close>

definition tss_handles :: "('x, 'at, 'rsa, 'pub, 'priv) tss \<Rightarrow> ('x \<Rightarrow> nat set) \<Rightarrow> bool" where
  "tss_handles T live \<longleftrightarrow>
     (\<forall>p x. case ts_create_primary T p x of
        (Inr h, x') \<Rightarrow> h \<notin> live x \<and> live x' = insert h (live x) | (Inl _, x') \<Rightarrow> live x' = live x) \<and>
     (\<forall>h q p x. case ts_load T h q p x of
        (Inr h', x') \<Rightarrow> h' \<notin> live x \<and> live x' = insert h' (live x) | (Inl _, x') \<Rightarrow> live x' = live x) \<and>
     (\<forall>h x. case ts_flush_context T h x of
        (Inr _, x') \<Rightarrow> live x' = live x - {h} | (Inl _, x') \<Rightarrow> live x' = live x) \<and>
     (\<forall>h t s x. live (snd (ts_create T h t s x)) = live x) \<and> (\<forall>h x. live (snd (ts_unseal T h x)) = live x) \<and>
     (\<forall>t x. live (snd (ts_connect T t x)) = live x) \<and>
     (\<forall>x. live (ts_enter_session T x) = live x \<and> live (ts_leave_session T x) = live x)"

text \<open>
  \<open>secret\<close> is what the pair of a public and a private part was made from, \<open>object\<close> what a loaded object
  holds; the two parts are read back from what they are written as.
\<close>

definition tss_contents ::
    "('x, 'at, 'rsa, 'pub, 'priv) tss \<Rightarrow> ('pub \<Rightarrow> 'priv \<Rightarrow> bytes) \<Rightarrow> ('x \<Rightarrow> nat \<Rightarrow> bytes) \<Rightarrow> bool" where
  "tss_contents T secret object \<longleftrightarrow>
     (\<forall>s d. ts_sensitive_data T s = Inr d \<longrightarrow> d = s) \<and>
     (\<forall>h t d x p q x'. ts_create T h t d x = (Inr (p, q), x') \<longrightarrow> secret p q = d) \<and>
     (\<forall>h q p x h' x'. ts_load T h q p x = (Inr h', x') \<longrightarrow> object x' h' = secret p q) \<and>
     (\<forall>h x d x'. ts_unseal T h x = (Inr d, x') \<longrightarrow> d = object x h) \<and>
     (\<forall>p b p'. ts_marshal_public T p = Inr b \<longrightarrow> ts_unmarshal_public T b = Inr p' \<longrightarrow> p' = p) \<and>
     (\<forall>q b q'. ts_marshal_private T q = Inr b \<longrightarrow> ts_unmarshal_private T b = Inr q' \<longrightarrow> q' = q)"

section \<open>Objects are flushed\<close>

lemma on_tpm_snd [simp]: "snd (snd (on_tpm f w)) = snd (f (snd w))" "fst (snd (on_tpm f w)) = fst w"
    "fst (on_tpm f w) = fst (f (snd w))"
  by (simp_all add: on_tpm_def case_prod_unfold Let_def)

definition flushing :: "('x, 'at, 'rsa, 'pub, 'priv) tss \<Rightarrow> bool" where
  "flushing T \<longleftrightarrow> (\<forall>h x. is_ok (fst (ts_flush_context T h x)))"

locale tpm_objects =
  fixes T :: "('x, 'at, 'rsa, 'pub, 'priv) tss" and live :: "'x \<Rightarrow> nat set"
  assumes handles: "tss_handles T live"
begin

text \<open>A call leaves the objects \<open>l\<close> when it succeeds, and always when flushing never fails.\<close>

definition leaves :: "nat set \<Rightarrow> 'a res \<times> 'x \<Rightarrow> bool" where
  "leaves l m \<longleftrightarrow> (is_ok (fst m) \<or> flushing T \<longrightarrow> live (snd m) = l)"

lemma leaves_pair [simp]: "leaves l (r, x) \<longleftrightarrow> (is_ok r \<or> flushing T \<longrightarrow> live x = l)"
  by (simp add: leaves_def)

lemma leaves_context [simp]: "leaves l (context_st m r) = leaves l r"
  by (cases "fst r") (simp_all add: leaves_def with_context_def)

lemma leaves_then:
  assumes "leaves l m" "\<And>v x. live x = l \<Longrightarrow> leaves l (f v x)"
  shows "leaves l (then_st m f)"
  using assms by (cases m; cases "fst m") auto

lemma leaves_case: "(\<And>a b. leaves l (f a b x)) \<Longrightarrow> leaves l ((case v of (a, b) \<Rightarrow> f a b) x)"
  by (cases v) simp

lemma quiet_calls [simp]:
  "live (snd (ts_create T h t s x)) = live x" "live (snd (ts_unseal T h x)) = live x"
  "live (snd (ts_connect T c x)) = live x" "live (ts_enter_session T x) = live x"
  "live (ts_leave_session T x) = live x"
  using handles by (simp_all add: tss_handles_def)

lemma flush_live:
  assumes "ts_flush_context T h x = (r, x')"
  shows "live x' = (if is_ok r then live x - {h} else live x)"
proof -
  have "case ts_flush_context T h x of (Inr _, x') \<Rightarrow> live x' = live x - {h} | (Inl _, x') \<Rightarrow> live x' = live x"
    using handles unfolding tss_handles_def by (elim conjE) (erule allE, erule allE, assumption)
  then show ?thesis using assms by (cases r) simp_all
qed

lemma created_live:
  assumes "create_tpm_primary T x = (Inr h, x1)"
  shows "h \<notin> live x" "live x1 = insert h (live x)"
proof -
  obtain t where t: "ts_create_primary T t x = (Inr h, x1)"
    using assms unfolding create_tpm_primary_def by (auto simp: res_simps)
  have "case ts_create_primary T t x of
      (Inr h, x') \<Rightarrow> h \<notin> live x \<and> live x' = insert h (live x) | (Inl _, x') \<Rightarrow> live x' = live x"
    using handles unfolding tss_handles_def by (elim conjE) (erule allE, erule allE, assumption)
  then show "h \<notin> live x" "live x1 = insert h (live x)" by (simp_all add: t)
qed

lemma not_created_live:
  assumes "create_tpm_primary T x = (Inl e, x1)"
  shows "live x1 = live x"
proof (cases "primary_public_template T")
  case (Inl e)
  then show ?thesis using assms by (auto simp: create_tpm_primary_def)
next
  case (Inr t)
  have "case ts_create_primary T t x of
      (Inr h, x') \<Rightarrow> h \<notin> live x \<and> live x' = insert h (live x) | (Inl _, x') \<Rightarrow> live x' = live x"
    using handles unfolding tss_handles_def by (elim conjE) (erule allE, erule allE, assumption)
  then show ?thesis
    using assms Inr by (auto simp: create_tpm_primary_def context_st_def with_context_def split: prod.splits sum.splits)
qed

lemma loaded_live:
  assumes "ts_load T h q p x = (r, x1)"
  shows "case r of Inr s \<Rightarrow> s \<notin> live x \<and> live x1 = insert s (live x) | Inl _ \<Rightarrow> live x1 = live x"
proof -
  have "case ts_load T h q p x of
      (Inr h', x') \<Rightarrow> h' \<notin> live x \<and> live x' = insert h' (live x) | (Inl _, x') \<Rightarrow> live x' = live x"
    using handles unfolding tss_handles_def by (elim conjE) (erule allE, erule allE, erule allE, erule allE, assumption)
  then show ?thesis by (cases r) (simp_all add: assms)
qed

lemma flushing_ok: "flushing T \<Longrightarrow> ts_flush_context T h x = (r, x') \<Longrightarrow> is_ok r"
  unfolding flushing_def by (metis fst_conv)

lemma primary_leaves:
  assumes f: "\<And>h y. leaves (live y) (f h y)"
  shows "leaves (live x) (with_tpm_primary T f x)"
proof -
  obtain r x1 where 1: "create_tpm_primary T x = (r, x1)" by (metis surj_pair)
  show ?thesis
  proof (cases r)
    case (Inl e)
    then show ?thesis using 1 not_created_live by (simp add: with_tpm_primary_def)
  next
    case (Inr h)
    obtain v x2 where 2: "f h x1 = (v, x2)" by (metis surj_pair)
    obtain u x3 where 3: "ts_flush_context T h x2 = (u, x3)" by (metis surj_pair)
    have "is_ok v \<or> flushing T \<longrightarrow> live x2 = insert h (live x)"
      using f [of x1 h] 2 created_live [OF 1 [unfolded Inr]] by simp
    moreover have "live x3 = (if is_ok u then live x2 - {h} else live x2)" by (rule flush_live [OF 3])
    moreover have "h \<notin> live x" by (rule created_live [OF 1 [unfolded Inr]])
    ultimately show ?thesis
      using flushing_ok [OF _ 3]
      by (cases v; cases u) (auto simp: with_tpm_primary_def 1 Inr 2 3 flush_tpm_object_def)
  qed
qed

lemma seal_leaves: "leaves (live x) (seal_under_primary T C k h x)"
  unfolding seal_under_primary_def by (intro leaves_then leaves_case) (simp_all add: leaves_def)

lemma unseal_leaves: "leaves (live x) (unseal_under_primary T q p h x)"
proof -
  obtain r x1 where 1: "ts_load T h q p x = (r, x1)" by (metis surj_pair)
  note loaded = loaded_live [OF 1]
  show ?thesis
  proof (cases r)
    case (Inl e)
    then show ?thesis using loaded by (simp add: unseal_under_primary_def 1)
  next
    case (Inr s)
    obtain v x2 where 2: "ts_unseal T s x1 = (v, x2)" by (metis surj_pair)
    obtain u x3 where 3: "ts_flush_context T s x2 = (u, x3)" by (metis surj_pair)
    have "live x2 = live x1" using quiet_calls(2) [of s x1] by (simp add: 2)
    with flush_live [OF 3] loaded Inr have "is_ok u \<Longrightarrow> live x3 = live x" by simp
    then show ?thesis
      using flushing_ok [OF _ 3]
      by (cases u) (auto simp: unseal_under_primary_def 1 Inr 2 3 flush_tpm_object_def Let_def
          context_st_def)
  qed
qed

lemma session_leaves: "(\<And>y. leaves (live y) (f y)) \<Longrightarrow> leaves (live x) (with_nullauth_session T f x)"
  unfolding with_nullauth_session_def by (auto simp: leaves_def case_prod_unfold Let_def)

lemma open_live: "live (snd (snd (open_tpm_context T os env w))) = live (snd w)"
proof -
  have "live (snd (snd (then_st (r, v) (\<lambda>tcti w. context_st m (on_tpm (ts_connect T tcti) w))))) = live (snd v)"
    for r :: "string res" and v :: "fs \<times> 'x" and m
    by (cases r) simp_all
  then show ?thesis by (simp add: open_tpm_context_def Let_def case_prod_unfold)
qed

lemma world_leaves:
  assumes "live (snd (snd m)) = l"
    and "\<And>v w. live (snd w) = l \<Longrightarrow> leaves l (fst (f v w), snd (snd (f v w)))"
  shows "leaves l (fst (then_st m f), snd (snd (then_st m f)))"
  using assms by (cases m; cases "fst m") auto

lemma world_pure:
  assumes "live (snd w) = l" "\<And>v. leaves l (fst (f v w), snd (snd (f v w)))"
  shows "leaves l (fst (then_st (r, w) f), snd (snd (then_st (r, w) f)))"
  using assms by (cases r) auto

lemma on_session_leaves:
  "(\<And>h y. leaves (live y) (f h y)) \<Longrightarrow>
   leaves (live (snd w)) (fst (on_tpm (with_nullauth_session T (with_tpm_primary T f)) w),
     snd (snd (on_tpm (with_nullauth_session T (with_tpm_primary T f)) w)))"
  using session_leaves [of "with_tpm_primary T f" "snd w", OF primary_leaves] by simp

lemma backend_leaves:
  "leaves (live (snd w)) (fst (seal_master_key T C os env k w), snd (snd (seal_master_key T C os env k w)))"
  "leaves (live (snd w)) (fst (unseal_master_key T C os env b w), snd (snd (unseal_master_key T C os env b w)))"
proof -
  show "leaves (live (snd w)) (fst (seal_master_key T C os env k w), snd (snd (seal_master_key T C os env k w)))"
    unfolding seal_master_key_def
    by (rule world_leaves [OF open_live], erule subst, rule on_session_leaves, rule seal_leaves)
  show "leaves (live (snd w)) (fst (unseal_master_key T C os env b w), snd (snd (unseal_master_key T C os env b w)))"
    unfolding unseal_master_key_def
    by (rule world_pure, rule refl)+
       (rule world_leaves [OF open_live], erule subst, rule on_session_leaves, rule unseal_leaves)
qed

end

section \<open>What is sealed is what is unsealed\<close>

lemma with_tpm_primary_Inr:
  assumes "with_tpm_primary T f x = (Inr v, x')"
  shows "\<exists>h y y'. f h y = (Inr v, y')"
proof -
  obtain h y where created: "create_tpm_primary T x = (Inr h, y)"
      and rest: "(let (result, x) = f h y;
         (flush_result, x) = context_st ''failed to flush TPM primary context'' (flush_tpm_object T h x)
     in (case (result, flush_result) of
           (Inr v, Inr _) \<Rightarrow> Inr v | (Inl e, _) \<Rightarrow> Inl e | (Inr _, Inl e) \<Rightarrow> Inl e, x)) = (Inr v, x')"
    using assms unfolding with_tpm_primary_def then_st_eq_Inr by blast
  obtain r y' where f: "f h y = (r, y')" by (metis surj_pair)
  show ?thesis
  proof (cases r)
    case (Inl e)
    then show ?thesis using rest by (simp add: f Let_def case_prod_unfold)
  next
    case (Inr v')
    then have "v' = v" using rest by (auto simp: f Let_def case_prod_unfold split: sum.splits)
    with Inr f show ?thesis by blast
  qed
qed

lemma nullauth_primary_Inr:
  assumes "fst (on_tpm (with_nullauth_session T (with_tpm_primary T f)) w) = Inr v"
  shows "\<exists>h y y'. f h y = (Inr v, y')"
proof (rule with_tpm_primary_Inr)
  show "with_tpm_primary T f (ts_enter_session T (snd w)) =
      (Inr v, snd (with_tpm_primary T f (ts_enter_session T (snd w))))"
    using assms by (simp add: with_nullauth_session_def case_prod_unfold Let_def prod_eq_iff)
qed

lemma then_st_fst_Inr: "fst (then_st m f) = Inr v \<Longrightarrow> \<exists>u w. m = (Inr u, w) \<and> fst (f u w) = Inr v"
  by (cases m; cases "fst m") auto

lemma sealed_blob:
  assumes laws: "tss_contents T secret object" and seal: "fst (seal_master_key T C os env k w) = Inr blob"
  shows "\<exists>p q pb qb. secret p q = k \<and> ts_marshal_public T p = Inr pb \<and> ts_marshal_private T q = Inr qb \<and>
     blob = \<lparr>tb_scheme = TPM_STORE_SCHEME, tb_hierarchy = ''owner'', tb_public = store_b64 C pb,
       tb_private = store_b64 C qb\<rparr>"
proof -
  obtain w1 where "fst (on_tpm (with_nullauth_session T (with_tpm_primary T (seal_under_primary T C k))) w1) =
      Inr blob"
    using then_st_fst_Inr [OF seal [unfolded seal_master_key_def]] by blast
  then obtain h y y' where under: "seal_under_primary T C k h y = (Inr blob, y')"
    using nullauth_primary_Inr by metis
  obtain d t p q y1 y2 pb qb where d: "ts_sensitive_data T k = Inr d"
      and c: "ts_create T h t d y1 = (Inr (p, q), y2)"
      and m: "ts_marshal_public T p = Inr pb" "ts_marshal_private T q = Inr qb"
      and b: "blob = \<lparr>tb_scheme = TPM_STORE_SCHEME, tb_hierarchy = ''owner'', tb_public = store_b64 C pb,
        tb_private = store_b64 C qb\<rparr>"
    using under unfolding seal_under_primary_def by (auto simp: res_simps)
  have "d = k" using laws d by (simp add: tss_contents_def)
  moreover have "secret p q = d"
    using laws c unfolding tss_contents_def by (elim conjE) metis
  ultimately show ?thesis using m b by blast
qed

lemma unsealed_object:
  assumes laws: "tss_contents T secret object" and under: "unseal_under_primary T q p h y = (Inr k, y')"
  shows "k = secret p q" "length k = MASTER_KEY_BYTES"
proof -
  obtain h' y1 where load: "ts_load T h q p y = (Inr h', y1)"
    using under unfolding unseal_under_primary_def by (auto simp: res_simps)
  obtain r y2 where unseal: "ts_unseal T h' y1 = (r, y2)" by (metis surj_pair)
  have r: "r = Inr k \<and> length k = MASTER_KEY_BYTES"
    using under unfolding unseal_under_primary_def
    by (cases r) (auto simp: load unseal res_simps context_st_def Let_def split: if_splits sum.splits)
  have "k = object y1 h'" using laws unseal r unfolding tss_contents_def by (elim conjE) metis
  moreover have "object y1 h' = secret p q" using laws load unfolding tss_contents_def by (elim conjE) metis
  ultimately show "k = secret p q" "length k = MASTER_KEY_BYTES" using r by simp_all
qed

section \<open>The backend under the stores\<close>

lemma nodes_of_open:
  fixes T :: "('x, 'at, 'rsa, 'pub, 'priv) tss"
  shows "nodes (fst (snd (open_tpm_context T os env w))) = nodes (fst w)"
proof -
  have "nodes (fst (snd (then_st (r, v) (\<lambda>tcti w. context_st m (on_tpm (ts_connect T tcti) w))))) = nodes (fst v)"
    for r :: "string res" and v :: "fs \<times> 'x" and m
    by (cases r) simp_all
  then show ?thesis
    by (simp add: open_tpm_context_def Let_def case_prod_unfold nodes_path_exists)
qed

lemma nodes_then_world:
  "nodes (fst (snd m)) = n \<Longrightarrow> (\<And>v w. nodes (fst w) = n \<Longrightarrow> nodes (fst (snd (f v w))) = n) \<Longrightarrow>
   nodes (fst (snd (then_st m f))) = n"
  by (cases m; cases "fst m") auto

lemma backend_nodes:
  "nodes (fst (snd (seal_master_key T C os env k w))) = nodes (fst w)"
  "nodes (fst (snd (unseal_master_key T C os env b w))) = nodes (fst w)"
  unfolding seal_master_key_def unseal_master_key_def
  by (intro nodes_then_world; simp add: nodes_of_open)+

lemma unseal_seal:
  assumes laws: "tss_contents T secret object" and b64: "base64_correct C"
    and seal: "fst (seal_master_key T C os env k w) = Inr blob"
    and unseal: "fst (unseal_master_key T C os' env' blob w') = Inr k'"
  shows "k' = k"
proof -
  obtain p q pb qb where made: "secret p q = k" "ts_marshal_public T p = Inr pb"
      "ts_marshal_private T q = Inr qb"
      and blob: "blob = \<lparr>tb_scheme = TPM_STORE_SCHEME, tb_hierarchy = ''owner'', tb_public = store_b64 C pb,
        tb_private = store_b64 C qb\<rparr>"
    using sealed_blob [OF laws seal] by blast
  have decoded: "store_unb64 C (store_b64 C v) f = Inr v" for v f
    using b64 by (simp add: store_unb64_def store_b64_def base64_correct_def lib_res_def)
  obtain p' q' w2 where parts: "ts_unmarshal_public T pb = Inr p'" "ts_unmarshal_private T qb = Inr q'"
      and on: "fst (on_tpm (with_nullauth_session T (with_tpm_primary T (unseal_under_primary T q' p'))) w2) = Inr k'"
    using unseal unfolding unseal_master_key_def blob
    by (auto simp: decoded res_simps dest!: then_st_fst_Inr)
  obtain h y y' where "unseal_under_primary T q' p' h y = (Inr k', y')"
    using nullauth_primary_Inr [OF on] by blast
  then have "k' = secret p' q'" by (rule unsealed_object [OF laws])
  moreover have "p' = p" "q' = q"
    using laws made parts unfolding tss_contents_def by metis+
  ultimately show ?thesis using made by simp
qed

text \<open>
  C34. Whatever a TPM session goes through, sealing and unsealing the master key leave the TPM's
  transient objects as they were: always when they succeed, and on every error as well as long
  as flushing a context does not fail. The primary is flushed after an error of the work under
  it, and the loaded object after an error of unsealing it or a key of the wrong length.
\<close>

theorem tpm_objects_flushed:
  assumes "tss_handles T live"
  shows "(is_ok (fst (seal_master_key T C os env k w)) \<or> flushing T \<longrightarrow>
           live (snd (snd (seal_master_key T C os env k w))) = live (snd w)) \<and>
         (is_ok (fst (unseal_master_key T C os env b w)) \<or> flushing T \<longrightarrow>
           live (snd (snd (unseal_master_key T C os env b w))) = live (snd w))"
proof -
  note objects = tpm_objects.intro [OF assms]
  note left = tpm_objects.backend_leaves [OF objects, unfolded tpm_objects.leaves_def [OF objects] fst_conv snd_conv]
  show ?thesis by (intro conjI left)
qed

text \<open>
  The backend over TPM sessions is a backend as the stores rely on it: sealing and unsealing
  leave the files alone, and a key that is unsealed from a blob, in any later state and whatever
  device answers, is the key the blob was sealed from.
\<close>

lemma session_backend_lawful:
  assumes "tss_contents T secret object" and "base64_correct C"
    and "\<forall>b v. to_vec b = Some v \<longrightarrow> from_slice v = Some b"
  shows "tpm_laws (session_backend T C os env tpm to_vec from_slice)"
  unfolding tpm_laws_def
proof (intro conjI allI impI)
  let ?B = "session_backend T C os env tpm to_vec from_slice"
  show "nodes (snd (tpm_seal ?B k s)) = nodes s" for k s
    by (simp add: session_backend_def case_prod_unfold Let_def backend_nodes)
  show "nodes (snd (tpm_unseal ?B b s)) = nodes s" for b s
    by (simp add: session_backend_def case_prod_unfold Let_def backend_nodes)
  show "k' = k" if "fst (tpm_seal ?B k s) = Inr b" "fst (tpm_unseal ?B b s') = Inr k'" for k b k' s s'
    using that unseal_seal [OF assms(1,2)] by (simp add: session_backend_def case_prod_unfold Let_def)
  show "tpm_from_slice ?B v = Some b" if "tpm_to_vec ?B b = Some v" for b v
    using that assms(3) by (simp add: session_backend_def)
qed

text \<open>The contract of a backend for the policies of Linux, and the sessions that keep it.\<close>

locale tpm_backend =
  fixes B :: tpm_env
  assumes laws: "tpm_laws B"
begin

lemma opening_keeps:
  "tempfile_laws os \<Longrightarrow> keeps s (snd (load_or_create_linux_auto B os env s))"
  using load_or_create_linux_keeps [OF _ laws] by blast

lemma imported_is_loaded:
  "\<lbrakk>tempfile_laws os; fault os = (\<lambda>_. None); length key = MASTER_KEY_BYTES;
    import_linux_auto B os env key force s = (Inr (), s1); load_linux_auto B os env s1 = (Inr k, s2)\<rbrakk> \<Longrightarrow> k = key"
  by (rule linux_auto_import_then_load [OF _ laws])

end

locale tpm_sessions =
  fixes T :: "('x, 'at, 'rsa, 'pub, 'priv) tss" and secret object and C :: "'e core_env_scheme"
    and to_vec :: "tpm_blob \<Rightarrow> bytes option" and from_slice :: "bytes \<Rightarrow> tpm_blob option"
  assumes contents: "tss_contents T secret object" and base64: "base64_correct C"
    and json: "\<And>b v. to_vec b = Some v \<Longrightarrow> from_slice v = Some b"

sublocale tpm_sessions \<subseteq> backend: tpm_backend "session_backend T C os env tpm to_vec from_slice"
  for os env tpm
  by (rule tpm_backend.intro) (use session_backend_lawful contents base64 json in blast)

context tpm_sessions
begin

lemmas imported_is_loaded = backend.imported_is_loaded

end

text \<open>
  C35. A key imported with \<open>--store auto\<close> on Linux is the only key a later load returns, down to
  the sessions with the TPM: whatever state the TPM is in at each call, whatever it refuses, and
  whether the key went to the TPM, to the key file or to both, as long as the package keeps what it
  is given (\<open>tss_contents\<close>), base64 and the JSON of a blob read back, and the calls to the file system
  succeed.
\<close>

theorem session_import_then_load:
  assumes "tss_contents T secret object" and "base64_correct C"
    and "\<forall>b v. to_vec b = Some v \<longrightarrow> from_slice v = Some b"
    and "tempfile_laws os" and "fault os = (\<lambda>_. None)" and "length key = MASTER_KEY_BYTES"
    and "import_linux_auto (session_backend T C os env tpm to_vec from_slice) os env key force s = (Inr (), s1)"
    and "load_linux_auto (session_backend T C os env tpm to_vec from_slice) os env s1 = (Inr k, s2)"
  shows "k = key"
  by (rule tpm_sessions.imported_is_loaded [OF tpm_sessions.intro [OF assms(1,2) assms(3) [rule_format]] assms(4-8)])

section \<open>The operations of the stores over the sessions\<close>

text \<open>
  What the commands call is each policy and each operation of \<open>TpmStore\<close> on \<open>EsapiTpmBackend\<close>. The
  record \<open>tss_world\<close> holds what that backend is made of.
\<close>

record ('x, 'at, 'rsa, 'pub, 'priv, 'e, 'o) tss_world =
  tw_tss :: "('x, 'at, 'rsa, 'pub, 'priv) tss"
  tw_core :: "'e core_env_scheme"
  tw_os :: "'o os_scheme"
  tw_env :: environment
  tw_tpm :: "nat \<Rightarrow> 'x"
  tw_to_vec :: "tpm_blob \<Rightarrow> bytes option"
  tw_from_slice :: "bytes \<Rightarrow> tpm_blob option"

(* SRC store EsapiTpmBackend *)
definition esapi_tpm_backend :: "('x, 'at, 'rsa, 'pub, 'priv, 'e, 'o) tss_world \<Rightarrow> tpm_env" where
  "esapi_tpm_backend W =
     session_backend (tw_tss W) (tw_core W) (tw_os W) (tw_env W) (tw_tpm W) (tw_to_vec W) (tw_from_slice W)"

(* SRC store load_or_create_linux_auto_master_key *)
definition load_or_create_linux_auto_master_key ::
    "('x, 'at, 'rsa, 'pub, 'priv, 'e, 'o) tss_world \<Rightarrow> fs \<Rightarrow> master_key res \<times> fs" where
  "load_or_create_linux_auto_master_key W = load_or_create_linux_auto (esapi_tpm_backend W) (tw_os W) (tw_env W)"

(* SRC store load_linux_auto_master_key *)
definition load_linux_auto_master_key ::
    "('x, 'at, 'rsa, 'pub, 'priv, 'e, 'o) tss_world \<Rightarrow> fs \<Rightarrow> master_key res \<times> fs" where
  "load_linux_auto_master_key W = load_linux_auto (esapi_tpm_backend W) (tw_os W) (tw_env W)"

(* SRC store import_linux_auto_master_key *)
definition import_linux_auto_master_key ::
    "('x, 'at, 'rsa, 'pub, 'priv, 'e, 'o) tss_world \<Rightarrow> bytes \<Rightarrow> bool \<Rightarrow> fs \<Rightarrow> unit res \<times> fs" where
  "import_linux_auto_master_key W = import_linux_auto (esapi_tpm_backend W) (tw_os W) (tw_env W)"

(* SRC store TpmStore::get_or_create@1035 *)
definition tpm_get_or_create ::
    "('x, 'at, 'rsa, 'pub, 'priv, 'e, 'o) tss_world \<Rightarrow> path \<Rightarrow> fs \<Rightarrow> master_key res \<times> fs" where
  "tpm_get_or_create W = tpm_get_or_create_with (esapi_tpm_backend W) (tw_os W)"

(* SRC store TpmStore::get@1055 *)
definition tpm_get :: "('x, 'at, 'rsa, 'pub, 'priv, 'e, 'o) tss_world \<Rightarrow> path \<Rightarrow> fs \<Rightarrow> master_key res \<times> fs" where
  "tpm_get W = tpm_get_with (esapi_tpm_backend W) (tw_os W)"

(* SRC store TpmStore::import@1073 *)
definition tpm_import ::
    "('x, 'at, 'rsa, 'pub, 'priv, 'e, 'o) tss_world \<Rightarrow> path \<Rightarrow> bytes \<Rightarrow> bool \<Rightarrow> fs \<Rightarrow> unit res \<times> fs" where
  "tpm_import W = tpm_import_with (esapi_tpm_backend W) (tw_os W)"

definition tss_world_laws ::
    "('x, 'at, 'rsa, 'pub, 'priv, 'e, 'o) tss_world \<Rightarrow> ('pub \<Rightarrow> 'priv \<Rightarrow> bytes) \<Rightarrow> ('x \<Rightarrow> nat \<Rightarrow> bytes) \<Rightarrow> bool" where
  "tss_world_laws W secret object \<longleftrightarrow> tss_contents (tw_tss W) secret object \<and> base64_correct (tw_core W) \<and>
     tempfile_laws (tw_os W) \<and> (\<forall>b v. tw_to_vec W b = Some v \<longrightarrow> tw_from_slice W v = Some b)"

text \<open>Opening the stores keeps every key there is, whatever the sessions do.\<close>

lemma esapi_opening_keeps:
  assumes "tss_world_laws W secret object"
  shows "keeps s (snd (load_or_create_linux_auto_master_key W s))"
proof -
  have "tpm_backend (esapi_tpm_backend W)"
    unfolding esapi_tpm_backend_def tpm_backend_def
    using assms session_backend_lawful [of "tw_tss W" secret object "tw_core W" "tw_to_vec W" "tw_from_slice W"]
    by (simp add: tss_world_laws_def)
  then show ?thesis
    using assms tpm_backend.opening_keeps by (fastforce simp: load_or_create_linux_auto_master_key_def tss_world_laws_def)
qed

section \<open>A TPM that numbers its objects\<close>

definition fresh_handle :: "(nat \<times> bytes) list \<Rightarrow> nat" where
  "fresh_handle x = Suc (sum_list (map fst x))"

definition sample_tss :: "((nat \<times> bytes) list, object_attribute list, unit, unit, bytes) tss" where
  "sample_tss = \<lparr>
     ts_tcti_from_env = Inr ''device'', ts_tcti_from_str = Inr, ts_connect = (\<lambda>_ x. (Inr (), x)),
     ts_enter_session = (\<lambda>x. x), ts_leave_session = (\<lambda>x. x),
     ts_build_attributes = Inr, ts_build_rsa_parameters = Inr (), ts_build_public = (\<lambda>_. Inr ()),
     ts_create_primary = (\<lambda>_ x. (Inr (fresh_handle x), (fresh_handle x, []) # x)),
     ts_sensitive_data = Inr,
     ts_create = (\<lambda>_ _ d x. (Inr ((), d), x)),
     ts_load = (\<lambda>_ q _ x. (Inr (fresh_handle x), (fresh_handle x, q) # x)),
     ts_unseal = (\<lambda>h x. (case map_of x h of None \<Rightarrow> bail ''handle'' | Some d \<Rightarrow> Inr d, x)),
     ts_flush_context = (\<lambda>h x. (Inr (), filter (\<lambda>e. fst e \<noteq> h) x)),
     ts_marshal_public = (\<lambda>_. Inr []), ts_marshal_private = Inr,
     ts_unmarshal_public = (\<lambda>_. Inr ()), ts_unmarshal_private = Inr\<rparr>"

lemma fresh_handle: "fresh_handle x \<notin> fst ` set x"
  using member_le_sum_list [of "fresh_handle x" "map fst x"] by (auto simp: fresh_handle_def)

lemma sample_tss_handles: "tss_handles sample_tss (\<lambda>x. fst ` set x)" "flushing sample_tss"
  by (auto simp: tss_handles_def flushing_def sample_tss_def fresh_handle)

lemma sample_tss_contents:
  "tss_contents sample_tss (\<lambda>_ q. q) (\<lambda>x h. case map_of x h of None \<Rightarrow> [] | Some d \<Rightarrow> d)"
  by (auto simp: tss_contents_def sample_tss_def split: option.splits)

interpretation sample_objects: tpm_objects sample_tss "\<lambda>x. fst ` set x"
  by (rule tpm_objects.intro) (rule sample_tss_handles)

lemma sample_open_context:
  "open_tpm_context sample_tss plain_os (\<lambda>_. None) (s, x) = (Inr (), (s\<lparr>calls := Suc (calls s)\<rparr>, x))"
  by (simp add: open_tpm_context_def path_exists_def sample_tss_def on_tpm_def)

lemma sample_sealing:
  "seal_under_primary sample_tss sample_core k h x = (Inr \<lparr>tb_scheme = TPM_STORE_SCHEME,
     tb_hierarchy = ''owner'', tb_public = [], tb_private = string_of k\<rparr>, x)"
  by (simp add: seal_under_primary_def sealed_data_public_template_def sample_tss_def store_b64_def
      sample_core_simps)

lemma sample_with_primary:
  assumes "f (fresh_handle x) ((fresh_handle x, []) # x) = (Inr v, (fresh_handle x, []) # x)"
  shows "with_nullauth_session sample_tss (with_tpm_primary sample_tss f) x = (Inr v, x)"
proof -
  have "filter (\<lambda>e. fst e \<noteq> fresh_handle x) x = x" using fresh_handle [of x] by (force intro: filter_True)
  then show ?thesis
    using assms by (simp add: with_nullauth_session_def with_tpm_primary_def create_tpm_primary_def
      primary_public_template_def flush_tpm_object_def sample_tss_def)
qed

definition sample_sealed :: "tpm_blob res \<times> (fs \<times> (nat \<times> bytes) list)" where
  "sample_sealed = seal_master_key sample_tss sample_core plain_os (\<lambda>_. None) (replicate 32 7) (plain_fs, [(3, [1])])"

lemma sample_sealed: "fst sample_sealed = Inr \<lparr>tb_scheme = TPM_STORE_SCHEME, tb_hierarchy = ''owner'',
    tb_public = [], tb_private = string_of (replicate 32 7)\<rparr>"
  by (simp add: sample_sealed_def seal_master_key_def sample_open_context on_tpm_def
      sample_with_primary [where f = "seal_under_primary _ _ _", OF sample_sealing])

theorem tpm_objects_flushed_witness:
  "is_ok (fst sample_sealed) \<and> fst ` set (snd (snd sample_sealed)) = {3}"
  using tpm_objects_flushed [OF sample_tss_handles(1), of sample_core plain_os "\<lambda>_. None" "replicate 32 7"
      "(plain_fs, [(3, [1])])"]
  by (simp add: sample_sealed sample_sealed_def [symmetric])

lemma sample_backend_lawful:
  "tpm_laws (session_backend sample_tss sample_core plain_os (\<lambda>_. None) (\<lambda>_. [(3, [1])])
     (tpm_to_vec sample_tpm) (tpm_from_slice sample_tpm))"
proof (rule session_backend_lawful [OF sample_tss_contents sample_base64])
  show "\<forall>b v. tpm_to_vec sample_tpm b = Some v \<longrightarrow> tpm_from_slice sample_tpm v = Some b"
    using blob_reads_back [OF sample_tpm_laws] by blast
qed

interpretation sample_sessions: tpm_sessions sample_tss "\<lambda>_ q. q"
    "\<lambda>x h. case map_of x h of None \<Rightarrow> [] | Some d \<Rightarrow> d" sample_core "tpm_to_vec sample_tpm" "tpm_from_slice sample_tpm"
  by (rule tpm_sessions.intro [OF sample_tss_contents sample_base64]) (rule blob_reads_back [OF sample_tpm_laws])

definition sample_session :: tpm_env where
  "sample_session = session_backend sample_tss sample_core plain_os sample_env (\<lambda>_. [(3, [1])])
     (tpm_to_vec sample_tpm) (tpm_from_slice sample_tpm)"

lemma sample_opens:
  "open_tpm_context sample_tss plain_os sample_env (s, x) = (Inr (), (s\<lparr>calls := Suc (calls s)\<rparr>, x))"
  by (simp add: open_tpm_context_def path_exists_def sample_tss_def on_tpm_def sample_env_def)

lemma sample_unsealing:
  "length k = MASTER_KEY_BYTES \<Longrightarrow>
   unseal_under_primary sample_tss k () h ((h, []) # x) = (Inr k, filter (\<lambda>e. fst e \<noteq> fresh_handle ((h, []) # x)) ((h, []) # x))"
  by (simp add: unseal_under_primary_def sample_tss_def flush_tpm_object_def)

lemma sample_session_seal:
  "tpm_seal sample_session k s = (Inr \<lparr>tb_scheme = TPM_STORE_SCHEME, tb_hierarchy = ''owner'', tb_public = [],
     tb_private = string_of k\<rparr>, s\<lparr>calls := Suc (calls s)\<rparr>)"
  by (simp add: sample_session_def session_backend_def seal_master_key_def sample_opens on_tpm_def
      sample_with_primary [where f = "seal_under_primary _ _ _", OF sample_sealing])

lemma sample_session_unseal:
  assumes "length k = MASTER_KEY_BYTES"
  shows "tpm_unseal sample_session \<lparr>tb_scheme = TPM_STORE_SCHEME, tb_hierarchy = ''owner'', tb_public = [],
     tb_private = string_of k\<rparr> s = (Inr k, s\<lparr>calls := Suc (calls s)\<rparr>)"
proof -
  let ?f = "unseal_under_primary sample_tss k ()"
  have "?f (fresh_handle x) ((fresh_handle x, []) # x) = (Inr k, (fresh_handle x, []) # x)" for x
  proof -
    have "filter (\<lambda>e. fst e \<noteq> fresh_handle y) y = y" for y
      using fresh_handle [of y] by (force intro: filter_True)
    from sample_unsealing [OF assms, of "fresh_handle x" x] this show ?thesis by simp
  qed
  note work = sample_with_primary [where f = ?f, OF this]
  have parts: "ts_unmarshal_public sample_tss v = Inr ()" "ts_unmarshal_private sample_tss v = Inr v" for v
    by (simp_all add: sample_tss_def)
  show ?thesis
    by (simp add: sample_session_def session_backend_def unseal_master_key_def validate_tpm_blob_def
        store_unb64_def sample_core_simps lib_res_def parts sample_opens on_tpm_def work)
qed

lemma sample_session_keeps:
  "fst (import_linux_auto sample_session plain_os sample_env sample_key False (home_fs None)) = Inr ()"
  "is_ok (fst (load_linux_auto sample_session plain_os sample_env
     (snd (import_linux_auto sample_session plain_os sample_env sample_key False (home_fs None)))))"
proof -
  have json: "tpm_to_vec sample_session = tpm_to_vec sample_tpm" "tpm_from_slice sample_session = tpm_from_slice sample_tpm"
    by (simp_all add: sample_session_def session_backend_def)
  obtain v where v: "tpm_to_vec sample_tpm \<lparr>tb_scheme = TPM_STORE_SCHEME, tb_hierarchy = ''owner'',
     tb_public = [], tb_private = string_of sample_key\<rparr> = Some v"
   and b: "tpm_from_slice sample_tpm v = Some \<lparr>tb_scheme = TPM_STORE_SCHEME, tb_hierarchy = ''owner'',
     tb_public = [], tb_private = string_of sample_key\<rparr>"
    using sample_tpm_simps(3) by blast
  have len: "length sample_key = MASTER_KEY_BYTES" by (simp add: length_sample_key MASTER_KEY_BYTES_def)
  note eval = import_linux_auto_def load_linux_auto_def sample_paths home_fs_nodes
        tpm_import_with_def tpm_eval parent_eval fs_eval length_sample_key json
        sample_session_seal sample_session_unseal [OF len] v b path_join_def as_bytes_Cons home_fs_temp
  show "fst (import_linux_auto sample_session plain_os sample_env sample_key False (home_fs None)) = Inr ()"
    by (simp add: eval)
  show "is_ok (fst (load_linux_auto sample_session plain_os sample_env
     (snd (import_linux_auto sample_session plain_os sample_env sample_key False (home_fs None)))))"
    by (simp add: eval)
qed

theorem session_import_then_load_witness:
  "fst (load_linux_auto sample_session plain_os sample_env
     (snd (import_linux_auto sample_session plain_os sample_env sample_key False (home_fs None))))
   = Inr sample_key"
proof -
  have blobs: "\<forall>b v. tpm_to_vec sample_tpm b = Some v \<longrightarrow> tpm_from_slice sample_tpm v = Some b"
    using blob_reads_back [OF sample_tpm_laws] by blast
  have len: "length sample_key = MASTER_KEY_BYTES" by (simp add: length_sample_key MASTER_KEY_BYTES_def)
  have quiet: "fault plain_os = (\<lambda>_. None)" by (simp add: plain_os_simps)
  obtain s1 where imported: "import_linux_auto sample_session plain_os sample_env sample_key False (home_fs None) = (Inr (), s1)"
    using sample_session_keeps(1) by (metis prod.collapse)
  obtain k s2 where loaded: "load_linux_auto sample_session plain_os sample_env s1 = (Inr k, s2)"
    using sample_session_keeps(2) by (auto simp: imported is_ok_iff prod_eq_iff)
  have "k = sample_key"
    by (rule session_import_then_load [OF sample_tss_contents sample_base64 blobs plain_laws quiet len
          imported [unfolded sample_session_def] loaded [unfolded sample_session_def]])
  with loaded show ?thesis by (simp add: imported)
qed

end
