(* ===== verification/LockedMemory.thy ===== *)
theory LockedMemory
  imports FileStore
begin

text \<open>
  The pages that hold keys (\<open>LockedKeyPage\<close>, \<open>MasterKey\<close>, \<open>lock_memory\<close>, \<open>unlock_memory\<close> and
  \<open>harden_process_memory\<close> of \<open>crates/avault-store/src/lib.rs\<close>), on targets with 64-bit addresses.

  \<^item> \<open>memory\<close> is what the code touches of the memory of the process: its bytes, the live pages with
    their sizes, the bytes that are pinned in RAM or left out of a core dump, and whether core dumps
    are disabled. A byte keeps its value when its page is freed, until it is allocated again.
  \<^item> \<open>memory_env\<close> is the target, the page size the system reports, the allocator, and which calls
    of the kernel fail (their results are not looked at by the code).
  \<^item> \<open>key_step\<close> makes and drops keys in any order. The stores see a key as its bytes
    (\<open>FileStore.zeroed_locked\<close>); \<open>held_keys\<close> is that view of a memory and its pages.
\<close>

section \<open>Memory\<close>

datatype target = TargetLinux | TargetMacOS | TargetWindows | TargetOther

record memory =
  cells :: "u64 \<Rightarrow> byte"
  pages :: "u64 \<rightharpoonup> u64"
  pinned :: "u64 \<Rightarrow> bool"
  undumped :: "u64 \<Rightarrow> bool"
  hardened :: bool
  kernel_calls :: nat

record memory_env =
  me_target :: target
  me_page_size :: u64
  me_alloc :: "memory \<Rightarrow> u64 \<Rightarrow> u64"
  me_refuses :: "nat \<Rightarrow> bool"

definition within :: "u64 \<Rightarrow> u64 \<Rightarrow> u64 \<Rightarrow> bool" where
  "within p n a \<longleftrightarrow> a - p < n"

definition kernel :: "memory_env \<Rightarrow> (memory \<Rightarrow> memory) \<Rightarrow> memory \<Rightarrow> memory" where
  "kernel E f m = (if me_refuses E (kernel_calls m) then m else f m)\<lparr>kernel_calls := Suc (kernel_calls m)\<rparr>"

(* SRC store system_page_size *)
definition system_page_size :: "memory_env \<Rightarrow> u64" where
  \<comment> \<open>\<open>sysconf\<close> returns a signed value, \<open>GetSystemInfo\<close> 32 bits.\<close>
  "system_page_size E = (case me_target E of
       TargetOther \<Rightarrow> 4096
     | TargetWindows \<Rightarrow> if me_page_size E > 0 then me_page_size E else 4096
     | _ \<Rightarrow> if sint (me_page_size E) > 0 then me_page_size E else 4096)"

definition div_ceil :: "u64 \<Rightarrow> u64 \<Rightarrow> u64" where
  "div_ceil a b = (if a mod b > 0 then a div b + 1 else a div b)"

(* SRC store page_span *)
definition page_span :: "memory_env \<Rightarrow> u64 \<Rightarrow> u64 \<Rightarrow> u64 \<times> u64" where
  "page_span E p n =
     (let page = system_page_size E;
          start = (p div page) * page;
          end_addr = div_ceil (p + n) page * page
      in (start, if end_addr < start then 0 else end_addr - start))"

definition mlock :: "memory_env \<Rightarrow> u64 \<Rightarrow> u64 \<Rightarrow> memory \<Rightarrow> memory" where
  "mlock E p n = kernel E (\<lambda>m. m\<lparr>pinned := (\<lambda>a. within p n a \<or> pinned m a)\<rparr>)"

definition munlock :: "memory_env \<Rightarrow> u64 \<Rightarrow> u64 \<Rightarrow> memory \<Rightarrow> memory" where
  "munlock E p n = kernel E (\<lambda>m. m\<lparr>pinned := (\<lambda>a. pinned m a \<and> \<not> within p n a)\<rparr>)"

definition madvise_dontdump :: "memory_env \<Rightarrow> u64 \<Rightarrow> u64 \<Rightarrow> memory \<Rightarrow> memory" where
  "madvise_dontdump E p n = kernel E (\<lambda>m. m\<lparr>undumped := (\<lambda>a. within p n a \<or> undumped m a)\<rparr>)"

(* SRC store 2719-2754 lock_memory *)
definition lock_memory :: "memory_env \<Rightarrow> u64 \<Rightarrow> u64 \<Rightarrow> memory \<Rightarrow> memory" where
  "lock_memory E p n m = (case me_target E of
       TargetLinux \<Rightarrow> let (base, span) = page_span E p n in madvise_dontdump E base span (mlock E base span m)
     | TargetMacOS \<Rightarrow> let (base, span) = page_span E p n in mlock E base span m
     | TargetWindows \<Rightarrow> mlock E p n m
     | TargetOther \<Rightarrow> m)"

(* SRC store 2756-2776 unlock_memory *)
definition unlock_memory :: "memory_env \<Rightarrow> u64 \<Rightarrow> u64 \<Rightarrow> memory \<Rightarrow> memory" where
  "unlock_memory E p n m = (case me_target E of
       TargetWindows \<Rightarrow> munlock E p n m
     | TargetOther \<Rightarrow> m
     | _ \<Rightarrow> let (base, span) = page_span E p n in munlock E base span m)"

(* SRC store 296-336 harden_process_memory *)
definition harden_process_memory :: "memory_env \<Rightarrow> memory \<Rightarrow> memory" where
  "harden_process_memory E m = (case me_target E of
       TargetOther \<Rightarrow> m
     | _ \<Rightarrow> kernel E (\<lambda>m. m\<lparr>hardened := True\<rparr>) m)"

section \<open>Pages of keys\<close>

(* SRC store LockedKeyPage *)
record key_page =
  kp_ptr :: u64
  kp_len :: u64
  kp_layout :: "u64 \<times> u64"

definition power_of_two :: "u64 \<Rightarrow> bool" where
  "power_of_two n \<longleftrightarrow> (\<exists>i\<in>{..<64}. n = 2 ^ i)"

definition layout_from_size_align :: "u64 \<Rightarrow> u64 \<Rightarrow> (u64 \<times> u64) res" where
  \<comment> \<open>The size rounded up to the alignment must not exceed \<open>isize::MAX\<close>.\<close>
  "layout_from_size_align n align =
     (if \<not> power_of_two align \<or> unat n > 2 ^ 63 - unat align then Inl [Lib ''layout''] else Inr (n, align))"

definition alloc_zeroed :: "memory_env \<Rightarrow> u64 \<times> u64 \<Rightarrow> memory \<Rightarrow> u64 option \<times> memory" where
  \<comment> \<open>The alignment that the code asks for is the size.\<close>
  "alloc_zeroed E layout m =
     (let p = me_alloc E m (fst layout)
      in if p = 0 then (None, m)
         else (Some p, m\<lparr>cells := (\<lambda>a. if within p (fst layout) a then 0 else cells m a),
                         pages := (pages m)(p \<mapsto> fst layout)\<rparr>))"

definition dealloc :: "u64 \<Rightarrow> memory \<Rightarrow> memory" where
  "dealloc p m = m\<lparr>pages := (pages m)(p := None)\<rparr>"

(* SRC store LockedKeyPage::new_zeroed *)
definition new_zeroed :: "memory_env \<Rightarrow> memory \<Rightarrow> key_page res \<times> memory" where
  "new_zeroed E m =
     (let page = system_page_size E
      in then_st (with_context ''invalid master key page layout'' (layout_from_size_align page page), m) (\<lambda>layout m.
         case alloc_zeroed E layout m of
           (None, m) \<Rightarrow> (bail ''failed to allocate master key page'', m)
         | (Some p, m) \<Rightarrow> (Inr \<lparr>kp_ptr = p, kp_len = page, kp_layout = layout\<rparr>, m)))"

definition cell_at :: "key_page \<Rightarrow> nat \<Rightarrow> u64" where
  "cell_at k i = kp_ptr k + word_of_nat i"

(* SRC store LockedKeyPage::as_key *)
definition as_key :: "key_page \<Rightarrow> memory \<Rightarrow> bytes" where
  "as_key k m = map (\<lambda>i. cells m (cell_at k i)) [0..<MASTER_KEY_BYTES]"

text \<open>What the constructors store through \<open>as_mut_key\<close>.\<close>

(* SRC store LockedKeyPage::as_mut_key *)
definition write_key :: "key_page \<Rightarrow> bytes \<Rightarrow> memory \<Rightarrow> memory" where
  "write_key k bs m = m\<lparr>cells := (\<lambda>a. let i = unat (a - kp_ptr k)
     in if i < MASTER_KEY_BYTES then bs ! i else cells m a)\<rparr>"

(* SRC store LockedKeyPage::drop *)
definition drop_page :: "memory_env \<Rightarrow> key_page \<Rightarrow> memory \<Rightarrow> memory" where
  "drop_page E k m =
     dealloc (kp_ptr k) (unlock_memory E (kp_ptr k) (kp_len k)
       (m\<lparr>cells := (\<lambda>a. if within (kp_ptr k) (kp_len k) a then 0 else cells m a)\<rparr>))"

section \<open>Keys\<close>

(* SRC store MasterKey::zeroed_locked *)
definition page_zeroed_locked :: "memory_env \<Rightarrow> memory \<Rightarrow> key_page res \<times> memory" where
  "page_zeroed_locked E m =
     then_st (new_zeroed E m) (\<lambda>page m.
       (Inr page, lock_memory E (kp_ptr page) (kp_len page) (harden_process_memory E m)))"

(* SRC store MasterKey::from_bytes *)
definition page_from_bytes :: "memory_env \<Rightarrow> bytes \<Rightarrow> memory \<Rightarrow> key_page res \<times> memory" where
  "page_from_bytes E bs m =
     then_st (page_zeroed_locked E m) (\<lambda>key m. (Inr key, write_key key bs m))"

text \<open>
  A generated key is one from the bytes that the random generator fills in
  (\<open>generate_locked\<close>), so a step takes the bytes. A key that cannot be made leaves no page.
\<close>

(* SRC store MasterKey::generate_locked *)
definition page_generate_locked :: "memory_env \<Rightarrow> (nat \<Rightarrow> byte) \<Rightarrow> memory \<Rightarrow> key_page res \<times> memory" where
  "page_generate_locked E rnd m =
     then_st (page_zeroed_locked E m) (\<lambda>key m. (Inr key, write_key key (map rnd [0..<MASTER_KEY_BYTES]) m))"

inductive key_step :: "memory_env \<Rightarrow> key_page set \<times> memory \<Rightarrow> key_page set \<times> memory \<Rightarrow> bool"
  for E :: memory_env where
  Made: "length bs = MASTER_KEY_BYTES \<Longrightarrow> page_from_bytes E bs m = (Inr k, m') \<Longrightarrow>
    key_step E (ks, m) (insert k ks, m')"
| Refused: "length bs = MASTER_KEY_BYTES \<Longrightarrow> page_from_bytes E bs m = (Inl e, m') \<Longrightarrow>
    key_step E (ks, m) (ks, m')"
| Dropped: "k \<in> ks \<Longrightarrow> key_step E (ks, m) (ks - {k}, drop_page E k m)"

inductive_simps key_step_simps: "key_step E (ks, m) w"

definition fresh_memory :: memory where
  "fresh_memory = \<lparr>cells = (\<lambda>_. 0), pages = (\<lambda>_. None), pinned = (\<lambda>_. False), undumped = (\<lambda>_. False),
     hardened = False, kernel_calls = 0\<rparr>"

definition keys_reachable :: "memory_env \<Rightarrow> key_page set \<times> memory \<Rightarrow> bool" where
  "keys_reachable E w \<longleftrightarrow> (key_step E)\<^sup>*\<^sup>* ({}, fresh_memory) w"

text \<open>The stores' view: the bytes of the key at each pointer.\<close>

definition held_keys :: "key_page set \<times> memory \<Rightarrow> u64 \<rightharpoonup> bytes" where
  "held_keys w p = (if \<exists>k\<in>fst w. kp_ptr k = p
     then Some (map (\<lambda>i. cells (snd w) (p + word_of_nat i)) [0..<MASTER_KEY_BYTES]) else None)"

text \<open>
  The allocator: a block is where the size divides the address, does not wrap around, and is apart from
  the live pages.
\<close>

definition alloc_laws :: "memory_env \<Rightarrow> bool" where
  "alloc_laws E \<longleftrightarrow> (\<forall>m n p. me_alloc E m n = p \<longrightarrow> p \<noteq> 0 \<longrightarrow>
     p mod n = 0 \<and> unat p + unat n < 2 ^ 64 \<and>
     (\<forall>q l a. pages m q = Some l \<longrightarrow> within p n a \<longrightarrow> \<not> within q l a))"

section \<open>Spans of pages\<close>

lemma unat_system_page_size: "0 < unat (system_page_size E)"
proof -
  have "unat (me_page_size E) > 0" if "sint (me_page_size E) > 0"
    using that by (metis less_irrefl signed_0 unat_gt_0)
  then show ?thesis
    by (auto simp: system_page_size_def unat_gt_0 word_gt_0 split: target.splits)
qed

lemma div_times_le: "(n :: nat) div d * d \<le> n" "0 < d \<Longrightarrow> n < n div d * d + d"
  using mod_less_divisor [of d n] div_mult_mod_eq [of n d] by linarith+

lemma unat_floor: "unat (p div n * n :: u64) = unat p div unat n * unat n"
proof -
  have "unat p < 2 ^ LENGTH(64)" by (rule unsigned_less)
  then have "unat p div unat n * unat n < 2 ^ 64"
    using le_less_trans [OF div_times_le(1) [of "unat p" "unat n"]] by simp
  then show ?thesis by (simp add: unat_mult_lem [THEN iffD1] unat_div)
qed

lemma unat_ceil:
  assumes "unat x + unat n \<le> 2 ^ 64" "0 < unat n"
  shows "unat (div_ceil x n * n :: u64) =
    (if unat x mod unat n = 0 then unat x else unat x div unat n * unat n + unat n)"
proof (cases "unat x mod unat n = 0")
  case True
  then have "x mod n = 0" by (simp flip: unat_mod add: unat_eq_zero)
  with True show ?thesis by (simp add: div_ceil_def unat_floor) (metis add.right_neutral div_mult_mod_eq)
next
  case False
  then have "x mod n > 0" by (metis unat_mod unat_0 word_gt_0)
  moreover have "unat x div unat n * unat n + unat n < 2 ^ 64"
  proof -
    have "unat x div unat n * unat n < unat x"
      using False div_mult_mod_eq [of "unat x" "unat n"] by linarith
    with assms(1) show ?thesis by simp
  qed
  moreover have "(x div n + 1) * n = x div n * n + n" by (simp add: distrib_right)
  ultimately show ?thesis
    using False by (simp add: div_ceil_def unat_add_lem [THEN iffD1] unat_floor)
qed

lemma page_span_nat:
  assumes "unat p + unat n + unat (system_page_size E) \<le> 2 ^ 64" and "page_span E p n = (start, span)"
  shows "unat start = unat p div unat (system_page_size E) * unat (system_page_size E)"
    and "unat start + unat span = (let x = unat p + unat n; d = unat (system_page_size E)
           in if x mod d = 0 then x else x div d * d + d)"
proof -
  let ?d = "system_page_size E"
  have d: "0 < unat ?d" by (rule unat_system_page_size)
  have sum: "unat (p + n) = unat p + unat n"
    using assms(1) d by (intro unat_add_lem [THEN iffD1]) simp
  have start: "start = p div ?d * ?d" using assms(2) by (simp add: page_span_def Let_def)
  then show 1: "unat start = unat p div unat ?d * unat ?d" by (simp add: unat_floor)
  define e where "e = div_ceil (p + n) ?d * ?d"
  have e: "unat e = (let x = unat p + unat n; d = unat ?d in if x mod d = 0 then x else x div d * d + d)"
    unfolding e_def using unat_ceil [of "p + n" ?d] assms(1) d by (simp add: sum Let_def)
  have "unat p \<le> unat e"
    using e div_times_le(2) [OF d, of "unat p + unat n"] by (auto simp: Let_def split: if_splits)
  then have "unat start \<le> unat e" unfolding 1 using div_times_le(1) [of "unat p" "unat ?d"] by (rule le_trans [rotated])
  moreover have "span = (if e < start then 0 else e - start)"
    using assms(2) by (auto simp: page_span_def Let_def e_def start)
  ultimately have "unat start + unat span = unat e"
    by (simp add: word_less_nat_alt unat_sub word_le_nat_alt)
  with e show "unat start + unat span = (let x = unat p + unat n; d = unat ?d
      in if x mod d = 0 then x else x div d * d + d)" by simp
qed

text \<open>
  The range that is locked for \<open>n\<close> bytes at \<open>p\<close> is made of whole pages, covers all of the bytes,
  and reaches less than a page beyond them on either side: as long as the bytes end a page before the
  address space does, whatever page size the system reports.
\<close>

theorem page_span_covers:
  assumes "unat p + unat n + unat (system_page_size E) \<le> 2 ^ 64" and "page_span E p n = (start, span)"
  shows "unat (system_page_size E) dvd unat start \<and> unat (system_page_size E) dvd unat start + unat span \<and>
    unat start \<le> unat p \<and> unat p < unat start + unat (system_page_size E) \<and>
    unat p + unat n \<le> unat start + unat span \<and>
    unat start + unat span < unat p + unat n + unat (system_page_size E)"
proof -
  let ?d = "unat (system_page_size E)" and ?x = "unat p + unat n"
  note start = page_span_nat(1) [OF assms] and stop = page_span_nat(2) [OF assms, unfolded Let_def]
  note below = div_times_le(1) [of _ ?d] and above = div_times_le(2) [OF unat_system_page_size [of E]]
  have "?d dvd ?x div ?d * ?d + ?d" by simp
  then have "?d dvd unat start + unat span" unfolding stop by (simp add: mod_eq_0_iff_dvd)
  moreover have "?x \<le> unat start + unat span" "unat start + unat span < ?x + ?d"
  proof -
    have "?x div ?d * ?d < ?x" if "?x mod ?d \<noteq> 0" using that div_mult_mod_eq [of ?x ?d] by linarith
    then show "?x \<le> unat start + unat span" "unat start + unat span < ?x + ?d"
      unfolding stop using above [of ?x] unat_system_page_size [of E] by (auto simp: less_imp_le)
  qed
  ultimately show ?thesis unfolding start using below [of "unat p"] above [of "unat p"] by simp
qed

lemma aligned_span:
  assumes "p mod system_page_size E = 0" "unat p + unat (system_page_size E) < 2 ^ 64"
  shows "page_span E p (system_page_size E) = (p, system_page_size E)"
proof -
  let ?d = "system_page_size E"
  have sum: "unat (p + ?d) = unat p + unat ?d"
    using assms(2) by (intro unat_add_lem [THEN iffD1]) simp
  have "unat p mod unat ?d = 0" using arg_cong [OF assms(1), of unat] by (simp add: unat_mod)
  then have "unat ((p + ?d) mod ?d) = 0" by (simp add: unat_mod sum)
  then have "(p + ?d) mod ?d = 0" by (rule unat_eq_zero [THEN iffD1])
  then have 1: "div_ceil (p + ?d) ?d * ?d = p + ?d"
    using div_mult_mod_eq [of "p + ?d" ?d] by (simp add: div_ceil_def)
  have 2: "p div ?d * ?d = p" using div_mult_mod_eq [of p ?d] by (simp add: assms(1))
  have "\<not> p + ?d < p" by (simp add: word_less_nat_alt sum)
  then show ?thesis unfolding page_span_def Let_def 1 2 by simp
qed

section \<open>What the operations change\<close>

lemma kernel_calls_frame:
  "cells (mlock E p n m) = cells m" "pages (mlock E p n m) = pages m" "hardened (mlock E p n m) = hardened m"
  "cells (munlock E p n m) = cells m" "pages (munlock E p n m) = pages m" "hardened (munlock E p n m) = hardened m"
  "cells (madvise_dontdump E p n m) = cells m" "pages (madvise_dontdump E p n m) = pages m"
  "hardened (madvise_dontdump E p n m) = hardened m" "pinned (madvise_dontdump E p n m) = pinned m"
  by (simp_all add: mlock_def munlock_def madvise_dontdump_def kernel_def)

lemma lock_frame:
  "cells (lock_memory E p n m) = cells m" "pages (lock_memory E p n m) = pages m"
  "hardened (lock_memory E p n m) = hardened m"
  "cells (unlock_memory E p n m) = cells m" "pages (unlock_memory E p n m) = pages m"
  "hardened (unlock_memory E p n m) = hardened m"
  by (simp_all add: lock_memory_def unlock_memory_def kernel_calls_frame split: target.split prod.split)

lemma harden_frame:
  "cells (harden_process_memory E m) = cells m" "pages (harden_process_memory E m) = pages m"
  "pinned (harden_process_memory E m) = pinned m"
  by (simp_all add: harden_process_memory_def kernel_def split: target.split)

lemmas memory_frame = lock_frame harden_frame

text \<open>Making a key changes nothing, or fills a page that the allocator gave.\<close>

lemma page_from_bytes_cases:
  assumes "page_from_bytes E bs m = (r, m')"
  obtains e where "r = Inl e" "m' = m"
  | p where "p = me_alloc E m (system_page_size E)" "p \<noteq> 0"
      "r = Inr \<lparr>kp_ptr = p, kp_len = system_page_size E, kp_layout = (system_page_size E, system_page_size E)\<rparr>"
      "pages m' = (pages m)(p \<mapsto> system_page_size E)"
      "cells m' = (\<lambda>a. let i = unat (a - p) in if i < MASTER_KEY_BYTES then bs ! i
         else if within p (system_page_size E) a then 0 else cells m a)"
      "pinned m' = pinned (lock_memory E p (system_page_size E) (harden_process_memory E
         (snd (alloc_zeroed E (system_page_size E, system_page_size E) m))))"
      "hardened m' = hardened (harden_process_memory E
         (snd (alloc_zeroed E (system_page_size E, system_page_size E) m)))"
proof -
  let ?n = "system_page_size E"
  note refused = that(1) and filled = that(2)
  have chosen: thesis
    if layout: "layout_from_size_align ?n ?n = Inr l" and "l = (?n, ?n)" for l
  proof (cases "me_alloc E m ?n = 0")
    case True
    then have "page_from_bytes E bs m = (bail ''failed to allocate master key page'', m)"
      using that by (simp add: page_from_bytes_def page_zeroed_locked_def new_zeroed_def Let_def alloc_zeroed_def bail_def)
    with assms show thesis by (auto simp: bail_def intro: refused)
  next
    case False
    let ?p = "me_alloc E m ?n"
    let ?k = "\<lparr>kp_ptr = ?p, kp_len = ?n, kp_layout = (?n, ?n)\<rparr>"
    let ?m = "snd (alloc_zeroed E (?n, ?n) m)"
    let ?w = "write_key ?k bs (lock_memory E ?p ?n (harden_process_memory E ?m))"
    have m: "?m = m\<lparr>cells := (\<lambda>a. if within ?p ?n a then 0 else cells m a), pages := (pages m)(?p \<mapsto> ?n)\<rparr>"
      using False by (simp add: alloc_zeroed_def Let_def)
    have "page_from_bytes E bs m = (Inr ?k, ?w)"
      using that False
      by (simp add: page_from_bytes_def page_zeroed_locked_def new_zeroed_def Let_def alloc_zeroed_def)
    then have r: "r = Inr ?k" "m' = ?w" using assms by simp_all
    show thesis
      by (rule filled [OF refl False r(1)])
         (simp_all add: r(2) write_key_def memory_frame m Let_def cong: if_cong)
  qed
  show thesis
  proof (cases "layout_from_size_align ?n ?n")
    case (Inl e)
    then have "page_from_bytes E bs m = (Inl (Msg ''invalid master key page layout'' # e), m)"
      by (simp add: page_from_bytes_def page_zeroed_locked_def new_zeroed_def Let_def)
    with assms show thesis by (auto intro: refused)
  next
    case (Inr l)
    moreover from this have "l = (?n, ?n)" by (auto simp: layout_from_size_align_def split: if_splits)
    ultimately show thesis by (rule chosen)
  qed
qed

lemma page_refused: "page_from_bytes E bs m = (Inl e, m') \<Longrightarrow> m' = m"
  by (erule page_from_bytes_cases) simp_all

section \<open>Pages of live keys\<close>

definition key_inv :: "memory_env \<Rightarrow> key_page set \<times> memory \<Rightarrow> bool" where
  "key_inv E w \<longleftrightarrow> (let ks = fst w; m = snd w; n = system_page_size E in
     (\<forall>k\<in>ks. kp_len k = n \<and> kp_ptr k mod n = 0 \<and> unat (kp_ptr k) + unat n < 2 ^ 64 \<and>
        pages m (kp_ptr k) = Some n) \<and>
     (\<forall>p l. pages m p = Some l \<longrightarrow> l = n \<and> (\<exists>k\<in>ks. kp_ptr k = p)) \<and>
     (\<forall>k\<in>ks. \<forall>k'\<in>ks. \<forall>a. k \<noteq> k' \<longrightarrow> within (kp_ptr k) n a \<longrightarrow> \<not> within (kp_ptr k') n a) \<and>
     (\<forall>a. cells m a \<noteq> 0 \<longrightarrow> (\<exists>k\<in>ks. unat (a - kp_ptr k) < MASTER_KEY_BYTES)))"

lemma within_self: "within p (system_page_size E) p"
  using unat_system_page_size [of E] by (simp add: within_def word_less_nat_alt)

locale key_memory =
  fixes E :: memory_env
  assumes alloc: "alloc_laws E" and room: "MASTER_KEY_BYTES \<le> unat (system_page_size E)"
begin

abbreviation page_bytes :: u64 where
  "page_bytes \<equiv> system_page_size E"

lemma key_within: "unat (a - p) < MASTER_KEY_BYTES \<Longrightarrow> within p page_bytes a"
  using room by (simp add: within_def word_less_nat_alt)

lemma invD:
  assumes "key_inv E (ks, m)"
  shows "k \<in> ks \<Longrightarrow> kp_len k = page_bytes" "k \<in> ks \<Longrightarrow> kp_ptr k mod page_bytes = 0"
    "k \<in> ks \<Longrightarrow> unat (kp_ptr k) + unat page_bytes < 2 ^ 64"
    "k \<in> ks \<Longrightarrow> pages m (kp_ptr k) = Some page_bytes"
    "\<lbrakk>k \<in> ks; k' \<in> ks; k \<noteq> k'; within (kp_ptr k) page_bytes a\<rbrakk> \<Longrightarrow> \<not> within (kp_ptr k') page_bytes a"
    "cells m a \<noteq> 0 \<Longrightarrow> \<exists>k\<in>ks. unat (a - kp_ptr k) < MASTER_KEY_BYTES"
    "pages m p = Some l \<Longrightarrow> l = page_bytes \<and> (\<exists>k\<in>ks. kp_ptr k = p)"
  using assms unfolding key_inv_def Let_def fst_conv snd_conv by blast+

lemma ptr_inj: "key_inv E (ks, m) \<Longrightarrow> k \<in> ks \<Longrightarrow> k' \<in> ks \<Longrightarrow> kp_ptr k = kp_ptr k' \<Longrightarrow> k = k'"
  using invD(5) within_self by metis

lemma alloc_new:
  assumes "p = me_alloc E m page_bytes" "p \<noteq> 0"
  shows "p mod page_bytes = 0" "unat p + unat page_bytes < 2 ^ 64"
    "pages m q = Some l \<Longrightarrow> within p page_bytes a \<Longrightarrow> \<not> within q l a"
  using alloc assms unfolding alloc_laws_def by blast+

lemma new_disjoint:
  assumes "key_inv E (ks, m)" "p = me_alloc E m page_bytes" "p \<noteq> 0" "k \<in> ks"
  shows "within p page_bytes a \<Longrightarrow> \<not> within (kp_ptr k) page_bytes a" "kp_ptr k \<noteq> p"
proof -
  show 1: "within p page_bytes a \<Longrightarrow> \<not> within (kp_ptr k) page_bytes a" for a
    using alloc_new(3) [OF assms(2,3) invD(4) [OF assms(1,4)]] .
  show "kp_ptr k \<noteq> p" using 1 [OF within_self] within_self by metis
qed

lemma made_inv:
  assumes inv: "key_inv E (ks, m)" and made: "page_from_bytes E bs m = (Inr k, m')"
  shows "key_inv E (insert k ks, m')"
proof -
  obtain p where p: "p = me_alloc E m page_bytes" "p \<noteq> 0"
      and k: "k = \<lparr>kp_ptr = p, kp_len = page_bytes, kp_layout = (page_bytes, page_bytes)\<rparr>"
      and pages: "pages m' = (pages m)(p \<mapsto> page_bytes)"
      and cells: "cells m' = (\<lambda>a. let i = unat (a - p) in if i < MASTER_KEY_BYTES then bs ! i
         else if within p page_bytes a then 0 else cells m a)"
    by (rule page_from_bytes_cases [OF made]) auto
  note apart = new_disjoint [OF inv p]
  show ?thesis
    unfolding key_inv_def Let_def fst_conv snd_conv
  proof (intro conjI)
    show "\<forall>x\<in>insert k ks. kp_len x = page_bytes \<and> kp_ptr x mod page_bytes = 0 \<and>
        unat (kp_ptr x) + unat page_bytes < 2 ^ 64 \<and> pages m' (kp_ptr x) = Some page_bytes"
      using invD(1-4) [OF inv] alloc_new(1,2) [OF p] apart(2) by (simp add: k pages)
    show "\<forall>q l. pages m' q = Some l \<longrightarrow> l = page_bytes \<and> (\<exists>x\<in>insert k ks. kp_ptr x = q)"
      using invD(7) [OF inv] by (auto simp: k pages split: if_splits)
    show "\<forall>x\<in>insert k ks. \<forall>y\<in>insert k ks. \<forall>a. x \<noteq> y \<longrightarrow> within (kp_ptr x) page_bytes a \<longrightarrow>
        \<not> within (kp_ptr y) page_bytes a"
      using invD(5) [OF inv] apart(1) by (auto simp: k)
    show "\<forall>a. cells m' a \<noteq> 0 \<longrightarrow> (\<exists>x\<in>insert k ks. unat (a - kp_ptr x) < MASTER_KEY_BYTES)"
      using invD(6) [OF inv] by (simp add: k cells Let_def)
  qed
qed

lemma drop_frame:
  "cells (drop_page E k m) = (\<lambda>a. if within (kp_ptr k) (kp_len k) a then 0 else cells m a)"
  "pages (drop_page E k m) = (pages m)(kp_ptr k := None)"
  by (simp_all add: drop_page_def dealloc_def memory_frame)

lemma dropped_inv:
  assumes inv: "key_inv E (ks, m)" and k: "k \<in> ks"
  shows "key_inv E (ks - {k}, drop_page E k m)"
  unfolding key_inv_def Let_def fst_conv snd_conv
proof (intro conjI)
  show "\<forall>x\<in>ks - {k}. kp_len x = page_bytes \<and> kp_ptr x mod page_bytes = 0 \<and>
      unat (kp_ptr x) + unat page_bytes < 2 ^ 64 \<and> pages (drop_page E k m) (kp_ptr x) = Some page_bytes"
    using invD(1-4) [OF inv] ptr_inj [OF inv _ k] by (auto simp: drop_frame)
  show "\<forall>q l. pages (drop_page E k m) q = Some l \<longrightarrow> l = page_bytes \<and> (\<exists>x\<in>ks - {k}. kp_ptr x = q)"
    using invD(7) [OF inv] by (auto simp: drop_frame)
  show "\<forall>x\<in>ks - {k}. \<forall>y\<in>ks - {k}. \<forall>a. x \<noteq> y \<longrightarrow> within (kp_ptr x) page_bytes a \<longrightarrow>
      \<not> within (kp_ptr y) page_bytes a"
    using invD(5) [OF inv] by blast
  show "\<forall>a. cells (drop_page E k m) a \<noteq> 0 \<longrightarrow> (\<exists>x\<in>ks - {k}. unat (a - kp_ptr x) < MASTER_KEY_BYTES)"
    using invD(6) [OF inv] key_within by (auto simp: drop_frame invD(1) [OF inv k]) blast
qed

lemma step_inv:
  assumes "key_step E w w'" "key_inv E w"
  shows "key_inv E w'"
  using assms(1)
proof cases
  case (Made bs m k m' ks)
  then show ?thesis using made_inv assms(2) by simp
next
  case (Refused bs m e m' ks)
  then show ?thesis using assms(2) page_refused [OF Refused(4)] by simp
next
  case (Dropped k ks m)
  then show ?thesis using dropped_inv assms(2) by simp
qed

lemma start_inv: "key_inv E ({}, fresh_memory)"
  by (simp add: key_inv_def fresh_memory_def)

lemma reachable_inv: "keys_reachable E w \<Longrightarrow> key_inv E w"
  unfolding keys_reachable_def by (induction rule: rtranclp_induct) (rule start_inv, rule step_inv)

end

section \<open>The stores' view\<close>

text \<open>
  What the stores expect of making a key from given bytes: it is a new place of their view that holds these
  very bytes, with every other key as it was; or the attempt is refused and the view is unchanged.
\<close>

definition makes_key ::
    "key_page set \<times> memory \<Rightarrow> bytes \<Rightarrow> key_page res \<times> memory \<Rightarrow> bool" where
  "makes_key w bs r = (case r of
       (Inl _, m') \<Rightarrow> held_keys (fst w, m') = held_keys w
     | (Inr k, m') \<Rightarrow> held_keys w (kp_ptr k) = None \<and> as_key k m' = bs \<and>
                     held_keys (insert k (fst w), m') = (held_keys w)(kp_ptr k \<mapsto> bs))"

context key_memory
begin

lemma key_cell: "i < MASTER_KEY_BYTES \<Longrightarrow> unat ((p + word_of_nat i) - p :: u64) = i"
  by (simp add: MASTER_KEY_BYTES_def unsigned_of_nat take_bit_nat_eq_self)

lemma held_eq:
  "held_keys (ks, m) p = (if \<exists>k\<in>ks. kp_ptr k = p
     then Some (map (\<lambda>i. cells m (p + word_of_nat i)) [0..<MASTER_KEY_BYTES]) else None)"
  by (simp add: held_keys_def)

lemma held_as_key: "k \<in> ks \<Longrightarrow> held_keys (ks, m) (kp_ptr k) = Some (as_key k m)"
  by (auto simp: held_eq as_key_def cell_at_def)

lemma made_held:
  assumes inv: "key_inv E (ks, m)" and made: "page_from_bytes E bs m = (Inr k, m')"
    and len: "length bs = MASTER_KEY_BYTES"
  shows "held_keys (ks, m) (kp_ptr k) = None"
    "held_keys (insert k ks, m') = (held_keys (ks, m))(kp_ptr k \<mapsto> bs)"
proof -
  obtain p where p: "p = me_alloc E m page_bytes" "p \<noteq> 0" and k: "kp_ptr k = p"
      and cells: "cells m' = (\<lambda>a. let i = unat (a - p) in if i < MASTER_KEY_BYTES then bs ! i
         else if within p page_bytes a then 0 else cells m a)"
    by (rule page_from_bytes_cases [OF made]) auto
  note apart = new_disjoint [OF inv p]
  show none: "held_keys (ks, m) (kp_ptr k) = None" using apart(2) by (auto simp: held_eq k)
  show "held_keys (insert k ks, m') = (held_keys (ks, m))(kp_ptr k \<mapsto> bs)"
  proof
    fix q
    show "held_keys (insert k ks, m') q = ((held_keys (ks, m))(kp_ptr k \<mapsto> bs)) q"
    proof (cases "q = p")
      case True
      have "map (\<lambda>i. cells m' (p + word_of_nat i)) [0..<MASTER_KEY_BYTES] = bs"
        by (rule nth_equalityI) (simp_all add: len cells Let_def key_cell [simplified])
      then show ?thesis using True by (simp add: held_eq k)
    next
      case False
      have same: "cells m' (q + word_of_nat i) = cells m (q + word_of_nat i)"
        if x: "x \<in> ks" "kp_ptr x = q" and i: "i < MASTER_KEY_BYTES" for x i
      proof -
        have "within (kp_ptr x) page_bytes (q + word_of_nat i)"
          unfolding x(2) by (rule key_within) (simp only: key_cell i)
        then have "\<not> within p page_bytes (q + word_of_nat i)" using apart(1) x(1) by blast
        moreover from this have "\<not> unat (q + word_of_nat i - p) < MASTER_KEY_BYTES" using key_within by blast
        ultimately show ?thesis by (simp add: cells Let_def)
      qed
      show ?thesis using False same by (auto simp: held_eq k)
    qed
  qed
qed

lemma dropped_held:
  assumes inv: "key_inv E (ks, m)" and k: "k \<in> ks"
  shows "held_keys (ks - {k}, drop_page E k m) = (held_keys (ks, m))(kp_ptr k := None)"
proof
  fix q
  have same: "cells (drop_page E k m) (q + word_of_nat i) = cells m (q + word_of_nat i)"
    if x: "x \<in> ks" "kp_ptr x = q" "x \<noteq> k" and i: "i < MASTER_KEY_BYTES" for x i
  proof -
    have "within (kp_ptr x) page_bytes (q + word_of_nat i)"
      unfolding x(2) by (rule key_within) (simp only: key_cell i)
    then have "\<not> within (kp_ptr k) page_bytes (q + word_of_nat i)" using invD(5) [OF inv] x k by blast
    then show ?thesis by (simp add: drop_frame invD(1) [OF inv k])
  qed
  show "held_keys (ks - {k}, drop_page E k m) q = ((held_keys (ks, m))(kp_ptr k := None)) q"
  proof (cases "\<exists>x\<in>ks. kp_ptr x = q \<and> x \<noteq> k")
    case True
    then obtain x where x: "x \<in> ks" "kp_ptr x = q" "x \<noteq> k" by blast
    then have "q \<noteq> kp_ptr k" using ptr_inj [OF inv _ k] by blast
    moreover have "\<exists>y\<in>ks - {k}. kp_ptr y = q" "\<exists>y\<in>ks. kp_ptr y = q" using x by blast+
    ultimately show ?thesis using same [OF x] by (simp add: held_eq)
  next
    case False
    then have none: "\<not> (\<exists>x\<in>ks - {k}. kp_ptr x = q)" by blast
    show ?thesis
    proof (cases "q = kp_ptr k")
      case True
      then show ?thesis using none by (simp add: held_eq)
    next
      case False
      then have "\<not> (\<exists>x\<in>ks. kp_ptr x = q)" using none by blast
      then show ?thesis using none False by (simp only: held_eq if_False fun_upd_apply)
    qed
  qed
qed

lemma from_bytes_makes:
  assumes inv: "key_inv E (ks, m)" and len: "length bs = MASTER_KEY_BYTES"
  shows "makes_key (ks, m) bs (page_from_bytes E bs m)"
proof (cases "page_from_bytes E bs m")
  case (Pair r m')
  show ?thesis
  proof (cases r)
    case (Inl e)
    then show ?thesis using Pair page_refused [of E bs m e m'] by (simp add: makes_key_def)
  next
    case (Inr k)
    note made = made_held [OF inv Pair [unfolded Inr] len]
    have "held_keys (insert k ks, m') (kp_ptr k) = Some (as_key k m')" by (rule held_as_key) simp
    then have "as_key k m' = bs" using made(2) by simp
    then show ?thesis using made by (simp add: makes_key_def Pair Inr)
  qed
qed

end

section \<open>Pages are locked while they hold a key\<close>

definition pin_inv :: "memory_env \<Rightarrow> key_page set \<times> memory \<Rightarrow> bool" where
  "pin_inv E w \<longleftrightarrow> key_inv E w \<and>
     (\<forall>a. pinned (snd w) a \<longleftrightarrow> (\<exists>k\<in>fst w. within (kp_ptr k) (kp_len k) a)) \<and>
     (fst w \<noteq> {} \<longrightarrow> hardened (snd w))"

locale locking_memory = key_memory +
  assumes obeys: "\<not> me_refuses E n" and target: "me_target E \<noteq> TargetOther"
begin

lemma pinned_lock:
  assumes "p mod page_bytes = 0" "unat p + unat page_bytes < 2 ^ 64"
  shows "pinned (lock_memory E p page_bytes m) a \<longleftrightarrow> within p page_bytes a \<or> pinned m a"
    "pinned (unlock_memory E p page_bytes m) a \<longleftrightarrow> pinned m a \<and> \<not> within p page_bytes a"
  using target aligned_span [OF assms]
  by (auto simp: lock_memory_def unlock_memory_def kernel_calls_frame mlock_def munlock_def kernel_def
      obeys split: target.split)

lemma hardened_harden: "hardened (harden_process_memory E m)"
  using target by (simp add: harden_process_memory_def kernel_def obeys split: target.split)

lemma step_pin:
  assumes "key_step E w w'" "pin_inv E w"
  shows "pin_inv E w'"
  using assms(1)
proof cases
  case (Made bs m k m' ks)
  have inv: "key_inv E (ks, m)" and pins: "\<And>a. pinned m a \<longleftrightarrow> (\<exists>k\<in>ks. within (kp_ptr k) (kp_len k) a)"
    using assms(2) by (simp_all add: pin_inv_def Made(1))
  obtain p where p: "p = me_alloc E m page_bytes" "p \<noteq> 0" and k: "kp_ptr k = p" "kp_len k = page_bytes"
      and pinned: "pinned m' = pinned (lock_memory E p page_bytes (harden_process_memory E
         (snd (alloc_zeroed E (page_bytes, page_bytes) m))))"
      and hard: "hardened m'"
    by (rule page_from_bytes_cases [OF Made(4)]) (auto simp: hardened_harden)
  have "pinned (snd (alloc_zeroed E (page_bytes, page_bytes) m)) = pinned m"
    using p by (simp add: alloc_zeroed_def Let_def)
  then have "pinned m' a \<longleftrightarrow> within p page_bytes a \<or> pinned m a" for a
    by (simp add: pinned pinned_lock [OF alloc_new(1,2) [OF p]] memory_frame)
  then show ?thesis
    using made_inv [OF inv Made(4)] hard k by (simp add: pin_inv_def Made(2) pins)
next
  case (Refused bs m e m' ks)
  then show ?thesis using assms(2) page_refused [OF Refused(4)] by simp
next
  case (Dropped k ks m)
  have inv: "key_inv E (ks, m)" and pins: "\<And>a. pinned m a \<longleftrightarrow> (\<exists>k\<in>ks. within (kp_ptr k) (kp_len k) a)"
      and hard: "hardened m"
    using assms(2) Dropped by (auto simp: pin_inv_def)
  note k = invD(1-3) [OF inv Dropped(3)]
  have "pinned (drop_page E k m) a \<longleftrightarrow> pinned m a \<and> \<not> within (kp_ptr k) page_bytes a" for a
    by (simp add: drop_page_def dealloc_def k(1) pinned_lock [OF k(2,3)])
  then have "pinned (drop_page E k m) a \<longleftrightarrow> (\<exists>x\<in>ks - {k}. within (kp_ptr x) (kp_len x) a)" for a
    using invD(1,5) [OF inv] Dropped(3) k(1) pins by (metis DiffE DiffI insertI1 singletonD)
  then show ?thesis
    using dropped_inv [OF inv Dropped(3)] hard
    by (simp add: pin_inv_def Dropped(2) drop_page_def dealloc_def memory_frame)
qed

lemma reachable_pin: "keys_reachable E w \<Longrightarrow> pin_inv E w"
  unfolding keys_reachable_def
proof (induction rule: rtranclp_induct)
  case base
  show ?case by (simp add: pin_inv_def start_inv) (simp add: fresh_memory_def)
qed (rule step_pin)

end

section \<open>Properties\<close>

text \<open>
  C32. Key material is only where a live key is: whatever keys the process makes and drops, and whatever
  calls of the kernel fail, a byte that is not zero is one of the 32 bytes of a key whose page is still
  allocated. Nothing of a key is left in a page that was freed, nor beside a key.
\<close>

theorem key_pages_erased:
  assumes "alloc_laws E" and "MASTER_KEY_BYTES \<le> unat (system_page_size E)"
    and "keys_reachable E (ks, m)" and "cells m a \<noteq> 0"
  shows "\<exists>k\<in>ks. pages m (kp_ptr k) = Some (kp_len k) \<and> unat (a - kp_ptr k) < MASTER_KEY_BYTES"
proof -
  note memory = key_memory.intro [OF assms(1,2)]
  note inv = key_memory.reachable_inv [OF memory assms(3)]
  show ?thesis
    using key_memory.invD(1,4,6) [OF memory inv] assms(4) by metis
qed

text \<open>
  C33. The stores see a key as 32 bytes that live until the key is dropped; the pages implement that, at any
  moment: making a key from given bytes, or from what the random generator fills in, puts exactly these
  bytes at a place where there was no key, or is refused and changes nothing; every live key reads as the
  bytes that are held for it; and dropping a key takes away its bytes and those of no other.
\<close>

theorem key_pages_refine:
  assumes "alloc_laws E" and "MASTER_KEY_BYTES \<le> unat (system_page_size E)"
    and "keys_reachable E (ks, m)" and "length bs = MASTER_KEY_BYTES"
  shows "makes_key (ks, m) bs (page_from_bytes E bs m) \<and>
    makes_key (ks, m) (map rnd [0..<MASTER_KEY_BYTES]) (page_generate_locked E rnd m) \<and>
    (\<forall>k\<in>ks. held_keys (ks, m) (kp_ptr k) = Some (as_key k m) \<and>
      held_keys (ks - {k}, drop_page E k m) = (held_keys (ks, m))(kp_ptr k := None))"
proof -
  note memory = key_memory.intro [OF assms(1,2)]
  note inv = key_memory.reachable_inv [OF memory assms(3)]
  have "page_generate_locked E rnd m = page_from_bytes E (map rnd [0..<MASTER_KEY_BYTES]) m"
    by (simp add: page_generate_locked_def page_from_bytes_def)
  then show ?thesis
    using key_memory.from_bytes_makes [OF memory inv] key_memory.dropped_held [OF memory inv]
      key_memory.held_as_key [OF memory] assms(4) by simp
qed

text \<open>
  When the kernel does what it is asked, exactly the pages of live keys are pinned in RAM, at every
  moment, and core dumps are disabled as soon as there is a key: dropping a key never unpins another,
  though the calls work on ranges rounded to pages.
\<close>

theorem key_pages_pinned:
  assumes "alloc_laws E" and "MASTER_KEY_BYTES \<le> unat (system_page_size E)"
    and "\<forall>n. \<not> me_refuses E n" and "me_target E \<noteq> TargetOther" and "keys_reachable E (ks, m)"
  shows "(\<forall>a. pinned m a \<longleftrightarrow> (\<exists>k\<in>ks. within (kp_ptr k) (kp_len k) a)) \<and> (ks \<noteq> {} \<longrightarrow> hardened m)"
proof -
  have "locking_memory E"
    using assms by (intro locking_memory.intro key_memory.intro locking_memory_axioms.intro) blast+
  from locking_memory.reachable_pin [OF this assms(5)] show ?thesis by (simp add: pin_inv_def)
qed

section \<open>Two pages\<close>

text \<open>A Linux system with pages of 4096 bytes whose allocator has room for two of them.\<close>

definition sample_memory :: memory_env where
  "sample_memory = \<lparr>me_target = TargetLinux, me_page_size = 4096,
     me_alloc = (\<lambda>m n. if n \<noteq> 4096 then 0 else if pages m = Map.empty then 4096
       else if pages m = [4096 \<mapsto> 4096] then 8192 else 0),
     me_refuses = (\<lambda>_. False)\<rparr>"

lemma sample_page_size: "system_page_size sample_memory = 4096"
  by (simp add: system_page_size_def sample_memory_def)

lemma neighbours_apart: "within 8192 4096 a \<Longrightarrow> \<not> within 4096 4096 a"
proof -
  assume "within 8192 4096 a"
  then have "unat (a - 8192) < 4096" by (simp add: within_def word_less_nat_alt)
  moreover from this have "unat ((a - 8192) + 4096) = unat (a - 8192) + 4096"
    by (subst unat_add_lem [THEN iffD1]) simp_all
  ultimately show ?thesis by (simp add: within_def word_less_nat_alt)
qed

lemma sample_alloc: "alloc_laws sample_memory"
  unfolding alloc_laws_def
  by (auto simp: sample_memory_def dest: neighbours_apart split: if_splits)

lemma sample_room: "MASTER_KEY_BYTES \<le> unat (system_page_size sample_memory)"
  by (simp add: sample_page_size MASTER_KEY_BYTES_def)

interpretation sample_keys: locking_memory sample_memory
  by unfold_locales (simp_all add: sample_alloc sample_room, simp_all add: sample_memory_def)

definition first_page :: key_page where
  "first_page = \<lparr>kp_ptr = 4096, kp_len = 4096, kp_layout = (4096, 4096)\<rparr>"

definition with_first_key :: memory where
  "with_first_key = snd (page_from_bytes sample_memory (replicate 32 7) fresh_memory)"

lemma first_key: "page_from_bytes sample_memory (replicate 32 7) fresh_memory = (Inr first_page, with_first_key)"
proof -
  have "power_of_two 4096" unfolding power_of_two_def by (rule bexI [of _ 12]) simp_all
  then have "layout_from_size_align 4096 4096 = Inr (4096, 4096)" by (simp add: layout_from_size_align_def)
  then have "fst (page_from_bytes sample_memory (replicate 32 7) fresh_memory) = Inr first_page"
    by (simp add: page_from_bytes_def page_zeroed_locked_def new_zeroed_def Let_def sample_page_size
        alloc_zeroed_def first_page_def) (simp add: sample_memory_def fresh_memory_def)
  then show ?thesis by (simp add: with_first_key_def prod_eq_iff)
qed

lemma first_cells: "cells with_first_key 4100 = 7" "pages with_first_key = [4096 \<mapsto> 4096]"
  by (rule page_from_bytes_cases [OF first_key];
      simp add: first_page_def sample_page_size MASTER_KEY_BYTES_def fresh_memory_def)+

lemma first_step: "key_step sample_memory ({}, fresh_memory) ({first_page}, with_first_key)"
  by (rule key_step.Made [OF _ first_key]) (simp add: MASTER_KEY_BYTES_def)

lemma first_reachable: "keys_reachable sample_memory ({first_page}, with_first_key)"
  unfolding keys_reachable_def by (rule r_into_rtranclp) (rule first_step)

theorem key_pages_erased_witness:
  "cells with_first_key 4100 = 7 \<and> (\<exists>k\<in>{first_page}. pages with_first_key (kp_ptr k) = Some (kp_len k) \<and>
     unat (4100 - kp_ptr k) < MASTER_KEY_BYTES)"
  using key_pages_erased [OF sample_alloc sample_room first_reachable, of 4100] by (simp add: first_cells)

theorem key_pages_refine_witness:
  "held_keys ({first_page}, with_first_key) 4096 = Some (as_key first_page with_first_key) \<and>
   as_key first_page with_first_key = replicate 32 7 \<and>
   held_keys ({}, drop_page sample_memory first_page with_first_key) 4096 = None"
proof -
  have start: "keys_reachable sample_memory ({}, fresh_memory)" by (simp add: keys_reachable_def)
  have len: "length (replicate 32 (7 :: byte)) = MASTER_KEY_BYTES" by (simp add: MASTER_KEY_BYTES_def)
  have "as_key first_page with_first_key = replicate 32 7"
    using key_pages_refine [OF sample_alloc sample_room start len] by (simp add: makes_key_def first_key)
  moreover have "held_keys ({first_page}, with_first_key) (kp_ptr first_page) = Some (as_key first_page with_first_key) \<and>
      held_keys ({first_page} - {first_page}, drop_page sample_memory first_page with_first_key) (kp_ptr first_page) = None"
    using key_pages_refine [OF sample_alloc sample_room first_reachable len] by simp
  ultimately show ?thesis by (simp add: first_page_def)
qed

theorem key_pages_pinned_witness:
  "pinned with_first_key 5000 \<and> \<not> pinned with_first_key 8192 \<and> hardened with_first_key"
  using key_pages_pinned [OF sample_alloc sample_room _ _ first_reachable]
  by (simp add: sample_memory_def) (simp add: first_page_def within_def)

theorem page_span_covers_witness:
  "page_span sample_memory 5000 32 = (4096, 4096) \<and> unat (5000 :: u64) + 32 \<le> 4096 + 4096"
proof -
  have span: "page_span sample_memory 5000 32 = (4096, 4096)"
    by (simp add: page_span_def sample_page_size div_ceil_def)
  show ?thesis using page_span_covers [OF _ span] span by (simp add: sample_page_size)
qed

end
