(* ===== verification/BuildScript.thy ===== *)
theory BuildScript
  imports FileSys
begin

text \<open>
  The build script of the two crates that link the TPM libraries: \<open>build.rs\<close> of \<open>avault-cli\<close> and of
  \<open>avault-store\<close> are the same text. It prints instructions for cargo, one per line: when to run it again,
  and for a native build on Linux the directories and the arguments the linker is given. The programs it
  runs (\<open>pkg-config\<close>, \<open>gcc\<close>), the variables cargo sets and the standard output are a parameter. A panic
  carries its message up to the text of its cause.
\<close>

section \<open>The script\<close>

record process_output =
  op_success :: bool
  op_stdout :: bytes
  op_stderr :: bytes

record build_env =
  be_var :: "string \<Rightarrow> string option"
  be_output :: "string \<Rightarrow> string list \<Rightarrow> io_kind + process_output"
  be_stdout_ok :: "string list \<Rightarrow> bool"

text \<open>The state of the script is the list of the lines printed so far; \<open>println!\<close> panics where the output fails.\<close>

definition build_println :: "build_env \<Rightarrow> string \<Rightarrow> string list \<Rightarrow> unit res \<times> string list" where
  "build_println E line out =
     (if be_stdout_ok E out then (Inr (), out @ [line]) else (Inl [Panic ''failed printing to stdout''], out))"

fun build_printlns :: "build_env \<Rightarrow> string list \<Rightarrow> string list \<Rightarrow> unit res \<times> string list" where
  "build_printlns E [] out = (Inr (), out)"
| "build_printlns E (line # ls) out = then_st (build_println E line out) (\<lambda>_. build_printlns E ls)"

(* SRC storebuild print_pkg_config_libdir *)
definition print_pkg_config_libdir :: "build_env \<Rightarrow> string \<Rightarrow> string list \<Rightarrow> unit res \<times> string list" where
  "print_pkg_config_libdir E package out =
     (case be_output E ''pkg-config'' [''--variable=libdir'', package] of
        Inl k \<Rightarrow> (Inl [Panic (''failed to run pkg-config for '' @ package)], out)
      | Inr child \<Rightarrow>
          if \<not> op_success child then (Inl [Panic (''pkg-config failed for '' @ package)], out)
          else (case from_utf8 (op_stdout child) of
              None \<Rightarrow> (Inl [Panic (''pkg-config returned non-UTF-8 libdir for '' @ package)], out)
            | Some libdir \<Rightarrow> build_println E (''cargo:rustc-link-search=native='' @ str_trim libdir) out))"

(* SRC storebuild print_gcc_file_libdir *)
definition print_gcc_file_libdir :: "build_env \<Rightarrow> string \<Rightarrow> string list \<Rightarrow> unit res \<times> string list" where
  "print_gcc_file_libdir E file out =
     (case be_output E ''gcc'' [''-print-file-name='' @ file] of
        Inl k \<Rightarrow> (Inl [Panic (''failed to run gcc for '' @ file)], out)
      | Inr child \<Rightarrow>
          if \<not> op_success child then (Inl [Panic (''gcc failed while locating '' @ file)], out)
          else (case from_utf8 (op_stdout child) of
              None \<Rightarrow> (Inl [Panic (''gcc returned non-UTF-8 path for '' @ file)], out)
            | Some path \<Rightarrow>
                (case path_parent (as_bytes (str_trim path)) of
                   None \<Rightarrow> (Inl [Panic (''gcc did not return a path for '' @ file)], out)
                 | Some libdir \<Rightarrow> build_println E (''cargo:rustc-link-search=native='' @ string_of libdir) out)))"

(* SRC storebuild 16-31 main *)
definition linker_args :: "string list" where
  "linker_args =
     [''-Wl,-Bstatic'', ''-Wl,--start-group'', ''-ltss2-esys'', ''-ltss2-sys'', ''-ltss2-tctildr'',
      ''-ltss2-tcti-device'', ''-ltss2-mu'', ''-lcrypto'', ''-latomic'', ''-lgcc'', ''-Wl,--end-group'',
      ''-Wl,-Bdynamic'', ''-lc'']"

definition unwrap_or_default :: "string option \<Rightarrow> string" where
  "unwrap_or_default v = (case v of None \<Rightarrow> [] | Some s \<Rightarrow> s)"

(* SRC storebuild main *)
definition build_main :: "build_env \<Rightarrow> string list \<Rightarrow> unit res \<times> string list" where
  "build_main E out =
     then_st (build_println E ''cargo:rerun-if-changed=build.rs'' out) (\<lambda>_ out.
     then_st (build_println E ''cargo:rerun-if-env-changed=HOST'' out) (\<lambda>_ out.
     then_st (build_println E ''cargo:rerun-if-env-changed=TARGET'' out) (\<lambda>_ out.
       let host = unwrap_or_default (be_var E ''HOST'');
           target = unwrap_or_default (be_var E ''TARGET'')
       in if target = host \<and> occurs ''linux'' target then
            then_st (print_pkg_config_libdir E ''libcrypto'' out) (\<lambda>_ out.
            then_st (print_gcc_file_libdir E ''libatomic.a'' out) (\<lambda>_ out.
            then_st (print_gcc_file_libdir E ''libgcc.a'' out) (\<lambda>_.
              build_printlns E (map (\<lambda>arg. ''cargo:rustc-link-arg='' @ arg) linker_args))))
          else (Inr (), out))))"

section \<open>What cargo is told\<close>

definition is_native_linux :: "build_env \<Rightarrow> bool" where
  "is_native_linux E \<longleftrightarrow> (let target = unwrap_or_default (be_var E ''TARGET'')
     in target = unwrap_or_default (be_var E ''HOST'') \<and> occurs ''linux'' target)"

definition tool_text :: "build_env \<Rightarrow> string \<Rightarrow> string \<Rightarrow> string \<Rightarrow> bool" where
  "tool_text E program arg text_out \<longleftrightarrow> (\<exists>child.
     be_output E program (if program = ''gcc'' then [''-print-file-name='' @ arg] else [''--variable=libdir'', arg]) = Inr child \<and>
     op_success child \<and> from_utf8 (op_stdout child) = Some text_out)"

definition gcc_libdir :: "build_env \<Rightarrow> string \<Rightarrow> string \<Rightarrow> bool" where
  "gcc_libdir E file dir \<longleftrightarrow> (\<exists>t d. tool_text E ''gcc'' file t \<and> path_parent (as_bytes (str_trim t)) = Some d \<and> dir = string_of d)"

definition search_line :: "string \<Rightarrow> string" where
  "search_line dir = ''cargo:rustc-link-search=native='' @ dir"

definition rerun_lines :: "string list" where
  "rerun_lines = [''cargo:rerun-if-changed=build.rs'', ''cargo:rerun-if-env-changed=HOST'', ''cargo:rerun-if-env-changed=TARGET'']"

lemma build_println_ok: "build_println E line out = (Inr u, out') \<longleftrightarrow> be_stdout_ok E out \<and> out' = out @ [line]"
  by (auto simp: build_println_def)

lemma build_printlns_ok: "build_printlns E ls out = (Inr u, out') \<Longrightarrow> out' = out @ ls"
  by (induction ls arbitrary: out) (fastforce simp: res_simps build_println_ok)+

lemma print_pkg_config_libdir_ok:
  "print_pkg_config_libdir E package out = (Inr u, out') \<longleftrightarrow>
     be_stdout_ok E out \<and> (\<exists>t. tool_text E ''pkg-config'' package t \<and> out' = out @ [search_line (str_trim t)])"
  by (auto simp: print_pkg_config_libdir_def tool_text_def build_println_ok search_line_def
      split: sum.splits option.splits)

lemma print_gcc_file_libdir_ok:
  "print_gcc_file_libdir E file out = (Inr u, out') \<longleftrightarrow>
     be_stdout_ok E out \<and> (\<exists>dir. gcc_libdir E file dir \<and> out' = out @ [search_line dir])"
  by (auto simp: print_gcc_file_libdir_def gcc_libdir_def tool_text_def build_println_ok search_line_def
      split: sum.splits option.splits)

text \<open>
  A build that is not native, or not for Linux, runs no program and prints when to run again. A native one
  for Linux ends well only where every program ran, and then gives the linker the three directories they
  named and the static group, in that order.
\<close>

lemma build_main_cross: "\<not> is_native_linux E \<Longrightarrow> (\<And>o'. be_stdout_ok E o') \<Longrightarrow> build_main E [] = (Inr (), rerun_lines)"
  by (auto simp: build_main_def build_println_def is_native_linux_def rerun_lines_def Let_def)

lemma build_main_native:
  assumes "build_main E [] = (Inr (), out)" "is_native_linux E"
  shows "\<exists>crypto atomic gcc. tool_text E ''pkg-config'' ''libcrypto'' crypto \<and>
    gcc_libdir E ''libatomic.a'' atomic \<and> gcc_libdir E ''libgcc.a'' gcc \<and>
    out = rerun_lines @ map search_line [str_trim crypto, atomic, gcc] @
      map (\<lambda>arg. ''cargo:rustc-link-arg='' @ arg) linker_args"
  using assms
  by (auto simp: build_main_def is_native_linux_def Let_def res_simps build_println_ok rerun_lines_def
      print_pkg_config_libdir_ok print_gcc_file_libdir_ok simp del: map_append dest!: build_printlns_ok) blast

end
