(* ===== verification/Spec2Isabelle.thy ===== *)
theory Spec2Isabelle
  imports BlindBox Signing CliArgs Fetch Frames MasterCache KeyTransfer KeyKeeping AgentTypes AgentFlow WindowsAcl TpmSession LockedMemory
    BuildScript
begin

text \<open>
  \<^bold>\<open>The program.\<close>

  avault is the custody program of a vault: a command-line program that seals secrets into envelopes,
  opens them for a child process, a file or an HTTP request, keeps the master key of the machine in one
  of several stores, and runs as a resident agent that uses protected secrets under time-limited grants.
  The code is in five files, and a build script:

  \<^item> \<open>src/crates/avault-core/src/lib.rs\<close>, \<open>blind_box.rs\<close> and \<open>signing.rs\<close>: envelopes, blind boxes,
    signing. Pure functions of their arguments and of random draws.
  \<^item> \<open>src/crates/avault-store/src/lib.rs\<close>: the stores of the master key and the memory it is held in.
  \<^item> \<open>src/crates/avault-cli/src/main.rs\<close>: the commands, the agent and its protocol.

  The master key opens the data key (DEK) of a standard-tier envelope. A protected envelope is opened with
  a DEK that the user's browser releases to the agent in a blind box, bound to the approval of an operation;
  the agent keeps it in a grant until the grant expires.

  \<^bold>\<open>Theories.\<close>

  Shared: \<open>Prelude\<close> (machine integers, bytes, errors and the sequencing of fallible and stateful code),
  \<open>Text\<close> (the parts of std's text handling), \<open>StoreTypes\<close> (backends, paths, the peer check).

  The core crate:
  \<^item> \<open>Envelope\<close>: \<open>seal\<close>, \<open>open\<close> (\<open>open_envelope\<close> here), \<open>open_with_dek\<close>, \<open>export_master_key\<close>, \<open>import_master_key\<close>.
  \<^item> \<open>BlindBox\<close>: \<open>BlindBoxContext\<close>, \<open>aad_bytes\<close>, \<open>operation_hash\<close>, \<open>open_blind_box\<close>.
  \<^item> \<open>Signing\<close>: \<open>sign_digest\<close> and the schemes below it, with the BIP341 tweak.

  The store crate:
  \<^item> \<open>FileSys\<close>: secret directories and \<open>atomic_write_secret_file\<close> over a file system; \<open>WindowsAcl\<close>: what
    stands for its mode checks on Windows.
  \<^item> \<open>LockedMemory\<close>: \<open>LockedKeyPage\<close>, \<open>MasterKey\<close>, locking of pages.
  \<^item> \<open>FileStore\<close>, \<open>PassphraseStore\<close>, \<open>TpmStore\<close> with \<open>TpmSession\<close> (\<open>EsapiTpmBackend\<close>), \<open>Keychain\<close>: the stores
    and the \<open>auto\<close> policies of Linux and macOS.
  \<^item> \<open>AuthGate\<close>: the lock file that serializes the prompts of \<open>key authorize\<close> across processes.
  \<^item> \<open>MasterKeys\<close>: the four operations that the commands call; \<open>KeychainPrompts\<close>: which of them may prompt.

  The commands:
  \<^item> \<open>KeyImportJson\<close>, \<open>StdinIO\<close>, \<open>CliArgs\<close>: what is read; \<open>ImportText\<close>: the grammar of JSON, and the scanner of
    \<open>KeyImportJson\<close> on its texts. \<open>Rendering\<close>, \<open>Fetch\<close>: what is written and sent.
  \<^item> \<open>Delivery\<close>: opening the secrets of a request, for one-shot commands and for the agent.
  \<^item> \<open>Commands\<close>: \<open>run\<close> (\<open>run_program\<close>) and every command below it; \<open>CommandEffects\<close> and
    \<open>CommandProperties\<close>: whole runs. \<open>KeyTransfer\<close>: a run of \<open>key export\<close> and a run of \<open>key import\<close> elsewhere.
    \<open>KeyKeeping\<close>: no run loses a key.

  The agent:
  \<^item> \<open>AgentState\<close> (the grant table), \<open>MasterCache\<close> (\<open>AgentMasterCache\<close>), \<open>Admission\<close> (the bound on connections).
  \<^item> \<open>AgentGrant\<close>, \<open>AgentHandler\<close>: every request, and \<open>handle_agent_frame\<close>. \<open>Frames\<close>: the two framed protocols.
  \<^item> \<open>AgentFlow\<close>: a grant request and a delivery that follows, up to what the helper reads.
  \<^item> \<open>AgentSocket\<close>, \<open>AgentServer\<close>: the socket, the listener and its connections. \<open>AgentTypes\<close>: an invariant
    carried through all of them.

  The build: \<open>BuildScript\<close> is \<open>build.rs\<close>, which is the same text in the two crates that have one.

  A definition has the name of the function or type it models, with a prefix where several have the
  same name (\<open>file_get\<close>, \<open>tpm_get_with\<close>, \<open>win_validate_file_mode\<close>) and a suffix where HOL has the name.

  \<^bold>\<open>State and interaction.\<close>

  \<^item> A \<open>Result\<close> is a sum whose left side is the list of causes of the \<open>anyhow\<close> error, outermost first
    (\<open>context\<close> puts one in front); a panic is an error whose cause is \<open>Panic\<close>. A stateful function takes
    its state last and returns its result with the new state.
  \<^item> Files: \<open>fs\<close>, a map from paths to nodes with a counter of the calls. The environment \<open>os\<close> says by that
    counter which call fails, so a property holds for every pattern of failures. The macOS functions work
    on a pair of \<open>fs\<close> and the Keychain; the state of the gate holds them as its world; the state of
    a run of the program, \<open>command_sys\<close>, holds the gate, standard input and output, and the child processes.
  \<^item> The agent: a worker's state is \<open>agent_sys\<close>, with the table that all workers share. Each section that holds
    the table's lock is one step, and before each the environment (\<open>ae_others\<close>) replaces the table by what
    other workers may have made of it. \<open>AgentState.agent_run\<close>, \<open>MasterCache.cache_run\<close> and
    \<open>Admission.admission_run\<close> interleave the steps of any number of threads.
    The listener purges that table and the cached master in each of its turns, each under its own lock;
    what the workers do with the cached master is again a function of the environment (\<open>sv_cache_others\<close>). A run of
    the command \<open>agent\<close> (\<open>run_program\<close>) ends where the listener starts: \<open>Serving\<close> hands over to \<open>AgentServer\<close>.
  \<^item> Environments extend each other: \<open>agent_env\<close>, \<open>worker_env\<close>, and from that \<open>server_env\<close> and \<open>command_env\<close>.
  \<^item> Keys are bytes for the stores; \<open>LockedMemory.held_keys\<close> is how pages of memory implement that.

  \<^bold>\<open>What is shown.\<close>

  Each property carries its number C1 to C40 in the text above its theorem.

  \<^item> Envelopes and boxes: what opening accepts, exactly; what is sealed opens; associated data is injective
    in the name and the context; a blind box works for one operation (C1, C2, C14 to C16); beside the numbered ones, \<open>Envelope.export_then_import\<close>, and
    \<open>PassphraseStore.passphrase_file_is_export\<close>.
  \<^item> Whole runs: a value that is sealed reaches the child it is delivered to, a key that is exported arrives
    on another machine, no run loses a key, a child holds what was opened and nothing else, errors print
    nothing, only \<open>key authorize\<close> prompts (C3, C5, C6, C8, C29, C30).
  \<^item> Reading an import: the scanner of JSON is the lookup of a field in an object of the grammar (C7).
  \<^item> Grants: a grant holds only keys that fresh approvals released and ends with the first of them; a nonce is
    used once whatever the interleaving; the table refines its abstract meaning; a refused request spends
    no approval; a key is used only for what the grant names, under a grant that was live in the table the
    request itself found (C9 to C13, C19, C20; \<open>AgentHandler.grant_use_safe\<close>);
    and what was approved is granted and reaches its command (C4).
  \<^item> Signing and fetching: signatures verify under the public key that is returned; requests go only
    to allowed hosts; redaction and rendering are exact (C17, C18, C39, C40; \<open>Signing.taproot_output_key\<close>).
  \<^item> The agent as a server: the socket is private, only the user's processes are served, the number of workers is
    bounded, no request for the master key is stuck, connections and the listener go on, the table stays
    well formed (C21 to C27).
  \<^item> Stores: loading keeps to its policy (also \<open>TpmStore.linux_auto_keeps_keys\<close>), files are installed whole or not at all, a key that
    is imported is the one that is loaded, TPM objects are flushed, access lists admit only the owner, the
    system and administrators, denied prompts are held off and authorizing returns (C28, C31, C34 to C38).
  \<^item> Memory: nothing of a key is left outside the page of a live key, and pages implement keys (C32, C33).

  Locales state the contracts between parts: what a reader of standard input promises (\<open>reader\<close>), a file
  system (\<open>lawful_os\<close>), a store of keys (\<open>key_store\<close>, with \<open>file_key_store\<close> and \<open>passphrase_key_store\<close>), the
  Keychain (\<open>keychain_item\<close>, \<open>lawful_security\<close>, \<open>silent_keychain\<close>), a TPM (\<open>tpm_objects\<close>, \<open>tpm_sessions\<close>,
  which give a \<open>tpm_backend\<close> of the policies) and an allocator (\<open>key_memory\<close>); what an invariant of the agent's table needs (\<open>table_invariant\<close> and its extensions) and what a
  relation between the states of a run needs (\<open>command_relation\<close> and its extensions, with \<open>command_field\<close> and
  \<open>keeping_host\<close> as two kinds of it). They are interpreted on the model's
  definitions, and those over a package on a sample of it.

  \<^bold>\<open>Parameters, bounds and fuel.\<close>

  Code outside \<open>src/\<close> is a field of a parameter record, and what is relied on of it is a named predicate:
  the ciphers, scrypt, base64 and serde (\<open>aead_correct\<close>, \<open>aead_authentic\<close>, \<open>base64_correct\<close>, ...), HPKE and the
  hashes, \<open>k256\<close> (\<open>curve_laws\<close>), \<open>url\<close> (\<open>url_query_law\<close>) and \<open>ureq\<close>, \<open>tempfile\<close> (\<open>tempfile_laws\<close>), \<open>security_framework\<close>
  (\<open>security_laws\<close>, \<open>prompt_laws\<close>), \<open>tss_esapi\<close> (\<open>tss_handles\<close>, \<open>tss_contents\<close>), Win32 (\<open>win_laws\<close>), the
  allocator (\<open>alloc_laws\<close>). Each predicate is shown for a concrete sample, on which the witnesses run.

  Loops that end are recursions with a measure. Four may go on for ever and are partial functions whose
  value is \<open>None\<close> when they do: the compare-and-swap loop (\<open>try_admit_from\<close>), trying and waiting for the gate
  (\<open>try_lock_gate\<close>, \<open>wait_for_gate\<close>: C38 shows that authorizing returns), and the listener (\<open>listen\<close>: C27).
  One loop has fuel: \<open>collect_missing\<close> pushes a path per round, so \<open>vec_limit\<close>, what a \<open>Vec\<close> may hold, bounds
  it, and its end is the abort of the allocator; it is enough where it exceeds the length of the path by
  two and the working directory exists (\<open>missing_ancestors_terminates\<close> in \<open>FileSys\<close>). Lengths are \<open>nat\<close> except where a width matters: \<open>u32\<close>
  fields of frames and of associated data, \<open>u64\<close> times and addresses, the \<open>usize\<close> counter of \<open>Admission\<close>.

  \<^bold>\<open>Not modelled.\<close>

  \<^item> Wiping of memory, except that of key pages: it changes no value that is read again. Messages on
    standard error.
  \<^item> In the file system: links, owners (except where \<open>AgentSocket\<close> asks for them) and the enforcement of
    permissions by the kernel. A call may fail instead.
  \<^item> Threads other than as interleavings of sections that hold a lock and of atomic operations; memory orderings
    of the counter of \<open>Admission\<close> weaker than that.
  \<^item> Windows: the home directory (\<open>user_home_dir\<close>), flushing a directory (\<open>sync_directory\<close>, which always succeeds)
    and wide paths. Constructors and accessors of the store types, which only wrap a path.
\<close>

end
